(* ===== verification/Prelude.thy ===== *)
theory Prelude
  imports Main "HOL-Library.Word" "HOL-Library.Multiset"
begin

text \<open>
  The prelude of the Nearhand development: the names of Rust's machine types, the
  operations of Rust's standard library the sources call (on integers, vectors, text and
  bytes), and the generic facts about them that the components share.

  Conventions. A \<open>uN\<close> of the source is an \<open>N word\<close>, so that \<open>+\<close> and \<open>-\<close>
  wrap as they do in the release profile (no overflow checks); \<open>usize\<close> values that only
  count what is in memory are \<open>nat\<close>. A \<open>str\<close> is the list of its Unicode scalar
  values, and \<open>utf8\<close> gives its bytes. A Rust \<open>Result\<close> is a sum with the error on
  the left. A loop that may not end is a \<open>partial_function\<close> into \<open>option\<close>, whose
  \<open>None\<close> means that the call does not return.
\<close>

named_theorems rust_simps \<open>unfolding rules for the Rust library operations\<close>

type_synonym u8 = "8 word"
type_synonym u16 = "16 word"
type_synonym u32 = "32 word"
type_synonym u64 = "64 word"
type_synonym bytes = "u8 list"
type_synonym rchar = nat
type_synonym str = "rchar list"

subsection \<open>Integers\<close>

definition saturating_sub :: "'a::len word \<Rightarrow> 'a word \<Rightarrow> 'a word" where
  "saturating_sub a b = (if a < b then 0 else a - b)"

definition checked_sub :: "'a::len word \<Rightarrow> 'a word \<Rightarrow> 'a word option" where
  "checked_sub a b = (if a < b then None else Some (a - b))"

definition saturating_add :: "'a::len word \<Rightarrow> 'a word \<Rightarrow> 'a word" where
  "saturating_add a b = (if a + b < a then - 1 else a + b)"

definition div_ceil :: "nat \<Rightarrow> nat \<Rightarrow> nat" where
  "div_ceil n d = (if n mod d = 0 then n div d else n div d + 1)"

definition clamp :: "'a::linorder \<Rightarrow> 'a \<Rightarrow> 'a \<Rightarrow> 'a" where
  "clamp x lo hi = (if x < lo then lo else if x > hi then hi else x)"

subsection \<open>Vectors\<close>

text \<open>\<open>position\<close> is the index of the first element that satisfies a predicate,
  \<open>reduce\<close> folds a non-empty sequence from its first element, \<open>swap_remove\<close> takes an
  element out by putting the last one in its place.\<close>

primrec position :: "('a \<Rightarrow> bool) \<Rightarrow> 'a list \<Rightarrow> nat option" where
  "position P [] = None"
| "position P (x # xs) = (if P x then Some 0 else map_option Suc (position P xs))"

primrec reduce :: "('a \<Rightarrow> 'a \<Rightarrow> 'a) \<Rightarrow> 'a list \<Rightarrow> 'a option" where
  "reduce f [] = None"
| "reduce f (x # xs) = Some (foldl f x xs)"

text \<open>\<open>somes\<close> is \<open>flatten\<close> on a sequence of options.\<close>

primrec somes :: "'a option list \<Rightarrow> 'a list" where
  "somes [] = []"
| "somes (x # xs) = (case x of None \<Rightarrow> somes xs | Some y \<Rightarrow> y # somes xs)"

definition swap_remove :: "nat \<Rightarrow> 'a list \<Rightarrow> 'a list" where
  "swap_remove i xs = butlast (xs[i := last xs])"

subsection \<open>Bytes of an integer\<close>

primrec to_le_bytes :: "nat \<Rightarrow> nat \<Rightarrow> bytes" where
  "to_le_bytes 0 n = []"
| "to_le_bytes (Suc k) n = word_of_nat (n mod 256) # to_le_bytes k (n div 256)"

primrec from_le_bytes :: "bytes \<Rightarrow> nat" where
  "from_le_bytes [] = 0"
| "from_le_bytes (b # bs) = unat b + 256 * from_le_bytes bs"

definition to_be_bytes :: "nat \<Rightarrow> nat \<Rightarrow> bytes" where
  "to_be_bytes k n = rev (to_le_bytes k n)"

definition from_be_bytes :: "bytes \<Rightarrow> nat" where
  "from_be_bytes bs = from_le_bytes (rev bs)"

subsection \<open>Text\<close>

definition lit :: "string \<Rightarrow> str" where
  "lit s = map of_char s"

text \<open>UTF-8, as every Rust string is stored.\<close>

definition utf8_char :: "rchar \<Rightarrow> bytes" where
  "utf8_char c =
     (if c < 128 then [word_of_nat c]
      else if c < 2048 then
        [word_of_nat (192 + c div 64), word_of_nat (128 + c mod 64)]
      else if c < 65536 then
        [word_of_nat (224 + c div 4096), word_of_nat (128 + c div 64 mod 64),
         word_of_nat (128 + c mod 64)]
      else
        [word_of_nat (240 + c div 262144), word_of_nat (128 + c div 4096 mod 64),
         word_of_nat (128 + c div 64 mod 64), word_of_nat (128 + c mod 64)])"

definition utf8 :: "str \<Rightarrow> bytes" where
  "utf8 s = concat (map utf8_char s)"

text \<open>The scalar values: what a Rust \<open>char\<close> can hold.\<close>

definition is_scalar :: "rchar \<Rightarrow> bool" where
  "is_scalar c \<longleftrightarrow> c < 55296 \<or> (57344 \<le> c \<and> c < 1114112)"

text \<open>\<open>char::is_control\<close> (general category Cc) and \<open>char::is_whitespace\<close>
  (the property White\_Space).\<close>

definition is_control :: "rchar \<Rightarrow> bool" where
  "is_control c \<longleftrightarrow> c < 32 \<or> (127 \<le> c \<and> c < 160)"

definition is_whitespace :: "rchar \<Rightarrow> bool" where
  "is_whitespace c \<longleftrightarrow>
     (9 \<le> c \<and> c \<le> 13) \<or> c = 32 \<or> c = 133 \<or> c = 160 \<or> c = 5760 \<or>
     (8192 \<le> c \<and> c \<le> 8202) \<or> c = 8232 \<or> c = 8233 \<or> c = 8239 \<or> c = 8287 \<or> c = 12288"

definition is_ascii_digit :: "u8 \<Rightarrow> bool" where
  "is_ascii_digit b \<longleftrightarrow> 48 \<le> b \<and> b \<le> 57"

definition digit_value :: "u8 \<Rightarrow> nat" where
  "digit_value b = unat b - 48"

text \<open>The number a run of decimal digits denotes, and a number padded to a width with
  zeros.\<close>

definition decimal :: "bytes \<Rightarrow> nat" where
  "decimal bs = foldl (\<lambda>n b. 10 * n + digit_value b) 0 bs"

primrec digits_of :: "nat \<Rightarrow> nat \<Rightarrow> str" where
  "digits_of 0 n = []"
| "digits_of (Suc k) n = digits_of k (n div 10) @ [48 + n mod 10]"

lemmas [rust_simps] = saturating_sub_def checked_sub_def clamp_def

subsection \<open>Facts about integers\<close>

lemma unat_saturating_sub: "unat (saturating_sub a b) = unat a - unat b"
  by (simp add: saturating_sub_def word_less_nat_alt unat_sub_if_size)

lemma checked_sub_Some_iff:
  "checked_sub a b = Some c \<longleftrightarrow> b \<le> a \<and> c = a - b"
  by (auto simp: checked_sub_def not_less)

lemma clamp_bounds: "lo \<le> hi \<Longrightarrow> lo \<le> clamp x lo hi \<and> clamp x lo hi \<le> hi"
  by (auto simp: clamp_def)

lemma clamp_id: "lo \<le> x \<Longrightarrow> x \<le> hi \<Longrightarrow> clamp x lo hi = x"
  by (auto simp: clamp_def)

lemma div_ceil_le_iff: "0 < d \<Longrightarrow> div_ceil n d \<le> k \<longleftrightarrow> n \<le> k * d"
proof -
  assume d: "0 < d"
  have split: "n = n div d * d + n mod d" by simp
  show ?thesis
  proof (cases "n mod d = 0")
    case True
    then have "n = n div d * d" using split by simp
    then show ?thesis using d True
      by (metis div_ceil_def mult_le_cancel2)
  next
    case False
    have "n div d < k \<longleftrightarrow> n < k * d" using d by (simp add: div_less_iff_less_mult)
    moreover have "n \<noteq> k * d" using False by auto
    ultimately show ?thesis using False by (auto simp: div_ceil_def)
  qed
qed

subsection \<open>Facts about vectors\<close>

lemma position_None_iff: "position P xs = None \<longleftrightarrow> (\<forall>x\<in>set xs. \<not> P x)"
  by (induction xs) auto

lemma position_Some_D:
  "position P xs = Some i \<Longrightarrow> i < length xs \<and> P (xs ! i) \<and> (\<forall>j<i. \<not> P (xs ! j))"
proof (induction xs arbitrary: i)
  case Nil
  then show ?case by simp
next
  case (Cons x xs)
  show ?case
  proof (cases "P x")
    case True
    with Cons.prems show ?thesis by simp
  next
    case False
    with Cons.prems obtain k where k: "position P xs = Some k" "i = Suc k" by auto
    from Cons.IH [OF k(1)] False k(2) show ?thesis
      by (auto simp: less_Suc_eq_0_disj)
  qed
qed

lemma position_Some_length: "position P xs = Some i \<Longrightarrow> i < length xs"
  and position_Some_holds: "position P xs = Some i \<Longrightarrow> P (xs ! i)"
  by (auto dest: position_Some_D)

lemma foldl_in_set:
  "(\<And>a b. f a b = a \<or> f a b = b) \<Longrightarrow> foldl f x xs \<in> insert x (set xs)"
proof (induction xs arbitrary: x)
  case Nil
  then show ?case by simp
next
  case (Cons y xs)
  have "foldl f (f x y) xs \<in> insert (f x y) (set xs)" using Cons by blast
  with Cons.prems [of x y] show ?case by auto
qed

lemma reduce_None_iff [simp]: "reduce f xs = None \<longleftrightarrow> xs = []"
  by (cases xs) auto

lemma reduce_in_set:
  "reduce f xs = Some y \<Longrightarrow> (\<And>a b. f a b = a \<or> f a b = b) \<Longrightarrow> y \<in> set xs"
  using foldl_in_set [of f] by (cases xs) fastforce+

lemma somes_append [simp]: "somes (xs @ ys) = somes xs @ somes ys"
  by (induction xs) (auto split: option.splits)

lemma somes_replicate_None [simp]: "somes (replicate n None) = []"
  by (induction n) auto

lemma set_somes: "set (somes xs) = {x. Some x \<in> set xs}"
  by (induction xs) (auto split: option.splits)

lemma somes_map_Some [simp]: "somes (map (\<lambda>x. Some (f x)) xs) = map f xs"
  by (induction xs) auto

lemma length_somes_le: "length (somes xs) \<le> length xs"
  by (induction xs) (auto split: option.splits)

lemma somes_full: "length (somes xs) = length xs \<longleftrightarrow> None \<notin> set xs"
proof (induction xs)
  case (Cons x xs)
  then show ?case using length_somes_le [of xs] by (cases x) auto
qed simp

lemma somes_update:
  "i < length xs \<Longrightarrow> xs ! i = None \<Longrightarrow>
   mset (somes (xs[i := Some d])) = add_mset d (mset (somes xs))"
proof (induction xs arbitrary: i)
  case (Cons x xs)
  then show ?case by (cases i; cases x) auto
qed simp

lemma replicate_two: "replicate 2 x = [x, x]"
  by (simp add: numeral_2_eq_2)

lemma length_concat_mset: "mset xss = mset yss \<Longrightarrow> length (concat xss) = length (concat yss)"
  by (metis length_concat mset_map sum_mset_sum_list)

lemma map_update_same:
  "i < length xs \<Longrightarrow> f y = f (xs ! i) \<Longrightarrow> map f (xs[i := y]) = map f xs"
  by (metis list_update_id map_update nth_map)

lemma length_swap_remove [simp]: "length (swap_remove i xs) = length xs - 1"
  by (simp add: swap_remove_def)

lemma swap_remove_split:
  assumes "i < length xs"
  shows "mset xs = add_mset (xs ! i) (mset (swap_remove i xs))"
proof -
  obtain ys y where xs: "xs = ys @ [y]"
    using assms by (cases xs rule: rev_cases) auto
  show ?thesis
  proof (cases "i = length ys")
    case True
    then show ?thesis by (simp add: xs swap_remove_def)
  next
    case False
    with assms xs have i: "i < length ys" by simp
    then have "swap_remove i xs = ys[i := y]"
      by (simp add: xs swap_remove_def list_update_append butlast_append)
    moreover have "mset ys = add_mset (ys ! i) (mset ys - {#ys ! i#})"
      using i by simp
    ultimately show ?thesis using i
      by (simp add: xs nth_append mset_update add_mset_commute)
  qed
qed

lemma set_swap_remove_subset: "i < length xs \<Longrightarrow> set (swap_remove i xs) \<subseteq> set xs"
  using swap_remove_split [of i xs] by (metis set_mset_add_mset_insert set_mset_mset subset_insertI)

lemma set_swap_remove_distinct:
  assumes "i < length xs" and "distinct xs"
  shows "set (swap_remove i xs) = set xs - {xs ! i}"
proof -
  have same: "mset xs = mset (xs ! i # swap_remove i xs)" using swap_remove_split [OF assms(1)] by simp
  then have "distinct (xs ! i # swap_remove i xs)" using assms(2) mset_eq_imp_distinct_iff by blast
  moreover have "set xs = set (xs ! i # swap_remove i xs)" by (rule mset_eq_setD [OF same])
  ultimately show ?thesis by auto
qed

subsection \<open>Facts about bytes and text\<close>

lemma length_to_le_bytes [simp]: "length (to_le_bytes k n) = k"
  by (induction k arbitrary: n) auto

lemma length_to_be_bytes [simp]: "length (to_be_bytes k n) = k"
  by (simp add: to_be_bytes_def)

lemma from_to_le_bytes: "from_le_bytes (to_le_bytes k n) = n mod 256 ^ k"
proof (induction k arbitrary: n)
  case (Suc k)
  have "unat (word_of_nat (n mod 256) :: u8) = n mod 256" by (simp add: unat_of_nat take_bit_eq_mod)
  then show ?case using Suc by (simp add: mod_mult2_eq)
qed simp

lemma from_to_be_bytes: "from_be_bytes (to_be_bytes k n) = n mod 256 ^ k"
  by (simp add: from_be_bytes_def to_be_bytes_def from_to_le_bytes)

lemma to_be_bytes_inj: "n < 256 ^ k \<Longrightarrow> m < 256 ^ k \<Longrightarrow> to_be_bytes k n = to_be_bytes k m \<Longrightarrow> n = m"
  by (metis from_to_be_bytes mod_less)

lemma unat_u8: "m < 256 \<Longrightarrow> unat (word_of_nat m :: u8) = m"
  by (simp add: unat_of_nat take_bit_eq_mod)

lemma byte_bound: "unat (b :: u8) < 256"
  using unsigned_less [of b, where ?'a = nat] by simp

lemma from_le_bytes_bound: "from_le_bytes bs < 256 ^ length bs"
proof (induction bs)
  case (Cons b bs)
  have "unat b < 256" by (rule byte_bound)
  with Cons show ?case by simp
qed simp

lemma to_from_le_bytes: "to_le_bytes (length bs) (from_le_bytes bs) = bs"
proof (induction bs)
  case (Cons b bs)
  have "unat b < 256" by (rule byte_bound)
  then have "(unat b + 256 * from_le_bytes bs) mod 256 = unat b"
    "(unat b + 256 * from_le_bytes bs) div 256 = from_le_bytes bs" by simp_all
  then show ?case using Cons by simp
qed simp

lemma utf8_simps [simp]: "utf8 [] = []" "utf8 (c # s) = utf8_char c @ utf8 s"
  "utf8 (s @ t) = utf8 s @ utf8 t"
  by (simp_all add: utf8_def)

lemma utf8_ascii: "\<forall>c\<in>set s. c < 128 \<Longrightarrow> utf8 s = map word_of_nat s"
  by (induction s) (auto simp: utf8_char_def)

end
