(* ===== verification/Access.thy ===== *)
theory Access
  imports Prelude
begin

text \<open>
  Proving a password to an agent without sending it (\<open>crates/core/src/access.rs\<close>):
  what an agent can require of a viewer, the material the exchange runs with, the two
  halves of the SPAKE2 exchange with its channel binding, and the seeded random stream.

  The cryptography (PBKDF2, HKDF, HMAC, SPAKE2) is not the repository's: it is the
  record \<open>crypto\<close> of functions every definition takes. What the code relies on is
  stated as predicates over it, used as hypotheses where they are needed.
\<close>

subsection \<open>Constants\<close>

definition BINDING_LEN :: nat where "BINDING_LEN = 32"
definition BINDING_LABEL :: bytes where "BINDING_LABEL = utf8 (lit ''nearhand access binding v1'')"
definition PROOF_LEN :: nat where "PROOF_LEN = 32"
definition VIEWER :: bytes where "VIEWER = utf8 (lit ''nearhand-viewer'')"
definition AGENT :: bytes where "AGENT = utf8 (lit ''nearhand-agent'')"
definition VIEWER_PROOF :: bytes where "VIEWER_PROOF = utf8 (lit ''nearhand access viewer proof v1'')"
definition AGENT_PROOF :: bytes where "AGENT_PROOF = utf8 (lit ''nearhand access agent proof v1'')"
definition TRANSCRIPT :: bytes where "TRANSCRIPT = utf8 (lit ''nearhand access v1'')"
definition MAX_SALT :: nat where "MAX_SALT = 64"
definition MAX_ITERATIONS :: u32 where "MAX_ITERATIONS = 6000000"

subsection \<open>What an agent asks for\<close>

datatype secret = OneTime | Access bytes u32

datatype required = Either secret | Password secret | Grant | Both secret

fun required_secret :: "required \<Rightarrow> secret option" where
  "required_secret (Either s) = Some s"
| "required_secret (Password s) = Some s"
| "required_secret (Both s) = Some s"
| "required_secret required.Grant = None"

fun password_is_enough :: "required \<Rightarrow> bool" where
  "password_is_enough (Either _) = True"
| "password_is_enough (Password _) = True"
| "password_is_enough _ = False"

fun grant_is_enough :: "required \<Rightarrow> bool" where
  "grant_is_enough (Either _) = True"
| "grant_is_enough required.Grant = True"
| "grant_is_enough _ = False"

fun takes_grants :: "required \<Rightarrow> bool" where
  "takes_grants (Password _) = False"
| "takes_grants _ = True"

fun password_after_grant :: "required \<Rightarrow> bool" where
  "password_after_grant (Both _) = True"
| "password_after_grant _ = False"

datatype refused = Malformed | NoMatch | Unreasonable

subsection \<open>The random stream a seed gives\<close>

record 'prk stream =
  st_hkdf :: 'prk
  st_block :: u32

record ('prk, 'st) crypto =
  pbkdf2_hmac :: "bytes \<Rightarrow> bytes \<Rightarrow> u32 \<Rightarrow> bytes"
  hkdf_new :: "bytes option \<Rightarrow> bytes \<Rightarrow> 'prk"
  hkdf_expand :: "'prk \<Rightarrow> bytes \<Rightarrow> nat \<Rightarrow> bytes option"
  hmac :: "bytes \<Rightarrow> bytes \<Rightarrow> bytes"
  spake_start_a :: "bytes \<Rightarrow> bytes \<Rightarrow> bytes \<Rightarrow> 'prk stream \<Rightarrow> 'st \<times> bytes"
  spake_start_b :: "bytes \<Rightarrow> bytes \<Rightarrow> bytes \<Rightarrow> 'prk stream \<Rightarrow> 'st \<times> bytes"
  spake_finish :: "'st \<Rightarrow> bytes \<Rightarrow> bytes option"

definition stream_new :: "('prk, 'st) crypto \<Rightarrow> bytes \<Rightarrow> 'prk stream" where
  "stream_new C seed = \<lparr>st_hkdf = hkdf_new C None seed, st_block = 0\<rparr>"

text \<open>Filling a buffer of \<open>n\<close> bytes, in chunks of at most 8160, a fresh counter each.
  \<open>None\<close> is the panic of the \<open>expect\<close>.\<close>

function fill_bytes :: "('prk, 'st) crypto \<Rightarrow> 'prk stream \<Rightarrow> nat \<Rightarrow> ('prk stream \<times> bytes) option" where
  "fill_bytes C s n =
     (if n = 0 then Some (s, [])
      else
        let len = min 8160 n in
        case hkdf_expand C (st_hkdf s) (to_be_bytes 4 (unat (st_block s))) len of
          None \<Rightarrow> None
        | Some chunk \<Rightarrow>
            (case fill_bytes C (s\<lparr>st_block := st_block s + 1\<rparr>) (n - len) of
               None \<Rightarrow> None
             | Some (s', rest) \<Rightarrow> Some (s', chunk @ rest)))"
  by pat_completeness auto
termination
  by (relation "measure (\<lambda>(C, s, n). n)") auto

declare fill_bytes.simps [simp del]

subsection \<open>The material the exchange runs with\<close>

fun material :: "('prk, 'st) crypto \<Rightarrow> secret \<Rightarrow> str \<Rightarrow> refused + bytes" where
  "material C OneTime typed = Inr (utf8 (filter (\<lambda>c. \<not> is_whitespace c) typed))"
| "material C (Access salt iterations) typed =
     (if salt = [] \<or> length salt > MAX_SALT then Inl Unreasonable
      else if iterations = 0 \<or> iterations > MAX_ITERATIONS then Inl Unreasonable
      else Inr (pbkdf2_hmac C (utf8 typed) salt iterations))"

subsection \<open>Transcript and proofs\<close>

definition transcript :: "bytes \<Rightarrow> bytes \<Rightarrow> bytes \<Rightarrow> bytes" where
  "transcript viewer agent binding =
     TRANSCRIPT @ concat (map (\<lambda>part. to_be_bytes 4 (length part) @ part) [viewer, agent, binding])"

text \<open>\<open>None\<close> is the panic of the first \<open>expect\<close>; HMAC takes keys of every length.\<close>

definition proof_of :: "('prk, 'st) crypto \<Rightarrow> bytes \<Rightarrow> bytes \<Rightarrow> bytes \<Rightarrow> bytes \<Rightarrow> bytes option" where
  "proof_of C key binding whose script =
     (case hkdf_expand C (hkdf_new C (Some binding) key) whose 32 of
        None \<Rightarrow> None
      | Some mac_key \<Rightarrow> Some (hmac C mac_key script))"

definition same :: "bytes \<Rightarrow> bytes \<Rightarrow> refused + unit" where
  "same ours theirs = (if ours = theirs then Inr () else Inl NoMatch)"

subsection \<open>The two halves\<close>

record 'st viewer_half =
  vh_state :: 'st
  vh_binding :: bytes
  vh_ours :: bytes

record proven =
  pr_theirs :: bytes

record agent_half =
  ah_theirs :: bytes
  ah_ours :: bytes

definition viewer_start ::
  "('prk, 'st) crypto \<Rightarrow> bytes \<Rightarrow> bytes \<Rightarrow> bytes \<Rightarrow> 'st viewer_half \<times> bytes" where
  "viewer_start C mat binding seed =
     (let (state, ours) = spake_start_a C mat VIEWER AGENT (stream_new C seed) in
      (\<lparr>vh_state = state, vh_binding = binding, vh_ours = ours\<rparr>, ours))"

text \<open>The outer option of the two functions below is the panic of \<open>proof_of\<close>.\<close>

definition viewer_prove ::
  "('prk, 'st) crypto \<Rightarrow> 'st viewer_half \<Rightarrow> bytes \<Rightarrow> (refused + proven \<times> bytes) option" where
  "viewer_prove C v theirs =
     (case spake_finish C (vh_state v) theirs of
        None \<Rightarrow> Some (Inl Malformed)
      | Some key \<Rightarrow>
          let script = transcript (vh_ours v) theirs (vh_binding v) in
          case proof_of C key (vh_binding v) VIEWER_PROOF script of
            None \<Rightarrow> None
          | Some ours \<Rightarrow>
              (case proof_of C key (vh_binding v) AGENT_PROOF script of
                 None \<Rightarrow> None
               | Some expected \<Rightarrow> Some (Inr (\<lparr>pr_theirs = expected\<rparr>, ours))))"

definition proven_check :: "proven \<Rightarrow> bytes \<Rightarrow> refused + unit" where
  "proven_check p theirs = same (pr_theirs p) theirs"

definition agent_answer ::
  "('prk, 'st) crypto \<Rightarrow> bytes \<Rightarrow> bytes \<Rightarrow> bytes \<Rightarrow> bytes \<Rightarrow> (refused + agent_half \<times> bytes) option" where
  "agent_answer C mat binding seed theirs =
     (let (state, ours) = spake_start_b C mat VIEWER AGENT (stream_new C seed) in
      case spake_finish C state theirs of
        None \<Rightarrow> Some (Inl Malformed)
      | Some key \<Rightarrow>
          let script = transcript theirs ours binding in
          case proof_of C key binding VIEWER_PROOF script of
            None \<Rightarrow> None
          | Some viewers \<Rightarrow>
              (case proof_of C key binding AGENT_PROOF script of
                 None \<Rightarrow> None
               | Some agents \<Rightarrow>
                   Some (Inr (\<lparr>ah_theirs = viewers, ah_ours = agents\<rparr>, ours))))"

definition agent_check :: "agent_half \<Rightarrow> bytes \<Rightarrow> refused + bytes" where
  "agent_check a theirs =
     (case same (ah_theirs a) theirs of
        Inl e \<Rightarrow> Inl e
      | Inr _ \<Rightarrow> Inr (ah_ours a))"

end
