(* ===== verification/Grant.thy ===== *)
theory Grant
  imports Prelude
begin

text \<open>
  Grants: the server's word that a user may connect to a device
  (\<open>crates/core/src/grant.rs\<close>), their signing and checking
  (\<open>crates/transport/src/grant.rs\<close>) and the agent's acceptance of them
  (\<open>crates/agent/src/grants.rs\<close>).

  The postcard encoding, SHA-256 and Ed25519 are parameters.
\<close>

definition SIGNING_CONTEXT :: bytes where
  "SIGNING_CONTEXT = utf8 (lit ''nearhand grant v1'') @ [0]"

definition LIFETIME_SECS :: u64 where "LIFETIME_SECS = 5 * 60"

subsection \<open>Roles\<close>

datatype role = View | Control | Full

text \<open>The derived order: a role that comes later in the declaration allows more.\<close>

definition role_le :: "role \<Rightarrow> role \<Rightarrow> bool" where
  "role_le a b \<longleftrightarrow> a = View \<or> b = Full \<or> a = b"

instantiation role :: linorder
begin

definition less_eq_role :: "role \<Rightarrow> role \<Rightarrow> bool" where
  "less_eq_role = role_le"

definition less_role :: "role \<Rightarrow> role \<Rightarrow> bool" where
  "less_role a b \<longleftrightarrow> a \<le> b \<and> a \<noteq> (b :: role)"

instance
proof
  fix a b c :: role
  show "a < b \<longleftrightarrow> a \<le> b \<and> \<not> b \<le> a"
    by (cases a; cases b) (auto simp: less_eq_role_def role_le_def less_role_def)
  show "a \<le> a" by (simp add: less_eq_role_def role_le_def)
  show "a \<le> b \<Longrightarrow> b \<le> c \<Longrightarrow> a \<le> c"
    by (cases a; cases b; cases c) (auto simp: less_eq_role_def role_le_def)
  show "a \<le> b \<Longrightarrow> b \<le> a \<Longrightarrow> a = b"
    by (cases a; cases b) (auto simp: less_eq_role_def role_le_def)
  show "a \<le> b \<or> b \<le> a"
    by (cases a; cases b) (auto simp: less_eq_role_def role_le_def)
qed

end

fun role_as_str :: "role \<Rightarrow> str" where
  "role_as_str View = lit ''view''"
| "role_as_str Control = lit ''control''"
| "role_as_str Full = lit ''full''"

definition controls :: "role \<Rightarrow> bool" where
  "controls r \<longleftrightarrow> r \<ge> Control"

definition role_from_str :: "str \<Rightarrow> str + role" where
  "role_from_str s =
     (if s = lit ''view'' then Inr View
      else if s = lit ''control'' then Inr Control
      else if s = lit ''full'' then Inr Full
      else Inl (s @ lit '' is not a role: view, control or full''))"

subsection \<open>Grants\<close>

record grant =
  g_device :: bytes
  g_user :: str
  g_role :: role
  g_issued_at :: u64
  g_expires_at :: u64
  g_nonce :: bytes

record signed_grant =
  sg_grant :: bytes
  sg_signature :: bytes
  sg_server_certificate :: bytes

end
