(* ===== verification/Proto.thy ===== *)
theory Proto
  imports Access Grant
begin

text \<open>
  The wire protocol's messages (\<open>crates/core/src/proto.rs\<close>), as the datatypes and
  records of the source, with the one check the file has: whether a pointer image agrees
  with itself.
\<close>

definition PROTOCOL_VERSION :: u16 where "PROTOCOL_VERSION = 6"

datatype codec = H264 | Hevc | Av1

record caps =
  codecs :: "codec list"
  max_width :: u16
  max_height :: u16
  max_fps :: u8

record monitor =
  m_id :: u8
  m_width :: u16
  m_height :: u16
  m_x :: "16 word"
  m_y :: "16 word"
  m_primary :: bool

text \<open>The control stream. An \<open>i16\<close> is a 16-bit word read with \<open>sint\<close>.\<close>

datatype control =
    Hello u16 caps
  | StartVideo u8 codec u8
  | RequestKeyframe
  | SetQuality u32 u8
  | MonitorList "monitor list"
  | AuthRequired required
  | AuthStart bytes
  | AuthAnswer bytes
  | AuthProve bytes
  | AuthProved bytes
  | Present signed_grant
  | AwaitingApproval
  | Bye
  | Ping u64
  | Pong u64 u64
  | Nack u32 "u16 list"

record video_chunk =
  vc_frame_id :: u32
  vc_chunk :: u16
  vc_chunks :: u16
  vc_keyframe :: bool
  vc_capture_ts_us :: u64
  vc_data :: bytes

datatype stream_kind = InputStream | CursorStream | ClipboardStream

datatype clipboard = ClipboardText str

definition MAX_TEXT :: nat where "MAX_TEXT = 256 * 1024"

record cursor_shape =
  cs_width :: u16
  cs_height :: u16
  cs_hot_x :: u16
  cs_hot_y :: u16
  cs_rgba :: bytes

datatype cursor = Shape cursor_shape | Visible bool

definition MAX_SIDE :: u16 where "MAX_SIDE = 256"

definition is_valid :: "cursor_shape \<Rightarrow> bool" where
  "is_valid s \<longleftrightarrow>
     cs_width s > 0 \<and> cs_height s > 0 \<and>
     cs_width s \<le> MAX_SIDE \<and> cs_height s \<le> MAX_SIDE \<and>
     cs_hot_x s < cs_width s \<and> cs_hot_y s < cs_height s \<and>
     length (cs_rgba s) = unat (cs_width s) * unat (cs_height s) * 4"

datatype input =
    MouseMove u16 u16
  | MouseButton u8 bool
  | Wheel "16 word" "16 word"
  | Key u16 bool
  | Text str
  | SecureAttention

definition WHEEL_NOTCH :: "16 word" where "WHEEL_NOTCH = 120"

datatype mouse_button = LEFT | RIGHT | MIDDLE | BACK | FORWARD

fun button_number :: "mouse_button \<Rightarrow> u8" where
  "button_number LEFT = 0"
| "button_number RIGHT = 1"
| "button_number MIDDLE = 2"
| "button_number BACK = 3"
| "button_number FORWARD = 4"

datatype close_code =
    NORMAL | PROTOCOL | VERSION_MISMATCH | BUSY | PIPELINE_FAILED | AUTH_FAILED
  | DECLINED | ENDED_BY_HOST | GOING_AWAY

fun close_number :: "close_code \<Rightarrow> u32" where
  "close_number NORMAL = 0"
| "close_number PROTOCOL = 1"
| "close_number VERSION_MISMATCH = 2"
| "close_number BUSY = 3"
| "close_number PIPELINE_FAILED = 4"
| "close_number AUTH_FAILED = 5"
| "close_number DECLINED = 6"
| "close_number ENDED_BY_HOST = 7"
| "close_number GOING_AWAY = 8"

text \<open>An image the check accepts is never read out of bounds: every pixel of its area,
  the pointing one included, has its four bytes.\<close>

lemma is_valid_pixels:
  assumes "is_valid s" and "x < unat (cs_width s)" and "y < unat (cs_height s)"
  shows "(y * unat (cs_width s) + x) * 4 + 3 < length (cs_rgba s)"
proof -
  let ?w = "unat (cs_width s)" and ?h = "unat (cs_height s)"
  have "Suc y * ?w \<le> ?h * ?w" using assms(3) by (intro mult_le_mono1) simp
  then have "y * ?w + x < ?h * ?w" using assms(2) by simp
  then have "(y * ?w + x) * 4 + 4 \<le> ?h * ?w * 4" by simp
  moreover have "length (cs_rgba s) = ?w * ?h * 4" using assms(1) by (simp add: is_valid_def)
  ultimately show ?thesis by (simp add: mult.commute)
qed

lemma is_valid_size: "is_valid s \<Longrightarrow> length (cs_rgba s) \<le> 262144"
proof -
  assume v: "is_valid s"
  then have "unat (cs_width s) \<le> 256" "unat (cs_height s) \<le> 256"
    by (auto simp: is_valid_def MAX_SIDE_def word_le_nat_alt)
  then have "unat (cs_width s) * unat (cs_height s) \<le> 256 * 256" by (rule mult_le_mono)
  with v show ?thesis by (simp add: is_valid_def mult.commute)
qed

end
