(* ===== verification/Wire.thy ===== *)
theory Wire
  imports Prelude
begin

text \<open>
  Framing for messages on reliable streams (\<open>crates/core/src/wire.rs\<close>) and the
  crate's error type (\<open>crates/core/src/lib.rs\<close>). The postcard serialiser is not the
  repository's: the definitions take it as the arguments \<open>ser\<close> and \<open>de\<close>.
\<close>

text \<open>The errors, over the serialiser's own error type.\<close>

datatype 'e error =
    Encode 'e
  | Decode 'e
  | MessageTooLarge nat
  | FrameTooLarge nat
  | DatagramTooSmall nat

definition HEADER_LEN :: nat where "HEADER_LEN = 4"
definition MAX_MESSAGE_LEN :: nat where "MAX_MESSAGE_LEN = 320 * 1024"

definition encode :: "('a \<Rightarrow> 'e + bytes) \<Rightarrow> 'a \<Rightarrow> 'e error + bytes" where
  "encode ser message =
     (case ser message of
        Inl e \<Rightarrow> Inl (Encode e)
      | Inr body \<Rightarrow>
          let out = replicate HEADER_LEN 0 @ body;
              body_len = length out - HEADER_LEN in
          if body_len > MAX_MESSAGE_LEN then Inl (MessageTooLarge body_len)
          else Inr (to_le_bytes HEADER_LEN (body_len mod 2 ^ 32) @ drop HEADER_LEN out))"

definition body_len :: "bytes \<Rightarrow> 'e error + nat" where
  "body_len header =
     (let len = from_le_bytes header in
      if len > MAX_MESSAGE_LEN then Inl (MessageTooLarge len) else Inr len)"

definition decode :: "(bytes \<Rightarrow> 'e + 'a) \<Rightarrow> bytes \<Rightarrow> 'e error + 'a" where
  "decode de body = (case de body of Inl e \<Rightarrow> Inl (Decode e) | Inr m \<Rightarrow> Inr m)"

text \<open>A serialiser whose reader gives back what was written, as postcard documents.\<close>

definition reads_back :: "('a \<Rightarrow> 'e + bytes) \<Rightarrow> (bytes \<Rightarrow> 'e + 'a) \<Rightarrow> bool" where
  "reads_back ser de \<longleftrightarrow> (\<forall>m bs. ser m = Inr bs \<longrightarrow> de bs = Inr m)"

end
