(* ===== verification/Video.thy ===== *)
theory Video
  imports Proto Wire
begin

text \<open>
  Video over unreliable datagrams (\<open>crates/core/src/video.rs\<close>): splitting encoded
  frames into chunks, and the reassembler that puts them back together, asks for repairs
  and gives up on what does not come.

  The reassembler's loops \<open>drain\<close> and \<open>expire\<close> are \<open>partial_function\<close>s: whether
  they end depends on the state (theory \<open>Video_Liveness\<close>), so every operation that runs
  them returns an option, and \<open>None\<close> means that the call does not return.
\<close>

subsection \<open>Splitting a frame\<close>

definition CHUNK_OVERHEAD :: nat where "CHUNK_OVERHEAD = 32"
definition MIN_DATAGRAM :: nat where "MIN_DATAGRAM = CHUNK_OVERHEAD + 256"
definition MAX_PENDING :: nat where "MAX_PENDING = 64"
definition MAX_GAP_NACKS :: nat where "MAX_GAP_NACKS = 32"
definition MAX_REMEMBERED_GAPS :: nat where "MAX_REMEMBERED_GAPS = 4 * MAX_GAP_NACKS"

definition packetize ::
  "u32 \<Rightarrow> bool \<Rightarrow> u64 \<Rightarrow> bytes \<Rightarrow> nat \<Rightarrow> 'e error + video_chunk list" where
  "packetize frame_id keyframe capture_ts_us data max_datagram =
     (if max_datagram < MIN_DATAGRAM then Inl (DatagramTooSmall max_datagram)
      else
        let payload = max_datagram - CHUNK_OVERHEAD;
            count = max (div_ceil (length data) payload) 1 in
        if count \<ge> 2 ^ 16 then Inl (FrameTooLarge (length data))
        else Inr (map (\<lambda>chunk.
               let start = chunk * payload;
                   end' = min (start + payload) (length data) in
               \<lparr>vc_frame_id = frame_id, vc_chunk = word_of_nat chunk,
                vc_chunks = word_of_nat count, vc_keyframe = keyframe,
                vc_capture_ts_us = capture_ts_us,
                vc_data = take (end' - start) (drop start data)\<rparr>) [0..<count]))"

definition encode_chunk :: "(video_chunk \<Rightarrow> 'e + bytes) \<Rightarrow> video_chunk \<Rightarrow> 'e error + bytes" where
  "encode_chunk ser chunk = (case ser chunk of Inl e \<Rightarrow> Inl (Encode e) | Inr b \<Rightarrow> Inr b)"

definition decode_chunk :: "(bytes \<Rightarrow> 'e + video_chunk) \<Rightarrow> bytes \<Rightarrow> 'e error + video_chunk" where
  "decode_chunk de datagram = (case de datagram of Inl e \<Rightarrow> Inl (Decode e) | Inr c \<Rightarrow> Inr c)"

subsection \<open>The reassembler's state\<close>

record assembled_frame =
  af_frame_id :: u32
  af_keyframe :: bool
  af_capture_ts_us :: u64
  af_data :: bytes

record missing =
  ms_frame_id :: u32
  ms_chunks :: "u16 list"

record timing =
  quiet_us :: u64
  retry_us :: u64
  give_up_us :: u64

record reassembly_stats =
  delivered :: u64
  repaired :: u64
  incomplete :: u64
  dropped_waiting_for_keyframe :: u64
  late_chunks :: u64
  duplicate_chunks :: u64
  invalid_chunks :: u64
  nacked :: u64

record pending =
  p_frame_id :: u32
  p_keyframe :: bool
  p_capture_ts_us :: u64
  p_parts :: "bytes option list"
  p_received :: nat
  p_bytes :: nat
  p_highest :: u16
  p_first_us :: u64
  p_last_chunk_us :: u64
  p_nacked_us :: "u64 option"

definition complete :: "pending \<Rightarrow> bool" where
  "complete p \<longleftrightarrow> p_received p = length (p_parts p)"

record reassembler =
  pendings :: "pending list"
  ready :: "assembled_frame list"
  last_settled :: "u32 option"
  gap_nacks :: "(u32 \<times> u64) list"
  waiting_for_keyframe :: bool
  keyframe_wanted :: bool
  stats :: reassembly_stats

definition reassembler_new :: reassembler where
  "reassembler_new =
     \<lparr>pendings = [], ready = [], last_settled = None, gap_nacks = [],
      waiting_for_keyframe = True, keyframe_wanted = False,
      stats = \<lparr>delivered = 0, repaired = 0, incomplete = 0, dropped_waiting_for_keyframe = 0,
               late_chunks = 0, duplicate_chunks = 0, invalid_chunks = 0, nacked = 0\<rparr>\<rparr>"

subsection \<open>Frame-id order\<close>

definition is_newer :: "u32 \<Rightarrow> u32 \<Rightarrow> bool" where
  "is_newer a b \<longleftrightarrow> sint (a - b) > 0"

definition older_of :: "u32 \<Rightarrow> u32 \<Rightarrow> u32" where
  "older_of a b = (if is_newer a b then b else a)"

definition expected :: "reassembler \<Rightarrow> u32 option" where
  "expected r =
     (case last_settled r of
        Some settled \<Rightarrow> Some (settled + 1)
      | None \<Rightarrow> reduce older_of (map p_frame_id (pendings r)))"

definition oldest_pending :: "reassembler \<Rightarrow> (u32 \<times> u64) option" where
  "oldest_pending r =
     reduce (\<lambda>a b. if is_newer (fst a) (fst b) then b else a)
       (map (\<lambda>p. (p_frame_id p, p_first_us p)) (pendings r))"

definition newest_pending :: "reassembler \<Rightarrow> u32 option" where
  "newest_pending r =
     reduce (\<lambda>a b. if is_newer a b then a else b) (map p_frame_id (pendings r))"

subsection \<open>Settling, losing and delivering a frame\<close>

definition settle :: "u32 \<Rightarrow> reassembler \<Rightarrow> reassembler" where
  "settle frame_id r =
     (let r1 = (if (case last_settled r of None \<Rightarrow> True | Some settled \<Rightarrow> is_newer frame_id settled)
                then r\<lparr>last_settled := Some frame_id\<rparr> else r) in
      r1\<lparr>gap_nacks := filter (\<lambda>(id, _). is_newer id frame_id) (gap_nacks r1)\<rparr>)"

definition lost :: "reassembler \<Rightarrow> reassembler" where
  "lost r = r\<lparr>waiting_for_keyframe := True, keyframe_wanted := True\<rparr>"

definition count_incomplete :: "nat \<Rightarrow> reassembler \<Rightarrow> reassembler" where
  "count_incomplete n r =
     r\<lparr>stats := (stats r)\<lparr>incomplete := incomplete (stats r) + word_of_nat n\<rparr>\<rparr>"

text \<open>The parts of a frame joined. The single-part case of the source takes the one
  part as it is.\<close>

definition join_parts :: "bytes option list \<Rightarrow> bytes" where
  "join_parts parts =
     (if length parts = 1 then (case somes parts of [] \<Rightarrow> [] | d # _ \<Rightarrow> d)
      else concat (somes parts))"

definition deliver :: "pending \<Rightarrow> reassembler \<Rightarrow> reassembler" where
  "deliver frame r =
     (let r1 = settle (p_frame_id frame) r in
      if \<not> p_keyframe frame \<and> waiting_for_keyframe r1 then
        r1\<lparr>stats := (stats r1)\<lparr>dropped_waiting_for_keyframe :=
              dropped_waiting_for_keyframe (stats r1) + 1\<rparr>,
           keyframe_wanted := True\<rparr>
      else
        let r2 = (if p_keyframe frame then r1\<lparr>waiting_for_keyframe := False\<rparr> else r1);
            st = (stats r2)\<lparr>delivered := delivered (stats r2) + 1\<rparr>;
            st' = (if p_nacked_us frame \<noteq> None then st\<lparr>repaired := repaired st + 1\<rparr> else st) in
        r2\<lparr>stats := st',
           ready := ready r2 @
             [\<lparr>af_frame_id = p_frame_id frame, af_keyframe = p_keyframe frame,
               af_capture_ts_us = p_capture_ts_us frame,
               af_data = join_parts (p_parts frame)\<rparr>]\<rparr>)"

subsection \<open>Draining: deliver every frame that is next in line\<close>

text \<open>One turn of the loop: \<open>None\<close> where the source returns.\<close>

definition drain_step :: "reassembler \<Rightarrow> reassembler option" where
  "drain_step r =
     (case expected r of
        None \<Rightarrow> None
      | Some e \<Rightarrow>
          (case position (\<lambda>p. p_frame_id p = e \<and> complete p) (pendings r) of
             Some index \<Rightarrow>
               Some (deliver (pendings r ! index)
                       (r\<lparr>pendings := swap_remove index (pendings r)\<rparr>))
           | None \<Rightarrow>
               (case reduce older_of
                       (map p_frame_id (filter (\<lambda>p. p_keyframe p \<and> complete p) (pendings r))) of
                  Some keyframe \<Rightarrow>
                    let settled = keyframe - 1;
                        kept = filter (\<lambda>p. is_newer (p_frame_id p) settled) (pendings r) in
                    Some (settle settled
                      (count_incomplete (max (length (pendings r) - length kept) 1)
                        (r\<lparr>pendings := kept\<rparr>)))
                | None \<Rightarrow> None)))"

partial_function (option) drain :: "reassembler \<Rightarrow> reassembler option" where
  "drain r = (case drain_step r of None \<Rightarrow> Some r | Some r' \<Rightarrow> drain r')"

subsection \<open>Giving up\<close>

definition give_up_expected_quietly :: "reassembler \<Rightarrow> reassembler" where
  "give_up_expected_quietly r =
     (case expected r of
        None \<Rightarrow> r
      | Some e \<Rightarrow>
          settle e (count_incomplete 1
            (r\<lparr>pendings := filter (\<lambda>p. p_frame_id p \<noteq> e) (pendings r)\<rparr>)))"

definition give_up_expected :: "reassembler \<Rightarrow> reassembler option" where
  "give_up_expected r = drain (lost (give_up_expected_quietly r))"

text \<open>What one turn of \<open>expire\<close> decides: \<open>None\<close> to return, \<open>Some None\<close> to give
  up the frame that is expected, \<open>Some (Some id)\<close> to give up the gap before \<open>id\<close>.\<close>

definition expire_decide :: "u64 \<Rightarrow> timing \<Rightarrow> u32 \<Rightarrow> reassembler \<Rightarrow> u32 option option" where
  "expire_decide now_us t e r =
     (case (case find (\<lambda>p. p_frame_id p = e) (pendings r) of
              Some p \<Rightarrow> Some (p_last_chunk_us p, None)
            | None \<Rightarrow> map_option (\<lambda>(id, first_us). (first_us, Some id)) (oldest_pending r)) of
        None \<Rightarrow> None
      | Some (stuck_since, gap_to) \<Rightarrow>
          if saturating_sub now_us stuck_since < give_up_us t then None else Some gap_to)"

definition give_up_gap :: "u32 \<Rightarrow> reassembler \<Rightarrow> reassembler option" where
  "give_up_gap gap_to r = drain (lost (settle (gap_to - 1) (count_incomplete 1 r)))"

partial_function (option) expire :: "u64 \<Rightarrow> timing \<Rightarrow> reassembler \<Rightarrow> reassembler option" where
  "expire now_us t r =
     (case expected r of
        None \<Rightarrow> Some r
      | Some e \<Rightarrow>
          (case expire_decide now_us t e r of
             None \<Rightarrow> Some r
           | Some None \<Rightarrow> Option.bind (give_up_expected r) (\<lambda>r'. expire now_us t r')
           | Some (Some gap_to) \<Rightarrow> Option.bind (give_up_gap gap_to r) (\<lambda>r'. expire now_us t r')))"

subsection \<open>Taking a chunk in\<close>

definition count_invalid :: "reassembler \<Rightarrow> reassembler" where
  "count_invalid r = r\<lparr>stats := (stats r)\<lparr>invalid_chunks := invalid_chunks (stats r) + 1\<rparr>\<rparr>"

definition count_late :: "reassembler \<Rightarrow> reassembler" where
  "count_late r = r\<lparr>stats := (stats r)\<lparr>late_chunks := late_chunks (stats r) + 1\<rparr>\<rparr>"

definition count_duplicate :: "reassembler \<Rightarrow> reassembler" where
  "count_duplicate r = r\<lparr>stats := (stats r)\<lparr>duplicate_chunks := duplicate_chunks (stats r) + 1\<rparr>\<rparr>"

definition new_pending :: "video_chunk \<Rightarrow> u64 \<Rightarrow> pending" where
  "new_pending c now_us =
     \<lparr>p_frame_id = vc_frame_id c, p_keyframe = vc_keyframe c,
      p_capture_ts_us = vc_capture_ts_us c,
      p_parts = replicate (unat (vc_chunks c)) None,
      p_received = 0, p_bytes = 0, p_highest = 0,
      p_first_us = now_us, p_last_chunk_us = now_us, p_nacked_us = None\<rparr>"

text \<open>Storing a chunk in the pending frame at \<open>index\<close>: the second half of \<open>push\<close>.\<close>

definition store_part :: "video_chunk \<Rightarrow> u64 \<Rightarrow> pending \<Rightarrow> pending" where
  "store_part c now_us p =
     p\<lparr>p_bytes := p_bytes p + length (vc_data c),
       p_received := p_received p + 1,
       p_highest := max (p_highest p) (vc_chunk c),
       p_last_chunk_us := now_us,
       p_parts := (p_parts p)[unat (vc_chunk c) := Some (vc_data c)]\<rparr>"

definition push_at :: "video_chunk \<Rightarrow> u64 \<Rightarrow> nat \<Rightarrow> reassembler \<Rightarrow> reassembler option" where
  "push_at c now_us index r =
     (let p = pendings r ! index in
      if unat (vc_chunks c) \<noteq> length (p_parts p) \<or> vc_keyframe c \<noteq> p_keyframe p then
        Some (count_invalid r)
      else if p_parts p ! unat (vc_chunk c) \<noteq> None then Some (count_duplicate r)
      else
        let p' = store_part c now_us p;
            r' = r\<lparr>pendings := (pendings r)[index := p']\<rparr> in
        if complete p' then drain r' else Some r')"

definition push :: "video_chunk \<Rightarrow> u64 \<Rightarrow> reassembler \<Rightarrow> reassembler option" where
  "push c now_us r =
     (if vc_chunks c = 0 \<or> vc_chunk c \<ge> vc_chunks c then Some (count_invalid r)
      else if (case last_settled r of None \<Rightarrow> False
               | Some settled \<Rightarrow> \<not> is_newer (vc_frame_id c) settled) then Some (count_late r)
      else
        case position (\<lambda>p. p_frame_id p = vc_frame_id c) (pendings r) of
          Some index \<Rightarrow> push_at c now_us index r
        | None \<Rightarrow>
            let r1 = r\<lparr>gap_nacks := filter (\<lambda>(id, _). id \<noteq> vc_frame_id c) (gap_nacks r)\<rparr> in
            Option.bind (if length (pendings r1) \<ge> MAX_PENDING then give_up_expected r1 else Some r1)
              (\<lambda>r2.
                let r3 = r2\<lparr>pendings := pendings r2 @ [new_pending c now_us]\<rparr> in
                push_at c now_us (length (pendings r3) - 1) r3))"

definition pop :: "reassembler \<Rightarrow> assembled_frame option \<times> reassembler" where
  "pop r = (case ready r of [] \<Rightarrow> (None, r) | f # fs \<Rightarrow> (Some f, r\<lparr>ready := fs\<rparr>))"

subsection \<open>Asking for repairs\<close>

definition due :: "u64 \<Rightarrow> timing \<Rightarrow> u64 option \<Rightarrow> bool" where
  "due now_us t asked =
     (case asked of None \<Rightarrow> True | Some at \<Rightarrow> saturating_sub now_us at \<ge> retry_us t)"

text \<open>The chunks of a pending frame that count as lost.\<close>

definition lost_chunks :: "u64 \<Rightarrow> timing \<Rightarrow> u32 option \<Rightarrow> pending \<Rightarrow> u16 list" where
  "lost_chunks now_us t newest p =
     (let newer_seen = (case newest of None \<Rightarrow> False | Some n \<Rightarrow> is_newer n (p_frame_id p));
          quiet = saturating_sub now_us (p_last_chunk_us p) \<ge> quiet_us t in
      filter (\<lambda>i. i < p_highest p \<or> newer_seen \<or> quiet)
        (map word_of_nat (filter (\<lambda>i. p_parts p ! i = None) [0..<length (p_parts p)])))"

text \<open>One pending frame: itself, with the time of asking noted, and what is asked.\<close>

definition nack_pending ::
  "u64 \<Rightarrow> timing \<Rightarrow> u32 option \<Rightarrow> bool \<Rightarrow> pending \<Rightarrow> pending \<times> missing option" where
  "nack_pending now_us t newest waiting p =
     (if complete p \<or> (waiting \<and> \<not> p_keyframe p) then (p, None)
      else
        let chunks = lost_chunks now_us t newest p in
        if chunks \<noteq> [] \<and> due now_us t (p_nacked_us p) then
          (p\<lparr>p_nacked_us := Some now_us\<rparr>,
           Some \<lparr>ms_frame_id = p_frame_id p, ms_chunks = chunks\<rparr>)
        else (p, None))"

text \<open>The stalest remembered gap: the first with the smallest time.\<close>

primrec stalest :: "(u32 \<times> u64) list \<Rightarrow> nat option" where
  "stalest [] = None"
| "stalest (g # gs) =
     (case stalest gs of
        None \<Rightarrow> Some 0
      | Some i \<Rightarrow> if snd (gs ! i) < snd g then Some (Suc i) else Some 0)"

definition remember_gap :: "u32 \<Rightarrow> u64 \<Rightarrow> (u32 \<times> u64) list \<Rightarrow> (u32 \<times> u64) list" where
  "remember_gap fid now_us gaps =
     (case position (\<lambda>g. fst g = fid) gaps of
        Some i \<Rightarrow> gaps[i := (fid, now_us)]
      | None \<Rightarrow>
          (let gaps' = (if length gaps \<ge> MAX_REMEMBERED_GAPS
                        then (case stalest gaps of Some i \<Rightarrow> swap_remove i gaps | None \<Rightarrow> gaps)
                        else gaps) in
           gaps' @ [(fid, now_us)]))"

text \<open>The walk over the ids from \<open>fid\<close> up to the newest, at most \<open>left\<close> of them.\<close>

primrec nack_gaps ::
  "nat \<Rightarrow> u64 \<Rightarrow> timing \<Rightarrow> u32 \<Rightarrow> u32 list \<Rightarrow> u32 \<Rightarrow> (u32 \<times> u64) list
     \<Rightarrow> (u32 \<times> u64) list \<times> missing list" where
  "nack_gaps 0 now_us t newest held fid gaps = (gaps, [])"
| "nack_gaps (Suc left) now_us t newest held fid gaps =
     (if \<not> is_newer newest fid then (gaps, [])
      else
        let asked = map_option (\<lambda>i. snd (gaps ! i)) (position (\<lambda>g. fst g = fid) gaps);
            ask = fid \<notin> set held \<and> due now_us t asked;
            gaps' = (if ask then remember_gap fid now_us gaps else gaps);
            (gaps'', out) = nack_gaps left now_us t newest held (fid + 1) gaps' in
        (gaps'', (if ask then [\<lparr>ms_frame_id = fid, ms_chunks = []\<rparr>] else []) @ out))"

definition nacks :: "u64 \<Rightarrow> timing \<Rightarrow> reassembler \<Rightarrow> reassembler \<times> missing list" where
  "nacks now_us t r =
     (let newest = newest_pending r;
          asked = map (nack_pending now_us t newest (waiting_for_keyframe r)) (pendings r);
          out = somes (map snd asked);
          r1 = r\<lparr>pendings := map fst asked\<rparr>;
          (gaps, more) =
            (case (expected r1, newest) of
               (Some e, Some n) \<Rightarrow>
                 if \<not> waiting_for_keyframe r1
                 then nack_gaps MAX_GAP_NACKS now_us t n (map p_frame_id (pendings r1)) e (gap_nacks r1)
                 else (gap_nacks r1, [])
             | _ \<Rightarrow> (gap_nacks r1, []));
          all = out @ more in
      (r1\<lparr>gap_nacks := gaps,
          stats := (stats r1)\<lparr>nacked := nacked (stats r1) + word_of_nat (length all)\<rparr>\<rparr>, all))"

subsection \<open>The next deadline and the rest of the interface\<close>

definition repair_deadline :: "timing \<Rightarrow> pending \<Rightarrow> u64" where
  "repair_deadline t p =
     (case p_nacked_us p of
        None \<Rightarrow> p_last_chunk_us p + quiet_us t
      | Some asked \<Rightarrow> max (asked + retry_us t) (p_last_chunk_us p + quiet_us t))"

definition give_up_deadline :: "timing \<Rightarrow> reassembler \<Rightarrow> u64 option" where
  "give_up_deadline t r =
     (case expected r of
        None \<Rightarrow> None
      | Some e \<Rightarrow>
          (case find (\<lambda>p. p_frame_id p = e) (pendings r) of
             Some p \<Rightarrow> Some (p_last_chunk_us p + give_up_us t)
           | None \<Rightarrow>
               map_option (\<lambda>since. since + give_up_us t)
                 (reduce min (map p_first_us (pendings r)))))"

definition next_deadline :: "timing \<Rightarrow> reassembler \<Rightarrow> u64 option" where
  "next_deadline t r =
     reduce min
       (map (repair_deadline t)
          (filter (\<lambda>p. \<not> complete p \<and> (p_keyframe p \<or> \<not> waiting_for_keyframe r)) (pendings r)) @
        map (\<lambda>g. snd g + retry_us t) (filter (\<lambda>_. \<not> waiting_for_keyframe r) (gap_nacks r)) @
        (case give_up_deadline t r of None \<Rightarrow> [] | Some d \<Rightarrow> [d]))"

definition has_pending :: "reassembler \<Rightarrow> bool" where
  "has_pending r \<longleftrightarrow> pendings r \<noteq> []"

definition take_keyframe_request :: "reassembler \<Rightarrow> bool \<times> reassembler" where
  "take_keyframe_request r = (keyframe_wanted r, r\<lparr>keyframe_wanted := False\<rparr>)"

end
