(* ===== verification/Video_Order.thy ===== *)
theory Video_Order
  imports Video
begin

text \<open>
  The order on frame ids. \<open>is_newer\<close> compares 32-bit ids across the wrap, so it is not an
  order: it has cycles. What the reassembler relies on is that it behaves like one on a
  window, the ids newer than some base. The locale \<open>serial_order\<close> states those laws and
  proves what the folds over pending frames then compute; \<open>is_newer\<close> is its model.
\<close>

subsection \<open>The interface\<close>

locale serial_order =
  fixes newer :: "'a \<Rightarrow> 'a \<Rightarrow> bool"
    and nxt :: "'a \<Rightarrow> 'a"
  assumes asym: "newer a b \<Longrightarrow> \<not> newer b a"
    and window_total: "newer x b \<Longrightarrow> newer y b \<Longrightarrow> x \<noteq> y \<Longrightarrow> newer x y \<or> newer y x"
    and window_trans: "newer x b \<Longrightarrow> newer y b \<Longrightarrow> newer z b \<Longrightarrow>
      newer x y \<Longrightarrow> newer y z \<Longrightarrow> newer x z"
    and nxt_newer: "newer (nxt a) a"
    and nxt_least: "newer x a \<Longrightarrow> x = nxt a \<or> newer x (nxt a)"
begin

lemma irrefl: "\<not> newer a a"
  using asym by blast

text \<open>Folding with "keep the older" over a window gives its oldest element.\<close>

lemma oldest_fold:
  assumes "\<forall>y\<in>set (x # xs). newer y b"
  shows "foldl (\<lambda>a c. if newer a c then c else a) x xs \<in> set (x # xs) \<and>
    (\<forall>y\<in>set (x # xs). \<not> newer (foldl (\<lambda>a c. if newer a c then c else a) x xs) y)"
  using assms
proof (induction xs arbitrary: x)
  case Nil
  then show ?case by (simp add: irrefl)
next
  case (Cons z zs)
  let ?o = "if newer x z then z else x"
  let ?m = "foldl (\<lambda>a c. if newer a c then c else a) ?o zs"
  have win: "\<forall>y\<in>set (?o # zs). newer y b" using Cons.prems by auto
  from Cons.IH [OF win] have m: "?m \<in> set (?o # zs)" and least: "\<forall>y\<in>set (?o # zs). \<not> newer ?m y"
    by auto
  have mb: "newer ?m b" using m win by blast
  have "\<not> newer ?m x \<and> \<not> newer ?m z"
  proof (cases "newer x z")
    case True
    then have "\<not> newer ?m z" using least by simp
    moreover have "\<not> newer ?m x"
      using True \<open>\<not> newer ?m z\<close> window_trans [OF mb, of x z] Cons.prems by auto
    ultimately show ?thesis by blast
  next
    case False
    then have mx: "\<not> newer ?m x" using least by simp
    have "\<not> newer ?m z"
    proof
      assume mz: "newer ?m z"
      then have "x \<noteq> z" using mx by auto
      then have "newer z x" using False window_total [of x b z] Cons.prems by auto
      with mz mx show False using window_trans [OF mb, of z x] Cons.prems by auto
    qed
    with mx show ?thesis by blast
  qed
  with m least show ?case by (auto split: if_splits)
qed

text \<open>Moving the base of a window to the next id keeps every other member.\<close>

lemma window_step: "newer x a \<Longrightarrow> x \<noteq> nxt a \<Longrightarrow> newer x (nxt a)"
  using nxt_least by blast

end

subsection \<open>Frame ids are such an order\<close>

lemma mod_shift_cases:
  fixes u :: int
  assumes "0 \<le> u" "u < 4294967296"
  shows "(u + 2147483648) mod 4294967296 - 2147483648 = (if u < 2147483648 then u else u - 4294967296)"
proof (cases "u < 2147483648")
  case True
  then have "(u + 2147483648) mod 4294967296 = u + 2147483648"
    using assms by (intro mod_pos_pos_trivial) auto
  then show ?thesis using True by simp
next
  case False
  have "u + 2147483648 = (u - 2147483648) + 4294967296" by simp
  then have "(u + 2147483648) mod 4294967296 = (u - 2147483648) mod 4294967296"
    by (simp only: mod_add_self2)
  also have "\<dots> = u - 2147483648" using False assms by (intro mod_pos_pos_trivial) auto
  finally show ?thesis using False by simp
qed

lemma sint32: "sint (w :: 32 word) = (if uint w < 2147483648 then uint w else uint w - 4294967296)"
proof -
  have "sint w = (uint w + 2147483648) mod 4294967296 - 2147483648"
    using int_word_sint [of "uint w", where ?'a = 32] by simp
  moreover have "0 \<le> uint w" "uint w < 4294967296"
    using uint_lt2p [of w] by simp_all
  ultimately show ?thesis using mod_shift_cases by metis
qed

lemma is_newer_iff: "is_newer a b \<longleftrightarrow> 0 < unat (a - b) \<and> unat (a - b) < 2147483648"
proof -
  define n where "n = unat (a - b)"
  have "uint (a - b) = int n" "int n < 4294967296"
    using uint_lt2p [of "a - b"] by (simp_all add: n_def)
  then have "is_newer a b \<longleftrightarrow> 0 < (if int n < 2147483648 then int n else int n - 4294967296)"
    by (simp only: is_newer_def sint32)
  then show ?thesis using \<open>int n < 4294967296\<close> unfolding n_def [symmetric] by auto
qed

lemma unat_diff_window:
  assumes "unat (y - b) \<le> unat (x - b)"
  shows "unat (x - y) = unat (x - b) - unat (y - (b :: u32))"
proof -
  have "x - y = (x - b) - (y - b)" by simp
  then show ?thesis using assms unat_sub_if_size [of "x - b" "y - b"] by metis
qed

lemma unat_diff_swap: "x \<noteq> y \<Longrightarrow> unat (x - y) = 4294967296 - unat (y - (x :: u32))"
proof -
  assume ne: "x \<noteq> y"
  then have "unat (y - x) \<noteq> 0" by (simp add: unat_eq_zero)
  moreover have "x - y = 0 - (y - x)" by simp
  ultimately show ?thesis using unat_sub_if_size [of 0 "y - x"]
    by (simp add: word_size)
qed

text \<open>Inside a window, newer means further from the base.\<close>

lemma is_newer_window:
  assumes "is_newer x b" and "is_newer y b"
  shows "is_newer x y \<longleftrightarrow> unat (y - b) < unat (x - b)"
proof (cases "unat (y - b) \<le> unat (x - b)")
  case True
  have "unat (x - b) < 2147483648" using assms by (simp only: is_newer_iff)
  then show ?thesis
    unfolding is_newer_iff [of x y] unat_diff_window [OF True] by linarith
next
  case False
  then have "x \<noteq> y" by auto
  then have "unat (x - y) = 4294967296 - (unat (y - b) - unat (x - b))"
    using False unat_diff_swap [of x y] unat_diff_window [of x b y] by simp
  moreover have "unat (y - b) < 2147483648" using assms by (simp only: is_newer_iff)
  ultimately have "\<not> is_newer x y" using False unfolding is_newer_iff by linarith
  then show ?thesis using False by simp
qed

lemma unat_base_inj: "unat (x - b) = unat (y - b) \<Longrightarrow> x = (y :: u32)"
  by (metis diff_add_cancel word_unat_eq_iff)

lemma is_newer_succ: "is_newer (a + 1) a"
  by (simp add: is_newer_iff)

lemma is_newer_irrefl [simp]: "\<not> is_newer a a"
  by (simp add: is_newer_iff)

lemma is_newer_asym: "is_newer a b \<Longrightarrow> \<not> is_newer b a"
proof
  assume a: "is_newer a b" and b: "is_newer b a"
  then have "a \<noteq> b" by auto
  with a b show False using unat_diff_swap [of a b] by (auto simp: is_newer_iff)
qed

lemma is_newer_least: "is_newer x a \<Longrightarrow> x = a + 1 \<or> is_newer x (a + 1)"
proof (rule disjCI)
  assume n: "is_newer x a" and "\<not> is_newer x (a + 1)"
  have "unat (x - (a + 1)) = unat (x - a) - 1"
    using n unat_diff_window [of "a + 1" a x] by (simp add: is_newer_iff)
  with n \<open>\<not> is_newer x (a + 1)\<close> have "unat (x - (a + 1)) = 0" by (auto simp: is_newer_iff)
  then show "x = a + 1" by (simp add: unat_eq_zero)
qed

interpretation frame_order: serial_order is_newer "\<lambda>a. a + 1"
proof
  fix a b x y z :: u32
  show "is_newer a b \<Longrightarrow> \<not> is_newer b a" by (rule is_newer_asym)
  show "is_newer (a + 1) a" by (rule is_newer_succ)
  show "is_newer x a \<Longrightarrow> x = a + 1 \<or> is_newer x (a + 1)" by (rule is_newer_least)
  show "is_newer x b \<Longrightarrow> is_newer y b \<Longrightarrow> x \<noteq> y \<Longrightarrow> is_newer x y \<or> is_newer y x"
    unfolding is_newer_window [of x b y] is_newer_window [of y b x]
    using unat_base_inj [of x b y] by linarith
  show "is_newer x b \<Longrightarrow> is_newer y b \<Longrightarrow> is_newer z b \<Longrightarrow> is_newer x y \<Longrightarrow> is_newer y z \<Longrightarrow> is_newer x z"
    unfolding is_newer_window [of x b y] is_newer_window [of y b z] is_newer_window [of x b z]
    by linarith
qed

text \<open>Outside a window there are cycles, so the order of the list decides.\<close>

lemma is_newer_cycle:
  "is_newer 1610612736 0 \<and> is_newer 3221225472 1610612736 \<and> is_newer 0 3221225472"
  by (simp add: is_newer_def)

lemma older_of_cases: "older_of a b = a \<or> older_of a b = b"
  by (simp add: older_of_def)

lemma older_of_fold: "older_of = (\<lambda>a b. if is_newer a b then b else a)"
  by (simp add: older_of_def fun_eq_iff)

lemma reduce_older_least:
  assumes "reduce older_of xs = Some m" and "\<forall>x\<in>set xs. is_newer x b"
  shows "m \<in> set xs" and "\<forall>x\<in>set xs. \<not> is_newer m x"
  using assms frame_order.oldest_fold [of _ _ b]
  by (cases xs; auto simp: older_of_fold)+

lemma unat_pred_diff: "k \<noteq> s \<Longrightarrow> unat (k - 1 - s) = unat (k - s) - (1 :: nat)" for k s :: u32
proof -
  assume "k \<noteq> s"
  then have "1 \<le> unat (k - s)" by (simp add: Suc_le_eq unat_gt_0)
  moreover have "unat (k - 1 - s) = unat ((k - s) - 1)" by (simp add: diff_diff_eq add.commute)
  ultimately show ?thesis using unat_sub_if_size [of "k - s" 1] by simp
qed

lemma is_newer_pred: "is_newer k s \<Longrightarrow> k \<noteq> s + 1 \<Longrightarrow> is_newer (k - 1) s"
proof -
  assume n: "is_newer k s" and ne: "k \<noteq> s + 1"
  then have "k - 1 \<noteq> s" by auto
  then have "unat (k - 1 - s) \<noteq> 0" by (simp add: unat_eq_zero)
  moreover have "unat (k - 1 - s) = unat (k - s) - 1" using n by (intro unat_pred_diff) auto
  ultimately show ?thesis using n by (simp add: is_newer_iff)
qed

end
