(* ===== verification/Video_Run.thy ===== *)
theory Video_Run
  imports Video_Order
begin

text \<open>
  The reassembler as a state machine: the calls a viewer makes, in any order and with any
  arguments, and the frames it has taken out so far. The locale \<open>video_invariant\<close> is the
  contract of an invariant of that machine: its laws speak of the elementary changes the
  operations are made of, and its lemmas lift them to \<open>push\<close>, \<open>expire\<close> and every
  reachable state.
\<close>

subsection \<open>Calls and reachable states\<close>

text \<open>\<open>video_reach ok popped r\<close>: from a new reassembler, calls that returned, with chunks
  that satisfy \<open>ok\<close>, lead to \<open>r\<close> and have handed \<open>popped\<close> to the decoder.\<close>

inductive video_reach :: "(video_chunk \<Rightarrow> bool) \<Rightarrow> assembled_frame list \<Rightarrow> reassembler \<Rightarrow> bool"
  for ok :: "video_chunk \<Rightarrow> bool"
where
  reach_new: "video_reach ok [] reassembler_new"
| reach_push: "video_reach ok popped r \<Longrightarrow> ok c \<Longrightarrow> push c now_us r = Some r' \<Longrightarrow>
    video_reach ok popped r'"
| reach_nacks: "video_reach ok popped r \<Longrightarrow> video_reach ok popped (fst (nacks now_us t r))"
| reach_expire: "video_reach ok popped r \<Longrightarrow> expire now_us t r = Some r' \<Longrightarrow>
    video_reach ok popped r'"
| reach_pop: "video_reach ok popped r \<Longrightarrow> pop r = (Some f, r') \<Longrightarrow>
    video_reach ok (popped @ [f]) r'"
| reach_take: "video_reach ok popped r \<Longrightarrow>
    video_reach ok popped (snd (take_keyframe_request r))"

subsection \<open>Rules for the two loops\<close>

lemma drain_rule:
  assumes "drain r = Some r'" and "P r"
    and "\<And>s s'. P s \<Longrightarrow> drain_step s = Some s' \<Longrightarrow> P s'"
  shows "P r' \<and> drain_step r' = None"
proof -
  have "P r \<longrightarrow> P r' \<and> drain_step r' = None"
  proof (rule drain.raw_induct [where P = "\<lambda>r r'. P r \<longrightarrow> P r' \<and> drain_step r' = None", OF _ assms(1)])
    fix f r r'
    assume IH: "\<And>r r'. f r = Some r' \<Longrightarrow> P r \<longrightarrow> P r' \<and> drain_step r' = None"
      and eq: "(case drain_step r of None \<Rightarrow> Some r | Some x \<Rightarrow> f x) = Some r'"
    show "P r \<longrightarrow> P r' \<and> drain_step r' = None"
    proof (cases "drain_step r")
      case None
      with eq show ?thesis by simp
    next
      case (Some s)
      with eq have "f s = Some r'" by simp
      from IH [OF this] assms(3) [OF _ Some] show ?thesis by blast
    qed
  qed
  with assms(2) show ?thesis by blast
qed

lemma expire_rule:
  assumes "expire now_us t r = Some r'" and "P r"
    and "\<And>s s' e. P s \<Longrightarrow> expected s = Some e \<Longrightarrow> give_up_expected s = Some s' \<Longrightarrow> P s'"
    and "\<And>s s' e g. P s \<Longrightarrow> expected s = Some e \<Longrightarrow> expire_decide now_us t e s = Some (Some g) \<Longrightarrow>
      give_up_gap g s = Some s' \<Longrightarrow> P s'"
  shows "P r'"
proof -
  have "now_us = now_us \<longrightarrow> t = t \<longrightarrow> P r \<longrightarrow> P r'"
  proof (rule expire.raw_induct [where P = "\<lambda>n t' r r'. n = now_us \<longrightarrow> t' = t \<longrightarrow> P r \<longrightarrow> P r'",
        OF _ assms(1)])
    fix f n t' r r'
    assume IH: "\<And>n t' r r'. f n t' r = Some r' \<Longrightarrow> n = now_us \<longrightarrow> t' = t \<longrightarrow> P r \<longrightarrow> P r'"
      and eq: "(case expected r of None \<Rightarrow> Some r
        | Some e \<Rightarrow> (case expire_decide n t' e r of None \<Rightarrow> Some r
            | Some None \<Rightarrow> Option.bind (give_up_expected r) (f n t')
            | Some (Some g) \<Rightarrow> Option.bind (give_up_gap g r) (f n t'))) = Some r'"
    have step: "P s' \<Longrightarrow> f now_us t s' = Some r' \<Longrightarrow> P r'" for s' using IH by blast
    show "n = now_us \<longrightarrow> t' = t \<longrightarrow> P r \<longrightarrow> P r'"
    proof (intro impI)
      assume nt: "n = now_us" "t' = t" and r: "P r"
      show "P r'"
      proof (cases "expected r")
        case None
        with eq r show ?thesis by simp
      next
        case (Some e)
        note e = this
        show ?thesis
        proof (cases "expire_decide now_us t e r")
          case None
          with eq e nt r show ?thesis by simp
        next
          case (Some d)
          show ?thesis
          proof (cases d)
            case None
            with eq e nt Some obtain s' where "give_up_expected r = Some s'" "f now_us t s' = Some r'"
              by (auto simp: bind_eq_Some_conv)
            then show ?thesis using assms(3) [OF r e] step by blast
          next
            case (Some g)
            with eq e nt \<open>expire_decide now_us t e r = Some d\<close> obtain s'
              where "give_up_gap g r = Some s'" "f now_us t s' = Some r'"
              by (auto simp: bind_eq_Some_conv)
            then show ?thesis
              using assms(4) [OF r e] \<open>expire_decide now_us t e r = Some d\<close> Some step by blast
          qed
        qed
      qed
    qed
  qed
  with assms(2) show ?thesis by blast
qed

lemma expire_decide_gap:
  assumes "expire_decide now_us t e r = Some (Some g)"
  shows "(\<exists>first_us. oldest_pending r = Some (g, first_us)) \<and>
    (\<forall>p\<in>set (pendings r). p_frame_id p \<noteq> e)"
  using assms
  by (auto simp: expire_decide_def find_None_iff split: option.splits if_splits)


subsection \<open>What the elementary changes leave alone\<close>

lemma settle_simps [simp]:
  "pendings (settle f r) = pendings r" "ready (settle f r) = ready r"
  "waiting_for_keyframe (settle f r) = waiting_for_keyframe r"
  "keyframe_wanted (settle f r) = keyframe_wanted r" "stats (settle f r) = stats r"
  "gap_nacks (settle f r) = filter (\<lambda>(id, _). is_newer id f) (gap_nacks r)"
  by (simp_all add: settle_def Let_def split: option.splits)

lemma last_settled_settle:
  "last_settled (settle f r) =
     (case last_settled r of None \<Rightarrow> Some f
      | Some s \<Rightarrow> Some (if is_newer f s then f else s))"
  by (simp add: settle_def Let_def split: option.splits)

lemma lost_simps [simp]:
  "pendings (lost r) = pendings r" "ready (lost r) = ready r"
  "last_settled (lost r) = last_settled r" "gap_nacks (lost r) = gap_nacks r"
  "waiting_for_keyframe (lost r)" "keyframe_wanted (lost r)" "stats (lost r) = stats r"
  by (simp_all add: lost_def)

lemma count_incomplete_simps [simp]:
  "pendings (count_incomplete n r) = pendings r" "ready (count_incomplete n r) = ready r"
  "last_settled (count_incomplete n r) = last_settled r"
  "gap_nacks (count_incomplete n r) = gap_nacks r"
  "waiting_for_keyframe (count_incomplete n r) = waiting_for_keyframe r"
  "keyframe_wanted (count_incomplete n r) = keyframe_wanted r"
  by (simp_all add: count_incomplete_def)

lemma deliver_simps [simp]:
  "pendings (deliver p r) = pendings r"
  "last_settled (deliver p r) = last_settled (settle (p_frame_id p) r)"
  "gap_nacks (deliver p r) = gap_nacks (settle (p_frame_id p) r)"
  by (simp_all add: deliver_def Let_def)

lemma waiting_deliver:
  "waiting_for_keyframe (deliver p r) \<longleftrightarrow> waiting_for_keyframe r \<and> \<not> p_keyframe p"
  by (simp add: deliver_def Let_def)

definition assembled :: "pending \<Rightarrow> assembled_frame" where
  "assembled p = \<lparr>af_frame_id = p_frame_id p, af_keyframe = p_keyframe p,
     af_capture_ts_us = p_capture_ts_us p, af_data = join_parts (p_parts p)\<rparr>"

lemma ready_deliver:
  "ready (deliver p r) =
     ready r @ (if \<not> p_keyframe p \<and> waiting_for_keyframe r then [] else [assembled p])"
  by (simp add: deliver_def Let_def assembled_def)

lemma give_up_quietly_simps [simp]:
  "ready (give_up_expected_quietly r) = ready r"
  "waiting_for_keyframe (give_up_expected_quietly r) = waiting_for_keyframe r"
  "pendings (give_up_expected_quietly r) =
     (case expected r of None \<Rightarrow> pendings r
      | Some e \<Rightarrow> filter (\<lambda>p. p_frame_id p \<noteq> e) (pendings r))"
  by (simp_all add: give_up_expected_quietly_def split: option.splits)

text \<open>The two kinds of turn the draining loop takes.\<close>

lemma drain_step_cases:
  assumes "drain_step r = Some r'"
  obtains (next_in_line) e i where "expected r = Some e" "i < length (pendings r)"
      "p_frame_id (pendings r ! i) = e" "complete (pendings r ! i)"
      "r' = deliver (pendings r ! i) (r\<lparr>pendings := swap_remove i (pendings r)\<rparr>)"
  | (skip) e k n where "expected r = Some e"
      "\<forall>p\<in>set (pendings r). p_frame_id p = e \<longrightarrow> \<not> complete p"
      "reduce older_of (map p_frame_id (filter (\<lambda>p. p_keyframe p \<and> complete p) (pendings r))) = Some k"
      "r' = settle (k - 1) (count_incomplete n
         (r\<lparr>pendings := filter (\<lambda>p. is_newer (p_frame_id p) (k - 1)) (pendings r)\<rparr>))"
proof (cases "expected r")
  case None
  with assms show ?thesis by (simp add: drain_step_def)
next
  case (Some e)
  show ?thesis
  proof (cases "position (\<lambda>p. p_frame_id p = e \<and> complete p) (pendings r)")
    case None
    note idle = this
    then have none: "\<forall>p\<in>set (pendings r). p_frame_id p = e \<longrightarrow> \<not> complete p"
      by (auto simp: position_None_iff)
    show ?thesis
    proof (cases "reduce older_of (map p_frame_id (filter (\<lambda>p. p_keyframe p \<and> complete p) (pendings r)))")
      case None
      with idle \<open>expected r = Some e\<close> assms show ?thesis by (simp add: drain_step_def)
    next
      case (Some k)
      with idle \<open>expected r = Some e\<close> assms show ?thesis
        by (intro skip [OF _ none Some, of "max (length (pendings r) -
              length (filter (\<lambda>p. is_newer (p_frame_id p) (k - 1)) (pendings r))) 1"])
          (simp_all add: drain_step_def Let_def)
    qed
  next
    case (Some i)
    with \<open>expected r = Some e\<close> assms position_Some_D [OF Some] show ?thesis
      by (intro next_in_line [of e i]) (auto simp: drain_step_def)
  qed
qed

lemma drain_step_pendings:
  "drain_step r = Some r' \<Longrightarrow> set (pendings r') \<subseteq> set (pendings r)"
  by (erule drain_step_cases) (auto dest: set_swap_remove_subset [THEN subsetD])

lemma drain_pendings: "drain r = Some r' \<Longrightarrow> set (pendings r') \<subseteq> set (pendings r)"
  using drain_rule [of r r' "\<lambda>s. set (pendings s) \<subseteq> set (pendings r)"] drain_step_pendings
  by blast

lemma give_up_expected_ids:
  "give_up_expected r = Some r' \<Longrightarrow> p_frame_id ` set (pendings r') \<subseteq> p_frame_id ` set (pendings r)"
  unfolding give_up_expected_def by (auto dest!: drain_pendings split: option.splits)


subsection \<open>The contract of an invariant\<close>

text \<open>A chunk fits a pending frame when \<open>push\<close> goes on to store it.\<close>

definition chunk_fits :: "video_chunk \<Rightarrow> pending \<Rightarrow> bool" where
  "chunk_fits c p \<longleftrightarrow>
     p_frame_id p = vc_frame_id c \<and> unat (vc_chunks c) = length (p_parts p) \<and>
     vc_keyframe c = p_keyframe p \<and> vc_chunk c < vc_chunks c \<and>
     p_parts p ! unat (vc_chunk c) = None"

locale video_invariant =
  fixes ok :: "video_chunk \<Rightarrow> bool"
    and I :: "assembled_frame list \<Rightarrow> reassembler \<Rightarrow> bool"
  assumes inv_new: "I [] reassembler_new"
    and inv_drain_step: "I popped r \<Longrightarrow> drain_step r = Some r' \<Longrightarrow> I popped r'"
    and inv_give_up: "I popped r \<Longrightarrow> I popped (lost (give_up_expected_quietly r))"
    and inv_give_up_gap: "I popped r \<Longrightarrow> oldest_pending r = Some (g, first_us) \<Longrightarrow>
      I popped (lost (settle (g - 1) (count_incomplete 1 r)))"
    and inv_stats: "I popped r \<Longrightarrow> I popped (r\<lparr>stats := st\<rparr>)"
    and inv_wanted: "I popped r \<Longrightarrow> I popped (r\<lparr>keyframe_wanted := w\<rparr>)"
    and inv_forget: "I popped r \<Longrightarrow> I popped (r\<lparr>gap_nacks := filter Q (gap_nacks r)\<rparr>)"
    and inv_begin: "I popped r \<Longrightarrow> ok c \<Longrightarrow> vc_chunk c < vc_chunks c \<Longrightarrow>
      vc_frame_id c \<notin> p_frame_id ` set (pendings r) \<Longrightarrow>
      I popped (r\<lparr>pendings := pendings r @ [new_pending c now_us]\<rparr>)"
    and inv_store: "I popped r \<Longrightarrow> ok c \<Longrightarrow> i < length (pendings r) \<Longrightarrow>
      chunk_fits c (pendings r ! i) \<Longrightarrow>
      I popped (r\<lparr>pendings := (pendings r)[i := store_part c now_us (pendings r ! i)]\<rparr>)"
    and inv_nacks: "I popped r \<Longrightarrow> I popped (fst (nacks now_us t r))"
    and inv_pop: "I popped r \<Longrightarrow> ready r = f # fs \<Longrightarrow> I (popped @ [f]) (r\<lparr>ready := fs\<rparr>)"
begin

lemma inv_drain: "I popped r \<Longrightarrow> drain r = Some r' \<Longrightarrow> I popped r'"
  using drain_rule [of r r' "I popped"] inv_drain_step by blast

lemma inv_give_up_expected: "I popped r \<Longrightarrow> give_up_expected r = Some r' \<Longrightarrow> I popped r'"
  unfolding give_up_expected_def using inv_drain inv_give_up by blast

lemma inv_expire:
  assumes "I popped r" and "expire now_us t r = Some r'"
  shows "I popped r'"
proof (rule expire_rule [OF assms(2), of "I popped"])
  show "I popped r" by (rule assms(1))
next
  fix s s' assume "I popped s" "give_up_expected s = Some s'"
  then show "I popped s'" by (rule inv_give_up_expected)
next
  fix s s' e g assume s: "I popped s" and "expire_decide now_us t e s = Some (Some g)"
    and g: "give_up_gap g s = Some s'"
  then obtain first_us where "oldest_pending s = Some (g, first_us)"
    using expire_decide_gap by blast
  with s g show "I popped s'"
    unfolding give_up_gap_def using inv_drain inv_give_up_gap by blast
qed

lemma inv_push_at:
  assumes "I popped r" and "ok c" and "i < length (pendings r)"
    and "p_frame_id (pendings r ! i) = vc_frame_id c" and "vc_chunk c < vc_chunks c"
    and push: "push_at c now_us i r = Some r'"
  shows "I popped r'"
proof (cases "chunk_fits c (pendings r ! i)")
  case True
  let ?r = "r\<lparr>pendings := (pendings r)[i := store_part c now_us (pendings r ! i)]\<rparr>"
  have stored: "I popped ?r" using inv_store assms(1-3) True by blast
  have "push_at c now_us i r =
    (if complete (store_part c now_us (pendings r ! i)) then drain ?r else Some ?r)"
    using True by (simp add: push_at_def chunk_fits_def Let_def)
  with push stored show ?thesis using inv_drain by (auto split: if_splits)
next
  case False
  then have "r' = count_invalid r \<or> r' = count_duplicate r"
    using push assms(4,5) by (auto simp: push_at_def chunk_fits_def Let_def split: if_splits)
  then show ?thesis using inv_stats [OF assms(1)] by (auto simp: count_invalid_def count_duplicate_def)
qed

lemma inv_push:
  assumes "I popped r" and "ok c" and push: "push c now_us r = Some r'"
  shows "I popped r'"
proof (cases "vc_chunks c = 0 \<or> vc_chunk c \<ge> vc_chunks c \<or>
    (case last_settled r of None \<Rightarrow> False | Some s \<Rightarrow> \<not> is_newer (vc_frame_id c) s)")
  case True
  then have "r' = count_invalid r \<or> r' = count_late r"
    using push by (auto simp: push_def split: if_splits)
  then show ?thesis using inv_stats [OF assms(1)] by (auto simp: count_invalid_def count_late_def)
next
  case False
  then have valid: "vc_chunk c < vc_chunks c" by auto
  show ?thesis
  proof (cases "position (\<lambda>p. p_frame_id p = vc_frame_id c) (pendings r)")
    case (Some i)
    then have "push_at c now_us i r = Some r'" using push False by (simp add: push_def)
    then show ?thesis
      using inv_push_at [OF assms(1,2) _ _ valid] position_Some_D [OF Some] by blast
  next
    case None
    let ?r1 = "r\<lparr>gap_nacks := filter (\<lambda>(id, _). id \<noteq> vc_frame_id c) (gap_nacks r)\<rparr>"
    have i1: "I popped ?r1" by (rule inv_forget [OF assms(1)])
    obtain r2 where r2: "(if length (pendings ?r1) \<ge> MAX_PENDING then give_up_expected ?r1 else Some ?r1) = Some r2"
      and at: "push_at c now_us (length (pendings r2))
        (r2\<lparr>pendings := pendings r2 @ [new_pending c now_us]\<rparr>) = Some r'"
      using push False None by (auto simp: push_def Let_def bind_eq_Some_conv split: if_splits)
    have i2: "I popped r2" using r2 i1 inv_give_up_expected by (auto split: if_splits)
    have "p_frame_id ` set (pendings r2) \<subseteq> p_frame_id ` set (pendings r)"
      using r2 give_up_expected_ids [of ?r1 r2] by (auto split: if_splits)
    with None have "vc_frame_id c \<notin> p_frame_id ` set (pendings r2)"
      by (auto simp: position_None_iff)
    from inv_begin [OF i2 assms(2) valid this]
    show ?thesis using inv_push_at [OF _ assms(2) _ _ valid at]
      by (simp add: new_pending_def)
  qed
qed

lemma reach_inv: "video_reach ok popped r \<Longrightarrow> I popped r"
proof (induction rule: video_reach.induct)
  case reach_new
  show ?case by (rule inv_new)
next
  case (reach_push popped r c now_us r')
  then show ?case using inv_push by blast
next
  case (reach_nacks popped r now_us t)
  then show ?case using inv_nacks by blast
next
  case (reach_expire popped r now_us t r')
  then show ?case using inv_expire by blast
next
  case (reach_pop popped r f r')
  then show ?case using inv_pop by (auto simp: pop_def split: list.splits)
next
  case (reach_take popped r)
  then show ?case using inv_wanted by (simp add: take_keyframe_request_def)
qed

end

end
