(* ===== verification/Video_Safety.thy ===== *)
theory Video_Safety
  imports Video_Run
begin

text \<open>
  Safety of the reassembler, as invariants of every reachable state: its bookkeeping is
  well formed, and what it hands to the decoder can be decoded.
\<close>

subsection \<open>Well-formed bookkeeping\<close>

definition wf_pending :: "pending \<Rightarrow> bool" where
  "wf_pending p \<longleftrightarrow>
     p_parts p \<noteq> [] \<and> length (p_parts p) < 65536 \<and>
     p_received p = length (somes (p_parts p)) \<and>
     p_bytes p = length (concat (somes (p_parts p))) \<and>
     unat (p_highest p) < length (p_parts p)"

definition wf_reassembler :: "reassembler \<Rightarrow> bool" where
  "wf_reassembler r \<longleftrightarrow>
     distinct (map p_frame_id (pendings r)) \<and> (\<forall>p\<in>set (pendings r). wf_pending p) \<and>
     distinct (map fst (gap_nacks r)) \<and> length (gap_nacks r) \<le> MAX_REMEMBERED_GAPS"

lemma complete_iff: "wf_pending p \<Longrightarrow> complete p \<longleftrightarrow> None \<notin> set (p_parts p)"
  unfolding complete_def wf_pending_def using somes_full by metis

lemma new_pending_wf: "vc_chunk c < vc_chunks c \<Longrightarrow> wf_pending (new_pending c now_us)"
proof -
  assume "vc_chunk c < vc_chunks c"
  then have "unat (vc_chunks c) \<noteq> 0" by (auto simp: word_less_nat_alt)
  moreover have "unat (vc_chunks c) < 65536" using unsigned_less [of "vc_chunks c", where ?'a = nat] by simp
  ultimately show ?thesis
    by (simp add: wf_pending_def new_pending_def)
qed

lemma new_pending_incomplete: "vc_chunk c < vc_chunks c \<Longrightarrow> \<not> complete (new_pending c now_us)"
  by (auto simp: complete_def new_pending_def word_less_nat_alt)

lemma chunk_fits_index: "chunk_fits c p \<Longrightarrow> unat (vc_chunk c) < length (p_parts p)"
  by (auto simp: chunk_fits_def word_less_nat_alt)

lemma store_part_wf: "wf_pending p \<Longrightarrow> chunk_fits c p \<Longrightarrow> wf_pending (store_part c now_us p)"
proof -
  assume wf: "wf_pending p" and fits: "chunk_fits c p"
  let ?parts = "(p_parts p)[unat (vc_chunk c) := Some (vc_data c)]"
  have i: "unat (vc_chunk c) < length (p_parts p)" "p_parts p ! unat (vc_chunk c) = None"
    using fits chunk_fits_index by (auto simp: chunk_fits_def)
  have m: "mset (somes ?parts) = mset (vc_data c # somes (p_parts p))"
    using somes_update [OF i] by simp
  have "length (somes ?parts) = Suc (length (somes (p_parts p)))"
    using m by (metis length_Cons mset_eq_length)
  moreover have "length (concat (somes ?parts)) =
    length (vc_data c) + length (concat (somes (p_parts p)))"
    using length_concat_mset [OF m] by simp
  moreover have "unat (max (p_highest p) (vc_chunk c)) < length (p_parts p)"
    using wf i by (simp add: max_def wf_pending_def)
  ultimately show ?thesis using wf by (simp add: wf_pending_def store_part_def)
qed

lemma store_part_id [simp]:
  "p_frame_id (store_part c now_us p) = p_frame_id p"
  "p_keyframe (store_part c now_us p) = p_keyframe p"
  "p_capture_ts_us (store_part c now_us p) = p_capture_ts_us p"
  by (simp_all add: store_part_def)

lemma distinct_map_swap_remove:
  "i < length xs \<Longrightarrow> distinct (map f xs) \<Longrightarrow> distinct (map f (swap_remove i xs))"
proof -
  assume i: "i < length xs" and d: "distinct (map f xs)"
  have "mset (map f xs) = add_mset (f (xs ! i)) (mset (map f (swap_remove i xs)))"
    using swap_remove_split [OF i] by (metis image_mset_add_mset mset_map)
  with d show ?thesis
    by (metis distinct.simps(2) mset.simps(2) mset_eq_imp_distinct_iff)
qed

lemma drain_step_wf:
  assumes "wf_reassembler r" and "drain_step r = Some r'"
  shows "wf_reassembler r'"
  using assms(2)
proof (cases rule: drain_step_cases)
  case (next_in_line e i)
  then show ?thesis
    using assms(1) set_swap_remove_subset [of i "pendings r"]
    by (auto simp: wf_reassembler_def distinct_map_swap_remove distinct_map_filter
        intro: le_trans [OF length_filter_le])
next
  case (skip e k n)
  then show ?thesis using assms(1)
    by (auto simp: wf_reassembler_def distinct_map_filter intro: le_trans [OF length_filter_le])
qed

subsection \<open>The gap list stays bounded\<close>

lemma stalest_in_range: "stalest gs = Some i \<Longrightarrow> i < length gs"
  by (induction gs arbitrary: i) (auto split: option.splits if_splits)

lemma stalest_None [simp]: "stalest gs = None \<longleftrightarrow> gs = []"
  by (cases gs) (auto split: option.splits)

lemma remember_gap_length:
  "length gaps \<le> MAX_REMEMBERED_GAPS \<Longrightarrow> length (remember_gap g now_us gaps) \<le> MAX_REMEMBERED_GAPS"
  by (auto simp: remember_gap_def MAX_REMEMBERED_GAPS_def MAX_GAP_NACKS_def Let_def split: option.splits)

lemma remember_gap_distinct:
  assumes "distinct (map fst gaps)"
  shows "distinct (map fst (remember_gap g now_us gaps))"
proof (cases "position (\<lambda>x. fst x = g) gaps")
  case (Some i)
  then have i: "i < length gaps" "fst (gaps ! i) = g" using position_Some_D [OF Some] by auto
  then have "map fst (gaps[i := (g, now_us)]) = map fst gaps"
    by (intro map_update_same) auto
  with Some assms show ?thesis by (simp add: remember_gap_def)
next
  case None
  note new = this
  then have fresh: "g \<notin> fst ` set gaps" by (auto simp: position_None_iff)
  show ?thesis
  proof (cases "stalest gaps")
    case None
    then have "gaps = []" by simp
    then show ?thesis by (simp add: remember_gap_def MAX_REMEMBERED_GAPS_def MAX_GAP_NACKS_def)
  next
    case (Some i)
    note i = stalest_in_range [OF Some]
    have "g \<notin> fst ` set (swap_remove i gaps)"
      using fresh set_swap_remove_subset [OF i] by blast
    with Some new assms fresh i show ?thesis
      by (auto simp: remember_gap_def Let_def distinct_map_swap_remove)
  qed
qed

lemma nack_gaps_wf:
  assumes "distinct (map fst gaps)" and "length gaps \<le> MAX_REMEMBERED_GAPS"
  shows "distinct (map fst (fst (nack_gaps n now_us t newest held g gaps))) \<and>
    length (fst (nack_gaps n now_us t newest held g gaps)) \<le> MAX_REMEMBERED_GAPS"
  using assms
proof (induction n arbitrary: g gaps)
  case 0
  then show ?case by simp
next
  case (Suc n)
  let ?ask = "g \<notin> set held \<and> due now_us t (map_option (\<lambda>i. snd (gaps ! i)) (position (\<lambda>x. fst x = g) gaps))"
  let ?gaps = "if ?ask then remember_gap g now_us gaps else gaps"
  have "distinct (map fst ?gaps)" "length ?gaps \<le> MAX_REMEMBERED_GAPS"
    using Suc.prems remember_gap_distinct remember_gap_length by auto
  from Suc.IH [OF this, of "g + 1"] Suc.prems show ?case
    by (simp add: Let_def split_def)
qed

lemma nack_pending_same:
  "p_frame_id (fst (nack_pending now_us t newest w p)) = p_frame_id p"
  "p_keyframe (fst (nack_pending now_us t newest w p)) = p_keyframe p"
  "p_capture_ts_us (fst (nack_pending now_us t newest w p)) = p_capture_ts_us p"
  "p_parts (fst (nack_pending now_us t newest w p)) = p_parts p"
  "wf_pending (fst (nack_pending now_us t newest w p)) = wf_pending p"
  "complete (fst (nack_pending now_us t newest w p)) = complete p"
  "complete p \<Longrightarrow> fst (nack_pending now_us t newest w p) = p"
  by (auto simp: nack_pending_def Let_def wf_pending_def complete_def)

lemma nacks_simps:
  "pendings (fst (nacks now_us t r)) =
     map (\<lambda>p. fst (nack_pending now_us t (newest_pending r) (waiting_for_keyframe r) p)) (pendings r)"
  "ready (fst (nacks now_us t r)) = ready r"
  "last_settled (fst (nacks now_us t r)) = last_settled r"
  "waiting_for_keyframe (fst (nacks now_us t r)) = waiting_for_keyframe r"
  by (simp_all add: nacks_def Let_def split_def comp_def)

lemma nacks_ids: "map p_frame_id (pendings (fst (nacks now_us t r))) = map p_frame_id (pendings r)"
  by (simp add: nacks_simps nack_pending_same comp_def)

lemma nacks_gaps:
  "gap_nacks (fst (nacks now_us t r)) = gap_nacks r \<or>
   (\<exists>n newest held g. gap_nacks (fst (nacks now_us t r)) =
      fst (nack_gaps n now_us t newest held g (gap_nacks r)))"
  by (auto simp: nacks_def Let_def split_def split: option.splits)

lemma nacks_wf: "wf_reassembler r \<Longrightarrow> wf_reassembler (fst (nacks now_us t r))"
proof -
  assume wf: "wf_reassembler r"
  have "distinct (map fst (gap_nacks (fst (nacks now_us t r)))) \<and>
    length (gap_nacks (fst (nacks now_us t r))) \<le> MAX_REMEMBERED_GAPS"
    using nacks_gaps [of now_us t r] nack_gaps_wf wf unfolding wf_reassembler_def by metis
  then show ?thesis using wf nacks_ids [of now_us t r]
    by (auto simp: wf_reassembler_def nacks_simps(1) nack_pending_same comp_def)
qed

interpretation wf: video_invariant "\<lambda>_. True" "\<lambda>_. wf_reassembler"
proof
  fix popped r r' g first_us st w Q c now_us i t f fs
  show "wf_reassembler reassembler_new"
    by (simp add: wf_reassembler_def reassembler_new_def)
  show "wf_reassembler r \<Longrightarrow> drain_step r = Some r' \<Longrightarrow> wf_reassembler r'"
    by (rule drain_step_wf)
  show "wf_reassembler r \<Longrightarrow> wf_reassembler (lost (give_up_expected_quietly r))"
    by (auto simp: wf_reassembler_def give_up_expected_quietly_def distinct_map_filter
        intro: le_trans [OF length_filter_le] split: option.splits)
  show "wf_reassembler r \<Longrightarrow> wf_reassembler (lost (settle (g - 1) (count_incomplete 1 r)))"
    by (auto simp: wf_reassembler_def distinct_map_filter intro: le_trans [OF length_filter_le])
  show "wf_reassembler r \<Longrightarrow> wf_reassembler (r\<lparr>stats := st\<rparr>)"
    "wf_reassembler r \<Longrightarrow> wf_reassembler (r\<lparr>keyframe_wanted := w\<rparr>)"
    "wf_reassembler r \<Longrightarrow> wf_reassembler (r\<lparr>ready := fs\<rparr>)"
    by (simp_all add: wf_reassembler_def)
  show "wf_reassembler r \<Longrightarrow> wf_reassembler (r\<lparr>gap_nacks := filter Q (gap_nacks r)\<rparr>)"
    by (auto simp: wf_reassembler_def distinct_map_filter intro: le_trans [OF length_filter_le])
  show "wf_reassembler r \<Longrightarrow> vc_chunk c < vc_chunks c \<Longrightarrow>
      vc_frame_id c \<notin> p_frame_id ` set (pendings r) \<Longrightarrow>
      wf_reassembler (r\<lparr>pendings := pendings r @ [new_pending c now_us]\<rparr>)"
    using new_pending_wf [of c now_us]
    by (auto simp: wf_reassembler_def) (simp_all add: new_pending_def)
  show "wf_reassembler r \<Longrightarrow> i < length (pendings r) \<Longrightarrow> chunk_fits c (pendings r ! i) \<Longrightarrow>
      wf_reassembler (r\<lparr>pendings := (pendings r)[i := store_part c now_us (pendings r ! i)]\<rparr>)"
    using store_part_wf [of "pendings r ! i" c now_us]
    by (auto simp: wf_reassembler_def map_update_same dest!: set_update_subset_insert [THEN subsetD])
  show "wf_reassembler r \<Longrightarrow> wf_reassembler (fst (nacks now_us t r))"
    by (rule nacks_wf)
qed

end
