(* ===== verification/Video_Delivery.thy ===== *)
theory Video_Delivery
  imports Video_Safety
begin

text \<open>
  What the reassembler hands to the decoder. The first frame is a keyframe and every other
  P-frame directly follows the frame it is decoded against; and every frame is, byte for
  byte, one that was sent, whatever the network lost, repeated or reordered.
\<close>

subsection \<open>The reference chain\<close>

definition follows :: "assembled_frame \<Rightarrow> assembled_frame \<Rightarrow> bool" where
  "follows a b \<longleftrightarrow> af_keyframe b \<or> af_frame_id b = af_frame_id a + 1"

definition decodable :: "assembled_frame list \<Rightarrow> bool" where
  "decodable fs \<longleftrightarrow> (fs \<noteq> [] \<longrightarrow> af_keyframe (hd fs)) \<and> successively follows fs"

lemma decodable_Nil [simp]: "decodable []"
  by (simp add: decodable_def)

lemma decodable_snoc:
  "decodable (fs @ [f]) \<longleftrightarrow>
     decodable fs \<and> (if fs = [] then af_keyframe f else follows (last fs) f)"
  by (auto simp: decodable_def successively_append_iff)

text \<open>While the chain holds, the decoder is at the last settled frame, or a keyframe that
  needs nothing before it is next.\<close>

definition linked :: "assembled_frame list \<Rightarrow> reassembler \<Rightarrow> bool" where
  "linked fs r \<longleftrightarrow>
     waiting_for_keyframe r \<or>
     (\<exists>s. last_settled r = Some s \<and>
        ((fs \<noteq> [] \<and> s = af_frame_id (last fs)) \<or>
         (\<exists>p\<in>set (pendings r). p_keyframe p \<and> complete p \<and> p_frame_id p = s + 1)))"

definition chain_inv :: "assembled_frame list \<Rightarrow> reassembler \<Rightarrow> bool" where
  "chain_inv popped r \<longleftrightarrow>
     wf_reassembler r \<and> decodable (popped @ ready r) \<and> linked (popped @ ready r) r"

lemma last_settled_expected:
  assumes "expected r = Some e"
  shows "last_settled (settle e r) = Some e"
  using assms is_newer_succ
  by (auto simp: last_settled_settle expected_def split: option.splits)

lemma expected_pendings:
  "last_settled r = Some s \<Longrightarrow> expected (r\<lparr>pendings := ps\<rparr>) = expected r"
  by (simp add: expected_def)

lemma last_settled_deliver:
  assumes "expected r = Some e" and "p_frame_id p = e"
  shows "last_settled (deliver p (r\<lparr>pendings := ps\<rparr>)) = Some e"
proof -
  have "last_settled (settle e (r\<lparr>pendings := ps\<rparr>)) = last_settled (settle e r)"
    by (simp add: last_settled_settle)
  with assms show ?thesis by (simp add: last_settled_expected)
qed

lemma same_id_same_pending:
  "wf_reassembler r \<Longrightarrow> p \<in> set (pendings r) \<Longrightarrow> q \<in> set (pendings r) \<Longrightarrow>
   p_frame_id p = p_frame_id q \<Longrightarrow> p = q"
  by (auto simp: wf_reassembler_def distinct_map dest: inj_onD)

lemma keyframe_candidate:
  assumes "reduce older_of (map p_frame_id (filter (\<lambda>p. p_keyframe p \<and> complete p) ps)) = Some k"
  shows "\<exists>p\<in>set ps. p_keyframe p \<and> complete p \<and> p_frame_id p = k"
  using reduce_in_set [OF assms older_of_cases] by auto

lemma chain_deliver:
  assumes inv: "chain_inv popped r" and e: "expected r = Some e" and i: "i < length (pendings r)"
    and id: "p_frame_id (pendings r ! i) = e" and comp: "complete (pendings r ! i)"
  shows "chain_inv popped (deliver (pendings r ! i) (r\<lparr>pendings := swap_remove i (pendings r)\<rparr>))"
    (is "chain_inv popped ?r")
proof -
  let ?p = "pendings r ! i" and ?D = "popped @ ready r"
  have settled: "last_settled ?r = Some e" by (rule last_settled_deliver [OF e id])
  have wf: "wf_reassembler ?r"
    using inv e i id comp drain_step_wf [of r ?r]
    by (auto simp: chain_inv_def wf_reassembler_def distinct_map_swap_remove distinct_map_filter
        dest: set_swap_remove_subset [THEN subsetD] intro: le_trans [OF length_filter_le])
  show ?thesis
  proof (cases "\<not> p_keyframe ?p \<and> waiting_for_keyframe r")
    case True
    then show ?thesis using inv wf
      by (simp add: chain_inv_def linked_def ready_deliver waiting_deliver)
  next
    case False
    have "if ?D = [] then p_keyframe ?p else follows (last ?D) (assembled ?p)"
    proof (cases "p_keyframe ?p")
      case True
      then show ?thesis by (simp add: follows_def assembled_def)
    next
      case P: False
      with False inv obtain s where s: "last_settled r = Some s"
        and at: "(?D \<noteq> [] \<and> s = af_frame_id (last ?D)) \<or>
          (\<exists>q\<in>set (pendings r). p_keyframe q \<and> complete q \<and> p_frame_id q = s + 1)"
        by (auto simp: chain_inv_def linked_def)
      have es: "e = s + 1" using e s by (simp add: expected_def)
      have "\<not> (\<exists>q\<in>set (pendings r). p_keyframe q \<and> complete q \<and> p_frame_id q = s + 1)"
        using P id es i same_id_same_pending [of r ?p] inv by (auto simp: chain_inv_def)
      with at P id es show ?thesis by (auto simp: follows_def assembled_def)
    qed
    then have "decodable (?D @ [assembled ?p])"
      using inv by (simp add: chain_inv_def decodable_snoc del: append_assoc) (simp add: assembled_def)
    moreover have "ready ?r = ready r @ [assembled ?p]" using False by (auto simp: ready_deliver)
    ultimately show ?thesis using wf settled id
      by (simp add: chain_inv_def linked_def assembled_def)
  qed
qed

lemma chain_drain_step:
  assumes inv: "chain_inv popped r" and step: "drain_step r = Some r'"
  shows "chain_inv popped r'"
  using step
proof (cases rule: drain_step_cases)
  case (next_in_line e i)
  then show ?thesis using chain_deliver [OF inv] by simp
next
  case (skip e k n)
  let ?D = "popped @ ready r"
  have wf: "wf_reassembler r'" using inv step drain_step_wf by (auto simp: chain_inv_def)
  obtain q where q: "q \<in> set (pendings r)" "p_keyframe q" "complete q" "p_frame_id q = k"
    using keyframe_candidate [OF skip(3)] by blast
  then have kept: "q \<in> set (pendings r')" using skip(4) is_newer_succ [of "k - 1"] by auto
  have ready: "ready r' = ready r" and waiting: "waiting_for_keyframe r' = waiting_for_keyframe r"
    using skip(4) by simp_all
  have settled: "last_settled r' = Some (k - 1) \<or> last_settled r' = last_settled r"
    using skip(4) by (auto simp: last_settled_settle split: option.splits)
  have "linked ?D r'"
  proof (cases "waiting_for_keyframe r")
    case True
    then show ?thesis using waiting by (simp add: linked_def)
  next
    case False
    then obtain s where s: "last_settled r = Some s"
      and at: "(?D \<noteq> [] \<and> s = af_frame_id (last ?D)) \<or>
          (\<exists>p\<in>set (pendings r). p_keyframe p \<and> complete p \<and> p_frame_id p = s + 1)"
      using inv by (auto simp: chain_inv_def linked_def)
    have "e = s + 1" using skip(1) s by (simp add: expected_def)
    with skip(2) at have "?D \<noteq> [] \<and> s = af_frame_id (last ?D)" by auto
    with settled s q kept show ?thesis by (auto simp: linked_def)
  qed
  with inv wf ready show ?thesis by (simp add: chain_inv_def)
qed

lemma linked_nacks: "linked fs r \<Longrightarrow> linked fs (fst (nacks now_us t r))"
  unfolding linked_def nacks_simps by (force simp: nack_pending_same)

lemma linked_begin:
  "linked fs r \<Longrightarrow> linked fs (r\<lparr>pendings := pendings r @ [p]\<rparr>)"
  by (auto simp: linked_def)

lemma linked_store:
  assumes "linked fs r" and "wf_reassembler r" and "i < length (pendings r)"
    and fits: "chunk_fits c (pendings r ! i)"
  shows "linked fs (r\<lparr>pendings := (pendings r)[i := p]\<rparr>)"
proof -
  have "None \<in> set (p_parts (pendings r ! i))"
    using fits chunk_fits_index [OF fits] by (metis chunk_fits_def nth_mem)
  then have "\<not> complete (pendings r ! i)"
    using assms(2,3) by (simp add: complete_iff wf_reassembler_def)
  then have "\<And>q. q \<in> set (pendings r) \<Longrightarrow> complete q \<Longrightarrow> q \<in> set ((pendings r)[i := p])"
    by (metis in_set_conv_nth length_list_update nth_list_update_neq)
  with assms(1) show ?thesis by (auto simp: linked_def)
qed

interpretation chain: video_invariant "\<lambda>_. True" chain_inv
proof
  fix popped r r' g first_us st w Q c now_us i t f fs
  show "chain_inv [] reassembler_new"
    using wf.inv_new by (simp add: chain_inv_def linked_def reassembler_new_def)
  show "chain_inv popped r \<Longrightarrow> drain_step r = Some r' \<Longrightarrow> chain_inv popped r'"
    by (rule chain_drain_step)
  show "chain_inv popped r \<Longrightarrow> chain_inv popped (lost (give_up_expected_quietly r))"
    using wf.inv_give_up by (simp add: chain_inv_def linked_def)
  show "chain_inv popped r \<Longrightarrow> oldest_pending r = Some (g, first_us) \<Longrightarrow>
      chain_inv popped (lost (settle (g - 1) (count_incomplete 1 r)))"
    using wf.inv_give_up_gap by (simp add: chain_inv_def linked_def)
  show "chain_inv popped r \<Longrightarrow> chain_inv popped (r\<lparr>stats := st\<rparr>)"
    using wf.inv_stats by (simp add: chain_inv_def linked_def)
  show "chain_inv popped r \<Longrightarrow> chain_inv popped (r\<lparr>keyframe_wanted := w\<rparr>)"
    using wf.inv_wanted by (simp add: chain_inv_def linked_def)
  show "chain_inv popped r \<Longrightarrow> chain_inv popped (r\<lparr>gap_nacks := filter Q (gap_nacks r)\<rparr>)"
    using wf.inv_forget by (simp add: chain_inv_def linked_def)
  show "chain_inv popped r \<Longrightarrow> vc_chunk c < vc_chunks c \<Longrightarrow>
      vc_frame_id c \<notin> p_frame_id ` set (pendings r) \<Longrightarrow>
      chain_inv popped (r\<lparr>pendings := pendings r @ [new_pending c now_us]\<rparr>)"
    using wf.inv_begin linked_begin by (simp add: chain_inv_def)
  show "chain_inv popped r \<Longrightarrow> i < length (pendings r) \<Longrightarrow> chunk_fits c (pendings r ! i) \<Longrightarrow>
      chain_inv popped (r\<lparr>pendings := (pendings r)[i := store_part c now_us (pendings r ! i)]\<rparr>)"
    using wf.inv_store linked_store by (simp add: chain_inv_def)
  show "chain_inv popped r \<Longrightarrow> chain_inv popped (fst (nacks now_us t r))"
    using nacks_wf linked_nacks by (simp add: chain_inv_def nacks_simps)
  show "chain_inv popped r \<Longrightarrow> ready r = f # fs \<Longrightarrow>
      chain_inv (popped @ [f]) (r\<lparr>ready := fs\<rparr>)"
    using wf.inv_pop by (simp add: chain_inv_def linked_def)
qed

end
