(* ===== verification/Video_Packets.thy ===== *)
theory Video_Packets
  imports Video_Delivery
begin

text \<open>
  Splitting and reassembly together. \<open>packetize\<close> cuts a frame into chunks that fit their
  datagrams and lose nothing; and a reassembler fed with chunks of sent frames, in any
  order, any number of times and with any of them missing, delivers sent frames only.
\<close>

subsection \<open>What packetize produces\<close>

definition piece :: "nat \<Rightarrow> bytes \<Rightarrow> nat \<Rightarrow> bytes" where
  "piece n data i = take n (drop (i * n) data)"

definition chunk_count :: "nat \<Rightarrow> nat \<Rightarrow> nat" where
  "chunk_count n len = max (div_ceil len n) 1"

definition chunk_of :: "u32 \<Rightarrow> bool \<Rightarrow> u64 \<Rightarrow> bytes \<Rightarrow> nat \<Rightarrow> nat \<Rightarrow> video_chunk" where
  "chunk_of fid keyframe ts data n i =
     \<lparr>vc_frame_id = fid, vc_chunk = word_of_nat i,
      vc_chunks = word_of_nat (chunk_count n (length data)), vc_keyframe = keyframe,
      vc_capture_ts_us = ts, vc_data = piece n data i\<rparr>"

lemma concat_pieces: "concat (map (piece n data) [0..<k]) = take (k * n) data"
  by (induction k) (auto simp: piece_def take_add [symmetric] add.commute)

lemma chunk_count_enough: "0 < n \<Longrightarrow> len \<le> chunk_count n len * n"
  using div_ceil_le_iff [of n len "chunk_count n len"] by (simp add: chunk_count_def)

lemma concat_all_pieces: "0 < n \<Longrightarrow> concat (map (piece n data) [0..<chunk_count n (length data)]) = data"
  using chunk_count_enough [of n "length data"] by (simp add: concat_pieces)

lemma chunk_count_pos [simp]: "0 < chunk_count n len" "chunk_count n len \<noteq> 0"
  by (simp_all add: chunk_count_def)

lemma piece_clipped:
  "take (min (i * n + n) (length data) - i * n) (drop (i * n) data) = piece n data i"
  by (simp add: piece_def min_def)

lemma packetize_eq:
  "packetize fid keyframe ts data dg =
     (if dg < MIN_DATAGRAM then Inl (DatagramTooSmall dg)
      else let n = dg - CHUNK_OVERHEAD; count = chunk_count n (length data) in
        if count \<ge> 65536 then Inl (FrameTooLarge (length data))
        else Inr (map (chunk_of fid keyframe ts data n) [0..<count]))"
  by (simp add: packetize_def chunk_count_def chunk_of_def [abs_def] piece_clipped Let_def
      le_max_iff_disj)

lemma payload_pos: "MIN_DATAGRAM \<le> dg \<Longrightarrow> 0 < dg - CHUNK_OVERHEAD"
  by (simp add: MIN_DATAGRAM_def CHUNK_OVERHEAD_def)

lemma packetize_Inr_iff:
  "packetize fid keyframe ts data dg = Inr cs \<longleftrightarrow>
     MIN_DATAGRAM \<le> dg \<and> chunk_count (dg - CHUNK_OVERHEAD) (length data) < 65536 \<and>
     cs = map (chunk_of fid keyframe ts data (dg - CHUNK_OVERHEAD))
            [0..<chunk_count (dg - CHUNK_OVERHEAD) (length data)]"
  by (auto simp: packetize_eq Let_def)

lemma chunk_count_le: "0 < n \<Longrightarrow> chunk_count n len \<le> k \<longleftrightarrow> len \<le> k * n \<and> 1 \<le> k"
  by (auto simp: chunk_count_def div_ceil_le_iff)

lemma unat_chunk_count: "k < 65536 \<Longrightarrow> unat (word_of_nat k :: u16) = k"
  by (simp add: unat_of_nat take_bit_eq_mod)

subsection \<open>Only sent frames are delivered\<close>

record sent_frame =
  sf_keyframe :: bool
  sf_capture_ts_us :: u64
  sf_data :: bytes
  sf_datagram :: nat

text \<open>A chunk the sender made: \<open>src\<close> gives the frame sent under each id.\<close>

definition sent_chunk :: "(u32 \<Rightarrow> sent_frame) \<Rightarrow> video_chunk \<Rightarrow> bool" where
  "sent_chunk src c \<longleftrightarrow>
     (let f = src (vc_frame_id c) in
      \<exists>cs. packetize (vc_frame_id c) (sf_keyframe f) (sf_capture_ts_us f) (sf_data f) (sf_datagram f)
             = (Inr cs :: unit error + video_chunk list) \<and> c \<in> set cs)"

definition genuine :: "(u32 \<Rightarrow> sent_frame) \<Rightarrow> assembled_frame \<Rightarrow> bool" where
  "genuine src f \<longleftrightarrow>
     (let s = src (af_frame_id f) in
      af_keyframe f = sf_keyframe s \<and> af_capture_ts_us f = sf_capture_ts_us s \<and>
      af_data f = sf_data s)"

definition payload_of :: "sent_frame \<Rightarrow> nat" where
  "payload_of f = sf_datagram f - CHUNK_OVERHEAD"

definition part_of :: "(u32 \<Rightarrow> sent_frame) \<Rightarrow> pending \<Rightarrow> bool" where
  "part_of src p \<longleftrightarrow>
     (let f = src (p_frame_id p); n = payload_of f in
      0 < n \<and> p_keyframe p = sf_keyframe f \<and> p_capture_ts_us p = sf_capture_ts_us f \<and>
      length (p_parts p) = chunk_count n (length (sf_data f)) \<and>
      (\<forall>i<length (p_parts p). p_parts p ! i = None \<or> p_parts p ! i = Some (piece n (sf_data f) i)))"

lemma sent_chunkD:
  assumes "sent_chunk src c"
  obtains i where "MIN_DATAGRAM \<le> sf_datagram (src (vc_frame_id c))"
    "0 < payload_of (src (vc_frame_id c))"
    "i < chunk_count (payload_of (src (vc_frame_id c))) (length (sf_data (src (vc_frame_id c))))"
    "unat (vc_chunk c) = i"
    "unat (vc_chunks c) = chunk_count (payload_of (src (vc_frame_id c))) (length (sf_data (src (vc_frame_id c))))"
    "vc_keyframe c = sf_keyframe (src (vc_frame_id c))"
    "vc_capture_ts_us c = sf_capture_ts_us (src (vc_frame_id c))"
    "vc_data c = piece (payload_of (src (vc_frame_id c))) (sf_data (src (vc_frame_id c))) i"
proof -
  let ?f = "src (vc_frame_id c)"
  from assms obtain i where i: "i < chunk_count (payload_of ?f) (length (sf_data ?f))"
    and c: "c = chunk_of (vc_frame_id c) (sf_keyframe ?f) (sf_capture_ts_us ?f) (sf_data ?f) (payload_of ?f) i"
    and big: "MIN_DATAGRAM \<le> sf_datagram ?f" "chunk_count (payload_of ?f) (length (sf_data ?f)) < 65536"
    by (auto simp: sent_chunk_def Let_def packetize_Inr_iff payload_of_def)
  have pos: "0 < payload_of ?f" using big(1) payload_pos by (simp add: payload_of_def)
  have "vc_chunk c = word_of_nat i"
    "vc_chunks c = word_of_nat (chunk_count (payload_of ?f) (length (sf_data ?f)))"
    "vc_keyframe c = sf_keyframe ?f" "vc_capture_ts_us c = sf_capture_ts_us ?f"
    "vc_data c = piece (payload_of ?f) (sf_data ?f) i"
    by (subst c, simp add: chunk_of_def)+
  then show ?thesis using that [OF big(1) pos i] i big(2)
    by (simp add: unat_chunk_count)
qed

lemma part_of_new: "sent_chunk src c \<Longrightarrow> part_of src (new_pending c now_us)"
  by (erule sent_chunkD) (simp add: part_of_def new_pending_def Let_def)

lemma part_of_store:
  assumes "sent_chunk src c" and "part_of src p" and fits: "chunk_fits c p"
  shows "part_of src (store_part c now_us p)"
proof -
  have fid: "p_frame_id p = vc_frame_id c" using fits by (simp add: chunk_fits_def)
  from assms(1) show ?thesis
    using assms(2) chunk_fits_index [OF fits]
    by (elim sent_chunkD) (auto simp: part_of_def Let_def store_part_def fid nth_list_update)
qed

lemma join_parts_somes: "parts \<noteq> [] \<Longrightarrow> None \<notin> set parts \<Longrightarrow> join_parts parts = concat (somes parts)"
  by (cases parts) (auto simp: join_parts_def split: option.splits)

lemma part_of_complete:
  assumes "part_of src p" and "wf_pending p" and "complete p"
  shows "genuine src (assembled p)"
proof -
  let ?f = "src (p_frame_id p)"
  let ?n = "payload_of ?f"
  have full: "None \<notin> set (p_parts p)" using assms complete_iff by blast
  have "p_parts p = map (\<lambda>i. Some (piece ?n (sf_data ?f) i)) [0..<length (p_parts p)]"
  proof (rule nth_equalityI)
    fix i assume "i < length (p_parts p)"
    moreover from this full have "p_parts p ! i \<noteq> None" by (metis nth_mem)
    ultimately show "p_parts p ! i = map (\<lambda>i. Some (piece ?n (sf_data ?f) i)) [0..<length (p_parts p)] ! i"
      using assms(1) by (auto simp: part_of_def Let_def)
  qed simp
  then have "somes (p_parts p) = map (piece ?n (sf_data ?f)) [0..<length (p_parts p)]"
    by (metis somes_map_Some)
  moreover have "length (p_parts p) = chunk_count ?n (length (sf_data ?f))" "0 < ?n"
    using assms(1) by (auto simp: part_of_def Let_def)
  ultimately have "join_parts (p_parts p) = sf_data ?f"
    using assms(2) full by (simp add: join_parts_somes wf_pending_def concat_all_pieces)
  then show ?thesis using assms(1)
    by (simp add: genuine_def assembled_def part_of_def Let_def)
qed

definition sent_inv :: "(u32 \<Rightarrow> sent_frame) \<Rightarrow> assembled_frame list \<Rightarrow> reassembler \<Rightarrow> bool" where
  "sent_inv src popped r \<longleftrightarrow>
     wf_reassembler r \<and> (\<forall>p\<in>set (pendings r). part_of src p) \<and>
     (\<forall>f\<in>set (popped @ ready r). genuine src f)"

lemma part_of_nack: "part_of src (fst (nack_pending now_us t newest w p)) = part_of src p"
  by (simp add: part_of_def nack_pending_same)

lemma sent_drain_step:
  assumes inv: "sent_inv src popped r" and step: "drain_step r = Some r'"
  shows "sent_inv src popped r'"
proof -
  have wf: "wf_reassembler r'" using inv step drain_step_wf by (auto simp: sent_inv_def)
  have parts: "\<forall>p\<in>set (pendings r'). part_of src p"
    using inv drain_step_pendings [OF step] by (auto simp: sent_inv_def)
  have "\<forall>f\<in>set (ready r'). f \<in> set (ready r) \<or> genuine src f"
    using step
  proof (cases rule: drain_step_cases)
    case (next_in_line e i)
    then have "genuine src (assembled (pendings r ! i))"
      using inv by (intro part_of_complete) (auto simp: sent_inv_def wf_reassembler_def)
    with next_in_line show ?thesis by (auto simp: ready_deliver)
  next
    case (skip e k n)
    then show ?thesis by simp
  qed
  with inv wf parts show ?thesis by (auto simp: sent_inv_def)
qed

interpretation sent: video_invariant "sent_chunk src" "sent_inv src" for src
proof
  fix popped r r' g first_us st w Q c now_us i t f fs
  show "sent_inv src [] reassembler_new"
    using wf.inv_new by (simp add: sent_inv_def reassembler_new_def)
  show "sent_inv src popped r \<Longrightarrow> drain_step r = Some r' \<Longrightarrow> sent_inv src popped r'"
    by (rule sent_drain_step)
  show "sent_inv src popped r \<Longrightarrow> sent_inv src popped (lost (give_up_expected_quietly r))"
    using wf.inv_give_up by (auto simp: sent_inv_def split: option.splits)
  show "sent_inv src popped r \<Longrightarrow> oldest_pending r = Some (g, first_us) \<Longrightarrow>
      sent_inv src popped (lost (settle (g - 1) (count_incomplete 1 r)))"
    using wf.inv_give_up_gap by (auto simp: sent_inv_def)
  show "sent_inv src popped r \<Longrightarrow> sent_inv src popped (r\<lparr>stats := st\<rparr>)"
    using wf.inv_stats by (auto simp: sent_inv_def)
  show "sent_inv src popped r \<Longrightarrow> sent_inv src popped (r\<lparr>keyframe_wanted := w\<rparr>)"
    using wf.inv_wanted by (auto simp: sent_inv_def)
  show "sent_inv src popped r \<Longrightarrow> sent_inv src popped (r\<lparr>gap_nacks := filter Q (gap_nacks r)\<rparr>)"
    using wf.inv_forget by (auto simp: sent_inv_def)
  show "sent_inv src popped r \<Longrightarrow> sent_chunk src c \<Longrightarrow> vc_chunk c < vc_chunks c \<Longrightarrow>
      vc_frame_id c \<notin> p_frame_id ` set (pendings r) \<Longrightarrow>
      sent_inv src popped (r\<lparr>pendings := pendings r @ [new_pending c now_us]\<rparr>)"
    using wf.inv_begin part_of_new by (auto simp: sent_inv_def)
  show "sent_inv src popped r \<Longrightarrow> sent_chunk src c \<Longrightarrow> i < length (pendings r) \<Longrightarrow>
      chunk_fits c (pendings r ! i) \<Longrightarrow>
      sent_inv src popped (r\<lparr>pendings := (pendings r)[i := store_part c now_us (pendings r ! i)]\<rparr>)"
    using wf.inv_store part_of_store [of src c "pendings r ! i" now_us]
    by (auto simp: sent_inv_def dest!: set_update_subset_insert [THEN subsetD])
  show "sent_inv src popped r \<Longrightarrow> sent_inv src popped (fst (nacks now_us t r))"
    using nacks_wf by (auto simp: sent_inv_def nacks_simps part_of_nack)
  show "sent_inv src popped r \<Longrightarrow> ready r = f # fs \<Longrightarrow>
      sent_inv src (popped @ [f]) (r\<lparr>ready := fs\<rparr>)"
    using wf.inv_pop by (auto simp: sent_inv_def)
qed


subsection \<open>Every frame of a clean network is delivered\<close>

primrec push_all :: "(video_chunk \<times> u64) list \<Rightarrow> reassembler \<Rightarrow> reassembler option" where
  "push_all [] r = Some r"
| "push_all (x # xs) r = Option.bind (push (fst x) (snd x) r) (push_all xs)"

lemma push_all_append: "push_all (xs @ ys) r = Option.bind (push_all xs r) (push_all ys)"
  by (induction xs arbitrary: r) (auto split: bind_splits)

text \<open>A reassembler with nothing pending that can take frame \<open>fid\<close> next.\<close>

definition awaits :: "u32 \<Rightarrow> bool \<Rightarrow> reassembler \<Rightarrow> bool" where
  "awaits fid keyframe r \<longleftrightarrow>
     pendings r = [] \<and> (case last_settled r of None \<Rightarrow> True | Some s \<Rightarrow> fid = s + 1) \<and>
     (keyframe \<or> \<not> waiting_for_keyframe r)"

text \<open>Part way through: one pending frame, holding exactly the chunks of \<open>S\<close>.\<close>

definition holding :: "(u32 \<Rightarrow> sent_frame) \<Rightarrow> u32 \<Rightarrow> nat set \<Rightarrow> reassembler \<Rightarrow> reassembler \<Rightarrow> bool" where
  "holding src fid S r0 r \<longleftrightarrow>
     (\<exists>p. pendings r = [p] \<and> p_frame_id p = fid \<and> wf_pending p \<and> part_of src p \<and>
        (\<forall>i<length (p_parts p). p_parts p ! i = None \<longleftrightarrow> i \<notin> S)) \<and>
     ready r = ready r0 \<and> last_settled r = last_settled r0 \<and>
     waiting_for_keyframe r = waiting_for_keyframe r0"

definition sent_as :: "(u32 \<Rightarrow> sent_frame) \<Rightarrow> u32 \<Rightarrow> assembled_frame" where
  "sent_as src fid = \<lparr>af_frame_id = fid, af_keyframe = sf_keyframe (src fid),
     af_capture_ts_us = sf_capture_ts_us (src fid), af_data = sf_data (src fid)\<rparr>"

lemma drain_single:
  assumes "pendings r = [p]" and "complete p"
    and "awaits (p_frame_id p) (p_keyframe p) (r\<lparr>pendings := []\<rparr>)"
  shows "\<exists>r'. drain r = Some r' \<and> ready r' = ready r @ [assembled p] \<and> pendings r' = [] \<and>
    last_settled r' = Some (p_frame_id p) \<and> \<not> waiting_for_keyframe r'"
proof -
  let ?r = "deliver p (r\<lparr>pendings := []\<rparr>)"
  have e: "expected r = Some (p_frame_id p)"
    using assms(1,3) by (auto simp: expected_def awaits_def split: option.splits)
  have step: "drain_step r = Some ?r"
    using assms(1,2) e by (simp add: drain_step_def swap_remove_def)
  have stop: "drain_step ?r = None" by (simp add: drain_step_def split: option.splits)
  have "drain r = Some ?r"
    by (subst drain.simps, simp add: step, subst drain.simps, simp add: stop)
  moreover have "ready ?r = ready r @ [assembled p]" "\<not> waiting_for_keyframe ?r"
    using assms(3) by (auto simp: ready_deliver waiting_deliver awaits_def)
  moreover have "last_settled ?r = Some (p_frame_id p)" by (rule last_settled_deliver [OF e refl])
  ultimately show ?thesis by simp
qed

text \<open>Storing one more chunk of the frame: held while some are missing, delivered with the
  last one.\<close>

lemma store_next:
  assumes p: "wf_pending p" "part_of src p" "p_frame_id p = fid"
    and c: "sent_chunk src c" "vc_frame_id c = fid"
    and S: "\<forall>i<length (p_parts p). p_parts p ! i = None \<longleftrightarrow> i \<notin> S" "unat (vc_chunk c) \<notin> S"
    and r: "pendings r = [p]" "ready r = ready r0" "last_settled r = last_settled r0"
      "waiting_for_keyframe r = waiting_for_keyframe r0"
    and r0: "awaits fid (sf_keyframe (src fid)) r0"
  shows "\<exists>r'. push_at c now_us 0 r = Some r' \<and>
    (if S \<union> {unat (vc_chunk c)} \<supseteq> {..<length (p_parts p)}
     then ready r' = ready r0 @ [sent_as src fid] \<and>
          pendings r' = [] \<and> last_settled r' = Some fid \<and> \<not> waiting_for_keyframe r'
     else holding src fid (insert (unat (vc_chunk c)) S) r0 r')"
proof -
  let ?i = "unat (vc_chunk c)" and ?p = "store_part c now_us p"
  let ?r = "r\<lparr>pendings := [?p]\<rparr>"
  have len: "unat (vc_chunks c) = length (p_parts p)" "?i < length (p_parts p)"
    "vc_keyframe c = p_keyframe p"
    using c p by (auto elim!: sent_chunkD simp: part_of_def Let_def)
  then have fits: "chunk_fits c p"
    using S p c by (auto simp: chunk_fits_def word_less_nat_alt)
  have wf: "wf_pending ?p" and part: "part_of src ?p"
    using store_part_wf [OF p(1) fits] part_of_store [OF c(1) p(2) fits] by auto
  have missing: "\<forall>i<length (p_parts ?p). p_parts ?p ! i = None \<longleftrightarrow> i \<notin> insert ?i S"
    using S len by (auto simp: store_part_def nth_list_update)
  have comp: "complete ?p \<longleftrightarrow> {..<length (p_parts p)} \<subseteq> S \<union> {?i}"
  proof -
    have "None \<in> set (p_parts ?p) \<longleftrightarrow> (\<exists>i<length (p_parts ?p). p_parts ?p ! i = None)"
      by (metis in_set_conv_nth)
    also have "\<dots> \<longleftrightarrow> (\<exists>i<length (p_parts ?p). i \<notin> insert ?i S)" using missing by blast
    also have "length (p_parts ?p) = length (p_parts p)" by (simp add: store_part_def)
    finally show ?thesis unfolding complete_iff [OF wf] by blast
  qed
  have push: "push_at c now_us 0 r = (if complete ?p then drain ?r else Some ?r)"
    using fits r(1) by (simp add: push_at_def chunk_fits_def Let_def)
  show ?thesis
  proof (cases "complete ?p")
    case True
    have "awaits (p_frame_id ?p) (p_keyframe ?p) (?r\<lparr>pendings := []\<rparr>)"
      using r0 r p by (simp add: awaits_def part_of_def Let_def)
    from drain_single [OF _ True this] obtain r' where "drain ?r = Some r'"
      "ready r' = ready r @ [assembled ?p]" "pendings r' = []" "last_settled r' = Some fid"
      "\<not> waiting_for_keyframe r'" using p(3) by auto
    moreover have "assembled ?p = sent_as src fid"
      using part_of_complete [OF part wf True] p(3)
      by (simp add: genuine_def assembled_def sent_as_def Let_def)
    ultimately show ?thesis using push True comp r(2) by auto
  next
    case False
    then have "holding src fid (insert ?i S) r0 ?r"
      using wf part missing r p by (auto simp: holding_def)
    with push False comp show ?thesis by auto
  qed
qed

lemma sent_chunk_valid: "sent_chunk src c \<Longrightarrow> vc_chunk c < vc_chunks c"
  by (erule sent_chunkD) (simp add: word_less_nat_alt)

lemma awaits_not_late:
  "awaits fid k r0 \<Longrightarrow> last_settled r = last_settled r0 \<Longrightarrow>
   \<not> (case last_settled r of None \<Rightarrow> False | Some s \<Rightarrow> \<not> is_newer fid s)"
  using is_newer_succ by (auto simp: awaits_def split: option.splits)

text \<open>What one chunk of the awaited frame does, whether it is the first or not.\<close>

lemma push_next:
  assumes r0: "awaits fid (sf_keyframe (src fid)) r0"
    and c: "sent_chunk src c" "vc_frame_id c = fid" "unat (vc_chunk c) \<notin> S"
    and r: "(r = r0 \<and> S = {}) \<or> holding src fid S r0 r"
    and n: "n = unat (vc_chunks c)"
  shows "\<exists>r'. push c now_us r = Some r' \<and>
    (if {..<n} \<subseteq> S \<union> {unat (vc_chunk c)}
     then ready r' = ready r0 @ [sent_as src fid] \<and> pendings r' = [] \<and>
          last_settled r' = Some fid \<and> \<not> waiting_for_keyframe r'
     else holding src fid (insert (unat (vc_chunk c)) S) r0 r')"
proof -
  note valid = sent_chunk_valid [OF c(1)]
  have settled: "last_settled r = last_settled r0" using r by (auto simp: holding_def)
  note late = awaits_not_late [OF r0 settled]
  from r show ?thesis
  proof
    assume first: "r = r0 \<and> S = {}"
    let ?r = "r0\<lparr>gap_nacks := filter (\<lambda>(id, _). id \<noteq> vc_frame_id c) (gap_nacks r0),
                 pendings := [new_pending c now_us]\<rparr>"
    have empty: "pendings r0 = []" using r0 by (simp add: awaits_def)
    have "push c now_us r = push_at c now_us 0 ?r"
      using first valid late c(2) empty by (auto simp: push_def MAX_PENDING_def Let_def)
    moreover have "length (p_parts (new_pending c now_us)) = n" using n by (simp add: new_pending_def)
    moreover have "p_frame_id (new_pending c now_us) = fid"
      "\<forall>i<length (p_parts (new_pending c now_us)). p_parts (new_pending c now_us) ! i = None \<longleftrightarrow> i \<notin> S"
      using first c(2) by (simp_all add: new_pending_def)
    ultimately show ?thesis
      using store_next [OF new_pending_wf [OF valid, of now_us] part_of_new [OF c(1), of now_us] _ c(1,2) _ c(3) _ _ _ _ r0,
          where r = ?r and now_us = now_us] by (simp split del: if_split)
  next
    assume "holding src fid S r0 r"
    then obtain p where p: "pendings r = [p]" "p_frame_id p = fid" "wf_pending p" "part_of src p"
      "\<forall>i<length (p_parts p). p_parts p ! i = None \<longleftrightarrow> i \<notin> S"
      and same: "ready r = ready r0" "waiting_for_keyframe r = waiting_for_keyframe r0"
      by (auto simp: holding_def)
    have "push c now_us r = push_at c now_us 0 r"
      using p(1,2) valid late c(2) by (auto simp: push_def split: option.splits)
    moreover have "length (p_parts p) = n"
      using n p c by (auto elim!: sent_chunkD simp: part_of_def Let_def)
    ultimately show ?thesis
      using store_next [OF p(3,4,2) c(1,2) p(5) c(3) p(1) same(1) settled same(2) r0]
      by (simp split del: if_split)
  qed
qed

lemma push_rest:
  assumes r0: "awaits fid (sf_keyframe (src fid)) r0"
    and xs: "\<forall>x\<in>set xs. sent_chunk src (fst x) \<and> vc_frame_id (fst x) = fid" "xs \<noteq> []"
    and n: "\<forall>x\<in>set xs. unat (vc_chunks (fst x)) = n"
    and idx: "distinct (map (\<lambda>x. unat (vc_chunk (fst x))) xs)"
      "S \<inter> (\<lambda>x. unat (vc_chunk (fst x))) ` set xs = {}"
      "S \<union> (\<lambda>x. unat (vc_chunk (fst x))) ` set xs = {..<n}"
    and r: "(r = r0 \<and> S = {}) \<or> holding src fid S r0 r"
  shows "\<exists>r'. push_all xs r = Some r' \<and> ready r' = ready r0 @ [sent_as src fid] \<and>
    pendings r' = [] \<and> last_settled r' = Some fid \<and> \<not> waiting_for_keyframe r'"
  using xs n idx r
proof (induction xs arbitrary: S r)
  case Nil
  then show ?case by simp
next
  case (Cons x xs)
  let ?i = "unat (vc_chunk (fst x))"
  have x: "sent_chunk src (fst x)" "vc_frame_id (fst x) = fid" "?i \<notin> S" "n = unat (vc_chunks (fst x))"
    using Cons.prems by auto
  from push_next [OF r0 x(1-3) Cons.prems(7) x(4)] obtain r1 where
    r1: "push (fst x) (snd x) r = Some r1" "if {..<n} \<subseteq> S \<union> {?i}
     then ready r1 = ready r0 @ [sent_as src fid] \<and> pendings r1 = [] \<and>
          last_settled r1 = Some fid \<and> \<not> waiting_for_keyframe r1
     else holding src fid (insert ?i S) r0 r1" by blast
  show ?case
  proof (cases "xs = []")
    case True
    then have "{..<n} \<subseteq> S \<union> {?i}" using Cons.prems(6) by auto
    with True r1 show ?thesis by auto
  next
    case False
    then obtain y where y: "y \<in> set xs" by (cases xs) auto
    then have "unat (vc_chunk (fst y)) \<in> {..<n} - (S \<union> {?i})"
    proof -
      have "unat (vc_chunk (fst y)) \<in> {..<n}" using Cons.prems(6) y by (simp, blast)
      moreover have "unat (vc_chunk (fst y)) \<notin> S" using Cons.prems(5) y by (simp, blast)
      moreover have "unat (vc_chunk (fst y)) \<noteq> ?i"
        using Cons.prems(4) y by (simp, metis image_eqI)
      ultimately show ?thesis by simp
    qed
    then have "holding src fid (insert ?i S) r0 r1" using r1(2) by (auto split: if_splits)
    then have "\<exists>r'. push_all xs r1 = Some r' \<and> ready r' = ready r0 @ [sent_as src fid] \<and>
      pendings r' = [] \<and> last_settled r' = Some fid \<and> \<not> waiting_for_keyframe r'"
      using Cons.prems False by (intro Cons.IH [of "insert ?i S"]) auto
    with r1(1) show ?thesis by simp
  qed
qed

text \<open>The chunks of a frame, in the order the network delivered them.\<close>

definition arrives :: "(u32 \<Rightarrow> sent_frame) \<Rightarrow> u32 \<Rightarrow> (video_chunk \<times> u64) list \<Rightarrow> bool" where
  "arrives src fid xs \<longleftrightarrow>
     (\<exists>cs. packetize fid (sf_keyframe (src fid)) (sf_capture_ts_us (src fid)) (sf_data (src fid))
             (sf_datagram (src fid)) = (Inr cs :: unit error + video_chunk list) \<and>
           mset (map fst xs) = mset cs)"

lemma chunk_of_index: "i < 65536 \<Longrightarrow> unat (vc_chunk (chunk_of fid k ts data n i)) = i"
  by (simp add: chunk_of_def unat_chunk_count)

lemma arrives_delivered:
  assumes r0: "awaits fid (sf_keyframe (src fid)) r0" and xs: "arrives src fid xs"
  shows "\<exists>r'. push_all xs r0 = Some r' \<and> ready r' = ready r0 @ [sent_as src fid] \<and>
    pendings r' = [] \<and> last_settled r' = Some fid \<and> \<not> waiting_for_keyframe r'"
proof -
  let ?f = "src fid"
  let ?n = "payload_of ?f"
  let ?k = "chunk_count ?n (length (sf_data ?f))"
  let ?c = "chunk_of fid (sf_keyframe ?f) (sf_capture_ts_us ?f) (sf_data ?f) ?n"
  from xs have k: "?k < 65536" and m: "mset (map fst xs) = mset (map ?c [0..<?k])"
    and p: "packetize fid (sf_keyframe ?f) (sf_capture_ts_us ?f) (sf_data ?f) (sf_datagram ?f) =
      (Inr (map ?c [0..<?k]) :: unit error + video_chunk list)"
    by (auto simp: arrives_def packetize_Inr_iff payload_of_def)
  have set: "set (map fst xs) = set (map ?c [0..<?k])" using m by (metis set_mset_mset)
  then have all: "\<forall>x\<in>set xs. fst x \<in> ?c ` {..<?k}" by (auto simp: atLeast0LessThan)
  have sent: "\<forall>x\<in>set xs. sent_chunk src (fst x) \<and> vc_frame_id (fst x) = fid"
  proof
    fix x assume "x \<in> set xs"
    with all have "fst x \<in> set (map ?c [0..<?k])" by (simp add: atLeast0LessThan)
    moreover from this have "vc_frame_id (fst x) = fid" by (auto simp: chunk_of_def)
    ultimately show "sent_chunk src (fst x) \<and> vc_frame_id (fst x) = fid"
      using p unfolding sent_chunk_def Let_def by metis
  qed
  have idx: "map (\<lambda>x. unat (vc_chunk (fst x))) xs = map (\<lambda>c. unat (vc_chunk c)) (map fst xs)"
    by simp
  have "mset (map (\<lambda>c. unat (vc_chunk c)) (map fst xs)) = mset (map (\<lambda>c. unat (vc_chunk c)) (map ?c [0..<?k]))"
    using m by (metis mset_map)
  also have "map (\<lambda>c. unat (vc_chunk c)) (map ?c [0..<?k]) = [0..<?k]"
    unfolding map_map comp_def using k by (intro map_idI) (simp add: chunk_of_index)
  finally have mi: "mset (map (\<lambda>x. unat (vc_chunk (fst x))) xs) = mset [0..<?k]" unfolding idx .
  have d: "distinct (map (\<lambda>x. unat (vc_chunk (fst x))) xs)"
    using mi by (metis distinct_upt mset_eq_imp_distinct_iff)
  have s: "(\<lambda>x. unat (vc_chunk (fst x))) ` set xs = {..<?k}"
    using mset_eq_setD [OF mi] by (simp add: atLeast0LessThan)
  have count: "\<forall>x\<in>set xs. unat (vc_chunks (fst x)) = ?k"
    using all k by (auto simp: chunk_of_def unat_chunk_count)
  have ne: "xs \<noteq> []" using s chunk_count_pos(1) by fastforce
  show ?thesis using push_rest [OF r0 sent ne count d _ _, of "{}" r0] s by simp
qed

lemma stream_delivered:
  assumes "\<forall>i<length xss. arrives src (fid + word_of_nat i) (xss ! i)"
    and "awaits fid (sf_keyframe (src fid)) r0"
  shows "\<exists>r'. push_all (concat xss) r0 = Some r' \<and>
    ready r' = ready r0 @ map (\<lambda>i. sent_as src (fid + word_of_nat i)) [0..<length xss]"
  using assms
proof (induction xss arbitrary: fid r0)
  case Nil
  then show ?case by simp
next
  case (Cons xs xss)
  have a0: "arrives src fid xs" using Cons.prems(1) by force
  from arrives_delivered [OF Cons.prems(2) a0]
  obtain r1 where r1: "push_all xs r0 = Some r1" "ready r1 = ready r0 @ [sent_as src fid]"
    "awaits (fid + 1) (sf_keyframe (src (fid + 1))) r1"
    by (auto simp: awaits_def)
  have "\<forall>i<length xss. arrives src ((fid + 1) + word_of_nat i) (xss ! i)"
    using Cons.prems(1) by (force simp: algebra_simps)
  from Cons.IH [OF this r1(3)] obtain r2 where
    r2: "push_all (concat xss) r1 = Some r2"
      "ready r2 = ready r1 @ map (\<lambda>i. sent_as src ((fid + 1) + word_of_nat i)) [0..<length xss]"
    by blast
  have "map (\<lambda>i. sent_as src (fid + word_of_nat i)) [0..<length (xs # xss)] =
    sent_as src fid # map (\<lambda>i. sent_as src ((fid + 1) + word_of_nat i)) [0..<length xss]"
    by (simp add: upt_conv_Cons map_Suc_upt [symmetric] comp_def algebra_simps del: upt_Suc)
  with r1 r2 show ?case by (simp add: push_all_append)
qed

end
