(* ===== verification/Video_Liveness.thy ===== *)
theory Video_Liveness
  imports Video_Packets
begin

text \<open>
  When the reassembler's calls return. The two loops end from every state whose pending
  frames are all newer than the last settled one (\<open>in_window\<close>), and every call keeps the
  state so while fewer than \<open>MAX_PENDING\<close> frames are in flight. Past that limit \<open>push\<close>
  can put a frame behind the settled one into the pending list; from such a state
  \<open>drain\<close> and \<open>expire\<close> can repeat one turn for ever. Both hangs are exhibited in
  \<open>Video_Hang\<close>.
\<close>

subsection \<open>Frames ahead of the last settled one\<close>

definition base_of :: "u32 \<Rightarrow> reassembler \<Rightarrow> u32" where
  "base_of b r = (case last_settled r of None \<Rightarrow> b | Some s \<Rightarrow> s)"

definition in_window :: "u32 \<Rightarrow> reassembler \<Rightarrow> bool" where
  "in_window b r \<longleftrightarrow> (\<forall>p\<in>set (pendings r). is_newer (p_frame_id p) (base_of b r))"

lemma in_window_newer_than_expected:
  assumes wf: "wf_reassembler r" and win: "in_window b r" and e: "expected r = Some e"
    and q: "q \<in> set (pendings r)" "p_frame_id q \<noteq> e"
  shows "is_newer (p_frame_id q) e"
proof (cases "last_settled r")
  case (Some s)
  then show ?thesis using e q win frame_order.window_step [of "p_frame_id q" s]
    by (auto simp: expected_def in_window_def base_of_def)
next
  case None
  then have red: "reduce older_of (map p_frame_id (pendings r)) = Some e"
    and win': "\<forall>x\<in>set (map p_frame_id (pendings r)). is_newer x b"
    using e win by (auto simp: expected_def in_window_def base_of_def)
  have "e \<in> set (map p_frame_id (pendings r))" "\<not> is_newer e (p_frame_id q)"
    using reduce_older_least [OF red win'] q by auto
  then show ?thesis
    using frame_order.window_total [of "p_frame_id q" b e] win' q by auto
qed

lemma expected_None_iff: "expected r = None \<longleftrightarrow> last_settled r = None \<and> pendings r = []"
  by (simp add: expected_def split: option.splits)

subsection \<open>Draining ends\<close>

definition next_complete :: "reassembler \<Rightarrow> bool" where
  "next_complete r \<longleftrightarrow>
     (\<exists>p\<in>set (pendings r). expected r = Some (p_frame_id p) \<and> complete p)"

lemma next_complete_step: "next_complete r \<Longrightarrow> drain_step r \<noteq> None"
  by (auto simp: next_complete_def drain_step_def position_None_iff split: option.splits)

lemma deliver_in_window:
  assumes wf: "wf_reassembler r" and win: "in_window b r" and e: "expected r = Some e"
    and i: "i < length (pendings r)" "p_frame_id (pendings r ! i) = e"
  shows "in_window b (deliver (pendings r ! i) (r\<lparr>pendings := swap_remove i (pendings r)\<rparr>))"
proof -
  let ?r = "deliver (pendings r ! i) (r\<lparr>pendings := swap_remove i (pendings r)\<rparr>)"
  have settled: "base_of b ?r = e" using last_settled_deliver [OF e i(2)] by (simp add: base_of_def)
  have "is_newer (p_frame_id q) e" if q: "q \<in> set (swap_remove i (pendings r))" for q
  proof -
    have "distinct (map p_frame_id (pendings r))" using wf by (simp add: wf_reassembler_def)
    moreover have "mset (map p_frame_id (pendings r)) =
        add_mset e (mset (map p_frame_id (swap_remove i (pendings r))))"
      using swap_remove_split [OF i(1)] i(2) by (metis image_mset_add_mset mset_map)
    ultimately have "e \<notin> set (map p_frame_id (swap_remove i (pendings r)))"
      by (metis distinct.simps(2) mset.simps(2) mset_eq_imp_distinct_iff)
    then show ?thesis
      using in_window_newer_than_expected [OF wf win e] q set_swap_remove_subset [OF i(1)] by auto
  qed
  then show ?thesis using settled by (simp add: in_window_def)
qed

lemma drain_step_progress:
  assumes wf: "wf_reassembler r" and win: "in_window b r" and step: "drain_step r = Some r'"
  shows "in_window b r' \<and>
    (length (pendings r') < length (pendings r) \<or>
     (\<not> next_complete r \<and> next_complete r' \<and> length (pendings r') \<le> length (pendings r)))"
  using step
proof (cases rule: drain_step_cases)
  case (next_in_line e i)
  then show ?thesis using deliver_in_window [OF wf win] by auto
next
  case (skip e k n)
  obtain q where q: "q \<in> set (pendings r)" "p_keyframe q" "complete q" "p_frame_id q = k"
    using keyframe_candidate [OF skip(3)] by blast
  have settled: "last_settled r' = Some (k - 1)"
  proof (cases "last_settled r")
    case None
    then show ?thesis using skip(4) by (simp add: last_settled_settle)
  next
    case (Some s)
    have "is_newer k s" using win q Some by (auto simp: in_window_def base_of_def)
    moreover have "k \<noteq> s + 1" using skip(1,2) q Some by (auto simp: expected_def)
    ultimately have "is_newer (k - 1) s" by (rule is_newer_pred)
    then show ?thesis using skip(4) Some by (simp add: last_settled_settle)
  qed
  have "q \<in> set (pendings r')" using q skip(4) is_newer_succ [of "k - 1"] by auto
  then have "next_complete r'" using settled q by (auto simp: next_complete_def expected_def)
  moreover have "\<not> next_complete r" using skip(1,2) by (auto simp: next_complete_def)
  moreover have "in_window b r'" using settled skip(4) by (auto simp: in_window_def base_of_def)
  moreover have "length (pendings r') \<le> length (pendings r)" using skip(4) by simp
  ultimately show ?thesis by blast
qed

definition drain_measure :: "reassembler \<Rightarrow> nat" where
  "drain_measure r = 2 * length (pendings r) + (if next_complete r then 0 else 1)"

lemma drain_returns:
  assumes "wf_reassembler r" and "in_window b r"
  shows "\<exists>r'. drain r = Some r'"
  using assms
proof (induction "drain_measure r" arbitrary: r rule: less_induct)
  case less
  show ?case
  proof (cases "drain_step r")
    case None
    then show ?thesis by (subst drain.simps) simp
  next
    case (Some r1)
    have "drain_measure r1 < drain_measure r"
      using drain_step_progress [OF less.prems Some] by (auto simp: drain_measure_def)
    moreover have "wf_reassembler r1" "in_window b r1"
      using drain_step_wf drain_step_progress less.prems Some by blast+
    ultimately have "\<exists>r'. drain r1 = Some r'" by (rule less.hyps)
    with Some show ?thesis by (subst drain.simps) simp
  qed
qed

lemma drain_result:
  assumes "wf_reassembler r" and "in_window b r" and "drain r = Some r'"
  shows "in_window b r' \<and> (r' = r \<or> length (pendings r') < length (pendings r))"
proof -
  let ?P = "\<lambda>s. wf_reassembler s \<and> in_window b s \<and>
    (s = r \<or> length (pendings s) < length (pendings r) \<or>
     (next_complete s \<and> length (pendings s) \<le> length (pendings r)))"
  have "?P r' \<and> drain_step r' = None"
  proof (rule drain_rule [OF assms(3)])
    show "?P r" using assms by simp
    fix s s' assume s: "?P s" and step: "drain_step s = Some s'"
    then show "?P s'" using drain_step_progress [of s b s'] drain_step_wf [of s s'] by auto
  qed
  then show ?thesis using next_complete_step by blast
qed

subsection \<open>Giving up ends\<close>

lemma quietly_in_window:
  assumes wf: "wf_reassembler r" and win: "in_window b r"
  shows "in_window b (lost (give_up_expected_quietly r))"
proof (cases "expected r")
  case None
  then have "pendings r = []" by (simp add: expected_None_iff)
  with None show ?thesis by (simp add: in_window_def)
next
  case (Some e)
  have "last_settled (lost (give_up_expected_quietly r)) = Some e"
    using Some last_settled_expected [OF Some]
    by (simp add: give_up_expected_quietly_def last_settled_settle)
  then show ?thesis
    using Some in_window_newer_than_expected [OF wf win Some]
    by (auto simp: in_window_def base_of_def)
qed

lemma give_up_expected_returns:
  assumes "wf_reassembler r" and "in_window b r"
  shows "\<exists>r'. give_up_expected r = Some r' \<and> wf_reassembler r' \<and> in_window b r'"
proof -
  let ?r = "lost (give_up_expected_quietly r)"
  have wf: "wf_reassembler ?r" and win: "in_window b ?r"
    using wf.inv_give_up quietly_in_window assms by blast+
  then obtain r' where r': "drain ?r = Some r'" using drain_returns by blast
  then show ?thesis using wf win wf.inv_drain drain_result give_up_expected_def by metis
qed

lemma oldest_pending_window:
  assumes "oldest_pending r = Some (g, first_us)" and "\<forall>p\<in>set (pendings r). is_newer (p_frame_id p) b"
  shows "g \<in> p_frame_id ` set (pendings r)" and "\<forall>p\<in>set (pendings r). \<not> is_newer g (p_frame_id p)"
proof -
  have fold: "fst (foldl (\<lambda>a c. if is_newer (fst a) (fst c) then c else a) x xs) =
      foldl older_of (fst x) (map fst xs)" for x :: "u32 \<times> u64" and xs
    by (induction xs arbitrary: x) (auto simp: older_of_def)
  have "reduce older_of (map p_frame_id (pendings r)) = Some g"
    using assms(1) fold by (cases "pendings r") (auto simp: oldest_pending_def comp_def dest!: arg_cong [of _ _ fst])
  then show "g \<in> p_frame_id ` set (pendings r)" "\<forall>p\<in>set (pendings r). \<not> is_newer g (p_frame_id p)"
    using reduce_older_least [of "map p_frame_id (pendings r)" g b] assms(2) by auto
qed

lemma gap_in_window:
  assumes win: "in_window b r" and e: "expected r = Some e" "\<forall>p\<in>set (pendings r). p_frame_id p \<noteq> e"
    and g: "oldest_pending r = Some (g, first_us)"
  shows "in_window b (lost (settle (g - 1) (count_incomplete 1 r)))"
    and "expected (lost (settle (g - 1) (count_incomplete 1 r))) = Some g"
    and "g \<in> p_frame_id ` set (pendings r)"
proof -
  obtain s where s: "last_settled r = Some s"
    using e reduce_in_set [OF _ older_of_cases] by (fastforce simp: expected_def split: option.splits)
  have newer: "\<forall>p\<in>set (pendings r). is_newer (p_frame_id p) s"
    using win s by (simp add: in_window_def base_of_def)
  note old = oldest_pending_window [OF g newer]
  show "g \<in> p_frame_id ` set (pendings r)" by (rule old)
  have gs: "is_newer g s" "g \<noteq> s + 1" using old newer e s by (auto simp: expected_def)
  then have pred: "is_newer (g - 1) s" by (rule is_newer_pred)
  then have settled: "last_settled (lost (settle (g - 1) (count_incomplete 1 r))) = Some (g - 1)"
    using s by (simp add: last_settled_settle)
  then show "expected (lost (settle (g - 1) (count_incomplete 1 r))) = Some g"
    by (simp add: expected_def)
  have "is_newer (p_frame_id p) (g - 1)" if p: "p \<in> set (pendings r)" for p
  proof -
    have "unat (g - s) \<le> unat (p_frame_id p - s)"
      using old(2) p newer gs is_newer_window [of g s "p_frame_id p"] by (auto simp: not_less)
    moreover have "g \<noteq> s" using gs(1) by (auto simp: is_newer_def)
    then have "unat (g - 1 - s) < unat (g - s)"
      using unat_pred_diff [of g s] unat_gt_0 [of "g - s"] by simp
    ultimately show ?thesis using is_newer_window [of "p_frame_id p" s "g - 1"] pred newer p by simp
  qed
  then show "in_window b (lost (settle (g - 1) (count_incomplete 1 r)))"
    using settled by (simp add: in_window_def base_of_def)
qed

definition next_pending :: "reassembler \<Rightarrow> bool" where
  "next_pending r \<longleftrightarrow> (\<exists>p\<in>set (pendings r). expected r = Some (p_frame_id p))"

definition expire_measure :: "reassembler \<Rightarrow> nat" where
  "expire_measure r = 2 * length (pendings r) + (if next_pending r then 0 else 1)"

lemma give_up_expected_measure:
  assumes "wf_reassembler r" "in_window b r" "next_pending r" "give_up_expected r = Some r'"
  shows "expire_measure r' < expire_measure r"
proof -
  let ?r = "lost (give_up_expected_quietly r)"
  have "length (pendings ?r) < length (pendings r)"
    using assms(3) by (auto simp: next_pending_def intro!: length_filter_less)
  moreover have "length (pendings r') \<le> length (pendings ?r)"
    using drain_result [of ?r b r'] wf.inv_give_up [OF assms(1)] quietly_in_window [OF assms(1,2)] assms(4)
    by (auto simp: give_up_expected_def)
  ultimately show ?thesis by (auto simp: expire_measure_def)
qed

lemma give_up_gap_measure:
  assumes "wf_reassembler r" "in_window b r" "expected r = Some e"
    "\<forall>p\<in>set (pendings r). p_frame_id p \<noteq> e" "oldest_pending r = Some (g, first_us)"
    "give_up_gap g r = Some r'"
  shows "expire_measure r' < expire_measure r"
proof -
  let ?r = "lost (settle (g - 1) (count_incomplete 1 r))"
  note gap = gap_in_window [OF assms(2-5)]
  have "r' = ?r \<or> length (pendings r') < length (pendings ?r)"
    using drain_result [OF _ gap(1)] wf.inv_give_up_gap [OF assms(1,5)] assms(6)
    by (auto simp: give_up_gap_def)
  moreover have "next_pending ?r" using gap by (auto simp: next_pending_def)
  moreover have "\<not> next_pending r" using assms(3,4) by (auto simp: next_pending_def)
  ultimately show ?thesis by (auto simp: expire_measure_def)
qed

lemma give_up_gap_returns:
  assumes "wf_reassembler r" "in_window b r" "expected r = Some e"
    "\<forall>p\<in>set (pendings r). p_frame_id p \<noteq> e" "oldest_pending r = Some (g, first_us)"
  shows "\<exists>r'. give_up_gap g r = Some r' \<and> wf_reassembler r' \<and> in_window b r'"
  unfolding give_up_gap_def
  using drain_returns drain_result wf.inv_drain wf.inv_give_up_gap [OF assms(1,5)]
    gap_in_window(1) [OF assms(2-5)] by metis

lemma expire_decide_expected:
  "expire_decide now_us t e r = Some None \<Longrightarrow> \<exists>p\<in>set (pendings r). p_frame_id p = e"
  by (auto simp: expire_decide_def find_Some_iff split: option.splits if_splits)

lemma expire_returns:
  assumes "wf_reassembler r" and "in_window b r"
  shows "\<exists>r'. expire now_us t r = Some r' \<and> wf_reassembler r' \<and> in_window b r'"
  using assms
proof (induction "expire_measure r" arbitrary: r rule: less_induct)
  case less
  show ?case
  proof (cases "expected r")
    case None
    then show ?thesis using less.prems by (subst expire.simps) simp
  next
    case (Some e)
    note e = this
    show ?thesis
    proof (cases "expire_decide now_us t e r")
      case None
      then show ?thesis using less.prems e by (subst expire.simps) simp
    next
      case (Some d)
      have "\<exists>r1. expire now_us t r = expire now_us t r1 \<and> expire_measure r1 < expire_measure r \<and>
          wf_reassembler r1 \<and> in_window b r1"
      proof (cases d)
        case None
        obtain r1 where r1: "give_up_expected r = Some r1" "wf_reassembler r1" "in_window b r1"
          using give_up_expected_returns less.prems by blast
        have "next_pending r"
          using expire_decide_expected Some None e by (fastforce simp: next_pending_def)
        then have "expire_measure r1 < expire_measure r"
          using give_up_expected_measure less.prems r1 by blast
        moreover have "expire now_us t r = expire now_us t r1"
          using e Some None r1(1) by (subst expire.simps) simp
        ultimately show ?thesis using r1 by blast
      next
        case (Some g)
        with \<open>expire_decide now_us t e r = Some d\<close> obtain first_us where
          g: "oldest_pending r = Some (g, first_us)" "\<forall>p\<in>set (pendings r). p_frame_id p \<noteq> e"
          using expire_decide_gap by blast
        obtain r1 where r1: "give_up_gap g r = Some r1" "wf_reassembler r1" "in_window b r1"
          using give_up_gap_returns [OF less.prems e g(2,1)] by blast
        moreover have "expire_measure r1 < expire_measure r"
          using give_up_gap_measure [OF less.prems e g(2,1) r1(1)] .
        moreover have "expire now_us t r = expire now_us t r1"
          using e Some \<open>expire_decide now_us t e r = Some d\<close> r1(1) by (subst expire.simps) simp
        ultimately show ?thesis by blast
      qed
      then show ?thesis using less.hyps by metis
    qed
  qed
qed

subsection \<open>Taking a chunk in ends, while there is room\<close>

lemma push_at_returns:
  assumes wf: "wf_reassembler r" and win: "in_window b r" and i: "i < length (pendings r)"
    and c: "p_frame_id (pendings r ! i) = vc_frame_id c" "vc_chunk c < vc_chunks c"
  shows "\<exists>r'. push_at c now_us i r = Some r' \<and> in_window b r'"
proof (cases "chunk_fits c (pendings r ! i)")
  case True
  let ?p = "store_part c now_us (pendings r ! i)"
  let ?r = "r\<lparr>pendings := (pendings r)[i := ?p]\<rparr>"
  have "map p_frame_id (pendings ?r) = map p_frame_id (pendings r)"
    using i by (simp add: map_update_same)
  then have "p_frame_id ` set (pendings ?r) = p_frame_id ` set (pendings r)" by (metis set_map)
  then have win': "in_window b ?r"
    using win unfolding in_window_def base_of_def by (metis (no_types, lifting) image_iff reassembler.select_convs(3) reassembler.surjective reassembler.update_convs(1))
  have wf': "wf_reassembler ?r" using wf.inv_store wf i True by simp
  have "push_at c now_us i r = (if complete ?p then drain ?r else Some ?r)"
    using True by (simp add: push_at_def chunk_fits_def Let_def)
  then show ?thesis using drain_returns [OF wf' win'] drain_result [OF wf' win'] win' by auto
next
  case False
  then have "push_at c now_us i r = Some (count_invalid r) \<or> push_at c now_us i r = Some (count_duplicate r)"
    using c by (auto simp: push_at_def chunk_fits_def Let_def)
  then show ?thesis using win
    by (auto simp: count_invalid_def count_duplicate_def in_window_def base_of_def)
qed

lemma push_returns:
  assumes wf: "wf_reassembler r" and win: "in_window b r"
    and room: "length (pendings r) < MAX_PENDING \<or> vc_frame_id c \<in> p_frame_id ` set (pendings r)"
    and start: "last_settled r = None \<Longrightarrow> is_newer (vc_frame_id c) b"
  shows "\<exists>r'. push c now_us r = Some r' \<and> wf_reassembler r' \<and> in_window b r'"
proof -
  have "\<exists>r'. push c now_us r = Some r' \<and> in_window b r'"
  proof (cases "vc_chunks c = 0 \<or> vc_chunk c \<ge> vc_chunks c \<or>
      (case last_settled r of None \<Rightarrow> False | Some s \<Rightarrow> \<not> is_newer (vc_frame_id c) s)")
    case True
    then have "push c now_us r = Some (count_invalid r) \<or> push c now_us r = Some (count_late r)"
      by (auto simp: push_def)
    then show ?thesis using win
      by (auto simp: count_invalid_def count_late_def in_window_def base_of_def)
  next
    case False
    then have valid: "vc_chunk c < vc_chunks c" by auto
    show ?thesis
    proof (cases "position (\<lambda>p. p_frame_id p = vc_frame_id c) (pendings r)")
      case (Some i)
      then have "push c now_us r = push_at c now_us i r" using False by (simp add: push_def)
      then show ?thesis
        using push_at_returns [OF wf win _ _ valid] position_Some_D [OF Some] by simp
    next
      case None
      let ?r = "r\<lparr>gap_nacks := filter (\<lambda>(id, _). id \<noteq> vc_frame_id c) (gap_nacks r),
                  pendings := pendings r @ [new_pending c now_us]\<rparr>"
      have new: "vc_frame_id c \<notin> p_frame_id ` set (pendings r)"
        using None by (auto simp: position_None_iff)
      have "push c now_us r = push_at c now_us (length (pendings r)) ?r"
        using False None room new by (auto simp: push_def Let_def split: option.splits)
      moreover have "wf_reassembler ?r"
        using wf.inv_begin [OF wf.inv_forget [OF wf], where c = c and now_us = now_us] valid new by simp
      moreover have "in_window b ?r"
        using win start False by (auto simp: in_window_def base_of_def new_pending_def split: option.splits)
      moreover have "p_frame_id (pendings ?r ! length (pendings r)) = vc_frame_id c"
        by (simp add: new_pending_def)
      ultimately show ?thesis using push_at_returns [of ?r b "length (pendings r)" c now_us] valid by simp
    qed
  qed
  then show ?thesis using wf.inv_push [OF wf] by blast
qed

end
