(* ===== verification/Video_Hang.thy ===== *)
theory Video_Hang
  imports Video_Liveness
begin

text \<open>
  What happens past \<open>MAX_PENDING\<close> frames in flight. Making room settles the frame
  that is expected, and the chunk that asked for the room is then taken in without
  looking again whether its own frame is the settled one. All streams here are chunks
  that \<open>packetize\<close> made, none of them altered.
\<close>

subsection \<open>Loops that repeat one turn\<close>

lemma drain_idle:
  assumes "expected r = Some e"
    and "\<forall>p\<in>set (pendings r). complete p \<longrightarrow> p_frame_id p \<noteq> e \<and> \<not> p_keyframe p"
  shows "drain r = Some r"
proof -
  have "filter (\<lambda>p. p_keyframe p \<and> complete p) (pendings r) = []"
    using assms(2) by (auto simp: filter_empty_conv)
  moreover have "position (\<lambda>p. p_frame_id p = e \<and> complete p) (pendings r) = None"
    using assms(2) by (auto simp: position_None_iff)
  ultimately have "drain_step r = None" using assms(1) by (simp add: drain_step_def)
  then show ?thesis by (subst drain.simps) simp
qed

lemma drain_stale_keyframe:
  assumes settled: "last_settled r = Some s"
    and stale: "filter (\<lambda>p. p_keyframe p \<and> complete p) (pendings r) = [q]" "\<not> is_newer (p_frame_id q - 1) s"
    and kept: "\<forall>p\<in>set (pendings r). is_newer (p_frame_id p) (p_frame_id q - 1)"
    and line: "\<forall>p\<in>set (pendings r). complete p \<longrightarrow> p_frame_id p \<noteq> s + 1"
  shows "drain r = None"
proof (rule ccontr)
  let ?P = "\<lambda>u. last_settled u = Some s \<and> pendings u = pendings r"
  assume "drain r \<noteq> None"
  then obtain r' where "drain r = Some r'" by blast
  have turn: "drain_step u = Some (settle (p_frame_id q - 1) (count_incomplete 1 (u\<lparr>pendings := pendings r\<rparr>)))"
    if u: "?P u" for u
  proof -
    have "filter (\<lambda>p. is_newer (p_frame_id p) (p_frame_id q - 1)) (pendings r) = pendings r"
      using kept by (simp add: filter_id_conv)
    moreover have "position (\<lambda>p. p_frame_id p = s + 1 \<and> complete p) (pendings r) = None"
      using line by (auto simp: position_None_iff)
    ultimately show ?thesis using u stale(1) by (simp add: drain_step_def expected_def Let_def)
  qed
  have "?P r' \<and> drain_step r' = None"
  proof (rule drain_rule [OF \<open>drain r = Some r'\<close>])
    show "?P r" using settled by simp
    fix u u' assume u: "?P u" and "drain_step u = Some u'"
    then have "u' = settle (p_frame_id q - 1) (count_incomplete 1 (u\<lparr>pendings := pendings r\<rparr>))"
      using turn by simp
    then show "?P u'" using u stale(2) by (simp add: last_settled_settle)
  qed
  then show False using turn [of r'] by simp
qed

lemma expire_stale_frame:
  assumes settled: "last_settled r = Some s" and only: "pendings r = [p]"
    and stale: "\<not> p_keyframe p" "p_frame_id p \<noteq> s + 1" "\<not> is_newer (p_frame_id p - 1) s"
    and old: "saturating_sub now_us (p_first_us p) \<ge> give_up_us t"
  shows "expire now_us t r = None"
proof (rule ccontr)
  let ?P = "\<lambda>u. last_settled u = Some s \<and> pendings u = [p]"
  assume "expire now_us t r \<noteq> None"
  then obtain r' where r': "expire now_us t r = Some r'" by blast
  have decide: "expire_decide now_us t (s + 1) u = Some (Some (p_frame_id p))" if "?P u" for u
    using that stale(2) old by (simp add: expire_decide_def oldest_pending_def)
  have turn: "give_up_gap (p_frame_id p) u = Some u' \<Longrightarrow> ?P u'" if u: "?P u" for u u'
  proof -
    let ?u = "lost (settle (p_frame_id p - 1) (count_incomplete 1 u))"
    have "drain ?u = Some ?u"
      using u stale by (intro drain_idle [of _ "s + 1"]) (auto simp: expected_def last_settled_settle)
    then show "give_up_gap (p_frame_id p) u = Some u' \<Longrightarrow> ?P u'"
      using u stale(3) by (auto simp: give_up_gap_def last_settled_settle)
  qed
  have "now_us = now_us \<longrightarrow> t = t \<longrightarrow> ?P r \<longrightarrow> False"
  proof (rule expire.raw_induct [where P = "\<lambda>n t' u _. n = now_us \<longrightarrow> t' = t \<longrightarrow> ?P u \<longrightarrow> False", OF _ r'])
    fix f n t' u u'
    assume IH: "\<And>n t' u u'. f n t' u = Some u' \<Longrightarrow> n = now_us \<longrightarrow> t' = t \<longrightarrow> ?P u \<longrightarrow> False"
      and eq: "(case expected u of None \<Rightarrow> Some u
        | Some e \<Rightarrow> (case expire_decide n t' e u of None \<Rightarrow> Some u
            | Some None \<Rightarrow> Option.bind (give_up_expected u) (f n t')
            | Some (Some g) \<Rightarrow> Option.bind (give_up_gap g u) (f n t'))) = Some u'"
    show "n = now_us \<longrightarrow> t' = t \<longrightarrow> ?P u \<longrightarrow> False"
    proof (intro impI)
      assume nt: "n = now_us" "t' = t" and u: "?P u"
      then have "Option.bind (give_up_gap (p_frame_id p) u) (f now_us t) = Some u'"
        using eq decide [OF u] by (simp add: expected_def)
      then show False using turn [OF u] IH by (auto simp: bind_eq_Some_conv)
    qed
  qed
  then show False using settled only by simp
qed

subsection \<open>A backlog of frames behind a gap\<close>

definition hang_src :: "nat \<Rightarrow> u32 set \<Rightarrow> u32 \<Rightarrow> sent_frame" where
  "hang_src len K fid =
     \<lparr>sf_keyframe = fid \<in> K, sf_capture_ts_us = 0,
      sf_data = replicate (if fid \<in> K then 0 else len) 0, sf_datagram = MIN_DATAGRAM\<rparr>"

definition first_chunk :: "(u32 \<Rightarrow> sent_frame) \<Rightarrow> u32 \<Rightarrow> video_chunk" where
  "first_chunk src fid =
     chunk_of fid (sf_keyframe (src fid)) (sf_capture_ts_us (src fid)) (sf_data (src fid))
       (payload_of (src fid)) 0"

definition held_frame :: "(u32 \<Rightarrow> sent_frame) \<Rightarrow> u32 \<Rightarrow> pending" where
  "held_frame src fid = store_part (first_chunk src fid) 0 (new_pending (first_chunk src fid) 0)"

lemma hang_src_sent: "len \<le> 257 \<Longrightarrow> sent_chunk (hang_src len K) (first_chunk (hang_src len K) fid)"
  using chunk_count_le [of 256 len 2]
  by (auto simp: sent_chunk_def Let_def packetize_Inr_iff first_chunk_def chunk_of_def
      hang_src_def payload_of_def MIN_DATAGRAM_def CHUNK_OVERHEAD_def chunk_count_def div_ceil_def
      intro!: image_eqI [where x = 0])

lemma is_newer_nat:
  assumes "a < 2147483648" and "b < 2147483648"
  shows "is_newer (word_of_nat a) (word_of_nat b) \<longleftrightarrow> b < a"
proof -
  have u: "unat (word_of_nat a :: u32) = a" "unat (word_of_nat b :: u32) = b"
    using assms by (simp_all add: unat_of_nat take_bit_eq_mod)
  then have "unat (word_of_nat a - word_of_nat b :: u32) = (if b \<le> a then a - b else a + 4294967296 - b)"
    using unat_sub_if_size [of "word_of_nat a :: u32" "word_of_nat b"] by (simp add: word_size)
  then show ?thesis unfolding is_newer_iff using assms by auto
qed

lemma push_at_new:
  assumes "vc_chunk c < vc_chunks c"
  shows "push_at c now_us (length (pendings r)) (r\<lparr>pendings := pendings r @ [new_pending c now_us]\<rparr>) =
    (let p = store_part c now_us (new_pending c now_us);
         r' = r\<lparr>pendings := pendings r @ [p]\<rparr> in
     if complete p then drain r' else Some r')"
proof -
  have "chunk_fits c (new_pending c now_us)"
    using assms by (simp add: chunk_fits_def new_pending_def word_less_nat_alt)
  then show ?thesis by (simp add: push_at_def chunk_fits_def Let_def)
qed

lemma push_new:
  assumes "vc_chunk c < vc_chunks c" and "last_settled r = Some s" and "is_newer (vc_frame_id c) s"
    and "vc_frame_id c \<notin> p_frame_id ` set (pendings r)" and "vc_chunks c \<noteq> 0"
  shows "push c now_us r =
    Option.bind (if length (pendings r) \<ge> MAX_PENDING
        then give_up_expected (r\<lparr>gap_nacks := filter (\<lambda>(id, _). id \<noteq> vc_frame_id c) (gap_nacks r)\<rparr>)
        else Some (r\<lparr>gap_nacks := filter (\<lambda>(id, _). id \<noteq> vc_frame_id c) (gap_nacks r)\<rparr>))
      (\<lambda>r2. let p = store_part c now_us (new_pending c now_us);
                r3 = r2\<lparr>pendings := pendings r2 @ [p]\<rparr> in
            if complete p then drain r3 else Some r3)"
proof -
  have "position (\<lambda>p. p_frame_id p = vc_frame_id c) (pendings r) = None"
    unfolding position_None_iff using assms(4) by (metis imageI)
  moreover have "\<not> (vc_chunks c = 0 \<or> vc_chunk c \<ge> vc_chunks c)" using assms(1,5) by auto
  ultimately have "push c now_us r =
    Option.bind (if length (pendings r) \<ge> MAX_PENDING
        then give_up_expected (r\<lparr>gap_nacks := filter (\<lambda>(id, _). id \<noteq> vc_frame_id c) (gap_nacks r)\<rparr>)
        else Some (r\<lparr>gap_nacks := filter (\<lambda>(id, _). id \<noteq> vc_frame_id c) (gap_nacks r)\<rparr>))
      (\<lambda>r2. push_at c now_us (length (pendings r2)) (r2\<lparr>pendings := pendings r2 @ [new_pending c now_us]\<rparr>))"
    using assms(2,3) by (simp add: push_def Let_def)
  then show ?thesis unfolding push_at_new [OF assms(1)] .
qed

text \<open>\<open>n\<close> frames are held, starting \<open>g + 2\<close> after the keyframe: frames
  \<open>1\<close> to \<open>g + 1\<close> are missing, and each frame beyond the limit settles one of them.\<close>

definition backlog :: "(u32 \<Rightarrow> sent_frame) \<Rightarrow> nat \<Rightarrow> nat \<Rightarrow> reassembler \<Rightarrow> bool" where
  "backlog src g n r \<longleftrightarrow>
     pendings r = map (\<lambda>k. held_frame src (word_of_nat (g + 2 + k))) [0..<n] \<and>
     last_settled r = Some (word_of_nat (n - MAX_PENDING))"

lemma held_frame_simps [simp]:
  "p_frame_id (held_frame src fid) = fid" "p_keyframe (held_frame src fid) = sf_keyframe (src fid)"
  "p_first_us (held_frame src fid) = 0"
  by (simp_all add: held_frame_def store_part_def new_pending_def first_chunk_def chunk_of_def)

lemma word_of_nat_small_eq: "a < 2147483648 \<Longrightarrow> b < 2147483648 \<Longrightarrow> (word_of_nat a :: u32) = word_of_nat b \<longleftrightarrow> a = b"
  by (simp add: word_unat_eq_iff unat_of_nat take_bit_eq_mod)

lemma backlog_ids:
  assumes "backlog src g n r" and "g + 2 + n < 2147483648" and "m < 2147483648"
  shows "word_of_nat m \<in> p_frame_id ` set (pendings r) \<longleftrightarrow> g + 2 \<le> m \<and> m < g + 2 + n"
proof
  assume "word_of_nat m \<in> p_frame_id ` set (pendings r)"
  then obtain k where k: "k < n" "(word_of_nat m :: u32) = word_of_nat (g + 2 + k)"
    using assms(1) by (auto simp: backlog_def)
  then have "m = g + 2 + k" using assms(2,3) word_of_nat_small_eq [of m "g + 2 + k"] by simp
  then show "g + 2 \<le> m \<and> m < g + 2 + n" using k(1) by simp
next
  assume m: "g + 2 \<le> m \<and> m < g + 2 + n"
  then have "held_frame src (word_of_nat m) \<in> set (pendings r)"
    using assms(1) by (auto simp: backlog_def intro!: image_eqI [where x = "m - (g + 2)"])
  then show "word_of_nat m \<in> p_frame_id ` set (pendings r)" by force
qed

lemma backlog_push:
  assumes r: "backlog src g n r" and bound: "g + 3 + n < 2147483648" and room: "n < MAX_PENDING + g"
    and src: "\<forall>m. 2 \<le> m \<longrightarrow> m < 2147483648 \<longrightarrow> \<not> sf_keyframe (src (word_of_nat m))"
    and sent: "sent_chunk src (first_chunk src (word_of_nat (g + 2 + n)))"
  shows "\<exists>r'. push (first_chunk src (word_of_nat (g + 2 + n))) 0 r = Some r' \<and> backlog src g (Suc n) r' \<and>
    ready r' = ready r"
proof -
  let ?c = "first_chunk src (word_of_nat (g + 2 + n))"
  let ?s = "n - MAX_PENDING"
  let ?s' = "Suc n - MAX_PENDING"
  let ?gap = "\<lambda>r. r\<lparr>gap_nacks := filter (\<lambda>(id, _). id \<noteq> vc_frame_id ?c) (gap_nacks r)\<rparr>"
  have cid: "vc_frame_id ?c = word_of_nat (g + 2 + n)" by (simp add: first_chunk_def chunk_of_def)
  have valid: "vc_chunk ?c < vc_chunks ?c" by (rule sent_chunk_valid [OF sent])
  then have nonzero: "vc_chunks ?c \<noteq> 0" by auto
  have fresh: "vc_frame_id ?c \<notin> p_frame_id ` set (pendings r)"
    using backlog_ids [OF r, of "g + 2 + n"] bound cid by simp
  have newer: "is_newer (vc_frame_id ?c) (word_of_nat ?s)"
    unfolding cid using is_newer_nat [of "g + 2 + n" ?s] bound by simp
  have keyless: "\<forall>p\<in>set (pendings r). \<not> p_keyframe p"
    using r src bound by (auto simp: backlog_def simp del: of_nat_add of_nat_Suc of_nat_numeral)
  have idle: "drain u = Some u" if "last_settled u = Some (word_of_nat m)" "m \<le> g"
      "set (pendings u) \<subseteq> insert (held_frame src (word_of_nat (g + 2 + n))) (set (pendings r))" for u m
  proof (rule drain_idle [of _ "word_of_nat (m + 1)"])
    show "expected u = Some (word_of_nat (m + 1))" using that by (simp add: expected_def)
    have "word_of_nat (m + 1) \<notin> p_frame_id ` set (pendings r)"
      using backlog_ids [OF r, of "m + 1"] bound that by simp
    then have "\<forall>p\<in>set (pendings r). p_frame_id p \<noteq> word_of_nat (m + 1)" by (metis imageI)
    moreover have "(word_of_nat (g + 2 + n) :: u32) \<noteq> word_of_nat (m + 1)"
      using word_of_nat_small_eq [of "g + 2 + n" "m + 1"] bound that by simp
    moreover have "\<not> sf_keyframe (src (word_of_nat (g + 2 + n)))" 
      using src [rule_format, of "g + 2 + n"] bound by (simp del: of_nat_add)
    ultimately show "\<forall>p\<in>set (pendings u). complete p \<longrightarrow> p_frame_id p \<noteq> word_of_nat (m + 1) \<and> \<not> p_keyframe p"
      using that(3) keyless by (auto simp del: of_nat_add of_nat_Suc)
  qed
  obtain r2 where r2: "(if length (pendings r) \<ge> MAX_PENDING then give_up_expected (?gap r) else Some (?gap r)) = Some r2"
    "pendings r2 = pendings r" "last_settled r2 = Some (word_of_nat ?s')" "ready r2 = ready r"
  proof (cases "length (pendings r) \<ge> MAX_PENDING")
    case True
    then have n: "MAX_PENDING \<le> n" using r by (simp add: backlog_def)
    have e: "expected (?gap r) = Some (word_of_nat ?s')" using r n by (simp add: backlog_def expected_def Suc_diff_le)
    have "word_of_nat ?s' \<notin> p_frame_id ` set (pendings r)"
      using backlog_ids [OF r, of ?s'] bound room by simp
    then have same: "filter (\<lambda>p. p_frame_id p \<noteq> word_of_nat ?s') (pendings r) = pendings r"
      unfolding filter_id_conv by (metis imageI)
    let ?u = "lost (give_up_expected_quietly (?gap r))"
    have u: "pendings ?u = pendings r" "ready ?u = ready r" "last_settled ?u = Some (word_of_nat ?s')"
      using e same r n last_settled_expected [OF e]
      by (simp_all add: give_up_expected_quietly_def last_settled_settle)
    have "?s' \<le> g" using room by simp
    then have "drain ?u = Some ?u" by (rule idle [OF u(3)]) (unfold u(1), blast)
    then show ?thesis using that [of ?u] u True by (simp add: give_up_expected_def)
  next
    case False
    then have "?s' = ?s" using r by (simp add: backlog_def)
    then show ?thesis using that [of "?gap r"] r False by (simp add: backlog_def)
  qed
  let ?r = "r2\<lparr>pendings := pendings r2 @ [held_frame src (word_of_nat (g + 2 + n))]\<rparr>"
  have "?s' \<le> g" using room by simp
  moreover have "last_settled ?r = Some (word_of_nat ?s')" using r2(3) by simp
  ultimately have "drain ?r = Some ?r" by (intro idle [of ?r ?s']) (simp_all add: r2(2))
  then have "push ?c 0 r = Some ?r"
    using push_new [OF valid _ newer fresh nonzero, of 0] r r2(1)
    by (simp add: backlog_def held_frame_def Let_def)
  then show ?thesis using r r2 by (auto simp: backlog_def)
qed

lemma hang_src_start:
  assumes "0 \<in> K"
  shows "\<exists>r. push (first_chunk (hang_src len K) 0) 0 reassembler_new = Some r \<and> backlog (hang_src len K) g 0 r"
proof -
  let ?src = "hang_src len K"
  have "awaits 0 (sf_keyframe (?src 0)) reassembler_new"
    using assms by (simp add: awaits_def reassembler_new_def hang_src_def)
  moreover have "arrives ?src 0 [(first_chunk ?src 0, 0)]"
    using assms by (simp add: arrives_def packetize_Inr_iff first_chunk_def hang_src_def payload_of_def
        chunk_count_def div_ceil_def)
  ultimately show ?thesis
    using arrives_delivered [of 0 ?src reassembler_new] by (fastforce simp: backlog_def bind_eq_Some_conv)
qed

lemma backlog_reach:
  assumes "0 \<in> K" and K: "\<forall>m. 2 \<le> m \<longrightarrow> m < 2147483648 \<longrightarrow> word_of_nat m \<notin> K" and "len \<le> 257"
    and "n \<le> MAX_PENDING + g" and "g < 1000000000"
  shows "\<exists>r. video_reach (sent_chunk (hang_src len K)) [] r \<and> backlog (hang_src len K) g n r"
  using assms(4)
proof (induction n)
  case 0
  show ?case using hang_src_start [OF assms(1)] hang_src_sent [OF assms(3)]
      reach_push [OF reach_new] by blast
next
  case (Suc n)
  then obtain r where r: "video_reach (sent_chunk (hang_src len K)) [] r" "backlog (hang_src len K) g n r"
    by auto
  have "\<forall>m. 2 \<le> m \<longrightarrow> m < 2147483648 \<longrightarrow> \<not> sf_keyframe (hang_src len K (word_of_nat m))"
    using K by (simp add: hang_src_def)
  moreover have "g + 3 + n < 2147483648" using Suc.prems assms(5) by (simp add: MAX_PENDING_def)
  ultimately show ?case
    using backlog_push [OF r(2) _ _ _ hang_src_sent [OF assms(3)]] Suc.prems r(1)
      hang_src_sent [OF assms(3)] by (metis Suc_le_eq reach_push)
qed

lemma keyframes_below_two:
  "K \<subseteq> {0, 1} \<Longrightarrow> \<forall>m. 2 \<le> m \<longrightarrow> m < 2147483648 \<longrightarrow> (word_of_nat m :: u32) \<notin> K"
  using word_of_nat_small_eq [of _ 0] word_of_nat_small_eq [of _ 1] by fastforce

lemma backlog_length: "backlog src g n r \<Longrightarrow> length (pendings r) = n"
  by (simp add: backlog_def)

subsection \<open>A full backlog and the frame that was missing\<close>

lemma complete_held_frame:
  assumes "len \<le> 257"
  shows "complete (held_frame (hang_src len K) fid) \<longleftrightarrow> fid \<in> K \<or> len \<le> 256"
proof -
  have "chunk_count 256 (if fid \<in> K then 0 else len) = (if fid \<in> K \<or> len \<le> 256 then 1 else 2)"
    using assms chunk_count_le [of 256 len 1] chunk_count_le [of 256 len 2]
    by (auto simp: chunk_count_def div_ceil_def split: if_splits)
  then show ?thesis
    by (auto simp: complete_def held_frame_def store_part_def new_pending_def first_chunk_def chunk_of_def
        hang_src_def payload_of_def MIN_DATAGRAM_def CHUNK_OVERHEAD_def)
qed

text \<open>Frame 1 makes room for itself by settling itself.\<close>

definition room_made :: "video_chunk \<Rightarrow> reassembler \<Rightarrow> reassembler" where
  "room_made c r = lost (give_up_expected_quietly
     (r\<lparr>gap_nacks := filter (\<lambda>(id, _). id \<noteq> vc_frame_id c) (gap_nacks r)\<rparr>))"

lemma full_backlog_room:
  assumes r: "backlog src 0 MAX_PENDING r"
  shows "pendings (room_made c r) = pendings r" and "last_settled (room_made c r) = Some 1"
proof -
  let ?r = "r\<lparr>gap_nacks := filter (\<lambda>(id, _). id \<noteq> vc_frame_id c) (gap_nacks r)\<rparr>"
  have fresh: "1 \<notin> p_frame_id ` set (pendings r)"
    using backlog_ids [OF r, of 1] by (simp add: MAX_PENDING_def)
  have e: "expected ?r = Some 1" using r by (simp add: expected_def backlog_def)
  have "filter (\<lambda>p. p_frame_id p \<noteq> 1) (pendings r) = pendings r"
    unfolding filter_id_conv using fresh by (metis imageI)
  then show "pendings (room_made c r) = pendings r" using e by (simp add: room_made_def)
  show "last_settled (room_made c r) = Some 1"
    using e last_settled_expected [OF e]
    by (simp add: room_made_def give_up_expected_quietly_def last_settled_settle)
qed

lemma full_backlog_push:
  assumes r: "backlog (hang_src len K) 0 MAX_PENDING r"
  defines "c \<equiv> first_chunk (hang_src len K) 1"
  assumes len: "len \<le> 257" and r2: "drain (room_made c r) = Some r2"
  shows "push c 0 r =
      (let r3 = r2\<lparr>pendings := pendings r2 @ [held_frame (hang_src len K) 1]\<rparr> in
       if complete (held_frame (hang_src len K) 1) then drain r3 else Some r3)"
proof -
  have fresh: "1 \<notin> p_frame_id ` set (pendings r)"
    using backlog_ids [OF r, of 1] by (simp add: MAX_PENDING_def)
  have settled: "last_settled r = Some 0" using r by (simp add: backlog_def)
  have valid: "vc_chunk c < vc_chunks c" unfolding c_def using sent_chunk_valid hang_src_sent [OF len] by blast
  then have nonzero: "vc_chunks c \<noteq> 0" by auto
  have cid: "vc_frame_id c = 1" by (simp add: c_def first_chunk_def chunk_of_def)
  have "give_up_expected (r\<lparr>gap_nacks := filter (\<lambda>(id, _). id \<noteq> vc_frame_id c) (gap_nacks r)\<rparr>) = Some r2"
    using r2 by (simp add: give_up_expected_def room_made_def)
  then show ?thesis
    using push_new [OF valid settled _ _ nonzero, of 0] fresh cid is_newer_succ [of 0] backlog_length [OF r]
    by (simp add: held_frame_def c_def [symmetric] Let_def)
qed

lemma backlog_window:
  assumes "backlog src g n r" and "g + 2 + n < 2147483648" and "b < g + 2"
  shows "\<forall>p\<in>set (pendings r). is_newer (p_frame_id p) (word_of_nat b)"
proof
  fix p assume "p \<in> set (pendings r)"
  then obtain k where k: "k < n" "p_frame_id p = word_of_nat (g + 2 + k)"
    using assms(1) by (auto simp: backlog_def)
  show "is_newer (p_frame_id p) (word_of_nat b)"
    unfolding k(2) using is_newer_nat [of "g + 2 + k" b] k(1) assms by simp
qed

lemma backlog_held:
  assumes "backlog src 0 MAX_PENDING r" and "p \<in> set (pendings r)"
  obtains m where "2 \<le> m" "m < 66" "p = held_frame src (word_of_nat m)"
proof -
  from assms obtain k where "k < MAX_PENDING" "p = held_frame src (word_of_nat (0 + 2 + k))"
    by (auto simp: backlog_def)
  then show ?thesis using that [of "0 + 2 + k"] by (simp add: MAX_PENDING_def)
qed

lemma push_hangs_on_backlog:
  assumes r: "backlog (hang_src 257 {0, 1}) 0 MAX_PENDING r"
  shows "push (first_chunk (hang_src 257 {0, 1}) 1) 0 r = None"
proof -
  let ?src = "hang_src 257 {0, 1}"
  let ?q = "held_frame ?src 1"
  let ?u = "room_made (first_chunk ?src 1) r"
  let ?v = "?u\<lparr>pendings := pendings ?u @ [?q]\<rparr>"
  note u = full_backlog_room [OF r, of "first_chunk ?src 1"]
  have partial: "\<forall>p\<in>set (pendings r). \<not> complete p"
  proof
    fix p assume "p \<in> set (pendings r)"
    then obtain m where m: "2 \<le> m" "m < 66" "p = held_frame ?src (word_of_nat m)"
      by (rule backlog_held [OF r])
    then show "\<not> complete p"
      using complete_held_frame [of 257 "{0, 1}"] keyframes_below_two [of "{0, 1}"] by auto
  qed
  have whole: "complete ?q" using complete_held_frame [of 257 "{0, 1}"] by simp
  have "drain ?u = Some ?u" using u partial by (intro drain_idle [of _ 2]) (auto simp: expected_def)
  then have "push (first_chunk ?src 1) 0 r = drain ?v"
    using full_backlog_push [OF r] whole by simp
  also have "drain ?v = None"
  proof (rule drain_stale_keyframe [of _ 1 ?q])
    show "filter (\<lambda>p. p_keyframe p \<and> complete p) (pendings ?v) = [?q]"
      using u partial whole by (simp add: hang_src_def)
    show "\<forall>p\<in>set (pendings ?v). is_newer (p_frame_id p) (p_frame_id ?q - 1)"
      using backlog_window [OF r, of 0] u is_newer_succ [of 0] by (simp add: MAX_PENDING_def)
  qed (use u partial in \<open>auto simp: is_newer_def\<close>)
  finally show ?thesis .
qed

lemma held_run_drains:
  assumes u: "wf_reassembler u" "in_window b u" "last_settled u = Some (word_of_nat m)" "m \<le> n" "n < 2147483648"
    and run: "set (pendings u) = (\<lambda>k. held_frame src (word_of_nat k)) ` {m<..n}"
    and whole: "\<forall>k\<in>{m<..n}. complete (held_frame src (word_of_nat k)) \<and> \<not> sf_keyframe (src (word_of_nat k))"
  shows "\<exists>r'. drain u = Some r' \<and> pendings r' = [] \<and> last_settled r' = Some (word_of_nat n)"
proof -
  let ?P = "\<lambda>v. wf_reassembler v \<and> (\<exists>k. m \<le> k \<and> k \<le> n \<and> last_settled v = Some (word_of_nat k) \<and>
     set (pendings v) = (\<lambda>k. held_frame src (word_of_nat k)) ` {k<..n})"
  obtain r' where r': "drain u = Some r'" using drain_returns u by blast
  have "?P r' \<and> drain_step r' = None"
  proof (rule drain_rule [OF r'])
    show "?P u" using u run by auto
    fix v v' assume v: "?P v" and step: "drain_step v = Some v'"
    then obtain k where k: "m \<le> k" "k \<le> n" "last_settled v = Some (word_of_nat k)"
      "set (pendings v) = (\<lambda>k. held_frame src (word_of_nat k)) ` {k<..n}" by blast
    have wf': "wf_reassembler v'" using drain_step_wf v step by blast
    show "?P v'"
      using step
    proof (cases rule: drain_step_cases)
      case (next_in_line e i)
      let ?p = "pendings v ! i"
      have e: "e = word_of_nat (k + 1)" using next_in_line(1) k(3) by (auto simp: expected_def)
      have pin: "?p \<in> set (pendings v)" using next_in_line(2) by simp
      then obtain j where j: "k < j" "j \<le> n" "?p = held_frame src (word_of_nat j)" using k(4) by auto
      then have "j = k + 1"
        using next_in_line(3) e word_of_nat_small_eq [of j "k + 1"] u(5) k(2) by (simp del: of_nat_add of_nat_Suc)
      have "distinct (map p_frame_id (pendings v))" using v by (simp add: wf_reassembler_def)
      then have "distinct (pendings v)" by (simp add: distinct_map)
      then have rest: "set (swap_remove i (pendings v)) = set (pendings v) - {?p}"
        by (rule set_swap_remove_distinct [OF next_in_line(2)])
      have "set (pendings v') = (\<lambda>k. held_frame src (word_of_nat k)) ` {k + 1<..n}"
      proof -
        let ?f = "\<lambda>k. held_frame src (word_of_nat k)"
        have inj: "inj_on ?f {k<..n}"
        proof (rule inj_onI)
          fix x y assume xy: "x \<in> {k<..n}" "y \<in> {k<..n}" "?f x = ?f y"
          then have "(word_of_nat x :: u32) = word_of_nat y" by (metis held_frame_simps(1))
          then show "x = y" using xy u(5) word_of_nat_small_eq [of x y] by simp
        qed
        have "?f ` ({k<..n} - {k + 1}) = ?f ` {k<..n} - ?f ` {k + 1}"
          by (rule inj_on_image_set_diff [OF inj]) (use j \<open>j = k + 1\<close> in auto)
        moreover have "?f ` {k + 1} = {?p}" by (simp only: image_insert image_empty j(3) \<open>j = k + 1\<close>)
        moreover have "{k<..n} - {k + 1} = {k + 1<..n}" by auto
        ultimately have "?f ` {k + 1<..n} = ?f ` {k<..n} - {?p}" by simp
        then show ?thesis using rest next_in_line(5) k(4) by simp
      qed
      moreover have "last_settled v' = Some (word_of_nat (k + 1))"
        using last_settled_deliver next_in_line e by simp
      ultimately show ?thesis using wf' k j \<open>j = k + 1\<close> by (intro conjI exI [of _ "k + 1"]) auto
    next
      case (skip e q c)
      obtain p where p: "p \<in> set (pendings v)" "p_keyframe p" using keyframe_candidate [OF skip(3)] by blast
      then obtain j where "j \<in> {k<..n}" "p = held_frame src (word_of_nat j)" unfolding k(4) by blast
      then show ?thesis using p(2) whole k(1) by simp
    qed
  qed
  then obtain k where k: "m \<le> k" "k \<le> n" "last_settled r' = Some (word_of_nat k)"
      "set (pendings r') = (\<lambda>k. held_frame src (word_of_nat k)) ` {k<..n}" "drain_step r' = None" by blast
  have "k = n"
  proof (rule ccontr)
    assume "k \<noteq> n"
    then have "held_frame src (word_of_nat (k + 1)) \<in> set (pendings r')" 
      unfolding k(4) using k(2) by (intro imageI) simp
    moreover have "complete (held_frame src (word_of_nat (k + 1)))" 
      using bspec [OF whole, of "k + 1"] k(1,2) \<open>k \<noteq> n\<close> by (simp del: of_nat_add of_nat_Suc)
    ultimately have "next_complete r'"
      using k(3) by (force simp: next_complete_def expected_def)
    then show False using next_complete_step k(5) by blast
  qed
  then show ?thesis using r' k by auto
qed

lemma expire_hangs_on_backlog:
  assumes r: "backlog (hang_src 0 {0}) 0 MAX_PENDING r" and wf: "wf_reassembler r"
  shows "\<exists>r'. push (first_chunk (hang_src 0 {0}) 1) 0 r = Some r' \<and>
    (\<forall>now_us t. give_up_us t \<le> now_us \<longrightarrow> expire now_us t r' = None)"
proof -
  let ?src = "hang_src 0 {0}"
  let ?q = "held_frame ?src 1"
  let ?u = "room_made (first_chunk ?src 1) r"
  note u = full_backlog_room [OF r, of "first_chunk ?src 1"]
  have "set (pendings ?u) = (\<lambda>k. held_frame ?src (word_of_nat k)) ` {1<..65}"
  proof -
    have "(\<lambda>k. 0 + 2 + k) ` set [0..<MAX_PENDING] = {1<..65}"
    proof (rule set_eqI)
      fix x :: nat
      have "x \<in> (\<lambda>k. 0 + 2 + k) ` set [0..<MAX_PENDING] \<longleftrightarrow> (\<exists>k<64. x = 2 + k)"
        by (auto simp: MAX_PENDING_def)
      also have "\<dots> \<longleftrightarrow> x \<in> {1<..65}" by simp presburger
      finally show "x \<in> (\<lambda>k. 0 + 2 + k) ` set [0..<MAX_PENDING] \<longleftrightarrow> x \<in> {1<..65}" .
    qed
    moreover have "set (pendings ?u) =
        (\<lambda>k. held_frame ?src (word_of_nat k)) ` (\<lambda>k. 0 + 2 + k) ` set [0..<MAX_PENDING]"
      unfolding u(1) using r unfolding backlog_def by (simp only: image_image set_map)
    ultimately show ?thesis by (simp only:)
  qed
  moreover have "wf_reassembler ?u" unfolding room_made_def by (intro wf.inv_give_up wf.inv_forget wf)
  moreover have "in_window 1 ?u"
    using u backlog_window [OF r, of 1] by (simp add: in_window_def base_of_def MAX_PENDING_def)
  moreover have "\<forall>k\<in>{1<..65}. complete (held_frame ?src (word_of_nat k)) \<and> \<not> sf_keyframe (?src (word_of_nat k))"
    using complete_held_frame [of 0 "{0}"] keyframes_below_two [of "{0}"] by (auto simp: hang_src_def)
  ultimately obtain r2 where r2: "drain ?u = Some r2" "pendings r2 = []" "last_settled r2 = Some (word_of_nat 65)"
    using held_run_drains [of ?u 1 1 65 ?src] u by auto
  let ?v = "r2\<lparr>pendings := [?q]\<rparr>"
  have "push (first_chunk ?src 1) 0 r = drain ?v"
    using full_backlog_push [OF r _ r2(1)] r2(2) complete_held_frame [of 0 "{0}"] by simp
  moreover have "drain ?v = Some ?v"
    using r2 by (intro drain_idle [of _ 66]) (auto simp: expected_def hang_src_def)
  moreover have "expire now_us t ?v = None" if "give_up_us t \<le> now_us" for now_us t
    using r2 that
    by (intro expire_stale_frame [of _ 65 ?q])
      (auto simp: hang_src_def is_newer_def saturating_sub_def)
  ultimately show ?thesis by simp
qed

end
