(* ===== verification/Video_Repair.thy ===== *)
theory Video_Repair
  imports Video_Liveness
begin

text \<open>
  Asking for repairs, and when giving up happens. Only what is missing is asked for, and a
  frame in flight not again before the retry time; \<open>expire\<close> does nothing before the
  deadline \<open>next_deadline\<close> reports, and afterwards leaves nothing that is overdue.
\<close>

subsection \<open>What is asked for\<close>

definition missing_in :: "pending \<Rightarrow> missing \<Rightarrow> bool" where
  "missing_in p m \<longleftrightarrow>
     ms_frame_id m = p_frame_id p \<and> ms_chunks m \<noteq> [] \<and>
     (\<forall>i\<in>set (ms_chunks m). unat i < length (p_parts p) \<and> p_parts p ! unat i = None)"

definition asks_gap :: "reassembler \<Rightarrow> missing \<Rightarrow> bool" where
  "asks_gap r m \<longleftrightarrow>
     ms_chunks m = [] \<and> \<not> waiting_for_keyframe r \<and>
     ms_frame_id m \<notin> p_frame_id ` set (pendings r) \<and>
     (\<exists>n\<in>p_frame_id ` set (pendings r). is_newer n (ms_frame_id m))"

lemma lost_chunks_missing:
  assumes "wf_pending p" and "i \<in> set (lost_chunks now_us t newest p)"
  shows "unat i < length (p_parts p) \<and> p_parts p ! unat i = None"
proof -
  from assms(2) obtain k where k: "k < length (p_parts p)" "p_parts p ! k = None" "i = word_of_nat k"
    by (auto simp: lost_chunks_def Let_def)
  moreover have "unat i = k" using k assms(1) unat_chunk_count [of k] by (simp add: wf_pending_def)
  ultimately show ?thesis by simp
qed

lemma nack_pending_asks:
  assumes "wf_pending p" and "snd (nack_pending now_us t newest w p) = Some m"
  shows "missing_in p m" and "\<not> complete p" and "due now_us t (p_nacked_us p)"
    and "p_nacked_us (fst (nack_pending now_us t newest w p)) = Some now_us"
  using assms lost_chunks_missing [OF assms(1)]
  by (auto simp: nack_pending_def Let_def missing_in_def split: if_splits)

lemma nack_gaps_asks:
  "m \<in> set (snd (nack_gaps n now_us t newest held g gaps)) \<Longrightarrow>
   ms_chunks m = [] \<and> ms_frame_id m \<notin> set held \<and> is_newer newest (ms_frame_id m)"
  by (induction n arbitrary: g gaps) (auto simp: Let_def split_def split: if_splits)

lemma nack_gaps_count: "length (snd (nack_gaps n now_us t newest held g gaps)) \<le> n"
proof (induction n arbitrary: g gaps)
  case (Suc n)
  then show ?case by (simp add: Let_def split_def) (meson le_SucI)
qed simp

lemma nacks_expected: "expected (fst (nacks now_us t r)) = expected r"
  by (simp add: expected_def nacks_simps nack_pending_same comp_def split: option.splits)

lemma nacks_asked:
  "snd (nacks now_us t r) =
     somes (map (\<lambda>p. snd (nack_pending now_us t (newest_pending r) (waiting_for_keyframe r) p)) (pendings r)) @
     (case (expected r, newest_pending r) of
        (Some e, Some n) \<Rightarrow>
          if \<not> waiting_for_keyframe r
          then snd (nack_gaps MAX_GAP_NACKS now_us t n (map p_frame_id (pendings r)) e (gap_nacks r))
          else []
      | _ \<Rightarrow> [])"
proof -
  have "expected (r\<lparr>pendings := map (\<lambda>p. fst (nack_pending now_us t (newest_pending r) (waiting_for_keyframe r) p))
      (pendings r)\<rparr>) = expected r"
    by (simp add: expected_def nack_pending_same comp_def split: option.splits)
  then show ?thesis
    by (simp add: nacks_def Let_def split_def comp_def nack_pending_same split: option.splits)
qed

lemma newest_pending_member: "newest_pending r = Some n \<Longrightarrow> n \<in> p_frame_id ` set (pendings r)"
  using reduce_in_set [of "\<lambda>a b. if is_newer a b then a else b" "map p_frame_id (pendings r)" n]
  by (auto simp: newest_pending_def)

lemma nacks_only_missing:
  assumes "wf_reassembler r" and "m \<in> set (snd (nacks now_us t r))"
  shows "(\<exists>p\<in>set (pendings r). missing_in p m \<and> \<not> complete p \<and> due now_us t (p_nacked_us p)) \<or> asks_gap r m"
proof -
  consider (part) p where "p \<in> set (pendings r)"
      "snd (nack_pending now_us t (newest_pending r) (waiting_for_keyframe r) p) = Some m"
    | (gap) e n where "newest_pending r = Some n" "\<not> waiting_for_keyframe r"
      "m \<in> set (snd (nack_gaps MAX_GAP_NACKS now_us t n (map p_frame_id (pendings r)) e (gap_nacks r)))"
    using assms(2)
    by (cases "newest_pending r"; cases "expected r") (auto simp: nacks_asked set_somes split: if_splits)
  then show ?thesis
  proof cases
    case part
    then show ?thesis using nack_pending_asks assms(1) by (metis wf_reassembler_def)
  next
    case gap
    then have "asks_gap r m"
      using nack_gaps_asks [OF gap(3)] newest_pending_member [OF gap(1)] by (auto simp: asks_gap_def)
    then show ?thesis ..
  qed
qed

lemma nacks_at_most:
  "length (snd (nacks now_us t r)) \<le> length (pendings r) + MAX_GAP_NACKS"
proof -
  have "length (somes (map (\<lambda>p. snd (nack_pending now_us t (newest_pending r) (waiting_for_keyframe r) p))
      (pendings r))) \<le> length (pendings r)"
    using length_somes_le by (metis length_map)
  then show ?thesis using nack_gaps_count
    by (auto simp: nacks_asked add_mono split: option.splits)
qed

text \<open>A frame in flight that was asked for is not asked for again within the retry time.\<close>

lemma nacks_not_repeated:
  assumes wf: "wf_reassembler r" and m: "m \<in> set (snd (nacks now_us t r))" "ms_chunks m \<noteq> []"
    and soon: "saturating_sub later_us now_us < retry_us t"
    and m': "m' \<in> set (snd (nacks later_us t (fst (nacks now_us t r))))"
  shows "ms_frame_id m' \<noteq> ms_frame_id m"
proof
  let ?r = "fst (nacks now_us t r)"
  let ?ask = "nack_pending now_us t (newest_pending r) (waiting_for_keyframe r)"
  assume same: "ms_frame_id m' = ms_frame_id m"
  obtain p where p: "p \<in> set (pendings r)" "snd (?ask p) = Some m"
    using m nack_gaps_asks by (force simp: nacks_asked set_somes split: option.splits if_splits)
  note asked = nack_pending_asks [OF _ p(2)]
  have wfp: "wf_pending p" using wf p(1) by (simp add: wf_reassembler_def)
  have q: "fst (?ask p) \<in> set (pendings ?r)" "p_frame_id (fst (?ask p)) = ms_frame_id m'"
    using p(1) asked(1) [OF wfp] same by (auto simp: nacks_simps nack_pending_same missing_in_def)
  have wf': "wf_reassembler ?r" by (rule nacks_wf [OF wf])
  from nacks_only_missing [OF wf' m'] show False
  proof
    assume "\<exists>p\<in>set (pendings ?r). missing_in p m' \<and> \<not> complete p \<and> due later_us t (p_nacked_us p)"
    then obtain p' where p': "p' \<in> set (pendings ?r)" "p_frame_id p' = ms_frame_id m'"
      "due later_us t (p_nacked_us p')" by (auto simp: missing_in_def)
    then have "p' = fst (?ask p)"
      using same_id_same_pending [of ?r p' "fst (?ask p)"] wf' q by simp
    then show False using p'(3) asked(4) [OF wfp] soon by (simp add: due_def not_le)
  next
    assume "asks_gap ?r m'"
    then show False using q by (metis asks_gap_def imageI)
  qed
qed

subsection \<open>When giving up happens\<close>

definition overdue :: "u64 \<Rightarrow> timing \<Rightarrow> reassembler \<Rightarrow> bool" where
  "overdue now_us t r \<longleftrightarrow>
     (case expected r of None \<Rightarrow> False | Some e \<Rightarrow> expire_decide now_us t e r \<noteq> None)"

lemma expire_result:
  assumes "expire now_us t r = Some r'"
  shows "\<not> overdue now_us t r'"
proof -
  have "\<not> (n = now_us \<and> t' = t \<and> overdue now_us t r')" if "expire n t' r = Some r'" for n t' r r'
  proof (rule expire.raw_induct [where P = "\<lambda>n t' r r'. \<not> (n = now_us \<and> t' = t \<and> overdue now_us t r')", OF _ that])
    fix f n t' r r'
    assume IH: "\<And>n t' r r'. f n t' r = Some r' \<Longrightarrow> \<not> (n = now_us \<and> t' = t \<and> overdue now_us t r')"
      and eq: "(case expected r of None \<Rightarrow> Some r
        | Some e \<Rightarrow> (case expire_decide n t' e r of None \<Rightarrow> Some r
            | Some None \<Rightarrow> Option.bind (give_up_expected r) (f n t')
            | Some (Some g) \<Rightarrow> Option.bind (give_up_gap g r) (f n t'))) = Some r'"
    show "\<not> (n = now_us \<and> t' = t \<and> overdue now_us t r')"
    proof
      assume nt: "n = now_us \<and> t' = t \<and> overdue now_us t r'"
      then have "f now_us t u = Some r' \<Longrightarrow> False" for u using IH by blast
      then show False using eq nt
        by (auto simp: overdue_def bind_eq_Some_conv split: option.splits)
    qed
  qed
  with assms show ?thesis by blast
qed

lemma expire_not_overdue: "\<not> overdue now_us t r \<Longrightarrow> expire now_us t r = Some r"
  by (subst expire.simps) (auto simp: overdue_def split: option.splits)

text \<open>The deadline \<open>next_deadline\<close> reports is no later than the time of giving up.\<close>

lemma reduce_min_le: "reduce min xs = Some m \<Longrightarrow> x \<in> set xs \<Longrightarrow> m \<le> x" for m :: "'a::linorder"
proof -
  have fold: "foldl min a ys \<le> a \<and> (\<forall>y\<in>set ys. foldl min a ys \<le> y)" for a :: 'a and ys
  proof (induction ys arbitrary: a)
    case (Cons y ys)
    from Cons.IH [of "min a y"] show ?case by auto
  qed simp
  assume "reduce min xs = Some m" "x \<in> set xs"
  then show "m \<le> x" using fold by (cases xs) auto
qed

lemma next_deadline_give_up:
  assumes "next_deadline t r = Some d" and "give_up_deadline t r = Some g"
  shows "d \<le> g"
  using assms by (auto simp: next_deadline_def intro: reduce_min_le)

lemma no_wrap_overdue:
  assumes "now_us < since + t" and "since \<le> since + (t :: u64)" and "0 < t"
  shows "saturating_sub now_us since < t"
proof -
  have "unat (since + t) = unat since + unat t"
    using assms(2) by (simp add: unat_plus_simple [symmetric])
  moreover have "0 < unat t" using assms(3) by (simp add: word_less_nat_alt)
  moreover have "unat now_us < unat (since + t)" using assms(1) by (simp only: word_less_nat_alt)
  ultimately show ?thesis unfolding word_less_nat_alt unat_saturating_sub by linarith
qed

lemma no_wrap_mono:
  assumes "a \<le> b" and "b \<le> b + t" and "a \<le> a + (t :: u64)"
  shows "a + t \<le> b + t"
proof -
  have "unat (a + t) = unat a + unat t" "unat (b + t) = unat b + unat t"
    using assms(2,3) by (simp_all add: unat_plus_simple [symmetric])
  then show ?thesis using assms(1) by (simp add: word_le_nat_alt)
qed

lemma overdue_deadline:
  assumes "overdue now_us t r" and pos: "0 < give_up_us t" and clock: "\<forall>p\<in>set (pendings r).
      p_first_us p \<le> p_first_us p + give_up_us t \<and> p_last_chunk_us p \<le> p_last_chunk_us p + give_up_us t"
  shows "\<exists>g. give_up_deadline t r = Some g \<and> g \<le> now_us"
proof -
  obtain e where e: "expected r = Some e" "expire_decide now_us t e r \<noteq> None"
    using assms(1) by (auto simp: overdue_def split: option.splits)
  show ?thesis
  proof (cases "find (\<lambda>p. p_frame_id p = e) (pendings r)")
    case (Some p)
    then have p: "p \<in> set (pendings r)" by (auto simp: find_Some_iff)
    have "\<not> saturating_sub now_us (p_last_chunk_us p) < give_up_us t"
      using e(2) Some by (auto simp: expire_decide_def split: if_splits)
    then show ?thesis using no_wrap_overdue [of now_us "p_last_chunk_us p" "give_up_us t"] clock p e(1) Some pos
      by (force simp: give_up_deadline_def not_less)
  next
    case None
    then obtain g since where g: "oldest_pending r = Some (g, since)"
      "\<not> saturating_sub now_us since < give_up_us t"
      using e(2) by (auto simp: expire_decide_def split: option.splits if_splits)
    have "(g, since) \<in> set (map (\<lambda>p. (p_frame_id p, p_first_us p)) (pendings r))"
      using g(1) unfolding oldest_pending_def by (rule reduce_in_set) auto
    then obtain p where p: "p \<in> set (pendings r)" "p_first_us p = since" by auto
    then obtain first where first: "reduce min (map p_first_us (pendings r)) = Some first"
      by (cases "reduce min (map p_first_us (pendings r))") auto
    have member: "first \<in> p_first_us ` set (pendings r)"
      using reduce_in_set [OF first] by (auto simp: min_def)
    have "first \<le> since" using reduce_min_le [OF first] p by auto
    moreover have "since + give_up_us t \<le> now_us"
      using g(2) no_wrap_overdue [of now_us since "give_up_us t"] clock p pos by (force simp: not_less)
    moreover have "first + give_up_us t \<le> since + give_up_us t"
      using \<open>first \<le> since\<close> clock p member no_wrap_mono by fastforce
    ultimately show ?thesis using first None e(1) by (auto simp: give_up_deadline_def)
  qed
qed

lemma expire_before_deadline:
  assumes "next_deadline t r = Some d" and "now_us < d" and pos: "0 < give_up_us t" and clock: "\<forall>p\<in>set (pendings r).
      p_first_us p \<le> p_first_us p + give_up_us t \<and> p_last_chunk_us p \<le> p_last_chunk_us p + give_up_us t"
  shows "expire now_us t r = Some r"
proof (rule expire_not_overdue, rule notI)
  assume "overdue now_us t r"
  then obtain g where g: "give_up_deadline t r = Some g" "g \<le> now_us"
    using overdue_deadline pos clock by blast
  then show False using next_deadline_give_up [OF assms(1) g(1)] assms(2) by simp
qed

end
