(* ===== verification/Video_Theorems.thy ===== *)
theory Video_Theorems
  imports Video_Hang Video_Repair
begin

text \<open>
  The properties of the video path: what a viewer that feeds datagrams to a
  reassembler, in any order, can rely on; and where the reassembler's own limits are
  not kept.
\<close>

subsection \<open>A concrete stream for the witnesses\<close>

text \<open>One keyframe of five bytes in one datagram, taken in and handed on.\<close>

definition demo_src :: "u32 \<Rightarrow> sent_frame" where
  "demo_src fid = \<lparr>sf_keyframe = fid = 0, sf_capture_ts_us = 7, sf_data = [1, 2, 3, 4, 5],
     sf_datagram = MIN_DATAGRAM\<rparr>"

lemma demo_arrives: "arrives demo_src fid [(first_chunk demo_src fid, 9)]"
  by (simp add: arrives_def packetize_Inr_iff first_chunk_def demo_src_def payload_of_def
      chunk_count_def div_ceil_def MIN_DATAGRAM_def CHUNK_OVERHEAD_def)

lemma demo_sent: "sent_chunk demo_src (first_chunk demo_src fid)"
  using demo_arrives [of fid] by (auto simp: arrives_def sent_chunk_def first_chunk_def chunk_of_def)

lemma demo_pushed:
  "\<exists>r. push (first_chunk demo_src 0) 9 reassembler_new = Some r \<and> ready r = [sent_as demo_src 0]"
  using arrives_delivered [OF _ demo_arrives, of 0 reassembler_new]
  by (fastforce simp: awaits_def reassembler_new_def demo_src_def bind_eq_Some_conv)

lemma demo_reach: "\<exists>r. video_reach (sent_chunk demo_src) [sent_as demo_src 0] r"
proof -
  obtain r where r: "push (first_chunk demo_src 0) 9 reassembler_new = Some r" "ready r = [sent_as demo_src 0]"
    using demo_pushed by blast
  have "video_reach (sent_chunk demo_src) [] r" 
    by (rule reach_push [where c = "first_chunk demo_src 0"]) (rule reach_new demo_sent r(1))+
  moreover have "pop r = (Some (sent_as demo_src 0), r\<lparr>ready := []\<rparr>)" using r(2) by (simp add: pop_def)
  ultimately show ?thesis using reach_pop by fastforce
qed

lemma reach_weaken: "video_reach ok popped r \<Longrightarrow> (\<And>c. ok c \<Longrightarrow> ok' c) \<Longrightarrow> video_reach ok' popped r"
  by (induction rule: video_reach.induct) (auto intro: video_reach.intros)

text \<open>One chunk of a keyframe of two, and the state it leaves.\<close>

definition demo_chunk :: video_chunk where
  "demo_chunk = \<lparr>vc_frame_id = 4, vc_chunk = 0, vc_chunks = 2, vc_keyframe = True,
     vc_capture_ts_us = 7, vc_data = [1, 2, 3]\<rparr>"

definition demo_timing :: timing where
  "demo_timing = \<lparr>quiet_us = 10, retry_us = 50, give_up_us = 1000\<rparr>"

definition demo_half :: reassembler where
  "demo_half = reassembler_new\<lparr>pendings :=
     [\<lparr>p_frame_id = 4, p_keyframe = True, p_capture_ts_us = 7, p_parts = [Some [1, 2, 3], None],
       p_received = 1, p_bytes = 3, p_highest = 0, p_first_us = 20, p_last_chunk_us = 20,
       p_nacked_us = None\<rparr>]\<rparr>"

lemma demo_half_pushed: "push demo_chunk 20 reassembler_new = Some demo_half"
  by (simp add: push_def push_at_def demo_chunk_def demo_half_def reassembler_new_def MAX_PENDING_def
      new_pending_def store_part_def complete_def Let_def replicate_two)

lemma demo_half_reach: "video_reach (\<lambda>_. True) [] demo_half"
  by (rule reach_push [where c = demo_chunk]) (rule reach_new TrueI demo_half_pushed)+

lemma demo_half_nacks:
  "snd (nacks 40 demo_timing demo_half) = [\<lparr>ms_frame_id = 4, ms_chunks = [1]\<rparr>]"
  by (simp add: nacks_asked demo_half_def reassembler_new_def demo_timing_def newest_pending_def
      expected_def nack_pending_def lost_chunks_def complete_def due_def saturating_sub_def)

lemma demo_timing_retry: "saturating_sub 80 40 < retry_us demo_timing"
  by (simp add: demo_timing_def saturating_sub_def)

subsection \<open>Delivery\<close>

text \<open>C21. Whatever chunks arrive, in whatever order, and whenever repairs are asked for or
  frames given up, what has been handed to the decoder can be decoded: the first frame is a
  keyframe, and every frame after it is a keyframe or directly follows the one before.\<close>

theorem delivery_decodable:
  assumes "video_reach (\<lambda>_. True) popped r"
  shows "decodable (popped @ ready r)"
  using chain.reach_inv [OF assms] by (simp add: chain_inv_def)

theorem delivery_decodable_witness:
  "\<exists>r. video_reach (\<lambda>_. True) [sent_as demo_src 0] r \<and> decodable ([sent_as demo_src 0] @ ready r)"
proof -
  obtain r where "video_reach (\<lambda>_. True) [sent_as demo_src 0] r"
    using demo_reach reach_weaken [where ok' = "\<lambda>_. True"] by metis
  then show ?thesis using delivery_decodable by blast
qed

text \<open>A reassembler that only sees chunks the sender's packetize made, any of them
  lost, repeated, delayed or reordered, delivers only frames that were sent: same id,
  same kind, same capture time, same bytes.\<close>

theorem only_sent_frames:
  assumes "video_reach (sent_chunk src) popped r" and "f \<in> set (popped @ ready r)"
  shows "af_keyframe f = sf_keyframe (src (af_frame_id f)) \<and>
    af_capture_ts_us f = sf_capture_ts_us (src (af_frame_id f)) \<and>
    af_data f = sf_data (src (af_frame_id f))"
proof -
  have "genuine src f" using sent.reach_inv [OF assms(1)] assms(2) by (auto simp: sent_inv_def)
  then show ?thesis by (simp add: genuine_def Let_def)
qed

theorem only_sent_frames_witness:
  "\<exists>r. video_reach (sent_chunk demo_src) [sent_as demo_src 0] r \<and>
     af_data (sent_as demo_src 0) = sf_data (demo_src 0)"
proof -
  obtain r where r: "video_reach (sent_chunk demo_src) [sent_as demo_src 0] r" using demo_reach by blast
  have "af_data (sent_as demo_src 0) = sf_data (demo_src (af_frame_id (sent_as demo_src 0)))"
    using only_sent_frames [OF r, of "sent_as demo_src 0"] by simp
  with r show ?thesis by (auto simp: sent_as_def)
qed

text \<open>Splitting and reassembling is the identity: when the chunks of consecutive frames,
  beginning with a keyframe, all arrive, the chunks of each frame in any order, then every
  call returns and exactly the sent frames are ready, in order.\<close>

theorem stream_round_trip:
  assumes "\<forall>i<length xss. arrives src (word_of_nat i) (xss ! i)" and "sf_keyframe (src 0)"
  shows "\<exists>r. push_all (concat xss) reassembler_new = Some r \<and>
    ready r = map (\<lambda>i. sent_as src (word_of_nat i)) [0..<length xss]"
  using stream_delivered [of xss src 0 reassembler_new] assms
  by (simp add: awaits_def reassembler_new_def)

theorem stream_round_trip_witness:
  "\<exists>r. push_all [(first_chunk demo_src 0, 9), (first_chunk demo_src 1, 9)] reassembler_new = Some r \<and>
     map af_data (ready r) = [[1, 2, 3, 4, 5], [1, 2, 3, 4, 5]]"
proof -
  let ?xss = "[[(first_chunk demo_src 0, 9 :: u64)], [(first_chunk demo_src 1, 9)]]"
  have "\<forall>i<length ?xss. arrives demo_src (word_of_nat i) (?xss ! i)"
  proof (intro allI impI)
    fix i assume "i < length ?xss"
    then consider "i = 0" | "i = 1" by fastforce
    then show "arrives demo_src (word_of_nat i) (?xss ! i)" by cases (simp_all add: demo_arrives)
  qed
  moreover have "sf_keyframe (demo_src 0)" by (simp add: demo_src_def)
  ultimately have "\<exists>r. push_all (concat ?xss) reassembler_new = Some r \<and>
    ready r = map (\<lambda>i. sent_as demo_src (word_of_nat i)) [0..<length ?xss]"
    by (rule stream_round_trip)
  then obtain r where r: "push_all (concat ?xss) reassembler_new = Some r"
    "ready r = map (\<lambda>i. sent_as demo_src (word_of_nat i)) [0..<length ?xss]" by blast
  have "map af_data (ready r) = [[1, 2, 3, 4, 5], [1, 2, 3, 4, 5]]"
    unfolding r(2) by (simp add: sent_as_def demo_src_def)
  moreover have "concat ?xss = [(first_chunk demo_src 0, 9), (first_chunk demo_src 1, 9)]" by simp
  ultimately show ?thesis using r(1) by metis
qed

text \<open>packetize refuses datagrams below MIN-DATAGRAM and frames beyond 65535 chunks, and
  only those. Otherwise the payloads joined are the frame, every payload leaves room for the
  overhead, and the chunks are numbered from 0 to their common count.\<close>

theorem packetize_spec:
  "case packetize fid keyframe ts data dg of
     Inl e \<Rightarrow>
       (dg < MIN_DATAGRAM \<and> e = (DatagramTooSmall dg :: 'e error)) \<or>
       (MIN_DATAGRAM \<le> dg \<and> 65535 * (dg - CHUNK_OVERHEAD) < length data \<and> e = FrameTooLarge (length data))
   | Inr cs \<Rightarrow>
       MIN_DATAGRAM \<le> dg \<and> length data \<le> 65535 * (dg - CHUNK_OVERHEAD) \<and>
       concat (map vc_data cs) = data \<and>
       list_all (\<lambda>c. length (vc_data c) + CHUNK_OVERHEAD \<le> dg) cs \<and>
       map (\<lambda>c. unat (vc_chunk c)) cs = [0..<length cs] \<and>
       list_all (\<lambda>c. unat (vc_chunks c) = length cs \<and> vc_frame_id c = fid \<and>
          vc_keyframe c = keyframe \<and> vc_capture_ts_us c = ts) cs"
proof (cases "MIN_DATAGRAM \<le> dg")
  case False
  then show ?thesis by (simp add: packetize_eq)
next
  case True
  let ?n = "dg - CHUNK_OVERHEAD"
  let ?k = "chunk_count ?n (length data)"
  let ?cs = "map (chunk_of fid keyframe ts data ?n) [0..<?k]"
  have size: "?k < 65536 \<longleftrightarrow> length data \<le> 65535 * ?n"
    using chunk_count_le [OF payload_pos [OF True], of "length data" 65535] by auto
  show ?thesis
  proof (cases "?k < 65536")
    case False
    then show ?thesis using True size by (simp add: packetize_eq Let_def)
  next
    case k: True
    have "concat (map vc_data ?cs) = data"
      using concat_all_pieces [OF payload_pos [OF True], of data] by (simp add: chunk_of_def comp_def)
    moreover have "list_all (\<lambda>c. length (vc_data c) + CHUNK_OVERHEAD \<le> dg) ?cs"
      using True by (auto simp: list_all_iff chunk_of_def piece_def MIN_DATAGRAM_def)
    moreover have "map (\<lambda>c. unat (vc_chunk c)) ?cs = [0..<length ?cs]"
      using k by (auto simp: chunk_of_index intro!: map_idI)
    moreover have "list_all (\<lambda>c. unat (vc_chunks c) = length ?cs \<and> vc_frame_id c = fid \<and>
        vc_keyframe c = keyframe \<and> vc_capture_ts_us c = ts) ?cs"
      using k by (auto simp: list_all_iff chunk_of_def unat_chunk_count)
    ultimately show ?thesis using True k size by (simp add: packetize_eq Let_def)
  qed
qed

subsection \<open>Bookkeeping and repairs\<close>

text \<open>In every reachable state the bookkeeping is well formed: no frame is pending twice,
  received and byte counts agree with the stored parts, the highest chunk seen is in range,
  and at most 128 gaps are remembered, each once.\<close>

theorem bookkeeping_wf:
  assumes "video_reach (\<lambda>_. True) popped r"
  shows "distinct (map p_frame_id (pendings r)) \<and>
    list_all (\<lambda>p. p_received p = length (somes (p_parts p)) \<and>
      p_bytes p = length (concat (somes (p_parts p))) \<and>
      unat (p_highest p) < length (p_parts p)) (pendings r) \<and>
    distinct (map fst (gap_nacks r)) \<and> length (gap_nacks r) \<le> 128"
  using wf.reach_inv [OF assms]
  by (auto simp: wf_reassembler_def wf_pending_def list_all_iff MAX_REMEMBERED_GAPS_def MAX_GAP_NACKS_def)

theorem bookkeeping_wf_witness:
  "\<exists>r. video_reach (\<lambda>_. True) [sent_as demo_src 0] r \<and> length (gap_nacks r) \<le> 128"
proof -
  obtain r where "video_reach (\<lambda>_. True) [sent_as demo_src 0] r"
    using demo_reach reach_weaken [where ok' = "\<lambda>_. True"] by metis
  then show ?thesis using bookkeeping_wf by blast
qed

text \<open>Only what is missing is asked for: a request names chunks of a pending frame that
  have not arrived, and that were not asked for within the retry time, or it names a whole
  frame of which nothing arrived although a newer one is here.\<close>

theorem nacks_ask_for_missing:
  assumes "video_reach (\<lambda>_. True) popped r" and "m \<in> set (snd (nacks now_us t r))"
  shows "(\<exists>p\<in>set (pendings r). ms_frame_id m = p_frame_id p \<and> ms_chunks m \<noteq> [] \<and>
      list_all (\<lambda>i. unat i < length (p_parts p) \<and> p_parts p ! unat i = None) (ms_chunks m) \<and>
      due now_us t (p_nacked_us p)) \<or>
    (ms_chunks m = [] \<and> ms_frame_id m \<notin> p_frame_id ` set (pendings r) \<and>
      (\<exists>p\<in>set (pendings r). is_newer (p_frame_id p) (ms_frame_id m)))"
  using nacks_only_missing [OF wf.reach_inv [OF assms(1)] assms(2)]
  unfolding missing_in_def asks_gap_def list_all_iff by blast

theorem nacks_ask_for_missing_witness:
  "\<exists>p\<in>set (pendings demo_half). p_frame_id p = 4 \<and> p_parts p ! unat (1 :: u16) = None"
  using nacks_ask_for_missing [OF demo_half_reach, of "\<lparr>ms_frame_id = 4, ms_chunks = [1]\<rparr>" 40 demo_timing]
  by (auto simp: demo_half_nacks)

text \<open>A frame in flight that has been asked for is not asked for again within the
  retry time.\<close>

theorem nacks_keep_quiet:
  assumes "video_reach (\<lambda>_. True) popped r"
    and "m \<in> set (snd (nacks now_us t r))" and "ms_chunks m \<noteq> []"
    and "saturating_sub later_us now_us < retry_us t"
  shows "ms_frame_id m \<notin> ms_frame_id ` set (snd (nacks later_us t (fst (nacks now_us t r))))"
  using nacks_not_repeated [OF wf.reach_inv [OF assms(1)] assms(2,3,4)] by (metis imageE)

theorem nacks_keep_quiet_witness:
  "4 \<notin> ms_frame_id ` set (snd (nacks 80 demo_timing (fst (nacks 40 demo_timing demo_half))))"
  using nacks_keep_quiet [OF demo_half_reach, of "\<lparr>ms_frame_id = 4, ms_chunks = [1]\<rparr>" 40 demo_timing 80]
  by (simp add: demo_half_nacks demo_timing_retry)

subsection \<open>The calls return, and what they leave\<close>

lemma drain_step_length: "drain_step r = Some r' \<Longrightarrow> length (pendings r') \<le> length (pendings r)"
  by (erule drain_step_cases) (simp_all add: swap_remove_def Let_def)

lemma drain_length: "drain r = Some r' \<Longrightarrow> length (pendings r') \<le> length (pendings r)"
  using drain_rule [of r r' "\<lambda>s. length (pendings s) \<le> length (pendings r)"] drain_step_length le_trans by blast

lemma push_at_length: "push_at c now_us i r = Some r' \<Longrightarrow> length (pendings r') \<le> length (pendings r)"
  by (auto simp: push_at_def Let_def count_invalid_def count_duplicate_def dest: drain_length split: if_splits)

lemma push_length:
  assumes "push c now_us r = Some r'" and "length (pendings r) < MAX_PENDING"
  shows "length (pendings r') \<le> Suc (length (pendings r))"
  using assms
  by (auto simp: push_def Let_def count_invalid_def count_late_def dest!: push_at_length split: if_splits option.splits)

text \<open>C22. While fewer than 64 frames are in flight, every one ahead of the last settled,
  taking a chunk in returns, whatever chunk it is; then at most one frame more is in flight, and
  every one is ahead of the last settled one again. Before any frame is settled, ahead means ahead
  of some id \<open>b\<close>, which has to hold of the chunk too.\<close>

theorem push_returns_with_room:
  assumes "video_reach (\<lambda>_. True) popped r"
    and "\<forall>p\<in>set (pendings r). is_newer (p_frame_id p) (base_of b r)"
    and "length (pendings r) < MAX_PENDING"
    and "last_settled r = None \<longrightarrow> is_newer (vc_frame_id c) b"
  shows "\<exists>r'. push c now_us r = Some r' \<and> length (pendings r') \<le> Suc (length (pendings r)) \<and>
    (\<forall>p\<in>set (pendings r'). is_newer (p_frame_id p) (base_of b r'))"
  using push_returns [OF wf.reach_inv [OF assms(1)], of b c now_us] assms push_length
  by (fastforce simp: in_window_def)

theorem push_returns_with_room_witness:
  "\<exists>r'. push demo_chunk 30 demo_half = Some r' \<and> length (pendings r') \<le> Suc (length (pendings demo_half)) \<and>
    (\<forall>p\<in>set (pendings r'). is_newer (p_frame_id p) (base_of 3 r'))"
  by (rule push_returns_with_room [OF demo_half_reach])
    (simp_all add: demo_half_def demo_chunk_def reassembler_new_def base_of_def MAX_PENDING_def is_newer_def)

text \<open>C23. Giving up on overdue frames returns from every such state, and leaves no frame
  that is overdue.\<close>

theorem expire_returns_settled:
  assumes "video_reach (\<lambda>_. True) popped r"
    and "\<forall>p\<in>set (pendings r). is_newer (p_frame_id p) (base_of b r)"
  shows "\<exists>r'. expire now_us t r = Some r' \<and> \<not> overdue now_us t r' \<and>
    (\<forall>p\<in>set (pendings r'). is_newer (p_frame_id p) (base_of b r'))"
  using expire_returns [OF wf.reach_inv [OF assms(1)], of b now_us t] assms(2) expire_result
  by (fastforce simp: in_window_def)

theorem expire_returns_settled_witness:
  "\<exists>r'. expire 5000 demo_timing demo_half = Some r' \<and> \<not> overdue 5000 demo_timing r'"
  using expire_returns_settled [OF demo_half_reach, of 3 5000 demo_timing]
  by (auto simp: demo_half_def reassembler_new_def base_of_def is_newer_def)

text \<open>Before the time next-deadline reports, giving up changes nothing.\<close>

theorem expire_waits_for_deadline:
  assumes "next_deadline t r = Some d" and "now_us < d" and "0 < give_up_us t"
    and "\<forall>p\<in>set (pendings r). p_first_us p \<le> p_first_us p + give_up_us t \<and>
      p_last_chunk_us p \<le> p_last_chunk_us p + give_up_us t"
  shows "expire now_us t r = Some r"
  using expire_before_deadline assms by blast

theorem expire_waits_for_deadline_witness:
  "next_deadline demo_timing demo_half = Some 30 \<and> expire 29 demo_timing demo_half = Some demo_half"
proof -
  have d: "next_deadline demo_timing demo_half = Some 30"
    by (simp add: next_deadline_def give_up_deadline_def expected_def repair_deadline_def demo_timing_def
        demo_half_def reassembler_new_def complete_def)
  moreover have "expire 29 demo_timing demo_half = Some demo_half"
    by (rule expire_waits_for_deadline [OF d]) (simp_all add: demo_timing_def demo_half_def reassembler_new_def)
  ultimately show ?thesis ..
qed

subsection \<open>Past the limit of frames in flight\<close>

text \<open>The limit of 64 frames in flight is not kept: behind a gap of \<open>g + 1\<close> lost frames,
  chunks of frames the sender made leave \<open>64 + g\<close> frames pending.\<close>

theorem pending_limit_exceeded:
  assumes "g < 1000000000"
  shows "\<exists>src r. video_reach (sent_chunk src) [] r \<and> length (pendings r) = MAX_PENDING + g"
proof -
  have "\<exists>r. video_reach (sent_chunk (hang_src 257 {0})) [] r \<and> backlog (hang_src 257 {0}) g (MAX_PENDING + g) r"
    using backlog_reach [of "{0}" 257 "MAX_PENDING + g" g] keyframes_below_two [of "{0}"] assms by simp
  then show ?thesis using backlog_length by blast
qed

theorem pending_limit_exceeded_witness:
  "\<exists>src r. video_reach (sent_chunk src) [] r \<and> length (pendings r) = MAX_PENDING + 1000"
  by (rule pending_limit_exceeded) simp

text \<open>C24. There is a stream of genuine chunks after which taking in one more genuine chunk
  never returns: 64 frames are in flight, and the frame they wait for arrives, a keyframe.\<close>

theorem push_can_hang:
  "\<exists>src r c. video_reach (sent_chunk src) [] r \<and> sent_chunk src c \<and> push c 0 r = None"
proof -
  obtain r where "video_reach (sent_chunk (hang_src 257 {0, 1})) [] r"
    "backlog (hang_src 257 {0, 1}) 0 MAX_PENDING r"
    using backlog_reach [of "{0, 1}" 257 MAX_PENDING 0] keyframes_below_two [of "{0, 1}"] by auto
  then show ?thesis using push_hangs_on_backlog hang_src_sent [of 257 "{0, 1}" 1] by auto
qed

text \<open>There is a stream of genuine chunks after which giving up, from the moment the
  give-up time has passed, never returns: 64 complete frames wait for one, and it arrives.\<close>

theorem expire_can_hang:
  "\<exists>src r. video_reach (sent_chunk src) [] r \<and> expire (give_up_us t) t r = None"
proof -
  obtain r where r: "video_reach (sent_chunk (hang_src 0 {0})) [] r" "backlog (hang_src 0 {0}) 0 MAX_PENDING r"
    using backlog_reach [of "{0}" 0 MAX_PENDING 0] keyframes_below_two [of "{0}"] by auto
  have "wf_reassembler r"
    using wf.reach_inv reach_weaken [OF r(1), where ok' = "\<lambda>_. True"] by simp
  then obtain r' where r': "push (first_chunk (hang_src 0 {0}) 1) 0 r = Some r'"
    "expire (give_up_us t) t r' = None"
    using expire_hangs_on_backlog [OF r(2)] by auto
  have "video_reach (sent_chunk (hang_src 0 {0})) [] r'"
    using reach_push [OF r(1) _ r'(1)] hang_src_sent [of 0 "{0}" 1] by simp
  then show ?thesis using r'(2) by blast
qed

subsection \<open>The order of frame ids\<close>

text \<open>Frame ids wrap. Among ids that are newer than a base, newer means further from the
  base, so it is a strict linear order there.\<close>

theorem frame_order_window:
  assumes "is_newer x b" and "is_newer y b"
  shows "(is_newer x y \<longleftrightarrow> unat (y - b) < unat (x - b)) \<and>
    (x = y \<or> is_newer x y \<or> is_newer y x) \<and> \<not> (is_newer x y \<and> is_newer y x)"
  using is_newer_window [OF assms] frame_order.window_total [OF assms] is_newer_asym by blast

theorem frame_order_window_witness:
  "is_newer 2 4294967295 \<and> (is_newer 2 1 \<longleftrightarrow> unat (1 - 4294967295 :: u32) < unat (2 - 4294967295 :: u32))"
  using frame_order_window [of 2 4294967295 1] by (simp add: is_newer_def)

end
