(* ===== verification/Hex.thy ===== *)
theory Hex
  imports Prelude
begin

text \<open>
  Bytes and numbers as text: the hexadecimal the agent's access record
  (\<open>crates/agent/src/access.rs\<close>), certificate fingerprints
  (\<open>crates/transport/src/lib.rs\<close>) and signature files
  (\<open>crates/core/src/release.rs\<close>) are written in, and decimal numbers.
\<close>

subsection \<open>Hexadecimal\<close>

definition hex_digit :: "nat \<Rightarrow> rchar" where
  "hex_digit n = (if n < 10 then 48 + n else 87 + n)"

definition to_hex :: "bytes \<Rightarrow> str" where
  "to_hex bs = concat (map (\<lambda>b. [hex_digit (unat b div 16), hex_digit (unat b mod 16)]) bs)"

definition hex_value :: "u8 \<Rightarrow> nat option" where
  "hex_value b =
     (if 48 \<le> b \<and> b \<le> 57 then Some (unat b - 48)
      else if 97 \<le> b \<and> b \<le> 102 then Some (unat b - 87)
      else if 65 \<le> b \<and> b \<le> 70 then Some (unat b - 55)
      else None)"

text \<open>\<open>u8::from_str_radix\<close> on two bytes: a leading plus is allowed.\<close>

definition hex_pair :: "u8 \<Rightarrow> u8 \<Rightarrow> u8 option" where
  "hex_pair a b =
     (if a = 43 then map_option word_of_nat (hex_value b)
      else case (hex_value a, hex_value b) of
             (Some x, Some y) \<Rightarrow> Some (word_of_nat (16 * x + y))
           | _ \<Rightarrow> None)"

fun hex_pairs :: "bytes \<Rightarrow> bytes option" where
  "hex_pairs [] = Some []"
| "hex_pairs [_] = None"
| "hex_pairs (a # b # rest) =
     (case hex_pair a b of
        None \<Rightarrow> None
      | Some x \<Rightarrow> map_option ((#) x) (hex_pairs rest))"

text \<open>A slice that cuts a character, and a pair that is not ASCII, are both \<open>None\<close>, as no
  byte beyond 127 is a hexadecimal digit.\<close>

definition from_hex :: "str \<Rightarrow> bytes option" where
  "from_hex text =
     (if length (utf8 text) mod 2 \<noteq> 0 then None else hex_pairs (utf8 text))"

lemma hex_digit_value:
  assumes "n < 16"
  shows "hex_value (word_of_nat (hex_digit n)) = Some n" and "hex_digit n < 128"
    and "(word_of_nat (hex_digit n) :: u8) \<noteq> 43"
proof -
  have "n \<in> set [0..<16]" using assms by simp
  moreover have "\<forall>n\<in>set [0..<16]. hex_value (word_of_nat (hex_digit n)) = Some n \<and> hex_digit n < 128 \<and>
      (word_of_nat (hex_digit n) :: u8) \<noteq> 43"
    by (simp add: upt_rec hex_digit_def hex_value_def)
  ultimately show "hex_value (word_of_nat (hex_digit n)) = Some n" "hex_digit n < 128"
    "(word_of_nat (hex_digit n) :: u8) \<noteq> 43" by blast+
qed

lemma to_hex_Cons:
  "utf8 (to_hex (b # bs)) =
     word_of_nat (hex_digit (unat b div 16)) # word_of_nat (hex_digit (unat b mod 16)) # utf8 (to_hex bs)"
proof -
  have "unat b < 256" by (rule byte_bound)
  then have "unat b div 16 < 16" "unat b mod 16 < 16" by simp_all
  then show ?thesis using hex_digit_value(2) by (simp add: to_hex_def utf8_char_def)
qed

lemma hex_pair_digits: "hex_pair (word_of_nat (hex_digit (unat b div 16))) (word_of_nat (hex_digit (unat b mod 16))) = Some b"
proof -
  have "unat b < 256" by (rule byte_bound)
  then have "unat b div 16 < 16" "unat b mod 16 < 16" by simp_all
  then show ?thesis using hex_digit_value by (simp add: hex_pair_def)
qed

lemma from_to_hex: "from_hex (to_hex bs) = Some bs"
proof -
  have "hex_pairs (utf8 (to_hex bs)) = Some bs \<and> length (utf8 (to_hex bs)) mod 2 = 0"
  proof (induction bs)
    case Nil
    then show ?case by (simp add: to_hex_def)
  next
    case (Cons b bs)
    then show ?case by (simp add: to_hex_Cons hex_pair_digits)
  qed
  then show ?thesis by (simp add: from_hex_def)
qed

subsection \<open>Decimal\<close>

lemma length_digits_of [simp]: "length (digits_of k n) = k"
  by (induction k arbitrary: n) auto

lemma digits_of_range: "c \<in> set (digits_of k n) \<Longrightarrow> 48 \<le> c \<and> c \<le> 57"
  by (induction k arbitrary: n) auto

lemma digits_of_inj: "n < 10 ^ k \<Longrightarrow> m < 10 ^ k \<Longrightarrow> digits_of k n = digits_of k m \<Longrightarrow> n = m"
proof (induction k arbitrary: n m)
  case (Suc k)
  then have "n div 10 < 10 ^ k" "m div 10 < 10 ^ k" "digits_of k (n div 10) = digits_of k (m div 10)"
    "n mod 10 = m mod 10" by auto
  then have "n div 10 = m div 10" using Suc.IH by blast
  then show ?case using \<open>n mod 10 = m mod 10\<close> by (metis div_mult_mod_eq)
qed simp

text \<open>A number as Rust prints it, and the number a run of digits denotes.\<close>

fun show_nat :: "nat \<Rightarrow> str" where
  "show_nat n = (if n < 10 then [48 + n] else show_nat (n div 10) @ [48 + n mod 10])"

declare show_nat.simps [simp del]

definition is_digit :: "rchar \<Rightarrow> bool" where
  "is_digit c \<longleftrightarrow> 48 \<le> c \<and> c \<le> 57"

definition read_nat :: "str \<Rightarrow> nat" where
  "read_nat s = foldl (\<lambda>n c. 10 * n + (c - 48)) 0 s"

lemma show_nat_digits: "c \<in> set (show_nat n) \<Longrightarrow> is_digit c"
proof (induction n rule: show_nat.induct)
  case (1 n)
  show ?case
  proof (cases "n < 10")
    case True
    then show ?thesis using "1.prems" by (simp add: show_nat.simps [of n] is_digit_def)
  next
    case False
    then have "c \<in> set (show_nat (n div 10)) \<or> c = 48 + n mod 10"
      using "1.prems" by (auto simp: show_nat.simps [of n])
    then show ?thesis using "1.IH" False by (auto simp: is_digit_def)
  qed
qed

lemma show_nat_nonempty [simp]: "show_nat n \<noteq> []"
  by (subst show_nat.simps) simp

lemma read_show_nat: "read_nat (show_nat n) = n"
proof (induction n rule: show_nat.induct)
  case (1 n)
  show ?case
  proof (cases "n < 10")
    case True
    then show ?thesis by (simp add: show_nat.simps [of n] read_nat_def)
  next
    case False
    then show ?thesis using 1 by (simp add: show_nat.simps [of n] read_nat_def)
  qed
qed

lemma read_nat_snoc: "read_nat (s @ [c]) = 10 * read_nat s + (c - 48)"
  by (simp add: read_nat_def)

lemma read_digits_of: "read_nat (digits_of k n) = n mod 10 ^ k"
proof (induction k arbitrary: n)
  case 0
  then show ?case by (simp add: read_nat_def)
next
  case (Suc k)
  have "10 * (n div 10 mod 10 ^ k) + n mod 10 = n mod 10 ^ Suc k"
    using mod_mult2_eq [of n 10 "10 ^ k"] by simp
  then show ?case using Suc by (simp add: read_nat_snoc)
qed

lemma digits_of_digit: "c \<in> set (digits_of k n) \<Longrightarrow> is_digit c"
  using digits_of_range by (simp add: is_digit_def)

lemma utf8_digits: "\<forall>c\<in>set s. is_digit c \<Longrightarrow> length (utf8 s) = length s"
  by (induction s) (auto simp: is_digit_def utf8_char_def)

lemma is_ascii_digit_utf8: "\<forall>c\<in>set s. is_digit c \<Longrightarrow> list_all is_ascii_digit (utf8 s)"
  by (induction s) (auto simp: is_digit_def utf8_char_def is_ascii_digit_def word_le_nat_alt
      unat_of_nat take_bit_eq_mod)

text \<open>\<open>str::split\<close> on a character: the pieces between its occurrences, at least one.\<close>

fun split_on :: "rchar \<Rightarrow> str \<Rightarrow> str list" where
  "split_on d [] = [[]]"
| "split_on d (c # s) =
     (if c = d then [] # split_on d s
      else case split_on d s of [] \<Rightarrow> [[c]] | p # ps \<Rightarrow> (c # p) # ps)"

lemma split_on_none: "d \<notin> set s \<Longrightarrow> split_on d s = [s]"
  by (induction s) auto

lemma split_on_append: "d \<notin> set s \<Longrightarrow> split_on d (s @ d # t) = s # split_on d t"
  by (induction s) auto

text \<open>\<open>str::trim\<close>, \<open>str::lines\<close> and \<open>str::split_once\<close>.\<close>

definition trim :: "str \<Rightarrow> str" where
  "trim s = rev (dropWhile is_whitespace (rev (dropWhile is_whitespace s)))"

definition strip_cr :: "str \<Rightarrow> str" where
  "strip_cr l = (if l \<noteq> [] \<and> last l = 13 then butlast l else l)"

definition lines :: "str \<Rightarrow> str list" where
  "lines s =
     (let ps = split_on 10 s in
      (if last ps = [] then map strip_cr (butlast ps) else map strip_cr (butlast ps) @ [last ps]))"

fun split_once :: "rchar \<Rightarrow> str \<Rightarrow> (str \<times> str) option" where
  "split_once d [] = None"
| "split_once d (c # s) =
     (if c = d then Some ([], s) else map_option (\<lambda>(a, b). (c # a, b)) (split_once d s))"

lemma split_once_append: "d \<notin> set s \<Longrightarrow> split_once d (s @ d # t) = Some (s, t)"
  by (induction s) auto

lemma trim_id: "s \<noteq> [] \<Longrightarrow> \<not> is_whitespace (hd s) \<Longrightarrow> \<not> is_whitespace (last s) \<Longrightarrow> trim s = s"
proof -
  assume s: "s \<noteq> []" "\<not> is_whitespace (hd s)" "\<not> is_whitespace (last s)"
  then have "dropWhile is_whitespace s = s" by (cases s) auto
  moreover have "dropWhile is_whitespace (rev s) = rev s"
    using s by (cases s rule: rev_cases) auto
  ultimately show ?thesis by (simp add: trim_def)
qed

end
