(* ===== verification/Gate.thy ===== *)
theory Gate
  imports Access Hex
begin

text \<open>
  What guards an agent (\<open>crates/agent/src/gate.rs\<close>): the portable agent's one-time
  password (\<open>password.rs\<close>) and the installed agent's access password
  (\<open>access.rs\<close>), each with its count of failures.

  The operating system's random numbers are an argument: the list of the values it will
  give. A draw that finds no usable value in that list is \<open>None\<close>. Time is in
  nanoseconds, as \<open>Instant\<close> and \<open>Duration\<close> count it.
\<close>

datatype verdict = Rejected str | Replaced str

subsection \<open>The one-time password\<close>

definition DIGITS :: nat where "DIGITS = 6"
definition MAX_FAILURES :: u32 where "MAX_FAILURES = 3"

definition LIMIT :: u32 where "LIMIT = - 1 - (- 1) mod 1000000"

primrec draw :: "u32 list \<Rightarrow> (str \<times> u32 list) option" where
  "draw [] = None"
| "draw (value # rest) =
     (if value < LIMIT then Some (digits_of DIGITS (unat (value mod 1000000)), rest) else draw rest)"

record password =
  pw_current :: str
  pw_failures :: u32
  pw_random :: "u32 list"

definition password_new :: "u32 list \<Rightarrow> password option" where
  "password_new random =
     map_option (\<lambda>(current, rest). \<lparr>pw_current = current, pw_failures = 0, pw_random = rest\<rparr>) (draw random)"

definition password_renew :: "password \<Rightarrow> (password \<times> str) option" where
  "password_renew p =
     map_option (\<lambda>(current, rest). (p\<lparr>pw_failures := 0, pw_current := current, pw_random := rest\<rparr>, current))
       (draw (pw_random p))"

definition password_secret :: "password \<Rightarrow> secret" where
  "password_secret p = OneTime"

definition password_material :: "nat \<Rightarrow> password \<Rightarrow> str + bytes" where
  "password_material now p = Inr (utf8 (pw_current p))"

definition password_accepted :: "password \<Rightarrow> password" where
  "password_accepted p = p\<lparr>pw_failures := 0\<rparr>"

definition password_rejected :: "nat \<Rightarrow> password \<Rightarrow> (password \<times> verdict) option" where
  "password_rejected now p =
     (let p1 = p\<lparr>pw_failures := pw_failures p + 1\<rparr> in
      if pw_failures p1 < MAX_FAILURES then Some (p1, Rejected (lit ''wrong password''))
      else map_option (\<lambda>(current, rest).
             (p1\<lparr>pw_failures := 0, pw_current := current, pw_random := rest\<rparr>, Replaced current))
             (draw (pw_random p1)))"

subsection \<open>The access password\<close>

definition ITERATIONS :: u32 where "ITERATIONS = 600000"
definition MIN_LENGTH :: nat where "MIN_LENGTH = 10"
definition FREE_FAILURES :: u32 where "FREE_FAILURES = 5"
definition SECOND :: nat where "SECOND = 1000000000"
definition DURATION_MAX :: nat where "DURATION_MAX = (2 ^ 64 - 1) * SECOND + 999999999"
definition FIRST_LOCKOUT :: nat where "FIRST_LOCKOUT = 30 * SECOND"
definition MAX_LOCKOUT :: nat where "MAX_LOCKOUT = 15 * 60 * SECOND"
definition SALT_LEN :: nat where "SALT_LEN = 16"

record stored =
  s_iterations :: u32
  s_salt :: str
  s_hash :: str

text \<open>\<open>derive rounds salt password\<close> is the PBKDF2 of the library the agent uses.\<close>

definition stored_with_salt ::
  "(u32 \<Rightarrow> bytes \<Rightarrow> bytes \<Rightarrow> bytes) \<Rightarrow> str \<Rightarrow> bytes \<Rightarrow> u32 \<Rightarrow> stored" where
  "stored_with_salt derive passw salt iterations =
     (let rounds = (if iterations = 0 then 1 else iterations) in
      \<lparr>s_iterations = iterations, s_salt = to_hex salt,
       s_hash = to_hex (derive rounds salt (utf8 passw))\<rparr>)"

text \<open>The salt is drawn fresh: an argument. \<open>Inl\<close> is the message of the error.\<close>

definition stored_new ::
  "(u32 \<Rightarrow> bytes \<Rightarrow> bytes \<Rightarrow> bytes) \<Rightarrow> bytes \<Rightarrow> str \<Rightarrow> str + stored" where
  "stored_new derive salt passw =
     (if length passw < MIN_LENGTH
      then Inl (lit ''the access password must be at least 10 characters'')
      else Inr (stored_with_salt derive passw salt ITERATIONS))"

definition stored_secret :: "stored \<Rightarrow> secret" where
  "stored_secret s =
     Access (case from_hex (s_salt s) of None \<Rightarrow> [] | Some salt \<Rightarrow> salt) (s_iterations s)"

definition stored_material :: "stored \<Rightarrow> bytes option" where
  "stored_material s = from_hex (s_hash s)"

record access_password =
  ap_stored :: stored
  ap_in_a_row :: u32
  ap_locked_until :: "nat option"

definition access_password_new :: "stored \<Rightarrow> access_password" where
  "access_password_new s = \<lparr>ap_stored = s, ap_in_a_row = 0, ap_locked_until = None\<rparr>"

definition lockout :: "u32 \<Rightarrow> nat option" where
  "lockout in_a_row =
     (case checked_sub in_a_row FREE_FAILURES of
        None \<Rightarrow> None
      | Some over \<Rightarrow>
          let doubled = min (FIRST_LOCKOUT * 2 ^ unat (min over 16)) DURATION_MAX in
          Some (min doubled MAX_LOCKOUT))"

definition access_secret :: "access_password \<Rightarrow> secret" where
  "access_secret a = stored_secret (ap_stored a)"

definition access_material :: "nat \<Rightarrow> access_password \<Rightarrow> str + bytes" where
  "access_material now a =
     (if (case ap_locked_until a of None \<Rightarrow> False | Some until \<Rightarrow> now < until)
      then Inl (lit ''too many wrong passwords; try again later'')
      else case stored_material (ap_stored a) of
             None \<Rightarrow> Inl (lit ''this device's access password cannot be read'')
           | Some m \<Rightarrow> Inr m)"

definition access_accepted :: "access_password \<Rightarrow> access_password" where
  "access_accepted a = a\<lparr>ap_in_a_row := 0, ap_locked_until := None\<rparr>"

definition access_rejected :: "nat \<Rightarrow> access_password \<Rightarrow> (access_password \<times> verdict) option" where
  "access_rejected now a =
     (let a1 = a\<lparr>ap_in_a_row := ap_in_a_row a + 1\<rparr> in
      Some (a1\<lparr>ap_locked_until := map_option (\<lambda>d. now + d) (lockout (ap_in_a_row a1))\<rparr>,
            Rejected (lit ''wrong password'')))"

subsection \<open>Wrong guesses\<close>

text \<open>A run of wrong guesses, one per time of \<open>ts\<close>: each is let into an exchange and rejected.
  \<open>None\<close> when one of them is not let in, or when the password was replaced.\<close>

primrec wrong_guesses ::
  "(nat \<Rightarrow> 's \<Rightarrow> str + bytes) \<Rightarrow> (nat \<Rightarrow> 's \<Rightarrow> ('s \<times> verdict) option) \<Rightarrow> nat list \<Rightarrow> 's \<Rightarrow> 's option" where
  "wrong_guesses mat rej [] s = Some s"
| "wrong_guesses mat rej (now # ts) s =
     (case mat now s of
        Inl _ \<Rightarrow> None
      | Inr _ \<Rightarrow>
          (case rej now s of
             Some (s', Rejected _) \<Rightarrow> wrong_guesses mat rej ts s'
           | _ \<Rightarrow> None))"

text \<open>The contract of a gate: failures are counted and forgotten on success, and once
  \<open>limit\<close> of them are reached the next guess is not let in, or replaces the password.\<close>

locale gate =
  fixes material :: "nat \<Rightarrow> 's \<Rightarrow> str + bytes"
    and accepted :: "'s \<Rightarrow> 's"
    and rejected :: "nat \<Rightarrow> 's \<Rightarrow> ('s \<times> verdict) option"
    and failures :: "'s \<Rightarrow> nat"
    and limit :: nat
  assumes accepted_failures: "failures (accepted s) = 0"
    and accepted_material: "material now (accepted s) = material later (accepted s)"
    and rejected_count: "rejected now s = Some (s', Rejected why) \<Longrightarrow> failures s < limit \<Longrightarrow>
      failures s' = Suc (failures s)"
    and rejected_replaced: "rejected now s = Some (s', Replaced fresh) \<Longrightarrow>
      failures s' = 0 \<and> material now s' = Inr (utf8 fresh)"
    and rejected_shut: "rejected now s = Some (s', Rejected why) \<Longrightarrow> failures s' = limit \<Longrightarrow>
      (\<exists>e. material now s' = Inl e) \<or>
      (\<forall>s'' v. rejected now s' = Some (s'', v) \<longrightarrow> (\<exists>fresh. v = Replaced fresh))"
begin

lemma guesses_limited:
  assumes "wrong_guesses material rejected (replicate n now) s = Some s'" and "failures s < limit"
  shows "failures s + n \<le> limit"
  using assms
proof (induction n arbitrary: s)
  case 0
  then show ?case by simp
next
  case (Suc n)
  from Suc.prems(1) obtain s1 why where step: "rejected now s = Some (s1, Rejected why)"
    and rest: "wrong_guesses material rejected (replicate n now) s1 = Some s'"
    by (auto split: sum.splits option.splits verdict.splits)
  have count: "failures s1 = Suc (failures s)" using rejected_count [OF step Suc.prems(2)] .
  show ?case
  proof (cases "failures s1 < limit")
    case True
    then show ?thesis using Suc.IH [OF rest] count by simp
  next
    case False
    then have full: "failures s1 = limit" using count Suc.prems(2) by simp
    have "n = 0"
    proof (rule ccontr)
      assume "n \<noteq> 0"
      then obtain m where "n = Suc m" by (cases n) auto
      then show False using rest rejected_shut [OF step full]
        by (auto split: sum.splits option.splits verdict.splits)
    qed
    then show ?thesis using full count by simp
  qed
qed

end

subsection \<open>The one-time password is a gate\<close>

interpretation one_time: gate password_material password_accepted password_rejected
  "\<lambda>p. unat (pw_failures p)" 2
proof
  fix s s' :: password and now later :: nat and why fresh
  show "unat (pw_failures (password_accepted s)) = 0" by (simp add: password_accepted_def)
  show "password_material now (password_accepted s) = password_material later (password_accepted s)"
    by (simp add: password_material_def)
  show "password_rejected now s = Some (s', Rejected why) \<Longrightarrow> unat (pw_failures s) < 2 \<Longrightarrow>
      unat (pw_failures s') = Suc (unat (pw_failures s))"
    by (auto simp: password_rejected_def Let_def unat_word_ariths split: if_splits)
  show "password_rejected now s = Some (s', Replaced fresh) \<Longrightarrow>
      unat (pw_failures s') = 0 \<and> password_material now s' = Inr (utf8 fresh)"
    by (auto simp: password_rejected_def password_material_def Let_def split: if_splits)
  show "password_rejected now s = Some (s', Rejected why) \<Longrightarrow> unat (pw_failures s') = 2 \<Longrightarrow>
      (\<exists>e. password_material now s' = Inl e) \<or>
      (\<forall>s'' v. password_rejected now s' = Some (s'', v) \<longrightarrow> (\<exists>fresh. v = Replaced fresh))"
    by (auto simp: password_rejected_def Let_def MAX_FAILURES_def word_less_nat_alt unat_word_ariths
        split: if_splits)
qed

subsection \<open>The access password is a gate\<close>

lemma lockout_eq:
  "lockout n = (if unat n < 5 then None else Some (min (30 * SECOND * 2 ^ (unat n - 5)) (900 * SECOND)))"
proof (cases "unat n < 5")
  case True
  then show ?thesis by (simp add: lockout_def checked_sub_def FREE_FAILURES_def word_less_nat_alt)
next
  case False
  define k where "k = unat n - 5"
  have over: "checked_sub n FREE_FAILURES = Some (n - 5)" and k: "unat (n - 5) = k"
    using False by (simp_all add: checked_sub_def FREE_FAILURES_def word_less_nat_alt k_def unat_sub word_le_nat_alt)
  have m: "unat (min (n - 5) 16) = min k 16"
    using k by (simp add: min_def word_le_nat_alt)
  have big: "900 * SECOND \<le> 30 * SECOND * 2 ^ j" if "5 \<le> j" for j
  proof -
    have "(2 :: nat) ^ 5 \<le> 2 ^ j" using that by (rule power_increasing) simp
    then have "SECOND * 32 * 30 \<le> SECOND * 2 ^ j * 30" by simp
    then show ?thesis by (simp add: mult_ac SECOND_def)
  qed
  have small: "30 * SECOND * 2 ^ min k 16 \<le> DURATION_MAX"
  proof -
    have "(2 :: nat) ^ min k 16 \<le> 2 ^ 16" by (rule power_increasing) simp_all
    then show ?thesis by (simp add: SECOND_def DURATION_MAX_def)
  qed
  have "min (30 * SECOND * 2 ^ min k 16) (900 * SECOND) = min (30 * SECOND * 2 ^ k) (900 * SECOND)"
  proof (cases "k \<le> 16")
    case False
    then show ?thesis using big [of 16] big [of k] by simp
  qed (simp add: min_def)
  then show ?thesis using False over m small
    by (simp add: lockout_def FIRST_LOCKOUT_def MAX_LOCKOUT_def k_def [symmetric] min_absorb1)
qed

interpretation access_gate: gate access_material access_accepted access_rejected
  "\<lambda>a. unat (ap_in_a_row a)" 5
proof
  fix s s' :: access_password and now later :: nat and why fresh
  show "unat (ap_in_a_row (access_accepted s)) = 0" by (simp add: access_accepted_def)
  show "access_material now (access_accepted s) = access_material later (access_accepted s)"
    by (simp add: access_material_def access_accepted_def)
  show "access_rejected now s = Some (s', Rejected why) \<Longrightarrow> unat (ap_in_a_row s) < 5 \<Longrightarrow>
      unat (ap_in_a_row s') = Suc (unat (ap_in_a_row s))"
    by (auto simp: access_rejected_def Let_def unat_word_ariths)
  show "access_rejected now s = Some (s', Replaced fresh) \<Longrightarrow>
      unat (ap_in_a_row s') = 0 \<and> access_material now s' = Inr (utf8 fresh)"
    by (simp add: access_rejected_def Let_def)
  show "access_rejected now s = Some (s', Rejected why) \<Longrightarrow> unat (ap_in_a_row s') = 5 \<Longrightarrow>
      (\<exists>e. access_material now s' = Inl e) \<or>
      (\<forall>s'' v. access_rejected now s' = Some (s'', v) \<longrightarrow> (\<exists>fresh. v = Replaced fresh))"
    by (auto simp: access_rejected_def Let_def access_material_def lockout_eq SECOND_def)
qed

lemma access_rejected_eq:
  "access_rejected now a =
     Some (a\<lparr>ap_in_a_row := ap_in_a_row a + 1,
             ap_locked_until := map_option (\<lambda>d. now + d) (lockout (ap_in_a_row a + 1))\<rparr>,
           Rejected (lit ''wrong password''))"
  by (simp add: access_rejected_def Let_def)

text \<open>Past the free failures, every further guess waits out a lockout.\<close>

lemma access_guesses_wait:
  assumes "wrong_guesses access_material access_rejected ts a = Some a'"
    and "unat (ap_in_a_row a) + length ts < 2 ^ 32"
    and "unat (ap_in_a_row a) \<ge> 5 \<Longrightarrow> ap_locked_until a = Some until"
    and "ts \<noteq> []"
  shows "(unat (ap_in_a_row a) \<ge> 5 \<longrightarrow> until \<le> hd ts) \<and>
    (\<forall>k. 0 < k \<longrightarrow> k < length ts \<longrightarrow> 5 \<le> unat (ap_in_a_row a) + k \<longrightarrow>
      ts ! (k - 1) + min (30 * SECOND * 2 ^ (unat (ap_in_a_row a) + k - 5)) (900 * SECOND) \<le> ts ! k)"
  using assms
proof (induction ts arbitrary: a until)
  case Nil
  then show ?case by simp
next
  case (Cons now ts)
  let ?n = "unat (ap_in_a_row a)"
  obtain m where m: "access_material now a = Inr m"
    using Cons.prems(1) by (auto split: sum.splits)
  let ?a = "a\<lparr>ap_in_a_row := ap_in_a_row a + 1,
    ap_locked_until := map_option (\<lambda>d. now + d) (lockout (ap_in_a_row a + 1))\<rparr>"
  have rest: "wrong_guesses access_material access_rejected ts ?a = Some a'"
    using Cons.prems(1) m access_rejected_eq [of now a] by simp
  have open_now: "?n \<ge> 5 \<longrightarrow> until \<le> now"
    using m Cons.prems(3) by (auto simp: access_material_def split: if_splits)
  have n': "unat (ap_in_a_row a + 1) = Suc ?n"
    using Cons.prems(2) by (simp add: unat_word_ariths)
  show ?case
  proof (cases ts)
    case Nil
    then show ?thesis using open_now by simp
  next
    case (Cons t ts')
    let ?until = "now + min (30 * SECOND * 2 ^ (Suc ?n - 5)) (900 * SECOND)"
    have locked: "unat (ap_in_a_row ?a) \<ge> 5 \<Longrightarrow> ap_locked_until ?a = Some ?until"
      using n' by (simp add: lockout_eq)
    have IH: "(unat (ap_in_a_row ?a) \<ge> 5 \<longrightarrow> ?until \<le> hd ts) \<and>
      (\<forall>k. 0 < k \<longrightarrow> k < length ts \<longrightarrow> 5 \<le> unat (ap_in_a_row ?a) + k \<longrightarrow>
        ts ! (k - 1) + min (30 * SECOND * 2 ^ (unat (ap_in_a_row ?a) + k - 5)) (900 * SECOND) \<le> ts ! k)"
      using Cons.prems(2) n' Cons
      by (intro Cons.IH [OF rest _ locked]) simp_all
    have "(now # ts) ! (k - 1) + min (30 * SECOND * 2 ^ (?n + k - 5)) (900 * SECOND) \<le> (now # ts) ! k"
      if k: "0 < k" "k < length (now # ts)" "5 \<le> ?n + k" for k
    proof (cases "k = 1")
      case True
      then show ?thesis using IH k n' Cons by simp
    next
      case False
      then obtain j where j: "k = Suc j" "0 < j" using k(1) by (cases k) auto
      then show ?thesis using IH k n' by (cases j) auto
    qed
    then show ?thesis using open_now by simp
  qed
qed

subsection \<open>Drawing a password\<close>

lemma draw_digits:
  "draw random = Some (p, rest) \<Longrightarrow>
   \<exists>v\<in>set random. v < LIMIT \<and> p = digits_of 6 (unat v mod 1000000)"
  by (induction random) (auto simp: DIGITS_def unat_mod split: if_splits)

lemma LIMIT_unat: "unat LIMIT = 4294 * 1000000"
  by (simp add: LIMIT_def)

lemma draw_uniform:
  assumes "k < 1000000"
  shows "card {v :: u32. v < LIMIT \<and> unat v mod 1000000 = k} = 4294"
proof -
  have "bij_betw unat {v :: u32. v < LIMIT \<and> unat v mod 1000000 = k} ((\<lambda>j. j * 1000000 + k) ` {..<4294})"
  proof (rule bij_betw_imageI)
    show "inj_on unat {v :: u32. v < LIMIT \<and> unat v mod 1000000 = k}"
      by (simp add: inj_on_def word_unat_eq_iff)
    show "unat ` {v :: u32. v < LIMIT \<and> unat v mod 1000000 = k} = (\<lambda>j. j * 1000000 + k) ` {..<4294}"
    proof (intro equalityI subsetI)
      fix n assume "n \<in> unat ` {v :: u32. v < LIMIT \<and> unat v mod 1000000 = k}"
      then have "n < 4294 * 1000000" "n mod 1000000 = k"
        unfolding word_less_nat_alt LIMIT_unat by auto
      then have "n = n div 1000000 * 1000000 + k" "n div 1000000 < 4294"
        by (simp_all add: div_less_iff_less_mult) (metis div_mult_mod_eq mult.commute)?
      then show "n \<in> (\<lambda>j. j * 1000000 + k) ` {..<4294}" by blast
    next
      fix n assume "n \<in> (\<lambda>j. j * 1000000 + k) ` {..<4294}"
      then obtain j where j: "j < 4294" "n = j * 1000000 + k" by blast
      then have n: "n < 4294 * 1000000" using assms by simp
      then have u: "unat (word_of_nat n :: u32) = n" by (simp add: unat_of_nat take_bit_eq_mod)
      moreover have "n mod 1000000 = k" using j(2) assms by simp
      moreover have "(word_of_nat n :: u32) < LIMIT" unfolding word_less_nat_alt u LIMIT_unat by (rule n)
      ultimately show "n \<in> unat ` {v :: u32. v < LIMIT \<and> unat v mod 1000000 = k}"
        by (intro image_eqI [of _ _ "word_of_nat n"]) auto
    qed
  qed
  then have "card {v :: u32. v < LIMIT \<and> unat v mod 1000000 = k} = card ((\<lambda>j. j * 1000000 + k) ` {..<4294 :: nat})"
    by (rule bij_betw_same_card)
  also have "\<dots> = 4294" by (subst card_image) (auto simp: inj_on_def)
  finally show ?thesis .
qed

subsection \<open>What the agent stores is what the viewer arrives at\<close>

lemma stored_agrees:
  assumes "stored_new derive salt passw = Inr s" and "length salt = SALT_LEN"
    and "\<And>n salt p. derive n salt p = pbkdf2_hmac C p salt n"
  shows "material C (stored_secret s) passw = Inr (pbkdf2_hmac C (utf8 passw) salt ITERATIONS)"
    and "stored_material s = Some (pbkdf2_hmac C (utf8 passw) salt ITERATIONS)"
proof -
  have s: "s = stored_with_salt derive passw salt ITERATIONS"
    using assms(1) by (simp add: stored_new_def split: if_splits)
  have "salt \<noteq> []" "length salt \<le> MAX_SALT" using assms(2) by (auto simp: SALT_LEN_def MAX_SALT_def)
  then show "material C (stored_secret s) passw = Inr (pbkdf2_hmac C (utf8 passw) salt ITERATIONS)"
    by (simp add: s stored_with_salt_def stored_secret_def from_to_hex ITERATIONS_def MAX_ITERATIONS_def)
  show "stored_material s = Some (pbkdf2_hmac C (utf8 passw) salt ITERATIONS)"
    by (simp add: s stored_with_salt_def stored_material_def from_to_hex ITERATIONS_def assms(3))
qed

end
