(* ===== verification/Access_Exchange.thy ===== *)
theory Access_Exchange
  imports Gate
begin

text \<open>
  The password exchange end to end. Both sides that hold the same password on the same
  connection accept each other; a side that accepts has the other's view of the messages and
  of the connection, or else a collision of the MAC has been found; and the gates bound how
  often a stranger may guess.
\<close>

subsection \<open>The transcript\<close>

lemma framed_inj:
  assumes "to_be_bytes 4 (length a) @ a @ r = to_be_bytes 4 (length a') @ a' @ r'"
    and "length a < 2 ^ 32" and "length a' < 2 ^ 32"
  shows "a = a' \<and> r = r'"
proof -
  have "to_be_bytes 4 (length a) = to_be_bytes 4 (length a')" and rest: "a @ r = a' @ r'"
    using assms(1) by simp_all
  then have "length a = length a'"
    using to_be_bytes_inj [of "length a" 4 "length a'"] assms(2,3) by simp
  then show ?thesis using rest by simp
qed

lemma transcript_inj:
  assumes "transcript v a b = transcript v' a' b'"
    and "length v < 2 ^ 32" "length a < 2 ^ 32" "length b < 2 ^ 32"
    and "length v' < 2 ^ 32" "length a' < 2 ^ 32" "length b' < 2 ^ 32"
  shows "v = v' \<and> a = a' \<and> b = b'"
proof -
  have 1: "to_be_bytes 4 (length v) @ v @ to_be_bytes 4 (length a) @ a @ to_be_bytes 4 (length b) @ b @ [] =
    to_be_bytes 4 (length v') @ v' @ to_be_bytes 4 (length a') @ a' @ to_be_bytes 4 (length b') @ b' @ []"
    using assms(1) by (simp add: transcript_def)
  have 2: "v = v' \<and> to_be_bytes 4 (length a) @ a @ to_be_bytes 4 (length b) @ b @ [] =
      to_be_bytes 4 (length a') @ a' @ to_be_bytes 4 (length b') @ b' @ []"
    using framed_inj [OF 1] assms by blast
  then have 3: "a = a' \<and> to_be_bytes 4 (length b) @ b @ [] = to_be_bytes 4 (length b') @ b' @ []"
    using framed_inj assms by blast
  then have "b = b'" using framed_inj [of b "[]" b' "[]"] assms by blast
  with 2 3 show ?thesis by blast
qed

subsection \<open>What the cryptography documents\<close>

text \<open>HKDF-SHA256 expands to every length up to 8160.\<close>

definition hkdf_expands :: "('prk, 'st) crypto \<Rightarrow> bool" where
  "hkdf_expands C \<longleftrightarrow>
     (\<forall>prk info n. n \<le> 8160 \<longrightarrow> (\<exists>bs. hkdf_expand C prk info n = Some bs \<and> length bs = n))"

text \<open>SPAKE2: two halves with the same password and identities arrive at the same key.\<close>

definition spake_agrees :: "('prk, 'st) crypto \<Rightarrow> bool" where
  "spake_agrees C \<longleftrightarrow>
     (\<forall>mat ida idb rng rng'.
        \<exists>key. spake_finish C (fst (spake_start_a C mat ida idb rng)) (snd (spake_start_b C mat ida idb rng')) = Some key \<and>
              spake_finish C (fst (spake_start_b C mat ida idb rng')) (snd (spake_start_a C mat ida idb rng)) = Some key)"

text \<open>A MAC collision: two different transcripts with the same proof, under the keys that two
  SPAKE2 keys and bindings give.\<close>

definition mac_collision ::
  "('prk, 'st) crypto \<Rightarrow> bytes \<Rightarrow> bytes \<Rightarrow> bytes \<Rightarrow> bytes \<Rightarrow> bytes \<Rightarrow> bytes \<Rightarrow> bool" where
  "mac_collision C key b t key' b' t' \<longleftrightarrow>
     t \<noteq> t' \<and> (\<exists>whose\<in>{VIEWER_PROOF, AGENT_PROOF}. proof_of C key b whose t = proof_of C key' b' whose t')"

lemma proof_of_some: "hkdf_expands C \<Longrightarrow> \<exists>p. proof_of C key binding whose script = Some p"
proof -
  assume "hkdf_expands C"
  then obtain mk where "hkdf_expand C (hkdf_new C (Some binding) key) whose 32 = Some mk"
    unfolding hkdf_expands_def by (meson numeral_le_iff semiring_norm(68) semiring_norm(69) semiring_norm(71) semiring_norm(72))
  then show ?thesis by (simp add: proof_of_def)
qed

lemma same_iff [simp]: "same a b = Inr u \<longleftrightarrow> a = b" "same a b = Inl e \<longleftrightarrow> a \<noteq> b \<and> e = NoMatch"
  by (auto simp: same_def)

lemma agent_check_iff: "agent_check a p = Inr q \<longleftrightarrow> p = ah_theirs a \<and> q = ah_ours a"
  by (auto simp: agent_check_def same_def)

subsection \<open>Both halves\<close>

lemma viewer_prove_cases:
  assumes "viewer_prove C v theirs = Some (Inr (p, ours))"
  obtains key where "spake_finish C (vh_state v) theirs = Some key"
    "proof_of C key (vh_binding v) VIEWER_PROOF (transcript (vh_ours v) theirs (vh_binding v)) = Some ours"
    "proof_of C key (vh_binding v) AGENT_PROOF (transcript (vh_ours v) theirs (vh_binding v)) = Some (pr_theirs p)"
  using assms by (auto simp: viewer_prove_def Let_def split: option.splits)

lemma agent_answer_cases:
  assumes "agent_answer C mat binding seed theirs = Some (Inr (a, ours))"
  obtains st key where "spake_start_b C mat VIEWER AGENT (stream_new C seed) = (st, ours)"
    "spake_finish C st theirs = Some key"
    "proof_of C key binding VIEWER_PROOF (transcript theirs ours binding) = Some (ah_theirs a)"
    "proof_of C key binding AGENT_PROOF (transcript theirs ours binding) = Some (ah_ours a)"
  using assms by (auto simp: agent_answer_def Let_def split: option.splits prod.splits)

lemma exchange_completes:
  assumes "hkdf_expands C" and "spake_agrees C"
    and start: "viewer_start C mat binding seed = (v, to_agent)"
  shows "\<exists>a to_viewer p vp ap. agent_answer C mat binding seed' to_agent = Some (Inr (a, to_viewer)) \<and>
    viewer_prove C v to_viewer = Some (Inr (p, vp)) \<and> agent_check a vp = Inr ap \<and> proven_check p ap = Inr ()"
proof -
  let ?A = "spake_start_a C mat VIEWER AGENT (stream_new C seed)"
  let ?B = "spake_start_b C mat VIEWER AGENT (stream_new C seed')"
  obtain key where key: "spake_finish C (fst ?A) (snd ?B) = Some key" "spake_finish C (fst ?B) (snd ?A) = Some key"
    using assms(2) unfolding spake_agrees_def by blast
  have v: "vh_state v = fst ?A" "vh_binding v = binding" "vh_ours v = snd ?A" "to_agent = snd ?A"
    using start by (auto simp: viewer_start_def split: prod.splits)
  let ?t = "transcript (snd ?A) (snd ?B) binding"
  obtain vp ap where vp: "proof_of C key binding VIEWER_PROOF ?t = Some vp"
    and ap: "proof_of C key binding AGENT_PROOF ?t = Some ap"
    using proof_of_some [OF assms(1)] by metis
  have "agent_answer C mat binding seed' to_agent = Some (Inr (\<lparr>ah_theirs = vp, ah_ours = ap\<rparr>, snd ?B))"
    using key(2) v(4) vp ap by (simp add: agent_answer_def split_def)
  moreover have "viewer_prove C v (snd ?B) = Some (Inr (\<lparr>pr_theirs = ap\<rparr>, vp))"
    using key(1) v vp ap by (simp add: viewer_prove_def)
  ultimately show ?thesis by (fastforce simp: agent_check_def proven_check_def same_def)
qed

text \<open>The keys the two halves arrived at.\<close>

definition viewer_key :: "('prk, 'st) crypto \<Rightarrow> bytes \<Rightarrow> bytes \<Rightarrow> bytes \<Rightarrow> bytes option" where
  "viewer_key C mat seed from_agent =
     spake_finish C (fst (spake_start_a C mat VIEWER AGENT (stream_new C seed))) from_agent"

definition agent_key :: "('prk, 'st) crypto \<Rightarrow> bytes \<Rightarrow> bytes \<Rightarrow> bytes \<Rightarrow> bytes option" where
  "agent_key C mat seed from_viewer =
     spake_finish C (fst (spake_start_b C mat VIEWER AGENT (stream_new C seed))) from_viewer"

lemma accepted_same_view:
  assumes v: "viewer_start C mat b seed = (v, to_agent)" "viewer_prove C v from_agent = Some (Inr (p, vp))"
    and a: "agent_answer C mat' b' seed' from_viewer = Some (Inr (a, to_viewer))"
    and accept: "agent_check a vp = Inr ap \<or> proven_check p (ah_ours a) = Inr ()"
    and small: "\<forall>m\<in>{to_agent, from_agent, b, from_viewer, to_viewer, b'}. length m < 2 ^ 32"
  shows "(to_agent = from_viewer \<and> from_agent = to_viewer \<and> b = b') \<or>
    (\<exists>key key'. viewer_key C mat seed from_agent = Some key \<and> agent_key C mat' seed' from_viewer = Some key' \<and>
      mac_collision C key b (transcript to_agent from_agent b) key' b' (transcript from_viewer to_viewer b'))"
proof -
  have vh: "vh_binding v = b" "vh_ours v = to_agent"
      "vh_state v = fst (spake_start_a C mat VIEWER AGENT (stream_new C seed))"
    using v(1) by (auto simp: viewer_start_def split: prod.splits)
  from v(2) obtain key where key: "viewer_key C mat seed from_agent = Some key"
    "proof_of C key b VIEWER_PROOF (transcript to_agent from_agent b) = Some vp"
    "proof_of C key b AGENT_PROOF (transcript to_agent from_agent b) = Some (pr_theirs p)"
    by (rule viewer_prove_cases) (simp_all add: vh viewer_key_def)
  from a obtain key' where key': "agent_key C mat' seed' from_viewer = Some key'"
    "proof_of C key' b' VIEWER_PROOF (transcript from_viewer to_viewer b') = Some (ah_theirs a)"
    "proof_of C key' b' AGENT_PROOF (transcript from_viewer to_viewer b') = Some (ah_ours a)"
    by (rule agent_answer_cases) (simp_all add: agent_key_def)
  have "vp = ah_theirs a \<or> pr_theirs p = ah_ours a"
    using accept unfolding agent_check_iff proven_check_def same_iff by blast
  then have "transcript to_agent from_agent b = transcript from_viewer to_viewer b' \<or>
      mac_collision C key b (transcript to_agent from_agent b) key' b' (transcript from_viewer to_viewer b')"
    using key key' by (auto simp: mac_collision_def)
  then show ?thesis using key(1) key'(1) transcript_inj small by blast
qed

subsection \<open>An instance of the cryptography for the witnesses\<close>

definition demo_crypto :: "(unit, bytes) crypto" where
  "demo_crypto =
     \<lparr>pbkdf2_hmac = (\<lambda>p salt n. p @ salt), hkdf_new = (\<lambda>salt key. ()),
      hkdf_expand = (\<lambda>prk info n. if n \<le> 8160 then Some (replicate n 7) else None),
      hmac = (\<lambda>key m. m),
      spake_start_a = (\<lambda>mat ida idb rng. (mat, mat)), spake_start_b = (\<lambda>mat ida idb rng. (mat, mat)),
      spake_finish = (\<lambda>st m. Some m)\<rparr>"

lemma demo_crypto_ok: "hkdf_expands demo_crypto" "spake_agrees demo_crypto"
  by (simp_all add: hkdf_expands_def spake_agrees_def demo_crypto_def)

lemma demo_proof_of: "proof_of demo_crypto key b whose t = Some t"
  by (simp add: proof_of_def demo_crypto_def)

lemma demo_viewer_start:
  "viewer_start demo_crypto [1] [2] [3] = (\<lparr>vh_state = [1], vh_binding = [2], vh_ours = [1]\<rparr>, [1])"
  by (simp add: viewer_start_def demo_crypto_def)

lemma demo_viewer_prove:
  "viewer_prove demo_crypto \<lparr>vh_state = [1], vh_binding = [2], vh_ours = [1]\<rparr> [1] =
     Some (Inr (\<lparr>pr_theirs = transcript [1] [1] [2]\<rparr>, transcript [1] [1] [2]))"
proof -
  have "spake_finish demo_crypto [1] [1] = Some [1]" by (simp add: demo_crypto_def)
  then show ?thesis by (simp add: viewer_prove_def demo_proof_of Let_def)
qed

lemma demo_agent_answer:
  "agent_answer demo_crypto [1] [2] [4] [1] =
     Some (Inr (\<lparr>ah_theirs = transcript [1] [1] [2], ah_ours = transcript [1] [1] [2]\<rparr>, [1]))"
proof -
  have "spake_start_b demo_crypto [1] VIEWER AGENT rng = ([1], [1])"
    "spake_finish demo_crypto [1] [1] = Some [1]" for rng by (simp_all add: demo_crypto_def)
  then show ?thesis by (simp add: agent_answer_def demo_proof_of Let_def)
qed

subsection \<open>The exchange\<close>

text \<open>Viewer and agent that run the exchange with the same material and the same channel
  binding accept each other: every message is answered, no step panics, and both proofs are
  taken.\<close>

theorem exchange_succeeds:
  assumes "hkdf_expands C" and "spake_agrees C" and "viewer_start C mat binding seed = (v, to_agent)"
  shows "\<exists>a to_viewer p vp ap. agent_answer C mat binding seed' to_agent = Some (Inr (a, to_viewer)) \<and>
    viewer_prove C v to_viewer = Some (Inr (p, vp)) \<and> agent_check a vp = Inr ap \<and> proven_check p ap = Inr ()"
  using exchange_completes [OF assms] .

theorem exchange_succeeds_witness:
  "\<exists>a to_viewer p vp ap. agent_answer demo_crypto [1] [2] [4] [1] = Some (Inr (a, to_viewer)) \<and>
    viewer_prove demo_crypto \<lparr>vh_state = [1], vh_binding = [2], vh_ours = [1]\<rparr> to_viewer = Some (Inr (p, vp)) \<and>
    agent_check a vp = Inr ap \<and> proven_check p ap = Inr ()"
  by (rule exchange_succeeds [OF demo_crypto_ok demo_viewer_start])

text \<open>C25. Nobody sits in the middle: when either side accepts the other's proof, both saw the
  same two messages and have the same channel binding, or the run has produced two different
  transcripts with the same MAC. Messages may have been altered on the way and the passwords
  may differ.\<close>

theorem acceptance_binds_the_connection:
  assumes "viewer_start C mat b seed = (v, to_agent)" and "viewer_prove C v from_agent = Some (Inr (p, vp))"
    and "agent_answer C mat' b' seed' from_viewer = Some (Inr (a, to_viewer))"
    and "agent_check a vp = Inr ap \<or> proven_check p (ah_ours a) = Inr ()"
    and "\<forall>m\<in>{to_agent, from_agent, b, from_viewer, to_viewer, b'}. length m < 2 ^ 32"
  shows "(to_agent = from_viewer \<and> from_agent = to_viewer \<and> b = b') \<or>
    (\<exists>key key'. viewer_key C mat seed from_agent = Some key \<and> agent_key C mat' seed' from_viewer = Some key' \<and>
      mac_collision C key b (transcript to_agent from_agent b) key' b' (transcript from_viewer to_viewer b'))"
  using accepted_same_view [OF assms] .

theorem acceptance_binds_the_connection_witness:
  "([1] = [1 :: u8] \<and> [1] = [1 :: u8] \<and> [2] = [2 :: u8]) \<or>
    (\<exists>key key'. viewer_key demo_crypto [1] [3] [1] = Some key \<and> agent_key demo_crypto [1] [4] [1] = Some key' \<and>
      mac_collision demo_crypto key [2] (transcript [1] [1] [2]) key' [2] (transcript [1] [1] [2]))"
  by (rule acceptance_binds_the_connection [OF demo_viewer_start demo_viewer_prove demo_agent_answer,
        where ap = "transcript [1] [1] [2]"])
    (simp_all add: agent_check_def same_def)

text \<open>The password set at install opens the agent: what the viewer stretches from the
  typed password with the salt and the iterations the agent announces is what the agent
  stored. The viewer does not refuse the stretch.\<close>

theorem access_password_agrees:
  assumes "stored_new derive salt passw = Inr s" and "length salt = SALT_LEN"
    and "\<forall>n salt p. derive n salt p = pbkdf2_hmac C p salt n"
  shows "\<exists>m. material C (access_secret (access_password_new s)) passw = Inr m \<and>
    access_material now (access_password_new s) = Inr m"
  using stored_agrees [OF assms(1,2), of C] assms(3)
  by (simp add: access_secret_def access_material_def access_password_new_def)

theorem access_password_agrees_witness:
  "\<exists>s m. stored_new (\<lambda>n salt p. p @ salt) (replicate 16 5) (lit ''correct horse'') = Inr s \<and>
    material demo_crypto (access_secret (access_password_new s)) (lit ''correct horse'') = Inr m \<and>
    access_material 0 (access_password_new s) = Inr m"
proof -
  obtain s where s: "stored_new (\<lambda>n salt p. p @ salt) (replicate 16 5) (lit ''correct horse'') = Inr s"
    by (simp add: stored_new_def MIN_LENGTH_def lit_def)
  have "\<exists>m. material demo_crypto (access_secret (access_password_new s)) (lit ''correct horse'') = Inr m \<and>
    access_material 0 (access_password_new s) = Inr m"
    by (rule access_password_agrees [OF s]) (simp_all add: SALT_LEN_def demo_crypto_def)
  with s show ?thesis by blast
qed

subsection \<open>Guessing\<close>

text \<open>A one-time password survives at most two wrong guesses: the third replaces it.\<close>

theorem one_time_guesses:
  assumes "wrong_guesses password_material password_rejected (replicate n now) p = Some p'"
    and "pw_failures p = 0"
  shows "n \<le> 2"
  using one_time.guesses_limited [OF assms(1)] assms(2) by simp

definition demo_password :: password where
  "demo_password = \<lparr>pw_current = lit ''482913'', pw_failures = 0, pw_random = [1]\<rparr>"

theorem one_time_guesses_witness: "\<exists>p'. wrong_guesses password_material password_rejected (replicate 2 0) demo_password = Some p' \<and> (2 :: nat) \<le> 2"
proof -
  obtain p' where "wrong_guesses password_material password_rejected (replicate 2 0) demo_password = Some p'"
    by (simp add: demo_password_def password_material_def password_rejected_def replicate_two MAX_FAILURES_def Let_def)
  then show ?thesis using one_time_guesses [of 2 0 demo_password p'] by (simp add: demo_password_def)
qed

text \<open>C26. Guessing the access password: five wrong guesses are free, and after the k-th wrong
  guess in a row the next one that is let in comes at least 30 seconds later, doubled with each
  further guess up to 15 minutes.\<close>

theorem access_guesses_spaced:
  assumes "wrong_guesses access_material access_rejected ts a = Some a'"
    and "ap_in_a_row a = 0" and "length ts < 2 ^ 32" and "5 \<le> k" and "k < length ts"
  shows "ts ! (k - 1) + min (30 * SECOND * 2 ^ (k - 5)) (15 * 60 * SECOND) \<le> ts ! k"
proof -
  have "ts \<noteq> []" using assms(5) by auto
  then show ?thesis using access_guesses_wait [OF assms(1)] assms(2-5) by fastforce
qed

definition demo_access :: access_password where
  "demo_access = access_password_new \<lparr>s_iterations = 600000, s_salt = [48, 48], s_hash = [48, 48]\<rparr>"

theorem access_guesses_spaced_witness:
  "\<exists>a'. wrong_guesses access_material access_rejected [0, 0, 0, 0, 0, 30 * SECOND] demo_access = Some a' \<and>
     [0, 0, 0, 0, 0, 30 * SECOND] ! (5 - 1) + min (30 * SECOND * 2 ^ (5 - 5)) (15 * 60 * SECOND) \<le>
       [0, 0, 0, 0, 0, 30 * SECOND] ! 5"
proof -
  have "stored_material (ap_stored demo_access) = Some [0]"
    by (simp add: demo_access_def access_password_new_def stored_material_def from_hex_def
        utf8_char_def hex_pair_def hex_value_def)
  then obtain a' where a': "wrong_guesses access_material access_rejected [0, 0, 0, 0, 0, 30 * SECOND] demo_access = Some a'"
    by (simp add: access_material_def access_rejected_eq lockout_eq demo_access_def access_password_new_def)
  show ?thesis
  proof (intro exI conjI)
    show "wrong_guesses access_material access_rejected [0, 0, 0, 0, 0, 30 * SECOND] demo_access = Some a'" by (rule a')
    show "[0, 0, 0, 0, 0, 30 * SECOND] ! (5 - 1) + min (30 * SECOND * 2 ^ (5 - 5)) (15 * 60 * SECOND) \<le>
       [0, 0, 0, 0, 0, 30 * SECOND] ! 5"
      by (rule access_guesses_spaced [OF a']) (simp_all add: demo_access_def access_password_new_def)
  qed
qed

text \<open>Every one-time password is equally likely: a drawn password is the six digits of the
  first usable random value, and each of the million passwords has 4294 usable values.\<close>

theorem draw_is_uniform:
  assumes "k < 1000000"
  shows "card {v. \<forall>rest. draw (v # rest) = Some (digits_of 6 k, rest)} = 4294"
proof -
  have "(\<forall>rest. draw (v # rest) = Some (digits_of 6 k, rest)) \<longleftrightarrow> v < LIMIT \<and> unat v mod 1000000 = k" for v
  proof (cases "v < LIMIT")
    case True
    have "digits_of 6 (unat v mod 1000000) = digits_of 6 k \<longleftrightarrow> unat v mod 1000000 = k"
      using digits_of_inj [of "unat v mod 1000000" 6 k] assms by auto
    then show ?thesis using True by (simp add: DIGITS_def unat_mod)
  next
    case False
    then show ?thesis by (auto intro: exI [of _ "[]"])
  qed
  then show ?thesis using draw_uniform [OF assms] by simp
qed

theorem draw_is_uniform_witness:
  "card {v. \<forall>rest. draw (v # rest) = Some (digits_of 6 482913, rest)} = 4294"
  by (rule draw_is_uniform) simp

end
