(* ===== verification/Fingerprint.thy ===== *)
theory Fingerprint
  imports Hex
begin

text \<open>
  Certificate fingerprints (\<open>crates/transport/src/lib.rs\<close>): the SHA-256 of a
  certificate, its text, and reading that text back. Reading slices the text by byte
  positions, which panics inside a character: that outcome is \<open>Panic\<close>.
\<close>

datatype ('e, 'a) outcome = Panic | Err 'e | Ok 'a

type_synonym fingerprint = bytes

text \<open>\<open>sha\<close> is SHA-256.\<close>

definition fingerprint_of :: "(bytes \<Rightarrow> bytes) \<Rightarrow> bytes \<Rightarrow> fingerprint" where
  "fingerprint_of sha cert = sha cert"

definition fingerprint_display :: "fingerprint \<Rightarrow> str" where
  "fingerprint_display fp = to_hex fp"

text \<open>A byte position of the text's UTF-8 at which a character begins, or its end. Bytes
  that continue a character are 128 to 191.\<close>

definition is_char_boundary :: "bytes \<Rightarrow> nat \<Rightarrow> bool" where
  "is_char_boundary bs i \<longleftrightarrow>
     i = 0 \<or> i = length bs \<or> (i < length bs \<and> \<not> (128 \<le> bs ! i \<and> bs ! i < 192))"

datatype fingerprint_error = WrongLength nat | NotHex str

definition separator :: "rchar \<Rightarrow> bool" where
  "separator c \<longleftrightarrow> c = 58 \<or> c = 32 \<or> c = 45"

text \<open>The loop over the 32 bytes, from index \<open>i\<close> on.\<close>

function read_bytes :: "str \<Rightarrow> bytes \<Rightarrow> nat \<Rightarrow> (fingerprint_error, bytes) outcome" where
  "read_bytes s hex i =
     (if i \<ge> 32 then Ok []
      else if \<not> is_char_boundary hex (i * 2) \<or> \<not> is_char_boundary hex (i * 2 + 2) then Panic
      else case hex_pair (hex ! (i * 2)) (hex ! (i * 2 + 1)) of
             None \<Rightarrow> Err (NotHex s)
           | Some b \<Rightarrow>
               (case read_bytes s hex (i + 1) of
                  Ok bs \<Rightarrow> Ok (b # bs)
                | Err e \<Rightarrow> Err e
                | Panic \<Rightarrow> Panic))"
  by pat_completeness auto
termination
  by (relation "measure (\<lambda>(s, hex, i). 32 - i)") auto

declare read_bytes.simps [simp del]

definition fingerprint_from_str :: "str \<Rightarrow> (fingerprint_error, fingerprint) outcome" where
  "fingerprint_from_str s =
     (let hex = utf8 (filter (\<lambda>c. \<not> separator c) s) in
      if length hex \<noteq> 64 then Err (WrongLength (length hex)) else read_bytes s hex 0)"

subsection \<open>Reading back\<close>

lemma utf8_to_hex_bytes:
  "i < length bs \<Longrightarrow> utf8 (to_hex bs) ! (i * 2) = word_of_nat (hex_digit (unat (bs ! i) div 16)) \<and>
     utf8 (to_hex bs) ! (i * 2 + 1) = word_of_nat (hex_digit (unat (bs ! i) mod 16))"
proof (induction bs arbitrary: i)
  case (Cons b bs)
  then show ?case by (cases i) (simp_all add: to_hex_Cons)
qed simp

lemma length_to_hex [simp]: "length (utf8 (to_hex bs)) = 2 * length bs"
  by (induction bs) (simp_all add: to_hex_Cons, simp add: to_hex_def)

lemma hex_digit_ascii: "n < 16 \<Longrightarrow> (word_of_nat (hex_digit n) :: u8) < 128"
  using hex_digit_value(2) [of n] by (simp add: word_less_nat_alt unat_of_nat take_bit_eq_mod)

lemma to_hex_boundary: "i \<le> length bs \<Longrightarrow> is_char_boundary (utf8 (to_hex bs)) (i * 2)"
proof (cases "i = length bs")
  case False
  assume "i \<le> length bs"
  then have i: "i < length bs" using False by simp
  have "unat (bs ! i) div 16 < 16" using byte_bound [of "bs ! i"] by simp
  then have "utf8 (to_hex bs) ! (i * 2) < 128" using utf8_to_hex_bytes [OF i] hex_digit_ascii by simp
  then have "\<not> 128 \<le> utf8 (to_hex bs) ! (i * 2)" by (simp add: not_le)
  then show ?thesis using i by (simp add: is_char_boundary_def)
qed (simp add: is_char_boundary_def)

lemma read_bytes_to_hex:
  assumes "length bs = 32" and "i \<le> 32"
  shows "read_bytes s (utf8 (to_hex bs)) i = Ok (drop i bs)"
  using assms(2)
proof (induction "32 - i" arbitrary: i)
  case 0
  then show ?case using assms(1) by (simp add: read_bytes.simps)
next
  case (Suc n)
  then have i: "i < length bs" using assms(1) by simp
  have "is_char_boundary (utf8 (to_hex bs)) (i * 2)" "is_char_boundary (utf8 (to_hex bs)) (i * 2 + 2)"
    using to_hex_boundary [of i bs] to_hex_boundary [of "Suc i" bs] i by simp_all
  moreover have "read_bytes s (utf8 (to_hex bs)) (i + 1) = Ok (drop (i + 1) bs)"
    using Suc.hyps(1) [of "i + 1"] Suc.hyps(2) by simp
  ultimately show ?case
    using i assms(1) utf8_to_hex_bytes [OF i] hex_pair_digits [of "bs ! i"]
    by (subst read_bytes.simps) (simp add: Cons_nth_drop_Suc)
qed

lemma to_hex_no_separator: "filter (\<lambda>c. \<not> separator c) (to_hex bs) = to_hex bs"
proof -
  have "\<not> separator (hex_digit n)" for n by (simp add: separator_def hex_digit_def)
  then show ?thesis by (induction bs) (simp_all add: to_hex_def)
qed

lemma fingerprint_round_trip: "length fp = 32 \<Longrightarrow> fingerprint_from_str (fingerprint_display fp) = Ok fp"
  using read_bytes_to_hex [of fp 0]
  by (simp add: fingerprint_from_str_def fingerprint_display_def to_hex_no_separator)

text \<open>Sixty-two hexadecimal zeros after a two-byte character cut in the middle.\<close>

lemma fingerprint_panics: "fingerprint_from_str ([48, 233] @ replicate 61 48) = Panic"
proof -
  have "filter (\<lambda>c. \<not> separator c) ([48, 233] @ replicate 61 48) = [48, 233] @ replicate 61 48"
    by (simp add: separator_def)
  moreover have "utf8 ([48, 233] @ replicate 61 48) = 48 # 195 # 169 # replicate 61 48"
    by (simp add: utf8_char_def utf8_ascii)
  moreover have "\<not> is_char_boundary (48 # 195 # 169 # replicate 61 48) (0 * 2 + 2)"
    by (simp add: is_char_boundary_def)
  then have "read_bytes s (48 # 195 # 169 # replicate 61 48) 0 = Panic" for s
    unfolding read_bytes.simps [of s _ 0] by (simp only: if_True not_False_eq_True simp_thms) simp
  ultimately show ?thesis unfolding fingerprint_from_str_def by simp
qed

end
