(* ===== verification/Grants.thy ===== *)
theory Grants
  imports Grant Wire Fingerprint
begin

text \<open>
  Signing grants on the server and checking them (\<open>crates/transport/src/grant.rs\<close>),
  and the agent's acceptance of a grant, once, while it is valid
  (\<open>crates/agent/src/grants.rs\<close>).

  The signature scheme, SHA-256 and the postcard encoding are the record
  \<open>grant_crypto\<close> of functions the definitions take.
\<close>

subsection \<open>Signing and verifying\<close>

record 'e grant_crypto =
  gc_sha :: "bytes \<Rightarrow> bytes"
  gc_key_pair :: "bytes \<Rightarrow> str + (bytes \<Rightarrow> bytes)"
  gc_verify :: "bytes \<Rightarrow> bytes \<Rightarrow> bytes \<Rightarrow> bool"
  gc_ser :: "grant \<Rightarrow> 'e + bytes"
  gc_de :: "bytes \<Rightarrow> 'e + grant"

record identity =
  id_cert :: bytes
  id_key :: bytes
  id_fingerprint :: fingerprint

datatype 'e transport_error = Config str | Wire "'e error"

definition grant_to_bytes :: "'e grant_crypto \<Rightarrow> grant \<Rightarrow> 'e error + bytes" where
  "grant_to_bytes C g = (case gc_ser C g of Inl e \<Rightarrow> Inl (Encode e) | Inr b \<Rightarrow> Inr b)"

definition grant_from_bytes :: "'e grant_crypto \<Rightarrow> bytes \<Rightarrow> 'e error + grant" where
  "grant_from_bytes C b = (case gc_de C b of Inl e \<Rightarrow> Inl (Decode e) | Inr g \<Rightarrow> Inr g)"

definition claims :: "'e grant_crypto \<Rightarrow> signed_grant \<Rightarrow> 'e error + grant" where
  "claims C sg = grant_from_bytes C (sg_grant sg)"

definition signed_bytes :: "bytes \<Rightarrow> bytes" where
  "signed_bytes g = SIGNING_CONTEXT @ g"

definition sign_grant :: "'e grant_crypto \<Rightarrow> identity \<Rightarrow> grant \<Rightarrow> 'e transport_error + signed_grant" where
  "sign_grant C ident g =
     (case gc_key_pair C (id_key ident) of
        Inl e \<Rightarrow> Inl (Config (lit ''the key cannot sign: '' @ e))
      | Inr sign \<Rightarrow>
          (case grant_to_bytes C g of
             Inl e \<Rightarrow> Inl (Wire e)
           | Inr b \<Rightarrow>
               Inr \<lparr>sg_grant = b, sg_signature = sign (signed_bytes b),
                    sg_server_certificate = id_cert ident\<rparr>))"

definition ED25519_SPKI_PREFIX :: bytes where
  "ED25519_SPKI_PREFIX = [0x30, 0x2a, 0x30, 0x05, 0x06, 0x03, 0x2b, 0x65, 0x70, 0x03, 0x21, 0x00]"

text \<open>\<open>windows(n)\<close>: every run of \<open>n\<close> elements, in order.\<close>

definition windows :: "nat \<Rightarrow> 'a list \<Rightarrow> 'a list list" where
  "windows n xs = map (\<lambda>i. take n (drop i xs)) [0..<length xs + 1 - n]"

definition ed25519_key :: "bytes \<Rightarrow> bytes option" where
  "ed25519_key certificate =
     (case position (\<lambda>w. w = ED25519_SPKI_PREFIX) (windows (length ED25519_SPKI_PREFIX) certificate) of
        None \<Rightarrow> None
      | Some at \<Rightarrow>
          let start = at + length ED25519_SPKI_PREFIX in
          if start + 32 \<le> length certificate then Some (take 32 (drop start certificate)) else None)"

datatype invalid = OtherServer | Signature | Malformed

definition verify :: "'e grant_crypto \<Rightarrow> signed_grant \<Rightarrow> fingerprint \<Rightarrow> invalid + grant" where
  "verify C sg server =
     (if fingerprint_of (gc_sha C) (sg_server_certificate sg) \<noteq> server then Inl OtherServer
      else case ed25519_key (sg_server_certificate sg) of
             None \<Rightarrow> Inl Malformed
           | Some key \<Rightarrow>
               if \<not> gc_verify C key (signed_bytes (sg_grant sg)) (sg_signature sg) then Inl Signature
               else case grant_from_bytes C (sg_grant sg) of
                      Inl _ \<Rightarrow> Inl Malformed
                    | Inr g \<Rightarrow> Inr g)"

subsection \<open>The agent's acceptance\<close>

definition CLOCK_SKEW_SECS :: u64 where "CLOCK_SKEW_SECS = 2 * 60"

record grants =
  gs_server :: fingerprint
  gs_device :: fingerprint
  gs_seen :: "bytes \<rightharpoonup> u64"

definition grants_new :: "fingerprint \<Rightarrow> fingerprint \<Rightarrow> grants" where
  "grants_new server device = \<lparr>gs_server = server, gs_device = device, gs_seen = Map.empty\<rparr>"

text \<open>\<open>HashMap::retain\<close>.\<close>

definition retain :: "('k \<Rightarrow> 'v \<Rightarrow> bool) \<Rightarrow> ('k \<rightharpoonup> 'v) \<Rightarrow> ('k \<rightharpoonup> 'v)" where
  "retain P m = (\<lambda>k. case m k of None \<Rightarrow> None | Some v \<Rightarrow> if P k v then Some v else None)"

definition check_at ::
  "'e grant_crypto \<Rightarrow> signed_grant \<Rightarrow> u64 \<Rightarrow> grants \<Rightarrow> (str + grant) \<times> grants" where
  "check_at C sg now gs =
     (case verify C sg (gs_server gs) of
        Inl _ \<Rightarrow> (Inl (lit ''the grant is not from this device's server''), gs)
      | Inr g \<Rightarrow>
          if g_device g \<noteq> gs_device gs then (Inl (lit ''the grant is for another device''), gs)
          else if now + CLOCK_SKEW_SECS < g_issued_at g then
            (Inl (lit ''the grant is not valid yet; check the clocks''), gs)
          else if now > g_expires_at g + CLOCK_SKEW_SECS then
            (Inl (lit ''the grant has expired; ask the server for a new one''), gs)
          else
            let gs1 = gs\<lparr>gs_seen := retain (\<lambda>_ until. until \<ge> now) (gs_seen gs)\<rparr> in
            if gs_seen gs1 (g_nonce g) \<noteq> None then (Inl (lit ''the grant was used already''), gs1)
            else (Inr g, gs1\<lparr>gs_seen := (gs_seen gs1)(g_nonce g \<mapsto> g_expires_at g + CLOCK_SKEW_SECS)\<rparr>))"

text \<open>Grants presented one after the other, each with the time of its check.\<close>

primrec check_all ::
  "'e grant_crypto \<Rightarrow> (signed_grant \<times> u64) list \<Rightarrow> grants \<Rightarrow> (str + grant) list" where
  "check_all C [] gs = []"
| "check_all C (x # xs) gs =
     (case check_at C (fst x) (snd x) gs of (res, gs') \<Rightarrow> res # check_all C xs gs')"

subsection \<open>What an accepted grant is\<close>

lemma verify_Inr_iff:
  "verify C sg server = Inr g \<longleftrightarrow>
     fingerprint_of (gc_sha C) (sg_server_certificate sg) = server \<and>
     (\<exists>key. ed25519_key (sg_server_certificate sg) = Some key \<and>
        gc_verify C key (SIGNING_CONTEXT @ sg_grant sg) (sg_signature sg)) \<and>
     gc_de C (sg_grant sg) = Inr g"
  by (auto simp: verify_def grant_from_bytes_def signed_bytes_def split: option.splits sum.splits)

lemma check_at_accepts:
  "check_at C sg now gs = (Inr g, gs') \<longleftrightarrow>
     verify C sg (gs_server gs) = Inr g \<and> g_device g = gs_device gs \<and>
     g_issued_at g \<le> now + CLOCK_SKEW_SECS \<and> now \<le> g_expires_at g + CLOCK_SKEW_SECS \<and>
     retain (\<lambda>_ until. until \<ge> now) (gs_seen gs) (g_nonce g) = None \<and>
     gs' = gs\<lparr>gs_seen := (retain (\<lambda>_ until. until \<ge> now) (gs_seen gs))
       (g_nonce g \<mapsto> g_expires_at g + CLOCK_SKEW_SECS)\<rparr>"
  by (auto simp: check_at_def Let_def not_less split: sum.splits if_splits)

lemma check_at_seen:
  assumes "check_at C sg now gs = (res, gs')" and "gs_seen gs nonce = Some until" and "now \<le> until"
  shows "gs_seen gs' nonce = Some until" and "gs_server gs' = gs_server gs" and "gs_device gs' = gs_device gs"
    and "\<And>g. res = Inr g \<Longrightarrow> g_nonce g \<noteq> nonce"
  using assms by (auto simp: check_at_def Let_def retain_def split: sum.splits if_splits option.splits)

lemma not_accepted_again:
  assumes "gs_seen gs nonce = Some until" and "j < length xs" and "check_all C xs gs ! j = Inr g"
    and "sorted (map snd xs)" and "g_nonce g = nonce"
  shows "until < snd (xs ! j)"
  using assms
proof (induction xs arbitrary: gs j)
  case Nil
  then show ?case by simp
next
  case (Cons x xs)
  obtain res gs' where step: "check_at C (fst x) (snd x) gs = (res, gs')" by force
  show ?case
  proof (cases "snd x \<le> until")
    case True
    note seen = check_at_seen [OF step Cons.prems(1) True]
    show ?thesis
    proof (cases j)
      case 0
      then show ?thesis using seen(4) Cons.prems(3,5) step by auto
    next
      case (Suc i)
      then show ?thesis using Cons.IH [OF seen(1), of i] Cons.prems step by simp
    qed
  next
    case False
    moreover have "snd x \<le> snd ((x # xs) ! j)" using Cons.prems(2,4) by (cases j) auto
    ultimately show ?thesis by simp
  qed
qed

lemma accepted_then_seen:
  assumes "i < j" and "j < length xs" and "check_all C xs gs ! i = Inr g" and "check_all C xs gs ! j = Inr g'"
    and "sorted (map snd xs)" and "g_nonce g' = g_nonce g"
  shows "g_expires_at g + CLOCK_SKEW_SECS < snd (xs ! j)"
  using assms
proof (induction xs arbitrary: gs i j)
  case Nil
  then show ?case by simp
next
  case (Cons x xs)
  obtain res gs' where step: "check_at C (fst x) (snd x) gs = (res, gs')" by force
  obtain k where k: "j = Suc k" using Cons.prems(1) by (cases j) auto
  show ?case
  proof (cases i)
    case 0
    then have "gs_seen gs' (g_nonce g) = Some (g_expires_at g + CLOCK_SKEW_SECS)"
      using step Cons.prems(3) by (auto simp: check_at_accepts)
    then show ?thesis using not_accepted_again [of gs' "g_nonce g" _ k xs C g'] k Cons.prems step by simp
  next
    case (Suc i')
    then show ?thesis using Cons.IH [of i' k gs'] k Cons.prems step by simp
  qed
qed

lemma check_all_accepts:
  assumes "i < length xs" and "check_all C xs gs ! i = Inr g"
  shows "\<exists>gs' gs''. check_at C (fst (xs ! i)) (snd (xs ! i)) gs' = (Inr g, gs'') \<and>
    gs_server gs' = gs_server gs \<and> gs_device gs' = gs_device gs"
  using assms
proof (induction xs arbitrary: gs i)
  case Nil
  then show ?case by simp
next
  case (Cons x xs)
  obtain res gs' where step: "check_at C (fst x) (snd x) gs = (res, gs')" by force
  have same: "gs_server gs' = gs_server gs" "gs_device gs' = gs_device gs"
    using step by (auto simp: check_at_def Let_def split: sum.splits if_splits)
  show ?case
  proof (cases i)
    case 0
    then show ?thesis using Cons.prems step by auto
  next
    case (Suc k)
    then show ?thesis using Cons.IH [of k gs'] Cons.prems step same by auto
  qed
qed

lemma signed_grant_verifies:
  assumes "sign_grant C ident g = Inr sg"
    and "\<And>b. gc_ser C g = Inr b \<Longrightarrow> gc_de C b = Inr g"
    and "gc_key_pair C (id_key ident) = Inr sign" and "ed25519_key (id_cert ident) = Some key"
    and "\<And>m. gc_verify C key m (sign m)"
  shows "verify C sg (fingerprint_of (gc_sha C) (id_cert ident)) = Inr g"
  using assms
  by (auto simp: sign_grant_def verify_def grant_to_bytes_def grant_from_bytes_def signed_bytes_def
      split: sum.splits)

subsection \<open>An instance for the witnesses\<close>

definition demo_grant :: grant where
  "demo_grant = \<lparr>g_device = [3], g_user = lit ''ana'', g_role = Control, g_issued_at = 1000,
     g_expires_at = 1300, g_nonce = [8]\<rparr>"

definition demo_grant_crypto :: "unit grant_crypto" where
  "demo_grant_crypto =
     \<lparr>gc_sha = (\<lambda>b. b), gc_key_pair = (\<lambda>k. Inr (\<lambda>m. m)), gc_verify = (\<lambda>key m sig. sig = m),
      gc_ser = (\<lambda>g. Inr [9]), gc_de = (\<lambda>b. Inr demo_grant)\<rparr>"

definition demo_cert :: bytes where
  "demo_cert = ED25519_SPKI_PREFIX @ replicate 32 1"

definition demo_signed :: signed_grant where
  "demo_signed = \<lparr>sg_grant = [9], sg_signature = SIGNING_CONTEXT @ [9], sg_server_certificate = demo_cert\<rparr>"

lemma demo_key: "ed25519_key demo_cert = Some (replicate 32 1)"
proof -
  let ?n = "length ED25519_SPKI_PREFIX"
  have n: "?n = 12" by (simp add: ED25519_SPKI_PREFIX_def)
  have "windows ?n demo_cert = take ?n demo_cert # map (\<lambda>i. take ?n (drop i demo_cert)) [1..<33]"
    by (simp add: windows_def demo_cert_def n upt_conv_Cons)
  moreover have "take ?n demo_cert = ED25519_SPKI_PREFIX" by (simp add: demo_cert_def)
  ultimately have "position (\<lambda>w. w = ED25519_SPKI_PREFIX) (windows ?n demo_cert) = Some 0" by simp
  then show ?thesis by (simp add: ed25519_key_def demo_cert_def)
qed

lemma demo_verifies: "verify demo_grant_crypto demo_signed demo_cert = Inr demo_grant"
  by (simp add: verify_Inr_iff demo_signed_def demo_key fingerprint_of_def)
    (simp add: demo_grant_crypto_def)

lemma demo_accepted:
  "check_at demo_grant_crypto demo_signed 1100 (grants_new demo_cert [3]) =
     (Inr demo_grant, (grants_new demo_cert [3])\<lparr>gs_seen := [[8] \<mapsto> 1420]\<rparr>)"
  by (simp add: check_at_accepts demo_verifies grants_new_def demo_grant_def retain_def CLOCK_SKEW_SECS_def
      fun_eq_iff)

subsection \<open>Properties\<close>

text \<open>C27. A grant the agent accepts was signed, under the grant context, by the key in the
  certificate whose hash the agent pinned; it names this device; and it is within its time,
  give or take two minutes of clock skew.\<close>

theorem accepted_grant_is_genuine:
  assumes "check_at C sg now gs = (Inr g, gs')"
    and "unat now + 120 < 2 ^ 64" and "unat (g_expires_at g) + 120 < 2 ^ 64"
  shows "fingerprint_of (gc_sha C) (sg_server_certificate sg) = gs_server gs \<and>
    (\<exists>key. ed25519_key (sg_server_certificate sg) = Some key \<and>
       gc_verify C key (SIGNING_CONTEXT @ sg_grant sg) (sg_signature sg)) \<and>
    gc_de C (sg_grant sg) = Inr g \<and> g_device g = gs_device gs \<and>
    unat (g_issued_at g) \<le> unat now + 120 \<and> unat now \<le> unat (g_expires_at g) + 120"
proof -
  have "unat (now + CLOCK_SKEW_SECS) = unat now + 120"
    "unat (g_expires_at g + CLOCK_SKEW_SECS) = unat (g_expires_at g) + 120"
    using assms(2,3) by (simp_all add: CLOCK_SKEW_SECS_def unat_word_ariths)
  then show ?thesis using assms(1) unfolding check_at_accepts verify_Inr_iff word_le_nat_alt by auto
qed

theorem accepted_grant_is_genuine_witness:
  "g_device demo_grant = gs_device (grants_new demo_cert [3]) \<and> unat (1100 :: u64) \<le> unat (1300 :: u64) + 120"
  using accepted_grant_is_genuine [OF demo_accepted] by (simp add: demo_grant_def)

text \<open>C28. A grant opens the agent once: of the checks of one signed grant, made in the order
  of time, at most one accepts. Other grants may be presented in between.\<close>

theorem grant_accepted_once:
  assumes "sorted (map snd xs)" and "i < j" and "j < length xs" and "fst (xs ! i) = fst (xs ! j)"
    and "check_all C xs gs ! i = Inr g"
  shows "\<exists>why. check_all C xs gs ! j = Inl why"
proof (rule ccontr)
  assume "\<nexists>why. check_all C xs gs ! j = Inl why"
  then obtain g' where g': "check_all C xs gs ! j = Inr g'" by (cases "check_all C xs gs ! j") auto
  have "i < length xs" using assms(2,3) by simp
  from check_all_accepts [OF this assms(5)] check_all_accepts [OF assms(3) g'] assms(4)
  have "g' = g" and now: "snd (xs ! j) \<le> g_expires_at g' + CLOCK_SKEW_SECS"
    by (auto simp: check_at_accepts)
  then show False using accepted_then_seen [OF assms(2,3,5) g' assms(1)] by simp
qed

theorem grant_accepted_once_witness:
  "\<exists>why. check_all demo_grant_crypto [(demo_signed, 1100), (demo_signed, 1200)] (grants_new demo_cert [3]) ! 1 = Inl why"
  by (rule grant_accepted_once [of _ 0 _ _ _ demo_grant]) (simp_all add: demo_accepted)

text \<open>A grant the server signs for this device is accepted within its lifetime, unless
  its nonce was used: given that the key pair's signatures verify under the key in its
  certificate and the encoding reads back.\<close>

theorem signed_grant_is_accepted:
  assumes "sign_grant C ident g = Inr sg"
    and "\<forall>b. gc_ser C g = Inr b \<longrightarrow> gc_de C b = Inr g"
    and "gc_key_pair C (id_key ident) = Inr sign" and "ed25519_key (id_cert ident) = Some key"
    and "\<forall>m. gc_verify C key m (sign m)"
    and "gs_server gs = fingerprint_of (gc_sha C) (id_cert ident)" and "gs_device gs = g_device g"
    and "g_issued_at g \<le> now" and "now \<le> g_expires_at g"
    and "unat (g_expires_at g) + 120 < 2 ^ 64" and "gs_seen gs (g_nonce g) = None"
  shows "fst (check_at C sg now gs) = Inr g"
proof -
  have "verify C sg (gs_server gs) = Inr g"
    using signed_grant_verifies [OF assms(1) _ assms(3,4)] assms(2,5,6) by simp
  moreover have u: "unat (g_expires_at g + CLOCK_SKEW_SECS) = unat (g_expires_at g) + 120"
    using assms(10) by (simp add: CLOCK_SKEW_SECS_def unat_word_ariths)
  moreover have "unat (now + CLOCK_SKEW_SECS) = unat now + 120"
    using assms(9,10) by (simp add: CLOCK_SKEW_SECS_def unat_word_ariths word_le_nat_alt)
  ultimately have "\<exists>gs'. check_at C sg now gs = (Inr g, gs')"
    unfolding check_at_accepts using assms(7,8,9,11) by (simp add: word_le_nat_alt retain_def)
  then show ?thesis by auto
qed

theorem signed_grant_is_accepted_witness:
  "fst (check_at demo_grant_crypto demo_signed 1100 (grants_new demo_cert [3])) = Inr demo_grant"
proof -
  have "sign_grant demo_grant_crypto \<lparr>id_cert = demo_cert, id_key = [], id_fingerprint = []\<rparr> demo_grant =
      Inr demo_signed"
    by (simp add: sign_grant_def grant_to_bytes_def demo_signed_def signed_bytes_def demo_grant_crypto_def)
  then show ?thesis
    by (rule signed_grant_is_accepted [where sign = "\<lambda>m. m"])
      (simp_all add: demo_key, simp_all add: demo_grant_crypto_def grants_new_def fingerprint_of_def demo_grant_def)
qed

end
