(* ===== verification/Release.thy ===== *)
theory Release
  imports Grants
begin

text \<open>
  Releases: what an agent may update itself to (\<open>crates/core/src/release.rs\<close>),
  their signing and checking (\<open>crates/transport/src/release.rs\<close>), and one round of an
  installed agent's updating (\<open>crates/agent/src/update.rs\<close>). What the network and the
  disk answer in such a round is an argument, the record \<open>update_env\<close>.
\<close>

definition RELEASE_CONTEXT :: bytes where
  "RELEASE_CONTEXT = utf8 (lit ''nearhand release v1'') @ [0]"

subsection \<open>Versions\<close>

datatype version = Version (major: u32) (minor: u32) (patch: u32)

text \<open>Versions are ordered as their three numbers are, the first first.\<close>

definition version_le :: "version \<Rightarrow> version \<Rightarrow> bool" where
  "version_le a b \<longleftrightarrow>
     major a < major b \<or>
     (major a = major b \<and> (minor a < minor b \<or> (minor a = minor b \<and> patch a \<le> patch b)))"

instantiation version :: linorder
begin

definition less_eq_version :: "version \<Rightarrow> version \<Rightarrow> bool" where
  "less_eq_version = version_le"

definition less_version :: "version \<Rightarrow> version \<Rightarrow> bool" where
  "less_version a b \<longleftrightarrow> a \<le> b \<and> \<not> b \<le> (a :: version)"

instance
proof
  fix a b c :: version
  show "a < b \<longleftrightarrow> a \<le> b \<and> \<not> b \<le> a" by (simp add: less_version_def)
  show "a \<le> a" by (simp add: less_eq_version_def version_le_def)
  show "a \<le> b \<Longrightarrow> b \<le> c \<Longrightarrow> a \<le> c" by (auto simp: less_eq_version_def version_le_def)
  show "a \<le> b \<Longrightarrow> b \<le> a \<Longrightarrow> a = b" by (auto simp: less_eq_version_def version_le_def intro: version.expand)
  show "a \<le> b \<or> b \<le> a" by (auto simp: less_eq_version_def version_le_def)
qed

end

definition version_display :: "version \<Rightarrow> str" where
  "version_display v =
     show_nat (unat (major v)) @ [46] @ show_nat (unat (minor v)) @ [46] @ show_nat (unat (patch v))"

text \<open>One part of a version: digits only, and a number that fits 32 bits. The error is the
  text that is not a version.\<close>

definition version_part :: "str \<Rightarrow> str \<Rightarrow> str + u32" where
  "version_part s part =
     (if part = [] \<or> \<not> list_all is_ascii_digit (utf8 part) then Inl s
      else if read_nat part < 2 ^ 32 then Inr (word_of_nat (read_nat part)) else Inl s)"

definition version_from_str :: "str \<Rightarrow> str + version" where
  "version_from_str s =
     (case split_on 46 s of
        [a, b, c] \<Rightarrow>
          (case version_part s a of
             Inl e \<Rightarrow> Inl e
           | Inr ma \<Rightarrow>
               (case version_part s b of
                  Inl e \<Rightarrow> Inl e
                | Inr mi \<Rightarrow>
                    (case version_part s c of
                       Inl e \<Rightarrow> Inl e
                     | Inr pa \<Rightarrow> Inr (Version ma mi pa))))
      | _ \<Rightarrow> Inl s)"

lemma digit_not_dot: "is_digit c \<Longrightarrow> c \<noteq> 46"
  by (auto simp: is_digit_def)

lemma version_part_show: "version_part s (show_nat (unat n)) = Inr n"
proof -
  have "unat n < 2 ^ 32" using unsigned_less [of n, where ?'a = nat] by simp
  then show ?thesis
    using is_ascii_digit_utf8 [of "show_nat (unat n)"] show_nat_digits
    by (auto simp: version_part_def read_show_nat)
qed

lemma version_from_display: "version_from_str (version_display v) = Inr v"
proof -
  have nd: "46 \<notin> set (show_nat n)" for n using show_nat_digits digit_not_dot by blast
  have "split_on 46 (version_display v) =
    [show_nat (unat (major v)), show_nat (unat (minor v)), show_nat (unat (patch v))]"
    using split_on_append [OF nd] split_on_none [OF nd] by (simp add: version_display_def)
  then show ?thesis by (simp add: version_from_str_def version_part_show)
qed

subsection \<open>Releases and their signature files\<close>

datatype package = Msi

record release =
  r_product :: str
  r_version :: version
  r_platform :: str
  r_package :: package
  r_sha256 :: bytes
  r_size :: u64

record signed_release =
  sr_release :: bytes
  sr_signature :: bytes

datatype text_error =
    NotALine str
  | UnknownField str
  | OddHex
  | NotHexText str
  | Twice str
  | NeedsBoth

definition unhex :: "str \<Rightarrow> text_error + bytes" where
  "unhex text =
     (if length (utf8 text) mod 2 \<noteq> 0 then Inl OddHex
      else case hex_pairs (utf8 text) of None \<Rightarrow> Inl (NotHexText text) | Some bs \<Rightarrow> Inr bs)"

definition to_text :: "signed_release \<Rightarrow> str" where
  "to_text sr =
     lit ''release '' @ to_hex (sr_release sr) @ [10] @
     lit ''signature '' @ to_hex (sr_signature sr) @ [10]"

text \<open>One line of the file: the two fields so far, and after it.\<close>

definition read_line ::
  "str \<Rightarrow> bytes option \<times> bytes option \<Rightarrow> text_error + bytes option \<times> bytes option" where
  "read_line line got =
     (case split_once 32 line of
        None \<Rightarrow> Inl (NotALine line)
      | Some (name, val) \<Rightarrow>
          if name = lit ''release'' then
            (case unhex (trim val) of
               Inl e \<Rightarrow> Inl e
             | Inr b \<Rightarrow> if fst got \<noteq> None then Inl (Twice name) else Inr (Some b, snd got))
          else if name = lit ''signature'' then
            (case unhex (trim val) of
               Inl e \<Rightarrow> Inl e
             | Inr b \<Rightarrow> if snd got \<noteq> None then Inl (Twice name) else Inr (fst got, Some b))
          else Inl (UnknownField name))"

primrec read_lines ::
  "str list \<Rightarrow> bytes option \<times> bytes option \<Rightarrow> text_error + bytes option \<times> bytes option" where
  "read_lines [] got = Inr got"
| "read_lines (l # ls) got =
     (case read_line l got of Inl e \<Rightarrow> Inl e | Inr got' \<Rightarrow> read_lines ls got')"

definition from_text :: "str \<Rightarrow> text_error + signed_release" where
  "from_text text =
     (case read_lines (filter (\<lambda>l. l \<noteq> []) (map trim (lines text))) (None, None) of
        Inl e \<Rightarrow> Inl e
      | Inr (Some r, Some s) \<Rightarrow> Inr \<lparr>sr_release = r, sr_signature = s\<rparr>
      | Inr _ \<Rightarrow> Inl NeedsBoth)"

lemma unhex_to_hex: "unhex (to_hex bs) = Inr bs"
  using from_to_hex [of bs] by (auto simp: unhex_def from_hex_def split: if_splits option.splits)

lemma to_hex_plain: "c \<in> set (to_hex bs) \<Longrightarrow> \<not> is_whitespace c \<and> c \<noteq> 10 \<and> c \<noteq> 13"
proof -
  have "\<not> is_whitespace (hex_digit n) \<and> hex_digit n \<noteq> 10 \<and> hex_digit n \<noteq> 13" if "n < 16" for n
    using that by (auto simp: hex_digit_def is_whitespace_def)
  moreover assume "c \<in> set (to_hex bs)"
  then obtain b where "b \<in> set bs" "c = hex_digit (unat b div 16) \<or> c = hex_digit (unat b mod 16)"
    by (auto simp: to_hex_def)
  moreover have "unat b div 16 < 16" "unat b mod 16 < 16" for b :: u8 using byte_bound [of b] by simp_all
  ultimately show ?thesis by auto
qed

lemma to_hex_nonempty: "bs \<noteq> [] \<Longrightarrow> to_hex bs \<noteq> []"
  by (cases bs) (auto simp: to_hex_def)

lemma to_hex_trim: "trim (to_hex bs) = to_hex bs"
proof (cases "to_hex bs = []")
  case False
  then have "hd (to_hex bs) \<in> set (to_hex bs)" "last (to_hex bs) \<in> set (to_hex bs)" by auto
  then show ?thesis using to_hex_plain False trim_id by blast
qed (simp add: trim_def)

lemma field_line:
  assumes "name = lit ''release'' \<or> name = lit ''signature''" and "bs \<noteq> []"
  shows "10 \<notin> set (name @ [32] @ to_hex bs)" and "strip_cr (name @ [32] @ to_hex bs) = name @ [32] @ to_hex bs"
    and "trim (name @ [32] @ to_hex bs) = name @ [32] @ to_hex bs"
    and "split_once 32 (name @ [32] @ to_hex bs) = Some (name, to_hex bs)"
proof -
  have ne: "to_hex bs \<noteq> []" using assms(2) by (rule to_hex_nonempty)
  then have l: "last (to_hex bs) \<in> set (to_hex bs)" by simp
  have name: "10 \<notin> set name" "32 \<notin> set name" "name \<noteq> []" "\<not> is_whitespace (hd name)"
    using assms(1) by (auto simp: lit_def is_whitespace_def)
  show "10 \<notin> set (name @ [32] @ to_hex bs)" using name to_hex_plain by auto
  show "strip_cr (name @ [32] @ to_hex bs) = name @ [32] @ to_hex bs"
    using ne to_hex_plain [OF l] by (simp add: strip_cr_def)
  show "trim (name @ [32] @ to_hex bs) = name @ [32] @ to_hex bs"
    using ne name to_hex_plain [OF l] by (intro trim_id) auto
  show "split_once 32 (name @ [32] @ to_hex bs) = Some (name, to_hex bs)"
    using split_once_append [OF name(2)] by simp
qed

lemma from_to_text:
  assumes "sr_release sr \<noteq> []" and "sr_signature sr \<noteq> []"
  shows "from_text (to_text sr) = Inr sr"
proof -
  let ?r = "lit ''release'' @ [32] @ to_hex (sr_release sr)"
  let ?s = "lit ''signature'' @ [32] @ to_hex (sr_signature sr)"
  note r = field_line [of "lit ''release''" "sr_release sr", OF _ assms(1), simplified]
  note s = field_line [of "lit ''signature''" "sr_signature sr", OF _ assms(2), simplified]
  have "to_text sr = ?r @ 10 # ?s @ 10 # []" by (simp add: to_text_def lit_def)
  then have "split_on 10 (to_text sr) = [?r, ?s, []]"
    using split_on_append [of 10 ?r] split_on_append [of 10 ?s "[]"] r(1) s(1) by simp
  then have "map trim (lines (to_text sr)) = [?r, ?s]"
    using r s by (simp add: lines_def)
  moreover have "read_line ?r (None, None) = Inr (Some (sr_release sr), None)"
    using r(4) by (simp add: read_line_def to_hex_trim unhex_to_hex)
  moreover have "read_line ?s (Some (sr_release sr), None) = Inr (Some (sr_release sr), Some (sr_signature sr))"
    using s(4) by (simp add: read_line_def to_hex_trim unhex_to_hex lit_def)
  ultimately show ?thesis by (simp add: from_text_def)
qed

subsection \<open>Signing and checking\<close>

record 'e release_crypto =
  rc_sha :: "bytes \<Rightarrow> bytes"
  rc_key_pair :: "bytes \<Rightarrow> str + (bytes \<Rightarrow> bytes)"
  rc_verify :: "bytes \<Rightarrow> bytes \<Rightarrow> bytes \<Rightarrow> bool"
  rc_ser :: "release \<Rightarrow> 'e + bytes"
  rc_de :: "bytes \<Rightarrow> 'e + release"

datatype release_invalid = BadSignature | BadEncoding | BadPackage

definition release_signed_bytes :: "bytes \<Rightarrow> bytes" where
  "release_signed_bytes r = RELEASE_CONTEXT @ r"

definition release_sign :: "'e release_crypto \<Rightarrow> bytes \<Rightarrow> release \<Rightarrow> 'e transport_error + signed_release" where
  "release_sign C pkcs8 r =
     (case rc_key_pair C pkcs8 of
        Inl e \<Rightarrow> Inl (Config (lit ''not an Ed25519 release key: '' @ e))
      | Inr sign \<Rightarrow>
          (case rc_ser C r of
             Inl e \<Rightarrow> Inl (Wire (Encode e))
           | Inr b \<Rightarrow> Inr \<lparr>sr_release = b, sr_signature = sign (release_signed_bytes b)\<rparr>))"

definition release_verify :: "'e release_crypto \<Rightarrow> signed_release \<Rightarrow> bytes \<Rightarrow> release_invalid + release" where
  "release_verify C sr key =
     (if \<not> rc_verify C key (release_signed_bytes (sr_release sr)) (sr_signature sr) then Inl BadSignature
      else case rc_de C (sr_release sr) of Inl _ \<Rightarrow> Inl BadEncoding | Inr r \<Rightarrow> Inr r)"

definition check_package :: "'e release_crypto \<Rightarrow> release \<Rightarrow> bytes \<Rightarrow> release_invalid + unit" where
  "check_package C r pkg =
     (if word_of_nat (length pkg) \<noteq> r_size r \<or> rc_sha C pkg \<noteq> r_sha256 r then Inl BadPackage else Inr ())"

subsection \<open>One round of updating\<close>

definition AGENT_PRODUCT :: str where "AGENT_PRODUCT = lit ''nearhand-agent''"
definition WINDOWS_X86_64 :: str where "WINDOWS_X86_64 = lit ''windows-x86_64''"
definition MAX_PACKAGE :: u64 where "MAX_PACKAGE = 256 * 1024 * 1024"

text \<open>Seconds.\<close>

definition FIRST_CHECK :: nat where "FIRST_CHECK = 5 * 60"
definition EVERY :: nat where "EVERY = 6 * 3600"
definition RETRY :: nat where "RETRY = 15 * 60"

datatype unsuitable = OtherProduct str | OtherPlatform str | NotAnInstaller | NotNewer version version | TooLarge u64

definition suitable :: "release \<Rightarrow> str \<Rightarrow> version \<Rightarrow> unsuitable + unit" where
  "suitable r platform current =
     (if r_product r \<noteq> AGENT_PRODUCT then Inl (OtherProduct (r_product r))
      else if r_platform r \<noteq> platform then Inl (OtherPlatform (r_platform r))
      else if r_package r \<noteq> Msi then Inl NotAnInstaller
      else if r_version r \<le> current then Inl (NotNewer (r_version r) current)
      else if r_size r > MAX_PACKAGE then Inl (TooLarge (r_size r))
      else Inr ())"

datatype offer = Offers signed_release | NoOffer | BusyServer | NoAnswer str

record update_env =
  ue_session_before :: bool
  ue_offer :: offer
  ue_fetch :: "u64 \<Rightarrow> str + bytes"
  ue_session_after :: bool
  ue_write :: "str + unit"
  ue_install :: "str + unit"

datatype checked = UpToDate | NotNow | Installing

datatype update_error =
    Unanswered str
  | NotTheProjects release_invalid
  | Unsuitable unsuitable
  | Unfetched str
  | OtherPackage release_invalid
  | Unwritten str
  | Uninstalled str

text \<open>What the round did to the machine: the package it wrote and ran, if any.\<close>

definition update_once ::
  "'e release_crypto \<Rightarrow> bytes \<Rightarrow> str \<Rightarrow> version \<Rightarrow> update_env \<Rightarrow> (update_error + checked) \<times> bytes option" where
  "update_once C key platform current env =
     (if ue_session_before env then (Inr NotNow, None)
      else case ue_offer env of
        NoOffer \<Rightarrow> (Inr UpToDate, None)
      | BusyServer \<Rightarrow> (Inr NotNow, None)
      | NoAnswer e \<Rightarrow> (Inl (Unanswered e), None)
      | Offers sr \<Rightarrow>
          (case release_verify C sr key of
             Inl e \<Rightarrow> (Inl (NotTheProjects e), None)
           | Inr r \<Rightarrow>
               (case suitable r platform current of
                  Inl e \<Rightarrow> (Inl (Unsuitable e), None)
                | Inr _ \<Rightarrow>
                    (case ue_fetch env (r_size r) of
                       Inl e \<Rightarrow> (Inl (Unfetched e), None)
                     | Inr pkg \<Rightarrow>
                         (case check_package C r pkg of
                            Inl e \<Rightarrow> (Inl (OtherPackage e), None)
                          | Inr _ \<Rightarrow>
                              if ue_session_after env then (Inr NotNow, None)
                              else (case ue_write env of
                                 Inl e \<Rightarrow> (Inl (Unwritten e), None)
                               | Inr _ \<Rightarrow>
                                   (case ue_install env of
                                      Inl e \<Rightarrow> (Inl (Uninstalled e), Some pkg)
                                    | Inr _ \<Rightarrow> (Inr Installing, Some pkg))))))))"

text \<open>How long \<open>keep_updated\<close> sleeps after a round; \<open>None\<close> where it returns.\<close>

fun next_wait :: "update_error + checked \<Rightarrow> nat option" where
  "next_wait (Inr UpToDate) = Some EVERY"
| "next_wait (Inr Installing) = None"
| "next_wait (Inr NotNow) = Some RETRY"
| "next_wait (Inl _) = Some RETRY"

lemma suitable_Inr_iff:
  "suitable r platform current = Inr () \<longleftrightarrow>
     r_product r = AGENT_PRODUCT \<and> r_platform r = platform \<and> current < r_version r \<and> r_size r \<le> MAX_PACKAGE"
  by (cases "r_package r") (auto simp: suitable_def not_le not_less)

lemma update_once_runs:
  assumes "snd (update_once C key platform current env) = Some pkg"
  obtains sr r where "ue_offer env = Offers sr" "release_verify C sr key = Inr r"
    "suitable r platform current = Inr ()" "check_package C r pkg = Inr ()"
    "\<not> ue_session_before env" "\<not> ue_session_after env"
  using assms
  by (auto simp: update_once_def split: if_splits offer.splits sum.splits)

subsection \<open>An instance for the witnesses\<close>

definition demo_release :: release where
  "demo_release = \<lparr>r_product = AGENT_PRODUCT, r_version = Version 0 3 0, r_platform = WINDOWS_X86_64,
     r_package = Msi, r_sha256 = [1, 2], r_size = 2\<rparr>"

definition demo_release_crypto :: "unit release_crypto" where
  "demo_release_crypto =
     \<lparr>rc_sha = (\<lambda>b. b), rc_key_pair = (\<lambda>k. Inr (\<lambda>m. m)), rc_verify = (\<lambda>key m sig. sig = m),
      rc_ser = (\<lambda>g. Inr [9]), rc_de = (\<lambda>b. Inr demo_release)\<rparr>"

definition demo_env :: update_env where
  "demo_env = \<lparr>ue_session_before = False,
     ue_offer = Offers \<lparr>sr_release = [9], sr_signature = RELEASE_CONTEXT @ [9]\<rparr>,
     ue_fetch = (\<lambda>n. Inr [1, 2]), ue_session_after = False, ue_write = Inr (), ue_install = Inr ()\<rparr>"

lemma demo_update: "update_once demo_release_crypto [] WINDOWS_X86_64 (Version 0 2 0) demo_env = (Inr Installing, Some [1, 2])"
  by (simp add: update_once_def demo_env_def release_verify_def demo_release_crypto_def release_signed_bytes_def
      suitable_def demo_release_def check_package_def MAX_PACKAGE_def less_eq_version_def version_le_def)

subsection \<open>Properties\<close>

text \<open>C29. Whatever the server offers and sends, an agent runs a package only if the release key
  signed, under the release context, a release for this product and platform with a newer
  version, whose size and hash the package has; and no session was on.\<close>

theorem update_runs_only_releases:
  assumes "snd (update_once C key platform current env) = Some pkg"
  shows "\<exists>sr r. ue_offer env = Offers sr \<and>
    rc_verify C key (RELEASE_CONTEXT @ sr_release sr) (sr_signature sr) \<and> rc_de C (sr_release sr) = Inr r \<and>
    r_product r = AGENT_PRODUCT \<and> r_platform r = platform \<and> current < r_version r \<and>
    r_size r \<le> MAX_PACKAGE \<and> word_of_nat (length pkg) = r_size r \<and> rc_sha C pkg = r_sha256 r \<and>
    \<not> ue_session_before env \<and> \<not> ue_session_after env"
  by (rule update_once_runs [OF assms])
    (auto simp: release_verify_def release_signed_bytes_def suitable_Inr_iff check_package_def
      split: if_splits sum.splits)

theorem update_runs_only_releases_witness:
  "\<exists>sr r. ue_offer demo_env = Offers sr \<and> rc_de demo_release_crypto (sr_release sr) = Inr r \<and>
    Version 0 2 0 < r_version r"
  using update_runs_only_releases [of demo_release_crypto "[]" WINDOWS_X86_64 "Version 0 2 0" demo_env "[1, 2]"]
  by (auto simp: demo_update)

text \<open>Versions print and parse back, and are ordered as the numbers they are.\<close>

theorem version_round_trip:
  "version_from_str (version_display v) = Inr v \<and>
   (v \<le> w \<longleftrightarrow> (unat (major v), unat (minor v), unat (patch v)) = (unat (major w), unat (minor w), unat (patch w)) \<or>
     ((unat (major v), unat (minor v), unat (patch v)), (unat (major w), unat (minor w), unat (patch w)))
       \<in> less_than <*lex*> less_than <*lex*> less_than)"
  using version_from_display [of v]
  by (auto simp: less_eq_version_def version_le_def word_less_nat_alt word_le_nat_alt word_unat_eq_iff)

text \<open>A signature file reads back as the signed release it was written from.\<close>

theorem signature_file_round_trip:
  assumes "sr_release sr \<noteq> []" and "sr_signature sr \<noteq> []"
  shows "from_text (to_text sr) = Inr sr"
  using from_to_text [OF assms] .

theorem signature_file_round_trip_witness:
  "from_text (to_text \<lparr>sr_release = [1, 255], sr_signature = [16]\<rparr>) = Inr \<lparr>sr_release = [1, 255], sr_signature = [16]\<rparr>"
  by (rule signature_file_round_trip) simp_all

end
