(* ===== verification/Held.thy ===== *)
theory Held
  imports Prelude
begin

text \<open>
  What a session holds down (\<open>crates/core/src/held.rs\<close>): the keys in a vector, the
  buttons as the bits of a byte; and the abstract set of held keys and buttons it stands for.
\<close>

record held =
  h_keys :: "u16 list"
  h_buttons :: u8

definition held_default :: held where
  "held_default = \<lparr>h_keys = [], h_buttons = 0\<rparr>"

definition held_key :: "u16 \<Rightarrow> bool \<Rightarrow> held \<Rightarrow> bool \<times> held" where
  "held_key usage down h =
     (let at = position (\<lambda>k. k = usage) (h_keys h) in
      (at \<noteq> None,
       case (down, at) of
         (True, None) \<Rightarrow> h\<lparr>h_keys := h_keys h @ [usage]\<rparr>
       | (False, Some i) \<Rightarrow> h\<lparr>h_keys := swap_remove i (h_keys h)\<rparr>
       | _ \<Rightarrow> h))"

text \<open>\<open>1u8.checked_shl(button)\<close> is \<open>None\<close> from eight on.\<close>

definition held_button :: "u8 \<Rightarrow> bool \<Rightarrow> held \<Rightarrow> held" where
  "held_button button down h =
     (if unat button \<ge> 8 then h
      else if down then h\<lparr>h_buttons := set_bit (unat button) (h_buttons h)\<rparr>
      else h\<lparr>h_buttons := unset_bit (unat button) (h_buttons h)\<rparr>)"

definition held_take :: "held \<Rightarrow> (u16 list \<times> u8 list) \<times> held" where
  "held_take h =
     ((h_keys h, map word_of_nat (filter (\<lambda>b. bit (h_buttons h) b) [0..<8])),
      h\<lparr>h_buttons := 0, h_keys := []\<rparr>)"

subsection \<open>What is held, from the events\<close>

datatype held_event = KeyEvent u16 bool | ButtonEvent u8 bool

primrec held_step :: "held_event \<Rightarrow> held \<Rightarrow> held" where
  "held_step (KeyEvent usage down) h = snd (held_key usage down h)"
| "held_step (ButtonEvent button down) h = held_button button down h"

definition held_run :: "held_event list \<Rightarrow> held" where
  "held_run es = foldl (\<lambda>h e. held_step e h) held_default es"

text \<open>A key is down after a sequence of events when its latest event is a key-down.\<close>

definition key_down :: "u16 \<Rightarrow> held_event list \<Rightarrow> bool" where
  "key_down usage es \<longleftrightarrow>
     (case find (\<lambda>e. e = KeyEvent usage True \<or> e = KeyEvent usage False) (rev es) of
        Some e \<Rightarrow> e = KeyEvent usage True
      | None \<Rightarrow> False)"

definition button_down :: "u8 \<Rightarrow> held_event list \<Rightarrow> bool" where
  "button_down button es \<longleftrightarrow>
     (case find (\<lambda>e. e = ButtonEvent button True \<or> e = ButtonEvent button False) (rev es) of
        Some e \<Rightarrow> e = ButtonEvent button True
      | None \<Rightarrow> False)"

lemma key_down_snoc:
  "key_down k (es @ [e]) \<longleftrightarrow>
     (case e of KeyEvent k' d \<Rightarrow> if k' = k then d else key_down k es | _ \<Rightarrow> key_down k es)"
  by (cases e) (auto simp: key_down_def)

lemma button_down_snoc:
  "button_down b (es @ [e]) \<longleftrightarrow>
     (case e of ButtonEvent b' d \<Rightarrow> if b' = b then d else button_down b es | _ \<Rightarrow> button_down b es)"
  by (cases e) (auto simp: button_down_def)

definition holds :: "held_event list \<Rightarrow> held \<Rightarrow> bool" where
  "holds es h \<longleftrightarrow>
     distinct (h_keys h) \<and> (\<forall>k. k \<in> set (h_keys h) \<longleftrightarrow> key_down k es) \<and>
     (\<forall>b. unat b < 8 \<longrightarrow> (bit (h_buttons h) (unat b) \<longleftrightarrow> button_down b es))"

lemma held_key_set:
  assumes "distinct (h_keys h)"
  shows "distinct (h_keys (snd (held_key k d h))) \<and>
    set (h_keys (snd (held_key k d h))) = (if d then insert k (set (h_keys h)) else set (h_keys h) - {k}) \<and>
    h_buttons (snd (held_key k d h)) = h_buttons h \<and> (fst (held_key k d h) \<longleftrightarrow> k \<in> set (h_keys h))"
proof (cases "position (\<lambda>x. x = k) (h_keys h)")
  case None
  then have "k \<notin> set (h_keys h)" by (auto simp: position_None_iff)
  then show ?thesis using assms None by (auto simp: held_key_def)
next
  case (Some i)
  then have i: "i < length (h_keys h)" "h_keys h ! i = k" by (auto dest: position_Some_D)
  have "distinct (swap_remove i (h_keys h))"
    using swap_remove_split [OF i(1)] assms
    by (metis distinct.simps(2) mset.simps(2) mset_eq_imp_distinct_iff)
  moreover have "k \<in> set (h_keys h)" using i by auto
  ultimately show ?thesis using assms Some set_swap_remove_distinct [OF i(1) assms] i(2)
    by (auto simp: held_key_def)
qed

lemma holds_step: "holds es h \<Longrightarrow> holds (es @ [e]) (held_step e h)"
proof -
  assume h: "holds es h"
  show ?thesis
  proof (cases e)
    case (KeyEvent k d)
    then show ?thesis using h held_key_set [of h k d]
      by (auto simp: holds_def key_down_snoc button_down_snoc split: if_splits)
  next
    case (ButtonEvent b d)
    then show ?thesis using h
      by (auto simp: holds_def key_down_snoc button_down_snoc held_button_def bit_simps
          word_unat_eq_iff [symmetric])
  qed
qed

lemma holds_run: "holds es (held_run es)"
proof (induction es rule: rev_induct)
  case Nil
  then show ?case
    by (simp add: holds_def held_run_def held_default_def key_down_def button_down_def)
next
  case (snoc e es)
  then show ?case using holds_step by (simp add: held_run_def)
qed

text \<open>Releasing what is held releases each key and each button exactly once, and exactly
  those whose latest event was a press, however many auto-repeats came before; and nothing is
  held afterwards.\<close>

theorem take_releases_what_is_down:
  "case held_take (held_run es) of ((keys, buttons), h) \<Rightarrow>
     distinct keys \<and> set keys = {k. key_down k es} \<and>
     distinct buttons \<and> set buttons = {b. unat b < 8 \<and> button_down b es} \<and> h = held_default"
proof -
  have small: "unat (word_of_nat n :: u8) = n" if "n < 8" for n
    using that by (simp add: unat_of_nat take_bit_eq_mod)
  let ?bs = "filter (\<lambda>b. bit (h_buttons (held_run es)) b) [0..<8]"
  have "inj_on (word_of_nat :: nat \<Rightarrow> u8) (set ?bs)"
    by (rule inj_onI) (auto, metis small)
  then have "distinct (map (word_of_nat :: nat \<Rightarrow> u8) ?bs)" by (simp add: distinct_map)
  moreover have "set (map word_of_nat ?bs) = {b :: u8. unat b < 8 \<and> button_down b es}"
  proof (intro equalityI subsetI)
    fix b :: u8 assume "b \<in> set (map word_of_nat ?bs)"
    then obtain n where n: "n < 8" "bit (h_buttons (held_run es)) n" "b = word_of_nat n" by auto
    then have "unat b = n" using small by simp
    then show "b \<in> {b. unat b < 8 \<and> button_down b es}"
      using holds_run [of es] n(1,2) by (auto simp: holds_def)
  next
    fix b :: u8 assume b: "b \<in> {b. unat b < 8 \<and> button_down b es}"
    then have "unat b \<in> set ?bs" using holds_run [of es] by (simp add: holds_def)
    then show "b \<in> set (map word_of_nat ?bs)" by (force intro: image_eqI [of _ _ "unat b"])
  qed
  ultimately show ?thesis using holds_run [of es]
    by (auto simp: held_take_def holds_def held_default_def)
qed

end
