(* ===== verification/Clock.thy ===== *)
theory Clock
  imports Prelude
begin

text \<open>
  Placing the agent's timestamps on the viewer's clock (\<open>crates/core/src/clock.rs\<close>).
  The 128-bit signed differences of the source cannot overflow on these operands: they are
  \<open>int\<close>.
\<close>

definition WINDOW :: nat where "WINDOW = 32"

record clock_sample =
  rtt_us :: u64
  sample_offset_us :: int

type_synonym clock_sync = "clock_sample list"

definition clock_new :: clock_sync where "clock_new = []"

definition fits_i64 :: "int \<Rightarrow> bool" where
  "fits_i64 i \<longleftrightarrow> - (2 ^ 63) \<le> i \<and> i < 2 ^ 63"

definition clock_add :: "u64 \<Rightarrow> u64 \<Rightarrow> u64 \<Rightarrow> clock_sync \<Rightarrow> clock_sync" where
  "clock_add sent_us agent_us received_us samples =
     (case checked_sub received_us sent_us of
        None \<Rightarrow> samples
      | Some rtt \<Rightarrow>
          let midpoint = sent_us + rtt div 2;
              off = uint agent_us - uint midpoint in
          if \<not> fits_i64 off then samples
          else (if length samples = WINDOW then tl samples else samples)
                 @ [\<lparr>rtt_us = rtt, sample_offset_us = off\<rparr>])"

text \<open>\<open>min_by_key\<close>: the first sample with the smallest round trip.\<close>

definition best :: "clock_sync \<Rightarrow> clock_sample option" where
  "best samples = reduce (\<lambda>a b. if rtt_us b < rtt_us a then b else a) samples"

definition offset_us :: "clock_sync \<Rightarrow> int option" where
  "offset_us samples = map_option sample_offset_us (best samples)"

definition uncertainty_us :: "clock_sync \<Rightarrow> u64 option" where
  "uncertainty_us samples = map_option (\<lambda>s. rtt_us s div 2) (best samples)"

definition to_viewer_us :: "u64 \<Rightarrow> clock_sync \<Rightarrow> u64 option" where
  "to_viewer_us agent_us samples =
     (case offset_us samples of
        None \<Rightarrow> None
      | Some off \<Rightarrow>
          let viewer = uint agent_us - off in
          if 0 \<le> viewer \<and> viewer < 2 ^ 64 then Some (word_of_int viewer) else None)"

subsection \<open>The error of the offset\<close>

text \<open>An exchange of two clocks that differ by \<open>d\<close>: the agent read its clock at some moment
  between the Ping's leaving and the Pong's arriving, on the viewer's clock.\<close>

definition honest :: "int \<Rightarrow> u64 \<times> u64 \<times> u64 \<Rightarrow> bool" where
  "honest d e \<longleftrightarrow>
     (case e of (sent, agent, received) \<Rightarrow>
        \<exists>x. uint sent \<le> x \<and> x \<le> uint received \<and> uint agent = x + d)"

definition clock_run :: "(u64 \<times> u64 \<times> u64) list \<Rightarrow> clock_sync" where
  "clock_run es = foldl (\<lambda>s (sent, agent, received). clock_add sent agent received s) clock_new es"

definition good_sample :: "int \<Rightarrow> clock_sample \<Rightarrow> bool" where
  "good_sample d s \<longleftrightarrow> \<bar>sample_offset_us s - d\<bar> \<le> uint (rtt_us s div 2) + 1"

lemma honest_sample:
  assumes "honest d (sent, agent, received)" and "checked_sub received sent = Some rtt"
  shows "good_sample d \<lparr>rtt_us = rtt, sample_offset_us = uint agent - uint (sent + rtt div 2)\<rparr>"
proof -
  obtain x where x: "uint sent \<le> x" "x \<le> uint received" "uint agent = x + d"
    using assms(1) by (auto simp: honest_def)
  have rtt: "rtt = received - sent" "sent \<le> received" using assms(2) by (auto simp: checked_sub_Some_iff)
  then have ur: "uint rtt = uint received - uint sent" by (simp add: uint_minus_simple_alt word_le_def)
  have half: "uint (rtt div 2) = uint rtt div 2" by (simp add: uint_div)
  have "uint sent + uint rtt div 2 < 2 ^ 64"
    using ur uint_lt2p [of received] uint_ge_0 [of rtt] by simp
  then have mid: "uint (sent + rtt div 2) = uint sent + uint rtt div 2"
    using half by (simp add: uint_add_lem [THEN iffD1])
  have "\<bar>x - (uint sent + uint rtt div 2)\<bar> \<le> uint rtt div 2 + 1" using x ur by linarith
  then show ?thesis using x(3) mid half by (simp add: good_sample_def)
qed

lemma clock_add_good:
  assumes "\<forall>s\<in>set samples. good_sample d s" and "length samples \<le> WINDOW" and "honest d (sent, agent, received)"
  shows "(\<forall>s\<in>set (clock_add sent agent received samples). good_sample d s) \<and>
    length (clock_add sent agent received samples) \<le> WINDOW"
proof -
  have "set (tl samples) \<subseteq> set samples" by (cases samples) auto
  then show ?thesis using assms honest_sample [OF assms(3)]
    by (auto simp: clock_add_def Let_def WINDOW_def split: option.splits)
qed

lemma clock_run_good:
  assumes "\<forall>e\<in>set es. honest d e"
  shows "(\<forall>s\<in>set (clock_run es). good_sample d s) \<and> length (clock_run es) \<le> WINDOW"
  using assms
proof (induction es rule: rev_induct)
  case Nil
  then show ?case by (simp add: clock_run_def clock_new_def)
next
  case (snoc e es)
  then show ?case using clock_add_good [of "clock_run es" d]
    by (cases e) (auto simp: clock_run_def)
qed

lemma best_member: "best samples = Some s \<Longrightarrow> s \<in> set samples"
  unfolding best_def by (rule reduce_in_set) auto

text \<open>After any exchanges between two clocks that differ by a constant, the offset
  reported is within the uncertainty reported, to a microsecond of rounding, and at most 32
  samples are kept.\<close>

theorem offset_within_uncertainty:
  assumes "\<forall>e\<in>set es. honest d e"
    and "offset_us (clock_run es) = Some off" and "uncertainty_us (clock_run es) = Some u"
  shows "\<bar>off - d\<bar> \<le> uint u + 1 \<and> length (clock_run es) \<le> 32"
proof -
  obtain s where s: "best (clock_run es) = Some s" "off = sample_offset_us s" "u = rtt_us s div 2"
    using assms(2,3) by (auto simp: offset_us_def uncertainty_us_def)
  then show ?thesis using clock_run_good [OF assms(1)] best_member [OF s(1)]
    by (auto simp: good_sample_def WINDOW_def)
qed

theorem offset_within_uncertainty_witness:
  "offset_us (clock_run [(1000, 900, 1100)]) = Some (- 150) \<and> \<bar>(- 150) - (- 120)\<bar> \<le> uint (50 :: u64) + (1 :: int)"
proof -
  have h: "\<forall>e\<in>set [(1000 :: u64, 900 :: u64, 1100 :: u64)]. honest (- 120) e"
    by (auto simp: honest_def)
  have run: "clock_run [(1000, 900, 1100)] = [\<lparr>rtt_us = 100, sample_offset_us = - 150\<rparr>]"
    by (simp add: clock_run_def clock_new_def clock_add_def checked_sub_def fits_i64_def WINDOW_def)
  have "offset_us (clock_run [(1000, 900, 1100)]) = Some (- 150)"
    "uncertainty_us (clock_run [(1000, 900, 1100)]) = Some 50"
    unfolding run by (simp_all add: offset_us_def uncertainty_us_def best_def)
  then show ?thesis using offset_within_uncertainty [OF h] by simp
qed

end
