(* ===== verification/Typing.thy ===== *)
theory Typing
  imports Proto
begin

text \<open>
  Text typed out as keystrokes (\<open>crates/core/src/typing.rs\<close>), and the reference it is
  compared with: the strokes of the whole text, one after the other.
\<close>

definition MAX_TYPED :: nat where "MAX_TYPED = 4096"
definition PIECE :: nat where "PIECE = 32"
definition ENTER :: u16 where "ENTER = 0x28"
definition TAB :: u16 where "TAB = 0x2B"

definition flush :: "str \<Rightarrow> input list \<Rightarrow> input list" where
  "flush piece out = (if piece = [] then out else out @ [Text piece])"

definition press :: "u16 \<Rightarrow> input list \<Rightarrow> input list" where
  "press scancode out = out @ [Key scancode True, Key scancode False]"

fun type_loop :: "str \<Rightarrow> nat \<Rightarrow> str \<Rightarrow> input list \<Rightarrow> input list \<times> bool" where
  "type_loop [] typed piece out = (flush piece out, False)"
| "type_loop (c # cs) typed piece out =
     (if typed = MAX_TYPED then (flush piece out, True)
      else if c = 13 \<and> cs \<noteq> [] \<and> hd cs = 10 then type_loop cs typed piece out
      else if c = 13 \<or> c = 10 then type_loop cs (typed + 1) [] (press ENTER (flush piece out))
      else if c = 9 then type_loop cs (typed + 1) [] (press TAB (flush piece out))
      else if is_control c then type_loop cs typed piece out
      else
        let piece' = piece @ [c] in
        if length piece' = PIECE then type_loop cs (typed + 1) [] (flush piece' out)
        else type_loop cs (typed + 1) piece' out)"

definition keystrokes :: "str \<Rightarrow> input list \<times> bool" where
  "keystrokes text = type_loop text 0 [] []"

subsection \<open>The reference\<close>

datatype stroke = Typed rchar | Pressed u16

fun strokes :: "str \<Rightarrow> stroke list" where
  "strokes [] = []"
| "strokes (c # cs) =
     (if c = 13 \<and> cs \<noteq> [] \<and> hd cs = 10 then strokes cs
      else if c = 13 \<or> c = 10 then Pressed ENTER # strokes cs
      else if c = 9 then Pressed TAB # strokes cs
      else if is_control c then strokes cs
      else Typed c # strokes cs)"

datatype host_event = HostChar rchar | HostDown u16 | HostUp u16 | HostOther

fun stroke_events :: "stroke \<Rightarrow> host_event list" where
  "stroke_events (Typed c) = [HostChar c]"
| "stroke_events (Pressed k) = [HostDown k, HostUp k]"

text \<open>What the host does with the messages: types the characters, moves the keys.\<close>

fun input_events :: "input \<Rightarrow> host_event list" where
  "input_events (Text s) = map HostChar s"
| "input_events (Key k True) = [HostDown k]"
| "input_events (Key k False) = [HostUp k]"
| "input_events _ = [HostOther]"

definition host_events :: "input list \<Rightarrow> host_event list" where
  "host_events is = concat (map input_events is)"

definition good_message :: "input \<Rightarrow> bool" where
  "good_message i \<longleftrightarrow>
     (case i of
        Text s \<Rightarrow> s \<noteq> [] \<and> length s \<le> PIECE \<and> list_all (\<lambda>c. \<not> is_control c) s
      | Key k _ \<Rightarrow> k = ENTER \<or> k = TAB
      | _ \<Rightarrow> False)"

lemma host_events_append [simp]: "host_events (a @ b) = host_events a @ host_events b"
  by (simp add: host_events_def)

lemma host_events_flush [simp]: "host_events (flush piece out) = host_events out @ map HostChar piece"
  by (simp add: flush_def host_events_def)

lemma host_events_press [simp]: "host_events (press k out) = host_events out @ [HostDown k, HostUp k]"
  by (simp add: press_def host_events_def)

lemma type_loop_events:
  assumes "typed \<le> MAX_TYPED"
  shows "host_events (fst (type_loop cs typed piece out)) =
    host_events out @ map HostChar piece @ concat (map stroke_events (take (MAX_TYPED - typed) (strokes cs)))"
  using assms
proof (induction cs typed piece out rule: type_loop.induct)
  case (1 typed piece out)
  then show ?case by simp
next
  case (2 c cs typed piece out)
  show ?case
  proof (cases "typed = MAX_TYPED")
    case True
    then show ?thesis by simp
  next
    case False
    then have less: "typed < MAX_TYPED" and diff: "MAX_TYPED - typed = Suc (MAX_TYPED - (typed + 1))"
      using "2.prems" by simp_all
    consider (cr) "c = 13 \<and> cs \<noteq> [] \<and> hd cs = 10"
      | (line) "\<not> (c = 13 \<and> cs \<noteq> [] \<and> hd cs = 10)" "c = 13 \<or> c = 10"
      | (tab) "c = 9" | (control) "c \<noteq> 13" "c \<noteq> 10" "c \<noteq> 9" "is_control c"
      | (full) "c \<noteq> 13" "c \<noteq> 10" "c \<noteq> 9" "\<not> is_control c" "length (piece @ [c]) = PIECE"
      | (more) "c \<noteq> 13" "c \<noteq> 10" "c \<noteq> 9" "\<not> is_control c" "length (piece @ [c]) \<noteq> PIECE" by blast
    then show ?thesis
    proof cases
      case cr
      then show ?thesis using False "2.IH"(1) less by auto
    next
      case line
      then show ?thesis using False "2.IH"(2) less diff by auto
    next
      case tab
      then show ?thesis using False "2.IH"(3) less diff by auto
    next
      case control
      then show ?thesis using False "2.IH"(4) less by auto
    next
      case full
      then show ?thesis using False "2.IH"(5) less diff by auto
    next
      case more
      then show ?thesis using False "2.IH"(6) less diff by auto
    qed
  qed
qed

lemma type_loop_good:
  assumes "list_all good_message out" and "length piece < PIECE" and "list_all (\<lambda>c. \<not> is_control c) piece"
  shows "list_all good_message (fst (type_loop cs typed piece out))"
proof -
  have flush: "list_all good_message (flush p o')"
    if "list_all good_message o'" "length p \<le> PIECE" "list_all (\<lambda>c. \<not> is_control c) p" for p o'
    using that by (simp add: flush_def good_message_def)
  have press: "list_all good_message (press k o')" if "list_all good_message o'" "k = ENTER \<or> k = TAB" for k o'
    using that by (simp add: press_def good_message_def)
  have "0 < PIECE" by (simp add: PIECE_def)
  with assms show ?thesis
    by (induction cs typed piece out rule: type_loop.induct) (auto simp: Let_def flush press)
qed

lemma type_loop_cut:
  "typed \<le> MAX_TYPED \<Longrightarrow> snd (type_loop cs typed piece out) = False \<Longrightarrow> typed + length (strokes cs) \<le> MAX_TYPED"
  by (induction cs typed piece out rule: type_loop.induct) (auto simp: Let_def split: if_splits)

text \<open>Typing a text presses and types on the host exactly the strokes of its first 4096
  typed characters, in order; every message is a piece of 1 to 32 characters without control
  characters, or one press or release of Enter or Tab; and when it is not reported cut, nothing
  of the text is left out.\<close>

theorem keystrokes_type_the_text:
  "case keystrokes text of (messages, short) \<Rightarrow>
     host_events messages = concat (map stroke_events (take MAX_TYPED (strokes text))) \<and>
     list_all good_message messages \<and> (short \<or> take MAX_TYPED (strokes text) = strokes text)"
proof -
  have "list_all good_message (fst (type_loop text 0 [] []))"
    by (rule type_loop_good) (simp_all add: PIECE_def)
  moreover have "host_events (fst (type_loop text 0 [] [])) =
    concat (map stroke_events (take MAX_TYPED (strokes text)))"
    using type_loop_events [of 0 "text" "[]" "[]"] by (simp add: host_events_def)
  moreover have "snd (type_loop text 0 [] []) \<or> length (strokes text) \<le> MAX_TYPED"
    using type_loop_cut [of 0 "text" "[]" "[]"] by auto
  ultimately show ?thesis by (auto simp: keystrokes_def split_def)
qed

end
