(* ===== verification/Rendezvous.thy ===== *)
theory Rendezvous
  imports Release
begin

text \<open>
  Talking to the server (\<open>crates/core/src/rendezvous.rs\<close>): device IDs and their text,
  the messages, and the name a listed device goes by.
\<close>

subsection \<open>Device IDs\<close>

type_synonym device_id = u64

definition MODULUS :: u64 where "MODULUS = 10000000000"

definition from_fingerprint :: "fingerprint \<Rightarrow> device_id" where
  "from_fingerprint fp = word_of_nat (from_be_bytes (take 8 fp)) mod MODULUS"

definition device_id_display :: "device_id \<Rightarrow> str" where
  "device_id_display d =
     (let ds = digits_of 10 (unat d) in take 3 ds @ [32] @ take 3 (drop 3 ds) @ [32] @ drop 6 ds)"

definition device_id_from_str :: "str \<Rightarrow> device_id option" where
  "device_id_from_str s =
     (let ds = filter (\<lambda>c. \<not> (c = 32 \<or> c = 45)) s in
      if length (utf8 ds) \<noteq> 10 \<or> \<not> list_all is_ascii_digit (utf8 ds) then None
      else if read_nat ds < 2 ^ 64 then Some (word_of_nat (read_nat ds)) else None)"

subsection \<open>Messages\<close>

datatype ip = V4 u32 | V6 "128 word"

record socket_addr =
  sa_ip :: ip
  sa_port :: u16

record enrollment =
  en_token :: str
  en_name :: str
  en_os :: str
  en_version :: str

datatype to_server =
    Register "socket_addr list"
  | Connect device_id "socket_addr list"
  | Ready u64
  | Decline u64
  | Enroll enrollment
  | ConnectAs device_id "socket_addr list" str
  | Update str str version
  | Fetch
  | Running str str
  | Devices str

record listed =
  li_id :: device_id
  li_name :: bytes
  li_online :: bool
  li_role :: role

datatype refusal =
    Offline | NoCertificate | IdTaken | Declined | TooManyAttempts | Protocol | Enrollment
  | NotSignedIn | NotAllowed | Busy

datatype from_server =
    Registered device_id socket_addr
  | Incoming u64 "socket_addr list"
  | Peer fingerprint "socket_addr list"
  | Refused refusal
  | Enrolled device_id
  | Granted signed_grant
  | Offered "signed_release option"
  | DeviceList "listed list" u64

fun refusal_text :: "refusal \<Rightarrow> str" where
  "refusal_text Offline = lit ''no device with that ID is online on this server''"
| "refusal_text NoCertificate = lit ''the agent connected without its certificate''"
| "refusal_text IdTaken = lit ''another device already holds this ID''"
| "refusal_text Declined = lit ''the device did not accept the connection''"
| "refusal_text TooManyAttempts = lit ''too many attempts; try again in a minute''"
| "refusal_text Protocol = lit ''unexpected message''"
| "refusal_text Enrollment = lit ''the enrollment token is wrong, expired or used up''"
| "refusal_text NotSignedIn = lit ''the server does not know that API token''"
| "refusal_text NotAllowed = lit ''you have no grant for that device''"
| "refusal_text Busy = lit ''the server is busy; try again later''"

subsection \<open>Listed names\<close>

definition MAX_LISTED :: nat where "MAX_LISTED = 1000"
definition MAX_LISTED_NAME :: nat where "MAX_LISTED_NAME = 120"

text \<open>The loop that steps back to a character boundary. Position 0 is one.\<close>

function boundary_before :: "bytes \<Rightarrow> nat \<Rightarrow> nat" where
  "boundary_before bs e = (if is_char_boundary bs e then e else boundary_before bs (e - 1))"
  by pat_completeness auto
termination
  by (relation "measure (\<lambda>(bs, e). e)") (auto simp: is_char_boundary_def intro: gr0I)

declare boundary_before.simps [simp del]

definition listed_name :: "str \<Rightarrow> bytes" where
  "listed_name name =
     (let bs = utf8 name in take (boundary_before bs (min (length bs) MAX_LISTED_NAME)) bs)"

subsection \<open>Device IDs read back\<close>

lemma device_id_digits:
  "filter (\<lambda>c. \<not> (c = 32 \<or> c = 45)) (device_id_display d) = digits_of 10 (unat d)"
proof -
  let ?ds = "digits_of 10 (unat d)"
  have keep: "filter (\<lambda>c. \<not> (c = 32 \<or> c = 45)) xs = xs" if "set xs \<subseteq> set ?ds" for xs
  proof -
    have "is_digit c" if "c \<in> set xs" for c using that \<open>set xs \<subseteq> set ?ds\<close> digits_of_digit by blast
    then show ?thesis unfolding filter_id_conv is_digit_def by fastforce
  qed
  have "set (take 3 ?ds) \<subseteq> set ?ds" "set (take 3 (drop 3 ?ds)) \<subseteq> set ?ds" "set (drop 6 ?ds) \<subseteq> set ?ds"
    by (auto dest: in_set_takeD in_set_dropD)
  then have "filter (\<lambda>c. \<not> (c = 32 \<or> c = 45)) (device_id_display d) =
      take 3 ?ds @ take 3 (drop 3 ?ds) @ drop 6 ?ds"
    using keep by (simp add: device_id_display_def Let_def)
  also have "drop 6 ?ds = drop 3 (drop 3 ?ds)" by simp
  also have "take 3 (drop 3 ?ds) @ drop 3 (drop 3 ?ds) = drop 3 ?ds" by (rule append_take_drop_id)
  also have "take 3 ?ds @ drop 3 ?ds = ?ds" by (rule append_take_drop_id)
  finally show ?thesis .
qed

lemma device_id_round_trip:
  assumes "unat d < 10 ^ 10"
  shows "device_id_from_str (device_id_display d) = Some d"
proof -
  have "\<forall>c\<in>set (digits_of 10 (unat d)). is_digit c" using digits_of_digit by blast
  then have "length (utf8 (digits_of 10 (unat d))) = 10" "list_all is_ascii_digit (utf8 (digits_of 10 (unat d)))"
    using utf8_digits is_ascii_digit_utf8 by simp_all
  moreover have "read_nat (digits_of 10 (unat d)) = unat d" using assms by (simp add: read_digits_of)
  ultimately show ?thesis
    using unsigned_less [of d, where ?'a = nat]
    unfolding device_id_from_str_def device_id_digits Let_def by simp
qed

lemma from_fingerprint_small: "unat (from_fingerprint fp) < 10 ^ 10"
  by (simp add: from_fingerprint_def MODULUS_def unat_mod)

subsection \<open>Where characters begin\<close>

lemma utf8_char_shape:
  assumes "c < 1114112"
  shows "\<exists>lead rest. utf8_char c = lead # rest \<and> length rest \<le> 3 \<and>
    \<not> (128 \<le> lead \<and> lead < 192) \<and> (\<forall>b\<in>set rest. 128 \<le> b \<and> b < 192)"
proof -
  have cont: "128 \<le> (word_of_nat (128 + n mod 64) :: u8) \<and> (word_of_nat (128 + n mod 64) :: u8) < 192" for n
  proof -
    have "128 + n mod 64 < 256" by simp
    then have "unat (word_of_nat (128 + n mod 64) :: u8) = 128 + n mod 64" by (rule unat_u8)
    then show ?thesis by (simp add: word_le_nat_alt word_less_nat_alt del: of_nat_add)
  qed
  have lead: "\<not> (128 \<le> (word_of_nat n :: u8) \<and> (word_of_nat n :: u8) < 192)" if "n < 128 \<or> 192 \<le> n" "n < 256" for n
    using that by (auto simp: word_le_nat_alt word_less_nat_alt unat_of_nat take_bit_eq_mod)
  have "c div 64 < 32" if "c < 2048" using that by simp
  moreover have "c div 4096 < 16" if "c < 65536" using that by simp
  moreover have "c div 262144 < 5" using assms by simp
  ultimately show ?thesis
    using lead [of c] lead [of "192 + c div 64"] lead [of "224 + c div 4096"] lead [of "240 + c div 262144"]
      cont [of c] cont [of "c div 64"] cont [of "c div 4096"]
    by (auto simp: utf8_char_def)
qed

lemma boundary_take:
  assumes "\<forall>c\<in>set s. c < 1114112"
  shows "is_char_boundary (utf8 s) (length (utf8 (take k s)))"
proof (cases "k < length s")
  case True
  then have "s = take k s @ s ! k # drop (Suc k) s" by (simp add: id_take_nth_drop)
  then have split: "utf8 s = utf8 (take k s) @ utf8_char (s ! k) @ utf8 (drop (Suc k) s)"
    by (metis utf8_simps(2,3))
  obtain lead rest where "utf8_char (s ! k) = lead # rest" "\<not> (128 \<le> lead \<and> lead < 192)"
    using utf8_char_shape [of "s ! k"] assms True nth_mem [of k s] by auto
  then show ?thesis unfolding is_char_boundary_def split by (simp add: nth_append)
next
  case False
  then show ?thesis by (simp add: is_char_boundary_def)
qed

lemma boundary_append: "a \<noteq> [] \<Longrightarrow> is_char_boundary (a @ b) (length a + j) \<Longrightarrow> is_char_boundary b j"
  by (auto simp: is_char_boundary_def nth_append_length_plus)

lemma boundary_iff:
  assumes "\<forall>c\<in>set s. c < 1114112" and "is_char_boundary (utf8 s) i"
  shows "\<exists>k. i = length (utf8 (take k s))"
  using assms
proof (induction s arbitrary: i)
  case Nil
  then show ?case by (simp add: is_char_boundary_def)
next
  case (Cons c s)
  obtain lead rest where c: "utf8_char c = lead # rest" "\<forall>b\<in>set rest. 128 \<le> b \<and> b < 192"
    using utf8_char_shape [of c] Cons.prems(1) by auto
  consider "i = 0" | (mid) "0 < i" "i < length (utf8_char c)" | (later) "length (utf8_char c) \<le> i" by linarith
  then show ?case
  proof cases
    case 1
    then show ?thesis by (intro exI [of _ 0]) simp
  next
    case mid
    then have "utf8 (c # s) ! i \<in> set rest" using c by (cases i) (auto simp: nth_append)
    then show ?thesis using Cons.prems(2) c mid by (auto simp: is_char_boundary_def)
  next
    case later
    then obtain j where j: "i = length (utf8_char c) + j" using le_Suc_ex by blast
    have "utf8 (c # s) = utf8_char c @ utf8 s" by simp
    then have "is_char_boundary (utf8 s) j"
      using Cons.prems(2) boundary_append [of "utf8_char c" "utf8 s" j] c(1) j by simp
    then have "is_char_boundary (utf8 s) (i - length (utf8_char c))" using j by simp
    then obtain k where "i - length (utf8_char c) = length (utf8 (take k s))"
      using Cons.IH Cons.prems(1) by auto
    then show ?thesis using later by (intro exI [of _ "Suc k"]) simp
  qed
qed

lemma boundary_before_spec:
  "boundary_before bs e \<le> e \<and> is_char_boundary bs (boundary_before bs e) \<and>
   (\<forall>i. boundary_before bs e < i \<longrightarrow> i \<le> e \<longrightarrow> \<not> is_char_boundary bs i)"
proof (induction bs e rule: boundary_before.induct)
  case (1 bs e)
  show ?case
  proof (cases "is_char_boundary bs e")
    case True
    then show ?thesis by (simp add: boundary_before.simps [of bs e])
  next
    case False
    then have e: "e \<noteq> 0" by (auto simp: is_char_boundary_def)
    have eq: "boundary_before bs e = boundary_before bs (e - 1)"
      using False by (simp add: boundary_before.simps [of bs e])
    have "\<not> is_char_boundary bs i" if "boundary_before bs (e - 1) < i" "i \<le> e" for i
      using that 1 [OF False] False by (cases "i = e") auto
    then show ?thesis unfolding eq using 1 [OF False] by auto
  qed
qed

lemma listed_name_prefix:
  assumes "\<forall>c\<in>set name. c < 1114112"
  shows "\<exists>k. listed_name name = utf8 (take k name) \<and> length (listed_name name) \<le> MAX_LISTED_NAME \<and>
    (k < length name \<longrightarrow> MAX_LISTED_NAME < length (utf8 (take (Suc k) name)))"
proof -
  let ?bs = "utf8 name"
  let ?e = "min (length ?bs) MAX_LISTED_NAME"
  define e where "e = boundary_before ?bs ?e"
  have e: "e \<le> ?e" "is_char_boundary ?bs e" "\<forall>i. e < i \<longrightarrow> i \<le> ?e \<longrightarrow> \<not> is_char_boundary ?bs i"
    using boundary_before_spec [of ?bs ?e] by (simp_all add: e_def)
  obtain k where k: "e = length (utf8 (take k name))" using boundary_iff [OF assms e(2)] by blast
  have whole: "?bs = utf8 (take k name) @ utf8 (drop k name)" by (metis append_take_drop_id utf8_simps(3))
  have name: "listed_name name = utf8 (take k name)"
    by (simp add: listed_name_def Let_def e_def [symmetric] k, subst whole, simp)
  moreover have "length (listed_name name) \<le> MAX_LISTED_NAME" using name k e(1) by simp
  moreover have "MAX_LISTED_NAME < length (utf8 (take (Suc k) name))" if less: "k < length name"
  proof (rule ccontr)
    let ?i = "length (utf8 (take (Suc k) name))"
    assume "\<not> MAX_LISTED_NAME < ?i"
    moreover have "?i \<le> length ?bs"
      by (metis append_take_drop_id le_add1 length_append utf8_simps(3))
    moreover have "e < ?i"
      using less utf8_char_shape [of "name ! k"] assms k by (auto simp: take_Suc_conv_app_nth)
    ultimately show False using e(3) boundary_take [OF assms, of "Suc k"] by auto
  qed
  ultimately show ?thesis by blast
qed

subsection \<open>Properties\<close>

text \<open>A device ID, ten digits made from the first eight bytes of the key's fingerprint,
  reads back from the text people are shown.\<close>

theorem device_id_reads_back:
  "device_id_from_str (device_id_display (from_fingerprint fp)) = Some (from_fingerprint fp) \<and>
   unat (from_fingerprint fp) < 10 ^ 10"
  using device_id_round_trip [OF from_fingerprint_small] from_fingerprint_small by blast

text \<open>A listed name is the longest run of whole characters of the name, from its start,
  that fits 120 bytes.\<close>

theorem listed_name_is_longest_prefix:
  assumes "list_all is_scalar name"
  shows "\<exists>k. listed_name name = utf8 (take k name) \<and> length (listed_name name) \<le> 120 \<and>
    (k < length name \<longrightarrow> 120 < length (utf8 (take (Suc k) name)))"
proof -
  have "\<forall>c\<in>set name. c < 1114112" using assms by (auto simp: list_all_iff is_scalar_def)
  then show ?thesis using listed_name_prefix [of name] by (simp add: MAX_LISTED_NAME_def)
qed

theorem listed_name_is_longest_prefix_witness:
  "\<exists>k. listed_name (replicate 61 233) = utf8 (take k (replicate 61 233)) \<and>
    length (listed_name (replicate 61 233)) \<le> 120 \<and>
    (k < length (replicate 61 (233 :: nat)) \<longrightarrow> 120 < length (utf8 (take (Suc k) (replicate 61 233))))"
  by (rule listed_name_is_longest_prefix) (simp add: is_scalar_def list_all_iff)

end
