(* ===== verification/Registry.thy ===== *)
theory Registry
  imports Rendezvous "HOL-Library.List_Lexorder" "HOL-Library.Product_Lexorder"
begin

text \<open>
  The server's introductions (\<open>crates/server/src/rendezvous.rs\<close>): who holds an ID, who
  may attempt how often, what a viewer is told, and how much a relayed session may carry.

  Every operation here runs under one lock of the source, so it is one step; what happens
  between two of them (a database lookup, an agent's answer) is an argument. Audit records,
  logs and counters that nothing reads back are left out. Time is in nanoseconds.
\<close>

subsection \<open>The ceiling of a relayed session\<close>

record ceiling =
  c_limit :: u64
  c_carried :: u64
  c_said :: bool

definition ceiling_new :: "u64 \<Rightarrow> ceiling" where
  "ceiling_new limit = \<lparr>c_limit = limit, c_carried = 0, c_said = False\<rparr>"

definition allows :: "nat \<Rightarrow> ceiling \<Rightarrow> bool \<times> ceiling" where
  "allows n c =
     (let carried = saturating_add (c_carried c) (word_of_nat n);
          c1 = c\<lparr>c_carried := c_carried c + word_of_nat n\<rparr> in
      if c_limit c = 0 \<or> carried \<le> c_limit c then (True, c1)
      else (False, c1\<lparr>c_said := True\<rparr>))"

text \<open>Datagrams of these sizes, from either side, one after the other: which are carried.\<close>

primrec carry :: "nat list \<Rightarrow> ceiling \<Rightarrow> bool list" where
  "carry [] c = []"
| "carry (n # ns) c = (case allows n c of (ok, c') \<Rightarrow> ok # carry ns c')"

subsection \<open>Addresses\<close>

definition MAX_ADDRESSES :: nat where "MAX_ADDRESSES = 8"

fun is_unspecified :: "ip \<Rightarrow> bool" where
  "is_unspecified (V4 a) = (a = 0)"
| "is_unspecified (V6 a) = (a = 0)"

definition usable_address :: "socket_addr \<Rightarrow> bool" where
  "usable_address a \<longleftrightarrow> \<not> is_unspecified (sa_ip a) \<and> sa_port a \<noteq> 0"

primrec add_candidates :: "socket_addr list \<Rightarrow> socket_addr list \<Rightarrow> socket_addr list" where
  "add_candidates [] out = out"
| "add_candidates (a # as) out =
     add_candidates as
       (if \<not> is_unspecified (sa_ip a) \<and> sa_port a \<noteq> 0 \<and> a \<notin> set out then out @ [a] else out)"

definition candidates :: "socket_addr list \<Rightarrow> socket_addr \<Rightarrow> socket_addr list" where
  "candidates reported observed = add_candidates (take MAX_ADDRESSES reported @ [observed]) []"

subsection \<open>Attempts\<close>

definition ATTEMPTS :: nat where "ATTEMPTS = 10"
definition ATTEMPT_WINDOW :: nat where "ATTEMPT_WINDOW = 60 * 1000000000"

text \<open>\<open>duration_since\<close> is zero for an instant that is later.\<close>

definition recent :: "nat \<Rightarrow> nat \<Rightarrow> bool" where
  "recent now t \<longleftrightarrow> now - t < ATTEMPT_WINDOW"

definition attempt :: "ip \<Rightarrow> nat \<Rightarrow> (ip \<rightharpoonup> nat list) \<Rightarrow> bool \<times> (ip \<rightharpoonup> nat list)" where
  "attempt addr now attempts =
     (let attempts1 = retain (\<lambda>_ times. times \<noteq> [] \<and> recent now (last times)) attempts;
          times = (case attempts1 addr of None \<Rightarrow> [] | Some ts \<Rightarrow> ts);
          times1 = dropWhile (\<lambda>t. \<not> recent now t) times in
      if length times1 \<ge> ATTEMPTS then (False, attempts1(addr \<mapsto> times1))
      else (True, attempts1(addr \<mapsto> times1 @ [now])))"

subsection \<open>Who holds an ID\<close>

record agent =
  ag_fingerprint :: fingerprint
  ag_reported :: "socket_addr list"
  ag_address :: socket_addr
  ag_registration :: u64
  ag_enrolled :: bool

record registry =
  agents :: "device_id \<rightharpoonup> agent"
  attempts :: "ip \<rightharpoonup> nat list"
  next_number :: u64

definition registry_new :: registry where
  "registry_new = \<lparr>agents = Map.empty, attempts = Map.empty, next_number = 0\<rparr>"

datatype claim = Take | Displace | Refuse

definition claim_id :: "(fingerprint \<times> bool) option \<Rightarrow> fingerprint \<Rightarrow> bool \<Rightarrow> claim" where
  "claim_id holder key enrolled =
     (case holder of
        None \<Rightarrow> Take
      | Some (held, held_enrolled) \<Rightarrow>
          if held = key then Take
          else if \<not> held_enrolled \<and> enrolled then Displace
          else Refuse)"

text \<open>\<open>register\<close>: the certificate's fingerprint, whether the device list knows it (looked up
  before), the addresses the agent reports and the one it is seen at. Besides the answer, the
  address of a stranger whose connection is closed.\<close>

definition register ::
  "fingerprint option \<Rightarrow> bool \<Rightarrow> socket_addr list \<Rightarrow> socket_addr \<Rightarrow> registry
     \<Rightarrow> (from_server \<times> socket_addr option) \<times> registry" where
  "register fp enrolled addresses observed r =
     (case fp of
        None \<Rightarrow> ((Refused NoCertificate, None), r)
      | Some key \<Rightarrow>
          let d = from_fingerprint key;
              number = next_number r;
              r1 = r\<lparr>next_number := number + 1\<rparr>;
              entry = \<lparr>ag_fingerprint = key, ag_reported = addresses, ag_address = observed,
                       ag_registration = number, ag_enrolled = enrolled\<rparr>;
              holder = agents r1 d in
          case claim_id (map_option (\<lambda>a. (ag_fingerprint a, ag_enrolled a)) holder) key enrolled of
            Refuse \<Rightarrow> ((Refused IdTaken, None), r1)
          | c \<Rightarrow> ((Registered d observed, if c = Displace then map_option ag_address holder else None),
                  r1\<lparr>agents := (agents r1)(d \<mapsto> entry)\<rparr>))"

definition remove_agent :: "device_id \<Rightarrow> u64 \<Rightarrow> registry \<Rightarrow> registry" where
  "remove_agent d registration r =
     (case agents r d of
        Some a \<Rightarrow> if ag_registration a = registration then r\<lparr>agents := (agents r)(d := None)\<rparr> else r
      | None \<Rightarrow> r)"

text \<open>The part of \<open>enroll\<close> after the device list took the device in.\<close>

definition mark_enrolled :: "fingerprint \<Rightarrow> registry \<Rightarrow> registry" where
  "mark_enrolled key r =
     (case agents r (from_fingerprint key) of
        Some a \<Rightarrow>
          if ag_fingerprint a = key
          then r\<lparr>agents := (agents r)(from_fingerprint key \<mapsto> a\<lparr>ag_enrolled := True\<rparr>)\<rparr> else r
      | None \<Rightarrow> r)"

definition enroll ::
  "fingerprint option \<Rightarrow> ip \<Rightarrow> nat \<Rightarrow> (fingerprint \<Rightarrow> bool) option \<Rightarrow> registry \<Rightarrow> from_server \<times> registry" where
  "enroll fp from_ip now devices r =
     (case fp of
        None \<Rightarrow> (Refused NoCertificate, r)
      | Some key \<Rightarrow>
          let (ok, as) = attempt from_ip now (attempts r); r1 = r\<lparr>attempts := as\<rparr> in
          if \<not> ok then (Refused TooManyAttempts, r1)
          else case devices of
                 None \<Rightarrow> (Refused Enrollment, r1)
               | Some takes \<Rightarrow>
                   if takes key then (Enrolled (from_fingerprint key), mark_enrolled key r1)
                   else (Refused Enrollment, r1))"

definition online :: "fingerprint \<Rightarrow> registry \<Rightarrow> socket_addr option" where
  "online key r =
     (case agents r (from_fingerprint key) of
        Some a \<Rightarrow> if ag_fingerprint a = key then Some (ag_address a) else None
      | None \<Rightarrow> None)"

subsection \<open>Introducing\<close>

record user =
  u_id :: int
  u_name :: str

record reachable =
  re_id :: int
  re_fingerprint :: fingerprint
  re_role :: role

text \<open>What it takes to hand out grants: the accounts, the grants and the server's key, as the
  functions an introduction calls. \<open>Inl\<close> is a database or signing error.\<close>

record access =
  api_user :: "str \<Rightarrow> unit + user option"
  reachable_by :: "int \<Rightarrow> unit + reachable list"
  issue :: "reachable \<Rightarrow> str \<Rightarrow> unit + signed_grant"

definition authorize ::
  "access option \<Rightarrow> str \<Rightarrow> device_id \<Rightarrow> registry \<Rightarrow> refusal + agent \<times> str \<times> signed_grant" where
  "authorize acc token d r =
     (case acc of
        None \<Rightarrow> Inl NotAllowed
      | Some A \<Rightarrow>
          (case api_user A token of
             Inl _ \<Rightarrow> Inl NotSignedIn
           | Inr None \<Rightarrow> Inl NotSignedIn
           | Inr (Some u) \<Rightarrow>
               (case reachable_by A (u_id u) of
                  Inl _ \<Rightarrow> Inl NotAllowed
                | Inr rs \<Rightarrow>
                    (case find (\<lambda>x. from_fingerprint (re_fingerprint x) = d) rs of
                       None \<Rightarrow> Inl NotAllowed
                     | Some device \<Rightarrow>
                         (case agents r d of
                            None \<Rightarrow> Inl Offline
                          | Some a \<Rightarrow>
                              if ag_fingerprint a \<noteq> re_fingerprint device then Inl Offline
                              else case issue A device (u_name u) of
                                     Inl _ \<Rightarrow> Inl NotAllowed
                                   | Inr sg \<Rightarrow> Inr (a, u_name u, sg))))))"

record introduction =
  in_agent :: agent
  in_session :: u64
  in_grant :: "(str \<times> signed_grant) option"

text \<open>\<open>answers agent message\<close>: whether the agent says it is ready, in time.\<close>

definition arrange ::
  "access option \<Rightarrow> (agent \<Rightarrow> from_server \<Rightarrow> bool) \<Rightarrow> nat \<Rightarrow> socket_addr \<Rightarrow> device_id \<Rightarrow> socket_addr list
     \<Rightarrow> str option \<Rightarrow> registry \<Rightarrow> (refusal + introduction) \<times> registry" where
  "arrange acc answers now observed d addresses token r =
     (let (ok, as) = attempt (sa_ip observed) now (attempts r); r1 = r\<lparr>attempts := as\<rparr> in
      if \<not> ok then (Inl TooManyAttempts, r1)
      else
        case (case token of
                None \<Rightarrow> (case agents r1 d of None \<Rightarrow> Inl Offline | Some a \<Rightarrow> Inr (a, None))
              | Some t \<Rightarrow>
                  (case authorize acc t d r1 of
                     Inl e \<Rightarrow> Inl e
                   | Inr (a, name, sg) \<Rightarrow> Inr (a, Some (name, sg)))) of
          Inl e \<Rightarrow> (Inl e, r1)
        | Inr (a, grant) \<Rightarrow>
            let session = next_number r1; r2 = r1\<lparr>next_number := session + 1\<rparr> in
            if answers a (Incoming session (candidates addresses observed))
            then (Inr \<lparr>in_agent = a, in_session = session, in_grant = grant\<rparr>, r2)
            else (Inl Declined, r2))"

definition messages :: "introduction \<Rightarrow> from_server list" where
  "messages i =
     (case in_grant i of None \<Rightarrow> [] | Some (_, sg) \<Rightarrow> [Granted sg]) @
     [Peer (ag_fingerprint (in_agent i))
        (candidates (ag_reported (in_agent i)) (ag_address (in_agent i)))]"

text \<open>The devices a user may reach, by name. \<open>devices\<close> is the device list: id and name.\<close>

definition list_reachable ::
  "access option \<Rightarrow> (unit + (int \<times> str) list) option \<Rightarrow> str \<Rightarrow> ip \<Rightarrow> nat \<Rightarrow> registry
     \<Rightarrow> (refusal + from_server) \<times> registry" where
  "list_reachable acc devices token from_ip now r =
     (let (ok, as) = attempt from_ip now (attempts r); r1 = r\<lparr>attempts := as\<rparr> in
      if \<not> ok then (Inl TooManyAttempts, r1)
      else case (acc, devices) of
        (Some A, Some ds) \<Rightarrow>
          (case api_user A token of
             Inl _ \<Rightarrow> (Inl NotSignedIn, r1)
           | Inr None \<Rightarrow> (Inl NotSignedIn, r1)
           | Inr (Some u) \<Rightarrow>
               (case reachable_by A (u_id u) of
                  Inl _ \<Rightarrow> (Inl NotAllowed, r1)
                | Inr rs \<Rightarrow>
                    (case ds of
                       Inl _ \<Rightarrow> (Inl NotAllowed, r1)
                     | Inr names \<Rightarrow>
                         let entry = (\<lambda>x. \<lparr>li_id = from_fingerprint (re_fingerprint x),
                               li_name = listed_name (case map_of (rev names) (re_id x) of None \<Rightarrow> [] | Some n \<Rightarrow> n),
                               li_online = online (re_fingerprint x) r1 \<noteq> None, li_role = re_role x\<rparr>);
                             sorted = sort_key (\<lambda>l. (li_name l, li_id l)) (map entry rs) in
                         (Inr (DeviceList (take MAX_LISTED sorted) (word_of_nat (length sorted - MAX_LISTED))), r1))))
      | _ \<Rightarrow> (Inl NotAllowed, r1))"

subsection \<open>The ceiling holds\<close>

lemma saturating_add_le_iff:
  fixes a b l :: u64
  assumes "unat a + unat b < 2 ^ 64"
  shows "saturating_add a b \<le> l \<longleftrightarrow> unat a + unat b \<le> unat l"
proof -
  have u: "unat (a + b) = unat a + unat b" using assms by (simp add: unat_word_ariths)
  then have "\<not> a + b < a" by (simp add: word_less_nat_alt)
  then show ?thesis using u by (simp add: saturating_add_def word_le_nat_alt)
qed

lemma carry_ceiling:
  assumes "c_limit c \<noteq> 0" and "unat (c_carried c) + sum_list ns < 2 ^ 64"
  shows "sum_list (map fst (filter snd (zip ns (carry ns c)))) + unat (c_carried c) \<le> max (unat (c_limit c)) (unat (c_carried c)) \<and>
    (unat (c_carried c) > unat (c_limit c) \<longrightarrow> list_all Not (carry ns c))"
  using assms
proof (induction ns arbitrary: c)
  case Nil
  then show ?case by simp
next
  case (Cons n ns)
  have n: "unat (word_of_nat n :: u64) = n" using Cons.prems(2) by (simp add: unat_of_nat take_bit_eq_mod)
  have sum: "unat (c_carried c + word_of_nat n) = unat (c_carried c) + n"
    using Cons.prems(2) n by (simp add: unat_word_ariths)
  have ok: "saturating_add (c_carried c) (word_of_nat n) \<le> c_limit c \<longleftrightarrow> unat (c_carried c) + n \<le> unat (c_limit c)"
    using saturating_add_le_iff [of "c_carried c" "word_of_nat n" "c_limit c"] n Cons.prems(2) by simp
  obtain b c' where step: "allows n c = (b, c')" by force
  have c': "c_limit c' = c_limit c" "unat (c_carried c') = unat (c_carried c) + n"
    "b \<longleftrightarrow> unat (c_carried c) + n \<le> unat (c_limit c)"
    using step sum ok Cons.prems(1) by (auto simp: allows_def Let_def split: if_splits)
  have IH: "sum_list (map fst (filter snd (zip ns (carry ns c')))) + unat (c_carried c') \<le> max (unat (c_limit c')) (unat (c_carried c')) \<and>
    (unat (c_carried c') > unat (c_limit c') \<longrightarrow> list_all Not (carry ns c'))"
    using Cons.prems c' by (intro Cons.IH) simp_all
  have none: "filter snd (zip ns (carry ns c')) = []" if "list_all Not (carry ns c')"
    using that by (auto simp: filter_empty_conv list_all_iff dest: set_zip_rightD)
  show ?case
  proof (cases b)
    case True
    then show ?thesis using IH c' step by auto
  next
    case False
    then have over: "list_all Not (carry ns c')" using IH c' by auto
    show ?thesis using False over none [OF over] step by (simp add: filter_False)
  qed
qed

subsection \<open>Attempts are limited\<close>

text \<open>The times at which attempts from \<open>a\<close> were let through.\<close>

primrec attempt_history :: "ip \<Rightarrow> (ip \<times> nat) list \<Rightarrow> (ip \<rightharpoonup> nat list) \<Rightarrow> nat list" where
  "attempt_history a [] tb = []"
| "attempt_history a (x # xs) tb =
     (case attempt (fst x) (snd x) tb of
        (ok, tb') \<Rightarrow> (if ok \<and> fst x = a then [snd x] else []) @ attempt_history a xs tb')"

definition times_of :: "ip \<Rightarrow> (ip \<rightharpoonup> nat list) \<Rightarrow> nat list" where
  "times_of a tb = (case tb a of None \<Rightarrow> [] | Some ts \<Rightarrow> ts)"

definition tracked :: "nat \<Rightarrow> nat list \<Rightarrow> nat list \<Rightarrow> bool" where
  "tracked now H ts \<longleftrightarrow>
     sorted H \<and> (\<forall>t\<in>set H. t \<le> now) \<and> (\<exists>old. H = old @ ts \<and> (\<forall>t\<in>set old. \<not> recent now t))"

definition in_any_window :: "nat \<Rightarrow> nat list \<Rightarrow> bool" where
  "in_any_window n H \<longleftrightarrow> (\<forall>w. length (filter (\<lambda>t. w \<le> t \<and> t < w + ATTEMPT_WINDOW) H) \<le> n)"

lemma not_recent_mono: "\<not> recent now t \<Longrightarrow> now \<le> later \<Longrightarrow> \<not> recent later t"
  by (simp add: recent_def)

lemma tracked_later:
  assumes "tracked now H ts" and "now \<le> later"
  shows "tracked later H ts"
proof -
  obtain old where old: "H = old @ ts" "\<forall>t\<in>set old. \<not> recent now t" "sorted H" "\<forall>t\<in>set H. t \<le> now"
    using assms(1) by (auto simp: tracked_def)
  have "\<forall>t\<in>set old. \<not> recent later t" "\<forall>t\<in>set H. t \<le> later"
    using old(2,4) not_recent_mono assms(2) le_trans by blast+
  then show ?thesis using old(1,3) by (auto simp: tracked_def)
qed

lemma tracked_forget:
  assumes "tracked now H (old @ ts)" and "\<forall>t\<in>set old. \<not> recent now t"
  shows "tracked now H ts"
proof -
  from assms(1) obtain o' where "H = o' @ old @ ts" "\<forall>t\<in>set o'. \<not> recent now t" "sorted H" "\<forall>t\<in>set H. t \<le> now"
    by (auto simp: tracked_def)
  then show ?thesis using assms(2) unfolding tracked_def by (intro conjI exI [of _ "o' @ old"]) auto
qed

lemma tracked_prune:
  assumes "tracked now H (times_of a tb)"
  shows "tracked now H (times_of a (retain (\<lambda>_ times. times \<noteq> [] \<and> recent now (last times)) tb))"
proof (cases "times_of a (retain (\<lambda>_ times. times \<noteq> [] \<and> recent now (last times)) tb) = times_of a tb")
  case True
  then show ?thesis using assms by simp
next
  case False
  then have ts: "times_of a tb \<noteq> []" "\<not> recent now (last (times_of a tb))"
    "times_of a (retain (\<lambda>_ times. times \<noteq> [] \<and> recent now (last times)) tb) = []"
    by (auto simp: times_of_def retain_def split: option.splits if_splits)
  have "sorted (times_of a tb)" using assms by (auto simp: tracked_def sorted_append)
  then have "t \<le> last (times_of a tb)" if "t \<in> set (times_of a tb)" for t
    using that ts(1) by (cases "times_of a tb" rule: rev_cases) (auto simp: sorted_append)
  then have "\<forall>t\<in>set (times_of a tb). \<not> recent now t"
    using ts(2) unfolding recent_def by (meson diff_le_mono2 le_less_trans)
  then show ?thesis using tracked_forget [of now H "times_of a tb" "[]"] assms ts(3) by simp
qed

lemma tracked_dropWhile:
  "tracked now H ts \<Longrightarrow> tracked now H (dropWhile (\<lambda>t. \<not> recent now t) ts)"
  using tracked_forget [of now H "takeWhile (\<lambda>t. \<not> recent now t) ts" "dropWhile (\<lambda>t. \<not> recent now t) ts"]
  by (auto dest: set_takeWhileD)

lemma tracked_allow:
  assumes "tracked now H ts" and "length ts < n" and "in_any_window n H"
  shows "tracked now (H @ [now]) (ts @ [now]) \<and> in_any_window n (H @ [now])"
proof -
  obtain old where old: "H = old @ ts" "\<forall>t\<in>set old. \<not> recent now t" "sorted H" "\<forall>t\<in>set H. t \<le> now"
    using assms(1) by (auto simp: tracked_def)
  have "length (filter (\<lambda>t. w \<le> t \<and> t < w + ATTEMPT_WINDOW) (H @ [now])) \<le> n" for w
  proof (cases "w \<le> now \<and> now < w + ATTEMPT_WINDOW")
    case True
    then have "filter (\<lambda>t. w \<le> t \<and> t < w + ATTEMPT_WINDOW) old = []"
      using old(2) by (auto simp: filter_empty_conv recent_def)
    then have "length (filter (\<lambda>t. w \<le> t \<and> t < w + ATTEMPT_WINDOW) H) \<le> length ts"
      using old(1) by simp
    then show ?thesis using True assms(2) by simp
  next
    case False
    then show ?thesis using assms(3) by (auto simp: in_any_window_def)
  qed
  then show ?thesis using old by (auto simp: tracked_def in_any_window_def sorted_append)
qed

lemma attempt_tracked:
  assumes "tracked now H (times_of a tb)" and "in_any_window ATTEMPTS H" and "now \<le> later"
    and step: "attempt b later tb = (ok, tb')"
  shows "tracked later (H @ (if ok \<and> b = a then [later] else [])) (times_of a tb') \<and>
    in_any_window ATTEMPTS (H @ (if ok \<and> b = a then [later] else []))"
proof -
  let ?tb = "retain (\<lambda>_ times. times \<noteq> [] \<and> recent later (last times)) tb"
  have tr: "tracked later H (times_of a ?tb)" by (rule tracked_prune [OF tracked_later [OF assms(1,3)]])
  let ?ts = "dropWhile (\<lambda>t. \<not> recent later t) (times_of b ?tb)"
  have tb': "(ok, tb') = (if length ?ts \<ge> ATTEMPTS then (False, ?tb(b \<mapsto> ?ts)) else (True, ?tb(b \<mapsto> ?ts @ [later])))"
    using step unfolding attempt_def Let_def times_of_def by (rule sym)
  show ?thesis
  proof (cases "b = a")
    case False
    then have "times_of a tb' = times_of a ?tb" using tb' by (auto simp: times_of_def split: if_splits)
    then show ?thesis using tr False assms(2) by simp
  next
    case True
    have tr': "tracked later H ?ts" using tracked_dropWhile [OF tr] True by simp
    show ?thesis using tb' True tr' tracked_allow [OF tr' _ assms(2)] assms(2)
      by (auto simp: times_of_def split: if_splits)
  qed
qed

lemma history_limited:
  assumes "tracked now H (times_of a tb)" and "in_any_window ATTEMPTS H"
    and "sorted (map snd xs)" and "\<forall>x\<in>set xs. now \<le> snd x"
  shows "in_any_window ATTEMPTS (H @ attempt_history a xs tb)"
  using assms
proof (induction xs arbitrary: now H tb)
  case Nil
  then show ?case by simp
next
  case (Cons x xs)
  obtain ok tb' where step: "attempt (fst x) (snd x) tb = (ok, tb')" by force
  let ?H = "H @ (if ok \<and> fst x = a then [snd x] else [])"
  have "tracked (snd x) ?H (times_of a tb') \<and> in_any_window ATTEMPTS ?H"
    using attempt_tracked [OF Cons.prems(1,2) _ step] Cons.prems(4) by simp
  then have "in_any_window ATTEMPTS (?H @ attempt_history a xs tb')"
    using Cons.IH [of "snd x" ?H tb'] Cons.prems(3) by simp
  then show ?case using step by simp
qed

subsection \<open>Candidates\<close>

lemma add_candidates_spec:
  assumes "distinct out" and "\<forall>a\<in>set out. usable_address a"
  shows "distinct (add_candidates as out) \<and>
    set (add_candidates as out) = set out \<union> {a \<in> set as. usable_address a} \<and>
    length (add_candidates as out) \<le> length out + length as"
  using assms
proof (induction as arbitrary: out)
  case Nil
  then show ?case by simp
next
  case (Cons a as)
  let ?out = "if usable_address a \<and> a \<notin> set out then out @ [a] else out"
  have "distinct ?out" "\<forall>a\<in>set ?out. usable_address a" using Cons.prems by auto
  from Cons.IH [OF this] show ?case by (auto simp: usable_address_def split: if_splits)
qed

subsection \<open>Runs of the registry\<close>

datatype registry_event =
    ERegister "fingerprint option" bool "socket_addr list" socket_addr
  | ERemove device_id u64
  | EEnrolled fingerprint
  | EAttempt ip nat
  | ESession

fun registry_step :: "registry_event \<Rightarrow> registry \<Rightarrow> registry" where
  "registry_step (ERegister fp en as ob) r = snd (register fp en as ob r)"
| "registry_step (ERemove d n) r = remove_agent d n r"
| "registry_step (EEnrolled key) r = mark_enrolled key r"
| "registry_step (EAttempt a now) r = r\<lparr>attempts := snd (attempt a now (attempts r))\<rparr>"
| "registry_step ESession r = r\<lparr>next_number := next_number r + 1\<rparr>"

definition registry_run :: "registry_event list \<Rightarrow> registry \<Rightarrow> registry" where
  "registry_run es r = foldl (\<lambda>r e. registry_step e r) r es"

definition ids_match :: "registry \<Rightarrow> bool" where
  "ids_match r \<longleftrightarrow> (\<forall>d a. agents r d = Some a \<longrightarrow> from_fingerprint (ag_fingerprint a) = d)"

lemma register_cases:
  assumes "register fp en as ob r = (ans, r')"
  obtains (no_key) "fp = None" "r' = r"
  | (taken) key a where "fp = Some key" "agents r (from_fingerprint key) = Some a" "ag_fingerprint a \<noteq> key"
      "ag_enrolled a \<or> \<not> en" "agents r' = agents r" "fst ans = Refused IdTaken"
  | (held) key a where "fp = Some key" "ag_fingerprint a = key" "ag_enrolled a = en"
      "agents r' = (agents r)(from_fingerprint key \<mapsto> a)"
      "\<forall>b. agents r (from_fingerprint key) = Some b \<longrightarrow> ag_fingerprint b = key \<or> (en \<and> \<not> ag_enrolled b)"
proof (cases fp)
  case None
  then show ?thesis using assms no_key by (simp add: register_def)
next
  case (Some key)
  let ?d = "from_fingerprint key"
  let ?claim = "claim_id (map_option (\<lambda>a. (ag_fingerprint a, ag_enrolled a)) (agents r ?d)) key en"
  show ?thesis
  proof (cases "?claim = Refuse")
    case True
    then obtain a where "agents r ?d = Some a" "ag_fingerprint a \<noteq> key" "ag_enrolled a \<or> \<not> en"
      by (auto simp: claim_id_def split: option.splits if_splits)
    moreover have "agents r' = agents r" "fst ans = Refused IdTaken"
      using assms Some True by (auto simp: register_def Let_def)
    ultimately show ?thesis using taken Some by blast
  next
    case False
    let ?a = "\<lparr>ag_fingerprint = key, ag_reported = as, ag_address = ob, ag_registration = next_number r, ag_enrolled = en\<rparr>"
    have "agents r' = (agents r)(?d \<mapsto> ?a)"
      using assms Some False by (auto simp: register_def Let_def split: claim.splits)
    moreover have "\<forall>b. agents r ?d = Some b \<longrightarrow> ag_fingerprint b = key \<or> (en \<and> \<not> ag_enrolled b)"
      using False by (auto simp: claim_id_def split: if_splits)
    ultimately show ?thesis using held [of key ?a] Some by simp
  qed
qed

lemma ids_match_step: "ids_match r \<Longrightarrow> ids_match (registry_step e r)"
proof (cases e)
  case (ERegister fp en as ob)
  assume r: "ids_match r"
  obtain ans r' where reg: "register fp en as ob r = (ans, r')" by (rule prod.exhaust)
  then have step: "registry_step e r = r'" using ERegister by simp
  from reg show ?thesis unfolding step using r
    by (cases rule: register_cases) (auto simp: ids_match_def split: if_splits)
qed (auto simp: ids_match_def remove_agent_def mark_enrolled_def split: option.splits if_splits)

text \<open>An event that leaves a managed device in possession: it is not the end of the connection
  that holds the ID now, and when the device registers again it is known to be enrolled. The end of
  a connection that was displaced, also one of the device's own, is such an event.\<close>

definition keeps_device :: "fingerprint \<Rightarrow> registry_event \<Rightarrow> registry \<Rightarrow> bool" where
  "keeps_device key e r \<longleftrightarrow>
     (case e of
        ERegister fp en _ _ \<Rightarrow> fp = Some key \<longrightarrow> en
      | ERemove d number \<Rightarrow>
          d = from_fingerprint key \<longrightarrow> (\<forall>a. agents r d = Some a \<longrightarrow> ag_registration a \<noteq> number)
      | _ \<Rightarrow> True)"

primrec stays_connected :: "fingerprint \<Rightarrow> registry_event list \<Rightarrow> registry \<Rightarrow> bool" where
  "stays_connected key [] r = True"
| "stays_connected key (e # es) r \<longleftrightarrow> keeps_device key e r \<and> stays_connected key es (registry_step e r)"

definition in_possession :: "fingerprint \<Rightarrow> registry \<Rightarrow> bool" where
  "in_possession key r \<longleftrightarrow>
     (\<exists>a. agents r (from_fingerprint key) = Some a \<and> ag_fingerprint a = key \<and> ag_enrolled a)"

lemma in_possession_step:
  assumes "in_possession key r" and "keeps_device key e r"
  shows "in_possession key (registry_step e r)"
proof (cases e)
  case (ERegister fp en as ob)
  obtain b where b: "agents r (from_fingerprint key) = Some b" "ag_fingerprint b = key" "ag_enrolled b"
    using assms(1) unfolding in_possession_def by blast
  have en: "fp = Some key \<Longrightarrow> en" using assms(2) ERegister by (simp add: keeps_device_def)
  obtain ans r' where reg: "register fp en as ob r = (ans, r')" by (rule prod.exhaust)
  then have step: "registry_step e r = r'" using ERegister by simp
  from reg have "in_possession key r'"
  proof (cases rule: register_cases)
    case no_key
    then show "in_possession key r'" using assms(1) by simp
  next
    case (taken key' a)
    then show "in_possession key r'" using b unfolding in_possession_def by metis
  next
    case (held key' a)
    show "in_possession key r'"
    proof (cases "from_fingerprint key' = from_fingerprint key")
      case True
      have "ag_fingerprint b = key' \<or> (en \<and> \<not> ag_enrolled b)" using held(5) b(1) True by metis
      then have "key' = key" using b(2,3) by blast
      then show ?thesis using held(1-4) en unfolding in_possession_def by (metis fun_upd_same)
    next
      case False
      then show ?thesis using held(4) b unfolding in_possession_def by (metis fun_upd_other)
    qed
  qed
  then show ?thesis using step by simp
next
  case (ERemove d n)
  then have "agents (registry_step e r) (from_fingerprint key) = agents r (from_fingerprint key)"
    using assms(2) by (auto simp: remove_agent_def keeps_device_def split: option.split)
  then show ?thesis using assms(1) unfolding in_possession_def by metis
next
  case (EEnrolled key')
  show ?thesis
  proof (cases "agents (registry_step e r) (from_fingerprint key) = agents r (from_fingerprint key)")
    case True
    then show ?thesis using assms(1) unfolding in_possession_def by metis
  next
    case False
    then obtain a where a: "agents r (from_fingerprint key) = Some a"
      "agents (registry_step e r) (from_fingerprint key) = Some (a\<lparr>ag_enrolled := True\<rparr>)"
      using EEnrolled by (auto simp: mark_enrolled_def split: option.splits if_splits)
    have "ag_fingerprint a = key" using assms(1) a(1) unfolding in_possession_def by fastforce
    then show ?thesis using a(2) unfolding in_possession_def by simp
  qed
qed (use assms(1) in \<open>simp_all add: in_possession_def\<close>)

subsection \<open>Introductions\<close>

text \<open>Whether the user behind a token has a grant for a device with this ID.\<close>

definition has_grant :: "access option \<Rightarrow> str \<Rightarrow> device_id \<Rightarrow> bool" where
  "has_grant acc token d \<longleftrightarrow>
     (\<exists>A u rs. acc = Some A \<and> api_user A token = Inr (Some u) \<and> reachable_by A (u_id u) = Inr rs \<and>
        (\<exists>device\<in>set rs. from_fingerprint (re_fingerprint device) = d))"

lemma find_member: "find P xs = Some x \<Longrightarrow> x \<in> set xs \<and> P x"
  by (metis find_Some_iff nth_mem)

lemma authorize_agents: "authorize acc token d (r\<lparr>attempts := tb\<rparr>) = authorize acc token d r"
proof -
  have "agents (r\<lparr>attempts := tb\<rparr>) = agents r" by simp
  then show ?thesis unfolding authorize_def by (rule ssubst) (rule refl)
qed

lemma authorize_grants:
  assumes "authorize acc token d r = Inr (a, name, sg)"
  shows "\<exists>A u rs device. acc = Some A \<and> api_user A token = Inr (Some u) \<and> reachable_by A (u_id u) = Inr rs \<and>
    device \<in> set rs \<and> from_fingerprint (re_fingerprint device) = d \<and>
    ag_fingerprint a = re_fingerprint device \<and> issue A device (u_name u) = Inr sg"
  using assms
  by (auto simp: authorize_def split: option.splits sum.splits if_splits dest!: find_member)

lemma authorize_errors:
  "authorize acc token d r = Inl why \<Longrightarrow> why = NotAllowed \<or> why = NotSignedIn \<or> why = Offline"
  by (auto simp: authorize_def split: option.splits sum.splits if_splits)

lemma authorize_without_grant:
  "\<not> has_grant acc token d \<Longrightarrow> authorize acc token d r = authorize acc token d r' \<and>
    (\<exists>why. authorize acc token d r = Inl why)"
  by (auto simp: authorize_def has_grant_def find_None_iff split: option.splits sum.splits dest!: find_member)

lemma arrange_with_token:
  "fst (arrange acc answers now observed d addresses (Some token) r) =
     (if \<not> fst (attempt (sa_ip observed) now (attempts r)) then Inl TooManyAttempts
      else case authorize acc token d r of
             Inl e \<Rightarrow> Inl e
           | Inr (a, name, sg) \<Rightarrow>
               if answers a (Incoming (next_number r) (candidates addresses observed))
               then Inr \<lparr>in_agent = a, in_session = next_number r, in_grant = Some (name, sg)\<rparr>
               else Inl Declined)"
  by (simp add: arrange_def Let_def split_def authorize_agents split: sum.splits)

subsection \<open>Properties\<close>

text \<open>In any minute, an address gets at most ten attempts let through, whatever other
  addresses do and however the table of attempts is pruned.\<close>

theorem attempts_limited:
  assumes "sorted (map snd xs)"
  shows "length (filter (\<lambda>t. w \<le> t \<and> t < w + 60 * 1000000000) (attempt_history a xs Map.empty)) \<le> 10"
proof -
  have "tracked 0 [] (times_of a Map.empty)" "in_any_window ATTEMPTS []"
    by (simp_all add: tracked_def times_of_def in_any_window_def)
  then have "in_any_window ATTEMPTS ([] @ attempt_history a xs Map.empty)"
    using history_limited [of 0 "[]" a Map.empty xs] assms by simp
  then show ?thesis by (simp add: in_any_window_def ATTEMPTS_def ATTEMPT_WINDOW_def)
qed

theorem attempts_limited_witness:
  "length (filter (\<lambda>t. 0 \<le> t \<and> t < 0 + 60 * 1000000000)
     (attempt_history (V4 1) (map (\<lambda>t. (V4 1, t)) [0..<15]) Map.empty)) \<le> 10"
  by (rule attempts_limited) (simp add: comp_def)

text \<open>C30. A managed device keeps its ID: while the connection that holds it lasts, whatever others
  register, enroll or ask for, the registry holds the device's own key under it, as enrolled; also
  when the device connects again, and the connection before ends after that.\<close>

theorem managed_device_keeps_id:
  assumes "in_possession key r" and "stays_connected key es r"
  shows "in_possession key (registry_run es r)"
  using assms
proof (induction es arbitrary: r)
  case Nil
  then show ?case by (simp add: registry_run_def)
next
  case (Cons e es)
  then show ?case using in_possession_step by (simp add: registry_run_def)
qed

definition demo_addr :: socket_addr where
  "demo_addr = \<lparr>sa_ip = V4 1, sa_port = 7\<rparr>"

definition demo_registry :: registry where
  "demo_registry = snd (register (Some (replicate 32 1)) True [] demo_addr registry_new)"

theorem managed_device_keeps_id_witness:
  "in_possession (replicate 32 1)
     (registry_run [ERegister (Some (replicate 31 1 @ [2])) True [] demo_addr, ESession,
        ERegister (Some (replicate 32 1)) True [] demo_addr, ERemove (from_fingerprint (replicate 32 1)) 0]
       demo_registry)"
proof (rule managed_device_keeps_id)
  show "in_possession (replicate 32 1) demo_registry"
    by (simp add: in_possession_def demo_registry_def register_def registry_new_def claim_id_def Let_def)
  show "stays_connected (replicate 32 1) [ERegister (Some (replicate 31 1 @ [2])) True [] demo_addr, ESession,
      ERegister (Some (replicate 32 1)) True [] demo_addr, ERemove (from_fingerprint (replicate 32 1)) 0] demo_registry"
    by (auto simp: keeps_device_def demo_registry_def register_def registry_new_def claim_id_def Let_def
        split: option.splits claim.splits if_splits)
qed

text \<open>A relayed session carries at most its ceiling, both directions together.\<close>

theorem relay_ceiling:
  assumes "limit \<noteq> 0" and "sum_list ns < 2 ^ 64"
  shows "sum_list (map fst (filter snd (zip ns (carry ns (ceiling_new limit))))) \<le> unat limit"
  using carry_ceiling [of "ceiling_new limit" ns] assms by (simp add: ceiling_new_def)

theorem relay_ceiling_witness:
  "sum_list (map fst (filter snd (zip [600, 300, 200] (carry [600, 300, 200] (ceiling_new 1000))))) \<le> unat (1000 :: u64)"
  by (rule relay_ceiling) simp_all

text \<open>A viewer that brings a token is introduced only to the device its user has a grant
  for, under the key the grant is for, with a grant issued for them; and without one it learns
  nothing of the device: the refusal is the same whichever agents are registered.\<close>

theorem introduction_needs_grant:
  "case fst (arrange acc answers now observed d addresses (Some token) r) of
     Inr i \<Rightarrow>
       (\<exists>A u rs device sg. acc = Some A \<and> api_user A token = Inr (Some u) \<and> reachable_by A (u_id u) = Inr rs \<and>
         device \<in> set rs \<and> from_fingerprint (re_fingerprint device) = d \<and>
         ag_fingerprint (in_agent i) = re_fingerprint device \<and> issue A device (u_name u) = Inr sg \<and>
         messages i = [Granted sg, Peer (re_fingerprint device)
           (candidates (ag_reported (in_agent i)) (ag_address (in_agent i)))])
   | Inl why \<Rightarrow>
       why \<in> {NotAllowed, Offline, Declined, NotSignedIn, TooManyAttempts} \<and>
       (has_grant acc token d \<or>
        fst (arrange acc answers now observed d addresses (Some token) (r\<lparr>agents := others\<rparr>)) = Inl why)"
proof (cases "fst (attempt (sa_ip observed) now (attempts r))")
  case False
  then show ?thesis by (simp add: arrange_with_token)
next
  case ok: True
  show ?thesis
  proof (cases "authorize acc token d r")
    case (Inl why)
    have "has_grant acc token d \<or> authorize acc token d (r\<lparr>agents := others\<rparr>) = Inl why"
      using authorize_without_grant [of acc token d r "r\<lparr>agents := others\<rparr>"] Inl by metis
    then show ?thesis using authorize_errors [OF Inl] Inl ok by (auto simp: arrange_with_token)
  next
    case (Inr x)
    obtain a name sg where x: "x = (a, name, sg)" by (cases x) auto
    then have grant: "has_grant acc token d"
      using authorize_grants [of acc token d r a name sg] Inr by (auto simp: has_grant_def)
    from x Inr have "authorize acc token d r = Inr (a, name, sg)" by simp
    from authorize_grants [OF this] grant show ?thesis using x Inr ok
      by (auto simp: arrange_with_token messages_def)
  qed
qed

end
