(* ===== verification/Relay.thy ===== *)
theory Relay
  imports Registry "HOL-Library.Sublist"
begin

text \<open>
  Relayed sessions: the tunnel at either end (\<open>crates/transport/src/relay.rs\<close>) and the
  server between them (\<open>relay\<close> and the forwarding task of \<open>register\<close> in
  \<open>crates/server/src/rendezvous.rs\<close>).

  A carrier (a QUIC connection or a browser's session) takes datagrams or loses them: what a
  tunnel hands to it is the list \<open>try_send\<close> returns. A viewer's carrier is a number. The
  waker of an inbox is whether a reader waits.
\<close>

subsection \<open>Addresses and tags\<close>

definition PREFIX :: "128 word" where "PREFIX = push_bit 112 0x0100"
definition SESSION_LEN :: nat where "SESSION_LEN = 8"

definition relayed_address :: "u64 \<Rightarrow> socket_addr" where
  "relayed_address session = \<lparr>sa_ip = V6 (or PREFIX (ucast session)), sa_port = 443\<rparr>"

definition session_of :: "socket_addr \<Rightarrow> u64 option" where
  "session_of address =
     (case sa_ip address of
        V4 _ \<Rightarrow> None
      | V6 bits \<Rightarrow> if drop_bit 64 bits = drop_bit 64 PREFIX then Some (ucast bits) else None)"

definition is_relayed :: "socket_addr \<Rightarrow> bool" where
  "is_relayed address \<longleftrightarrow> session_of address \<noteq> None"

definition tag :: "u64 \<Rightarrow> bytes \<Rightarrow> bytes" where
  "tag session packet = to_be_bytes SESSION_LEN (unat session) @ packet"

definition untag :: "bytes \<Rightarrow> (u64 \<times> bytes) option" where
  "untag datagram =
     (if length datagram < SESSION_LEN then None
      else Some (word_of_nat (from_be_bytes (take SESSION_LEN datagram)), drop SESSION_LEN datagram))"

subsection \<open>The tunnel\<close>

definition INBOX_LIMIT :: nat where "INBOX_LIMIT = 4096"

record inbox =
  packets :: "(socket_addr \<times> bytes) list"
  waker :: bool

definition inbox_new :: inbox where
  "inbox_new = \<lparr>packets = [], waker = False\<rparr>"

text \<open>Whether the reader that waited is woken.\<close>

definition inbox_push :: "socket_addr \<Rightarrow> bytes \<Rightarrow> inbox \<Rightarrow> bool \<times> inbox" where
  "inbox_push from packet q =
     (if length (packets q) \<ge> INBOX_LIMIT then (False, q)
      else (waker q, q\<lparr>packets := packets q @ [(from, packet)], waker := False\<rparr>))"

definition arrived :: "bool \<Rightarrow> bytes \<Rightarrow> (socket_addr \<times> bytes) option" where
  "arrived tagged datagram =
     (if tagged then map_option (\<lambda>(session, packet). (relayed_address session, packet)) (untag datagram)
      else Some (relayed_address 0, datagram))"

text \<open>One turn of the task that reads the carrier.\<close>

definition take_in :: "bool \<Rightarrow> bytes \<Rightarrow> inbox \<Rightarrow> inbox" where
  "take_in tagged datagram q =
     (case arrived tagged datagram of
        None \<Rightarrow> q
      | Some (from, packet) \<Rightarrow> snd (inbox_push from packet q))"

text \<open>\<open>slice::chunks\<close>.\<close>

function chunks_of :: "nat \<Rightarrow> 'a list \<Rightarrow> 'a list list" where
  "chunks_of n [] = []"
| "chunks_of n (x # xs) = take (max n 1) (x # xs) # chunks_of n (drop (max n 1) (x # xs))"
  by pat_completeness auto
termination
  by (relation "measure (\<lambda>(n, xs). length xs)") auto

definition try_send :: "bool \<Rightarrow> socket_addr \<Rightarrow> nat option \<Rightarrow> bytes \<Rightarrow> bytes list" where
  "try_send tagged destination segment_size contents =
     (let sz = (case segment_size of None \<Rightarrow> length contents | Some n \<Rightarrow> n) in
      somes (map (\<lambda>packet.
        if tagged then map_option (\<lambda>session. tag session packet) (session_of destination)
        else Some packet) (chunks_of (max sz 1) contents)))"

text \<open>Reading into buffers of these lengths. What a buffer gets, and from where, as the metadata
  says; \<open>None\<close> is \<open>Pending\<close>.\<close>

fun fill_buffers ::
  "nat list \<Rightarrow> (socket_addr \<times> bytes) list \<Rightarrow> (socket_addr \<times> bytes) list \<times> (socket_addr \<times> bytes) list" where
  "fill_buffers [] ps = ([], ps)"
| "fill_buffers bufs [] = ([], [])"
| "fill_buffers (b # bufs) ((from, packet) # ps) =
     (let (got, rest) = fill_buffers bufs ps in ((from, take (min (length packet) b) packet) # got, rest))"

definition poll_recv :: "nat list \<Rightarrow> nat \<Rightarrow> inbox \<Rightarrow> (socket_addr \<times> bytes) list option \<times> inbox" where
  "poll_recv bufs meta q =
     (let (got, rest) = fill_buffers (take meta bufs) (packets q); q1 = q\<lparr>packets := rest\<rparr> in
      if got = [] then (None, q1\<lparr>waker := True\<rparr>) else (Some got, q1))"

subsection \<open>The server between\<close>

record relay =
  rl_viewer :: nat
  rl_to_viewer :: u64
  rl_ceiling :: ceiling

text \<open>An agent's relayed sessions. The task that reads a viewer's datagrams keeps the same
  ceiling as the entry, which is there for as long as the task runs: a session's number is
  handed out once.\<close>

type_synonym relays = "u64 \<rightharpoonup> relay"

definition relay_open :: "nat \<Rightarrow> u64 \<Rightarrow> u64 \<Rightarrow> relays \<Rightarrow> relays" where
  "relay_open viewer session limit rs =
     rs(session \<mapsto> \<lparr>rl_viewer = viewer, rl_to_viewer = 0, rl_ceiling = ceiling_new limit\<rparr>)"

definition relay_close :: "u64 \<Rightarrow> relays \<Rightarrow> relays" where
  "relay_close session rs = rs(session := None)"

datatype relay_out = ToAgent bytes | ToViewer nat bytes

definition from_viewer :: "u64 \<Rightarrow> bytes \<Rightarrow> relays \<Rightarrow> relay_out list \<times> relays" where
  "from_viewer session datagram rs =
     (case rs session of
        None \<Rightarrow> ([], rs)
      | Some e \<Rightarrow>
          let (ok, c) = allows (length datagram) (rl_ceiling e) in
          if \<not> ok then ([], relay_close session rs)
          else ([ToAgent (tag session datagram)], rs(session \<mapsto> e\<lparr>rl_ceiling := c\<rparr>)))"

definition from_agent :: "bytes \<Rightarrow> relays \<Rightarrow> relay_out list \<times> relays" where
  "from_agent datagram rs =
     (case untag datagram of
        None \<Rightarrow> ([], rs)
      | Some (session, packet) \<Rightarrow>
          (case rs session of
             None \<Rightarrow> ([], rs)
           | Some e \<Rightarrow>
               let (ok, c) = allows (length packet) (rl_ceiling e); e1 = e\<lparr>rl_ceiling := c\<rparr> in
               if \<not> ok then ([], rs(session \<mapsto> e1))
               else ([ToViewer (rl_viewer e) packet],
                     rs(session \<mapsto> e1\<lparr>rl_to_viewer := rl_to_viewer e + word_of_nat (length packet)\<rparr>))))"

datatype relay_event =
    Opened nat u64 u64
  | Closed u64
  | ViewerSent u64 bytes
  | AgentSent bytes

fun relay_step :: "relay_event \<Rightarrow> relays \<Rightarrow> relay_out list \<times> relays" where
  "relay_step (Opened viewer session limit) rs = ([], relay_open viewer session limit rs)"
| "relay_step (Closed session) rs = ([], relay_close session rs)"
| "relay_step (ViewerSent session d) rs = from_viewer session d rs"
| "relay_step (AgentSent d) rs = from_agent d rs"

primrec relay_run :: "relay_event list \<Rightarrow> relays \<Rightarrow> relay_out list" where
  "relay_run [] rs = []"
| "relay_run (e # es) rs = (case relay_step e rs of (out, rs') \<Rightarrow> out @ relay_run es rs')"

subsection \<open>Tags and addresses read back\<close>

lemma untag_tag [simp]: "untag (tag s p) = Some (s, p)"
proof -
  have "unat s < 256 ^ 8" using unsigned_less [of s, where ?'a = nat] by simp
  then have "from_be_bytes (to_be_bytes 8 (unat s)) = unat s" by (simp only: from_to_be_bytes mod_less)
  then show ?thesis by (simp add: untag_def tag_def SESSION_LEN_def)
qed

lemma tag_untag:
  assumes "untag d = Some (s, p)"
  shows "d = tag s p"
proof -
  have l: "length (take 8 d) = 8" and s: "s = word_of_nat (from_be_bytes (take 8 d))" and p: "p = drop 8 d"
    using assms by (auto simp: untag_def SESSION_LEN_def split: if_splits)
  have "from_be_bytes (take 8 d) < 256 ^ 8"
    using from_le_bytes_bound [of "rev (take 8 d)"] unfolding from_be_bytes_def length_rev l .
  then have "unat s = from_be_bytes (take 8 d)" by (simp add: s unat_of_nat take_bit_eq_mod)
  moreover have "to_be_bytes 8 (from_be_bytes (take 8 d)) = take 8 d"
    using to_from_le_bytes [of "rev (take 8 d)"] unfolding from_be_bytes_def to_be_bytes_def length_rev l by simp
  ultimately show ?thesis by (simp add: tag_def SESSION_LEN_def p)
qed

lemma session_of_relayed [simp]: "session_of (relayed_address s) = Some s"
proof -
  have hi: "drop_bit 64 (ucast s :: 128 word) = 0"
    by (rule bit_word_eqI) (auto simp: bit_drop_bit_eq bit_simps dest: bit_imp_le_length)
  have lo: "(ucast (PREFIX :: 128 word) :: u64) = 0"
    by (simp add: PREFIX_def)
  have "(ucast (ucast s :: 128 word) :: u64) = s" by (rule ucast_up_ucast_id) (simp add: is_up)
  then show ?thesis using hi lo
    by (simp add: session_of_def relayed_address_def drop_bit_or unsigned_or_eq)
qed

lemma concat_chunks_of: "concat (chunks_of n xs) = xs"
proof (induction n xs rule: chunks_of.induct)
  case (2 n x xs)
  have "concat (chunks_of n (x # xs)) = take (max n 1) (x # xs) @ concat (chunks_of n (drop (max n 1) (x # xs)))"
    by (simp only: chunks_of.simps concat.simps)
  then show ?case by (simp only: 2 append_take_drop_id)
qed simp

subsection \<open>Forwarding\<close>

lemma somes_map_total [simp]: "somes (map (\<lambda>x. Some (f x)) xs) = map f xs"
  by (induction xs) simp_all

text \<open>A ceiling that has room for so many bytes more: there is none, or it is not reached with them.\<close>

definition has_room :: "ceiling \<Rightarrow> nat \<Rightarrow> bool" where
  "has_room c n \<longleftrightarrow> c_limit c = 0 \<or> unat (c_carried c) + n \<le> unat (c_limit c)"

lemma allows_with_room:
  assumes "has_room c (n + m)"
  shows "\<exists>c'. allows n c = (True, c') \<and> has_room c' m"
proof (cases "c_limit c = 0")
  case True
  then show ?thesis by (simp add: allows_def Let_def has_room_def)
next
  case False
  have lt: "unat (c_limit c) < 2 ^ 64" using unsigned_less [of "c_limit c", where ?'a = nat] by simp
  have fits: "unat (c_carried c) + n + m \<le> unat (c_limit c)" using assms False by (simp add: has_room_def)
  then have n: "unat (word_of_nat n :: u64) = n" using lt by (simp add: unat_of_nat take_bit_eq_mod)
  have sum: "unat (c_carried c + word_of_nat n) = unat (c_carried c) + n"
    using fits lt n by (simp add: unat_word_ariths)
  have "saturating_add (c_carried c) (word_of_nat n) \<le> c_limit c"
    using saturating_add_le_iff [of "c_carried c" "word_of_nat n" "c_limit c"] n fits lt by simp
  then show ?thesis using fits sum by (simp add: allows_def Let_def has_room_def)
qed

lemma from_agent_cases:
  assumes "from_agent d rs = (out, rs')"
  obtains (quiet) "out = []" "\<forall>s. map_option rl_viewer (rs' s) = map_option rl_viewer (rs s)"
  | (carried) s p e where "untag d = Some (s, p)" "rs s = Some e" "out = [ToViewer (rl_viewer e) p]"
      "\<forall>s. map_option rl_viewer (rs' s) = map_option rl_viewer (rs s)"
  using assms
  by (auto simp: from_agent_def Let_def split: option.splits prod.splits if_splits)

lemma from_viewer_cases:
  assumes "from_viewer s d rs = (out, rs')"
  obtains (quiet) "out = []" "\<forall>s'. rs' s' = None \<or> rs' s' = rs s'"
  | (carried) e where "rs s = Some e" "out = [ToAgent (tag s d)]"
      "\<forall>s. map_option rl_viewer (rs' s) = map_option rl_viewer (rs s)"
  using assms
  by (auto simp: from_viewer_def relay_close_def Let_def split: option.splits prod.splits if_splits)

text \<open>What a viewer is sent, what an agent is sent of a session, and what either side said.\<close>

fun to_viewer :: "nat \<Rightarrow> relay_out list \<Rightarrow> bytes list" where
  "to_viewer v [] = []"
| "to_viewer v (ToViewer v' p # out) = (if v' = v then p # to_viewer v out else to_viewer v out)"
| "to_viewer v (_ # out) = to_viewer v out"

fun to_agent :: "u64 \<Rightarrow> relay_out list \<Rightarrow> bytes list" where
  "to_agent s [] = []"
| "to_agent s (ToAgent d # out) =
     (case untag d of
        Some (s', p) \<Rightarrow> if s' = s then p # to_agent s out else to_agent s out
      | None \<Rightarrow> to_agent s out)"
| "to_agent s (_ # out) = to_agent s out"

fun agent_said :: "u64 \<Rightarrow> relay_event list \<Rightarrow> bytes list" where
  "agent_said s [] = []"
| "agent_said s (AgentSent d # es) =
     (case untag d of
        Some (s', p) \<Rightarrow> if s' = s then p # agent_said s es else agent_said s es
      | None \<Rightarrow> agent_said s es)"
| "agent_said s (_ # es) = agent_said s es"

fun viewer_said :: "u64 \<Rightarrow> relay_event list \<Rightarrow> bytes list" where
  "viewer_said s [] = []"
| "viewer_said s (ViewerSent s' p # es) = (if s' = s then p # viewer_said s es else viewer_said s es)"
| "viewer_said s (_ # es) = viewer_said s es"

text \<open>A viewer's only session.\<close>

definition sole_session :: "nat \<Rightarrow> u64 \<Rightarrow> relays \<Rightarrow> bool" where
  "sole_session v s rs \<longleftrightarrow> (\<forall>s' e. rs s' = Some e \<and> rl_viewer e = v \<longrightarrow> s' = s)"

definition opens_only :: "nat \<Rightarrow> u64 \<Rightarrow> relay_event list \<Rightarrow> bool" where
  "opens_only v s es \<longleftrightarrow> (\<forall>s' limit. Opened v s' limit \<in> set es \<longrightarrow> s' = s)"

lemma sole_session_mono:
  assumes "sole_session v s rs" and "\<forall>s'. map_option rl_viewer (rs' s') = None \<or>
    map_option rl_viewer (rs' s') = map_option rl_viewer (rs s')"
  shows "sole_session v s rs'"
  unfolding sole_session_def
proof (intro allI impI)
  fix s' e assume "rs' s' = Some e \<and> rl_viewer e = v"
  then have "map_option rl_viewer (rs s') = Some v" using assms(2) by (metis option.simps(9) option.distinct(1))
  then show "s' = s" using assms(1) by (auto simp: sole_session_def)
qed

lemma to_viewer_append [simp]: "to_viewer v (xs @ ys) = to_viewer v xs @ to_viewer v ys"
  by (induction v xs rule: to_viewer.induct) simp_all

lemma to_agent_append [simp]: "to_agent s (xs @ ys) = to_agent s xs @ to_agent s ys"
  by (induction s xs rule: to_agent.induct) (simp_all split: option.split)

lemma relay_step_sole:
  assumes "sole_session v s rs" and "opens_only v s [e]" and "relay_step e rs = (out, rs')"
  shows "sole_session v s rs'"
proof (cases e)
  case (Opened v' s' limit)
  then show ?thesis using assms by (auto simp: sole_session_def opens_only_def relay_open_def split: if_splits)
next
  case (Closed s')
  then show ?thesis using assms by (auto simp: sole_session_def relay_close_def split: if_splits)
next
  case (ViewerSent s' d)
  then have "from_viewer s' d rs = (out, rs')" using assms(3) by simp
  then show ?thesis
    by (cases rule: from_viewer_cases) (rule sole_session_mono [OF assms(1)], auto)+
next
  case (AgentSent d)
  then have "from_agent d rs = (out, rs')" using assms(3) by simp
  then show ?thesis
    by (cases rule: from_agent_cases) (rule sole_session_mono [OF assms(1)], auto)+
qed

lemma to_viewer_step:
  assumes "sole_session v s rs" and "relay_step e rs = (out, rs')"
  shows "subseq (to_viewer v out) (agent_said s [e])"
proof (cases e)
  case (ViewerSent s' d)
  then have "from_viewer s' d rs = (out, rs')" using assms(2) by simp
  then show ?thesis by (cases rule: from_viewer_cases) simp_all
next
  case (AgentSent d)
  then have "from_agent d rs = (out, rs')" using assms(2) by simp
  then show ?thesis
  proof (cases rule: from_agent_cases)
    case (carried s' p e')
    then have "rl_viewer e' = v \<Longrightarrow> s' = s" using assms(1) by (auto simp: sole_session_def)
    then show ?thesis using carried AgentSent by auto
  qed simp
qed (use assms(2) in auto)

lemma to_agent_step:
  assumes "relay_step e rs = (out, rs')"
  shows "subseq (to_agent s out) (viewer_said s [e])"
proof (cases e)
  case (ViewerSent s' d)
  then have "from_viewer s' d rs = (out, rs')" using assms by simp
  then show ?thesis using ViewerSent by (cases rule: from_viewer_cases) simp_all
next
  case (AgentSent d)
  then have "from_agent d rs = (out, rs')" using assms by simp
  then show ?thesis by (cases rule: from_agent_cases) simp_all
qed (use assms in auto)

lemma agent_said_Cons: "agent_said s (e # es) = agent_said s [e] @ agent_said s es"
  by (cases e) (auto split: option.split)

lemma viewer_said_Cons: "viewer_said s (e # es) = viewer_said s [e] @ viewer_said s es"
  by (cases e) auto

lemma to_viewer_run:
  assumes "sole_session v s rs" and "opens_only v s es"
  shows "subseq (to_viewer v (relay_run es rs)) (agent_said s es)"
  using assms
proof (induction es arbitrary: rs)
  case (Cons e es)
  obtain out rs' where step: "relay_step e rs = (out, rs')" by (rule prod.exhaust)
  have "opens_only v s [e]" "opens_only v s es" using Cons.prems(2) by (auto simp: opens_only_def)
  moreover from this have "sole_session v s rs'" using relay_step_sole [OF Cons.prems(1) _ step] by blast
  ultimately have "subseq (to_viewer v (relay_run es rs')) (agent_said s es)" using Cons.IH by blast
  then show ?case using to_viewer_step [OF Cons.prems(1) step] list_emb_append_mono
    by (subst agent_said_Cons) (simp add: step)
qed simp

lemma to_agent_run: "subseq (to_agent s (relay_run es rs)) (viewer_said s es)"
proof (induction es arbitrary: rs)
  case (Cons e es)
  obtain out rs' where step: "relay_step e rs = (out, rs')" by (rule prod.exhaust)
  show ?case using to_agent_step [OF step, of s] Cons.IH [of rs'] list_emb_append_mono
    by (subst viewer_said_Cons) (simp add: step)
qed simp

subsection \<open>Through the tunnel\<close>

lemma try_send_relayed:
  "try_send True (relayed_address s) seg contents =
     map (tag s) (chunks_of (max (case seg of None \<Rightarrow> length contents | Some n \<Rightarrow> n) 1) contents)"
  by (simp add: try_send_def Let_def)

text \<open>While a session is open and within its ceiling, nothing of it is lost, whatever other sessions
  do.\<close>

definition stays_open :: "nat \<Rightarrow> u64 \<Rightarrow> relay_event list \<Rightarrow> bool" where
  "stays_open v s es \<longleftrightarrow>
     Closed s \<notin> set es \<and> (\<forall>v' limit. Opened v' s limit \<notin> set es) \<and> (\<forall>s' limit. Opened v s' limit \<notin> set es)"

definition bytes_said :: "u64 \<Rightarrow> relay_event list \<Rightarrow> nat" where
  "bytes_said s es = sum_list (map length (agent_said s es)) + sum_list (map length (viewer_said s es))"

lemma bytes_said_Cons: "bytes_said s (e # es) = bytes_said s [e] + bytes_said s es"
  unfolding bytes_said_def by (subst agent_said_Cons, subst viewer_said_Cons) simp

lemma relay_step_carries:
  assumes "rs s = Some e" and "rl_viewer e = v" and "sole_session v s rs" and "stays_open v s [ev]"
    and "has_room (rl_ceiling e) (bytes_said s [ev] + n)"
  shows "\<exists>out rs' e'. relay_step ev rs = (out, rs') \<and> rs' s = Some e' \<and> rl_viewer e' = v \<and> sole_session v s rs' \<and>
    has_room (rl_ceiling e') n \<and> to_viewer v out = agent_said s [ev] \<and> to_agent s out = viewer_said s [ev]"
proof -
  obtain out rs' where step: "relay_step ev rs = (out, rs')" by (rule prod.exhaust)
  have "opens_only v s [ev]" using assms(4) by (auto simp: opens_only_def stays_open_def)
  then have sole: "sole_session v s rs'" using relay_step_sole [OF assms(3) _ step] by blast
  have "\<exists>e'. rs' s = Some e' \<and> rl_viewer e' = v \<and> has_room (rl_ceiling e') n \<and>
    to_viewer v out = agent_said s [ev] \<and> to_agent s out = viewer_said s [ev]"
  proof (cases ev)
    case (Opened v' s' limit)
    then show ?thesis using step assms by (auto simp: relay_open_def stays_open_def bytes_said_def)
  next
    case (Closed s')
    then show ?thesis using step assms by (auto simp: relay_close_def stays_open_def bytes_said_def)
  next
    case (ViewerSent s' d)
    show ?thesis
    proof (cases "s' = s")
      case True
      then obtain c where "allows (length d) (rl_ceiling e) = (True, c)" "has_room c n"
        using allows_with_room [of "rl_ceiling e" "length d" n] assms(5) ViewerSent by (auto simp: bytes_said_def)
      then show ?thesis using True ViewerSent step assms(1,2) by (auto simp: from_viewer_def)
    next
      case False
      then have "rs' s = rs s" "to_viewer v out = []" "to_agent s out = []"
        using ViewerSent step
        by (auto simp: from_viewer_def relay_close_def Let_def split: option.splits prod.splits if_splits)
      then show ?thesis using False ViewerSent assms by (simp add: bytes_said_def)
    qed
  next
    case (AgentSent d)
    show ?thesis
    proof (cases "\<exists>p. untag d = Some (s, p)")
      case True
      then obtain p where p: "untag d = Some (s, p)" by blast
      then obtain c where "allows (length p) (rl_ceiling e) = (True, c)" "has_room c n"
        using allows_with_room [of "rl_ceiling e" "length p" n] assms(5) AgentSent by (auto simp: bytes_said_def)
      then show ?thesis using p AgentSent step assms(1,2) by (auto simp: from_agent_def)
    next
      case False
      then have said: "agent_said s [ev] = []" using AgentSent by (auto split: option.splits)
      have "rs' s = rs s" "to_viewer v out = []" "to_agent s out = []"
        using False AgentSent step assms(3)
        by (auto simp: from_agent_def sole_session_def Let_def split: option.splits prod.splits if_splits)
      then show ?thesis using said AgentSent assms by (simp add: bytes_said_def)
    qed
  qed
  then show ?thesis using step sole by blast
qed

lemma relay_loses_nothing:
  assumes "rs s = Some e" and "rl_viewer e = v" and "sole_session v s rs" and "stays_open v s es"
    and "has_room (rl_ceiling e) (bytes_said s es)"
  shows "to_viewer v (relay_run es rs) = agent_said s es \<and> to_agent s (relay_run es rs) = viewer_said s es"
  using assms
proof (induction es arbitrary: rs e)
  case (Cons ev es)
  have "stays_open v s [ev]" and open': "stays_open v s es" using Cons.prems(4) by (auto simp: stays_open_def)
  then obtain out rs' e' where step: "relay_step ev rs = (out, rs')" and rest: "rs' s = Some e'" "rl_viewer e' = v"
    "sole_session v s rs'" "has_room (rl_ceiling e') (bytes_said s es)"
    and here: "to_viewer v out = agent_said s [ev]" "to_agent s out = viewer_said s [ev]"
    using relay_step_carries [OF Cons.prems(1-3), of ev "bytes_said s es"] Cons.prems(5) bytes_said_Cons [of s ev es] by metis
  from Cons.IH [OF rest(1-3) open' rest(4)] show ?case
    using step here agent_said_Cons [of s ev es] viewer_said_Cons [of s ev es] by simp
qed simp

text \<open>What the agent's tunnel sends to a session, and the packets it is cut into.\<close>

fun sent_to :: "u64 \<Rightarrow> relay_event list \<Rightarrow> bytes list" where
  "sent_to s [] = []"
| "sent_to s (AgentSent d # es) =
     (case untag d of
        Some (s', p) \<Rightarrow> if s' = s then d # sent_to s es else sent_to s es
      | None \<Rightarrow> sent_to s es)"
| "sent_to s (_ # es) = sent_to s es"

lemma sent_to_said: "sent_to s es = map (tag s) (agent_said s es)"
  by (induction s es rule: sent_to.induct) (auto dest: tag_untag split: option.splits)

definition cut :: "nat option \<times> bytes \<Rightarrow> bytes list" where
  "cut sending =
     chunks_of (max (case fst sending of None \<Rightarrow> length (snd sending) | Some n \<Rightarrow> n) 1) (snd sending)"

lemma try_send_cut: "try_send True (relayed_address s) seg contents = map (tag s) (cut (seg, contents))"
  unfolding try_send_relayed cut_def by (simp split: option.split)

lemma concat_cut: "concat (concat (map cut sends)) = concat (map snd sends)"
  by (induction sends) (simp_all add: cut_def concat_chunks_of)

lemma tag_inj: "map (tag s) ps = map (tag s) qs \<Longrightarrow> ps = qs"
  by (rule list.inj_map_strong) (auto dest: arg_cong [of _ _ untag])

lemma packets_take_in:
  "length (packets q) + length ps \<le> INBOX_LIMIT \<Longrightarrow>
     packets (fold (take_in False) ps q) = packets q @ map (Pair (relayed_address 0)) ps"
proof (induction ps arbitrary: q)
  case (Cons p ps)
  have "packets (take_in False p q) = packets q @ [(relayed_address 0, p)]"
    using Cons.prems by (simp add: take_in_def arrived_def inbox_push_def)
  then show ?case using Cons.IH [of "take_in False p q"] Cons.prems by simp
qed simp

lemma fill_buffers_all:
  assumes "length ps \<le> length bufs" and "list_all (\<lambda>b. list_all (\<lambda>(_, p). length p \<le> b) ps) bufs"
  shows "fill_buffers bufs ps = (ps, [])"
  using assms
proof (induction bufs ps rule: fill_buffers.induct)
  case (3 b bufs sender packet ps)
  then show ?case by (auto simp: list_all_iff)
qed auto

subsection \<open>Properties\<close>

text \<open>C39. Relayed sessions are kept apart: whatever viewers and agent send, in whatever order
  sessions open and close, a viewer is sent only packets the agent addressed to its session,
  unaltered, in their order and each at most once; and what the agent is sent as a session's
  is what that session's viewer said.\<close>

theorem relay_keeps_sessions_apart:
  assumes "opens_only v s es"
  shows "subseq (to_viewer v (relay_run es Map.empty)) (agent_said s es) \<and>
    subseq (to_agent s (relay_run es Map.empty)) (viewer_said s es)"
  using to_viewer_run [OF _ assms, of Map.empty] to_agent_run by (simp add: sole_session_def)

theorem relay_keeps_sessions_apart_witness:
  "subseq (to_viewer 1 (relay_run [Opened 1 7 0, Opened 2 8 0, AgentSent (tag 7 [5]), AgentSent (tag 8 [6])] Map.empty)) [[5]]"
proof -
  have "opens_only 1 7 [Opened 1 7 0, Opened 2 8 0, AgentSent (tag 7 [5]), AgentSent (tag 8 [6])]"
    by (simp add: opens_only_def)
  from relay_keeps_sessions_apart [OF this] show ?thesis by simp
qed

text \<open>C40. What the agent's tunnel sends to the address of a relayed peer, over any number of calls
  and each cut into segments as QUIC asks, the server forwards to that session's viewer, and what
  the viewer sends to the agent, all of it, in order, whatever goes on in other sessions; as long as
  the session is open, no datagram between server and tunnels is lost, and what both sides send
  stays within the session's ceiling, or there is none. The viewer's tunnel hands the packets to
  QUIC one by one, behind what already waits in its inbox, if that has room and QUIC's buffers are
  as many and as long; joined, they are what was sent. A viewer's packet reaches the agent's tunnel
  as coming from the address its answer is sent to.\<close>

theorem relayed_packets_arrive:
  assumes "rs s = Some e" and "rl_viewer e = v" and "sole_session v s rs" and "stays_open v s es"
    and "has_room (rl_ceiling e) (bytes_said s es)"
    and sends: "sent_to s es = concat (map (\<lambda>(seg, contents). try_send True (relayed_address s) seg contents) sends)"
    and arrives: "ps = to_viewer v (relay_run es rs)" and "ps \<noteq> []"
    and room: "length (packets q) + length ps \<le> INBOX_LIMIT" "length (packets q) + length ps \<le> length bufs"
    and long: "list_all (\<lambda>b. list_all (\<lambda>p. length p \<le> b) (map snd (packets q) @ ps)) bufs"
  shows "fst (poll_recv bufs (length bufs) (fold (take_in False) ps q)) =
      Some (packets q @ map (Pair (relayed_address 0)) ps) \<and>
    ps = concat (map cut sends) \<and> concat ps = concat (map snd sends) \<and>
    to_agent s (relay_run es rs) = viewer_said s es \<and>
    arrived True (tag s p) = Some (relayed_address s, p)"
proof -
  note all = relay_loses_nothing [OF assms(1-5)]
  have "map (tag s) ps = map (tag s) (concat (map cut sends))"
    using sends all by (simp add: sent_to_said arrives try_send_cut split_def map_concat comp_def)
  then have ps: "ps = concat (map cut sends)" by (rule tag_inj)
  let ?in = "packets q @ map (Pair (relayed_address 0)) ps"
  have "packets (fold (take_in False) ps q) = ?in" using packets_take_in [OF room(1)] .
  moreover have "list_all (\<lambda>b. list_all (\<lambda>(_, p). length p \<le> b) ?in) bufs"
    using long by (simp add: list_all_iff split_def ball_Un)
  then have "fill_buffers bufs ?in = (?in, [])" using room(2) by (intro fill_buffers_all) simp_all
  moreover have "?in \<noteq> []" using assms(8) by simp
  ultimately have "fst (poll_recv bufs (length bufs) (fold (take_in False) ps q)) = Some ?in"
    by (simp add: poll_recv_def Let_def)
  moreover have "concat ps = concat (map snd sends)" unfolding ps by (rule concat_cut)
  ultimately show ?thesis using ps all by (simp add: arrived_def)
qed

theorem relayed_packets_arrive_witness:
  "fst (poll_recv [1200, 1200] 2 (fold (take_in False)
      (to_viewer 4 (relay_run (AgentSent (tag 8 [9]) # map AgentSent (try_send True (relayed_address 7) (Some 2) [1, 2, 3]))
        (relay_open 4 7 1000 Map.empty))) inbox_new)) =
    Some [(relayed_address 0, [1, 2]), (relayed_address 0, [3])]"
proof -
  let ?es = "AgentSent (tag 8 [9]) # map AgentSent (try_send True (relayed_address 7) (Some 2) [1, 2, 3])"
  let ?rs = "relay_open 4 7 1000 Map.empty"
  let ?ps = "to_viewer 4 (relay_run ?es ?rs)"
  have cut: "cut (Some 2, [1, 2, 3 :: u8]) = [[1, 2], [3]]" by (simp add: cut_def)
  have es: "?es = [AgentSent (tag 8 [9]), AgentSent (tag 7 [1, 2]), AgentSent (tag 7 [3])]" by (simp add: try_send_cut cut)
  obtain e where entry: "?rs 7 = Some e" and v: "rl_viewer e = 4" and c: "rl_ceiling e = ceiling_new 1000"
    by (simp add: relay_open_def)
  have sole: "sole_session 4 7 ?rs" by (simp add: sole_session_def relay_open_def)
  have still: "stays_open 4 7 ?es" by (simp add: es stays_open_def)
  have roomy: "has_room (rl_ceiling e) (bytes_said 7 ?es)" unfolding c by (simp add: es has_room_def ceiling_new_def bytes_said_def)
  have sent: "sent_to 7 ?es = concat (map (\<lambda>(seg, contents). try_send True (relayed_address 7) seg contents) [(Some 2, [1, 2, 3])])"
    by (simp add: es try_send_cut cut)
  have said: "agent_said 7 ?es = [[1, 2], [3]]" by (simp add: es)
  have ps: "?ps = [[1, 2], [3]]"
    using relay_loses_nothing [OF entry v sole still roomy] unfolding said by blast
  have "?ps \<noteq> []" by (simp only: ps) simp
  moreover have "length (packets inbox_new) + length ?ps \<le> INBOX_LIMIT" "length (packets inbox_new) + length ?ps \<le> length [1200 :: nat, 1200]"
    "list_all (\<lambda>b. list_all (\<lambda>p. length p \<le> b) (map snd (packets inbox_new) @ ?ps)) [1200, 1200]"
    unfolding ps by (simp_all add: inbox_new_def INBOX_LIMIT_def)
  ultimately have "fst (poll_recv [1200, 1200] (length [1200 :: nat, 1200]) (fold (take_in False) ?ps inbox_new)) =
      Some (packets inbox_new @ map (Pair (relayed_address 0)) ?ps)"
    by (rule relayed_packets_arrive [OF entry v sole still roomy sent refl, THEN conjunct1])
  then show ?thesis unfolding ps by (simp add: inbox_new_def numeral_2_eq_2)
qed

end
