(* ===== verification/Totp.thy ===== *)
theory Totp
  imports Hex
begin

text \<open>
  Time-based one-time passwords (\<open>crates/server/src/totp.rs\<close>): the code of a step, the
  check of a code that was typed, and the link an authenticator app reads.

  HMAC-SHA1 is the argument \<open>mac\<close>: key, message, tag. A tag has 20 bytes, so the four bytes
  read at the offset, at most 15, are there.
\<close>

unbundle bit_operations_syntax

definition STEP_SECONDS :: u64 where "STEP_SECONDS = 30"
definition DIGITS_TOTP :: nat where "DIGITS_TOTP = 6"
definition SKEW_STEPS :: u64 where "SKEW_STEPS = 1"
definition SECRET_LEN :: nat where "SECRET_LEN = 20"

definition code_at :: "(bytes \<Rightarrow> bytes \<Rightarrow> bytes) \<Rightarrow> bytes \<Rightarrow> u64 \<Rightarrow> u32" where
  "code_at mac secret unix_time =
     (let counter = to_be_bytes 8 (unat (unix_time div STEP_SECONDS));
          digest = mac secret counter;
          offset = unat (digest ! (length digest - 1) AND 0x0f);
          binary = word_of_nat (from_be_bytes
            [digest ! offset AND 0x7f, digest ! (offset + 1), digest ! (offset + 2), digest ! (offset + 3)]) :: u32 in
      binary mod word_of_nat (10 ^ DIGITS_TOTP))"

definition constant_time_eq :: "u32 \<Rightarrow> u32 \<Rightarrow> bool" where
  "constant_time_eq a b \<longleftrightarrow> a XOR b = 0"

text \<open>The range of steps, both ends included.\<close>

definition steps_around :: "u64 \<Rightarrow> u64 list" where
  "steps_around now = map word_of_nat [unat (saturating_sub now SKEW_STEPS)..<unat (now + SKEW_STEPS) + 1]"

definition totp_verify :: "(bytes \<Rightarrow> bytes \<Rightarrow> bytes) \<Rightarrow> bytes \<Rightarrow> str \<Rightarrow> u64 \<Rightarrow> u64 option" where
  "totp_verify mac secret code unix_time =
     (let code = filter (\<lambda>c. \<not> is_whitespace c) code in
      if length (utf8 code) \<noteq> DIGITS_TOTP \<or> \<not> list_all is_ascii_digit (utf8 code) then None
      else if read_nat code \<ge> 2 ^ 32 then None
      else
        let wanted = word_of_nat (read_nat code); now = unix_time div STEP_SECONDS in
        find (\<lambda>step. constant_time_eq (code_at mac secret (step * STEP_SECONDS)) wanted) (steps_around now))"

definition BASE32 :: str where "BASE32 = lit ''ABCDEFGHIJKLMNOPQRSTUVWXYZ234567''"

text \<open>The inner loop of \<open>base32\<close>: bits left and characters out.\<close>

function push_groups :: "u32 \<Rightarrow> nat \<Rightarrow> str \<Rightarrow> nat \<times> str" where
  "push_groups buffer bits out =
     (if bits \<ge> 5
      then push_groups buffer (bits - 5) (out @ [BASE32 ! unat (drop_bit (bits - 5) buffer AND 31)])
      else (bits, out))"
  by pat_completeness auto
termination
  by (relation "measure (\<lambda>(buffer, bits, out). bits)") auto

declare push_groups.simps [simp del]

primrec base32_loop :: "bytes \<Rightarrow> u32 \<Rightarrow> nat \<Rightarrow> str \<Rightarrow> u32 \<times> nat \<times> str" where
  "base32_loop [] buffer bits out = (buffer, bits, out)"
| "base32_loop (byte # bs) buffer bits out =
     (let buffer = push_bit 8 buffer OR ucast byte;
          (bits, out) = push_groups buffer (bits + 8) out in
      base32_loop bs buffer bits out)"

definition base32 :: "bytes \<Rightarrow> str" where
  "base32 bs =
     (let (buffer, bits, out) = base32_loop bs 0 0 [] in
      if bits > 0 then out @ [BASE32 ! unat (push_bit (5 - bits) buffer AND 31)] else out)"

definition unreserved :: "u8 \<Rightarrow> bool" where
  "unreserved b \<longleftrightarrow>
     (65 \<le> b \<and> b \<le> 90) \<or> (97 \<le> b \<and> b \<le> 122) \<or> (48 \<le> b \<and> b \<le> 57) \<or> b = 45 \<or> b = 46 \<or> b = 95 \<or> b = 126"

definition upper_hex_digit :: "nat \<Rightarrow> rchar" where
  "upper_hex_digit n = (if n < 10 then 48 + n else 65 + (n - 10))"

definition percent_encode :: "str \<Rightarrow> str" where
  "percent_encode s =
     concat (map (\<lambda>b. if unreserved b then [unat b]
                      else [37, upper_hex_digit (unat b div 16), upper_hex_digit (unat b mod 16)]) (utf8 s))"

definition totp_uri :: "bytes \<Rightarrow> str \<Rightarrow> str \<Rightarrow> str" where
  "totp_uri secret issuer account =
     (let issuer = percent_encode issuer in
      lit ''otpauth://totp/'' @ issuer @ lit '':'' @ percent_encode account @ lit ''?secret='' @ base32 secret @
      lit ''&issuer='' @ issuer @ lit ''&algorithm=SHA1&digits='' @ show_nat DIGITS_TOTP @ lit ''&period='' @
      show_nat (unat STEP_SECONDS))"

subsection \<open>Codes\<close>

lemma code_at_bound: "unat (code_at mac secret t) < 1000000"
  by (simp add: code_at_def Let_def DIGITS_TOTP_def unat_mod)

lemma constant_time_eq_iff: "constant_time_eq a b \<longleftrightarrow> a = b"
proof
  assume "constant_time_eq a b"
  then have "(a XOR b) XOR b = b" by (simp add: constant_time_eq_def)
  then show "a = b" by (simp add: xor.assoc)
qed (simp add: constant_time_eq_def)

lemma step_of_time: "unat (t div STEP_SECONDS) = unat t div 30"
  by (simp add: STEP_SECONDS_def unat_div)

lemma set_steps_around:
  assumes "unat now < 2 ^ 64 - 1"
  shows "step \<in> set (steps_around now) \<longleftrightarrow> unat now \<le> unat step + 1 \<and> unat step \<le> unat now + 1"
proof -
  have hi: "unat (now + SKEW_STEPS) = unat now + 1"
    using assms by (simp add: SKEW_STEPS_def unat_word_ariths)
  have lo: "unat (saturating_sub now SKEW_STEPS) = unat now - 1"
    by (simp add: unat_saturating_sub SKEW_STEPS_def)
  have "step \<in> set (steps_around now) \<longleftrightarrow> unat step \<in> {unat now - 1..<unat now + 1 + 1}" (is "?l \<longleftrightarrow> ?r")
  proof
    assume ?l
    then obtain k where k: "k \<in> {unat now - 1..<unat now + 1 + 1}" "step = word_of_nat k"
      unfolding steps_around_def hi lo set_map set_upt by blast
    then have "k < 2 ^ 64" using assms by simp
    then show ?r using k by (simp add: unat_of_nat take_bit_eq_mod)
  next
    assume ?r
    then have "word_of_nat (unat step) \<in> set (steps_around now)"
      unfolding steps_around_def hi lo set_map set_upt by (rule imageI)
    then show ?l by simp
  qed
  then show ?thesis by auto
qed

lemma totp_verify_code:
  assumes "unat c < 1000000"
  shows "totp_verify mac secret (digits_of 6 (unat c)) t =
    find (\<lambda>step. code_at mac secret (step * STEP_SECONDS) = c) (steps_around (t div STEP_SECONDS))"
proof -
  let ?ds = "digits_of 6 (unat c)"
  have d: "\<forall>x\<in>set ?ds. is_digit x" using digits_of_digit by blast
  then have "filter (\<lambda>x. \<not> is_whitespace x) ?ds = ?ds"
    by (auto simp: filter_id_conv is_digit_def is_whitespace_def)
  moreover have "length (utf8 ?ds) = 6" "list_all is_ascii_digit (utf8 ?ds)"
    using d utf8_digits is_ascii_digit_utf8 by simp_all
  moreover have "read_nat ?ds = unat c" using assms by (simp add: read_digits_of)
  ultimately show ?thesis
    using assms by (simp add: totp_verify_def DIGITS_TOTP_def constant_time_eq_iff)
qed

lemma find_SomeD: "find P xs = Some x \<Longrightarrow> x \<in> set xs \<and> P x"
  by (auto simp: find_Some_iff)

lemma totp_verify_sound:
  assumes "totp_verify mac secret code t = Some step" and "unat t < 2 ^ 63"
  shows "unat (code_at mac secret (step * STEP_SECONDS)) = read_nat (filter (\<lambda>c. \<not> is_whitespace c) code)"
    and "unat t div 30 \<le> unat step + 1" and "unat step \<le> unat t div 30 + 1"
proof -
  let ?now = "t div STEP_SECONDS"
  let ?r = "read_nat (filter (\<lambda>c. \<not> is_whitespace c) code)"
  have r: "?r < 2 ^ 32" and f: "find (\<lambda>step. code_at mac secret (step * STEP_SECONDS) = word_of_nat ?r) (steps_around ?now) = Some step"
    using assms(1) by (auto simp: totp_verify_def Let_def constant_time_eq_iff split: if_splits)
  have "unat ?now < 2 ^ 64 - 1" using assms(2) by (simp add: step_of_time)
  from set_steps_around [OF this] find_SomeD [OF f]
  show "unat t div 30 \<le> unat step + 1" "unat step \<le> unat t div 30 + 1" by (simp_all add: step_of_time)
  have "unat (word_of_nat ?r :: u32) = ?r" using r by (simp add: unat_of_nat take_bit_eq_mod)
  then show "unat (code_at mac secret (step * STEP_SECONDS)) = ?r" using find_SomeD [OF f] by simp
qed

lemma totp_verify_complete:
  assumes "unat t div 30 \<le> unat now div 30 + 1" and "unat now div 30 \<le> unat t div 30 + 1" and "unat now < 2 ^ 63"
  shows "\<exists>step. totp_verify mac secret (digits_of 6 (unat (code_at mac secret t))) now = Some step"
proof -
  let ?s = "t div STEP_SECONDS" and ?now = "now div STEP_SECONDS"
  have "unat ?now < 2 ^ 64 - 1" using assms(3) by (simp add: step_of_time)
  then have mem: "?s \<in> set (steps_around ?now)" using set_steps_around assms(1,2) by (simp add: step_of_time)
  have "unat (?s * STEP_SECONDS) = unat t div 30 * 30"
    using unsigned_less [of t, where ?'a = nat]
    by (simp add: unat_word_ariths step_of_time STEP_SECONDS_def unat_div)
  then have "?s * STEP_SECONDS div STEP_SECONDS = ?s"
    by (simp add: word_unat_eq_iff step_of_time)
  then have "code_at mac secret (?s * STEP_SECONDS) = code_at mac secret t" by (simp add: code_at_def)
  then have "find (\<lambda>step. code_at mac secret (step * STEP_SECONDS) = code_at mac secret t) (steps_around ?now) \<noteq> None"
    using mem by (auto simp: find_None_iff)
  then show ?thesis using totp_verify_code [OF code_at_bound] by auto
qed

subsection \<open>Base 32\<close>

text \<open>The number a text stands for, read in base 32 with the alphabet's values.\<close>

definition value32 :: "str \<Rightarrow> nat" where
  "value32 s = foldl (\<lambda>n c. 32 * n + the (position (\<lambda>d. d = c) BASE32)) 0 s"

lemma position_BASE32: "k < 32 \<Longrightarrow> position (\<lambda>d. d = BASE32 ! k) BASE32 = Some k"
proof -
  assume "k < 32"
  then have "k \<in> set [0..<32]" by simp
  moreover have "list_all (\<lambda>k. position (\<lambda>d. d = BASE32 ! k) BASE32 = Some k) [0..<32]"
    by code_simp
  ultimately show ?thesis by (simp only: list_all_iff)
qed

lemma value32_snoc: "k < 32 \<Longrightarrow> value32 (s @ [BASE32 ! k]) = 32 * value32 s + k"
  by (simp add: value32_def position_BASE32)

lemma push_groups_value:
  assumes "push_groups buffer bits out = (bits', out')"
  shows "bits' < 5 \<and> bits + 5 * length out = bits' + 5 * length out' \<and>
    value32 out' * 2 ^ bits' + unat buffer mod 2 ^ bits' = value32 out * 2 ^ bits + unat buffer mod 2 ^ bits"
  using assms
proof (induction buffer bits out rule: push_groups.induct)
  case (1 buffer bits out)
  show ?case
  proof (cases "bits \<ge> 5")
    case True
    let ?b = "bits - 5" and ?d = "unat buffer div 2 ^ (bits - 5) mod 32"
    have d: "unat (drop_bit ?b buffer AND 31) = ?d"
    proof -
      have "drop_bit ?b buffer AND 31 = take_bit 5 (drop_bit ?b buffer)"
        by (simp add: take_bit_eq_mask mask_numeral)
      then have "unat (drop_bit ?b buffer AND 31) = take_bit 5 (drop_bit ?b (unat buffer))"
        by (simp only: unsigned_take_bit_eq unat_drop_bit_eq)
      then show ?thesis by (simp only: drop_bit_eq_div take_bit_eq_mod) simp
    qed
    have "push_groups buffer ?b (out @ [BASE32 ! ?d]) = (bits', out')"
      using "1.prems" True by (simp add: push_groups.simps [of buffer bits] d)
    then have IH: "bits' < 5 \<and> ?b + 5 * length (out @ [BASE32 ! ?d]) = bits' + 5 * length out' \<and>
      value32 out' * 2 ^ bits' + unat buffer mod 2 ^ bits' =
        value32 (out @ [BASE32 ! ?d]) * 2 ^ ?b + unat buffer mod 2 ^ ?b"
      using "1.IH" [OF True] by (simp add: d)
    have "bits = ?b + 5" using True by simp
    then have "(2 :: nat) ^ bits = 2 ^ ?b * 2 ^ 5" by (metis power_add)
    then have pow: "(2 :: nat) ^ bits = 2 ^ ?b * 32" by simp
    have "unat buffer mod 2 ^ bits = 2 ^ ?b * ?d + unat buffer mod 2 ^ ?b"
      unfolding pow by (rule mod_mult2_eq)
    then have "value32 (out @ [BASE32 ! ?d]) * 2 ^ ?b + unat buffer mod 2 ^ ?b =
        value32 out * 2 ^ bits + unat buffer mod 2 ^ bits"
      by (simp add: value32_snoc pow algebra_simps)
    then show ?thesis using IH True by simp
  next
    case False
    then show ?thesis using "1.prems" by (simp add: push_groups.simps [of buffer bits])
  qed
qed

lemma unat_widen: "unat (ucast (b :: u8) :: u32) = unat b"
  using byte_bound [of b] by (simp add: unsigned_ucast_eq take_bit_eq_mod)

lemma push_byte_mod:
  assumes "k \<le> 4"
  shows "unat (push_bit 8 buffer OR ucast (byte :: u8) :: u32) mod 2 ^ (k + 8) = unat buffer mod 2 ^ k * 256 + unat byte"
proof -
  let ?n = "unat buffer * 256 + unat byte"
  have "push_bit 8 buffer AND (ucast byte :: u32) = 0"
    by (rule bit_word_eqI) (auto simp: bit_simps dest: bit_imp_le_length)
  then have "push_bit 8 buffer OR ucast byte = push_bit 8 buffer + (ucast byte :: u32)"
    by (simp only: disjunctive_add_eq_or)
  then have "unat (push_bit 8 buffer OR ucast byte :: u32) = ?n mod 2 ^ 32"
    by (simp add: push_bit_eq_mult unat_word_ariths unat_widen mod_simps)
  moreover have "(2 :: nat) ^ (k + 8) dvd 2 ^ 32" using assms by (intro le_imp_power_dvd) simp
  moreover have "?n mod (256 * 2 ^ k) = 256 * (?n div 256 mod 2 ^ k) + ?n mod 256" by (rule mod_mult2_eq)
  ultimately show ?thesis using byte_bound [of byte] by (simp only: mod_mod_cancel) (simp add: power_add mult.commute)
qed

lemma from_le_bytes_append: "from_le_bytes (xs @ ys) = from_le_bytes xs + 256 ^ length xs * from_le_bytes ys"
  by (induction xs) (simp_all add: algebra_simps)

lemma from_be_bytes_Cons: "from_be_bytes (b # bs) = unat b * 256 ^ length bs + from_be_bytes bs"
  by (simp add: from_be_bytes_def from_le_bytes_append)

lemma base32_loop_value:
  assumes "base32_loop bs buffer bits out = (buffer', bits', out')" and "bits < 5"
  shows "bits' < 5 \<and> 8 * length bs + bits + 5 * length out = bits' + 5 * length out' \<and>
    value32 out' * 2 ^ bits' + unat buffer' mod 2 ^ bits' =
      (value32 out * 2 ^ bits + unat buffer mod 2 ^ bits) * 256 ^ length bs + from_be_bytes bs"
  using assms
proof (induction bs arbitrary: buffer bits out)
  case Nil
  then show ?case by (simp add: from_be_bytes_def)
next
  case (Cons byte bs)
  let ?buf = "push_bit 8 buffer OR ucast byte :: u32"
  obtain bits1 out1 where g: "push_groups ?buf (bits + 8) out = (bits1, out1)" by (rule prod.exhaust)
  have l: "base32_loop bs ?buf bits1 out1 = (buffer', bits', out')" using Cons.prems(1) g by (simp add: Let_def)
  have pg: "bits1 < 5" "bits + 8 + 5 * length out = bits1 + 5 * length out1"
    "value32 out1 * 2 ^ bits1 + unat ?buf mod 2 ^ bits1 = value32 out * 2 ^ (bits + 8) + unat ?buf mod 2 ^ (bits + 8)"
    using push_groups_value [OF g] by blast+
  have "unat ?buf mod 2 ^ (bits + 8) = unat buffer mod 2 ^ bits * 256 + unat byte"
    using push_byte_mod Cons.prems(2) by simp
  then have v: "value32 out1 * 2 ^ bits1 + unat ?buf mod 2 ^ bits1 =
      (value32 out * 2 ^ bits + unat buffer mod 2 ^ bits) * 256 + unat byte"
    using pg(3) by (simp add: power_add algebra_simps)
  have be: "from_be_bytes (byte # bs) = unat byte * 256 ^ length bs + from_be_bytes bs"
    by (rule from_be_bytes_Cons)
  show ?case using Cons.IH [OF l pg(1)] pg(2) unfolding v be by (simp add: algebra_simps)
qed

text \<open>The text is the bytes as one number, padded with zero bits to whole digits.\<close>

lemma base32_value:
  "5 * length (base32 bs) < 8 * length bs + 5 \<and> 8 * length bs \<le> 5 * length (base32 bs) \<and>
   value32 (base32 bs) = from_be_bytes bs * 2 ^ (5 * length (base32 bs) - 8 * length bs)"
proof -
  obtain buffer bits out where l: "base32_loop bs 0 0 [] = (buffer, bits, out)" by (rule prod_cases3)
  have v: "bits < 5" "8 * length bs = bits + 5 * length out"
    "value32 out * 2 ^ bits + unat buffer mod 2 ^ bits = from_be_bytes bs"
    using base32_loop_value [OF l] by (auto simp: value32_def)
  show ?thesis
  proof (cases "bits = 0")
    case True
    then show ?thesis using v by (simp add: base32_def l)
  next
    case False
    let ?k = "5 - bits" and ?d = "unat (push_bit (5 - bits) buffer AND 31)"
    have "push_bit ?k buffer AND 31 = take_bit 5 (push_bit ?k buffer)"
      by (simp add: take_bit_eq_mask mask_numeral)
    also have "\<dots> = push_bit ?k (take_bit bits buffer)"
      using v(1) by (simp add: take_bit_push_bit)
    finally have "?d = take_bit 32 (push_bit ?k (take_bit bits (unat buffer)))"
      by (simp add: unsigned_push_bit_eq unsigned_take_bit_eq)
    then have d: "?d = unat buffer mod 2 ^ bits * 2 ^ ?k mod 2 ^ 32"
      by (simp only: take_bit_eq_mod push_bit_eq_mult)
    have "(2 :: nat) ^ bits * 2 ^ ?k = 2 ^ 5" using v(1) by (simp only: power_add [symmetric]) simp
    then have pow: "(2 :: nat) ^ bits * 2 ^ ?k = 32" by simp
    have "unat buffer mod 2 ^ bits * 2 ^ ?k < 2 ^ bits * 2 ^ ?k" by simp
    then have small: "unat buffer mod 2 ^ bits * 2 ^ ?k < 32" using pow by simp
    then have d: "?d = unat buffer mod 2 ^ bits * 2 ^ ?k" using d by simp
    then have "?d < 32" using small by simp
    then have "value32 (out @ [BASE32 ! ?d]) = 32 * value32 out + unat buffer mod 2 ^ bits * 2 ^ ?k"
      using d value32_snoc by simp
    also have "\<dots> = from_be_bytes bs * 2 ^ ?k" unfolding pow [symmetric] v(3) [symmetric] by (simp add: algebra_simps)
    finally show ?thesis using v(1,2) False by (simp add: base32_def l)
  qed
qed

subsection \<open>Properties\<close>

text \<open>A code that is accepted is the code of the step that is returned, which is the current
  one or next to it; and the code shown in the current step or one next to it is accepted.\<close>

theorem totp_codes:
  assumes "unat now < 2 ^ 63"
  shows "(case totp_verify mac secret code now of
        None \<Rightarrow> True
      | Some step \<Rightarrow>
          unat (code_at mac secret (step * STEP_SECONDS)) = read_nat (filter (\<lambda>c. \<not> is_whitespace c) code) \<and>
          unat now div 30 \<le> unat step + 1 \<and> unat step \<le> unat now div 30 + 1) \<and>
    (unat t div 30 \<le> unat now div 30 + 1 \<and> unat now div 30 \<le> unat t div 30 + 1 \<longrightarrow>
      totp_verify mac secret (digits_of 6 (unat (code_at mac secret t))) now \<noteq> None)"
proof (intro conjI impI)
  show "case totp_verify mac secret code now of
        None \<Rightarrow> True
      | Some step \<Rightarrow>
          unat (code_at mac secret (step * STEP_SECONDS)) = read_nat (filter (\<lambda>c. \<not> is_whitespace c) code) \<and>
          unat now div 30 \<le> unat step + 1 \<and> unat step \<le> unat now div 30 + 1"
    using totp_verify_sound [OF _ assms] by (simp split: option.split)
next
  assume "unat t div 30 \<le> unat now div 30 + 1 \<and> unat now div 30 \<le> unat t div 30 + 1"
  then show "totp_verify mac secret (digits_of 6 (unat (code_at mac secret t))) now \<noteq> None"
    using totp_verify_complete [of t now mac secret] assms by auto
qed

theorem totp_codes_witness:
  "totp_verify (\<lambda>key m. replicate 20 3) [1] (digits_of 6 (unat (code_at (\<lambda>key m. replicate 20 3) [1] 59))) 65 \<noteq> None"
  using totp_codes [of 65 "\<lambda>key m. replicate 20 3" "[1]" "[]" 59] by simp

end
