(* ===== verification/Accounts.thy ===== *)
theory Accounts
  imports Rendezvous Totp "HOL-Library.List_Lexorder"
begin

text \<open>
  The accounts of a server (\<open>crates/server/src/accounts.rs\<close>): who they are, how they sign in
  and the tokens that stand for them.

  The database is SQLite with the schema of \<open>crates/server/migrations\<close>: a table is the list of
  its rows, a statement is what it does to them, one step each, and a transaction is one step.
  Statements may fail: an operation is given which of its statements, counted from 0, the
  database does not carry out, so what an error leaves behind is part of the model. It is also
  given the readings of the clocks and the random bytes it draws, each in order.

  Argon2, SHA-256 and HMAC are parameters, and so is Unicode's lower case. The keys that count
  wrong passwords are the address or the lower-case name rather than their text with a prefix.
\<close>

subsection \<open>Data\<close>

definition MIN_PASSWORD :: nat where "MIN_PASSWORD = 10"
definition MAX_NAME :: nat where "MAX_NAME = 64"
definition LOGIN_LIFETIME :: int where "LOGIN_LIFETIME = 12 * 3600"
definition SETUP_LIFETIME :: int where "SETUP_LIFETIME = 24 * 3600"
definition TRIES :: nat where "TRIES = 10"
definition TRY_WINDOW :: nat where "TRY_WINDOW = 15 * 60 * 1000000000"
definition LOGIN_PREFIX :: str where "LOGIN_PREFIX = lit ''nhs_''"
definition API_PREFIX :: str where "API_PREFIX = lit ''nht_''"

record account =
  us_id :: int
  us_name :: str
  us_admin :: bool
  us_totp :: bool
  us_disabled :: bool

record api_token =
  at_id :: int
  at_name :: str
  at_created_at :: int
  at_last_used_at :: "int option"
  at_expires_at :: "int option"

datatype denied =
    WrongCredentials | TotpNeeded | WrongCode | TooManyTries | Invalid str | Forbidden | NotFound

record user_row =
  ur_id :: int
  ur_name :: str
  ur_password_hash :: str
  ur_admin :: bool
  ur_disabled :: bool
  ur_totp_secret :: "bytes option"
  ur_totp_pending :: "bytes option"
  ur_totp_last_step :: "int option"
  ur_created_at :: int

record login_row =
  lr_token_hash :: bytes
  lr_user_id :: int
  lr_created_at :: int
  lr_expires_at :: int

record token_row =
  tr_id :: int
  tr_user_id :: int
  tr_name :: str
  tr_token_hash :: bytes
  tr_created_at :: int
  tr_last_used_at :: "int option"
  tr_expires_at :: "int option"

datatype try_key = IpKey ip | NameKey str

record accounts =
  user_rows :: "user_row list"
  login_rows :: "login_row list"
  token_rows :: "token_row list"
  setup_rows :: "(bytes \<times> int) list"
  tries :: "try_key \<rightharpoonup> nat list"

record account_crypto =
  ac_sha :: "bytes \<Rightarrow> bytes"
  ac_mac :: "bytes \<Rightarrow> bytes \<Rightarrow> bytes"
  ac_hash :: "bytes \<Rightarrow> str \<Rightarrow> str option"
  ac_matches :: "str \<Rightarrow> str \<Rightarrow> bool"
  ac_dummy :: str
  ac_lowercase :: "str \<Rightarrow> str"

record account_env =
  ev_clock :: "nat \<Rightarrow> int"
  ev_instant :: "nat \<Rightarrow> nat"
  ev_fails :: "nat \<Rightarrow> bool"
  ev_random :: "nat \<Rightarrow> bytes option"

definition internal :: denied where
  "internal = Invalid (lit ''the server failed; see its log'')"

definition user_of :: "user_row \<Rightarrow> account" where
  "user_of r = \<lparr>us_id = ur_id r, us_name = ur_name r, us_admin = ur_admin r,
     us_totp = (ur_totp_secret r \<noteq> None), us_disabled = ur_disabled r\<rparr>"

subsection \<open>Helpers\<close>

definition check_name :: "str \<Rightarrow> denied + unit" where
  "check_name name =
     (let len = length name in
      if len = 0 \<or> len > MAX_NAME \<or> list_ex is_control name \<or> trim name \<noteq> name
      then Inl (Invalid (lit ''a name is 1 to '' @ show_nat MAX_NAME @ lit '' characters, without surrounding spaces''))
      else Inr ())"

definition check_password :: "str \<Rightarrow> denied + unit" where
  "check_password password =
     (if length password < MIN_PASSWORD
      then Inl (Invalid (lit ''a password is at least '' @ show_nat MIN_PASSWORD @ lit '' characters''))
      else Inr ())"

definition random_token :: "bytes option \<Rightarrow> str \<Rightarrow> str option" where
  "random_token random prefix = map_option (\<lambda>bytes. prefix @ to_hex bytes) random"

definition hash_token :: "account_crypto \<Rightarrow> str \<Rightarrow> bytes" where
  "hash_token C token = ac_sha C (utf8 token)"

text \<open>Names are unique, and compared, without regard to the case of ASCII letters.\<close>

definition ascii_lower :: "rchar \<Rightarrow> rchar" where
  "ascii_lower c = (if 65 \<le> c \<and> c \<le> 90 then c + 32 else c)"

definition same_name :: "str \<Rightarrow> str \<Rightarrow> bool" where
  "same_name a b \<longleftrightarrow> map ascii_lower a = map ascii_lower b"

text \<open>The next id of a table, as SQLite gives them out.\<close>

definition next_id :: "int list \<Rightarrow> int" where
  "next_id ids = (if ids = [] then 1 else Max (set ids) + 1)"

definition row_of :: "int \<Rightarrow> accounts \<Rightarrow> user_row option" where
  "row_of uid s = find (\<lambda>r. ur_id r = uid) (user_rows s)"

definition update_row :: "int \<Rightarrow> (user_row \<Rightarrow> user_row) \<Rightarrow> accounts \<Rightarrow> accounts" where
  "update_row uid f s = s\<lparr>user_rows := map (\<lambda>r. if ur_id r = uid then f r else r) (user_rows s)\<rparr>"

definition recent_try :: "nat \<Rightarrow> nat \<Rightarrow> bool" where
  "recent_try now t \<longleftrightarrow> now - t < TRY_WINDOW"

definition may_try :: "nat \<Rightarrow> try_key \<Rightarrow> (try_key \<rightharpoonup> nat list) \<Rightarrow> bool \<times> (try_key \<rightharpoonup> nat list)" where
  "may_try now key ts =
     (let ts1 = retain (\<lambda>_ past. past \<noteq> [] \<and> recent_try now (last past)) ts in
      (case ts1 key of None \<Rightarrow> True | Some past \<Rightarrow> length past < TRIES, ts1))"

definition failed_key :: "nat \<Rightarrow> try_key \<Rightarrow> (try_key \<rightharpoonup> nat list) \<Rightarrow> (try_key \<rightharpoonup> nat list)" where
  "failed_key now key ts =
     (let past = (case ts key of None \<Rightarrow> [] | Some past \<Rightarrow> past) in
      ts(key \<mapsto> dropWhile (\<lambda>t. \<not> recent_try now t) past @ [now]))"

definition failed :: "nat \<Rightarrow> try_key list \<Rightarrow> accounts \<Rightarrow> accounts" where
  "failed now keys s = s\<lparr>tries := fold (failed_key now) keys (tries s)\<rparr>"

definition active_admins :: "accounts \<Rightarrow> nat" where
  "active_admins s = length (filter (\<lambda>r. ur_admin r \<and> \<not> ur_disabled r) (user_rows s))"

subsection \<open>Users\<close>

definition get_user :: "nat \<Rightarrow> account_env \<Rightarrow> int \<Rightarrow> accounts \<Rightarrow> denied + account option" where
  "get_user n E uid s = (if ev_fails E n then Inl internal else Inr (map_option user_of (row_of uid s)))"

text \<open>What most operations end with: the user, who has to be there.\<close>

definition the_user :: "nat \<Rightarrow> account_env \<Rightarrow> int \<Rightarrow> accounts \<Rightarrow> denied + account" where
  "the_user n E uid s =
     (case get_user n E uid s of
        Inl e \<Rightarrow> Inl e
      | Inr None \<Rightarrow> Inl NotFound
      | Inr (Some u) \<Rightarrow> Inr u)"

definition has_users :: "account_env \<Rightarrow> accounts \<Rightarrow> bool option" where
  "has_users E s = (if ev_fails E 0 then None else Some (user_rows s \<noteq> []))"

definition list_users :: "account_env \<Rightarrow> accounts \<Rightarrow> denied + account list" where
  "list_users E s =
     (if ev_fails E 0 then Inl internal
      else Inr (map user_of (sort_key (\<lambda>r. map ascii_lower (ur_name r)) (user_rows s))))"

definition new_row :: "str \<Rightarrow> str \<Rightarrow> bool \<Rightarrow> int \<Rightarrow> accounts \<Rightarrow> user_row" where
  "new_row name hash admin now s =
     \<lparr>ur_id = next_id (map ur_id (user_rows s)), ur_name = name, ur_password_hash = hash, ur_admin = admin,
      ur_disabled = False, ur_totp_secret = None, ur_totp_pending = None, ur_totp_last_step = None,
      ur_created_at = now\<rparr>"

definition name_taken :: "str \<Rightarrow> accounts \<Rightarrow> bool" where
  "name_taken name s \<longleftrightarrow> list_ex (\<lambda>r. same_name (ur_name r) name) (user_rows s)"

definition new_setup_token :: "account_crypto \<Rightarrow> account_env \<Rightarrow> accounts \<Rightarrow> str option \<times> accounts" where
  "new_setup_token C E s =
     (case random_token (ev_random E 0) [] of
        None \<Rightarrow> (None, s)
      | Some token \<Rightarrow>
          if ev_fails E 0 then (None, s)
          else
            let s1 = s\<lparr>setup_rows := []\<rparr> in
            if ev_fails E 1 then (None, s1)
            else (Some token, s1\<lparr>setup_rows := [(hash_token C token, ev_clock E 0 + SETUP_LIFETIME)]\<rparr>))"

text \<open>\<open>setup\<close> is a transaction until the last look-up: a failure before its commit leaves the
  database as it was.\<close>

definition setup_admin :: "account_crypto \<Rightarrow> account_env \<Rightarrow> str \<Rightarrow> str \<Rightarrow> str \<Rightarrow> accounts \<Rightarrow> (denied + account) \<times> accounts" where
  "setup_admin C E token name password s =
     (case check_name name of
        Inl e \<Rightarrow> (Inl e, s)
      | Inr _ \<Rightarrow>
          (case check_password password of
             Inl e \<Rightarrow> (Inl e, s)
           | Inr _ \<Rightarrow>
               if ev_fails E 0 then (Inl internal, s)
               else if \<not> list_ex (\<lambda>(h, expires). h = hash_token C token \<and> expires > ev_clock E 0) (setup_rows s)
                    \<or> user_rows s \<noteq> [] then (Inl Forbidden, s)
               else
                 (case ev_random E 0 of
                    None \<Rightarrow> (Inl internal, s)
                  | Some salt \<Rightarrow>
                      (case ac_hash C salt password of
                         None \<Rightarrow> (Inl internal, s)
                       | Some h \<Rightarrow>
                           if ev_fails E 1 \<or> name_taken name s then (Inl internal, s)
                           else
                             let row = new_row name h True (ev_clock E 1) s;
                                 s1 = s\<lparr>user_rows := user_rows s @ [row], setup_rows := []\<rparr> in
                             (the_user 2 E (ur_id row) s1, s1)))))"

definition create_user :: "account_crypto \<Rightarrow> account_env \<Rightarrow> str \<Rightarrow> str \<Rightarrow> bool \<Rightarrow> accounts \<Rightarrow> (denied + account) \<times> accounts" where
  "create_user C E name password admin s =
     (case check_name name of
        Inl e \<Rightarrow> (Inl e, s)
      | Inr _ \<Rightarrow>
          (case check_password password of
             Inl e \<Rightarrow> (Inl e, s)
           | Inr _ \<Rightarrow>
               (case ev_random E 0 of
                  None \<Rightarrow> (Inl internal, s)
                | Some salt \<Rightarrow>
                    (case ac_hash C salt password of
                       None \<Rightarrow> (Inl internal, s)
                     | Some h \<Rightarrow>
                         if ev_fails E 0 then (Inl internal, s)
                         else if name_taken name s
                         then (Inl (Invalid (lit ''there is already a user called '' @ name)), s)
                         else
                           let row = new_row name h admin (ev_clock E 0) s;
                               s1 = s\<lparr>user_rows := user_rows s @ [row]\<rparr> in
                           (the_user 1 E (ur_id row) s1, s1)))))"

subsection \<open>Signing in\<close>

definition sign_in_keys :: "account_crypto \<Rightarrow> str \<Rightarrow> ip \<Rightarrow> try_key list" where
  "sign_in_keys C name from_ip = [IpKey from_ip, NameKey (ac_lowercase C name)]"

text \<open>The first half, up to reading the user's row. The password is checked after it on another
  thread, and other requests run meanwhile.\<close>

definition sign_in_start ::
  "account_crypto \<Rightarrow> account_env \<Rightarrow> str \<Rightarrow> ip \<Rightarrow> accounts \<Rightarrow> (denied + user_row option) \<times> accounts" where
  "sign_in_start C E name from_ip s =
     (let (ok1, ts1) = may_try (ev_instant E 0) (IpKey from_ip) (tries s);
          (ok2, ts2) = (if ok1 then may_try (ev_instant E 1) (NameKey (ac_lowercase C name)) ts1 else (False, ts1));
          s1 = s\<lparr>tries := ts2\<rparr> in
      if \<not> ok2 then (Inl TooManyTries, s1)
      else if ev_fails E 0 then (Inl internal, s1)
      else (Inr (find (\<lambda>r. same_name (ur_name r) name) (user_rows s1)), s1))"

definition new_login :: "account_crypto \<Rightarrow> account_env \<Rightarrow> int \<Rightarrow> accounts \<Rightarrow> (denied + str \<times> account) \<times> accounts" where
  "new_login C E uid s =
     (case random_token (ev_random E 0) LOGIN_PREFIX of
        None \<Rightarrow> (Inl internal, s)
      | Some token \<Rightarrow>
          if ev_fails E 2 \<or> list_ex (\<lambda>l. lr_token_hash l = hash_token C token) (login_rows s)
             \<or> row_of uid s = None
          then (Inl internal, s)
          else
            let s1 = s\<lparr>login_rows := login_rows s @
                  [\<lparr>lr_token_hash = hash_token C token, lr_user_id = uid, lr_created_at = ev_clock E 1,
                    lr_expires_at = ev_clock E 2 + LOGIN_LIFETIME\<rparr>]\<rparr> in
            (case the_user 3 E uid s1 of
               Inl e \<Rightarrow> (Inl e, s1)
             | Inr u \<Rightarrow> (Inr (token, u), s1)))"

text \<open>\<open>as i64\<close>.\<close>

definition step_number :: "u64 \<Rightarrow> int" where
  "step_number step = sint step"

definition sign_in_finish ::
  "account_crypto \<Rightarrow> account_env \<Rightarrow> str \<Rightarrow> str \<Rightarrow> str option \<Rightarrow> ip \<Rightarrow> user_row option \<Rightarrow> accounts
     \<Rightarrow> (denied + str \<times> account) \<times> accounts" where
  "sign_in_finish C E name password code from_ip row s =
     (let keys = sign_in_keys C name from_ip;
          stored = (case row of None \<Rightarrow> ac_dummy C | Some r \<Rightarrow> ur_password_hash r) in
      case (if ac_matches C password stored then row else None) of
        None \<Rightarrow> (Inl WrongCredentials, failed (ev_instant E 2) keys s)
      | Some r \<Rightarrow>
          if ur_disabled r then (Inl WrongCredentials, s)
          else
            (case ur_totp_secret r of
               None \<Rightarrow> new_login C E (ur_id r) s
             | Some secret \<Rightarrow>
                 (case code of
                    None \<Rightarrow> (Inl TotpNeeded, s)
                  | Some c \<Rightarrow>
                      (case totp_verify (ac_mac C) secret c (word_of_int (ev_clock E 0)) of
                         Some step \<Rightarrow>
                           if (case ur_totp_last_step r of None \<Rightarrow> True | Some used \<Rightarrow> step_number step > used) then
                             (if ev_fails E 1 then (Inl internal, s)
                              else new_login C E (ur_id r)
                                     (update_row (ur_id r) (\<lambda>u. u\<lparr>ur_totp_last_step := Some (step_number step)\<rparr>) s))
                           else (Inl WrongCode, failed (ev_instant E 2) keys s)
                       | None \<Rightarrow> (Inl WrongCode, failed (ev_instant E 2) keys s)))))"

definition sign_in ::
  "account_crypto \<Rightarrow> account_env \<Rightarrow> str \<Rightarrow> str \<Rightarrow> str option \<Rightarrow> ip \<Rightarrow> accounts \<Rightarrow> (denied + str \<times> account) \<times> accounts" where
  "sign_in C E name password code from_ip s =
     (case sign_in_start C E name from_ip s of
        (Inl e, s1) \<Rightarrow> (Inl e, s1)
      | (Inr row, s1) \<Rightarrow> sign_in_finish C E name password code from_ip row s1)"

definition starts_with :: "str \<Rightarrow> str \<Rightarrow> bool" where
  "starts_with prefix s \<longleftrightarrow> take (length prefix) s = prefix"

definition session_user :: "account_crypto \<Rightarrow> account_env \<Rightarrow> str \<Rightarrow> accounts \<Rightarrow> denied + account option" where
  "session_user C E token s =
     (if \<not> starts_with LOGIN_PREFIX token then Inr None
      else if ev_fails E 0 then Inl internal
      else Inr (case find (\<lambda>l. lr_token_hash l = hash_token C token \<and> lr_expires_at l > ev_clock E 0 \<and>
                     (case row_of (lr_user_id l) s of None \<Rightarrow> False | Some r \<Rightarrow> \<not> ur_disabled r)) (login_rows s) of
                  None \<Rightarrow> None
                | Some l \<Rightarrow> map_option user_of (row_of (lr_user_id l) s)))"

definition sign_out :: "account_crypto \<Rightarrow> account_env \<Rightarrow> str \<Rightarrow> accounts \<Rightarrow> (denied + unit) \<times> accounts" where
  "sign_out C E token s =
     (if ev_fails E 0 then (Inl internal, s)
      else (Inr (), s\<lparr>login_rows := filter (\<lambda>l. lr_token_hash l \<noteq> hash_token C token) (login_rows s)\<rparr>))"

subsection \<open>Tokens for the API\<close>

definition token_of :: "token_row \<Rightarrow> api_token" where
  "token_of t = \<lparr>at_id = tr_id t, at_name = tr_name t, at_created_at = tr_created_at t,
     at_last_used_at = tr_last_used_at t, at_expires_at = tr_expires_at t\<rparr>"

definition api_tokens :: "nat \<Rightarrow> account_env \<Rightarrow> int \<Rightarrow> accounts \<Rightarrow> denied + api_token list" where
  "api_tokens n E uid s =
     (if ev_fails E n then Inl internal
      else Inr (map token_of (sort_key tr_id (filter (\<lambda>t. tr_user_id t = uid) (token_rows s)))))"

definition new_api_token ::
  "account_crypto \<Rightarrow> account_env \<Rightarrow> int \<Rightarrow> str \<Rightarrow> u32 option \<Rightarrow> accounts \<Rightarrow> (denied + api_token \<times> str) \<times> accounts" where
  "new_api_token C E uid name lifetime_days s =
     (case check_name name of
        Inl e \<Rightarrow> (Inl e, s)
      | Inr _ \<Rightarrow>
          (case random_token (ev_random E 0) API_PREFIX of
             None \<Rightarrow> (Inl internal, s)
           | Some token \<Rightarrow>
               let expires_at = map_option (\<lambda>days. ev_clock E 0 + int (unat days) * 86400) lifetime_days in
               if ev_fails E 0 \<or> list_ex (\<lambda>t. tr_token_hash t = hash_token C token) (token_rows s) \<or> row_of uid s = None
               then (Inl internal, s)
               else
                 let i = next_id (map tr_id (token_rows s));
                     row = \<lparr>tr_id = i, tr_user_id = uid, tr_name = name, tr_token_hash = hash_token C token,
                            tr_created_at = ev_clock E 1, tr_last_used_at = None, tr_expires_at = expires_at\<rparr>;
                     s1 = s\<lparr>token_rows := token_rows s @ [row]\<rparr> in
                 (case api_tokens 1 E uid s1 of
                    Inl e \<Rightarrow> (Inl e, s1)
                  | Inr ts \<Rightarrow>
                      (case find (\<lambda>t. at_id t = i) ts of
                         None \<Rightarrow> (Inl NotFound, s1)
                       | Some listed \<Rightarrow> (Inr (listed, token), s1)))))"

definition token_valid :: "bytes \<Rightarrow> int \<Rightarrow> accounts \<Rightarrow> token_row \<Rightarrow> bool" where
  "token_valid h now s t \<longleftrightarrow>
     tr_token_hash t = h \<and>
     (case tr_expires_at t of None \<Rightarrow> True | Some e \<Rightarrow> e > now) \<and>
     (case row_of (tr_user_id t) s of None \<Rightarrow> False | Some r \<Rightarrow> \<not> ur_disabled r)"

definition api_user :: "account_crypto \<Rightarrow> account_env \<Rightarrow> str \<Rightarrow> accounts \<Rightarrow> (denied + account option) \<times> accounts" where
  "api_user C E token s =
     (if \<not> starts_with API_PREFIX token then (Inr None, s)
      else
        let h = hash_token C token in
        if ev_fails E 0 then (Inl internal, s)
        else
          (case find (token_valid h (ev_clock E 0) s) (token_rows s) of
             None \<Rightarrow> (Inr None, s)
           | Some t \<Rightarrow>
               if ev_fails E 1 then (Inl internal, s)
               else (Inr (map_option user_of (row_of (tr_user_id t) s)),
                     s\<lparr>token_rows := map (\<lambda>x. if tr_token_hash x = h then x\<lparr>tr_last_used_at := Some (ev_clock E 1)\<rparr> else x)
                        (token_rows s)\<rparr>)))"

definition delete_api_token :: "account_env \<Rightarrow> int \<Rightarrow> int \<Rightarrow> accounts \<Rightarrow> (denied + unit) \<times> accounts" where
  "delete_api_token E uid i s =
     (let gone = (\<lambda>t. tr_id t = i \<and> tr_user_id t = uid) in
      if ev_fails E 0 then (Inl internal, s)
      else if \<not> list_ex gone (token_rows s) then (Inl NotFound, s)
      else (Inr (), s\<lparr>token_rows := filter (\<lambda>t. \<not> gone t) (token_rows s)\<rparr>))"

subsection \<open>Changing what a user has\<close>

definition drop_logins :: "int \<Rightarrow> accounts \<Rightarrow> accounts" where
  "drop_logins uid s = s\<lparr>login_rows := filter (\<lambda>l. lr_user_id l \<noteq> uid) (login_rows s)\<rparr>"

definition change_password ::
  "account_crypto \<Rightarrow> account_env \<Rightarrow> int \<Rightarrow> str \<Rightarrow> str \<Rightarrow> accounts \<Rightarrow> (denied + unit) \<times> accounts" where
  "change_password C E uid current new s =
     (case check_password new of
        Inl e \<Rightarrow> (Inl e, s)
      | Inr _ \<Rightarrow>
          if ev_fails E 0 then (Inl internal, s)
          else
            (case row_of uid s of
               None \<Rightarrow> (Inl internal, s)
             | Some r \<Rightarrow>
                 if \<not> ac_matches C current (ur_password_hash r) then (Inl WrongCredentials, s)
                 else
                   (case ev_random E 0 of
                      None \<Rightarrow> (Inl internal, s)
                    | Some salt \<Rightarrow>
                        (case ac_hash C salt new of
                           None \<Rightarrow> (Inl internal, s)
                         | Some h \<Rightarrow>
                             if ev_fails E 1 then (Inl internal, s)
                             else
                               let s1 = update_row uid (\<lambda>u. u\<lparr>ur_password_hash := h\<rparr>) s in
                               if ev_fails E 2 then (Inl internal, s1) else (Inr (), drop_logins uid s1)))))"

definition totp_begin :: "account_env \<Rightarrow> account \<Rightarrow> accounts \<Rightarrow> (denied + str \<times> str) \<times> accounts" where
  "totp_begin E u s =
     (case ev_random E 0 of
        None \<Rightarrow> (Inl internal, s)
      | Some secret \<Rightarrow>
          if ev_fails E 0 then (Inl internal, s)
          else (Inr (base32 secret, totp_uri secret (lit ''Nearhand'') (us_name u)),
                update_row (us_id u) (\<lambda>r. r\<lparr>ur_totp_pending := Some secret\<rparr>) s))"

definition totp_confirm :: "account_crypto \<Rightarrow> account_env \<Rightarrow> int \<Rightarrow> str \<Rightarrow> accounts \<Rightarrow> (denied + unit) \<times> accounts" where
  "totp_confirm C E uid code s =
     (if ev_fails E 0 then (Inl internal, s)
      else
        (case row_of uid s of
           None \<Rightarrow> (Inl internal, s)
         | Some r \<Rightarrow>
             (case ur_totp_pending r of
                None \<Rightarrow> (Inl (Invalid (lit ''start setting up TOTP first'')), s)
              | Some secret \<Rightarrow>
                  (case totp_verify (ac_mac C) secret code (word_of_int (ev_clock E 0)) of
                     None \<Rightarrow> (Inl WrongCode, s)
                   | Some step \<Rightarrow>
                       if ev_fails E 1 then (Inl internal, s)
                       else (Inr (), update_row uid (\<lambda>u. u\<lparr>ur_totp_secret := ur_totp_pending u, ur_totp_pending := None,
                              ur_totp_last_step := Some (step_number step)\<rparr>) s)))))"

definition totp_disable :: "account_crypto \<Rightarrow> account_env \<Rightarrow> int \<Rightarrow> str \<Rightarrow> accounts \<Rightarrow> (denied + unit) \<times> accounts" where
  "totp_disable C E uid code s =
     (if ev_fails E 0 then (Inl internal, s)
      else
        (case row_of uid s of
           None \<Rightarrow> (Inl internal, s)
         | Some r \<Rightarrow>
             (case ur_totp_secret r of
                None \<Rightarrow> (Inl (Invalid (lit ''TOTP is not on'')), s)
              | Some secret \<Rightarrow>
                  (case totp_verify (ac_mac C) secret code (word_of_int (ev_clock E 0)) of
                     None \<Rightarrow> (Inl WrongCode, s)
                   | Some step \<Rightarrow>
                       if ev_fails E 1 then (Inl internal, s)
                       else (Inr (), update_row uid (\<lambda>u. u\<lparr>ur_totp_secret := None, ur_totp_last_step := None\<rparr>) s)))))"

definition last_admin :: denied where
  "last_admin = Invalid (lit ''this is the last administrator; make another one first'')"

text \<open>\<open>update_user\<close> in two halves: the check, and what it writes.\<close>

definition update_user_check :: "account_env \<Rightarrow> int \<Rightarrow> bool option \<Rightarrow> bool option \<Rightarrow> accounts \<Rightarrow> denied + unit" where
  "update_user_check E uid admin disabled s =
     (case the_user 0 E uid s of
        Inl e \<Rightarrow> Inl e
      | Inr u \<Rightarrow>
          if us_admin u \<and> \<not> us_disabled u \<and> (admin = Some False \<or> disabled = Some True) then
            (if ev_fails E 1 then Inl internal
             else if active_admins s \<le> 1 then Inl last_admin else Inr ())
          else Inr ())"

definition update_user_write :: "account_env \<Rightarrow> int \<Rightarrow> bool option \<Rightarrow> bool option \<Rightarrow> accounts \<Rightarrow> (denied + account) \<times> accounts" where
  "update_user_write E uid admin disabled s =
     (let set_admin = (case admin of None \<Rightarrow> Inr s
             | Some a \<Rightarrow> if ev_fails E 2 then Inl s else Inr (update_row uid (\<lambda>u. u\<lparr>ur_admin := a\<rparr>) s)) in
      case set_admin of
        Inl s0 \<Rightarrow> (Inl internal, s0)
      | Inr s1 \<Rightarrow>
          (case disabled of
             None \<Rightarrow> (the_user 5 E uid s1, s1)
           | Some d \<Rightarrow>
               if ev_fails E 3 then (Inl internal, s1)
               else
                 let s2 = update_row uid (\<lambda>u. u\<lparr>ur_disabled := d\<rparr>) s1 in
                 if \<not> d then (the_user 5 E uid s2, s2)
                 else if ev_fails E 4 then (Inl internal, s2)
                 else (the_user 5 E uid (drop_logins uid s2), drop_logins uid s2)))"

definition update_user :: "account_env \<Rightarrow> int \<Rightarrow> bool option \<Rightarrow> bool option \<Rightarrow> accounts \<Rightarrow> (denied + account) \<times> accounts" where
  "update_user E uid admin disabled s =
     (case update_user_check E uid admin disabled s of
        Inl e \<Rightarrow> (Inl e, s)
      | Inr _ \<Rightarrow> update_user_write E uid admin disabled s)"

text \<open>Deleting a user deletes what refers to them.\<close>

definition delete_user :: "account_env \<Rightarrow> int \<Rightarrow> accounts \<Rightarrow> (denied + unit) \<times> accounts" where
  "delete_user E uid s =
     (case the_user 0 E uid s of
        Inl e \<Rightarrow> (Inl e, s)
      | Inr u \<Rightarrow>
          if us_admin u \<and> \<not> us_disabled u \<and> ev_fails E 1 then (Inl internal, s)
          else if us_admin u \<and> \<not> us_disabled u \<and> active_admins s \<le> 1 then (Inl last_admin, s)
          else if ev_fails E 2 then (Inl internal, s)
          else (Inr (), s\<lparr>user_rows := filter (\<lambda>r. ur_id r \<noteq> uid) (user_rows s),
                         login_rows := filter (\<lambda>l. lr_user_id l \<noteq> uid) (login_rows s),
                         token_rows := filter (\<lambda>t. tr_user_id t \<noteq> uid) (token_rows s)\<rparr>))"

end
