(* ===== verification/Accounts_Run.thy ===== *)
theory Accounts_Run
  imports Accounts
begin

text \<open>
  What any sequence of account operations keeps. The table of users changes in few ways, so an
  invariant of it is a locale: the ways as its laws, and that every operation and every run
  keeps the invariant as its theorems. Its interpretations are the invariants the properties
  rest on: ids are distinct, an administrator is left, and a used code stays used. Then what
  every operation keeps of the other tables: names and hashes are unique, and sessions and
  tokens are of users who are there.
\<close>

subsection \<open>Runs\<close>

datatype account_event =
    ESetupToken account_env
  | ESetup account_env str str str
  | ECreate account_env str str bool
  | ESignIn account_env str str "str option" ip
  | ESignOut account_env str
  | ENewToken account_env int str "u32 option"
  | EApiUser account_env str
  | EDeleteToken account_env int int
  | EChangePassword account_env int str str
  | ETotpBegin account_env account
  | ETotpConfirm account_env int str
  | ETotpDisable account_env int str
  | EUpdateUser account_env int "bool option" "bool option"
  | EDeleteUser account_env int

fun account_step :: "account_crypto \<Rightarrow> account_event \<Rightarrow> accounts \<Rightarrow> accounts" where
  "account_step C (ESetupToken E) s = snd (new_setup_token C E s)"
| "account_step C (ESetup E token name password) s = snd (setup_admin C E token name password s)"
| "account_step C (ECreate E name password admin) s = snd (create_user C E name password admin s)"
| "account_step C (ESignIn E name password code from_ip) s = snd (sign_in C E name password code from_ip s)"
| "account_step C (ESignOut E token) s = snd (sign_out C E token s)"
| "account_step C (ENewToken E uid name days) s = snd (new_api_token C E uid name days s)"
| "account_step C (EApiUser E token) s = snd (api_user C E token s)"
| "account_step C (EDeleteToken E uid i) s = snd (delete_api_token E uid i s)"
| "account_step C (EChangePassword E uid current new) s = snd (change_password C E uid current new s)"
| "account_step C (ETotpBegin E u) s = snd (totp_begin E u s)"
| "account_step C (ETotpConfirm E uid code) s = snd (totp_confirm C E uid code s)"
| "account_step C (ETotpDisable E uid code) s = snd (totp_disable C E uid code s)"
| "account_step C (EUpdateUser E uid admin disabled) s = snd (update_user E uid admin disabled s)"
| "account_step C (EDeleteUser E uid) s = snd (delete_user E uid s)"

definition account_run :: "account_crypto \<Rightarrow> account_event list \<Rightarrow> accounts \<Rightarrow> accounts" where
  "account_run C es s = fold (account_step C) es s"

subsection \<open>The ways the table of users changes\<close>

definition upd :: "int \<Rightarrow> (user_row \<Rightarrow> user_row) \<Rightarrow> user_row list \<Rightarrow> user_row list" where
  "upd uid f rows = map (\<lambda>r. if ur_id r = uid then f r else r) rows"

definition active :: "user_row \<Rightarrow> bool" where
  "active r \<longleftrightarrow> ur_admin r \<and> \<not> ur_disabled r"

definition set_standing :: "bool option \<Rightarrow> bool option \<Rightarrow> user_row \<Rightarrow> user_row" where
  "set_standing admin disabled r =
     r\<lparr>ur_admin := (case admin of None \<Rightarrow> ur_admin r | Some a \<Rightarrow> a),
       ur_disabled := (case disabled of None \<Rightarrow> ur_disabled r | Some d \<Rightarrow> d)\<rparr>"

text \<open>Whether the last active administrator would be lost.\<close>

definition leaves_admin :: "int \<Rightarrow> user_row list \<Rightarrow> bool" where
  "leaves_admin uid rows \<longleftrightarrow> (\<exists>r\<in>set rows. ur_id r = uid \<and> active r) \<longrightarrow> 2 \<le> length (filter active rows)"

lemma user_rows_update_row [simp]: "user_rows (update_row uid f s) = upd uid f (user_rows s)"
  by (simp add: update_row_def upd_def)

lemma user_rows_failed [simp]: "user_rows (failed now keys s) = user_rows s"
  by (simp add: failed_def)

lemma user_rows_drop_logins [simp]: "user_rows (drop_logins uid s) = user_rows s"
  by (simp add: drop_logins_def)

lemma user_rows_new_login [simp]: "user_rows (snd (new_login C E uid s)) = user_rows s"
  by (auto simp: new_login_def Let_def split: option.split sum.split)

lemma upd_upd: "(\<And>r. ur_id (f r) = ur_id r) \<Longrightarrow> upd uid g (upd uid f rows) = upd uid (\<lambda>r. g (f r)) rows"
  by (simp add: upd_def)

lemma row_of_member: "row_of uid s = Some r \<Longrightarrow> r \<in> set (user_rows s) \<and> ur_id r = uid"
  by (auto simp: row_of_def find_Some_iff)

lemma same_id_same_row: "distinct (map ur_id rows) \<Longrightarrow> a \<in> set rows \<Longrightarrow> b \<in> set rows \<Longrightarrow> ur_id a = ur_id b \<Longrightarrow> a = b"
  by (meson distinct_map inj_onD)

lemma active_admins_eq: "active_admins s = length (filter active (user_rows s))"
  unfolding active_admins_def active_def by (rule arg_cong [of _ _ length]) (rule filter_cong, simp_all)

subsection \<open>Invariants of the table\<close>

locale table_invariant =
  fixes inv :: "user_row list \<Rightarrow> bool" and ok :: "account_event \<Rightarrow> bool"
  assumes ids: "inv rows \<Longrightarrow> distinct (map ur_id rows)"
    and password: "inv rows \<Longrightarrow> inv (upd uid (\<lambda>u. u\<lparr>ur_password_hash := h\<rparr>) rows)"
    and pending: "inv rows \<Longrightarrow> inv (upd uid (\<lambda>u. u\<lparr>ur_totp_pending := p\<rparr>) rows)"
    and add: "inv rows \<Longrightarrow> ur_id row = next_id (map ur_id rows) \<Longrightarrow> inv (rows @ [row])"
    and last_step: "inv rows \<Longrightarrow> r \<in> set rows \<Longrightarrow>
      (case ur_totp_last_step r of None \<Rightarrow> True | Some used \<Rightarrow> used < k) \<Longrightarrow>
      inv (upd (ur_id r) (\<lambda>u. u\<lparr>ur_totp_last_step := Some k\<rparr>) rows)"
    and confirm: "inv rows \<Longrightarrow> ok (ETotpConfirm E uid code) \<Longrightarrow>
      inv (upd uid (\<lambda>u. u\<lparr>ur_totp_secret := ur_totp_pending u, ur_totp_pending := None, ur_totp_last_step := Some k\<rparr>) rows)"
    and disable: "inv rows \<Longrightarrow> ok (ETotpDisable E uid code) \<Longrightarrow>
      inv (upd uid (\<lambda>u. u\<lparr>ur_totp_secret := None, ur_totp_last_step := None\<rparr>) rows)"
    and standing: "inv rows \<Longrightarrow> (admin = Some False \<or> disabled = Some True \<Longrightarrow> leaves_admin uid rows) \<Longrightarrow>
      inv (upd uid (set_standing admin disabled) rows)"
    and delete: "inv rows \<Longrightarrow> ok (EDeleteUser E uid) \<Longrightarrow> leaves_admin uid rows \<Longrightarrow>
      inv (filter (\<lambda>r. ur_id r \<noteq> uid) rows)"
begin

lemma new_setup_token_inv: "inv (user_rows s) \<Longrightarrow> inv (user_rows (snd (new_setup_token C E s)))"
  by (auto simp: new_setup_token_def Let_def split: option.split)

lemma add_first: "inv [] \<Longrightarrow> ur_id row = next_id [] \<Longrightarrow> inv [row]"
  using add [of "[]" row] by simp

lemma setup_admin_inv: "inv (user_rows s) \<Longrightarrow> inv (user_rows (snd (setup_admin C E token name pw s)))"
  by (auto simp: setup_admin_def Let_def new_row_def intro!: add_first split: option.split sum.split)

lemma create_user_inv: "inv (user_rows s) \<Longrightarrow> inv (user_rows (snd (create_user C E name pw admin s)))"
  by (auto simp: create_user_def Let_def new_row_def intro!: add split: option.split sum.split)

lemma sign_in_finish_inv:
  assumes "inv (user_rows s)" and "\<And>r. row = Some r \<Longrightarrow> r \<in> set (user_rows s)"
  shows "inv (user_rows (snd (sign_in_finish C E name pw code f row s)))"
  using assms
  by (auto simp: sign_in_finish_def Let_def intro!: last_step split: option.split)

lemma sign_in_inv:
  assumes "inv (user_rows s)"
  shows "inv (user_rows (snd (sign_in C E name pw code f s)))"
proof -
  obtain a s1 where st: "sign_in_start C E name f s = (a, s1)" by (rule prod.exhaust)
  then have rows: "user_rows s1 = user_rows s"
    by (auto simp: sign_in_start_def Let_def split: prod.splits if_splits)
  show ?thesis
  proof (cases a)
    case (Inl e)
    then show ?thesis using assms rows by (simp add: sign_in_def st)
  next
    case (Inr row)
    then have "row = find (\<lambda>r. same_name (ur_name r) name) (user_rows s1)"
      using st by (auto simp: sign_in_start_def Let_def split: prod.splits if_splits)
    then have "r \<in> set (user_rows s1)" if "row = Some r" for r using that find_SomeD by metis
    then show ?thesis using Inr assms rows sign_in_finish_inv [of s1 row] by (simp add: sign_in_def st)
  qed
qed

lemma change_password_inv: "inv (user_rows s) \<Longrightarrow> inv (user_rows (snd (change_password C E uid cur new s)))"
  by (auto simp: change_password_def Let_def intro!: password split: option.split sum.split)

lemma totp_begin_inv: "inv (user_rows s) \<Longrightarrow> inv (user_rows (snd (totp_begin E u s)))"
  by (auto simp: totp_begin_def intro!: pending split: option.split)

lemma totp_confirm_inv:
  "inv (user_rows s) \<Longrightarrow> ok (ETotpConfirm E uid code) \<Longrightarrow> inv (user_rows (snd (totp_confirm C E uid code s)))"
  by (auto simp: totp_confirm_def intro!: confirm split: option.split)

lemma totp_disable_inv:
  "inv (user_rows s) \<Longrightarrow> ok (ETotpDisable E uid code) \<Longrightarrow> inv (user_rows (snd (totp_disable C E uid code s)))"
  by (auto simp: totp_disable_def intro!: disable split: option.split)

lemma checked_leaves_admin:
  assumes "inv (user_rows s)" and "the_user n E uid s = Inr u"
    and "us_admin u \<and> \<not> us_disabled u \<longrightarrow> \<not> active_admins s \<le> 1"
  shows "leaves_admin uid (user_rows s)"
  unfolding leaves_admin_def
proof
  assume "\<exists>r\<in>set (user_rows s). ur_id r = uid \<and> active r"
  then obtain r where r: "r \<in> set (user_rows s)" "ur_id r = uid" "active r" by blast
  obtain r' where r': "row_of uid s = Some r'" "u = user_of r'"
    using assms(2) by (auto simp: the_user_def get_user_def split: if_splits option.splits)
  then have "r' = r" using row_of_member [OF r'(1)] r same_id_same_row [OF ids [OF assms(1)]] by simp
  then show "2 \<le> length (filter active (user_rows s))"
    using assms(3) r(3) r'(2) by (simp add: user_of_def active_admins_eq) (simp add: active_def)
qed

lemma update_user_inv:
  assumes "inv (user_rows s)"
  shows "inv (user_rows (snd (update_user E uid admin disabled s)))"
proof (cases "update_user_check E uid admin disabled s")
  case (Inl e)
  then show ?thesis using assms by (simp add: update_user_def)
next
  case (Inr x)
  have leaves: "leaves_admin uid (user_rows s)" if "admin = Some False \<or> disabled = Some True"
    using Inr that assms by (auto simp: update_user_check_def intro!: checked_leaves_admin split: sum.splits if_splits)
  have "inv (upd uid (set_standing admin disabled) (user_rows s))" "inv (upd uid (set_standing admin None) (user_rows s))"
    using standing assms leaves by auto
  moreover have "upd uid (set_standing None None) (user_rows s) = user_rows s"
    by (simp add: upd_def set_standing_def map_idI)
  moreover have "user_rows (snd (update_user_write E uid admin disabled s)) \<in>
      {user_rows s, upd uid (set_standing admin None) (user_rows s), upd uid (set_standing admin disabled) (user_rows s)}"
    by (auto simp: update_user_write_def Let_def upd_def set_standing_def split: option.split)
  ultimately show ?thesis using assms Inr by (auto simp: update_user_def)
qed

lemma delete_user_inv:
  assumes "inv (user_rows s)" and "ok (EDeleteUser E uid)"
  shows "inv (user_rows (snd (delete_user E uid s)))"
  using assms checked_leaves_admin [OF assms(1)]
  by (auto simp: delete_user_def intro!: delete split: sum.split)

lemma step_inv:
  assumes "inv (user_rows s)" and "ok e"
  shows "inv (user_rows (account_step C e s))"
proof (cases e)
  case (ESignOut E token)
  then show ?thesis using assms(1) by (simp add: sign_out_def)
next
  case (ENewToken E uid name days)
  then show ?thesis using assms(1)
    by (auto simp: new_api_token_def Let_def split: sum.split option.split)
next
  case (EApiUser E token)
  then show ?thesis using assms(1) by (auto simp: api_user_def Let_def split: option.split)
next
  case (EDeleteToken E uid i)
  then show ?thesis using assms(1) by (simp add: delete_api_token_def Let_def)
qed (use assms in \<open>simp_all add: new_setup_token_inv setup_admin_inv create_user_inv sign_in_inv
       change_password_inv totp_begin_inv totp_confirm_inv totp_disable_inv update_user_inv delete_user_inv\<close>)

lemma run_inv:
  assumes "inv (user_rows s)" and "list_all ok es"
  shows "inv (user_rows (account_run C es s))"
  using assms unfolding account_run_def by (induction es arbitrary: s) (simp_all add: step_inv)

end

subsection \<open>Ids are distinct\<close>

lemma map_id_upd: "(\<And>r. ur_id (f r) = ur_id r) \<Longrightarrow> map ur_id (upd uid f rows) = map ur_id rows"
  by (simp add: upd_def)

lemma upd_member: "r \<in> set rows \<Longrightarrow> (if ur_id r = uid then f r else r) \<in> set (upd uid f rows)"
  unfolding upd_def set_map by (rule imageI)

lemma set_standing_id [simp]: "ur_id (set_standing admin disabled r) = ur_id r"
  by (simp add: set_standing_def)

lemma next_id_fresh: "next_id ids \<notin> set ids"
proof (cases "ids = []")
  case False
  have "Max (set ids) + 1 \<notin> set ids"
  proof
    assume "Max (set ids) + 1 \<in> set ids"
    then have "Max (set ids) + 1 \<le> Max (set ids)" by (intro Max_ge) simp_all
    then show False by simp
  qed
  then show ?thesis using False by (simp add: next_id_def)
qed simp

lemma distinct_add: "distinct (map ur_id rows) \<Longrightarrow> ur_id row = next_id (map ur_id rows) \<Longrightarrow> distinct (map ur_id (rows @ [row]))"
  using next_id_fresh [of "map ur_id rows"] by auto

lemma distinct_filter_ids: "distinct (map ur_id rows) \<Longrightarrow> distinct (map ur_id (filter P rows))"
  by (rule distinct_map_filter)

interpretation ids: table_invariant "\<lambda>rows. distinct (map ur_id rows)" "\<lambda>_. True"
  by unfold_locales (simp_all add: map_id_upd distinct_add distinct_filter_ids del: map_append)

subsection \<open>An administrator is left\<close>

definition administered :: "user_row list \<Rightarrow> bool" where
  "administered rows \<longleftrightarrow> distinct (map ur_id rows) \<and> list_ex active rows"

lemma list_ex_upd:
  assumes "list_ex active rows" and "\<And>r. active r \<Longrightarrow> active (f r)"
  shows "list_ex active (upd uid f rows)"
proof -
  obtain r where r: "r \<in> set rows" "active r" using assms(1) by (auto simp: list_ex_iff)
  then have "active (if ur_id r = uid then f r else r)" using assms(2) by simp
  then show ?thesis using upd_member [OF r(1)] unfolding list_ex_iff by blast
qed

lemma administered_upd:
  assumes "administered rows" and "\<And>r. ur_id (f r) = ur_id r" and "\<And>r. ur_admin (f r) = ur_admin r"
    and "\<And>r. ur_disabled (f r) = ur_disabled r"
  shows "administered (upd uid f rows)"
proof -
  have "list_ex active (upd uid f rows)"
    using assms by (intro list_ex_upd) (simp_all add: administered_def active_def)
  then show ?thesis using assms(1,2) by (simp add: administered_def map_id_upd)
qed

lemma another_active:
  assumes "leaves_admin uid rows" and "list_ex active rows" and "distinct (map ur_id rows)"
  shows "\<exists>r\<in>set rows. ur_id r \<noteq> uid \<and> active r"
proof (rule ccontr)
  assume none: "\<not> (\<exists>r\<in>set rows. ur_id r \<noteq> uid \<and> active r)"
  then obtain r where r: "r \<in> set rows" "ur_id r = uid" "active r"
    using assms(2) by (auto simp: list_ex_iff)
  have "set (filter active rows) \<subseteq> {r}" using none r same_id_same_row [OF assms(3)] by auto
  then have "card (set (filter active rows)) \<le> 1" by (metis card_mono card.empty card_insert_if finite.emptyI finite.insertI
        empty_iff One_nat_def)
  moreover have "distinct (filter active rows)" using assms(3) by (simp add: distinct_map)
  ultimately have "length (filter active rows) \<le> 1" by (metis distinct_card)
  then show False using assms(1) r by (auto simp: leaves_admin_def)
qed

interpretation admins: table_invariant administered "\<lambda>_. True"
proof (unfold_locales, goal_cases)
  case (8 rows admin disabled uid)
  then have d: "distinct (map ur_id rows)" and a: "list_ex active rows" by (simp_all add: administered_def)
  have "list_ex active (upd uid (set_standing admin disabled) rows)"
  proof (cases "admin = Some False \<or> disabled = Some True")
    case True
    then obtain r where "r \<in> set rows" "ur_id r \<noteq> uid" "active r" using another_active [OF 8(2) a d] by blast
    then show ?thesis using upd_member [of r rows uid "set_standing admin disabled"] by (auto simp: list_ex_iff)
  next
    case False
    then show ?thesis using a by (intro list_ex_upd) (auto simp: set_standing_def active_def split: option.split)
  qed
  then show ?case using d by (simp add: administered_def map_id_upd)
next
  case (9 rows E uid)
  then have d: "distinct (map ur_id rows)" and a: "list_ex active rows" by (simp_all add: administered_def)
  then have "list_ex active (filter (\<lambda>r. ur_id r \<noteq> uid) rows)"
    using another_active [OF 9(3)] by (auto simp: list_ex_iff)
  then show ?case using d by (simp add: administered_def distinct_filter_ids)
next
  case (1 rows)
  then show ?case by (simp add: administered_def)
next
  case (4 rows row)
  then show ?case using distinct_add [of rows row] by (auto simp: administered_def)
qed (rule administered_upd; simp)+

subsection \<open>A used code stays used\<close>

text \<open>The user has this TOTP secret and has used a code of this step or a later one.\<close>

definition used_up_to :: "int \<Rightarrow> bytes \<Rightarrow> int \<Rightarrow> user_row list \<Rightarrow> bool" where
  "used_up_to uid secret k rows \<longleftrightarrow> distinct (map ur_id rows) \<and>
     (\<exists>r\<in>set rows. ur_id r = uid \<and> ur_totp_secret r = Some secret \<and>
       (case ur_totp_last_step r of None \<Rightarrow> False | Some used \<Rightarrow> k \<le> used))"

text \<open>An event that does not set the user's TOTP up anew, turn it off or delete the user.\<close>

definition keeps_totp :: "int \<Rightarrow> account_event \<Rightarrow> bool" where
  "keeps_totp uid e \<longleftrightarrow>
     (case e of
        ETotpConfirm _ u _ \<Rightarrow> u \<noteq> uid
      | ETotpDisable _ u _ \<Rightarrow> u \<noteq> uid
      | EDeleteUser _ u \<Rightarrow> u \<noteq> uid
      | _ \<Rightarrow> True)"

lemma used_upd:
  assumes "used_up_to uid secret k rows" and "\<And>r. ur_id (f r) = ur_id r"
    and "\<And>r. r \<in> set rows \<Longrightarrow> ur_id r = uid \<Longrightarrow> u = uid \<Longrightarrow>
      ur_totp_secret (f r) = ur_totp_secret r \<and>
      (\<forall>used. ur_totp_last_step r = Some used \<longrightarrow> (\<exists>used'\<ge>used. ur_totp_last_step (f r) = Some used'))"
  shows "used_up_to uid secret k (upd u f rows)"
proof -
  obtain r used where r: "r \<in> set rows" "ur_id r = uid" "ur_totp_secret r = Some secret"
      "ur_totp_last_step r = Some used" "k \<le> used"
    using assms(1) by (auto simp: used_up_to_def split: option.splits)
  let ?r = "if ur_id r = u then f r else r"
  have "?r \<in> set (upd u f rows)" using upd_member [OF r(1)] .
  moreover have "ur_id ?r = uid \<and> ur_totp_secret ?r = Some secret \<and> (\<exists>l. ur_totp_last_step ?r = Some l \<and> k \<le> l)"
    using assms(2) assms(3) [OF r(1,2)] r order_trans by (cases "u = uid") fastforce+
  ultimately show ?thesis using assms(1,2) by (fastforce simp: used_up_to_def map_id_upd)
qed

interpretation used: table_invariant "used_up_to uid secret k" "keeps_totp uid" for uid secret k
proof (unfold_locales, goal_cases)
  case (5 rows r j)
  then have "distinct (map ur_id rows)" by (simp add: used_up_to_def)
  then show ?case using 5 same_id_same_row by (intro used_upd) (auto split: option.splits, fastforce+)
next
  case (4 rows row)
  then show ?case using distinct_add [of rows row] by (auto simp: used_up_to_def)
next
  case (9 rows E u)
  then show ?case by (auto simp: used_up_to_def keeps_totp_def distinct_filter_ids)
next
  case (1 rows)
  then show ?case by (simp add: used_up_to_def)
next
  case (8 rows admin disabled u)
  then show ?case by (intro used_upd) (simp_all add: set_standing_def)
qed (rule used_upd; simp add: keeps_totp_def)+

subsection \<open>Rows lead to users\<close>

text \<open>Names are unique whatever the case of their letters, sessions, tokens and setup tokens are
  told apart by their hashes, and every session and token is of a user who is there.\<close>

definition folded_user :: "user_row \<Rightarrow> str" where
  "folded_user r = map ascii_lower (ur_name r)"

definition accounts_ok :: "accounts \<Rightarrow> bool" where
  "accounts_ok a \<longleftrightarrow>
     distinct (map folded_user (user_rows a)) \<and> distinct (map lr_token_hash (login_rows a)) \<and>
     distinct (map tr_id (token_rows a)) \<and> distinct (map tr_token_hash (token_rows a)) \<and>
     distinct (map fst (setup_rows a)) \<and>
     lr_user_id ` set (login_rows a) \<subseteq> ur_id ` set (user_rows a) \<and>
     tr_user_id ` set (token_rows a) \<subseteq> ur_id ` set (user_rows a)"

lemma accounts_ok_update [intro!]:
  assumes "accounts_ok a" and "\<And>r. ur_id (f r) = ur_id r" and "\<And>r. ur_name (f r) = ur_name r"
  shows "accounts_ok (update_row uid f a)"
proof -
  have "map folded_user (upd uid f rows) = map folded_user rows" for rows
    using assms(3) by (simp add: upd_def folded_user_def)
  moreover have "ur_id ` set (upd uid f rows) = ur_id ` set rows" for rows
    using map_id_upd [of f uid rows] assms(2) by (metis list.set_map)
  ultimately show ?thesis using assms(1) by (simp add: accounts_ok_def) (simp add: update_row_def)
qed

lemma accounts_ok_tries [simp]: "accounts_ok (a\<lparr>tries := ts\<rparr>) \<longleftrightarrow> accounts_ok a"
  by (simp add: accounts_ok_def)

lemma accounts_ok_failed [simp]: "accounts_ok (failed now keys a) \<longleftrightarrow> accounts_ok a"
  by (simp add: failed_def)

lemma accounts_ok_logins: "accounts_ok a \<Longrightarrow> accounts_ok (a\<lparr>login_rows := filter P (login_rows a)\<rparr>)"
  by (auto simp: accounts_ok_def distinct_map_filter)

lemma accounts_ok_drop [intro!]: "accounts_ok a \<Longrightarrow> accounts_ok (drop_logins uid a)"
  unfolding drop_logins_def by (rule accounts_ok_logins)

lemma accounts_ok_tokens: "accounts_ok a \<Longrightarrow> accounts_ok (a\<lparr>token_rows := filter P (token_rows a)\<rparr>)"
  by (auto simp: accounts_ok_def distinct_map_filter)

lemma accounts_ok_setup: "accounts_ok a \<Longrightarrow> distinct (map fst rows) \<Longrightarrow> accounts_ok (a\<lparr>setup_rows := rows\<rparr>)"
  by (simp add: accounts_ok_def)

lemma accounts_ok_used: "accounts_ok a \<Longrightarrow>
  accounts_ok (a\<lparr>token_rows := map (\<lambda>x. if P x then x\<lparr>tr_last_used_at := t\<rparr> else x) (token_rows a)\<rparr>)"
  by (auto simp: accounts_ok_def comp_def if_distrib [of tr_id] if_distrib [of tr_token_hash] cong: if_cong)

lemma accounts_ok_user: "accounts_ok a \<Longrightarrow> \<not> name_taken (ur_name row) a \<Longrightarrow> accounts_ok (a\<lparr>user_rows := user_rows a @ [row]\<rparr>)"
  by (auto simp: accounts_ok_def name_taken_def list_ex_iff same_name_def folded_user_def)

lemma accounts_ok_without_user:
  assumes "accounts_ok a"
  shows "accounts_ok (a\<lparr>user_rows := filter (\<lambda>r. ur_id r \<noteq> uid) (user_rows a),
    login_rows := filter (\<lambda>l. lr_user_id l \<noteq> uid) (login_rows a), token_rows := filter (\<lambda>t. tr_user_id t \<noteq> uid) (token_rows a)\<rparr>)"
  using assms by (fastforce simp: accounts_ok_def distinct_map_filter)

lemma new_login_ok: "accounts_ok a \<Longrightarrow> accounts_ok (snd (new_login C E uid a))"
  using row_of_member [of uid a]
  by (auto simp: new_login_def accounts_ok_def Let_def list_ex_iff split: option.split sum.split)

lemma sign_in_ok:
  assumes "accounts_ok a"
  shows "accounts_ok (snd (sign_in C E name pw code f a))"
proof -
  obtain st a1 where start: "sign_in_start C E name f a = (st, a1)" by (rule prod.exhaust)
  then have "accounts_ok a1"
    using assms by (auto simp: sign_in_start_def Let_def split: prod.splits if_splits)
  then have "accounts_ok (snd (sign_in_finish C E name pw code f row a1))" for row
    by (auto simp: sign_in_finish_def Let_def intro!: new_login_ok split: option.split)
  then show ?thesis using start \<open>accounts_ok a1\<close> by (cases st) (simp_all add: sign_in_def)
qed

lemma accounts_ok_token:
  assumes "accounts_ok a" and "tr_id t = next_id (map tr_id (token_rows a))" and "row_of (tr_user_id t) a \<noteq> None"
    and "\<not> list_ex (\<lambda>x. tr_token_hash x = tr_token_hash t) (token_rows a)"
  shows "accounts_ok (a\<lparr>token_rows := token_rows a @ [t]\<rparr>)"
proof -
  obtain r where "row_of (tr_user_id t) a = Some r" using assms(3) by blast
  then have "tr_user_id t \<in> ur_id ` set (user_rows a)" using row_of_member by (metis image_eqI)
  moreover have "tr_token_hash t \<notin> tr_token_hash ` set (token_rows a)" using assms(4) by (auto simp: list_ex_iff)
  ultimately show ?thesis using assms(1,2) next_id_fresh [of "map tr_id (token_rows a)"] by (simp add: accounts_ok_def)
qed

lemma new_api_token_ok: "accounts_ok a \<Longrightarrow> accounts_ok (snd (new_api_token C E uid name days a))"
  by (auto simp: new_api_token_def Let_def intro!: accounts_ok_token split: sum.split option.split)

lemma update_user_ok: "accounts_ok a \<Longrightarrow> accounts_ok (snd (update_user E uid admin disabled a))"
  by (auto simp: update_user_def update_user_write_def Let_def split: option.split sum.split)

lemma accounts_ok_step:
  assumes "accounts_ok a"
  shows "accounts_ok (account_step C e a)"
proof (cases e)
  case (ESetupToken E)
  then show ?thesis using assms
    by (auto simp: new_setup_token_def Let_def intro!: accounts_ok_setup split: option.split)
next
  case (ESetup E token name pw)
  then show ?thesis using assms accounts_ok_setup [OF accounts_ok_user [OF assms], of _ "[]"]
    by (auto simp: setup_admin_def new_row_def Let_def split: option.split sum.split)
next
  case (ECreate E name pw admin)
  then show ?thesis using assms accounts_ok_user [OF assms]
    by (auto simp: create_user_def new_row_def Let_def split: option.split sum.split)
next
  case (ESignOut E token)
  then show ?thesis using assms accounts_ok_logins [OF assms] by (simp add: sign_out_def)
next
  case (EApiUser E token)
  then show ?thesis using assms accounts_ok_used [OF assms] by (auto simp: api_user_def Let_def split: option.split)
next
  case (EDeleteToken E uid i)
  then show ?thesis using assms accounts_ok_tokens [OF assms] by (simp add: delete_api_token_def Let_def)
next
  case (EChangePassword E uid cur new)
  then show ?thesis using assms by (auto simp: change_password_def Let_def split: option.split sum.split)
next
  case (ETotpBegin E u)
  then show ?thesis using assms by (auto simp: totp_begin_def split: option.split)
next
  case (ETotpConfirm E uid code)
  then show ?thesis using assms by (auto simp: totp_confirm_def split: option.split)
next
  case (ETotpDisable E uid code)
  then show ?thesis using assms by (auto simp: totp_disable_def split: option.split)
next
  case (EDeleteUser E uid)
  then show ?thesis using assms accounts_ok_without_user [OF assms] by (simp add: delete_user_def split: sum.split)
qed (use assms in \<open>simp_all add: sign_in_ok new_api_token_ok update_user_ok\<close>)

lemma accounts_ok_run: "accounts_ok a \<Longrightarrow> accounts_ok (account_run C es a)"
  unfolding account_run_def by (induction es arbitrary: a) (simp_all add: accounts_ok_step)

end
