(* ===== verification/Accounts_Theorems.thy ===== *)
theory Accounts_Theorems
  imports Accounts_Run
begin

text \<open>
  What the accounts promise: a code works once, an administrator is left, what is revoked no
  longer opens anything; and what two requests at the same time can do to the first two.
\<close>

subsection \<open>Signing in\<close>

lemma new_login_user: "new_login C E uid s = (Inr (token, u), s1) \<Longrightarrow> us_id u = uid"
  by (auto simp: new_login_def the_user_def get_user_def user_of_def Let_def row_of_def find_Some_iff
      split: option.splits sum.splits if_splits)

lemma sign_in_start_rows:
  "sign_in_start C E name f s = (a, s1) \<Longrightarrow> user_rows s1 = user_rows s"
  by (auto simp: sign_in_start_def Let_def split: prod.splits if_splits)

lemma sign_in_start_row:
  "sign_in_start C E name f s = (Inr row, s1) \<Longrightarrow> row = find (\<lambda>r. same_name (ur_name r) name) (user_rows s)"
  by (auto simp: sign_in_start_def Let_def split: prod.splits if_splits)

lemma sign_in_with_code:
  assumes "sign_in C E name pw code f s = (Inr (token, u), s1)"
  obtains r where "r \<in> set (user_rows s)" "us_id u = ur_id r" "ac_matches C pw (ur_password_hash r)" "\<not> ur_disabled r"
    "\<And>secret. ur_totp_secret r = Some secret \<Longrightarrow> \<exists>c step. code = Some c \<and>
      totp_verify (ac_mac C) secret c (word_of_int (ev_clock E 0)) = Some step \<and>
      (case ur_totp_last_step r of None \<Rightarrow> True | Some used \<Rightarrow> used < step_number step) \<and>
      user_rows s1 = upd (ur_id r) (\<lambda>u. u\<lparr>ur_totp_last_step := Some (step_number step)\<rparr>) (user_rows s)"
proof -
  obtain row s0 where st: "sign_in_start C E name f s = (Inr row, s0)"
    and fin: "sign_in_finish C E name pw code f row s0 = (Inr (token, u), s1)"
    using assms by (auto simp: sign_in_def split: prod.splits sum.splits)
  from fin obtain r where r: "row = Some r" "ac_matches C pw (ur_password_hash r)" "\<not> ur_disabled r"
    by (auto simp: sign_in_finish_def Let_def split: option.splits if_splits)
  have mem: "r \<in> set (user_rows s)" using sign_in_start_row [OF st] r(1) find_SomeD by metis
  show ?thesis
  proof (rule that [OF mem _ r(2,3)])
    show "us_id u = ur_id r"
      using fin r new_login_user by (auto simp: sign_in_finish_def Let_def split: option.splits if_splits)
  next
    fix secret assume sec: "ur_totp_secret r = Some secret"
    from fin r sec obtain c step where c: "code = Some c"
      "totp_verify (ac_mac C) secret c (word_of_int (ev_clock E 0)) = Some step"
      "case ur_totp_last_step r of None \<Rightarrow> True | Some used \<Rightarrow> used < step_number step"
      "new_login C E (ur_id r) (update_row (ur_id r) (\<lambda>u. u\<lparr>ur_totp_last_step := Some (step_number step)\<rparr>) s0)
         = (Inr (token, u), s1)"
      by (auto simp: sign_in_finish_def Let_def split: option.splits if_splits)
    have "user_rows s1 = upd (ur_id r) (\<lambda>u. u\<lparr>ur_totp_last_step := Some (step_number step)\<rparr>) (user_rows s)"
      using user_rows_new_login [of C E "ur_id r" "update_row (ur_id r) (\<lambda>u. u\<lparr>ur_totp_last_step := Some (step_number step)\<rparr>) s0"]
        c(4) sign_in_start_rows [OF st] by simp
    with c show "\<exists>c step. code = Some c \<and>
      totp_verify (ac_mac C) secret c (word_of_int (ev_clock E 0)) = Some step \<and>
      (case ur_totp_last_step r of None \<Rightarrow> True | Some used \<Rightarrow> used < step_number step) \<and>
      user_rows s1 = upd (ur_id r) (\<lambda>u. u\<lparr>ur_totp_last_step := Some (step_number step)\<rparr>) (user_rows s)"
      by blast
  qed
qed

lemma used_after_sign_in:
  assumes "distinct (map ur_id (user_rows s))" and "row_of uid s = Some r" and "ur_totp_secret r = Some secret"
    and "sign_in C E name pw code f s = (Inr (token, u), s1)" and "us_id u = uid"
  obtains c step where "code = Some c" "totp_verify (ac_mac C) secret c (word_of_int (ev_clock E 0)) = Some step"
    "case ur_totp_last_step r of None \<Rightarrow> True | Some used \<Rightarrow> used < step_number step"
    "used_up_to uid secret (step_number step) (user_rows s1)"
proof -
  from assms(4) obtain r' where r': "r' \<in> set (user_rows s)" "us_id u = ur_id r'"
    and code: "\<And>secret. ur_totp_secret r' = Some secret \<Longrightarrow> \<exists>c step. code = Some c \<and>
      totp_verify (ac_mac C) secret c (word_of_int (ev_clock E 0)) = Some step \<and>
      (case ur_totp_last_step r' of None \<Rightarrow> True | Some used \<Rightarrow> used < step_number step) \<and>
      user_rows s1 = upd (ur_id r') (\<lambda>u. u\<lparr>ur_totp_last_step := Some (step_number step)\<rparr>) (user_rows s)"
    by (rule sign_in_with_code) blast
  have "r' = r" using same_id_same_row [OF assms(1) r'(1)] row_of_member [OF assms(2)] r'(2) assms(5) by simp
  with code [of secret] assms(3) obtain c step where c: "code = Some c"
    "totp_verify (ac_mac C) secret c (word_of_int (ev_clock E 0)) = Some step"
    "case ur_totp_last_step r of None \<Rightarrow> True | Some used \<Rightarrow> used < step_number step"
    "user_rows s1 = upd (ur_id r) (\<lambda>u. u\<lparr>ur_totp_last_step := Some (step_number step)\<rparr>) (user_rows s)"
    by blast
  have "r\<lparr>ur_totp_last_step := Some (step_number step)\<rparr> \<in> set (user_rows s1)"
    using upd_member [of r "user_rows s" "ur_id r"] row_of_member [OF assms(2)] c(4) by auto
  moreover have "distinct (map ur_id (user_rows s1))" using assms(1) c(4) by (simp add: map_id_upd)
  ultimately have "used_up_to uid secret (step_number step) (user_rows s1)"
    using row_of_member [OF assms(2)] assms(3) unfolding used_up_to_def
    by (intro conjI bexI [of _ "r\<lparr>ur_totp_last_step := Some (step_number step)\<rparr>"]) simp_all
  with c show ?thesis by (intro that)
qed

subsection \<open>An instance\<close>

definition demo_accounts_crypto :: account_crypto where
  "demo_accounts_crypto =
     \<lparr>ac_sha = (\<lambda>b. b), ac_mac = (\<lambda>key m. replicate 20 0), ac_hash = (\<lambda>salt p. Some p),
      ac_matches = (\<lambda>p h. p = h), ac_dummy = [], ac_lowercase = (\<lambda>n. n)\<rparr>"

definition demo_env_at :: "int \<Rightarrow> u8 \<Rightarrow> account_env" where
  "demo_env_at now random =
     \<lparr>ev_clock = (\<lambda>_. now), ev_instant = (\<lambda>_. 0), ev_fails = (\<lambda>_. False), ev_random = (\<lambda>_. Some [random])\<rparr>"

definition demo_row :: "int \<Rightarrow> str \<Rightarrow> user_row" where
  "demo_row i name =
     \<lparr>ur_id = i, ur_name = name, ur_password_hash = [80], ur_admin = True, ur_disabled = False,
      ur_totp_secret = Some [7], ur_totp_pending = None, ur_totp_last_step = None, ur_created_at = 0\<rparr>"

definition demo_accounts :: accounts where
  "demo_accounts = \<lparr>user_rows = [demo_row 1 [65], demo_row 2 [66]], login_rows = [], token_rows = [],
     setup_rows = [], tries = Map.empty\<rparr>"

definition demo_sign_in :: "int \<Rightarrow> u8 \<Rightarrow> accounts \<Rightarrow> (denied + str \<times> account) \<times> accounts" where
  "demo_sign_in now random s =
     sign_in demo_accounts_crypto (demo_env_at now random) [65] [80] (Some (lit ''000000'')) (V4 1) s"

lemma demo_code_at: "code_at (\<lambda>key m. replicate 20 0) k t = 0"
  by (simp add: code_at_def Let_def from_be_bytes_def)

lemma demo_verify:
  "totp_verify (\<lambda>key m. replicate 20 0) secret (lit ''000000'') 300 = Some 9"
  "totp_verify (\<lambda>key m. replicate 20 0) secret (lit ''000000'') 600 = Some 19"
  by (simp_all add: totp_verify_def lit_def is_whitespace_def utf8_char_def is_ascii_digit_def DIGITS_TOTP_def
      read_nat_def STEP_SECONDS_def steps_around_def saturating_sub_def SKEW_STEPS_def demo_code_at constant_time_eq_def)

lemmas demo_simps = demo_accounts_crypto_def demo_env_at_def demo_row_def demo_accounts_def same_name_def ascii_lower_def
  may_try_def retain_def sign_in_start_def sign_in_finish_def sign_in_keys_def sign_in_def new_login_def random_token_def
  the_user_def get_user_def row_of_def update_row_def user_of_def step_number_def hash_token_def demo_verify

lemma demo_start:
  "sign_in_start demo_accounts_crypto (demo_env_at now random) [65] (V4 1) demo_accounts =
     (Inr (Some (demo_row 1 [65])), demo_accounts)"
  by (simp add: demo_simps)

text \<open>Signed in once, with the code of step 9.\<close>

definition demo_signed_in :: accounts where
  "demo_signed_in = demo_accounts\<lparr>
     user_rows := [(demo_row 1 [65])\<lparr>ur_totp_last_step := Some 9\<rparr>, demo_row 2 [66]],
     login_rows := [\<lparr>lr_token_hash = utf8 (LOGIN_PREFIX @ to_hex [1]), lr_user_id = 1, lr_created_at = 300,
       lr_expires_at = 300 + LOGIN_LIFETIME\<rparr>]\<rparr>"

lemma demo_finish:
  "sign_in_finish demo_accounts_crypto (demo_env_at 300 1) [65] [80] (Some (lit ''000000'')) (V4 1)
     (Some (demo_row 1 [65])) demo_accounts = (Inr (LOGIN_PREFIX @ to_hex [1], user_of (demo_row 1 [65])), demo_signed_in)"
  by (simp add: demo_simps demo_signed_in_def)

lemma demo_first: "sign_in demo_accounts_crypto (demo_env_at 300 1) [65] [80] (Some (lit ''000000'')) (V4 1) demo_accounts =
    (Inr (LOGIN_PREFIX @ to_hex [1], user_of (demo_row 1 [65])), demo_signed_in)"
  by (simp only: sign_in_def demo_start demo_finish prod.case sum.case)

lemma demo_tokens: "utf8 (LOGIN_PREFIX @ to_hex [1]) \<noteq> utf8 (LOGIN_PREFIX @ to_hex [2])"
  by (simp add: to_hex_def hex_digit_def utf8_char_def)

lemma demo_finish_again:
  "\<exists>s. sign_in_finish demo_accounts_crypto (demo_env_at 300 2) [65] [80] (Some (lit ''000000'')) (V4 1)
     (Some (demo_row 1 [65])) demo_signed_in = (Inr (LOGIN_PREFIX @ to_hex [2], user_of (demo_row 1 [65])), s)"
  using demo_tokens by (simp add: demo_simps demo_signed_in_def)

lemma demo_second:
  "\<exists>s. sign_in demo_accounts_crypto (demo_env_at 600 2) [65] [80] (Some (lit ''000000'')) (V4 1) demo_signed_in =
    (Inr (LOGIN_PREFIX @ to_hex [2], user_of (demo_row 1 [65])), s)"
  using demo_tokens by (simp add: demo_simps demo_signed_in_def)

subsection \<open>Sessions and tokens\<close>

lemma us_id_user_of: "row_of uid s = Some r \<Longrightarrow> us_id (user_of r) = uid"
  using row_of_member by (simp add: user_of_def)

lemma session_user_Some:
  assumes "session_user C E token s = Inr (Some u)"
  obtains l r where "l \<in> set (login_rows s)" "lr_token_hash l = hash_token C token" "ev_clock E 0 < lr_expires_at l"
    "row_of (lr_user_id l) s = Some r" "\<not> ur_disabled r" "u = user_of r" "us_id u = lr_user_id l"
proof -
  obtain l where f: "find (\<lambda>l. lr_token_hash l = hash_token C token \<and> lr_expires_at l > ev_clock E 0 \<and>
      (case row_of (lr_user_id l) s of None \<Rightarrow> False | Some r \<Rightarrow> \<not> ur_disabled r)) (login_rows s) = Some l"
    and u: "map_option user_of (row_of (lr_user_id l) s) = Some u"
    using assms by (auto simp: session_user_def split: if_splits option.splits)
  obtain r where r: "row_of (lr_user_id l) s = Some r" "u = user_of r" using u by auto
  show ?thesis
    by (rule that [of l r]) (use find_SomeD [OF f] r us_id_user_of in auto)
qed

lemma api_user_Some:
  assumes "fst (api_user C E token s) = Inr (Some u)"
  obtains t r where "t \<in> set (token_rows s)" "token_valid (hash_token C token) (ev_clock E 0) s t"
    "row_of (tr_user_id t) s = Some r" "\<not> ur_disabled r" "u = user_of r" "us_id u = tr_user_id t"
proof -
  obtain t where f: "find (token_valid (hash_token C token) (ev_clock E 0) s) (token_rows s) = Some t"
    and u: "map_option user_of (row_of (tr_user_id t) s) = Some u"
    using assms by (auto simp: api_user_def Let_def split: if_splits option.splits)
  obtain r where r: "row_of (tr_user_id t) s = Some r" "u = user_of r" using u by auto
  then have "\<not> ur_disabled r" using find_SomeD [OF f] by (simp add: token_valid_def)
  then show ?thesis using that [of t r] find_SomeD [OF f] r us_id_user_of [OF r(1)] by blast
qed

lemma row_of_update: "(\<And>r. ur_id (f r) = ur_id r) \<Longrightarrow> row_of uid (update_row uid f s) = map_option f (row_of uid s)"
proof -
  assume f: "\<And>r. ur_id (f r) = ur_id r"
  have "find (\<lambda>r. ur_id r = uid) (map (\<lambda>r. if ur_id r = uid then f r else r) rows) =
      map_option f (find (\<lambda>r. ur_id r = uid) rows)" for rows
    using f by (induction rows) auto
  then show ?thesis by (simp add: row_of_def update_row_def)
qed

lemma row_of_drop_logins [simp]: "row_of uid (drop_logins u s) = row_of uid s"
  by (simp add: row_of_def)

lemma no_login_after_password:
  "change_password C E uid cur new s = (Inr (), s1) \<Longrightarrow> l \<in> set (login_rows s1) \<Longrightarrow> lr_user_id l \<noteq> uid"
  by (auto simp: change_password_def Let_def drop_logins_def split: sum.splits option.splits if_splits)

lemma disabled_after_update:
  assumes "update_user E uid admin (Some True) s = (Inr u, s1)" and "row_of uid s1 = Some r"
  shows "ur_disabled r"
  using assms
  by (auto simp: update_user_def update_user_write_def Let_def row_of_update split: sum.splits option.splits if_splits)

lemma gone_after_delete: "delete_user E uid s = (Inr (), s1) \<Longrightarrow> row_of uid s1 = None"
  by (auto simp: delete_user_def row_of_def find_None_iff split: sum.splits if_splits)

subsection \<open>Properties\<close>

text \<open>C31. A code works once: of two sign-ins of one user with TOTP on, the second was with the
  code of a later step, whatever requests came between that do not turn TOTP off for the user,
  set it up anew or delete them; each request being over before the next begins.\<close>

theorem codes_work_once:
  assumes "distinct (map ur_id (user_rows s))" and "row_of uid s = Some r" and "ur_totp_secret r = Some secret"
    and "sign_in C E1 n1 p1 code1 f1 s = (Inr (t1, u1), s1)" and "us_id u1 = uid"
    and "list_all (keeps_totp uid) es"
    and "sign_in C E2 n2 p2 code2 f2 (account_run C es s1) = (Inr (t2, u2), s2)" and "us_id u2 = uid"
  shows "\<exists>c1 c2 k1 k2. code1 = Some c1 \<and> code2 = Some c2 \<and>
    totp_verify (ac_mac C) secret c1 (word_of_int (ev_clock E1 0)) = Some k1 \<and>
    totp_verify (ac_mac C) secret c2 (word_of_int (ev_clock E2 0)) = Some k2 \<and> step_number k1 < step_number k2"
proof -
  obtain c1 k1 where k1: "code1 = Some c1" "totp_verify (ac_mac C) secret c1 (word_of_int (ev_clock E1 0)) = Some k1"
    "used_up_to uid secret (step_number k1) (user_rows s1)"
    by (rule used_after_sign_in [OF assms(1-5)])
  let ?s = "account_run C es s1"
  have used: "used_up_to uid secret (step_number k1) (user_rows ?s)" using used.run_inv k1(3) assms(6) by blast
  then have d: "distinct (map ur_id (user_rows ?s))" by (simp add: used_up_to_def)
  obtain r2 l where r2: "r2 \<in> set (user_rows ?s)" "ur_id r2 = uid" "ur_totp_secret r2 = Some secret"
    "ur_totp_last_step r2 = Some l" "step_number k1 \<le> l"
    using used by (auto simp: used_up_to_def split: option.splits)
  then obtain r' where "row_of uid ?s = Some r'" by (cases "row_of uid ?s") (auto simp: row_of_def find_None_iff)
  then have row: "row_of uid ?s = Some r2" using row_of_member same_id_same_row [OF d r2(1)] r2(2) by metis
  obtain c2 k2 where k2: "code2 = Some c2" "totp_verify (ac_mac C) secret c2 (word_of_int (ev_clock E2 0)) = Some k2"
    "case ur_totp_last_step r2 of None \<Rightarrow> True | Some used \<Rightarrow> used < step_number k2"
    by (rule used_after_sign_in [OF d row r2(3) assms(7,8)])
  then have "step_number k1 < step_number k2" using r2(4,5) by simp
  then show ?thesis using k1 k2 by blast
qed

theorem codes_work_once_witness:
  "\<exists>k1 k2. totp_verify (ac_mac demo_accounts_crypto) [7] (lit ''000000'') 300 = Some k1 \<and>
     totp_verify (ac_mac demo_accounts_crypto) [7] (lit ''000000'') 600 = Some k2 \<and> step_number k1 < step_number k2"
proof -
  obtain s where s: "sign_in demo_accounts_crypto (demo_env_at 600 2) [65] [80] (Some (lit ''000000'')) (V4 1)
      (account_run demo_accounts_crypto [] demo_signed_in) = (Inr (LOGIN_PREFIX @ to_hex [2], user_of (demo_row 1 [65])), s)"
    using demo_second by (auto simp: account_run_def)
  have "distinct (map ur_id (user_rows demo_accounts))" "row_of 1 demo_accounts = Some (demo_row 1 [65])"
    "ur_totp_secret (demo_row 1 [65]) = Some [7]" "us_id (user_of (demo_row 1 [65])) = 1"
    by (simp_all add: demo_simps)
  from codes_work_once [OF this(1-3) demo_first this(4) _ s this(4)] show ?thesis
    by (simp add: demo_env_at_def)
qed

text \<open>But the row a sign-in checks the code against is read before its password is
  checked, and another sign-in may run meanwhile: two that overlap both succeed with the same
  code.\<close>

theorem code_works_twice_at_once:
  "\<exists>C E1 E2 name pw code f s row1 row2 s1 s2 s3 s4 t1 t2 u.
     ev_clock E1 = ev_clock E2 \<and>
     sign_in_start C E1 name f s = (Inr row1, s1) \<and> sign_in_start C E2 name f s1 = (Inr row2, s2) \<and>
     sign_in_finish C E1 name pw (Some code) f row1 s2 = (Inr (t1, u), s3) \<and>
     sign_in_finish C E2 name pw (Some code) f row2 s3 = (Inr (t2, u), s4) \<and> us_totp u \<and> t1 \<noteq> t2"
proof -
  obtain s where "sign_in_finish demo_accounts_crypto (demo_env_at 300 2) [65] [80] (Some (lit ''000000'')) (V4 1)
     (Some (demo_row 1 [65])) demo_signed_in = (Inr (LOGIN_PREFIX @ to_hex [2], user_of (demo_row 1 [65])), s)"
    using demo_finish_again by blast
  moreover have "ev_clock (demo_env_at 300 1) = ev_clock (demo_env_at 300 2)" "us_totp (user_of (demo_row 1 [65]))"
    by (simp_all add: demo_simps)
  moreover have "LOGIN_PREFIX @ to_hex [1] \<noteq> LOGIN_PREFIX @ to_hex [2]" using demo_tokens by metis
  ultimately show ?thesis using demo_start demo_finish by blast
qed

text \<open>C32. An active administrator is left after any sequence of requests, carried out in full
  or stopped by the database half-way.\<close>

theorem administrator_left:
  assumes "distinct (map ur_id (user_rows s))" and "1 \<le> active_admins s"
  shows "1 \<le> active_admins (account_run C es s)"
proof -
  have "administered (user_rows s)"
    using assms by (cases "filter active (user_rows s)")
      (auto simp: administered_def active_admins_eq list_ex_iff filter_empty_conv, metis filter_eq_ConsD in_set_conv_decomp)
  then have "administered (user_rows (account_run C es s))" using admins.run_inv by (simp add: list_all_iff)
  then have "filter active (user_rows (account_run C es s)) \<noteq> []"
    by (auto simp: administered_def list_ex_iff filter_empty_conv)
  then show ?thesis by (cases "filter active (user_rows (account_run C es s))") (simp_all add: active_admins_eq)
qed

theorem administrator_left_witness:
  "1 \<le> active_admins (account_run demo_accounts_crypto
     [EUpdateUser (demo_env_at 300 1) 1 (Some False) None, EDeleteUser (demo_env_at 300 1) 2] demo_accounts)"
  by (rule administrator_left) (simp_all add: demo_simps active_admins_def)

text \<open>But the check counts the administrators before the change is written: two changes
  that overlap can leave none.\<close>

theorem administrators_lost_at_once:
  "\<exists>E a b s s1 u v s2. 1 \<le> active_admins s \<and>
     update_user_check E a (Some False) None s = Inr () \<and> update_user_check E b None (Some True) s = Inr () \<and>
     update_user_write E a (Some False) None s = (Inr u, s1) \<and> update_user_write E b None (Some True) s1 = (Inr v, s2) \<and>
     active_admins s2 = 0"
  by (rule exI [of _ "demo_env_at 300 1"], rule exI [of _ 1], rule exI [of _ 2], rule exI [of _ demo_accounts])
    (simp add: demo_simps update_user_check_def update_user_write_def active_admins_def drop_logins_def)

text \<open>C33. What is taken away opens nothing: once a password change, a disabling, a deletion
  or a sign-out has succeeded, no session token is the user's (or, signing out, that token is
  nobody's), and no API token is a disabled or deleted user's.\<close>

theorem revoked_opens_nothing:
  "(change_password C E uid cur new s = (Inr (), s1) \<longrightarrow>
      session_user C E' token s1 = Inr (Some v) \<longrightarrow> us_id v \<noteq> uid) \<and>
   (update_user E uid admin (Some True) s = (Inr u, s2) \<longrightarrow>
      session_user C E' token s2 = Inr (Some v) \<or> fst (api_user C E' token s2) = Inr (Some v) \<longrightarrow> us_id v \<noteq> uid) \<and>
   (delete_user E uid s = (Inr (), s3) \<longrightarrow>
      session_user C E' token s3 = Inr (Some v) \<or> fst (api_user C E' token s3) = Inr (Some v) \<longrightarrow> us_id v \<noteq> uid) \<and>
   (sign_out C E token s = (Inr (), s4) \<longrightarrow> session_user C E' token s4 \<noteq> Inr (Some v))"
proof (intro conjI impI)
  assume "change_password C E uid cur new s = (Inr (), s1)" "session_user C E' token s1 = Inr (Some v)"
  then show "us_id v \<noteq> uid" using no_login_after_password by (metis session_user_Some)
next
  assume up: "update_user E uid admin (Some True) s = (Inr u, s2)"
    and op: "session_user C E' token s2 = Inr (Some v) \<or> fst (api_user C E' token s2) = Inr (Some v)"
  from op obtain r where "row_of (us_id v) s2 = Some r" "\<not> ur_disabled r"
    by (metis session_user_Some api_user_Some)
  then show "us_id v \<noteq> uid" using disabled_after_update [OF up] by metis
next
  assume del: "delete_user E uid s = (Inr (), s3)"
    and op: "session_user C E' token s3 = Inr (Some v) \<or> fst (api_user C E' token s3) = Inr (Some v)"
  from op obtain r where "row_of (us_id v) s3 = Some r" by (metis session_user_Some api_user_Some)
  then show "us_id v \<noteq> uid" using gone_after_delete [OF del] by auto
next
  assume "sign_out C E token s = (Inr (), s4)"
  then have "\<And>l. l \<in> set (login_rows s4) \<Longrightarrow> lr_token_hash l \<noteq> hash_token C token"
    by (auto simp: sign_out_def split: if_splits)
  then show "session_user C E' token s4 \<noteq> Inr (Some v)" by (metis session_user_Some)
qed

lemma demo_sign_out:
  "sign_out demo_accounts_crypto (demo_env_at 300 1) (LOGIN_PREFIX @ to_hex [1]) demo_signed_in =
     (Inr (), demo_signed_in\<lparr>login_rows := []\<rparr>)"
  by (simp add: sign_out_def demo_simps demo_signed_in_def)

theorem revoked_opens_nothing_witness:
  "session_user demo_accounts_crypto (demo_env_at 300 1) (LOGIN_PREFIX @ to_hex [1]) (demo_signed_in\<lparr>login_rows := []\<rparr>)
     \<noteq> Inr (Some (user_of (demo_row 1 [65])))"
  using revoked_opens_nothing demo_sign_out by blast

end
