(* ===== verification/Devices.thy ===== *)
theory Devices
  imports Accounts "HOL-Library.Product_Lexorder"
begin

text \<open>
  The managed devices of a server (\<open>crates/server/src/devices.rs\<close>): the machines enrolled
  with it, the groups they are sorted into and the tokens that enroll them.

  The tables are lists of rows, with the keys, the references and the deletions that follow
  one another as \<open>crates/server/migrations\<close> declares them. Statements may fail: \<open>ev_fails\<close>
  tells which, counted from 0 in each operation; an operation of several statements keeps what
  the ones before the failure did, unless they are a transaction. Addresses are kept rather
  than their text.
\<close>

subsection \<open>Data\<close>

definition ENROLL_PREFIX :: str where "ENROLL_PREFIX = lit ''nhe_''"
definition MAX_ENROLL_DAYS :: nat where "MAX_ENROLL_DAYS = 90"
definition MAX_REPORTED :: nat where "MAX_REPORTED = 64"

record device =
  dv_id :: int
  dv_device_id :: str
  dv_fingerprint :: str
  dv_name :: str
  dv_group_id :: "int option"
  dv_group :: "str option"
  dv_os :: str
  dv_version :: str
  dv_enrolled_at :: int
  dv_last_seen_at :: "int option"
  dv_last_address :: "socket_addr option"
  dv_online :: bool
  dv_role :: "str option"

record device_group =
  dg_id :: int
  dg_name :: str
  dg_devices :: int

record enroll_token =
  et_id :: int
  et_name :: str
  et_group_id :: "int option"
  et_uses_left :: "int option"
  et_used :: int
  et_created_at :: int
  et_expires_at :: int

record group_row =
  gr_id :: int
  gr_name :: str
  gr_created_at :: int

record device_row =
  dr_id :: int
  dr_fingerprint :: bytes
  dr_name :: str
  dr_group_id :: "int option"
  dr_os :: str
  dr_version :: str
  dr_enrolled_at :: int
  dr_last_seen_at :: "int option"
  dr_last_address :: "socket_addr option"

record enroll_row =
  er_id :: int
  er_token_hash :: bytes
  er_name :: str
  er_group_id :: "int option"
  er_uses_left :: "int option"
  er_used :: int
  er_created_by :: "int option"
  er_created_at :: int
  er_expires_at :: int

record rule_row =
  rr_id :: int
  rr_user_group :: int
  rr_device_group :: int
  rr_role :: str
  rr_created_at :: int

record database =
  db_accounts :: accounts
  db_groups :: "group_row list"
  db_devices :: "device_row list"
  db_tokens :: "enroll_row list"
  db_user_groups :: "group_row list"
  db_members :: "(int \<times> int) list"
  db_rules :: "rule_row list"

text \<open>The name of a group that is referred to; a dangling reference would give none.\<close>

definition group_name :: "int option \<Rightarrow> database \<Rightarrow> str option" where
  "group_name gid d =
     (case gid of None \<Rightarrow> None | Some g \<Rightarrow> map_option gr_name (find (\<lambda>r. gr_id r = g) (db_groups d)))"

definition device_of :: "database \<Rightarrow> device_row \<Rightarrow> device" where
  "device_of d r =
     (let (i, fp) = (if length (dr_fingerprint r) = 32
                     then (device_id_display (from_fingerprint (dr_fingerprint r)), fingerprint_display (dr_fingerprint r))
                     else ([], [])) in
      \<lparr>dv_id = dr_id r, dv_device_id = i, dv_fingerprint = fp, dv_name = dr_name r, dv_group_id = dr_group_id r,
       dv_group = group_name (dr_group_id r) d, dv_os = dr_os r, dv_version = dr_version r,
       dv_enrolled_at = dr_enrolled_at r, dv_last_seen_at = dr_last_seen_at r,
       dv_last_address = dr_last_address r, dv_online = False, dv_role = None\<rparr>)"

definition enroll_token_of :: "enroll_row \<Rightarrow> enroll_token" where
  "enroll_token_of r =
     \<lparr>et_id = er_id r, et_name = er_name r, et_group_id = er_group_id r, et_uses_left = er_uses_left r,
      et_used = er_used r, et_created_at = er_created_at r, et_expires_at = er_expires_at r\<rparr>"

text \<open>Something an agent reported, fit to list.\<close>

definition reported :: "str \<Rightarrow> str \<Rightarrow> str" where
  "reported s fallback =
     (let t = trim (take MAX_REPORTED (filter (\<lambda>c. \<not> is_control c) (trim s))) in
      if t = [] then fallback else t)"

subsection \<open>Groups\<close>

text \<open>Both kinds of groups have the same columns; what their rows have in common.\<close>

definition group_exists :: "int \<Rightarrow> group_row list \<Rightarrow> bool" where
  "group_exists gid rows \<longleftrightarrow> list_ex (\<lambda>r. gr_id r = gid) rows"

definition group_named :: "str \<Rightarrow> group_row list \<Rightarrow> bool" where
  "group_named name rows \<longleftrightarrow> list_ex (\<lambda>r. same_name (gr_name r) name) rows"

definition group_named_other :: "int \<Rightarrow> str \<Rightarrow> group_row list \<Rightarrow> bool" where
  "group_named_other gid name rows \<longleftrightarrow> list_ex (\<lambda>r. same_name (gr_name r) name \<and> gr_id r \<noteq> gid) rows"

definition rename_row :: "int \<Rightarrow> str \<Rightarrow> group_row list \<Rightarrow> group_row list" where
  "rename_row gid name rows = map (\<lambda>r. if gr_id r = gid then r\<lparr>gr_name := name\<rparr> else r) rows"

definition new_group_row :: "str \<Rightarrow> int \<Rightarrow> group_row list \<Rightarrow> group_row" where
  "new_group_row name now rows = \<lparr>gr_id = next_id (map gr_id rows), gr_name = name, gr_created_at = now\<rparr>"

definition group_taken :: "str \<Rightarrow> denied" where
  "group_taken name = Invalid (lit ''there is a group called '' @ name @ lit '' already'')"

definition device_groups :: "nat \<Rightarrow> account_env \<Rightarrow> database \<Rightarrow> denied + device_group list" where
  "device_groups n E d =
     (if ev_fails E n then Inl internal
      else Inr (map (\<lambda>g. \<lparr>dg_id = gr_id g, dg_name = gr_name g,
                         dg_devices = int (length (filter (\<lambda>v. dr_group_id v = Some (gr_id g)) (db_devices d)))\<rparr>)
                  (sort_key (\<lambda>g. map ascii_lower (gr_name g)) (db_groups d))))"

definition get_device_group :: "nat \<Rightarrow> account_env \<Rightarrow> int \<Rightarrow> database \<Rightarrow> denied + device_group" where
  "get_device_group n E gid d =
     (case device_groups n E d of
        Inl e \<Rightarrow> Inl e
      | Inr gs \<Rightarrow> (case find (\<lambda>g. dg_id g = gid) gs of None \<Rightarrow> Inl NotFound | Some g \<Rightarrow> Inr g))"

definition create_device_group :: "account_env \<Rightarrow> str \<Rightarrow> database \<Rightarrow> (denied + device_group) \<times> database" where
  "create_device_group E name d =
     (case check_name name of
        Inl e \<Rightarrow> (Inl e, d)
      | Inr _ \<Rightarrow>
          if ev_fails E 0 then (Inl internal, d)
          else if group_named name (db_groups d) then (Inl (group_taken name), d)
          else
            let row = new_group_row name (ev_clock E 0) (db_groups d);
                d1 = d\<lparr>db_groups := db_groups d @ [row]\<rparr> in
            (get_device_group 1 E (gr_id row) d1, d1))"

definition rename_device_group :: "account_env \<Rightarrow> int \<Rightarrow> str \<Rightarrow> database \<Rightarrow> (denied + device_group) \<times> database" where
  "rename_device_group E gid name d =
     (case check_name name of
        Inl e \<Rightarrow> (Inl e, d)
      | Inr _ \<Rightarrow>
          if ev_fails E 0 then (Inl internal, d)
          else if group_named_other gid name (db_groups d) then (Inl (group_taken name), d)
          else if ev_fails E 1 then (Inl internal, d)
          else if \<not> group_exists gid (db_groups d) then (Inl NotFound, d)
          else
            let d1 = d\<lparr>db_groups := rename_row gid name (db_groups d)\<rparr> in
            (get_device_group 2 E gid d1, d1))"

text \<open>Deleting a group: its devices stay in none, the tokens that enroll into it and the
  grants for it go.\<close>

definition delete_device_group :: "account_env \<Rightarrow> int \<Rightarrow> database \<Rightarrow> (denied + unit) \<times> database" where
  "delete_device_group E gid d =
     (if ev_fails E 0 then (Inl internal, d)
      else if \<not> group_exists gid (db_groups d) then (Inl NotFound, d)
      else (Inr (),
            d\<lparr>db_groups := filter (\<lambda>r. gr_id r \<noteq> gid) (db_groups d),
              db_devices := map (\<lambda>v. if dr_group_id v = Some gid then v\<lparr>dr_group_id := None\<rparr> else v) (db_devices d),
              db_tokens := filter (\<lambda>t. er_group_id t \<noteq> Some gid) (db_tokens d),
              db_rules := filter (\<lambda>r. rr_device_group r \<noteq> gid) (db_rules d)\<rparr>))"

subsection \<open>Enrollment tokens\<close>

definition enroll_tokens :: "nat \<Rightarrow> int \<Rightarrow> account_env \<Rightarrow> database \<Rightarrow> (denied + enroll_token list) \<times> database" where
  "enroll_tokens n now E d =
     (if ev_fails E n then (Inl internal, d)
      else
        let d1 = d\<lparr>db_tokens := filter (\<lambda>t. \<not> (er_expires_at t \<le> now \<or> er_uses_left t = Some 0)) (db_tokens d)\<rparr> in
        if ev_fails E (n + 1) then (Inl internal, d1)
        else (Inr (map enroll_token_of (sort_key (\<lambda>t. (- er_created_at t, - er_id t)) (db_tokens d1))), d1))"

text \<open>The references a new token holds: its group, and the user who made it.\<close>

definition group_ref_ok :: "int option \<Rightarrow> database \<Rightarrow> bool" where
  "group_ref_ok gid d \<longleftrightarrow> (case gid of None \<Rightarrow> True | Some g \<Rightarrow> group_exists g (db_groups d))"

definition new_enroll_token ::
  "account_crypto \<Rightarrow> account_env \<Rightarrow> account \<Rightarrow> str \<Rightarrow> int option \<Rightarrow> u32 option \<Rightarrow> u32 \<Rightarrow> database
     \<Rightarrow> (denied + enroll_token \<times> str) \<times> database" where
  "new_enroll_token C E by_user name gid uses lifetime_days d =
     (case check_name name of
        Inl e \<Rightarrow> (Inl e, d)
      | Inr _ \<Rightarrow>
          if \<not> (1 \<le> unat lifetime_days \<and> unat lifetime_days \<le> MAX_ENROLL_DAYS)
          then (Inl (Invalid (lit ''an enrollment token lasts 1 to '' @ show_nat MAX_ENROLL_DAYS @ lit '' days'')), d)
          else if uses = Some 0 then (Inl (Invalid (lit ''a token for no devices enrolls none'')), d)
          else
            (case (case gid of None \<Rightarrow> Inr () | Some g \<Rightarrow>
                     (case get_device_group 0 E g d of Inl e \<Rightarrow> Inl e | Inr _ \<Rightarrow> Inr ())) of
               Inl e \<Rightarrow> (Inl e, d)
             | Inr _ \<Rightarrow>
                 (case random_token (ev_random E 0) ENROLL_PREFIX of
                    None \<Rightarrow> (Inl internal, d)
                  | Some token \<Rightarrow>
                      let h = hash_token C token in
                      if ev_fails E 1 \<or> list_ex (\<lambda>t. er_token_hash t = h) (db_tokens d) \<or>
                         \<not> group_ref_ok gid d \<or> row_of (us_id by_user) (db_accounts d) = None
                      then (Inl internal, d)
                      else
                        let row = \<lparr>er_id = next_id (map er_id (db_tokens d)), er_token_hash = h, er_name = name,
                              er_group_id = gid, er_uses_left = map_option (\<lambda>n. int (unat n)) uses, er_used = 0,
                              er_created_by = Some (us_id by_user), er_created_at = ev_clock E 0,
                              er_expires_at = ev_clock E 1 + int (unat lifetime_days) * 86400\<rparr>;
                            d1 = d\<lparr>db_tokens := db_tokens d @ [row]\<rparr> in
                        (case enroll_tokens 2 (ev_clock E 2) E d1 of
                           (Inl e, d2) \<Rightarrow> (Inl e, d2)
                         | (Inr ts, d2) \<Rightarrow>
                             (case find (\<lambda>t. et_id t = er_id row) ts of
                                None \<Rightarrow> (Inl NotFound, d2)
                              | Some listed \<Rightarrow> (Inr (listed, token), d2))))))"

definition delete_enroll_token :: "account_env \<Rightarrow> int \<Rightarrow> database \<Rightarrow> (denied + unit) \<times> database" where
  "delete_enroll_token E i d =
     (if ev_fails E 0 then (Inl internal, d)
      else if \<not> list_ex (\<lambda>t. er_id t = i) (db_tokens d) then (Inl NotFound, d)
      else (Inr (), d\<lparr>db_tokens := filter (\<lambda>t. er_id t \<noteq> i) (db_tokens d)\<rparr>))"

definition token_good :: "bytes \<Rightarrow> int \<Rightarrow> enroll_row \<Rightarrow> bool" where
  "token_good h now t \<longleftrightarrow>
     er_token_hash t = h \<and> er_expires_at t > now \<and> (case er_uses_left t of None \<Rightarrow> True | Some n \<Rightarrow> n > 0)"

definition use_token :: "enroll_row \<Rightarrow> enroll_row" where
  "use_token t = t\<lparr>er_used := er_used t + 1, er_uses_left := map_option (\<lambda>n. n - 1) (er_uses_left t)\<rparr>"

subsection \<open>Devices\<close>

definition find_device_row :: "int \<Rightarrow> database \<Rightarrow> device_row option" where
  "find_device_row i d = find (\<lambda>r. dr_id r = i) (db_devices d)"

definition list_devices :: "account_env \<Rightarrow> database \<Rightarrow> denied + device list" where
  "list_devices E d =
     (if ev_fails E 0 then Inl internal
      else Inr (map (device_of d) (sort_key (\<lambda>r. (map ascii_lower (dr_name r), dr_id r)) (db_devices d))))"

definition get_device :: "nat \<Rightarrow> account_env \<Rightarrow> int \<Rightarrow> database \<Rightarrow> denied + device" where
  "get_device n E i d =
     (if ev_fails E n then Inl internal
      else case find_device_row i d of None \<Rightarrow> Inl NotFound | Some r \<Rightarrow> Inr (device_of d r))"

text \<open>\<open>INSERT ... ON CONFLICT (fingerprint) DO UPDATE\<close>: the row under this key, made or
  brought up to date; its id.\<close>

definition upsert_device ::
  "bytes \<Rightarrow> str \<Rightarrow> int option \<Rightarrow> str \<Rightarrow> str \<Rightarrow> int \<Rightarrow> int \<Rightarrow> socket_addr \<Rightarrow> device_row list \<Rightarrow> int \<times> device_row list" where
  "upsert_device fp name gid os version enrolled seen addr rows =
     (case find (\<lambda>r. dr_fingerprint r = fp) rows of
        Some r \<Rightarrow>
          (dr_id r,
           map (\<lambda>x. if dr_fingerprint x = fp
                    then x\<lparr>dr_name := name, dr_group_id := (if gid = None then dr_group_id x else gid), dr_os := os,
                           dr_version := version, dr_enrolled_at := enrolled, dr_last_seen_at := Some seen,
                           dr_last_address := Some addr\<rparr>
                    else x) rows)
      | None \<Rightarrow>
          (let i = next_id (map dr_id rows) in
           (i, rows @ [\<lparr>dr_id = i, dr_fingerprint = fp, dr_name = name, dr_group_id = gid, dr_os = os,
                        dr_version = version, dr_enrolled_at = enrolled, dr_last_seen_at = Some seen,
                        dr_last_address = Some addr\<rparr>])))"

text \<open>A transaction up to its commit: whatever fails before leaves the database as it was.\<close>

definition enroll_device ::
  "account_crypto \<Rightarrow> account_env \<Rightarrow> fingerprint \<Rightarrow> enrollment \<Rightarrow> socket_addr \<Rightarrow> database \<Rightarrow> (denied + device) \<times> database" where
  "enroll_device C E fp en from_addr d =
     (if ev_fails E 0 \<or> ev_fails E 1 then (Inl internal, d)
      else
        let good = token_good (hash_token C (en_token en)) (ev_clock E 0) in
        case find good (db_tokens d) of
          None \<Rightarrow> (Inl Forbidden, d)
        | Some t \<Rightarrow>
            let tokens = map (\<lambda>x. if good x then use_token x else x) (db_tokens d);
                (i, devices) = upsert_device fp (reported (en_name en) (lit ''unnamed'')) (er_group_id t)
                   (reported (en_os en) (lit ''unknown'')) (reported (en_version en) (lit ''unknown''))
                   (ev_clock E 1) (ev_clock E 2) from_addr (db_devices d);
                d1 = d\<lparr>db_tokens := tokens, db_devices := devices\<rparr> in
            if ev_fails E 2 \<or> ev_fails E 3 \<or> \<not> group_ref_ok (er_group_id t) d then (Inl internal, d)
            else (get_device 4 E i d1, d1))"

definition set_device :: "int \<Rightarrow> (device_row \<Rightarrow> device_row) \<Rightarrow> database \<Rightarrow> database" where
  "set_device i f d = d\<lparr>db_devices := map (\<lambda>r. if dr_id r = i then f r else r) (db_devices d)\<rparr>"

text \<open>\<open>group\<close> is \<open>Some None\<close> to take the device out of its group. The new name is written
  before the group is looked up.\<close>

definition update_device ::
  "account_env \<Rightarrow> int \<Rightarrow> str option \<Rightarrow> int option option \<Rightarrow> database \<Rightarrow> (denied + device) \<times> database" where
  "update_device E i name grp d =
     (case get_device 0 E i d of
        Inl e \<Rightarrow> (Inl e, d)
      | Inr _ \<Rightarrow>
          let renamed = (case name of
                None \<Rightarrow> Inr d
              | Some n \<Rightarrow>
                  (case check_name n of
                     Inl e \<Rightarrow> Inl e
                   | Inr _ \<Rightarrow> if ev_fails E 1 then Inl internal else Inr (set_device i (\<lambda>r. r\<lparr>dr_name := n\<rparr>) d))) in
          case renamed of
            Inl e \<Rightarrow> (Inl e, d)
          | Inr d1 \<Rightarrow>
              (case grp of
                 None \<Rightarrow> (get_device 4 E i d1, d1)
               | Some g \<Rightarrow>
                   (case (case g of None \<Rightarrow> Inr () | Some gid \<Rightarrow>
                            (case get_device_group 2 E gid d1 of Inl e \<Rightarrow> Inl e | Inr _ \<Rightarrow> Inr ())) of
                      Inl e \<Rightarrow> (Inl e, d1)
                    | Inr _ \<Rightarrow>
                        if ev_fails E 3 \<or> \<not> group_ref_ok g d1 then (Inl internal, d1)
                        else
                          let d2 = set_device i (\<lambda>r. r\<lparr>dr_group_id := g\<rparr>) d1 in
                          (get_device 4 E i d2, d2))))"

definition delete_device :: "account_env \<Rightarrow> int \<Rightarrow> database \<Rightarrow> (denied + unit) \<times> database" where
  "delete_device E i d =
     (if ev_fails E 0 then (Inl internal, d)
      else if find_device_row i d = None then (Inl NotFound, d)
      else (Inr (), d\<lparr>db_devices := filter (\<lambda>r. dr_id r \<noteq> i) (db_devices d)\<rparr>))"

text \<open>What the registry calls, by key. \<open>None\<close> is a failure of the database.\<close>

definition is_enrolled :: "account_env \<Rightarrow> fingerprint \<Rightarrow> database \<Rightarrow> bool option" where
  "is_enrolled E fp d =
     (if ev_fails E 0 then None else Some (find (\<lambda>r. dr_fingerprint r = fp) (db_devices d) \<noteq> None))"

definition set_device_of :: "fingerprint \<Rightarrow> (device_row \<Rightarrow> device_row) \<Rightarrow> database \<Rightarrow> database" where
  "set_device_of fp f d = d\<lparr>db_devices := map (\<lambda>r. if dr_fingerprint r = fp then f r else r) (db_devices d)\<rparr>"

definition running :: "account_env \<Rightarrow> fingerprint \<Rightarrow> str \<Rightarrow> str \<Rightarrow> database \<Rightarrow> unit option \<times> database" where
  "running E fp os version d =
     (if ev_fails E 0 then (None, d)
      else (Some (), set_device_of fp (\<lambda>r. r\<lparr>dr_os := reported os (lit ''unknown''),
                                         dr_version := reported version (lit ''unknown'')\<rparr>) d))"

definition seen :: "account_env \<Rightarrow> fingerprint \<Rightarrow> socket_addr \<Rightarrow> database \<Rightarrow> unit option \<times> database" where
  "seen E fp from_addr d =
     (if ev_fails E 0 then (None, d)
      else (Some (), set_device_of fp (\<lambda>r. r\<lparr>dr_last_seen_at := Some (ev_clock E 0), dr_last_address := Some from_addr\<rparr>) d))"

end
