(* ===== verification/Permissions.thy ===== *)
theory Permissions
  imports Devices Registry Grants
begin

text \<open>
  Who may connect to what (\<open>crates/server/src/grants.rs\<close>): user groups and their members,
  the grants that let a user group at a device group with a role, the devices a user may
  reach, and issuing the signed grant a viewer takes to the device. Over the tables of
  \<open>Devices\<close>, with failures of statements as there.
\<close>

subsection \<open>Data\<close>

record user_group =
  ug_id :: int
  ug_name :: str
  ug_members :: "(int \<times> str) list"

record grant_rule =
  gl_id :: int
  gl_user_group_id :: int
  gl_user_group :: str
  gl_device_group_id :: int
  gl_device_group :: str
  gl_role :: str

subsection \<open>Issuing\<close>

text \<open>\<open>now().max(0) as u64\<close>.\<close>

definition issue_time :: "int \<Rightarrow> u64" where
  "issue_time now = word_of_int (max now 0)"

definition issue_grant ::
  "'e grant_crypto \<Rightarrow> account_env \<Rightarrow> identity \<Rightarrow> reachable \<Rightarrow> str \<Rightarrow> unit + signed_grant" where
  "issue_grant G E ident device user =
     (case ev_random E 0 of
        None \<Rightarrow> Inl ()
      | Some nonce \<Rightarrow>
          let issued_at = issue_time (ev_clock E 0);
              g = \<lparr>g_device = re_fingerprint device, g_user = user, g_role = re_role device,
                   g_issued_at = issued_at, g_expires_at = issued_at + LIFETIME_SECS, g_nonce = nonce\<rparr> in
          (case sign_grant G ident g of Inl _ \<Rightarrow> Inl () | Inr sg \<Rightarrow> Inr sg))"

subsection \<open>User groups\<close>

text \<open>The members of all groups with their names, by name: a row of the join for each.\<close>

definition member_rows :: "database \<Rightarrow> (int \<times> int \<times> str) list" where
  "member_rows d =
     sort_key (\<lambda>(g, u, n). map ascii_lower n)
       (concat (map (\<lambda>(g, u). case row_of u (db_accounts d) of None \<Rightarrow> [] | Some r \<Rightarrow> [(g, u, ur_name r)]) (db_members d)))"

definition user_groups :: "nat \<Rightarrow> account_env \<Rightarrow> database \<Rightarrow> denied + user_group list" where
  "user_groups n E d =
     (if ev_fails E n \<or> ev_fails E (n + 1) then Inl internal
      else Inr (map (\<lambda>g. \<lparr>ug_id = gr_id g, ug_name = gr_name g,
                         ug_members = map snd (filter (\<lambda>(g', _). g' = gr_id g) (member_rows d))\<rparr>)
                  (sort_key (\<lambda>g. map ascii_lower (gr_name g)) (db_user_groups d))))"

definition get_user_group :: "nat \<Rightarrow> account_env \<Rightarrow> int \<Rightarrow> database \<Rightarrow> denied + user_group" where
  "get_user_group n E gid d =
     (case user_groups n E d of
        Inl e \<Rightarrow> Inl e
      | Inr gs \<Rightarrow> (case find (\<lambda>g. ug_id g = gid) gs of None \<Rightarrow> Inl NotFound | Some g \<Rightarrow> Inr g))"

definition create_user_group :: "account_env \<Rightarrow> str \<Rightarrow> database \<Rightarrow> (denied + user_group) \<times> database" where
  "create_user_group E name d =
     (case check_name name of
        Inl e \<Rightarrow> (Inl e, d)
      | Inr _ \<Rightarrow>
          if ev_fails E 0 then (Inl internal, d)
          else if group_named name (db_user_groups d) then (Inl (group_taken name), d)
          else
            let row = new_group_row name (ev_clock E 0) (db_user_groups d);
                d1 = d\<lparr>db_user_groups := db_user_groups d @ [row]\<rparr> in
            (get_user_group 1 E (gr_id row) d1, d1))"

definition rename_user_group :: "account_env \<Rightarrow> int \<Rightarrow> str \<Rightarrow> database \<Rightarrow> (denied + user_group) \<times> database" where
  "rename_user_group E gid name d =
     (case check_name name of
        Inl e \<Rightarrow> (Inl e, d)
      | Inr _ \<Rightarrow>
          if ev_fails E 0 then (Inl internal, d)
          else if group_named_other gid name (db_user_groups d) then (Inl (group_taken name), d)
          else if ev_fails E 1 then (Inl internal, d)
          else if \<not> group_exists gid (db_user_groups d) then (Inl NotFound, d)
          else
            let d1 = d\<lparr>db_user_groups := rename_row gid name (db_user_groups d)\<rparr> in
            (get_user_group 2 E gid d1, d1))"

text \<open>Its memberships and grants go with a group; its members stay.\<close>

definition delete_user_group :: "account_env \<Rightarrow> int \<Rightarrow> database \<Rightarrow> (denied + unit) \<times> database" where
  "delete_user_group E gid d =
     (if ev_fails E 0 then (Inl internal, d)
      else if \<not> group_exists gid (db_user_groups d) then (Inl NotFound, d)
      else (Inr (),
            d\<lparr>db_user_groups := filter (\<lambda>r. gr_id r \<noteq> gid) (db_user_groups d),
              db_members := filter (\<lambda>(g, _). g \<noteq> gid) (db_members d),
              db_rules := filter (\<lambda>r. rr_user_group r \<noteq> gid) (db_rules d)\<rparr>))"

definition add_member :: "account_env \<Rightarrow> int \<Rightarrow> int \<Rightarrow> database \<Rightarrow> (denied + user_group) \<times> database" where
  "add_member E gid uid d =
     (case get_user_group 0 E gid d of
        Inl e \<Rightarrow> (Inl e, d)
      | Inr _ \<Rightarrow>
          if ev_fails E 2 then (Inl internal, d)
          else if row_of uid (db_accounts d) = None then (Inl NotFound, d)
          else if ev_fails E 3 then (Inl internal, d)
          else
            let d1 = (if (gid, uid) \<in> set (db_members d) then d else d\<lparr>db_members := db_members d @ [(gid, uid)]\<rparr>) in
            (get_user_group 4 E gid d1, d1))"

definition remove_member :: "account_env \<Rightarrow> int \<Rightarrow> int \<Rightarrow> database \<Rightarrow> (denied + user_group) \<times> database" where
  "remove_member E gid uid d =
     (if ev_fails E 0 then (Inl internal, d)
      else if (gid, uid) \<notin> set (db_members d) then (Inl NotFound, d)
      else
        let d1 = d\<lparr>db_members := filter (\<lambda>m. m \<noteq> (gid, uid)) (db_members d)\<rparr> in
        (get_user_group 1 E gid d1, d1))"

subsection \<open>Grants\<close>

definition name_in :: "int \<Rightarrow> group_row list \<Rightarrow> str option" where
  "name_in gid rows = map_option gr_name (find (\<lambda>r. gr_id r = gid) rows)"

definition grant_rules :: "nat \<Rightarrow> account_env \<Rightarrow> database \<Rightarrow> denied + grant_rule list" where
  "grant_rules n E d =
     (if ev_fails E n then Inl internal
      else Inr (sort_key (\<lambda>g. (map ascii_lower (gl_user_group g), map ascii_lower (gl_device_group g)))
             (somes (map (\<lambda>r. case (name_in (rr_user_group r) (db_user_groups d), name_in (rr_device_group r) (db_groups d)) of
                       (Some u, Some v) \<Rightarrow>
                         Some \<lparr>gl_id = rr_id r, gl_user_group_id = rr_user_group r, gl_user_group = u,
                               gl_device_group_id = rr_device_group r, gl_device_group = v, gl_role = rr_role r\<rparr>
                     | _ \<Rightarrow> None) (db_rules d)))))"

definition get_grant_rule :: "nat \<Rightarrow> account_env \<Rightarrow> int \<Rightarrow> database \<Rightarrow> denied + grant_rule" where
  "get_grant_rule n E i d =
     (case grant_rules n E d of
        Inl e \<Rightarrow> Inl e
      | Inr gs \<Rightarrow> (case find (\<lambda>g. gl_id g = i) gs of None \<Rightarrow> Inl NotFound | Some g \<Rightarrow> Inr g))"

text \<open>\<open>INSERT ... ON CONFLICT (user_group_id, device_group_id) DO UPDATE SET role\<close>.\<close>

definition between :: "int \<Rightarrow> int \<Rightarrow> rule_row \<Rightarrow> bool" where
  "between ug dg r \<longleftrightarrow> rr_user_group r = ug \<and> rr_device_group r = dg"

definition upsert_rule :: "int \<Rightarrow> int \<Rightarrow> str \<Rightarrow> int \<Rightarrow> rule_row list \<Rightarrow> int \<times> rule_row list" where
  "upsert_rule ug dg role now rows =
     (case find (between ug dg) rows of
        Some r \<Rightarrow> (rr_id r, map (\<lambda>x. if between ug dg x then x\<lparr>rr_role := role\<rparr> else x) rows)
      | None \<Rightarrow>
          (let i = next_id (map rr_id rows) in
           (i, rows @ [\<lparr>rr_id = i, rr_user_group = ug, rr_device_group = dg, rr_role = role, rr_created_at = now\<rparr>])))"

definition set_grant :: "account_env \<Rightarrow> int \<Rightarrow> int \<Rightarrow> role \<Rightarrow> database \<Rightarrow> (denied + grant_rule) \<times> database" where
  "set_grant E ug dg role d =
     (if ev_fails E 0 then (Inl internal, d)
      else if \<not> (group_exists ug (db_user_groups d) \<and> group_exists dg (db_groups d)) then (Inl NotFound, d)
      else if ev_fails E 1 then (Inl internal, d)
      else
        let (i, rules) = upsert_rule ug dg (role_as_str role) (ev_clock E 0) (db_rules d);
            d1 = d\<lparr>db_rules := rules\<rparr> in
        (get_grant_rule 2 E i d1, d1))"

definition delete_grant :: "account_env \<Rightarrow> int \<Rightarrow> database \<Rightarrow> (denied + unit) \<times> database" where
  "delete_grant E i d =
     (if ev_fails E 0 then (Inl internal, d)
      else if \<not> list_ex (\<lambda>r. rr_id r = i) (db_rules d) then (Inl NotFound, d)
      else (Inr (), d\<lparr>db_rules := filter (\<lambda>r. rr_id r \<noteq> i) (db_rules d)\<rparr>))"

subsection \<open>What a user may reach\<close>

text \<open>The rows of the join of memberships, grants, devices and users.\<close>

definition reach_rows :: "int \<Rightarrow> database \<Rightarrow> (int \<times> bytes \<times> str) list" where
  "reach_rows uid d =
     (case row_of uid (db_accounts d) of
        None \<Rightarrow> []
      | Some u \<Rightarrow>
          if ur_disabled u then []
          else concat (map (\<lambda>(g, _). concat (map (\<lambda>r. map (\<lambda>v. (dr_id v, dr_fingerprint v, rr_role r))
                    (filter (\<lambda>v. dr_group_id v = Some (rr_device_group r)) (db_devices d)))
                  (filter (\<lambda>r. rr_user_group r = g) (db_rules d))))
                (filter (\<lambda>(_, m). m = uid) (db_members d))))"

text \<open>The best role seen for each device: \<open>entry(id).or_insert(...)\<close>, then the larger role.\<close>

fun note_best :: "int \<Rightarrow> fingerprint \<Rightarrow> role \<Rightarrow> reachable list \<Rightarrow> reachable list" where
  "note_best i fp role [] = [\<lparr>re_id = i, re_fingerprint = fp, re_role = role\<rparr>]"
| "note_best i fp role (x # xs) =
     (if re_id x = i then x\<lparr>re_role := max (re_role x) role\<rparr> # xs else x # note_best i fp role xs)"

definition best_roles :: "(int \<times> bytes \<times> str) list \<Rightarrow> reachable list" where
  "best_roles rows =
     fold (\<lambda>(i, fp, s) best.
             if length fp = 32 then (case role_from_str s of Inl _ \<Rightarrow> best | Inr role \<Rightarrow> note_best i fp role best)
             else best) rows []"

definition reach :: "account_env \<Rightarrow> int \<Rightarrow> database \<Rightarrow> denied + reachable list" where
  "reach E uid d =
     (if ev_fails E 0 then Inl internal else Inr (sort_key re_id (best_roles (reach_rows uid d))))"

subsection \<open>Deleting a user\<close>

text \<open>What refers to the user outside the accounts: memberships go, and the tokens they made
  stay, made by nobody.\<close>

definition delete_account :: "account_env \<Rightarrow> int \<Rightarrow> database \<Rightarrow> (denied + unit) \<times> database" where
  "delete_account E uid d =
     (case delete_user E uid (db_accounts d) of
        (Inl e, a) \<Rightarrow> (Inl e, d\<lparr>db_accounts := a\<rparr>)
      | (Inr _, a) \<Rightarrow>
          (Inr (),
           d\<lparr>db_accounts := a, db_members := filter (\<lambda>(_, u). u \<noteq> uid) (db_members d),
             db_tokens := map (\<lambda>t. if er_created_by t = Some uid then t\<lparr>er_created_by := None\<rparr> else t) (db_tokens d)\<rparr>))"

end
