(* ===== verification/Directory.thy ===== *)
theory Directory
  imports Permissions Accounts_Run
begin

text \<open>
  The server's database as a whole: accounts, devices and grants together, what any sequence
  of operations on them keeps. The tables change in few ways, the statements of
  \<open>crates/server/src/devices.rs\<close> and \<open>grants.rs\<close>, so an invariant of the database is a
  locale: the statements as its laws, and that every operation and every run keeps the
  invariant as its theorems. The interpretations are that keys, names and references are in
  order, and that a token to enroll with is not used more often than it may be.
\<close>

subsection \<open>Runs\<close>

datatype directory_event =
    DAccounts account_event
  | DCreateGroup account_env str
  | DRenameGroup account_env int str
  | DDeleteGroup account_env int
  | DNewEnrollToken account_env account str "int option" "u32 option" u32
  | DEnrollTokens account_env
  | DDeleteEnrollToken account_env int
  | DEnroll account_env fingerprint enrollment socket_addr
  | DUpdateDevice account_env int "str option" "int option option"
  | DDeleteDevice account_env int
  | DRunning account_env fingerprint str str
  | DSeen account_env fingerprint socket_addr
  | DCreateUserGroup account_env str
  | DRenameUserGroup account_env int str
  | DDeleteUserGroup account_env int
  | DAddMember account_env int int
  | DRemoveMember account_env int int
  | DSetGrant account_env int int role
  | DDeleteGrant account_env int

definition accounts_step :: "account_crypto \<Rightarrow> account_event \<Rightarrow> database \<Rightarrow> database" where
  "accounts_step C e d =
     (case e of
        EDeleteUser E uid \<Rightarrow> snd (delete_account E uid d)
      | _ \<Rightarrow> d\<lparr>db_accounts := account_step C e (db_accounts d)\<rparr>)"

fun directory_step :: "account_crypto \<Rightarrow> directory_event \<Rightarrow> database \<Rightarrow> database" where
  "directory_step C (DAccounts e) d = accounts_step C e d"
| "directory_step C (DCreateGroup E name) d = snd (create_device_group E name d)"
| "directory_step C (DRenameGroup E gid name) d = snd (rename_device_group E gid name d)"
| "directory_step C (DDeleteGroup E gid) d = snd (delete_device_group E gid d)"
| "directory_step C (DNewEnrollToken E u name gid uses days) d = snd (new_enroll_token C E u name gid uses days d)"
| "directory_step C (DEnrollTokens E) d = snd (enroll_tokens 0 (ev_clock E 0) E d)"
| "directory_step C (DDeleteEnrollToken E i) d = snd (delete_enroll_token E i d)"
| "directory_step C (DEnroll E fp en a) d = snd (enroll_device C E fp en a d)"
| "directory_step C (DUpdateDevice E i name grp) d = snd (update_device E i name grp d)"
| "directory_step C (DDeleteDevice E i) d = snd (delete_device E i d)"
| "directory_step C (DRunning E fp os version) d = snd (running E fp os version d)"
| "directory_step C (DSeen E fp a) d = snd (seen E fp a d)"
| "directory_step C (DCreateUserGroup E name) d = snd (create_user_group E name d)"
| "directory_step C (DRenameUserGroup E gid name) d = snd (rename_user_group E gid name d)"
| "directory_step C (DDeleteUserGroup E gid) d = snd (delete_user_group E gid d)"
| "directory_step C (DAddMember E gid uid) d = snd (add_member E gid uid d)"
| "directory_step C (DRemoveMember E gid uid) d = snd (remove_member E gid uid d)"
| "directory_step C (DSetGrant E ug dg role) d = snd (set_grant E ug dg role d)"
| "directory_step C (DDeleteGrant E i) d = snd (delete_grant E i d)"

definition directory_run :: "account_crypto \<Rightarrow> directory_event list \<Rightarrow> database \<Rightarrow> database" where
  "directory_run C es d = fold (directory_step C) es d"

subsection \<open>What the accounts keep for the rest\<close>

definition user_ids :: "database \<Rightarrow> int list" where
  "user_ids d = map ur_id (user_rows (db_accounts d))"

lemma row_of_None_iff: "row_of uid s = None \<longleftrightarrow> uid \<notin> ur_id ` set (user_rows s)"
  by (auto simp: row_of_def find_None_iff)

lemma user_there_iff: "row_of uid (db_accounts d) = None \<longleftrightarrow> uid \<notin> set (user_ids d)"
  by (simp add: row_of_None_iff user_ids_def)

text \<open>Only deleting a user takes an id away.\<close>

lemma ids_upd: "(\<And>r. ur_id (f r) = ur_id r) \<Longrightarrow> ur_id ` set (upd uid f rows) = ur_id ` set rows"
  by (metis map_id_upd set_map)

interpretation kept: table_invariant "\<lambda>rows. distinct (map ur_id rows) \<and> uid \<in> ur_id ` set rows"
    "\<lambda>e. \<forall>E. e \<noteq> EDeleteUser E uid" for uid :: int
  by unfold_locales (auto simp: map_id_upd ids_upd distinct_filter_ids intro: distinct_add simp del: map_append)

lemma account_step_ids:
  assumes "distinct (user_ids d)" and "\<forall>E uid. e \<noteq> EDeleteUser E uid"
  shows "distinct (map ur_id (user_rows (account_step C e (db_accounts d))))"
    and "set (user_ids d) \<subseteq> ur_id ` set (user_rows (account_step C e (db_accounts d)))"
proof -
  show "distinct (map ur_id (user_rows (account_step C e (db_accounts d))))"
    using ids.step_inv assms(1) unfolding user_ids_def by blast
  show "set (user_ids d) \<subseteq> ur_id ` set (user_rows (account_step C e (db_accounts d)))"
  proof
    fix uid assume "uid \<in> set (user_ids d)"
    then have "distinct (map ur_id (user_rows (db_accounts d))) \<and> uid \<in> ur_id ` set (user_rows (db_accounts d))"
      using assms(1) by (simp add: user_ids_def)
    then show "uid \<in> ur_id ` set (user_rows (account_step C e (db_accounts d)))"
      using kept.step_inv [of "db_accounts d" uid e C] assms(2) by simp
  qed
qed

lemma delete_user_cases:
  assumes "delete_user E uid s = (res, a)"
  obtains e where "res = Inl e" "a = s"
  | "res = Inr ()" "user_rows a = filter (\<lambda>r. ur_id r \<noteq> uid) (user_rows s)"
  using assms by (auto simp: delete_user_def split: sum.splits if_splits)

lemma user_group_exists: "get_user_group n E gid d = Inr g \<Longrightarrow> group_exists gid (db_user_groups d)"
proof -
  assume "get_user_group n E gid d = Inr g"
  then obtain gs where "user_groups n E d = Inr gs" "find (\<lambda>g. ug_id g = gid) gs = Some g"
    by (auto simp: get_user_group_def split: sum.splits option.splits)
  then have "g \<in> set gs" "ug_id g = gid" "user_groups n E d = Inr gs" by (auto dest: find_SomeD)
  then show ?thesis by (auto simp: user_groups_def group_exists_def list_ex_iff split: if_splits) blast
qed

subsection \<open>Invariants of the database\<close>

locale database_invariant =
  fixes inv :: "database \<Rightarrow> bool" and ok :: "directory_event \<Rightarrow> bool" and C :: account_crypto
  assumes ids: "inv d \<Longrightarrow> distinct (user_ids d)"
    and accounts: "inv d \<Longrightarrow> distinct (map ur_id (user_rows a)) \<Longrightarrow> set (user_ids d) \<subseteq> ur_id ` set (user_rows a) \<Longrightarrow>
      inv (d\<lparr>db_accounts := a\<rparr>)"
    and drop_account: "inv d \<Longrightarrow> user_rows a = filter (\<lambda>r. ur_id r \<noteq> uid) (user_rows (db_accounts d)) \<Longrightarrow>
      inv (d\<lparr>db_accounts := a, db_members := filter (\<lambda>(_, u). u \<noteq> uid) (db_members d),
        db_tokens := map (\<lambda>t. if er_created_by t = Some uid then t\<lparr>er_created_by := None\<rparr> else t) (db_tokens d)\<rparr>)"
    and add_group: "inv d \<Longrightarrow> \<not> group_named name (db_groups d) \<Longrightarrow>
      inv (d\<lparr>db_groups := db_groups d @ [new_group_row name now (db_groups d)]\<rparr>)"
    and rename_group: "inv d \<Longrightarrow> \<not> group_named_other gid name (db_groups d) \<Longrightarrow>
      inv (d\<lparr>db_groups := rename_row gid name (db_groups d)\<rparr>)"
    and drop_group: "inv d \<Longrightarrow>
      inv (d\<lparr>db_groups := filter (\<lambda>r. gr_id r \<noteq> gid) (db_groups d),
        db_devices := map (\<lambda>v. if dr_group_id v = Some gid then v\<lparr>dr_group_id := None\<rparr> else v) (db_devices d),
        db_tokens := filter (\<lambda>t. er_group_id t \<noteq> Some gid) (db_tokens d),
        db_rules := filter (\<lambda>r. rr_device_group r \<noteq> gid) (db_rules d)\<rparr>)"
    and some_tokens: "inv d \<Longrightarrow> inv (d\<lparr>db_tokens := filter T (db_tokens d)\<rparr>)"
    and add_token: "inv d \<Longrightarrow> ok (DNewEnrollToken E u name g uses days) \<Longrightarrow>
      random_token (ev_random E 0) ENROLL_PREFIX = Some token \<Longrightarrow> er_token_hash row = hash_token C token \<Longrightarrow>
      er_id row = next_id (map er_id (db_tokens d)) \<Longrightarrow> er_token_hash row \<notin> er_token_hash ` set (db_tokens d) \<Longrightarrow>
      group_ref_ok (er_group_id row) d \<Longrightarrow> er_created_by row = Some uid \<Longrightarrow> uid \<in> set (user_ids d) \<Longrightarrow>
      inv (d\<lparr>db_tokens := db_tokens d @ [row]\<rparr>)"
    and use: "inv d \<Longrightarrow> inv (d\<lparr>db_tokens := map (\<lambda>x. if token_good h now x then use_token x else x) (db_tokens d)\<rparr>)"
    and enrolled: "inv d \<Longrightarrow> ok (DEnroll E fp en addr) \<Longrightarrow> group_ref_ok g d \<Longrightarrow>
      inv (d\<lparr>db_devices := snd (upsert_device fp name g os version at seen_at addr (db_devices d))\<rparr>)"
    and set_devices: "inv d \<Longrightarrow> (\<And>r. dr_id (f r) = dr_id r) \<Longrightarrow> (\<And>r. dr_fingerprint (f r) = dr_fingerprint r) \<Longrightarrow>
      (\<And>r. dr_group_id (f r) = dr_group_id r \<or> group_ref_ok (dr_group_id (f r)) d) \<Longrightarrow>
      inv (d\<lparr>db_devices := map (\<lambda>r. if P r then f r else r) (db_devices d)\<rparr>)"
    and some_devices: "inv d \<Longrightarrow> inv (d\<lparr>db_devices := filter Q (db_devices d)\<rparr>)"
    and add_user_group: "inv d \<Longrightarrow> \<not> group_named name (db_user_groups d) \<Longrightarrow>
      inv (d\<lparr>db_user_groups := db_user_groups d @ [new_group_row name now (db_user_groups d)]\<rparr>)"
    and rename_user_group: "inv d \<Longrightarrow> \<not> group_named_other gid name (db_user_groups d) \<Longrightarrow>
      inv (d\<lparr>db_user_groups := rename_row gid name (db_user_groups d)\<rparr>)"
    and drop_user_group: "inv d \<Longrightarrow>
      inv (d\<lparr>db_user_groups := filter (\<lambda>r. gr_id r \<noteq> gid) (db_user_groups d),
        db_members := filter (\<lambda>(g, _). g \<noteq> gid) (db_members d),
        db_rules := filter (\<lambda>r. rr_user_group r \<noteq> gid) (db_rules d)\<rparr>)"
    and join: "inv d \<Longrightarrow> group_exists gid (db_user_groups d) \<Longrightarrow> uid \<in> set (user_ids d) \<Longrightarrow>
      (gid, uid) \<notin> set (db_members d) \<Longrightarrow> inv (d\<lparr>db_members := db_members d @ [(gid, uid)]\<rparr>)"
    and leave: "inv d \<Longrightarrow> inv (d\<lparr>db_members := filter R (db_members d)\<rparr>)"
    and grant: "inv d \<Longrightarrow> group_exists ug (db_user_groups d) \<Longrightarrow> group_exists dg (db_groups d) \<Longrightarrow>
      inv (d\<lparr>db_rules := snd (upsert_rule ug dg (role_as_str role) now (db_rules d))\<rparr>)"
    and some_rules: "inv d \<Longrightarrow> inv (d\<lparr>db_rules := filter S (db_rules d)\<rparr>)"
begin

lemma create_device_group_inv: "inv d \<Longrightarrow> inv (snd (create_device_group E name d))"
  by (auto simp: create_device_group_def Let_def intro!: add_group split: sum.split)

lemma rename_device_group_inv: "inv d \<Longrightarrow> inv (snd (rename_device_group E gid name d))"
  by (auto simp: rename_device_group_def Let_def intro!: rename_group split: sum.split)

lemma delete_device_group_inv: "inv d \<Longrightarrow> inv (snd (delete_device_group E gid d))"
  by (auto simp: delete_device_group_def intro!: drop_group)

lemma enroll_tokens_inv: "inv d \<Longrightarrow> inv (snd (enroll_tokens n now E d))"
  by (simp add: enroll_tokens_def Let_def some_tokens)

lemma enroll_tokens_inv': "inv d \<Longrightarrow> enroll_tokens n now E d = (res, d') \<Longrightarrow> inv d'"
  using enroll_tokens_inv [of d n now E] by simp

lemma new_enroll_token_inv:
  assumes "inv d" and "ok (DNewEnrollToken E u name gid uses days)"
  shows "inv (snd (new_enroll_token C E u name gid uses days d))"
  using assms(1)
  by (auto simp: new_enroll_token_def Let_def user_there_iff list_ex_iff assms(2)
      intro!: add_token [OF assms(1,2)] elim!: enroll_tokens_inv' [rotated] split: sum.split option.split prod.split)

lemma delete_enroll_token_inv: "inv d \<Longrightarrow> inv (snd (delete_enroll_token E i d))"
  by (simp add: delete_enroll_token_def some_tokens)

lemma enroll_device_inv:
  assumes "inv d" and "ok (DEnroll E fp en a)"
  shows "inv (snd (enroll_device C E fp en a d))"
proof -
  let ?t = "\<lambda>h now. d\<lparr>db_tokens := map (\<lambda>x. if token_good h now x then use_token x else x) (db_tokens d)\<rparr>"
  have "inv (d\<lparr>db_tokens := map (\<lambda>x. if token_good h now x then use_token x else x) (db_tokens d),
      db_devices := snd (upsert_device fp name gid os version at seen_at a (db_devices d))\<rparr>)"
    if "group_ref_ok gid d" for h now name gid os version at seen_at
  proof -
    have there: "group_ref_ok gid (?t h now)" using that by (cases gid) (simp_all add: group_ref_ok_def)
    then show ?thesis
      using enrolled [OF use [OF assms(1), of h now] assms(2) there, of name os version at seen_at] by simp
  qed
  then show ?thesis using assms(1)
    by (auto simp: enroll_device_def Let_def split_def split: option.split)
qed

lemma update_device_inv:
  assumes "inv d"
  shows "inv (snd (update_device E i name grp d))"
proof -
  have named: "inv (set_device i (\<lambda>r. r\<lparr>dr_name := n\<rparr>) d)" for n
    unfolding set_device_def using assms by (intro set_devices) simp_all
  have moved: "inv (set_device i (\<lambda>r. r\<lparr>dr_group_id := g\<rparr>) d')" if "inv d'" "group_ref_ok g d'" for g d'
    unfolding set_device_def using that by (intro set_devices) simp_all
  show ?thesis using assms
    by (auto simp: update_device_def Let_def intro!: named moved split: option.split sum.split)
qed

lemma delete_device_inv: "inv d \<Longrightarrow> inv (snd (delete_device E i d))"
  by (simp add: delete_device_def some_devices)

lemma running_inv: "inv d \<Longrightarrow> inv (snd (running E fp os version d))"
  by (auto simp: running_def set_device_of_def intro!: set_devices)

lemma seen_inv: "inv d \<Longrightarrow> inv (snd (seen E fp a d))"
  by (auto simp: seen_def set_device_of_def intro!: set_devices)

lemma create_user_group_inv: "inv d \<Longrightarrow> inv (snd (create_user_group E name d))"
  by (auto simp: create_user_group_def Let_def intro!: add_user_group split: sum.split)

lemma rename_user_group_inv: "inv d \<Longrightarrow> inv (snd (Permissions.rename_user_group E gid name d))"
  by (auto simp: Permissions.rename_user_group_def Let_def intro!: rename_user_group split: sum.split)

lemma delete_user_group_inv: "inv d \<Longrightarrow> inv (snd (delete_user_group E gid d))"
  by (auto simp: delete_user_group_def intro!: drop_user_group)

lemma add_member_inv: "inv d \<Longrightarrow> inv (snd (add_member E gid uid d))"
  by (auto simp: add_member_def Let_def user_there_iff intro!: join dest: user_group_exists split: sum.split)

lemma remove_member_inv: "inv d \<Longrightarrow> inv (snd (remove_member E gid uid d))"
  by (simp add: remove_member_def Let_def leave)

lemma set_grant_inv: "inv d \<Longrightarrow> inv (snd (set_grant E ug dg role d))"
  by (auto simp: set_grant_def Let_def split_def intro!: grant)

lemma delete_grant_inv: "inv d \<Longrightarrow> inv (snd (delete_grant E i d))"
  by (simp add: delete_grant_def some_rules)

lemma delete_account_inv:
  assumes "inv d"
  shows "inv (snd (delete_account E uid d))"
proof -
  obtain res a where del: "delete_user E uid (db_accounts d) = (res, a)" by (rule prod.exhaust)
  then show ?thesis
  proof (cases rule: delete_user_cases)
    case (1 e)
    then show ?thesis using assms del by (cases d) (simp add: delete_account_def)
  next
    case 2
    then show ?thesis using drop_account [OF assms 2(2)] del by (simp add: delete_account_def)
  qed
qed

lemma accounts_step_inv:
  assumes "inv d"
  shows "inv (accounts_step C e d)"
proof (cases "\<exists>E uid. e = EDeleteUser E uid")
  case True
  then show ?thesis using assms by (auto simp: accounts_step_def delete_account_inv)
next
  case False
  then have "inv (d\<lparr>db_accounts := account_step C e (db_accounts d)\<rparr>)"
    using account_step_ids [OF ids [OF assms], of e C] by (intro accounts [OF assms]) auto
  then show ?thesis using False by (cases e) (simp_all add: accounts_step_def)
qed

lemma step_inv: "inv d \<Longrightarrow> ok e \<Longrightarrow> inv (directory_step C e d)"
  by (cases e) (simp_all add: accounts_step_inv create_device_group_inv rename_device_group_inv
      delete_device_group_inv new_enroll_token_inv enroll_tokens_inv delete_enroll_token_inv enroll_device_inv
      update_device_inv delete_device_inv running_inv seen_inv create_user_group_inv rename_user_group_inv
      delete_user_group_inv add_member_inv remove_member_inv set_grant_inv delete_grant_inv)

lemma run_inv: "inv d \<Longrightarrow> list_all ok es \<Longrightarrow> inv (directory_run C es d)"
  unfolding directory_run_def by (induction es arbitrary: d) (simp_all add: step_inv)

end

end
