(* ===== verification/Directory_Invariants.thy ===== *)
theory Directory_Invariants
  imports Directory
begin

text \<open>
  Invariants of the server's database, as interpretations of \<open>database_invariant\<close>: keys
  and names are unique, every reference leads to a row, fingerprints and roles are what the
  code reads back, and a token to enroll with has no more uses left than it was made with.
\<close>

subsection \<open>Lists of rows\<close>

lemma key_if [simp]: "(\<And>r. key (f r) = key r) \<Longrightarrow> key \<circ> (\<lambda>r. if P r then f r else r) = key"
  by (simp add: fun_eq_iff)

lemma distinct_key_snoc: "distinct (map key xs) \<Longrightarrow> key x = next_id (map key xs) \<Longrightarrow> distinct (map key (xs @ [x]))"
  using next_id_fresh [of "map key xs"] by auto

lemma keys_left [simp]: "key ` {x \<in> A. key x \<noteq> k} = key ` A - {k}"
  by auto

definition folded_name :: "group_row \<Rightarrow> str" where
  "folded_name r = map ascii_lower (gr_name r)"

definition groups_in_order :: "group_row list \<Rightarrow> bool" where
  "groups_in_order rows \<longleftrightarrow> distinct (map gr_id rows) \<and> distinct (map folded_name rows)"

lemma gr_id_new_group_row [simp]: "gr_id (new_group_row name now rows) = next_id (map gr_id rows)"
  by (simp add: new_group_row_def)

lemma map_gr_id_rename_row [simp]: "map gr_id (rename_row gid name rows) = map gr_id rows"
  by (simp add: rename_row_def)

lemma group_exists_iff: "group_exists gid rows \<longleftrightarrow> gid \<in> gr_id ` set rows"
  by (auto simp: group_exists_def list_ex_iff)

lemma ids_rename_row [simp]: "gr_id ` set (rename_row gid name rows) = gr_id ` set rows"
  by (metis list.set_map map_gr_id_rename_row)

lemma groups_in_order_add:
  assumes "groups_in_order rows" and "\<not> group_named name rows"
  shows "groups_in_order (rows @ [new_group_row name now rows])"
proof -
  have "folded_name (new_group_row name now rows) \<notin> folded_name ` set rows"
    using assms(2) by (auto simp: group_named_def list_ex_iff same_name_def folded_name_def new_group_row_def)
  then show ?thesis using assms(1) next_id_fresh [of "map gr_id rows"] by (simp add: groups_in_order_def)
qed

lemma groups_in_order_rename:
  assumes "groups_in_order rows" and "\<not> group_named_other gid name rows"
  shows "groups_in_order (rename_row gid name rows)"
proof -
  let ?g = "\<lambda>r. if gr_id r = gid then r\<lparr>gr_name := name\<rparr> else r"
  have ids: "inj_on gr_id (set rows)" and names: "inj_on folded_name (set rows)" and d: "distinct rows"
    using assms(1) by (auto simp: groups_in_order_def distinct_map)
  have other: "folded_name x \<noteq> map ascii_lower name" if "x \<in> set rows" "gr_id x \<noteq> gid" for x
    using assms(2) that by (auto simp: group_named_other_def list_ex_iff same_name_def folded_name_def)
  have folded: "folded_name (?g x) = (if gr_id x = gid then map ascii_lower name else folded_name x)" for x
    by (simp add: folded_name_def)
  have "inj_on (\<lambda>x. folded_name (?g x)) (set rows)"
  proof (rule inj_onI)
    fix x y assume xy: "x \<in> set rows" "y \<in> set rows" "folded_name (?g x) = folded_name (?g y)"
    show "x = y"
    proof (cases "gr_id x = gid"; cases "gr_id y = gid")
      assume "gr_id x = gid" "gr_id y = gid"
      then show ?thesis using inj_onD [OF ids _ xy(1,2)] by simp
    next
      assume "gr_id x = gid" "gr_id y \<noteq> gid"
      then show ?thesis using other [OF xy(2)] xy(3) unfolding folded by simp
    next
      assume "gr_id x \<noteq> gid" "gr_id y = gid"
      then show ?thesis using other [OF xy(1)] xy(3) unfolding folded by simp
    next
      assume "gr_id x \<noteq> gid" "gr_id y \<noteq> gid"
      then show ?thesis using inj_onD [OF names _ xy(1,2)] xy(3) unfolding folded by simp
    qed
  qed
  then have "distinct (map (\<lambda>x. folded_name (?g x)) rows)" using d by (simp add: distinct_map)
  then have "distinct (map folded_name (rename_row gid name rows))" by (simp add: rename_row_def comp_def)
  then show ?thesis using assms(1) by (simp add: groups_in_order_def)
qed

lemma groups_in_order_filter: "groups_in_order rows \<Longrightarrow> groups_in_order (filter P rows)"
  by (simp add: groups_in_order_def distinct_map_filter)

subsection \<open>Enrolling and granting replace a row\<close>

lemma snd_upsert_device:
  "snd (upsert_device fp name gid os version at seen_at addr rows) =
     (if fp \<in> dr_fingerprint ` set rows
      then map (\<lambda>x. if dr_fingerprint x = fp
                    then x\<lparr>dr_name := name, dr_group_id := (if gid = None then dr_group_id x else gid), dr_os := os,
                           dr_version := version, dr_enrolled_at := at, dr_last_seen_at := Some seen_at,
                           dr_last_address := Some addr\<rparr>
                    else x) rows
      else rows @ [\<lparr>dr_id = next_id (map dr_id rows), dr_fingerprint = fp, dr_name = name, dr_group_id = gid,
                    dr_os = os, dr_version = version, dr_enrolled_at = at, dr_last_seen_at = Some seen_at,
                    dr_last_address = Some addr\<rparr>])"
  by (auto simp: upsert_device_def Let_def find_None_iff image_iff dest: find_SomeD split: option.split)

lemma upsert_device_member:
  assumes "v \<in> set (snd (upsert_device fp name gid os version at seen_at addr rows))"
  shows "v \<in> set rows \<or> (dr_fingerprint v = fp \<and>
    (dr_group_id v = gid \<or> (\<exists>w\<in>set rows. dr_group_id v = dr_group_id w)))"
  using assms by (auto simp: snd_upsert_device split: if_splits)

lemma distinct_upsert_device:
  "distinct (map dr_id rows) \<Longrightarrow> distinct (map dr_id (snd (upsert_device fp name gid os version at seen_at addr rows)))"
  "distinct (map dr_fingerprint rows) \<Longrightarrow>
   distinct (map dr_fingerprint (snd (upsert_device fp name gid os version at seen_at addr rows)))"
  using next_id_fresh [of "map dr_id rows"] unfolding snd_upsert_device by auto

definition rule_pair :: "rule_row \<Rightarrow> int \<times> int" where
  "rule_pair r = (rr_user_group r, rr_device_group r)"

lemma between_iff: "between ug dg r \<longleftrightarrow> rule_pair r = (ug, dg)"
  by (simp add: between_def rule_pair_def)

lemma snd_upsert_rule:
  "snd (upsert_rule ug dg role now rows) =
     (if (ug, dg) \<in> rule_pair ` set rows
      then map (\<lambda>x. if rule_pair x = (ug, dg) then x\<lparr>rr_role := role\<rparr> else x) rows
      else rows @ [\<lparr>rr_id = next_id (map rr_id rows), rr_user_group = ug, rr_device_group = dg, rr_role = role,
                    rr_created_at = now\<rparr>])"
proof -
  have "find (between ug dg) rows = None \<longleftrightarrow> (ug, dg) \<notin> rule_pair ` set rows"
    by (auto simp: find_None_iff between_iff image_iff)
  then show ?thesis
    by (cases "find (between ug dg) rows") (auto simp: upsert_rule_def Let_def between_iff)
qed

lemma rule_pair_role [simp]: "rule_pair (x\<lparr>rr_role := role\<rparr>) = rule_pair x"
  by (simp add: rule_pair_def)

lemma upsert_rule_member:
  assumes "r \<in> set (snd (upsert_rule ug dg role now rows))"
  shows "r \<in> set rows \<or> (rule_pair r = (ug, dg) \<and> rr_role r = role)"
  using assms by (auto simp: snd_upsert_rule rule_pair_def split: if_splits)

lemma distinct_upsert_rule:
  "distinct (map rr_id rows) \<Longrightarrow> distinct (map rr_id (snd (upsert_rule ug dg role now rows)))"
  "distinct (map rule_pair rows) \<Longrightarrow> distinct (map rule_pair (snd (upsert_rule ug dg role now rows)))"
  using next_id_fresh [of "map rr_id rows"] unfolding snd_upsert_rule
  by (auto simp del: Pair_inject) (auto simp: rule_pair_def)

subsection \<open>Keys and names\<close>

definition keys_in_order :: "database \<Rightarrow> bool" where
  "keys_in_order d \<longleftrightarrow>
     distinct (user_ids d) \<and> groups_in_order (db_groups d) \<and> groups_in_order (db_user_groups d) \<and>
     distinct (map dr_id (db_devices d)) \<and> distinct (map dr_fingerprint (db_devices d)) \<and>
     distinct (map er_id (db_tokens d)) \<and> distinct (map er_token_hash (db_tokens d)) \<and>
     distinct (db_members d) \<and> distinct (map rr_id (db_rules d)) \<and> distinct (map rule_pair (db_rules d))"

lemma er_use_token [simp]: "er_id (use_token t) = er_id t" "er_token_hash (use_token t) = er_token_hash t"
  "er_group_id (use_token t) = er_group_id t" "er_created_by (use_token t) = er_created_by t"
  by (simp_all add: use_token_def)

interpretation keys: database_invariant keys_in_order "\<lambda>_. True" C for C
proof (unfold_locales, goal_cases)
  case (8 d E u name g uses days token row uid)
  then show ?case using next_id_fresh [of "map er_id (db_tokens d)"] by (simp add: keys_in_order_def user_ids_def)
qed (simp_all add: keys_in_order_def user_ids_def distinct_map_filter groups_in_order_add groups_in_order_rename
       groups_in_order_filter distinct_upsert_device distinct_upsert_rule)

subsection \<open>References\<close>

definition refs_hold :: "database \<Rightarrow> bool" where
  "refs_hold d \<longleftrightarrow>
     distinct (user_ids d) \<and>
     (\<forall>(g, u)\<in>set (db_members d). g \<in> gr_id ` set (db_user_groups d) \<and> u \<in> set (user_ids d)) \<and>
     (\<forall>r\<in>set (db_rules d). rr_user_group r \<in> gr_id ` set (db_user_groups d) \<and> rr_device_group r \<in> gr_id ` set (db_groups d)) \<and>
     (\<forall>v\<in>set (db_devices d). group_ref_ok (dr_group_id v) d) \<and>
     (\<forall>t\<in>set (db_tokens d). group_ref_ok (er_group_id t) d) \<and>
     (\<forall>t\<in>set (db_tokens d). \<forall>u. er_created_by t = Some u \<longrightarrow> u \<in> set (user_ids d))"

lemma group_ref_ok_iff: "group_ref_ok gid d \<longleftrightarrow> (\<forall>g. gid = Some g \<longrightarrow> g \<in> gr_id ` set (db_groups d))"
  by (auto simp: group_ref_ok_def group_exists_iff split: option.split)

interpretation refs: database_invariant refs_hold "\<lambda>_. True" C for C
proof (unfold_locales, goal_cases)
  case (2 d a)
  then show ?case by (auto simp: refs_hold_def user_ids_def group_ref_ok_iff)
next
  case (3 d a uid)
  then show ?case by (auto simp: refs_hold_def user_ids_def group_ref_ok_iff distinct_map_filter split: if_splits)
next
  case (10 d E fp en addr g name os version at seen_at)
  then have "group_ref_ok (dr_group_id v) d"
    if "v \<in> set (snd (upsert_device fp name g os version at seen_at addr (db_devices d)))" for v
    using upsert_device_member [OF that] by (auto simp: refs_hold_def)
  then show ?case using 10 by (auto simp: refs_hold_def user_ids_def group_ref_ok_iff)
next
  case (11 d f P)
  then have "group_ref_ok (dr_group_id (if P v then f v else v)) d" if "v \<in> set (db_devices d)" for v
  proof -
    have "group_ref_ok (dr_group_id v) d" using 11(1) that by (simp add: refs_hold_def)
    then show ?thesis using 11(4) [of v] by (metis (full_types))
  qed
  then show ?case using 11(1) by (auto simp: refs_hold_def user_ids_def group_ref_ok_iff)
next
  case (18 d ug dg role now)
  then have "rr_user_group r \<in> gr_id ` set (db_user_groups d) \<and> rr_device_group r \<in> gr_id ` set (db_groups d)"
    if "r \<in> set (snd (upsert_rule ug dg (role_as_str role) now (db_rules d)))" for r
    using upsert_rule_member [OF that] by (auto simp: refs_hold_def group_exists_iff rule_pair_def)
  then show ?case using 18 by (auto simp: refs_hold_def user_ids_def group_ref_ok_iff)
qed (auto simp: refs_hold_def user_ids_def group_ref_ok_iff group_exists_iff)

subsection \<open>Values\<close>

definition values_fit :: "database \<Rightarrow> bool" where
  "values_fit d \<longleftrightarrow>
     distinct (user_ids d) \<and> (\<forall>v\<in>set (db_devices d). length (dr_fingerprint v) = 32) \<and>
     (\<forall>r\<in>set (db_rules d). \<exists>role. rr_role r = role_as_str role)"

text \<open>Every fingerprint is a \<open>[u8; 32]\<close>; here it is an assumption on the events.\<close>

definition keyed :: "directory_event \<Rightarrow> bool" where
  "keyed e \<longleftrightarrow> (case e of DEnroll _ fp _ _ \<Rightarrow> length fp = 32 | _ \<Rightarrow> True)"

interpretation fits: database_invariant values_fit keyed C for C
proof (unfold_locales, goal_cases)
  case (2 d a)
  then show ?case by (simp add: values_fit_def user_ids_def)
next
  case (3 d a uid)
  then show ?case by (auto simp: values_fit_def user_ids_def distinct_map_filter)
next
  case (10 d E fp en addr g name os version at seen_at)
  then have "length fp = 32" by (simp add: keyed_def)
  then have "length (dr_fingerprint v) = 32"
    if "v \<in> set (snd (upsert_device fp name g os version at seen_at addr (db_devices d)))" for v
    using upsert_device_member [OF that] 10(1) by (auto simp: values_fit_def)
  then show ?case using 10 by (simp add: values_fit_def user_ids_def)
next
  case (18 d ug dg role now)
  then have "\<exists>role. rr_role r = role_as_str role"
    if "r \<in> set (snd (upsert_rule ug dg (role_as_str role) now (db_rules d)))" for r
    using upsert_rule_member [OF that] by (auto simp: values_fit_def)
  then show ?case using 18 by (simp add: values_fit_def user_ids_def)
qed (auto simp: values_fit_def user_ids_def)

subsection \<open>Tokens to enroll with\<close>

text \<open>A token by its hash: at most \<open>k\<close> uses are left of it.\<close>

definition at_most :: "bytes \<Rightarrow> int \<Rightarrow> database \<Rightarrow> bool" where
  "at_most h k d \<longleftrightarrow>
     distinct (user_ids d) \<and> distinct (map er_token_hash (db_tokens d)) \<and>
     (\<forall>t\<in>set (db_tokens d). er_token_hash t = h \<longrightarrow> (\<exists>n. er_uses_left t = Some n \<and> n \<le> k))"

definition draws_other :: "account_crypto \<Rightarrow> bytes \<Rightarrow> directory_event \<Rightarrow> bool" where
  "draws_other C h e \<longleftrightarrow>
     (case e of
        DNewEnrollToken E _ _ _ _ _ \<Rightarrow>
          \<forall>token. random_token (ev_random E 0) ENROLL_PREFIX = Some token \<longrightarrow> hash_token C token \<noteq> h
      | _ \<Rightarrow> True)"

interpretation spends: database_invariant "at_most h k" "draws_other C h" C for h k C
proof (unfold_locales, goal_cases)
  case (8 d E u name g uses days token row uid)
  then have "er_token_hash row \<noteq> h" by (auto simp: draws_other_def)
  then show ?case using 8 by (auto simp: at_most_def user_ids_def)
next
  case (9 d h' now)
  then have "\<exists>n. er_uses_left (if token_good h' now t then use_token t else t) = Some n \<and> n \<le> k"
    if "t \<in> set (db_tokens d)" "er_token_hash t = h" for t
    using that by (auto simp: at_most_def use_token_def)
  then show ?case using 9 unfolding at_most_def user_ids_def by (auto split: if_splits) metis
qed (auto simp: at_most_def user_ids_def distinct_map_filter)

end
