(* ===== verification/Directory_Theorems.thy ===== *)
theory Directory_Theorems
  imports Directory_Invariants Accounts_Theorems
begin

text \<open>
  Properties of the server's database: it stays in order, a token enrolls no more devices
  than it was made for, a user may reach exactly what grants let them at, with the highest
  role, and what is taken away is exactly what they lose.
\<close>

subsection \<open>A database in order\<close>

definition database_ok :: "database \<Rightarrow> bool" where
  "database_ok d \<longleftrightarrow> keys_in_order d \<and> refs_hold d \<and> values_fit d"

definition empty_database :: database where
  "empty_database =
     \<lparr>db_accounts = \<lparr>user_rows = [], login_rows = [], token_rows = [], setup_rows = [], tries = Map.empty\<rparr>,
      db_groups = [], db_devices = [], db_tokens = [], db_user_groups = [], db_members = [], db_rules = []\<rparr>"

lemma empty_database_ok: "database_ok empty_database"
  by (simp add: database_ok_def keys_in_order_def refs_hold_def values_fit_def empty_database_def
      groups_in_order_def user_ids_def)

text \<open>With its accounts: users have names of their own, and logins and tokens are of users who are
  there.\<close>

definition tables_ok :: "database \<Rightarrow> bool" where
  "tables_ok d \<longleftrightarrow> database_ok d \<and> accounts_ok (db_accounts d)"

lemma directory_run_ok: "database_ok d \<Longrightarrow> list_all keyed es \<Longrightarrow> database_ok (directory_run C es d)"
  using keys.run_inv [of d es C] refs.run_inv [of d es C] fits.run_inv [of d es C]
  by (simp add: database_ok_def list_all_iff)

text \<open>What the database does to the accounts is what operations on them do.\<close>

lemma new_enroll_token_accounts: "db_accounts (snd (new_enroll_token C E u name gid uses days d)) = db_accounts d"
  by (auto simp: new_enroll_token_def enroll_tokens_def Let_def split: sum.split option.split prod.split)

lemma directory_step_accounts: "\<exists>es. db_accounts (directory_step C e d) = account_run C es (db_accounts d)"
proof (cases e)
  case (DAccounts a)
  have "db_accounts (accounts_step C a d) = account_step C a (db_accounts d)"
    by (cases a) (auto simp: accounts_step_def delete_account_def split: prod.split sum.split)
  then have "db_accounts (directory_step C e d) = account_run C [a] (db_accounts d)"
    by (simp add: DAccounts account_run_def)
  then show ?thesis by blast
next
  case (DNewEnrollToken E u name gid uses days)
  then have "db_accounts (directory_step C e d) = account_run C [] (db_accounts d)"
    by (simp add: account_run_def new_enroll_token_accounts)
  then show ?thesis by blast
next
  case (DUpdateDevice E i name grp)
  then have "db_accounts (directory_step C e d) = account_run C [] (db_accounts d)"
    by (auto simp: account_run_def update_device_def set_device_def Let_def split: sum.split option.split)
  then show ?thesis by blast
next
  case (DEnroll E fp en a)
  then have "db_accounts (directory_step C e d) = account_run C [] (db_accounts d)"
    by (auto simp: account_run_def enroll_device_def Let_def split: prod.split option.split)
  then show ?thesis by blast
qed (rule exI [of _ "[]"], auto simp: account_run_def create_device_group_def rename_device_group_def delete_device_group_def
    enroll_tokens_def delete_enroll_token_def delete_device_def running_def seen_def set_device_of_def create_user_group_def
    rename_user_group_def delete_user_group_def add_member_def remove_member_def set_grant_def delete_grant_def Let_def
    split: sum.split prod.split)+

lemma directory_run_accounts: "\<exists>es. db_accounts (directory_run C ds d) = account_run C es (db_accounts d)"
proof (induction ds arbitrary: d)
  case Nil
  have "db_accounts (directory_run C [] d) = account_run C [] (db_accounts d)" by (simp add: directory_run_def account_run_def)
  then show ?case by blast
next
  case (Cons e ds)
  obtain es where "db_accounts (directory_step C e d) = account_run C es (db_accounts d)" using directory_step_accounts by blast
  moreover obtain fs where "db_accounts (directory_run C ds (directory_step C e d)) = account_run C fs (db_accounts (directory_step C e d))"
    using Cons by blast
  ultimately have "db_accounts (directory_run C (e # ds) d) = account_run C (es @ fs) (db_accounts d)"
    by (simp add: directory_run_def account_run_def)
  then show ?case by blast
qed

lemma directory_run_tables: "tables_ok d \<Longrightarrow> list_all keyed es \<Longrightarrow> tables_ok (directory_run C es d)"
  using directory_run_ok [of d es C] directory_run_accounts [of C es d] accounts_ok_run
  by (auto simp: tables_ok_def)

subsection \<open>Tokens are spent\<close>

text \<open>How many of the requests enroll a device with the token of this hash.\<close>

primrec enrolled_with :: "account_crypto \<Rightarrow> bytes \<Rightarrow> directory_event list \<Rightarrow> database \<Rightarrow> nat" where
  "enrolled_with C h [] d = 0"
| "enrolled_with C h (e # es) d =
     (case e of
        DEnroll E fp en a \<Rightarrow>
          if hash_token C (en_token en) = h \<and> \<not> isl (fst (enroll_device C E fp en a d)) then 1 else 0
      | _ \<Rightarrow> 0) + enrolled_with C h es (directory_step C e d)"

lemma enroll_device_success:
  assumes "enroll_device C E fp en a d = (Inr v, d')"
  shows "\<exists>t devices. t \<in> set (db_tokens d) \<and> token_good (hash_token C (en_token en)) (ev_clock E 0) t \<and>
    d' = d\<lparr>db_tokens := map (\<lambda>x. if token_good (hash_token C (en_token en)) (ev_clock E 0) x then use_token x else x)
        (db_tokens d), db_devices := devices\<rparr>"
proof -
  let ?good = "token_good (hash_token C (en_token en)) (ev_clock E 0)"
  obtain t where t: "find ?good (db_tokens d) = Some t"
    using assms by (cases "find ?good (db_tokens d)") (auto simp: enroll_device_def Let_def split: if_splits)
  then have "\<exists>devices. d' = d\<lparr>db_tokens := map (\<lambda>x. if ?good x then use_token x else x) (db_tokens d), db_devices := devices\<rparr>"
    using assms by (auto simp: enroll_device_def Let_def split_def split: if_splits)
  then show ?thesis using find_SomeD [OF t] by blast
qed

lemma spent_once:
  assumes "at_most h k d" and "enroll_device C E fp en a d = (Inr v, d')" and "hash_token C (en_token en) = h"
  shows "0 < k" and "at_most h (k - 1) d'"
proof -
  let ?good = "token_good h (ev_clock E 0)"
  obtain t devices where t: "t \<in> set (db_tokens d)" "?good t"
    and d': "d' = d\<lparr>db_tokens := map (\<lambda>x. if ?good x then use_token x else x) (db_tokens d), db_devices := devices\<rparr>"
    using enroll_device_success [OF assms(2)] unfolding assms(3) by blast
  have h: "er_token_hash t = h" using t(2) by (simp add: token_good_def)
  then obtain n where n: "er_uses_left t = Some n" "n \<le> k" using assms(1) t(1) by (auto simp: at_most_def)
  then show "0 < k" using t(2) by (simp add: token_good_def)
  have "er_uses_left (use_token t) = Some (n - 1)" using n(1) by (simp add: use_token_def)
  moreover have "x = t" if "x \<in> set (db_tokens d)" "er_token_hash x = h" for x
    using assms(1) that t(1) h by (auto simp: at_most_def distinct_map dest: inj_onD)
  ultimately have "\<forall>x\<in>set (db_tokens d'). er_token_hash x = h \<longrightarrow> (\<exists>n. er_uses_left x = Some n \<and> n \<le> k - 1)"
    using t(2) n(2) by (auto simp: d' split: if_splits)
  then show "at_most h (k - 1) d'" using assms(1) by (simp add: at_most_def d' user_ids_def)
qed

lemma enrolled_at_most:
  assumes "at_most h k d" and "list_all (draws_other C h) es"
  shows "int (enrolled_with C h es d) \<le> max k 0"
  using assms
proof (induction es arbitrary: d k)
  case (Cons e es)
  have same: "int (enrolled_with C h es (directory_step C e d)) \<le> max k 0"
    using Cons.IH spends.step_inv Cons.prems by simp
  show ?case
  proof (cases "\<exists>E fp en a v d'. e = DEnroll E fp en a \<and> hash_token C (en_token en) = h \<and> enroll_device C E fp en a d = (Inr v, d')")
    case True
    then obtain E fp en a v d' where e: "e = DEnroll E fp en a" "hash_token C (en_token en) = h"
      "enroll_device C E fp en a d = (Inr v, d')" by blast
    note spent = spent_once [OF Cons.prems(1) e(3,2)]
    have "int (enrolled_with C h es d') \<le> max (k - 1) 0" using Cons.IH [OF spent(2)] Cons.prems(2) by simp
    then show ?thesis using e spent(1) by simp
  next
    case False
    then have "enrolled_with C h (e # es) d = enrolled_with C h es (directory_step C e d)"
      by (cases e) (auto simp: isl_def, metis prod.collapse sum.collapse(2) isl_def)
    then show ?thesis using same by simp
  qed
qed simp

subsection \<open>What grants let a user at\<close>

text \<open>A way from a user to a device: the group the user is in, the grant, the group the
  device is in.\<close>

record way =
  w_user :: int
  w_group :: int
  w_rule :: int
  w_device_group :: int
  w_device :: int
  w_role :: str

definition ways :: "database \<Rightarrow> way set" where
  "ways d =
     {w. \<exists>u\<in>set (user_rows (db_accounts d)). \<exists>r\<in>set (db_rules d). \<exists>v\<in>set (db_devices d).
        \<not> ur_disabled u \<and> (rr_user_group r, ur_id u) \<in> set (db_members d) \<and> dr_group_id v = Some (rr_device_group r) \<and>
        w = \<lparr>w_user = ur_id u, w_group = rr_user_group r, w_rule = rr_id r, w_device_group = rr_device_group r,
             w_device = dr_id v, w_role = rr_role r\<rparr>}"

text \<open>Each table has its own part in it.\<close>

definition enabled_in :: "user_row list \<Rightarrow> int set" where
  "enabled_in rows = {uid. \<exists>u\<in>set rows. \<not> ur_disabled u \<and> ur_id u = uid}"

definition parts_in :: "rule_row list \<Rightarrow> (int \<times> int \<times> int \<times> str) set" where
  "parts_in rows = {(i, ug, dg, role). \<exists>r\<in>set rows. rr_id r = i \<and> rr_user_group r = ug \<and> rr_device_group r = dg \<and> rr_role r = role}"

definition places_in :: "device_row list \<Rightarrow> (int \<times> int) set" where
  "places_in rows = {(i, g). \<exists>v\<in>set rows. dr_id v = i \<and> dr_group_id v = Some g}"

lemma way_iff:
  "w \<in> ways d \<longleftrightarrow>
     w_user w \<in> enabled_in (user_rows (db_accounts d)) \<and>
     (w_rule w, w_group w, w_device_group w, w_role w) \<in> parts_in (db_rules d) \<and>
     (w_group w, w_user w) \<in> set (db_members d) \<and> (w_device w, w_device_group w) \<in> places_in (db_devices d)"
  by (cases w) (auto simp: ways_def enabled_in_def parts_in_def places_in_def)

lemma enabled_in_filter [simp]: "enabled_in (filter (\<lambda>r. ur_id r \<noteq> uid) rows) = enabled_in rows - {uid}"
  by (auto simp: enabled_in_def)

lemma enabled_in_disable [simp]: "enabled_in (upd uid (\<lambda>u. u\<lparr>ur_disabled := True\<rparr>) rows) = enabled_in rows - {uid}"
  by (induction rows) (auto simp: enabled_in_def upd_def)

lemma parts_in_filter [simp]:
  "x \<in> parts_in (filter (\<lambda>r. rr_id r \<noteq> i) rows) \<longleftrightarrow> x \<in> parts_in rows \<and> fst x \<noteq> i"
  "x \<in> parts_in (filter (\<lambda>r. rr_user_group r \<noteq> g) rows) \<longleftrightarrow> x \<in> parts_in rows \<and> fst (snd x) \<noteq> g"
  "x \<in> parts_in (filter (\<lambda>r. rr_device_group r \<noteq> g) rows) \<longleftrightarrow> x \<in> parts_in rows \<and> fst (snd (snd x)) \<noteq> g"
  by (auto simp: parts_in_def)

lemma places_in_Cons:
  "places_in (v # rows) = (case dr_group_id v of None \<Rightarrow> places_in rows | Some g \<Rightarrow> insert (dr_id v, g) (places_in rows))"
  by (cases "dr_group_id v") (auto simp: places_in_def)

lemma places_in_Nil: "places_in [] = {}"
  by (simp add: places_in_def)

lemma places_in_filter [simp]:
  "(j, g) \<in> places_in (filter (\<lambda>v. dr_id v \<noteq> i) rows) \<longleftrightarrow> (j, g) \<in> places_in rows \<and> j \<noteq> i"
  by (auto simp: places_in_def)

lemma places_in_out [simp]:
  "(j, g) \<in> places_in (map (\<lambda>v. if dr_id v = i then v\<lparr>dr_group_id := None\<rparr> else v) rows) \<longleftrightarrow>
     (j, g) \<in> places_in rows \<and> j \<noteq> i"
  by (induction rows) (auto simp: places_in_Cons places_in_Nil split: option.splits)

lemma places_in_drop [simp]:
  "(j, g') \<in> places_in (map (\<lambda>v. if dr_group_id v = Some g then v\<lparr>dr_group_id := None\<rparr> else v) rows) \<longleftrightarrow>
     (j, g') \<in> places_in rows \<and> g' \<noteq> g"
  by (induction rows) (auto simp: places_in_Cons places_in_Nil split: option.splits)

definition roles_on :: "int \<Rightarrow> int \<Rightarrow> database \<Rightarrow> role set" where
  "roles_on uid i d = {role. \<exists>w\<in>ways d. w_user w = uid \<and> w_device w = i \<and> w_role w = role_as_str role}"

lemma role_round_trip [simp]: "role_from_str (role_as_str role) = Inr role"
  by (cases role) (simp_all add: role_from_str_def lit_def)

lemma role_as_str_inj [simp]: "role_as_str a = role_as_str b \<longleftrightarrow> a = b"
  by (metis role_round_trip sum.inject(2))

text \<open>The fold over rows, once they are parsed.\<close>

definition noted :: "(int \<times> fingerprint \<times> role) list \<Rightarrow> reachable list" where
  "noted rows = fold (\<lambda>(i, fp, role). note_best i fp role) rows []"

definition best_map :: "reachable list \<Rightarrow> int \<Rightarrow> (fingerprint \<times> role) option" where
  "best_map xs = map_of (map (\<lambda>x. (re_id x, re_fingerprint x, re_role x)) xs)"

lemma best_map_note_best:
  "best_map (note_best i fp role xs) =
     (best_map xs)(i \<mapsto> case best_map xs i of None \<Rightarrow> (fp, role) | Some (f, r) \<Rightarrow> (f, max r role))"
  by (induction xs) (auto simp: best_map_def fun_eq_iff split: option.splits)

lemma ids_note_best: "re_id ` set (note_best i fp role xs) = insert i (re_id ` set xs)"
  by (induction xs) auto

lemma distinct_note_best: "distinct (map re_id xs) \<Longrightarrow> distinct (map re_id (note_best i fp role xs))"
  by (induction xs) (auto simp: ids_note_best)

lemma distinct_noted: "distinct (map re_id (noted rows))"
  unfolding noted_def by (induction rows rule: rev_induct) (auto simp: distinct_note_best)

lemma best_map_member:
  "distinct (map re_id xs) \<Longrightarrow> x \<in> set xs \<longleftrightarrow> best_map xs (re_id x) = Some (re_fingerprint x, re_role x)"
proof -
  assume "distinct (map re_id xs)"
  then have "distinct (map fst (map (\<lambda>x. (re_id x, re_fingerprint x, re_role x)) xs))" by (simp add: comp_def)
  from map_of_eq_Some_iff [OF this, of "re_id x" "(re_fingerprint x, re_role x)"]
  have "best_map xs (re_id x) = Some (re_fingerprint x, re_role x) \<longleftrightarrow>
      (\<exists>y\<in>set xs. re_id y = re_id x \<and> re_fingerprint y = re_fingerprint x \<and> re_role y = re_role x)"
    by (simp add: best_map_def image_iff eq_commute)
  moreover have "y = x" if "re_id y = re_id x" "re_fingerprint y = re_fingerprint x" "re_role y = re_role x" for y
    using that by (cases x; cases y) simp
  ultimately show ?thesis by metis
qed

definition noted_roles :: "int \<Rightarrow> (int \<times> fingerprint \<times> role) list \<Rightarrow> role set" where
  "noted_roles i rows = {role. \<exists>fp. (i, fp, role) \<in> set rows}"

lemma finite_role [simp]: "finite (A :: role set)"
proof (rule finite_subset)
  show "A \<subseteq> {View, Control, Full}" using role.exhaust by blast
qed simp

lemma noted_roles_snoc: "noted_roles i (rows @ [(j, fp, role)]) = (if i = j then insert role (noted_roles i rows) else noted_roles i rows)"
  by (auto simp: noted_roles_def)

lemma best_map_noted:
  assumes "\<forall>(i, fp, role)\<in>set rows. fp = key i"
  shows "best_map (noted rows) i =
    (if noted_roles i rows = {} then None else Some (key i, Max (noted_roles i rows)))"
  using assms
proof (induction rows rule: rev_induct)
  case Nil
  then show ?case by (simp add: noted_def best_map_def noted_roles_def)
next
  case (snoc row rows)
  obtain j fp role where row: "row = (j, fp, role)" by (cases row) auto
  have "noted (rows @ [row]) = note_best j fp role (noted rows)" by (simp add: noted_def row)
  moreover have fp: "fp = key j" and IH: "best_map (noted rows) i =
      (if noted_roles i rows = {} then None else Some (key i, Max (noted_roles i rows)))"
    using snoc by (auto simp: row)
  ultimately show ?case
    by (cases "i = j"; cases "noted_roles j rows = {}")
      (simp_all add: row best_map_note_best noted_roles_snoc max.commute)
qed

text \<open>The rows of the join are the ways, given that the database is in order.\<close>

definition parsed :: "(int \<times> bytes \<times> str) list \<Rightarrow> (int \<times> fingerprint \<times> role) list" where
  "parsed rows = somes (map (\<lambda>(i, fp, s).
     if length fp = 32 then (case role_from_str s of Inl _ \<Rightarrow> None | Inr role \<Rightarrow> Some (i, fp, role)) else None) rows)"

lemma best_roles_parsed: "best_roles rows = noted (parsed rows)"
proof -
  have "fold (\<lambda>(i, fp, s) best. if length fp = 32
          then (case role_from_str s of Inl _ \<Rightarrow> best | Inr role \<Rightarrow> note_best i fp role best) else best) rows b =
        fold (\<lambda>(i, fp, role). note_best i fp role) (parsed rows) b" for b
    by (induction rows arbitrary: b) (auto simp: parsed_def split: sum.splits)
  then show ?thesis by (simp add: best_roles_def noted_def)
qed

lemma row_of_unique:
  "distinct (user_ids d) \<Longrightarrow> u \<in> set (user_rows (db_accounts d)) \<Longrightarrow> row_of (ur_id u) (db_accounts d) = Some u"
proof -
  assume d: "distinct (user_ids d)" and u: "u \<in> set (user_rows (db_accounts d))"
  then obtain r where "row_of (ur_id u) (db_accounts d) = Some r"
    by (cases "row_of (ur_id u) (db_accounts d)") (auto simp: row_of_None_iff)
  then show ?thesis using row_of_member same_id_same_row d u unfolding user_ids_def by metis
qed

lemma reach_rows_ways:
  assumes "distinct (user_ids d)"
  shows "(i, fp, s) \<in> set (reach_rows uid d) \<longleftrightarrow>
    (\<exists>w\<in>ways d. w_user w = uid \<and> w_device w = i \<and> w_role w = s \<and>
       (\<exists>v\<in>set (db_devices d). dr_id v = i \<and> dr_fingerprint v = fp \<and> dr_group_id v = Some (w_device_group w)))"
  (is "?l \<longleftrightarrow> ?r")
proof
  assume ?l
  then obtain u where u: "row_of uid (db_accounts d) = Some u" "\<not> ur_disabled u"
    by (cases "row_of uid (db_accounts d)") (auto simp: reach_rows_def split: if_splits)
  obtain g r v where "(g, uid) \<in> set (db_members d)" "r \<in> set (db_rules d)" "rr_user_group r = g"
    "v \<in> set (db_devices d)" "dr_group_id v = Some (rr_device_group r)" "i = dr_id v" "fp = dr_fingerprint v" "s = rr_role r"
    using \<open>?l\<close> u by (auto simp: reach_rows_def)
  then show ?r using row_of_member [OF u(1)] u(2) unfolding ways_def by fastforce
next
  assume ?r
  then obtain u r v v' where w: "u \<in> set (user_rows (db_accounts d))" "\<not> ur_disabled u" "ur_id u = uid"
    "r \<in> set (db_rules d)" "(rr_user_group r, ur_id u) \<in> set (db_members d)" "rr_role r = s"
    "v' \<in> set (db_devices d)" "dr_id v' = i" "dr_fingerprint v' = fp" "dr_group_id v' = Some (rr_device_group r)"
    unfolding ways_def by auto
  have "row_of uid (db_accounts d) = Some u" using row_of_unique [OF assms w(1)] w(3) by simp
  then show ?l using w by (auto simp: reach_rows_def image_iff)
qed

lemma role_from_str_iff: "role_from_str s = Inr role \<longleftrightarrow> s = role_as_str role"
  by (cases role) (auto simp: role_from_str_def lit_def)

lemma parsed_Cons:
  "parsed ((j, f, s) # rows) =
     (if length f = 32 then (case role_from_str s of Inl _ \<Rightarrow> parsed rows | Inr r \<Rightarrow> (j, f, r) # parsed rows)
      else parsed rows)"
  by (simp add: parsed_def split: sum.split)

lemma parsed_member:
  "(i, fp, role) \<in> set (parsed rows) \<longleftrightarrow> length fp = 32 \<and> (i, fp, role_as_str role) \<in> set rows"
proof (induction rows)
  case Nil
  then show ?case by (simp add: parsed_def)
next
  case (Cons row rows)
  obtain j f s where row: "row = (j, f, s)" by (cases row) auto
  show ?case
  proof (cases "role_from_str s")
    case (Inl e)
    then have "s \<noteq> role_as_str role" by auto
    then show ?thesis using Cons Inl by (auto simp: row parsed_Cons)
  next
    case (Inr r)
    then have "s = role_as_str r" by (simp add: role_from_str_iff)
    then show ?thesis using Cons by (auto simp: row parsed_Cons)
  qed
qed

definition key_of :: "database \<Rightarrow> int \<Rightarrow> fingerprint" where
  "key_of d i = (case find_device_row i d of None \<Rightarrow> [] | Some v \<Rightarrow> dr_fingerprint v)"

lemma key_of_device:
  assumes "database_ok d" and "v \<in> set (db_devices d)"
  shows "key_of d (dr_id v) = dr_fingerprint v"
proof -
  obtain w where w: "find_device_row (dr_id v) d = Some w"
    using assms(2) by (cases "find_device_row (dr_id v) d") (auto simp: find_device_row_def find_None_iff)
  then have "w \<in> set (db_devices d)" "dr_id w = dr_id v" unfolding find_device_row_def by (auto dest: find_SomeD)
  then have "w = v" using assms by (auto simp: database_ok_def keys_in_order_def distinct_map dest: inj_onD)
  then show ?thesis using w by (simp add: key_of_def)
qed

lemma way_device: "w \<in> ways d \<Longrightarrow> \<exists>v\<in>set (db_devices d). dr_id v = w_device w \<and> dr_group_id v = Some (w_device_group w)"
  by (auto simp: ways_def)

lemma noted_roles_on:
  assumes "database_ok d"
  shows "noted_roles i (parsed (reach_rows uid d)) = roles_on uid i d"
proof -
  have d: "distinct (user_ids d)" using assms by (simp add: database_ok_def refs_hold_def)
  have len: "length (dr_fingerprint v) = 32" if "v \<in> set (db_devices d)" for v
    using assms that by (simp add: database_ok_def values_fit_def)
  show ?thesis unfolding noted_roles_def roles_on_def parsed_member reach_rows_ways [OF d]
    using len way_device by fastforce
qed

lemma parsed_keys:
  assumes "database_ok d"
  shows "\<forall>(i, fp, role)\<in>set (parsed (reach_rows uid d)). fp = key_of d i"
proof clarify
  fix i fp role
  assume "(i, fp, role) \<in> set (parsed (reach_rows uid d))"
  then have "(i, fp, role_as_str role) \<in> set (reach_rows uid d)" by (simp add: parsed_member)
  moreover have "distinct (user_ids d)" using assms by (simp add: database_ok_def refs_hold_def)
  ultimately obtain v where "v \<in> set (db_devices d)" "dr_id v = i" "dr_fingerprint v = fp"
    by (auto simp: reach_rows_ways)
  then show "fp = key_of d i" using key_of_device [OF assms] by metis
qed

lemma best_roles_member:
  assumes "database_ok d"
  shows "x \<in> set (best_roles (reach_rows uid d)) \<longleftrightarrow>
    roles_on uid (re_id x) d \<noteq> {} \<and> re_fingerprint x = key_of d (re_id x) \<and> re_role x = Max (roles_on uid (re_id x) d)"
  unfolding best_roles_parsed best_map_member [OF distinct_noted] best_map_noted [OF parsed_keys [OF assms]]
    noted_roles_on [OF assms] by auto

subsection \<open>An instance\<close>

text \<open>Users 1 and 2, both in group 1, user 1 in group 2 as well; device 1 in the one group of
  devices; group 1 may view, group 2 may do everything; one token, good for one device.\<close>

definition demo_fp :: fingerprint where
  "demo_fp = replicate 32 1"

definition demo_directory :: database where
  "demo_directory =
     \<lparr>db_accounts = demo_accounts,
      db_groups = [\<lparr>gr_id = 1, gr_name = lit ''Office'', gr_created_at = 0\<rparr>],
      db_devices = [\<lparr>dr_id = 1, dr_fingerprint = demo_fp, dr_name = lit ''PC'', dr_group_id = Some 1, dr_os = [], dr_version = [],
         dr_enrolled_at = 0, dr_last_seen_at = None, dr_last_address = None\<rparr>],
      db_tokens = [\<lparr>er_id = 1, er_token_hash = [84], er_name = lit ''T'', er_group_id = Some 1, er_uses_left = Some 1,
         er_used = 0, er_created_by = Some 1, er_created_at = 0, er_expires_at = 1000\<rparr>],
      db_user_groups = [\<lparr>gr_id = 1, gr_name = lit ''Staff'', gr_created_at = 0\<rparr>, \<lparr>gr_id = 2, gr_name = lit ''IT'', gr_created_at = 0\<rparr>],
      db_members = [(1, 1), (1, 2), (2, 1)],
      db_rules = [\<lparr>rr_id = 1, rr_user_group = 1, rr_device_group = 1, rr_role = role_as_str View, rr_created_at = 0\<rparr>,
                  \<lparr>rr_id = 2, rr_user_group = 2, rr_device_group = 1, rr_role = role_as_str Full, rr_created_at = 0\<rparr>]\<rparr>"

lemma demo_directory_ok: "database_ok demo_directory"
proof -
  have "keys_in_order demo_directory"
    by (simp add: keys_in_order_def demo_directory_def user_ids_def demo_accounts_def demo_row_def groups_in_order_def
        folded_name_def lit_def ascii_lower_def rule_pair_def)
  moreover have "refs_hold demo_directory"
    by (simp add: refs_hold_def demo_directory_def user_ids_def demo_accounts_def demo_row_def group_ref_ok_def group_exists_def)
  moreover have "values_fit demo_directory"
    by (simp add: values_fit_def demo_directory_def user_ids_def demo_accounts_def demo_row_def demo_fp_def)
      (metis role_as_str.simps)
  ultimately show ?thesis by (simp add: database_ok_def)
qed

lemma demo_reached: "reach (demo_env_at 300 1) 1 demo_directory = Inr [\<lparr>re_id = 1, re_fingerprint = demo_fp, re_role = Full\<rparr>]"
proof -
  have "reach_rows 1 demo_directory = [(1, demo_fp, role_as_str View), (1, demo_fp, role_as_str Full)]"
    by (simp add: reach_rows_def demo_directory_def demo_accounts_def demo_row_def row_of_def)
  moreover have "max View Full = Full" by (simp add: max_def less_eq_role_def role_le_def)
  ultimately show ?thesis
    by (simp add: reach_def best_roles_def demo_env_at_def demo_fp_def role_from_str_iff [THEN iffD2, OF refl]
        del: role_as_str.simps)
qed

subsection \<open>Properties\<close>

text \<open>C34. Whatever sequence of requests the server carries out on accounts, devices, groups and
  grants, one after another, each completed or stopped by the database half-way, keys stay
  unique and so do the names of users and groups, whatever the case of their letters; every
  reference leads to a row that is there, those of sessions and tokens to users among them; and
  fingerprints and roles stay readable.\<close>

theorem database_stays_ok:
  assumes "tables_ok d" and "list_all keyed es"
  shows "tables_ok (directory_run C es d)"
  using assms by (rule directory_run_tables)

theorem database_stays_ok_witness:
  "tables_ok (directory_run demo_accounts_crypto
     [DAccounts (EDeleteUser (demo_env_at 300 1) 1), DDeleteGroup (demo_env_at 300 1) 1,
      DEnroll (demo_env_at 300 1) demo_fp \<lparr>en_token = [84], en_name = [], en_os = [], en_version = []\<rparr>
        \<lparr>sa_ip = V4 1, sa_port = 7\<rparr>] demo_directory)"
proof (rule database_stays_ok)
  show "tables_ok demo_directory"
    using demo_directory_ok
    by (simp add: tables_ok_def accounts_ok_def demo_directory_def demo_accounts_def demo_row_def folded_user_def ascii_lower_def)
qed (simp add: keyed_def demo_fp_def)

text \<open>C35. A token to enroll with, made for a number of devices, enrolls at most as many,
  whatever other requests come between: given that no other token is drawn with its hash.\<close>

theorem token_enrolls_at_most:
  assumes "database_ok d" and "t \<in> set (db_tokens d)" and "er_uses_left t = Some n" and "0 \<le> n"
    and "list_all (draws_other C (er_token_hash t)) es"
  shows "int (enrolled_with C (er_token_hash t) es d) \<le> n"
proof -
  have "x = t" if "x \<in> set (db_tokens d)" "er_token_hash x = er_token_hash t" for x
    using assms(1,2) that by (auto simp: database_ok_def keys_in_order_def distinct_map dest: inj_onD)
  then have "at_most (er_token_hash t) n d"
    using assms(1,3) by (auto simp: at_most_def database_ok_def keys_in_order_def)
  from enrolled_at_most [OF this assms(5)] assms(4) show ?thesis by simp
qed

theorem token_enrolls_at_most_witness:
  "int (enrolled_with demo_accounts_crypto [84]
     (map (\<lambda>n. DEnroll (demo_env_at 300 1) (replicate 32 n) \<lparr>en_token = [84], en_name = [], en_os = [], en_version = []\<rparr>
        \<lparr>sa_ip = V4 1, sa_port = 7\<rparr>) [1, 2]) demo_directory) \<le> 1"
proof -
  have t: "hd (db_tokens demo_directory) \<in> set (db_tokens demo_directory)"
    "er_uses_left (hd (db_tokens demo_directory)) = Some 1" "er_token_hash (hd (db_tokens demo_directory)) = [84]"
    by (simp_all add: demo_directory_def)
  show ?thesis
    by (rule token_enrolls_at_most [OF demo_directory_ok t(1,2), unfolded t(3)]) (simp_all add: draws_other_def)
qed

text \<open>C36. The devices a user may reach are, once each and by id, exactly those some grant lets
  an enabled user's group at, each with the highest role any of these grants gives.\<close>

theorem reach_is_the_best_grant:
  assumes "database_ok d" and "reach E uid d = Inr rs"
  shows "sorted_wrt (<) (map re_id rs) \<and>
    (\<forall>x. x \<in> set rs \<longleftrightarrow>
       roles_on uid (re_id x) d \<noteq> {} \<and> re_role x = Max (roles_on uid (re_id x) d) \<and>
       (\<exists>v\<in>set (db_devices d). dr_id v = re_id x \<and> dr_fingerprint v = re_fingerprint x))"
proof -
  have rs: "rs = sort_key re_id (best_roles (reach_rows uid d))" using assms(2) by (simp add: reach_def split: if_splits)
  have "distinct (map re_id (best_roles (reach_rows uid d)))" by (simp add: best_roles_parsed distinct_noted)
  then have "distinct (map re_id rs)" by (simp add: rs distinct_map)
  then have sorted: "sorted_wrt (<) (map re_id rs)" by (simp add: rs strict_sorted_iff)
  have "re_fingerprint x = key_of d (re_id x) \<longleftrightarrow> (\<exists>v\<in>set (db_devices d). dr_id v = re_id x \<and> dr_fingerprint v = re_fingerprint x)"
    if "roles_on uid (re_id x) d \<noteq> {}" for x
  proof -
    from that obtain w where "w \<in> ways d" "w_device w = re_id x" by (auto simp: roles_on_def)
    then obtain v where v: "v \<in> set (db_devices d)" "dr_id v = re_id x" using way_device by metis
    then show ?thesis using key_of_device [OF assms(1)] by metis
  qed
  then show ?thesis using sorted best_roles_member [OF assms(1)] by (auto simp: rs)
qed

theorem reach_is_the_best_grant_witness:
  "roles_on 1 1 demo_directory \<noteq> {} \<and> Max (roles_on 1 1 demo_directory) = Full"
  using conjunct2 [OF reach_is_the_best_grant [OF demo_directory_ok demo_reached], THEN spec,
      of "\<lparr>re_id = 1, re_fingerprint = demo_fp, re_role = Full\<rparr>"] by simp

text \<open>C37. What is taken away is exactly what is lost: leaving a group, deleting a grant, a
  group of users, a group of devices, a device or a user, taking a device out of its group
  and disabling a user end the ways from users to devices that led through it, and no other.\<close>

theorem revocation_is_exact:
  "(remove_member E g uid d = (Inr x1, d1) \<longrightarrow> ways d1 = {w \<in> ways d. \<not> (w_user w = uid \<and> w_group w = g)}) \<and>
    (delete_grant E i d = (Inr (), d2) \<longrightarrow> ways d2 = {w \<in> ways d. w_rule w \<noteq> i}) \<and>
    (delete_user_group E g d = (Inr (), d3) \<longrightarrow> ways d3 = {w \<in> ways d. w_group w \<noteq> g}) \<and>
    (delete_device_group E g d = (Inr (), d4) \<longrightarrow> ways d4 = {w \<in> ways d. w_device_group w \<noteq> g}) \<and>
    (delete_device E i d = (Inr (), d5) \<longrightarrow> ways d5 = {w \<in> ways d. w_device w \<noteq> i}) \<and>
    (update_device E i None (Some None) d = (Inr x6, d6) \<longrightarrow> ways d6 = {w \<in> ways d. w_device w \<noteq> i}) \<and>
    (delete_account E uid d = (Inr (), d7) \<longrightarrow> ways d7 = {w \<in> ways d. w_user w \<noteq> uid}) \<and>
    (update_user E uid None (Some True) (db_accounts d) = (Inr x8, a8) \<longrightarrow>
       ways (d\<lparr>db_accounts := a8\<rparr>) = {w \<in> ways d. w_user w \<noteq> uid})"
proof (intro conjI impI)
  assume "remove_member E g uid d = (Inr x1, d1)"
  then have "d1 = d\<lparr>db_members := filter (\<lambda>m. m \<noteq> (g, uid)) (db_members d)\<rparr>"
    by (auto simp: remove_member_def Let_def split: if_splits)
  then show "ways d1 = {w \<in> ways d. \<not> (w_user w = uid \<and> w_group w = g)}" by (auto simp: way_iff)
next
  assume "delete_grant E i d = (Inr (), d2)"
  then have "d2 = d\<lparr>db_rules := filter (\<lambda>r. rr_id r \<noteq> i) (db_rules d)\<rparr>"
    by (auto simp: delete_grant_def split: if_splits)
  then show "ways d2 = {w \<in> ways d. w_rule w \<noteq> i}" by (auto simp: way_iff)
next
  assume "delete_user_group E g d = (Inr (), d3)"
  then show "ways d3 = {w \<in> ways d. w_group w \<noteq> g}"
    by (auto simp: delete_user_group_def way_iff split: if_splits)
next
  assume "delete_device_group E g d = (Inr (), d4)"
  then show "ways d4 = {w \<in> ways d. w_device_group w \<noteq> g}"
    by (auto simp: delete_device_group_def way_iff split: if_splits)
next
  assume "delete_device E i d = (Inr (), d5)"
  then show "ways d5 = {w \<in> ways d. w_device w \<noteq> i}"
    by (auto simp: delete_device_def way_iff split: if_splits)
next
  assume "update_device E i None (Some None) d = (Inr x6, d6)"
  then have "d6 = set_device i (\<lambda>r. r\<lparr>dr_group_id := None\<rparr>) d"
    by (auto simp: update_device_def Let_def split: if_splits sum.splits)
  then show "ways d6 = {w \<in> ways d. w_device w \<noteq> i}"
    by (auto simp: set_device_def way_iff split: if_splits)
next
  assume del: "delete_account E uid d = (Inr (), d7)"
  obtain res a where eq: "delete_user E uid (db_accounts d) = (res, a)" by (rule prod.exhaust)
  then show "ways d7 = {w \<in> ways d. w_user w \<noteq> uid}"
    by (cases rule: delete_user_cases) (use del eq in \<open>auto simp: delete_account_def way_iff\<close>)
next
  assume up: "update_user E uid None (Some True) (db_accounts d) = (Inr x8, a8)"
  then have rows: "user_rows a8 = upd uid (\<lambda>u. u\<lparr>ur_disabled := True\<rparr>) (user_rows (db_accounts d))"
    by (auto simp: update_user_def update_user_write_def Let_def split: sum.splits if_splits)
  show "ways (d\<lparr>db_accounts := a8\<rparr>) = {w \<in> ways d. w_user w \<noteq> uid}"
    by (auto simp: way_iff rows split: if_splits)
qed

lemma demo_deleted: "delete_grant (demo_env_at 300 1) 2 demo_directory =
    (Inr (), demo_directory\<lparr>db_rules := filter (\<lambda>r. rr_id r \<noteq> 2) (db_rules demo_directory)\<rparr>)"
  by (simp add: delete_grant_def demo_env_at_def demo_directory_def)

theorem revocation_is_exact_witness:
  "ways (demo_directory\<lparr>db_rules := filter (\<lambda>r. rr_id r \<noteq> 2) (db_rules demo_directory)\<rparr>) =
     {w \<in> ways demo_directory. w_rule w \<noteq> 2}"
  by (rule revocation_is_exact [THEN conjunct2, THEN conjunct1, THEN mp, OF demo_deleted])

text \<open>A new user reaches nothing, although their id may be one that was used before.\<close>

theorem new_user_reaches_nothing:
  assumes "database_ok d" and "create_user C E name password admin (db_accounts d) = (Inr u, a)"
    and "reach E' (us_id u) (d\<lparr>db_accounts := a\<rparr>) = Inr rs"
  shows "rs = []"
proof -
  have "us_id u \<notin> set (user_ids d)"
    using assms(2) next_id_fresh [of "user_ids d"]
    by (auto simp: create_user_def Let_def new_row_def the_user_def get_user_def user_ids_def user_of_def
        dest!: row_of_member split: sum.splits option.splits if_splits)
  moreover have "u' \<in> set (user_ids d)" if "(g, u') \<in> set (db_members d)" for g u'
    using assms(1) that by (auto simp: database_ok_def refs_hold_def)
  ultimately have "filter (\<lambda>(g, m). m = us_id u) (db_members d) = []" by (auto simp: filter_empty_conv)
  then have "reach_rows (us_id u) (d\<lparr>db_accounts := a\<rparr>) = []"
    by (simp add: reach_rows_def split: option.split)
  then show ?thesis using assms(3) by (auto simp: reach_def best_roles_def split: if_splits)
qed

lemma demo_created:
  "\<exists>u a. create_user demo_accounts_crypto (demo_env_at 300 1) [67] (replicate 10 80) False (db_accounts demo_directory) = (Inr u, a)"
  by (simp add: create_user_def check_name_def check_password_def MIN_PASSWORD_def MAX_NAME_def trim_def is_control_def
      is_whitespace_def name_taken_def new_row_def next_id_def Let_def demo_directory_def demo_simps)

theorem new_user_reaches_nothing_witness:
  "\<exists>u a. create_user demo_accounts_crypto (demo_env_at 300 1) [67] (replicate 10 80) False (db_accounts demo_directory) = (Inr u, a) \<and>
     reach (demo_env_at 300 1) (us_id u) (demo_directory\<lparr>db_accounts := a\<rparr>) = Inr []"
proof -
  obtain u a where made: "create_user demo_accounts_crypto (demo_env_at 300 1) [67] (replicate 10 80) False
      (db_accounts demo_directory) = (Inr u, a)" using demo_created by blast
  obtain rs where rs: "reach (demo_env_at 300 1) (us_id u) (demo_directory\<lparr>db_accounts := a\<rparr>) = Inr rs"
    by (simp add: reach_def demo_env_at_def)
  from new_user_reaches_nothing [OF demo_directory_ok made rs] show ?thesis using made rs by blast
qed

end
