(* ===== verification/Introduction.thy ===== *)
theory Introduction
  imports Directory_Theorems
begin

text \<open>
  A managed connection from end to end: the viewer's API token, the user's grants, the
  introduction, the signed grant and the agent's check of it. The registry
  (\<open>Registry\<close>) runs on the accounts, devices and grants of the database (\<open>Accounts\<close>,
  \<open>Devices\<close>, \<open>Permissions\<close>) and the server's key, as \<open>crates/server/src/rendezvous.rs\<close>
  puts them together; the agent's side is \<open>Grants\<close>.
\<close>

subsection \<open>The registry over the database\<close>

text \<open>\<open>Access\<close>: each call has its own readings of the clock, failures and random bytes.\<close>

definition token_user :: "account_crypto \<Rightarrow> account_env \<Rightarrow> database \<Rightarrow> str \<Rightarrow> unit + user option" where
  "token_user C E d token =
     (case fst (Accounts.api_user C E token (db_accounts d)) of
        Inl _ \<Rightarrow> Inl ()
      | Inr u \<Rightarrow> Inr (map_option (\<lambda>a. \<lparr>u_id = us_id a, u_name = us_name a\<rparr>) u))"

definition grants_reach :: "account_env \<Rightarrow> database \<Rightarrow> int \<Rightarrow> unit + reachable list" where
  "grants_reach E d uid = (case reach E uid d of Inl _ \<Rightarrow> Inl () | Inr rs \<Rightarrow> Inr rs)"

definition server_access ::
  "account_crypto \<Rightarrow> 'e grant_crypto \<Rightarrow> account_env \<Rightarrow> account_env \<Rightarrow> account_env \<Rightarrow> identity \<Rightarrow> database \<Rightarrow> access" where
  "server_access C G E1 E2 E3 ident d =
     \<lparr>api_user = token_user C E1 d, reachable_by = grants_reach E2 d, issue = issue_grant G E3 ident\<rparr>"

text \<open>Whether the device list knows a key that registers: not if the list cannot be read.\<close>

definition known_enrolled :: "account_env \<Rightarrow> fingerprint \<Rightarrow> database \<Rightarrow> bool" where
  "known_enrolled E fp d = (case is_enrolled E fp d of None \<Rightarrow> False | Some b \<Rightarrow> b)"

text \<open>\<open>register\<close> with the device list: looked up before, noted as seen after it registered.\<close>

definition register_agent ::
  "account_env \<Rightarrow> account_env \<Rightarrow> fingerprint option \<Rightarrow> socket_addr list \<Rightarrow> socket_addr \<Rightarrow> registry \<Rightarrow> database
     \<Rightarrow> (from_server \<times> socket_addr option) \<times> registry \<times> database" where
  "register_agent E1 E2 fp addresses observed r d =
     (let enrolled = (case fp of None \<Rightarrow> False | Some key \<Rightarrow> known_enrolled E1 key d);
          (ans, r1) = register fp enrolled addresses observed r in
      (ans, r1,
       case (fp, fst ans) of
         (Some key, Registered _ _) \<Rightarrow> snd (seen E2 key observed d)
       | _ \<Rightarrow> d))"

text \<open>\<open>enroll\<close> with the device list.\<close>

definition enroll_agent ::
  "account_crypto \<Rightarrow> account_env \<Rightarrow> fingerprint option \<Rightarrow> enrollment \<Rightarrow> socket_addr \<Rightarrow> nat \<Rightarrow> registry \<Rightarrow> database
     \<Rightarrow> from_server \<times> registry \<times> database" where
  "enroll_agent C E fp en from_addr now r d =
     (case fp of
        None \<Rightarrow> (Refused NoCertificate, r, d)
      | Some key \<Rightarrow>
          let (ok, as) = attempt (sa_ip from_addr) now (attempts r); r1 = r\<lparr>attempts := as\<rparr> in
          if \<not> ok then (Refused TooManyAttempts, r1, d)
          else
            (case enroll_device C E key en from_addr d of
               (Inl _, d1) \<Rightarrow> (Refused Enrollment, r1, d1)
             | (Inr _, d1) \<Rightarrow> (Enrolled (from_fingerprint key), mark_enrolled key r1, d1)))"

text \<open>What an agent reports it runs, and its leaving.\<close>

definition leave_agent :: "account_env \<Rightarrow> device_id \<Rightarrow> u64 \<Rightarrow> fingerprint \<Rightarrow> socket_addr \<Rightarrow> registry \<Rightarrow> database \<Rightarrow> registry \<times> database" where
  "leave_agent E i registration key from_addr r d =
     (case agents r i of
        Some a \<Rightarrow>
          if ag_registration a = registration
          then (remove_agent i registration r, snd (seen E key from_addr d)) else (r, d)
      | None \<Rightarrow> (r, d))"

subsection \<open>Who a token stands for\<close>

lemma token_user_Some:
  assumes "token_user C E d token = Inr (Some u)"
  obtains r t where "row_of (u_id u) (db_accounts d) = Some r" "\<not> ur_disabled r" "u_name u = ur_name r"
    "t \<in> set (token_rows (db_accounts d))" "tr_user_id t = u_id u" "tr_token_hash t = hash_token C token"
    "case tr_expires_at t of None \<Rightarrow> True | Some e \<Rightarrow> ev_clock E 0 < e"
proof -
  let ?valid = "token_valid (hash_token C token) (ev_clock E 0) (db_accounts d)"
  obtain t where t: "find ?valid (token_rows (db_accounts d)) = Some t"
    "map_option (\<lambda>a. \<lparr>u_id = us_id a, u_name = us_name a\<rparr>) (map_option user_of (row_of (tr_user_id t) (db_accounts d))) = Some u"
    using assms
    by (cases "find ?valid (token_rows (db_accounts d))")
      (auto simp: token_user_def Accounts.api_user_def Let_def split: if_splits)
  then have "?valid t" "t \<in> set (token_rows (db_accounts d))" by (auto dest: find_SomeD)
  moreover obtain r where "row_of (tr_user_id t) (db_accounts d) = Some r" "u_id u = us_id (user_of r)" "u_name u = us_name (user_of r)"
    using t(2) by auto
  ultimately show ?thesis using that row_of_member by (fastforce simp: token_valid_def user_of_def)
qed

subsection \<open>From the grant to the agent\<close>

lemma issue_time_unat: "now < 2 ^ 63 \<Longrightarrow> unat (issue_time now) < 2 ^ 63"
proof -
  assume "now < 2 ^ 63"
  then have "nat (max now 0) < 2 ^ 63" by simp
  moreover have "unat (word_of_nat n :: u64) < 2 ^ 63" if "n < 2 ^ 63" for n :: nat
    using that by (simp add: unat_of_nat take_bit_eq_mod)
  moreover have "issue_time now = word_of_nat (nat (max now 0))" by (simp add: issue_time_def word_of_nat_eq_iff)
  ultimately show ?thesis by metis
qed

lemma unat_expires: "now < 2 ^ 63 \<Longrightarrow> unat (issue_time now + LIFETIME_SECS) = unat (issue_time now) + 300"
  using issue_time_unat [of now] by (simp add: LIFETIME_SECS_def unat_word_ariths)

lemma issue_grant_Inr:
  assumes "issue_grant G E ident device name = Inr sg" and "ev_random E 0 = Some nonce"
  shows "sign_grant G ident \<lparr>g_device = re_fingerprint device, g_user = name, g_role = re_role device,
     g_issued_at = issue_time (ev_clock E 0), g_expires_at = issue_time (ev_clock E 0) + LIFETIME_SECS,
     g_nonce = nonce\<rparr> = Inr sg"
  using assms by (auto simp: issue_grant_def Let_def split: sum.splits)

lemma arranged_grant:
  assumes "arrange (Some A) answers now observed i addresses (Some token) r = (Inr intro, r')"
  obtains u rs device sg where "api_user A token = Inr (Some u)" "reachable_by A (u_id u) = Inr rs" "device \<in> set rs"
    "from_fingerprint (re_fingerprint device) = i" "ag_fingerprint (in_agent intro) = re_fingerprint device"
    "issue A device (u_name u) = Inr sg" "in_grant intro = Some (u_name u, sg)"
proof -
  have "fst (arrange (Some A) answers now observed i addresses (Some token) r) = Inr intro" by (simp add: assms)
  then obtain a name sg where au: "authorize (Some A) token i r = Inr (a, name, sg)"
    and intro: "in_agent intro = a" "in_grant intro = Some (name, sg)"
    by (auto simp: arrange_with_token split: if_splits sum.splits)
  from authorize_grants [OF au] obtain u rs device where "api_user A token = Inr (Some u)"
    "reachable_by A (u_id u) = Inr rs" "device \<in> set rs" "from_fingerprint (re_fingerprint device) = i"
    "ag_fingerprint a = re_fingerprint device" "issue A device (u_name u) = Inr sg" by auto
  moreover have "name = u_name u" using au calculation(1) by (auto simp: authorize_def split: sum.splits option.splits if_splits)
  ultimately show ?thesis using that intro by blast
qed

lemma granted_is_accepted:
  assumes "verify G sg (gs_server gs) = Inr g" and "g_device g = gs_device gs" and "gs_seen gs (g_nonce g) = None"
    and "g_issued_at g = issue_time now" and "g_expires_at g = issue_time now + LIFETIME_SECS" and "now < 2 ^ 63"
    and "unat (issue_time now) \<le> unat t" and "unat t \<le> unat (issue_time now) + 300"
  shows "fst (check_at G sg t gs) = Inr g"
proof -
  note small = issue_time_unat [OF assms(6)] unat_expires [OF assms(6)]
  have "unat (g_expires_at g + CLOCK_SKEW_SECS) = unat (issue_time now) + 300 + 120"
    "unat (t + CLOCK_SKEW_SECS) = unat t + 120"
    using small assms(5,8) by (simp_all add: CLOCK_SKEW_SECS_def unat_word_ariths)
  then have "\<exists>gs'. check_at G sg t gs = (Inr g, gs')"
    unfolding check_at_accepts using assms by (simp add: word_le_nat_alt retain_def)
  then show ?thesis by auto
qed

lemma reach_member:
  assumes "database_ok d" and "grants_reach E d uid = Inr rs" and "x \<in> set rs"
  shows "roles_on uid (re_id x) d \<noteq> {} \<and> re_role x = Max (roles_on uid (re_id x) d) \<and>
    (\<exists>v\<in>set (db_devices d). dr_id v = re_id x \<and> dr_fingerprint v = re_fingerprint x)"
proof -
  have "x \<in> set (best_roles (reach_rows uid d))"
    using assms(2,3) by (auto simp: grants_reach_def reach_def split: if_splits)
  then have x: "roles_on uid (re_id x) d \<noteq> {}" "re_fingerprint x = key_of d (re_id x)" "re_role x = Max (roles_on uid (re_id x) d)"
    using best_roles_member [OF assms(1)] by auto
  then obtain w where "w \<in> ways d" "w_device w = re_id x" by (auto simp: roles_on_def)
  then obtain v where "v \<in> set (db_devices d)" "dr_id v = re_id x" using way_device by metis
  then show ?thesis using x key_of_device [OF assms(1)] by metis
qed

subsection \<open>From enrolling to registering\<close>

lemma upserted_key: "fp \<in> dr_fingerprint ` set (snd (upsert_device fp name gid os version at seen_at addr rows))"
proof (cases "fp \<in> dr_fingerprint ` set rows")
  case True
  then have "map dr_fingerprint (snd (upsert_device fp name gid os version at seen_at addr rows)) = map dr_fingerprint rows"
    by (simp add: snd_upsert_device)
  then show ?thesis using True by (metis list.set_map)
next
  case False
  then show ?thesis by (simp add: snd_upsert_device)
qed

lemma enrolled_is_known:
  assumes "enroll_device C E key en a d = (Inr v, d1)"
  shows "key \<in> dr_fingerprint ` set (db_devices d1)"
  using assms upserted_key
  by (auto simp: enroll_device_def Let_def split_def split: option.splits if_splits)

lemma known_enrolled_iff: "\<not> ev_fails E 0 \<Longrightarrow> known_enrolled E key d \<longleftrightarrow> key \<in> dr_fingerprint ` set (db_devices d)"
  by (auto simp: known_enrolled_def is_enrolled_def find_None_iff image_iff)

lemma enroll_agent_Enrolled:
  assumes "enroll_agent C E fp en a now r d = (Enrolled i, r1, d1)"
  obtains key v as where "fp = Some key" "i = from_fingerprint key" "enroll_device C E key en a d = (Inr v, d1)"
    "r1 = mark_enrolled key (r\<lparr>attempts := as\<rparr>)"
  using assms by (auto simp: enroll_agent_def Let_def split: option.splits prod.splits if_splits sum.splits)

lemma register_takes:
  assumes "\<forall>a. agents r (from_fingerprint key) = Some a \<longrightarrow> ag_fingerprint a = key \<or> \<not> ag_enrolled a"
  shows "\<exists>disp r'. register (Some key) True addresses observed r = ((Registered (from_fingerprint key) observed, disp), r') \<and>
    in_possession key r'"
  using assms
  by (auto simp: register_def Let_def claim_id_def in_possession_def split: option.split)

subsection \<open>Properties\<close>

text \<open>C38. A managed connection works, and only as the grants have it: a viewer that is
  introduced with a token holds an unexpired token of an enabled user and a grant in that
  user's name for the device with this ID, with the highest role the database gives them;
  and the agent it is introduced to accepts the grant, once, for its five minutes. Given that
  the server's signatures verify and the encoding reads back.\<close>

theorem introduced_viewer_is_accepted:
  assumes "database_ok d"
    and "arrange (Some (server_access C G E1 E2 E3 ident d)) answers now observed i addresses (Some token) r = (Inr intro, r')"
    and "ev_random E3 0 = Some nonce" and "ev_clock E3 0 < 2 ^ 63"
    and "\<forall>g b. gc_ser G g = Inr b \<longrightarrow> gc_de G b = Inr g"
    and "gc_key_pair G (id_key ident) = Inr sign" and "ed25519_key (id_cert ident) = Some key"
    and "\<forall>m. gc_verify G key m (sign m)"
    and "gs_server gs = fingerprint_of (gc_sha G) (id_cert ident)"
    and "gs_device gs = ag_fingerprint (in_agent intro)" and "gs_seen gs nonce = None"
    and "unat (issue_time (ev_clock E3 0)) \<le> unat t" and "unat t \<le> unat (issue_time (ev_clock E3 0)) + 300"
  shows "\<exists>u\<in>set (user_rows (db_accounts d)). \<exists>tk\<in>set (token_rows (db_accounts d)). \<exists>v\<in>set (db_devices d). \<exists>sg g.
    \<not> ur_disabled u \<and> tr_user_id tk = ur_id u \<and> tr_token_hash tk = hash_token C token \<and>
    (case tr_expires_at tk of None \<Rightarrow> True | Some e \<Rightarrow> ev_clock E1 0 < e) \<and>
    in_grant intro = Some (ur_name u, sg) \<and> fst (check_at G sg t gs) = Inr g \<and>
    g_user g = ur_name u \<and> g_device g = dr_fingerprint v \<and> from_fingerprint (dr_fingerprint v) = i \<and>
    roles_on (ur_id u) (dr_id v) d \<noteq> {} \<and> g_role g = Max (roles_on (ur_id u) (dr_id v) d)"
proof -
  obtain us rs device sg where a: "token_user C E1 d token = Inr (Some us)" "grants_reach E2 d (u_id us) = Inr rs"
    "device \<in> set rs" "from_fingerprint (re_fingerprint device) = i" "ag_fingerprint (in_agent intro) = re_fingerprint device"
    "issue_grant G E3 ident device (u_name us) = Inr sg" "in_grant intro = Some (u_name us, sg)"
    by (rule arranged_grant [OF assms(2)]) (auto simp: server_access_def)
  obtain u tk where u: "row_of (u_id us) (db_accounts d) = Some u" "\<not> ur_disabled u" "u_name us = ur_name u"
    and tk: "tk \<in> set (token_rows (db_accounts d))" "tr_user_id tk = u_id us" "tr_token_hash tk = hash_token C token"
      "case tr_expires_at tk of None \<Rightarrow> True | Some e \<Rightarrow> ev_clock E1 0 < e"
    by (rule token_user_Some [OF a(1)])
  from row_of_member [OF u(1)] have mem: "u \<in> set (user_rows (db_accounts d))" "ur_id u = u_id us" by simp_all
  from reach_member [OF assms(1) a(2,3)] obtain v where role: "roles_on (u_id us) (re_id device) d \<noteq> {}"
      "re_role device = Max (roles_on (u_id us) (re_id device) d)"
    and v: "v \<in> set (db_devices d)" "dr_id v = re_id device" "dr_fingerprint v = re_fingerprint device" by blast
  let ?g = "\<lparr>g_device = re_fingerprint device, g_user = u_name us, g_role = re_role device,
     g_issued_at = issue_time (ev_clock E3 0), g_expires_at = issue_time (ev_clock E3 0) + LIFETIME_SECS, g_nonce = nonce\<rparr>"
  have "verify G sg (gs_server gs) = Inr ?g"
    using signed_grant_verifies [OF issue_grant_Inr [OF a(6) assms(3)] _ assms(6,7)] assms(5,8,9) by simp
  then have "fst (check_at G sg t gs) = Inr ?g"
    by (rule granted_is_accepted [OF _ _ _ _ _ assms(4,12,13)]) (simp_all add: assms(10,11) a(5))
  moreover have "g_user ?g = ur_name u" "g_device ?g = dr_fingerprint v" "from_fingerprint (dr_fingerprint v) = i"
    "g_role ?g = Max (roles_on (ur_id u) (dr_id v) d)" "roles_on (ur_id u) (dr_id v) d \<noteq> {}"
    "in_grant intro = Some (ur_name u, sg)" "tr_user_id tk = ur_id u"
    using a(4,7) u(3) v(2,3) role mem(2) tk(2) by simp_all
  ultimately show ?thesis using mem(1) u(2) tk(1,3,4) v(1) by blast
qed

text \<open>A device that enrolls is managed from then on: when its agent registers it gets its
  ID, from a stranger as well, unless another managed device holds it, and it is marked as
  managed, so that the ID stays its own.\<close>

theorem enrolled_device_gets_its_id:
  assumes "enroll_agent C E fp en a now r d = (Enrolled i, r1, d1)" and "\<not> ev_fails E1 0"
    and "\<forall>x. agents r i = Some x \<longrightarrow> fp = Some (ag_fingerprint x) \<or> \<not> ag_enrolled x"
  shows "\<exists>key disp r2 d2. fp = Some key \<and> i = from_fingerprint key \<and>
    register_agent E1 E2 fp addresses observed r1 d1 = ((Registered i observed, disp), r2, d2) \<and> in_possession key r2"
proof -
  obtain key v as where key: "fp = Some key" "i = from_fingerprint key" "enroll_device C E key en a d = (Inr v, d1)"
    "r1 = mark_enrolled key (r\<lparr>attempts := as\<rparr>)" by (rule enroll_agent_Enrolled [OF assms(1)])
  have known: "known_enrolled E1 key d1" using enrolled_is_known [OF key(3)] known_enrolled_iff [of E1 key d1] assms(2) by simp
  have "\<forall>x. agents r1 (from_fingerprint key) = Some x \<longrightarrow> ag_fingerprint x = key \<or> \<not> ag_enrolled x"
    using assms(3) key(1,2) by (auto simp: key(4) mark_enrolled_def split: option.splits if_splits)
  from register_takes [OF this, of addresses observed] known key(1,2) show ?thesis
    by (auto simp: register_agent_def)
qed

subsection \<open>Witnesses\<close>

text \<open>User 2 has a token and the device is connected; the server's key pair signs with the
  message itself.\<close>

definition intro_directory :: database where
  "intro_directory = demo_directory\<lparr>db_accounts := demo_accounts\<lparr>token_rows :=
     [\<lparr>tr_id = 1, tr_user_id = 2, tr_name = [], tr_token_hash = utf8 (API_PREFIX @ [65]), tr_created_at = 0,
       tr_last_used_at = None, tr_expires_at = None\<rparr>]\<rparr>\<rparr>"

definition intro_grant :: grant where
  "intro_grant = \<lparr>g_device = demo_fp, g_user = [66], g_role = View, g_issued_at = 300, g_expires_at = 600, g_nonce = [1]\<rparr>"

definition intro_crypto :: "unit grant_crypto" where
  "intro_crypto = demo_grant_crypto\<lparr>gc_ser := (\<lambda>g. if g = intro_grant then Inr [9] else Inl ()), gc_de := (\<lambda>b. Inr intro_grant)\<rparr>"

definition intro_identity :: identity where
  "intro_identity = \<lparr>id_cert = demo_cert, id_key = [], id_fingerprint = []\<rparr>"

definition intro_registry :: registry where
  "intro_registry = snd (register (Some demo_fp) True [] demo_addr registry_new)"

definition intro_env :: account_env where
  "intro_env = demo_env_at 300 1"

definition intro_access :: access where
  "intro_access = server_access demo_accounts_crypto intro_crypto intro_env intro_env intro_env intro_identity intro_directory"

definition intro_signed :: signed_grant where
  "intro_signed = \<lparr>sg_grant = [9], sg_signature = SIGNING_CONTEXT @ [9], sg_server_certificate = demo_cert\<rparr>"

definition intro_token :: str where
  "intro_token = API_PREFIX @ [65]"

lemma intro_directory_ok: "database_ok intro_directory"
proof -
  have "distinct (map ur_id (user_rows (db_accounts intro_directory)))"
    "set (user_ids demo_directory) \<subseteq> ur_id ` set (user_rows (db_accounts intro_directory))"
    by (simp_all add: intro_directory_def demo_directory_def demo_accounts_def demo_row_def user_ids_def)
  moreover have "intro_directory = demo_directory\<lparr>db_accounts := db_accounts intro_directory\<rparr>"
    by (simp add: intro_directory_def)
  ultimately show ?thesis
    using demo_directory_ok keys.accounts refs.accounts fits.accounts unfolding database_ok_def by metis
qed

lemma intro_user: "api_user intro_access intro_token = Inr (Some \<lparr>u_id = 2, u_name = [66]\<rparr>)"
  by (simp add: intro_access_def server_access_def token_user_def intro_token_def Accounts.api_user_def starts_with_def
      intro_env_def Let_def intro_directory_def token_valid_def demo_simps)

lemma intro_reach: "reachable_by intro_access 2 = Inr [\<lparr>re_id = 1, re_fingerprint = demo_fp, re_role = View\<rparr>]"
proof -
  have "reach_rows 2 intro_directory = [(1, demo_fp, role_as_str View)]"
    by (simp add: reach_rows_def intro_directory_def demo_directory_def demo_accounts_def demo_row_def row_of_def)
  then show ?thesis
    by (simp add: intro_access_def server_access_def grants_reach_def reach_def best_roles_def intro_env_def demo_env_at_def
        demo_fp_def del: role_as_str.simps)
qed

lemma intro_issue:
  "issue intro_access \<lparr>re_id = 1, re_fingerprint = demo_fp, re_role = View\<rparr> [66] = Inr intro_signed"
  by (simp add: intro_access_def server_access_def issue_grant_def intro_env_def demo_env_at_def issue_time_def LIFETIME_SECS_def
      Let_def sign_grant_def grant_to_bytes_def signed_bytes_def intro_crypto_def demo_grant_crypto_def intro_grant_def
      intro_identity_def intro_signed_def)

lemma intro_registered:
  "agents intro_registry = [from_fingerprint demo_fp \<mapsto> \<lparr>ag_fingerprint = demo_fp, ag_reported = [], ag_address = demo_addr,
     ag_registration = 0, ag_enrolled = True\<rparr>] \<and> attempts intro_registry = Map.empty"
  by (simp add: intro_registry_def register_def registry_new_def claim_id_def Let_def)

lemma intro_arranged:
  "\<exists>intro r'. arrange (Some intro_access) (\<lambda>_ _. True) 0 demo_addr (from_fingerprint demo_fp) [] (Some intro_token) intro_registry =
     (Inr intro, r') \<and> ag_fingerprint (in_agent intro) = demo_fp"
  by (simp add: arrange_def authorize_def attempt_def retain_def ATTEMPTS_def Let_def intro_user intro_reach intro_issue
      intro_registered)

theorem introduced_viewer_is_accepted_witness:
  "\<exists>u\<in>set (user_rows (db_accounts intro_directory)). \<exists>sg g.
     fst (check_at intro_crypto sg 400 (grants_new demo_cert demo_fp)) = Inr g \<and> g_user g = ur_name u \<and>
     g_role g = Max (roles_on (ur_id u) 1 intro_directory)"
proof -
  obtain intro r' where arr: "arrange (Some intro_access) (\<lambda>_ _. True) 0 demo_addr (from_fingerprint demo_fp) []
      (Some intro_token) intro_registry = (Inr intro, r')" and fp: "ag_fingerprint (in_agent intro) = demo_fp"
    using intro_arranged by blast
  have env: "ev_random intro_env 0 = Some [1]" "ev_clock intro_env 0 < 2 ^ 63"
    "unat (issue_time (ev_clock intro_env 0)) \<le> unat (400 :: u64)" "unat (400 :: u64) \<le> unat (issue_time (ev_clock intro_env 0)) + 300"
    by (simp_all add: intro_env_def demo_env_at_def issue_time_def)
  have crypto: "\<forall>g b. gc_ser intro_crypto g = Inr b \<longrightarrow> gc_de intro_crypto b = Inr g"
    "gc_key_pair intro_crypto (id_key intro_identity) = Inr (\<lambda>m. m)"
    "ed25519_key (id_cert intro_identity) = Some (replicate 32 1)" "\<forall>m. gc_verify intro_crypto (replicate 32 1) m m"
    "gs_server (grants_new demo_cert demo_fp) = fingerprint_of (gc_sha intro_crypto) (id_cert intro_identity)"
    by (simp_all add: intro_crypto_def intro_identity_def demo_key grants_new_def fingerprint_of_def)
      (simp_all add: demo_grant_crypto_def)
  have gs: "gs_device (grants_new demo_cert demo_fp) = ag_fingerprint (in_agent intro)"
    "gs_seen (grants_new demo_cert demo_fp) [1] = None" by (simp_all add: grants_new_def fp)
  have only: "v \<in> set (db_devices intro_directory) \<Longrightarrow> dr_id v = 1" for v
    by (simp add: intro_directory_def demo_directory_def)
  from introduced_viewer_is_accepted [OF intro_directory_ok arr [unfolded intro_access_def] env(1,2) crypto gs env(3,4)]
  show ?thesis using only by metis
qed

lemma demo_enrolls:
  "\<exists>r1 d1. enroll_agent demo_accounts_crypto intro_env (Some demo_fp)
     \<lparr>en_token = [84], en_name = [], en_os = [], en_version = []\<rparr> demo_addr 0 registry_new demo_directory =
     (Enrolled (from_fingerprint demo_fp), r1, d1)"
  by (simp add: enroll_agent_def attempt_def retain_def registry_new_def ATTEMPTS_def enroll_device_def token_good_def
      intro_env_def demo_env_at_def demo_accounts_crypto_def hash_token_def utf8_char_def demo_directory_def
      upsert_device_def get_device_def find_device_row_def group_ref_ok_def group_exists_def Let_def)

theorem enrolled_device_gets_its_id_witness:
  "\<exists>d1 r1 disp r2 d2. register_agent intro_env intro_env (Some demo_fp) [] demo_addr r1 d1 =
      ((Registered (from_fingerprint demo_fp) demo_addr, disp), r2, d2) \<and> in_possession demo_fp r2"
proof -
  obtain r1 d1 where made: "enroll_agent demo_accounts_crypto intro_env (Some demo_fp)
     \<lparr>en_token = [84], en_name = [], en_os = [], en_version = []\<rparr> demo_addr 0 registry_new demo_directory =
     (Enrolled (from_fingerprint demo_fp), r1, d1)" using demo_enrolls by blast
  have "\<not> ev_fails intro_env 0" by (simp add: intro_env_def demo_env_at_def)
  moreover have "\<forall>x. agents registry_new (from_fingerprint demo_fp) = Some x \<longrightarrow>
      Some demo_fp = Some (ag_fingerprint x) \<or> \<not> ag_enrolled x" by (simp add: registry_new_def)
  ultimately show ?thesis using enrolled_device_gets_its_id [OF made] by (metis option.inject)
qed

end
