(* ===== verification/Float64.thy ===== *)
theory Float64
  imports Prelude Complex_Main "HOL-Library.Log_Nat"
begin

text \<open>
  The \<open>f64\<close> arithmetic the rate control uses. Every value there is zero or a positive number
  far from the ends of the format's range, so a value is a rational, an operation is the exact
  one followed by rounding to 53 significant bits, ties to even, and there are no infinities,
  NaNs or subnormal numbers.

  The rate control needs little of it: rounding is monotone and leaves small integers alone.
  These are the laws of the locale \<open>rounding\<close>, interpreted on the rounding defined here.
\<close>

definition exponent :: "rat \<Rightarrow> int" where
  "exponent x =
     (let (n, d) = quotient_of x; k = int (floorlog 2 (nat n)) - int (floorlog 2 (nat d)) in
      if 2 powi k \<le> x then k else k - 1)"

definition round_even :: "rat \<Rightarrow> int" where
  "round_even x =
     (let f = \<lfloor>x\<rfloor>; r = x - of_int f in
      if r < 1 / 2 then f else if r > 1 / 2 then f + 1 else if even f then f else f + 1)"

definition fl :: "rat \<Rightarrow> rat" where
  "fl x =
     (if x \<le> 0 then 0
      else let e = exponent x - 52 in of_int (round_even (x / 2 powi e)) * 2 powi e)"

text \<open>\<open>as u32\<close>: towards zero, and to the nearest end of the range beyond it.\<close>

definition to_u32 :: "rat \<Rightarrow> u32" where
  "to_u32 x = word_of_int (min (2 ^ 32 - 1) (max 0 \<lfloor>x\<rfloor>))"

subsection \<open>Rounding to whole numbers\<close>

lemma round_even_of_int [simp]: "round_even (of_int n) = n"
  by (simp add: round_even_def)

lemma round_even_near: "\<lfloor>x\<rfloor> \<le> round_even x \<and> round_even x \<le> \<lfloor>x\<rfloor> + 1"
  by (simp add: round_even_def Let_def)

lemma round_even_mono:
  assumes "x \<le> y"
  shows "round_even x \<le> round_even y"
proof (cases "\<lfloor>x\<rfloor> = \<lfloor>y\<rfloor>")
  case True
  then show ?thesis using assms by (auto simp: round_even_def Let_def)
next
  case False
  then have "\<lfloor>x\<rfloor> + 1 \<le> \<lfloor>y\<rfloor>" using floor_mono [OF assms] by simp
  then show ?thesis using round_even_near [of x] round_even_near [of y] by simp
qed

lemma round_even_ge: "of_int n \<le> x \<Longrightarrow> n \<le> round_even x"
  using round_even_mono [of "of_int n" x] by simp

lemma round_even_le: "x \<le> of_int n \<Longrightarrow> round_even x \<le> n"
  using round_even_mono [of x "of_int n"] by simp

subsection \<open>The exponent\<close>

lemma floorlog_range:
  assumes "0 < n"
  shows "2 powi (int (floorlog 2 n) - 1) \<le> (of_nat n :: rat) \<and> (of_nat n :: rat) < 2 powi int (floorlog 2 n)"
proof -
  have b: "2 ^ (floorlog 2 n - 1) \<le> n" "n < 2 ^ floorlog 2 n" using floorlog_bounds [of n 2] assms by simp_all
  have "0 < floorlog 2 n" using assms floorlog_eq_zero_iff [of 2 n] by (cases "floorlog 2 n") simp_all
  then have e: "int (floorlog 2 n) - 1 = int (floorlog 2 n - 1)" by simp
  have "(of_nat (2 ^ (floorlog 2 n - 1)) :: rat) \<le> of_nat n" using b(1) by (simp only: of_nat_le_iff)
  moreover have "(of_nat n :: rat) < of_nat (2 ^ floorlog 2 n)" using b(2) by (simp only: of_nat_less_iff)
  ultimately show ?thesis unfolding e by simp
qed

lemma exponent_bounds:
  assumes "0 < x"
  shows "2 powi exponent x \<le> x \<and> x < 2 powi (exponent x + 1)"
proof -
  obtain n d where q: "quotient_of x = (n, d)" by (rule prod.exhaust)
  then have d: "0 < d" and x: "x = of_int n / of_int d"
    by (simp_all add: quotient_of_denom_pos quotient_of_div)
  then have n: "0 < n" using assms by (simp add: zero_less_divide_iff)
  let ?a = "int (floorlog 2 (nat n))" and ?b = "int (floorlog 2 (nat d))"
  have N: "2 powi (?a - 1) \<le> (of_int n :: rat)" "(of_int n :: rat) < 2 powi ?a"
    using floorlog_range [of "nat n"] n by simp_all
  have D: "2 powi (?b - 1) \<le> (of_int d :: rat)" "(of_int d :: rat) < 2 powi ?b" "(0 :: rat) < of_int d"
    using floorlog_range [of "nat d"] d by simp_all
  have "x < 2 powi ?a / 2 powi (?b - 1)"
    unfolding x using N(2) D n by (intro frac_less) (simp_all add: zero_less_power_int)
  also have "\<dots> = 2 powi (?a - (?b - 1))" by (rule power_int_diff [symmetric]) simp
  also have "?a - (?b - 1) = ?a - ?b + 1" by simp
  finally have hi: "x < 2 powi (?a - ?b + 1)" .
  have "?a - ?b - 1 = ?a - 1 - ?b" by simp
  moreover have "(2 :: rat) powi (?a - 1 - ?b) = 2 powi (?a - 1) / 2 powi ?b" by (rule power_int_diff) simp
  ultimately have "(2 :: rat) powi (?a - ?b - 1) = 2 powi (?a - 1) / 2 powi ?b" by metis
  also have "\<dots> \<le> x"
    unfolding x using N(1) D by (intro frac_le) (simp_all add: zero_le_power_int less_imp_le n)
  finally have lo: "2 powi (?a - ?b - 1) \<le> x" .
  show ?thesis using hi lo by (auto simp: exponent_def q Let_def not_le)
qed

lemma powi_mono: "m \<le> n \<Longrightarrow> 2 powi m \<le> (2 :: rat) powi n"
  by (rule power_int_increasing) simp_all

lemma powi_less: "(2 :: rat) powi m < 2 powi n \<Longrightarrow> m < n"
  using powi_mono [of n m] by (cases "n \<le> m") auto

lemma exponent_mono:
  assumes "0 < x" and "x \<le> y"
  shows "exponent x \<le> exponent y"
proof -
  have "(2 :: rat) powi exponent x < 2 powi (exponent y + 1)"
    using exponent_bounds [of x] exponent_bounds [of y] assms by linarith
  then show ?thesis using powi_less by fastforce
qed

subsection \<open>Rounding\<close>

lemma scaled_bounds:
  assumes "0 < x"
  shows "2 ^ 52 \<le> x / 2 powi (exponent x - 52) \<and> x / 2 powi (exponent x - 52) \<le> 2 ^ 53"
proof -
  let ?e = "exponent x - 52"
  have p: "(0 :: rat) < 2 powi ?e" by (simp add: zero_less_power_int)
  have "(2 :: rat) powi (52 + ?e) = 2 powi 52 * 2 powi ?e" "(2 :: rat) powi (53 + ?e) = 2 powi 53 * 2 powi ?e"
    by (rule power_int_add, simp)+
  moreover have "52 + ?e = exponent x" "53 + ?e = exponent x + 1" by simp_all
  ultimately have "(2 :: rat) powi exponent x = 2 ^ 52 * 2 powi ?e" "(2 :: rat) powi (exponent x + 1) = 2 ^ 53 * 2 powi ?e"
    by (simp_all only: power_int_numeral)
  then show ?thesis using exponent_bounds [OF assms] p by (simp add: pos_le_divide_eq pos_divide_le_eq)
qed

lemma fl_range:
  assumes "0 < x"
  shows "2 powi exponent x \<le> fl x \<and> fl x \<le> 2 powi (exponent x + 1)"
proof -
  let ?e = "exponent x - 52" and ?m = "round_even (x / 2 powi (exponent x - 52))"
  have p: "(0 :: rat) < 2 powi ?e" by (simp add: zero_less_power_int)
  have "2 ^ 52 \<le> ?m" "?m \<le> 2 ^ 53"
    using scaled_bounds [OF assms] by (auto intro!: round_even_ge round_even_le)
  then have "(2 ^ 52 :: rat) \<le> of_int ?m" "of_int ?m \<le> (2 ^ 53 :: rat)"
    by (simp_all add: of_int_le_numeral_power_cancel_iff)
  then have "2 ^ 52 * 2 powi ?e \<le> of_int ?m * (2 powi ?e :: rat)" "of_int ?m * (2 powi ?e :: rat) \<le> 2 ^ 53 * 2 powi ?e"
    using p by (simp_all add: mult_right_mono)
  moreover have "(2 :: rat) powi (52 + ?e) = 2 powi 52 * 2 powi ?e" "(2 :: rat) powi (53 + ?e) = 2 powi 53 * 2 powi ?e"
    by (rule power_int_add, simp)+
  moreover have "52 + ?e = exponent x" "53 + ?e = exponent x + 1" by simp_all
  ultimately show ?thesis using assms by (simp add: fl_def Let_def)
qed

lemma fl_nonneg [simp]: "0 \<le> fl x"
proof (cases "0 < x")
  case True
  have "(0 :: rat) < 2 powi exponent x" by (simp add: zero_less_power_int)
  then show ?thesis using fl_range [OF True] by linarith
qed (simp add: fl_def)

lemma fl_mono:
  assumes "x \<le> y"
  shows "fl x \<le> fl y"
proof (cases "0 < x")
  case True
  then have y: "0 < y" using assms by simp
  show ?thesis
  proof (cases "exponent x = exponent y")
    case True
    have "round_even (x / 2 powi (exponent x - 52)) \<le> round_even (y / 2 powi (exponent x - 52))"
      using assms by (intro round_even_mono divide_right_mono) (simp_all add: zero_le_power_int)
    then show ?thesis using \<open>0 < x\<close> y True
      by (simp add: fl_def Let_def mult_right_mono zero_le_power_int)
  next
    case False
    then have "exponent x + 1 \<le> exponent y" using exponent_mono [OF True assms] by simp
    then show ?thesis using fl_range [OF True] fl_range [OF y] powi_mono [of "exponent x + 1" "exponent y"] by linarith
  qed
qed (simp add: fl_def [of x])

lemma fl_of_nat:
  assumes "n < 2 ^ 53"
  shows "fl (of_nat n) = of_nat n"
proof (cases "n = 0")
  case False
  let ?x = "of_nat n :: rat"
  have x: "0 < ?x" using False by simp
  have "2 powi exponent ?x \<le> ?x" using exponent_bounds [OF x] by simp
  also have "?x < of_nat (2 ^ 53)" using assms by (simp only: of_nat_less_iff)
  also have "(of_nat (2 ^ 53) :: rat) = 2 powi 53" by simp
  finally have "exponent ?x < 53" by (rule powi_less)
  then have "exponent ?x - 52 = - int (nat (52 - exponent ?x))" by simp
  then obtain k where k: "exponent ?x - 52 = - int k" by blast
  have "?x / 2 powi (- int k) = of_int (int n * 2 ^ k)" by (simp add: power_int_minus divide_inverse)
  then have "round_even (?x / 2 powi (- int k)) = int n * 2 ^ k" by (simp only: round_even_of_int)
  then show ?thesis using x by (simp add: fl_def Let_def k power_int_minus)
qed (simp add: fl_def)

subsection \<open>What the rate control relies on\<close>

locale rounding =
  fixes rd :: "rat \<Rightarrow> rat"
  assumes mono: "x \<le> y \<Longrightarrow> rd x \<le> rd y"
    and exact: "n < 2 ^ 53 \<Longrightarrow> rd (of_nat n) = of_nat n"
begin

lemma rd_le_of_nat: "x \<le> of_nat n \<Longrightarrow> n < 2 ^ 53 \<Longrightarrow> rd x \<le> of_nat n"
  using mono [of x "of_nat n"] exact by simp

lemma rd_ge_of_nat: "of_nat n \<le> x \<Longrightarrow> n < 2 ^ 53 \<Longrightarrow> of_nat n \<le> rd x"
  using mono [of "of_nat n" x] exact by simp

lemma scaled_down:
  assumes "c \<le> 1" and "n < 2 ^ 53"
  shows "rd (of_nat n * rd c) \<le> of_nat n"
proof -
  have "rd c \<le> 1" using rd_le_of_nat [of c 1] assms(1) by simp
  then have "of_nat n * rd c \<le> of_nat n" by (simp add: mult_left_le)
  then show ?thesis using assms(2) by (rule rd_le_of_nat)
qed

lemma scaled_up:
  assumes "1 \<le> c" and "n < 2 ^ 53"
  shows "of_nat n \<le> rd (of_nat n * rd c)"
proof -
  have "1 \<le> rd c" using rd_ge_of_nat [of 1 c] assms(1) by simp
  then have "of_nat n * 1 \<le> of_nat n * rd c" by (intro mult_left_mono) simp_all
  then show ?thesis using assms(2) by (intro rd_ge_of_nat) simp_all
qed

end

interpretation f64: rounding fl
  by unfold_locales (simp_all add: fl_mono fl_of_nat)

end
