(* ===== verification/Rate.thy ===== *)
theory Rate
  imports Float64
begin

text \<open>
  Adaptive bitrate (\<open>crates/agent/src/rate.rs\<close>): how much video the link can take, decided
  anew from each sample. Durations are in nanoseconds; \<open>f64\<close> is rounded rationals; \<open>u32\<close> and
  \<open>u64\<close> wrap as they do in a release build.
\<close>

definition INTERVAL :: nat where "INTERVAL = 500 * 1000000"
definition FLOOR_KBPS :: u32 where "FLOOR_KBPS = 300"
definition MIN_FPS :: u8 where "MIN_FPS = 5"
definition BITS_PER_PIXEL :: rat where "BITS_PER_PIXEL = fl (4 / 100)"
definition STARVED_USE :: rat where "STARVED_USE = fl (9 / 10)"
definition ROOMY_USE :: rat where "ROOMY_USE = fl (6 / 10)"
definition QUEUE_MARGIN :: nat where "QUEUE_MARGIN = 25 * 1000000"
definition LOSS_OVERUSE :: rat where "LOSS_OVERUSE = fl (10 / 100)"
definition LOSS_HOLD :: rat where "LOSS_HOLD = fl (2 / 100)"
definition USED_TO_PROBE :: rat where "USED_TO_PROBE = fl (5 / 10)"
definition CALM_TO_PROBE :: u32 where "CALM_TO_PROBE = 2"
definition BACKLOG_OVERUSE_MS :: u64 where "BACKLOG_OVERUSE_MS = 100"
definition BACKPRESSURE_MS :: u64 where "BACKPRESSURE_MS = 150"
definition BACKPRESSURE_MIN_BYTES :: u64 where "BACKPRESSURE_MIN_BYTES = 64 * 1024"
definition BASELINE_SAMPLES :: nat where "BASELINE_SAMPLES = 20"
definition SETTLE_AFTER_BACKOFF :: u32 where "SETTLE_AFTER_BACKOFF = 2"
definition REMEMBER_OVERUSE :: u32 where "REMEMBER_OVERUSE = 20"

record rate_sample =
  sm_rtt :: nat
  sm_sent_packets :: u64
  sm_lost_packets :: u64
  sm_sent_bytes :: u64
  sm_backlog_bytes :: u64

definition backlog_limit :: "u32 \<Rightarrow> u64" where
  "backlog_limit target_kbps = max (ucast target_kbps * BACKPRESSURE_MS div 8) BACKPRESSURE_MIN_BYTES"

record quality =
  bitrate_kbps :: u32
  qu_fps :: u8

datatype rate_verdict = Overuse | Hold | Underuse

record reading =
  rd_verdict :: rate_verdict
  rd_loss :: rat
  rd_queue :: nat
  rd_backlog_ms :: u64

record controller =
  ct_ceiling :: quality
  ct_pixels :: u64
  ct_target :: u32
  ct_fps :: u8
  ct_calm :: u32
  ct_settling :: u32
  ct_recent_rtt :: "nat list"
  ct_last_overuse :: "u32 option"
  ct_last_reading :: "reading option"
  ct_previous :: "rate_sample option"
  ct_applied :: quality

definition rate_quality :: "controller \<Rightarrow> quality" where
  "rate_quality c =
     \<lparr>bitrate_kbps = ct_target c, qu_fps = clamp (ct_fps c) MIN_FPS (max (qu_fps (ct_ceiling c)) MIN_FPS)\<rparr>"

definition rate_new :: "quality \<Rightarrow> u32 \<Rightarrow> u16 \<Rightarrow> u16 \<Rightarrow> controller" where
  "rate_new ceil start_kbps width height =
     (let c = \<lparr>ct_ceiling = ceil, ct_pixels = ucast width * ucast height,
               ct_target = clamp start_kbps FLOOR_KBPS (max (bitrate_kbps ceil) FLOOR_KBPS),
               ct_fps = qu_fps ceil, ct_calm = 0, ct_settling = 0, ct_recent_rtt = [], ct_last_overuse = None,
               ct_last_reading = None, ct_previous = None, ct_applied = ceil\<rparr> in
      c\<lparr>ct_applied := rate_quality c\<rparr>)"

definition baseline_rtt :: "controller \<Rightarrow> nat" where
  "baseline_rtt c = (case reduce min (ct_recent_rtt c) of None \<Rightarrow> 0 | Some m \<Rightarrow> m)"

definition abs_diff :: "u32 \<Rightarrow> u32 \<Rightarrow> u32" where
  "abs_diff a b = (if a < b then b - a else a - b)"

definition rate_apply :: "controller \<Rightarrow> quality option \<times> controller" where
  "rate_apply c =
     (let new = rate_quality c; old = ct_applied c;
          moved = qu_fps new \<noteq> qu_fps old \<or> abs_diff (bitrate_kbps new) (bitrate_kbps old) * 20 > bitrate_kbps old in
      if moved then (Some new, c\<lparr>ct_applied := new\<rparr>) else (None, c))"

definition set_ceiling :: "quality \<Rightarrow> controller \<Rightarrow> quality option \<times> controller" where
  "set_ceiling ceil c =
     rate_apply (c\<lparr>ct_ceiling := ceil, ct_fps := min (ct_fps c) (qu_fps ceil),
       ct_target := clamp (ct_target c) FLOOR_KBPS (max (bitrate_kbps ceil) FLOOR_KBPS)\<rparr>)"

definition adapt_fps :: "rat \<Rightarrow> controller \<Rightarrow> controller" where
  "adapt_fps used c =
     (let frame_bits = fl (fl (of_nat (unat (ct_target c)) * 1000) / of_nat (unat (max (ct_fps c) 1)));
          sharp_bits = fl (fl (of_nat (unat (max (ct_pixels c) 1))) * BITS_PER_PIXEL);
          fps = (if used \<ge> STARVED_USE \<and> frame_bits < sharp_bits then ucast ((ucast (ct_fps c) :: u32) * 4 div 5)
                 else if used \<le> ROOMY_USE then ucast (min ((ucast (ct_fps c) :: u32) * 5 div 4 + 1) 255)
                 else ct_fps c) in
      c\<lparr>ct_fps := clamp fps MIN_FPS (max (qu_fps (ct_ceiling c)) MIN_FPS)\<rparr>)"

definition share :: "u64 \<Rightarrow> u64 \<Rightarrow> rat" where
  "share part whole = (if whole = 0 then 0 else fl (fl (of_nat (unat part)) / fl (of_nat (unat whole))))"

definition read_interval :: "rate_sample \<Rightarrow> rate_sample \<Rightarrow> u32 \<Rightarrow> nat \<Rightarrow> reading" where
  "read_interval previous now target_kbps baseline =
     (let loss = share (saturating_sub (sm_lost_packets now) (sm_lost_packets previous))
                       (saturating_sub (sm_sent_packets now) (sm_sent_packets previous));
          backlog_ms = sm_backlog_bytes now * 8 div ucast (max target_kbps 1);
          backlog_growing = (sm_backlog_bytes now \<ge> sm_backlog_bytes previous);
          queue = sm_rtt now - baseline;
          margin = max QUEUE_MARGIN (baseline div 2);
          draining = (sm_rtt now < sm_rtt previous);
          verdict =
            (if backlog_ms > BACKLOG_OVERUSE_MS then (if backlog_growing then Overuse else Hold)
             else if (queue > margin \<and> \<not> draining) \<or> loss > LOSS_OVERUSE then Overuse
             else if queue > margin div 2 \<or> loss > LOSS_HOLD then Hold
             else Underuse) in
      \<lparr>rd_verdict = verdict, rd_loss = loss, rd_queue = queue, rd_backlog_ms = backlog_ms\<rparr>)"

definition as_secs_f64 :: "nat \<Rightarrow> rat" where
  "as_secs_f64 ns = fl (fl (of_nat (ns div 1000000000)) + fl (of_nat (ns mod 1000000000) / 1000000000))"

definition kbps :: "rat \<Rightarrow> rat \<Rightarrow> rat" where
  "kbps bytes secs = fl (fl (fl (bytes * 8) / 1000) / secs)"

text \<open>What left the machine in the interval: sent, less what piled up, plus what drained.\<close>

definition left_kbps :: "rate_sample \<Rightarrow> rate_sample \<Rightarrow> rat \<Rightarrow> rat" where
  "left_kbps previous sample secs =
     (let left = sint (sm_sent_bytes sample - sm_sent_bytes previous + sm_backlog_bytes previous - sm_backlog_bytes sample) in
      kbps (fl (of_int (max left 0))) secs)"

definition interval_secs :: "nat \<Rightarrow> rat" where
  "interval_secs elapsed = max (as_secs_f64 elapsed) (fl (1 / 1000))"

text \<open>The match on the verdict: \<open>settling\<close> as it was before, \<open>used\<close> and \<open>lk\<close>, what left, of the interval.\<close>

definition react :: "rate_verdict \<Rightarrow> bool \<Rightarrow> rat \<Rightarrow> rat \<Rightarrow> controller \<Rightarrow> controller" where
  "react verdict settling used lk c =
     (case verdict of
        Overuse \<Rightarrow>
          if settling then c\<lparr>ct_calm := 0\<rparr>
          else
            let through = max (to_u32 lk) FLOOR_KBPS;
                backed_off = to_u32 (fl (of_nat (unat (min (ct_target c) through)) * fl (85 / 100))) in
            c\<lparr>ct_target := max backed_off FLOOR_KBPS, ct_calm := 0, ct_settling := SETTLE_AFTER_BACKOFF,
              ct_last_overuse := Some through\<rparr>
      | Hold \<Rightarrow> c\<lparr>ct_calm := 0\<rparr>
      | Underuse \<Rightarrow>
          let c1 = c\<lparr>ct_calm := ct_calm c + 1\<rparr>;
              c2 = (if ct_calm c1 \<ge> REMEMBER_OVERUSE then c1\<lparr>ct_last_overuse := None\<rparr> else c1) in
          if ct_calm c2 \<ge> CALM_TO_PROBE \<and> used \<ge> USED_TO_PROBE then
            let near_overuse = (case ct_last_overuse c2 of None \<Rightarrow> False | Some k \<Rightarrow> ct_target c2 * 10 \<ge> k * 9);
                step = (if near_overuse then fl (102 / 100) else fl (108 / 100));
                raised = to_u32 (fl (of_nat (unat (ct_target c2)) * step)) + 20 in
            c2\<lparr>ct_target := min raised (max (bitrate_kbps (ct_ceiling c2)) FLOOR_KBPS)\<rparr>
          else c2)"

definition remember_rtt :: "nat \<Rightarrow> nat list \<Rightarrow> nat list" where
  "remember_rtt rtt recent = (if length recent = BASELINE_SAMPLES then tl recent else recent) @ [rtt]"

definition rate_update :: "rate_sample \<Rightarrow> nat \<Rightarrow> controller \<Rightarrow> quality option \<times> controller" where
  "rate_update sample elapsed c =
     (let c1 = c\<lparr>ct_recent_rtt := remember_rtt (sm_rtt sample) (ct_recent_rtt c), ct_previous := Some sample\<rparr> in
      case ct_previous c of
        None \<Rightarrow> (None, c1)
      | Some previous \<Rightarrow>
          let secs = interval_secs elapsed;
              sent_kbps = kbps (fl (of_nat (unat (saturating_sub (sm_sent_bytes sample) (sm_sent_bytes previous))))) secs;
              used = fl (sent_kbps / of_nat (unat (max (ct_target c1) 1)));
              c2 = adapt_fps used c1;
              settling = (ct_settling c2 > 0);
              c3 = c2\<lparr>ct_settling := saturating_sub (ct_settling c2) 1\<rparr>;
              reading = read_interval previous sample (ct_target c3) (baseline_rtt c3);
              c4 = c3\<lparr>ct_last_reading := Some reading\<rparr> in
          rate_apply (react (rd_verdict reading) settling used (left_kbps previous sample secs) c4))"

subsection \<open>Conversions\<close>

lemma fl_constants: "fl (85 / 100) \<le> 7 / 8" "1 \<le> fl (102 / 100)" "1 \<le> fl (108 / 100)"
    "fl (102 / 100) \<le> 2" "fl (108 / 100) \<le> 2"
  by code_simp+

lemma unat_to_u32: "unat (to_u32 x) = nat (min (2 ^ 32 - 1) (max 0 \<lfloor>x\<rfloor>))"
  by (simp add: to_u32_def unsigned_of_int nat_mod_distrib take_bit_eq_mod)

lemma to_u32_le: "x \<le> of_nat n \<Longrightarrow> unat (to_u32 x) \<le> n"
  using floor_mono [of x "of_nat n"] by (simp add: unat_to_u32)

lemma to_u32_ge: "of_nat n \<le> x \<Longrightarrow> n < 2 ^ 32 \<Longrightarrow> n \<le> unat (to_u32 x)"
  using floor_mono [of "of_nat n" x] by (simp add: unat_to_u32)

lemma unat_max: "unat (max a b) = max (unat a) (unat b)" and unat_min: "unat (min a b) = min (unat a) (unat b)"
  by (auto simp: max_def min_def word_le_nat_alt)

lemma unat_FLOOR [simp]: "unat FLOOR_KBPS = 300"
  by (simp add: FLOOR_KBPS_def)

lemma unat_u32_small: "unat (w :: u32) < 2 ^ 53"
  using unsigned_less [of w, where ?'a = nat] by simp

text \<open>Seven eighths, rounded up.\<close>

lemma backed_off:
  "unat (to_u32 (fl (of_nat (unat (w :: u32)) * fl (85 / 100)))) \<le> (7 * unat w + 7) div 8"
proof -
  let ?n = "(7 * unat w + 7) div 8"
  have "7 * unat w \<le> 8 * ?n" by linarith
  then have "7 * (of_nat (unat w) :: rat) \<le> 8 * of_nat ?n" by (metis of_nat_le_iff of_nat_mult of_nat_numeral)
  moreover have "of_nat (unat w) * fl (85 / 100) \<le> of_nat (unat w) * (7 / 8)"
    using fl_constants(1) by (rule mult_left_mono) (rule of_nat_0_le_iff)
  ultimately have "of_nat (unat w) * fl (85 / 100) \<le> of_nat ?n" by simp
  moreover have "?n < 2 ^ 53" using unat_u32_small [of w] by simp
  ultimately show ?thesis by (intro to_u32_le f64.rd_le_of_nat)
qed

lemma raised:
  assumes "1 \<le> c" and "c \<le> 2" and "unat (w :: u32) < 2000000000"
  shows "unat w + 20 \<le> unat (to_u32 (fl (of_nat (unat w) * c)) + 20)"
proof -
  let ?x = "fl (of_nat (unat w) * c)"
  have "of_nat (unat w) * 1 \<le> of_nat (unat w) * c" using assms(1) by (rule mult_left_mono) (rule of_nat_0_le_iff)
  moreover have "of_nat (unat w) * c \<le> of_nat (unat w) * 2" using assms(2) by (rule mult_left_mono) (rule of_nat_0_le_iff)
  ultimately have b: "of_nat (unat w) \<le> of_nat (unat w) * c" "of_nat (unat w) * c \<le> of_nat (unat w * 2)" by simp_all
  have "unat w < 2 ^ 53" "unat w * 2 < 2 ^ 53" using assms(3) by simp_all
  then have "of_nat (unat w) \<le> ?x" "?x \<le> of_nat (unat w * 2)"
    using b f64.rd_ge_of_nat f64.rd_le_of_nat by blast+
  then have "unat w \<le> unat (to_u32 ?x)" "unat (to_u32 ?x) \<le> unat w * 2"
    using assms(3) by (auto intro!: to_u32_ge to_u32_le)
  then show ?thesis using assms(3) by (simp add: unat_word_ariths)
qed

subsection \<open>Reactions\<close>

text \<open>The target and the ceiling are in range.\<close>

definition in_range :: "controller \<Rightarrow> bool" where
  "in_range c \<longleftrightarrow> unat (bitrate_kbps (ct_ceiling c)) < 2000000000 \<and>
     300 \<le> unat (ct_target c) \<and> unat (ct_target c) \<le> max (unat (bitrate_kbps (ct_ceiling c))) 300"

lemma react_ceiling [simp]: "ct_ceiling (react v st used lk c) = ct_ceiling c" "ct_fps (react v st used lk c) = ct_fps c"
    "ct_applied (react v st used lk c) = ct_applied c"
  by (simp_all add: react_def Let_def split: rate_verdict.split)

lemma react_overuse:
  assumes "in_range c"
  shows "unat (ct_target (react Overuse False used lk c)) \<le>
      max 300 ((7 * min (unat (ct_target c)) (max 300 (unat (to_u32 lk))) + 7) div 8)"
    and "300 \<le> unat (ct_target (react Overuse False used lk c))"
    and "ct_settling (react Overuse False used lk c) = SETTLE_AFTER_BACKOFF"
proof -
  let ?w = "min (ct_target c) (max (to_u32 lk) FLOOR_KBPS)"
  have t: "unat (ct_target (react Overuse False used lk c)) = max 300 (unat (to_u32 (fl (of_nat (unat ?w) * fl (85 / 100)))))"
    by (simp add: react_def Let_def unat_max max.commute)
  have "unat ?w = min (unat (ct_target c)) (max 300 (unat (to_u32 lk)))" by (simp add: unat_max unat_min max.commute)
  then show "unat (ct_target (react Overuse False used lk c)) \<le>
      max 300 ((7 * min (unat (ct_target c)) (max 300 (unat (to_u32 lk))) + 7) div 8)"
    unfolding t using backed_off [of ?w] by (metis max.mono order_refl)
  show "300 \<le> unat (ct_target (react Overuse False used lk c))" unfolding t by simp
  show "ct_settling (react Overuse False used lk c) = SETTLE_AFTER_BACKOFF" by (simp add: react_def Let_def)
qed

lemma react_underuse:
  assumes "in_range c"
  shows "unat (ct_target c) \<le> unat (ct_target (react Underuse st used lk c))"
    and "unat (ct_target (react Underuse st used lk c)) \<le> max (unat (bitrate_kbps (ct_ceiling c))) 300"
    and "ct_settling (react Underuse st used lk c) = ct_settling c"
proof -
  have t: "unat (ct_target c) < 2000000000" "unat (ct_target c) \<le> max (unat (bitrate_kbps (ct_ceiling c))) 300"
    using assms by (auto simp: in_range_def)
  have "unat (ct_target c) + 20 \<le> unat (to_u32 (fl (of_nat (unat (ct_target c)) * x)) + 20)"
    if "x = fl (102 / 100) \<or> x = fl (108 / 100)" for x
    using that fl_constants t(1) by (intro raised) auto
  then show "unat (ct_target c) \<le> unat (ct_target (react Underuse st used lk c))"
    "unat (ct_target (react Underuse st used lk c)) \<le> max (unat (bitrate_kbps (ct_ceiling c))) 300"
    using t(2) by (fastforce simp: react_def Let_def unat_max unat_min)+
  show "ct_settling (react Underuse st used lk c) = ct_settling c" by (simp add: react_def Let_def)
qed

lemma react_same:
  "ct_target (react Hold st used lk c) = ct_target c" "ct_target (react Overuse True used lk c) = ct_target c"
  "ct_settling (react Hold st used lk c) = ct_settling c" "ct_settling (react Overuse True used lk c) = ct_settling c"
  by (simp_all add: react_def)

lemma react_in_range: "in_range c \<Longrightarrow> in_range (react v st used lk c)"
proof -
  assume c: "in_range c"
  have "300 \<le> unat (ct_target (react v st used lk c)) \<and>
    unat (ct_target (react v st used lk c)) \<le> max (unat (bitrate_kbps (ct_ceiling c))) 300"
  proof (cases v)
    case Overuse
    then show ?thesis using c react_overuse [OF c, of used lk] react_same(2) [of used lk c]
      by (cases st) (auto simp: in_range_def)
  next
    case Hold
    then show ?thesis using c react_same(1) by (simp add: in_range_def)
  next
    case Underuse
    then show ?thesis using c react_underuse [OF c, of st used lk] by (auto simp: in_range_def)
  qed
  then show ?thesis using c by (simp add: in_range_def)
qed

subsection \<open>Runs\<close>

datatype rate_event = Sampled rate_sample nat | CeilingSet quality

fun rate_step :: "rate_event \<Rightarrow> controller \<Rightarrow> quality option \<times> controller" where
  "rate_step (Sampled s elapsed) c = rate_update s elapsed c"
| "rate_step (CeilingSet ceil) c = set_ceiling ceil c"

definition rate_run :: "rate_event list \<Rightarrow> controller \<Rightarrow> controller" where
  "rate_run es c = fold (\<lambda>e c. snd (rate_step e c)) es c"

text \<open>Ceilings below two terabits per second, beyond which \<open>u32\<close> arithmetic would wrap.\<close>

fun sane :: "rate_event \<Rightarrow> bool" where
  "sane (Sampled s elapsed) = True"
| "sane (CeilingSet ceil) = (unat (bitrate_kbps ceil) < 2000000000)"

lemma adapt_fps_simps [simp]:
  "ct_ceiling (adapt_fps used c) = ct_ceiling c" "ct_target (adapt_fps used c) = ct_target c"
  "ct_settling (adapt_fps used c) = ct_settling c"
  by (simp_all add: adapt_fps_def Let_def)

lemma rate_apply_simps [simp]:
  "ct_ceiling (snd (rate_apply c)) = ct_ceiling c" "ct_target (snd (rate_apply c)) = ct_target c"
  "ct_settling (snd (rate_apply c)) = ct_settling c" "ct_last_reading (snd (rate_apply c)) = ct_last_reading c"
  by (simp_all add: rate_apply_def Let_def)

lemma react_reading [simp]: "ct_last_reading (react v st used lk c) = ct_last_reading c"
  by (simp add: react_def Let_def split: rate_verdict.split)

lemma in_range_cong:
  "ct_ceiling c' = ct_ceiling c \<Longrightarrow> ct_target c' = ct_target c \<Longrightarrow> in_range c' = in_range c"
  by (simp add: in_range_def)

lemma rate_apply_in_range: "in_range (snd (rate_apply c)) = in_range c"
  by (rule in_range_cong) simp_all

text \<open>An update with a previous sample is a reaction, of a controller with the same target.\<close>

lemma rate_update_reacts:
  assumes "ct_previous c = Some previous"
  obtains used c1 r where "rate_update sample elapsed c =
      rate_apply (react (rd_verdict r) (ct_settling c > 0) used (left_kbps previous sample (interval_secs elapsed)) c1)"
    "ct_ceiling c1 = ct_ceiling c" "ct_target c1 = ct_target c" "ct_last_reading c1 = Some r"
    "ct_settling c1 = saturating_sub (ct_settling c) 1"
  using assms by (simp add: rate_update_def Let_def)

lemma rate_update_in_range: "in_range c \<Longrightarrow> in_range (snd (rate_update sample elapsed c))"
proof -
  assume c: "in_range c"
  show ?thesis
  proof (cases "ct_previous c")
    case None
    then show ?thesis using c by (simp add: rate_update_def Let_def in_range_def)
  next
    case (Some previous)
    obtain used c1 r where u: "rate_update sample elapsed c =
        rate_apply (react (rd_verdict r) (ct_settling c > 0) used (left_kbps previous sample (interval_secs elapsed)) c1)"
      "ct_ceiling c1 = ct_ceiling c" "ct_target c1 = ct_target c" "ct_last_reading c1 = Some r"
      "ct_settling c1 = saturating_sub (ct_settling c) 1"
      by (rule rate_update_reacts [OF Some])
    then have "in_range c1" using c in_range_cong [OF u(2,3)] by simp
    then show ?thesis unfolding u(1) rate_apply_in_range by (rule react_in_range)
  qed
qed

lemma clamp_in_range: "300 \<le> unat (clamp t FLOOR_KBPS (max b FLOOR_KBPS)) \<and>
    unat (clamp t FLOOR_KBPS (max b FLOOR_KBPS)) \<le> max (unat b) 300"
  using clamp_bounds [of FLOOR_KBPS "max b FLOOR_KBPS" t] by (simp add: word_le_nat_alt unat_max)

lemma rate_step_in_range: "in_range c \<Longrightarrow> sane e \<Longrightarrow> in_range (snd (rate_step e c))"
  using clamp_in_range by (cases e) (simp_all add: rate_update_in_range set_ceiling_def rate_apply_in_range, simp add: in_range_def)

lemma rate_run_in_range: "in_range c \<Longrightarrow> list_all sane es \<Longrightarrow> in_range (rate_run es c)"
  unfolding rate_run_def by (induction es arbitrary: c) (simp_all add: rate_step_in_range)

lemma rate_new_in_range: "unat (bitrate_kbps ceil) < 2000000000 \<Longrightarrow> in_range (rate_new ceil start w h)"
  using clamp_in_range by (simp add: rate_new_def Let_def in_range_def)

lemma rate_step_quality:
  assumes "rate_step e c = (Some q, c')"
  shows "q = rate_quality c'"
proof -
  have ap: "rate_apply c1 = (Some q, c') \<Longrightarrow> q = rate_quality c'" for c1
    by (auto simp: rate_apply_def Let_def rate_quality_def split: if_splits)
  show ?thesis
  proof (cases e)
    case (CeilingSet ceil)
    then show ?thesis using assms ap by (simp add: set_ceiling_def)
  next
    case (Sampled s elapsed)
    then show ?thesis using assms ap by (auto simp: rate_update_def Let_def split: option.splits)
  qed
qed

subsection \<open>Properties\<close>

text \<open>Whatever is sampled and whatever the viewer asks for, the target stays between 300 kbit/s
  and the most the viewer asked for (or 300), and so does every quality given to the encoder,
  with a frame rate between 5 and the most asked for (or 5).\<close>

theorem rate_in_bounds:
  assumes "unat (bitrate_kbps ceil) < 2000000000" and "list_all sane es" and "sane e"
    and "rate_step e (rate_run es (rate_new ceil start width height)) = (Some q, c)"
  shows "300 \<le> unat (bitrate_kbps q) \<and> unat (bitrate_kbps q) \<le> max (unat (bitrate_kbps (ct_ceiling c))) 300 \<and>
    MIN_FPS \<le> qu_fps q \<and> qu_fps q \<le> max (qu_fps (ct_ceiling c)) MIN_FPS"
proof -
  have "in_range c"
    using rate_step_in_range [OF rate_run_in_range [OF rate_new_in_range [OF assms(1)] assms(2)] assms(3)] assms(4)
    by (metis snd_conv)
  moreover have "q = rate_quality c" by (rule rate_step_quality [OF assms(4)])
  ultimately show ?thesis
    using clamp_bounds [of MIN_FPS "max (qu_fps (ct_ceiling c)) MIN_FPS" "ct_fps c"]
    by (simp add: in_range_def rate_quality_def)
qed

theorem rate_in_bounds_witness:
  "\<exists>q c. rate_step (CeilingSet \<lparr>bitrate_kbps = 2000, qu_fps = 30\<rparr>)
      (rate_run [] (rate_new \<lparr>bitrate_kbps = 8000, qu_fps = 60\<rparr> 5000 1920 1080)) = (Some q, c) \<and>
    300 \<le> unat (bitrate_kbps q) \<and> unat (bitrate_kbps q) \<le> max (unat (bitrate_kbps (ct_ceiling c))) 300"
proof -
  let ?c = "rate_new \<lparr>bitrate_kbps = 8000, qu_fps = 60\<rparr> 5000 1920 1080"
  have "fst (rate_step (CeilingSet \<lparr>bitrate_kbps = 2000, qu_fps = 30\<rparr>) (rate_run [] ?c)) \<noteq> None"
    by (simp add: rate_run_def set_ceiling_def rate_new_def rate_apply_def rate_quality_def clamp_def FLOOR_KBPS_def
        MIN_FPS_def abs_diff_def Let_def)
  then obtain q c where s: "rate_step (CeilingSet \<lparr>bitrate_kbps = 2000, qu_fps = 30\<rparr>) (rate_run [] ?c) = (Some q, c)"
    by (cases "rate_step (CeilingSet \<lparr>bitrate_kbps = 2000, qu_fps = 30\<rparr>) (rate_run [] ?c)") auto
  then show ?thesis using rate_in_bounds [OF _ _ _ s] by auto
qed

text \<open>The target moves as the interval was read. On overuse it falls to at most seven eighths
  of itself and of what left the machine, but not below 300, and then not again in the next
  two intervals; it is held on hold; and it falls on no other reading.\<close>

theorem rate_moves_as_read:
  assumes "in_range c" and "ct_previous c = Some previous" and "rate_update sample elapsed c = (out, c')"
    and "ct_last_reading c' = Some r"
  shows "case rd_verdict r of
      Overuse \<Rightarrow>
        if 0 < ct_settling c then ct_target c' = ct_target c \<and> ct_settling c' = ct_settling c - 1
        else ct_settling c' = 2 \<and> unat (ct_target c') \<le> max 300 ((7 * unat (ct_target c) + 7) div 8) \<and>
          unat (ct_target c') \<le>
            max 300 ((7 * max 300 (unat (to_u32 (left_kbps previous sample (interval_secs elapsed)))) + 7) div 8)
    | Hold \<Rightarrow> ct_target c' = ct_target c
    | Underuse \<Rightarrow> unat (ct_target c) \<le> unat (ct_target c')"
proof -
  let ?lk = "left_kbps previous sample (interval_secs elapsed)"
  obtain used c1 where u: "(out, c') = rate_apply (react (rd_verdict r) (ct_settling c > 0) used ?lk c1)"
    "ct_ceiling c1 = ct_ceiling c" "ct_target c1 = ct_target c" "ct_settling c1 = saturating_sub (ct_settling c) 1"
  proof -
    obtain used c1 r' where v: "rate_update sample elapsed c = rate_apply (react (rd_verdict r') (ct_settling c > 0) used ?lk c1)"
      "ct_ceiling c1 = ct_ceiling c" "ct_target c1 = ct_target c" "ct_last_reading c1 = Some r'"
      "ct_settling c1 = saturating_sub (ct_settling c) 1"
      by (rule rate_update_reacts [OF assms(2)])
    then have "c' = snd (rate_apply (react (rd_verdict r') (ct_settling c > 0) used ?lk c1))"
      using assms(3) by (metis snd_conv)
    then have "r' = r" using v(4) assms(4) by simp
    then show ?thesis using that v assms(3) by metis
  qed
  have c1: "in_range c1" using assms(1) in_range_cong [OF u(2,3)] by simp
  have c': "ct_target c' = ct_target (react (rd_verdict r) (ct_settling c > 0) used ?lk c1)"
    "ct_settling c' = ct_settling (react (rd_verdict r) (ct_settling c > 0) used ?lk c1)"
    using arg_cong [OF u(1), of snd] by simp_all
  show ?thesis
  proof (cases "rd_verdict r")
    case Overuse
    show ?thesis
    proof (cases "0 < ct_settling c")
      case True
      then have "saturating_sub (ct_settling c) 1 = ct_settling c - 1"
        by (auto simp: saturating_sub_def word_gt_0 word_less_1)
      then show ?thesis using True Overuse c' react_same u(3,4) by simp
    next
      case False
      let ?m = "min (unat (ct_target c)) (max 300 (unat (to_u32 ?lk)))"
      have "unat (ct_target c') \<le> max 300 ((7 * ?m + 7) div 8)"
        using react_overuse(1) [OF c1, of used ?lk] False Overuse c' u(3) by simp
      moreover have "(7 * ?m + 7) div 8 \<le> (7 * n + 7) div 8" if "?m \<le> n" for n
        using that by (intro div_le_mono) simp
      ultimately have "unat (ct_target c') \<le> max 300 ((7 * n + 7) div 8)" if "?m \<le> n" for n
        using that by (meson max.mono order_refl order_trans)
      then show ?thesis using react_overuse(3) [OF c1] False Overuse c' by (simp add: SETTLE_AFTER_BACKOFF_def)
    qed
  next
    case Hold
    then show ?thesis using c' react_same(1) u(3) by simp
  next
    case Underuse
    then show ?thesis using c' react_underuse(1) [OF c1] u(3) by simp
  qed
qed

text \<open>An instance: the backlog grows over 100 ms at the target.\<close>

definition demo_sample :: rate_sample where
  "demo_sample = \<lparr>sm_rtt = 0, sm_sent_packets = 0, sm_lost_packets = 0, sm_sent_bytes = 0, sm_backlog_bytes = 0\<rparr>"

definition demo_controller :: controller where
  "demo_controller = snd (rate_update demo_sample 0 (rate_new \<lparr>bitrate_kbps = 8000, qu_fps = 60\<rparr> 8000 1920 1080))"

definition demo_full :: rate_sample where
  "demo_full = demo_sample\<lparr>sm_sent_bytes := 500000, sm_backlog_bytes := 200000\<rparr>"

lemma rate_update_reading:
  "ct_previous c = Some previous \<Longrightarrow> ct_last_reading (snd (rate_update sample elapsed c)) =
     Some (read_interval previous sample (ct_target c)
       (baseline_rtt (c\<lparr>ct_recent_rtt := remember_rtt (sm_rtt sample) (ct_recent_rtt c)\<rparr>)))"
  by (simp add: rate_update_def Let_def baseline_rtt_def adapt_fps_def)

lemma demo_controller:
  "in_range demo_controller" "ct_previous demo_controller = Some demo_sample" "ct_target demo_controller = 8000"
  "ct_settling demo_controller = 0"
  by (simp_all add: demo_controller_def rate_update_def rate_new_def Let_def clamp_def FLOOR_KBPS_def in_range_def)

theorem rate_moves_as_read_witness:
  "unat (ct_target (snd (rate_update demo_full 500000000 demo_controller))) \<le> 7000"
proof -
  let ?u = "rate_update demo_full 500000000 demo_controller"
  obtain r where r: "ct_last_reading (snd ?u) = Some r" "rd_verdict r = Overuse"
    using rate_update_reading [OF demo_controller(2), of demo_full 500000000]
    by (simp add: read_interval_def demo_controller(3) demo_full_def demo_sample_def BACKLOG_OVERUSE_MS_def Let_def)
  from rate_moves_as_read [OF demo_controller(1,2) _ r(1)] r(2) show ?thesis
    by (cases ?u) (fastforce simp: demo_controller(3,4))
qed

end
