(* ===== verification/Known.thy ===== *)
theory Known
  imports Rendezvous
begin

text \<open>
  The device keys a viewer has seen (\<open>crates/viewer/src/known.rs\<close>): the file they are kept
  in, and what is made of a key offered for an ID.

  The ordered map of the source is a list of pairs in the order of its keys. The file is what
  reading it gives, and writing it may fail; it is written aside and renamed, so a failure
  leaves it as it was. Reading a fingerprint may panic (\<open>Fingerprint.fingerprint_from_str\<close>),
  and with it what reads the file.
\<close>

datatype continuity = First | Same | Changed fingerprint

record known =
  kn_path :: "str option"
  kn_devices :: "(u64 \<times> fingerprint) list"

datatype key_file = NotThere | Unreadable str | Contents str

definition known_default :: known where
  "known_default = \<lparr>kn_path = None, kn_devices = []\<rparr>"

fun btree_insert :: "u64 \<Rightarrow> 'a \<Rightarrow> (u64 \<times> 'a) list \<Rightarrow> (u64 \<times> 'a) list" where
  "btree_insert k v [] = [(k, v)]"
| "btree_insert k v ((k', v') # m) =
     (if k < k' then (k, v) # (k', v') # m
      else if k = k' then (k, v) # m
      else (k', v') # btree_insert k v m)"

subsection \<open>The text of the file\<close>

text \<open>\<open>str::parse\<close> to an unsigned 64-bit number: a sign is allowed.\<close>

definition read_u64 :: "str \<Rightarrow> u64 option" where
  "read_u64 s =
     (let ds = (case s of c # rest \<Rightarrow> if c = 43 then rest else s | [] \<Rightarrow> []) in
      if ds = [] \<or> \<not> list_all is_digit ds \<or> read_nat ds \<ge> 2 ^ 64 then None
      else Some (word_of_nat (read_nat ds)))"

text \<open>\<open>split_once\<close> at the first white space.\<close>

fun split_space :: "str \<Rightarrow> (str \<times> str) option" where
  "split_space [] = None"
| "split_space (c # s) =
     (if is_whitespace c then Some ([], s) else map_option (\<lambda>(a, b). (c # a, b)) (split_space s))"

text \<open>One line. \<open>Err ()\<close> where it is skipped.\<close>

definition read_entry :: "str \<Rightarrow> (unit, u64 \<times> fingerprint) outcome" where
  "read_entry l =
     (let l = trim l in
      if l = [] \<or> hd l = 35 then Err ()
      else
        (case split_space l of
           None \<Rightarrow> Err ()
         | Some (a, b) \<Rightarrow>
             (case fingerprint_from_str (trim b) of
                Panic \<Rightarrow> Panic
              | Err _ \<Rightarrow> Err ()
              | Ok fp \<Rightarrow> (case read_u64 (trim a) of None \<Rightarrow> Err () | Some i \<Rightarrow> Ok (i, fp)))))"

fun parse_lines :: "str list \<Rightarrow> (u64 \<times> fingerprint) list \<Rightarrow> (unit, (u64 \<times> fingerprint) list) outcome" where
  "parse_lines [] m = Ok m"
| "parse_lines (l # ls) m =
     (case read_entry l of
        Panic \<Rightarrow> Panic
      | Err _ \<Rightarrow> parse_lines ls m
      | Ok (i, fp) \<Rightarrow> parse_lines ls (btree_insert i fp m))"

definition known_parse :: "str \<Rightarrow> (unit, (u64 \<times> fingerprint) list) outcome" where
  "known_parse s = parse_lines (lines s) []"

definition pad10 :: "str \<Rightarrow> str" where
  "pad10 s = replicate (10 - length s) 48 @ s"

definition header_lines :: "str list" where
  "header_lines =
     [lit ''# Device keys this viewer has seen. A device's ID is made from its'',
      lit ''# key, so the same ID with another key is another device.'',
      lit ''# Written by nearhand-viewer; `nearhand-viewer forget <id>`'',
      lit ''# forgets a device, as deleting its line does.'']"

definition entry_line :: "u64 \<times> fingerprint \<Rightarrow> str" where
  "entry_line = (\<lambda>(i, fp). pad10 (show_nat (unat i)) @ [32] @ fingerprint_display fp)"

definition known_to_text :: "(u64 \<times> fingerprint) list \<Rightarrow> str" where
  "known_to_text m = concat (map (\<lambda>l. l @ [10]) (header_lines @ map entry_line m))"

subsection \<open>The store\<close>

text \<open>\<open>Err\<close> is an error of the file system.\<close>

definition known_read :: "str \<Rightarrow> key_file \<Rightarrow> (str, known) outcome" where
  "known_read p file =
     (case (case file of NotThere \<Rightarrow> Ok [] | Unreadable e \<Rightarrow> Err e | Contents s \<Rightarrow> Ok s) of
        Panic \<Rightarrow> Panic
      | Err e \<Rightarrow> Err e
      | Ok s \<Rightarrow> (case known_parse s of Ok m \<Rightarrow> Ok \<lparr>kn_path = Some p, kn_devices = m\<rparr> | Err _ \<Rightarrow> Panic | Panic \<Rightarrow> Panic))"

definition known_load :: "str option \<Rightarrow> key_file \<Rightarrow> (str, known) outcome" where
  "known_load p file =
     (case p of
        None \<Rightarrow> Ok known_default
      | Some path \<Rightarrow>
          (case known_read path file of
             Ok k \<Rightarrow> Ok k
           | Err _ \<Rightarrow> Ok \<lparr>kn_path = Some path, kn_devices = []\<rparr>
           | Panic \<Rightarrow> Panic))"

definition known_open :: "str option \<Rightarrow> key_file \<Rightarrow> (str, known) outcome" where
  "known_open p file =
     (case p of None \<Rightarrow> Err (lit ''no home folder to keep the known devices in'') | Some path \<Rightarrow> known_read path file)"

definition known_devices :: "known \<Rightarrow> (device_id \<times> fingerprint) list" where
  "known_devices k =
     somes (map (\<lambda>(i, fp). map_option (\<lambda>d. (d, fp)) (device_id_from_str (pad10 (show_nat (unat i))))) (kn_devices k))"

definition known_check :: "device_id \<Rightarrow> fingerprint \<Rightarrow> known \<Rightarrow> continuity" where
  "known_check i fp k =
     (case map_of (kn_devices k) i of
        None \<Rightarrow> First
      | Some old \<Rightarrow> if old = fp then Same else Changed old)"

text \<open>Whether saving succeeded, and the file after it. \<open>writes\<close> is whether the file system
  carries it out.\<close>

definition known_save :: "bool \<Rightarrow> known \<Rightarrow> key_file \<Rightarrow> bool \<times> key_file" where
  "known_save writes k file =
     (case kn_path k of
        None \<Rightarrow> (True, file)
      | Some _ \<Rightarrow> if writes then (True, Contents (known_to_text (kn_devices k))) else (False, file))"

definition known_remember :: "bool \<Rightarrow> device_id \<Rightarrow> fingerprint \<Rightarrow> known \<Rightarrow> key_file \<Rightarrow> bool \<times> known \<times> key_file" where
  "known_remember writes i fp k file =
     (let old = map_of (kn_devices k) i; k1 = k\<lparr>kn_devices := btree_insert i fp (kn_devices k)\<rparr> in
      if old = Some fp then (True, k1, file)
      else (let (ok, file1) = known_save writes k1 file in (ok, k1, file1)))"

definition known_forget :: "bool \<Rightarrow> device_id \<Rightarrow> known \<Rightarrow> key_file \<Rightarrow> fingerprint option option \<times> known \<times> key_file" where
  "known_forget writes i k file =
     (let forgotten = map_of (kn_devices k) i; k1 = k\<lparr>kn_devices := filter (\<lambda>e. fst e \<noteq> i) (kn_devices k)\<rparr> in
      if forgotten = None then (Some None, k1, file)
      else (let (ok, file1) = known_save writes k1 file in (if ok then Some forgotten else None, k1, file1)))"

subsection \<open>The map\<close>

definition sorted_keys :: "(u64 \<times> 'a) list \<Rightarrow> bool" where
  "sorted_keys m \<longleftrightarrow> sorted_wrt (<) (map fst m)"

lemma map_of_btree_insert: "sorted_keys m \<Longrightarrow> map_of (btree_insert k v m) = (map_of m)(k \<mapsto> v)"
proof (induction k v m rule: btree_insert.induct)
  case (2 k v k' v' m)
  have m: "sorted_keys m" using "2.prems" by (simp add: sorted_keys_def)
  show ?case
  proof (cases "k < k' \<or> k = k'")
    case True
    then show ?thesis by (intro ext) auto
  next
    case False
    then have "map_of (btree_insert k v m) = (map_of m)(k \<mapsto> v)" "k \<noteq> k'" using "2.IH" [OF _ _ m] by blast+
    then show ?thesis using False by (simp only: btree_insert.simps if_False map_of.simps fst_conv snd_conv simp_thms fun_upd_twist)
  qed
qed simp

lemma keys_btree_insert: "fst ` set (btree_insert k v m) = insert k (fst ` set m)"
  by (induction k v m rule: btree_insert.induct) auto

lemma set_btree_insert: "set (btree_insert k v m) \<subseteq> insert (k, v) (set m)"
  by (induction k v m rule: btree_insert.induct) auto

lemma sorted_btree_insert: "sorted_keys m \<Longrightarrow> sorted_keys (btree_insert k v m)"
proof (induction k v m rule: btree_insert.induct)
  case (2 k v k' v' m)
  have tail: "\<forall>x\<in>fst ` set m. k' < x" and m: "sorted_keys m" using "2.prems" by (auto simp: sorted_keys_def)
  show ?case
  proof (cases "k < k' \<or> k = k'")
    case True
    then show ?thesis using "2.prems" tail m by (auto simp: sorted_keys_def)
  next
    case False
    then have "sorted_keys (btree_insert k v m)" "\<forall>x\<in>fst ` set (btree_insert k v m). k' < x"
      using 2 m tail keys_btree_insert [of k v m] by auto
    then show ?thesis using False by (auto simp: sorted_keys_def)
  qed
qed (simp add: sorted_keys_def)

lemma btree_insert_last:
  "\<forall>x\<in>fst ` set m. x < k \<Longrightarrow> btree_insert k v m = m @ [(k, v)]"
  by (induction k v m rule: btree_insert.induct) (auto simp: not_less)

subsection \<open>Reading back\<close>

lemma lines_Cons:
  assumes "10 \<notin> set l" and "last l \<noteq> 13 \<or> l = []"
  shows "lines (l @ 10 # s) = l # lines s"
proof -
  have ne: "split_on 10 s \<noteq> []" by (cases s) (auto split: list.split)
  have "split_on 10 (l @ 10 # s) = l # split_on 10 s" using assms(1) by (rule split_on_append)
  then show ?thesis using ne assms(2) by (auto simp: lines_def Let_def strip_cr_def)
qed

lemma lines_text:
  "list_all (\<lambda>l. 10 \<notin> set l \<and> (last l \<noteq> 13 \<or> l = [])) ls \<Longrightarrow> lines (concat (map (\<lambda>l. l @ [10]) ls)) = ls"
proof (induction ls)
  case Nil
  show ?case by (simp add: lines_def)
next
  case (Cons l ls)
  then show ?case using lines_Cons [of l "concat (map (\<lambda>l. l @ [10]) ls)"] by simp
qed

lemma pad10_digits: "c \<in> set (pad10 (show_nat n)) \<Longrightarrow> is_digit c"
  using show_nat_digits by (auto simp: pad10_def is_digit_def)

lemma read_nat_zeros: "read_nat (replicate k 48 @ s) = read_nat s"
  by (induction k) (simp_all add: read_nat_def)

lemma read_pad10: "read_u64 (pad10 (show_nat (unat i))) = Some i"
proof -
  let ?s = "pad10 (show_nat (unat i))"
  have ne: "?s \<noteq> []" by (simp add: pad10_def)
  then obtain c rest where c: "?s = c # rest" by (cases ?s) auto
  then have "is_digit c" using pad10_digits [of c "unat i"] by simp
  then have "c \<noteq> 43" by (simp add: is_digit_def)
  moreover have "list_all is_digit ?s" using pad10_digits by (simp add: list_all_iff)
  moreover have "read_nat ?s = unat i" by (simp add: pad10_def read_nat_zeros read_show_nat)
  ultimately show ?thesis using c unsigned_less [of i, where ?'a = nat] by (simp add: read_u64_def)
qed

lemma digit_not_space: "is_digit c \<Longrightarrow> \<not> is_whitespace c"
  by (simp add: is_digit_def is_whitespace_def)

lemma split_space_append: "\<forall>c\<in>set a. \<not> is_whitespace c \<Longrightarrow> split_space (a @ 32 # b) = Some (a, b)"
  by (induction a) (simp_all, simp add: is_whitespace_def)

lemma hex_digit_plain: "n < 16 \<Longrightarrow> \<not> is_whitespace (hex_digit n) \<and> hex_digit n \<noteq> 10 \<and> hex_digit n \<noteq> 13"
  by (simp add: hex_digit_def is_whitespace_def)

lemma to_hex_chars: "c \<in> set (to_hex bs) \<Longrightarrow> \<not> is_whitespace c \<and> c \<noteq> 10 \<and> c \<noteq> 13"
proof -
  assume "c \<in> set (to_hex bs)"
  then obtain b where "b \<in> set bs" "c = hex_digit (unat b div 16) \<or> c = hex_digit (unat b mod 16)"
    by (auto simp: to_hex_def)
  moreover have "unat b div 16 < 16" "unat b mod 16 < 16" using byte_bound [of b] by simp_all
  ultimately show ?thesis using hex_digit_plain by metis
qed

lemma trim_plain: "s \<noteq> [] \<Longrightarrow> \<forall>c\<in>set s. \<not> is_whitespace c \<Longrightarrow> trim s = s"
  by (rule trim_id) simp_all

lemma read_entry_line:
  assumes "length fp = 32"
  shows "read_entry (entry_line (i, fp)) = Ok (i, fp)"
proof -
  let ?a = "pad10 (show_nat (unat i))" and ?b = "fingerprint_display fp"
  have a: "?a \<noteq> []" "\<forall>c\<in>set ?a. \<not> is_whitespace c" using pad10_digits digit_not_space by (auto simp: pad10_def)
  have "fp \<noteq> []" using assms by auto
  then have b: "?b \<noteq> []" "\<forall>c\<in>set ?b. \<not> is_whitespace c"
    using to_hex_chars by (auto simp: fingerprint_display_def to_hex_nonempty)
  have "hd (?a @ 32 # ?b) = hd ?a" "last (?a @ 32 # ?b) = last ?b" using a(1) b(1) by simp_all
  moreover have "hd ?a \<in> set ?a" "last ?b \<in> set ?b" using a(1) b(1) by simp_all
  ultimately have t: "trim (?a @ 32 # ?b) = ?a @ 32 # ?b" using a b by (intro trim_id) auto
  have "hd (?a @ 32 # ?b) \<noteq> 35" using pad10_digits [of "hd ?a" "unat i"] a(1) by (auto simp: is_digit_def)
  then show ?thesis
    using a b t trim_plain [OF a] trim_plain [OF b] split_space_append [OF a(2), of ?b]
      fingerprint_round_trip [OF assms] read_pad10
    by (simp add: read_entry_def entry_line_def)
qed

lemma header_skipped: "l \<in> set header_lines \<Longrightarrow> read_entry l = Err () \<and> 10 \<notin> set l \<and> last l \<noteq> 13"
  by (auto simp: header_lines_def lit_def read_entry_def trim_def is_whitespace_def)

lemma parse_skips: "\<forall>l\<in>set ls. read_entry l = Err () \<Longrightarrow> parse_lines (ls @ ls') m = parse_lines ls' m"
  by (induction ls) simp_all

lemma parse_entries:
  assumes "sorted_keys (m @ m')" and "\<forall>e\<in>set m'. length (snd e) = 32"
  shows "parse_lines (map entry_line m') m = Ok (m @ m')"
  using assms
proof (induction m' arbitrary: m)
  case (Cons e m')
  obtain i fp where e: "e = (i, fp)" by (rule prod.exhaust)
  have "btree_insert i fp m = m @ [(i, fp)]"
    using Cons.prems(1) e by (intro btree_insert_last) (auto simp: sorted_keys_def sorted_wrt_append)
  then show ?case using Cons e read_entry_line [of fp i] by simp
qed simp

lemma known_parse_text:
  assumes "sorted_keys m" and "\<forall>e\<in>set m. length (snd e) = 32"
  shows "known_parse (known_to_text m) = Ok m"
proof -
  have "10 \<notin> set (entry_line e) \<and> last (entry_line e) \<noteq> 13" if "e \<in> set m" for e
  proof -
    obtain i fp where e: "e = (i, fp)" by (rule prod.exhaust)
    have "fp \<noteq> []" using assms(2) that e by fastforce
    then have "fingerprint_display fp \<noteq> []" by (simp add: fingerprint_display_def to_hex_nonempty)
    then have "last (entry_line e) \<in> set (fingerprint_display fp)" by (simp add: entry_line_def e)
    then show ?thesis using to_hex_chars pad10_digits
      by (fastforce simp: entry_line_def e fingerprint_display_def is_digit_def)
  qed
  then have "list_all (\<lambda>l. 10 \<notin> set l \<and> (last l \<noteq> 13 \<or> l = [])) (header_lines @ map entry_line m)"
    using header_skipped by (auto simp: list_all_iff)
  then have "lines (known_to_text m) = header_lines @ map entry_line m" unfolding known_to_text_def by (rule lines_text)
  then show ?thesis
    using header_skipped parse_skips [of header_lines "map entry_line m" "[]"] parse_entries [of "[]" m] assms
    by (simp add: known_parse_def)
qed

subsection \<open>Properties\<close>

definition wf_known :: "known \<Rightarrow> bool" where
  "wf_known k \<longleftrightarrow> sorted_keys (kn_devices k) \<and> (\<forall>e\<in>set (kn_devices k). length (snd e) = 32)"

lemma remember_wf: "wf_known k \<Longrightarrow> length fp = 32 \<Longrightarrow> known_remember writes i fp k file = (ok, k', file') \<Longrightarrow> wf_known k'"
  using set_btree_insert [of i fp "kn_devices k"] sorted_btree_insert [of "kn_devices k" i fp]
  by (auto simp: known_remember_def wf_known_def Let_def split: prod.splits if_splits)

lemma btree_insert_same: "sorted_keys m \<Longrightarrow> map_of m i = Some v \<Longrightarrow> btree_insert i v m = m"
proof (induction i v m rule: btree_insert.induct)
  case (2 k v k' v' m)
  have tail: "\<forall>x\<in>fst ` set m. k' < x" and m: "sorted_keys m" using "2.prems"(1) by (auto simp: sorted_keys_def)
  have "map_of ((k', v') # m) k \<noteq> None" using "2.prems"(2) by simp
  then have "k \<in> insert k' (fst ` set m)" unfolding map_of_eq_None_iff by simp
  then have "\<not> k < k'" using tail by auto
  then show ?case using 2 m by (auto split: if_splits)
qed simp

lemma load_saved:
  assumes "wf_known k" and "kn_path k = Some p"
  shows "known_load (Some p) (Contents (known_to_text (kn_devices k))) = Ok k"
proof -
  have "known_parse (known_to_text (kn_devices k)) = Ok (kn_devices k)"
    using known_parse_text assms(1) unfolding wf_known_def by blast
  then show ?thesis using assms(2) by (simp add: known_load_def known_read_def)
qed

text \<open>A key written down is known after a restart: reading the file again gives the same
  devices, the key is the same one, any other key under that ID is a changed one, and what is
  known of other devices stays.\<close>

theorem remembered_key_is_known:
  assumes "wf_known k" and "kn_path k = Some p" and "known_load (Some p) file = Ok k" and "length fp = 32"
    and "known_remember writes i fp k file = (True, k', file')"
  shows "known_load (Some p) file' = Ok k' \<and> known_check i fp k' = Same \<and>
    (other \<noteq> fp \<longrightarrow> known_check i other k' = Changed fp) \<and>
    (j \<noteq> i \<longrightarrow> known_check j other k' = known_check j other k)"
proof -
  have k': "kn_path k' = Some p" "kn_devices k' = btree_insert i fp (kn_devices k)"
    using assms(2,5) by (auto simp: known_remember_def Let_def split: prod.splits if_splits)
  have "map_of (kn_devices k') = (map_of (kn_devices k))(i \<mapsto> fp)"
    unfolding k'(2) using assms(1) by (intro map_of_btree_insert) (simp add: wf_known_def)
  then have checks: "known_check i fp k' = Same \<and> (other \<noteq> fp \<longrightarrow> known_check i other k' = Changed fp) \<and>
    (j \<noteq> i \<longrightarrow> known_check j other k' = known_check j other k)"
    by (simp add: known_check_def)
  have "known_load (Some p) file' = Ok k'"
  proof (cases "map_of (kn_devices k) i = Some fp")
    case True
    then have "btree_insert i fp (kn_devices k) = kn_devices k"
      using assms(1) by (intro btree_insert_same) (simp_all add: wf_known_def)
    then have "k' = k" "file' = file" using True assms(5) by (auto simp: known_remember_def Let_def)
    then show ?thesis using assms(3) by simp
  next
    case False
    then have "file' = Contents (known_to_text (kn_devices k'))"
      using assms(2,5) by (auto simp: known_remember_def known_save_def Let_def split: if_splits)
    then show ?thesis using load_saved [of k' p] remember_wf [OF assms(1,4,5)] k'(1) by simp
  qed
  then show ?thesis using checks by blast
qed

theorem remembered_key_is_known_witness:
  "\<exists>k. known_load (Some []) (Contents (known_to_text [(7, replicate 32 1)])) = Ok k \<and> known_check 7 (replicate 32 1) k = Same"
proof -
  let ?fp = "replicate 32 1 :: fingerprint"
  let ?k = "\<lparr>kn_path = Some [], kn_devices = []\<rparr>"
  have wf: "wf_known ?k" by (simp add: wf_known_def sorted_keys_def)
  have load: "known_load (Some []) NotThere = Ok ?k"
    by (simp add: known_load_def known_read_def known_parse_def lines_def)
  have len: "length ?fp = 32" by (rule length_replicate)
  have rem: "known_remember True 7 ?fp ?k NotThere =
      (True, ?k\<lparr>kn_devices := [(7, ?fp)]\<rparr>, Contents (known_to_text [(7, ?fp)]))"
    by (simp add: known_remember_def known_save_def)
  have path: "kn_path ?k = Some []" by simp
  from remembered_key_is_known [OF wf path load len rem] show ?thesis by blast
qed

end
