(* ===== verification/Host.thy ===== *)
theory Host
  imports Gate
begin

text \<open>
  The person at an agent's machine (\<open>crates/agent/src/host.rs\<close>): the one request
  they are asked about, their answer, and the session they are shown.

  Every operation holds the lock of the state while it looks at it, so an operation is a
  function on the state and an interleaving of sessions, window and timers is a list of
  events. A request's answer travels through a channel of its own: \<open>ho_channels\<close> lists
  the channels made so far, a request holding the index of its own one. \<open>ho_changes\<close>
  counts the calls of \<open>changed\<close>, which have the window look again. Time is in
  nanoseconds; the closure that ends a session is a value of type \<open>'c\<close>.
\<close>

subsection \<open>The state\<close>

definition ASK_TIMEOUT :: nat where "ASK_TIMEOUT = 30 * SECOND"

datatype server_state = Connecting | Online | Unreachable str

datatype oneshot = Open | Sent bool | Closed

record host_request =
  hr_number :: u64
  hr_viewer :: str
  hr_deadline :: nat
  hr_answer :: nat

record 'c host_session =
  hs_number :: u64
  hs_viewer :: str
  hs_since :: nat
  hs_end :: 'c

record 'c host =
  ho_interactive :: bool
  ho_server :: server_state
  ho_request :: "host_request option"
  ho_session :: "'c host_session option"
  ho_next :: u64
  ho_channels :: "oneshot list"
  ho_changes :: nat

definition host_new :: "bool \<Rightarrow> 'c host" where
  "host_new interactive =
     \<lparr>ho_interactive = interactive, ho_server = Connecting, ho_request = None, ho_session = None,
      ho_next = 0, ho_channels = [], ho_changes = 0\<rparr>"

record host_view =
  hv_server :: server_state
  hv_request :: "(str \<times> nat) option"
  hv_session :: "(str \<times> nat) option"

subsection \<open>The operations\<close>

definition asks :: "'c host \<Rightarrow> bool" where
  "asks h = ho_interactive h"

text \<open>Subtraction on \<open>nat\<close> saturates, as \<open>saturating_duration_since\<close> and
  \<open>duration_since\<close> do.\<close>

definition host_view_at :: "nat \<Rightarrow> 'c host \<Rightarrow> host_view" where
  "host_view_at now h =
     \<lparr>hv_server = ho_server h,
      hv_request = map_option (\<lambda>r. (hr_viewer r, hr_deadline r - now)) (ho_request h),
      hv_session = map_option (\<lambda>s. (hs_viewer s, now - hs_since s)) (ho_session h)\<rparr>"

definition changed :: "'c host \<Rightarrow> 'c host" where
  "changed h = h\<lparr>ho_changes := ho_changes h + 1\<rparr>"

definition set_server :: "server_state \<Rightarrow> 'c host \<Rightarrow> 'c host" where
  "set_server server h =
     (if ho_server h = server then h else changed (h\<lparr>ho_server := server\<rparr>))"

text \<open>What a dropped sender leaves behind: a receiver that learns nothing more.\<close>

definition drop_sender :: "host_request option \<Rightarrow> oneshot list \<Rightarrow> oneshot list" where
  "drop_sender request channels =
     (case request of
        None \<Rightarrow> channels
      | Some r \<Rightarrow> if channels ! hr_answer r = Open then channels[hr_answer r := Closed] else channels)"

text \<open>\<open>ask\<close>, up to where it waits: its number, its channel and when its own timer ends
  (\<open>waiting\<close> is when it starts). \<open>None\<close> when nobody answers and it is allowed at once.\<close>

record ask =
  ak_number :: u64
  ak_channel :: nat
  ak_until :: nat

definition ask_start :: "nat \<Rightarrow> nat \<Rightarrow> str \<Rightarrow> 'c host \<Rightarrow> 'c host \<times> ask option" where
  "ask_start now waiting viewer h =
     (if \<not> ho_interactive h then (h, None)
      else
        let number = ho_next h + 1;
            channel = length (ho_channels h);
            h1 = h\<lparr>ho_next := number,
                   ho_channels := drop_sender (ho_request h) (ho_channels h) @ [Open],
                   ho_request := Some \<lparr>hr_number = number, hr_viewer = viewer,
                                        hr_deadline = now + ASK_TIMEOUT, hr_answer = channel\<rparr>\<rparr> in
        (changed h1,
         Some \<lparr>ak_number = number, ak_channel = channel, ak_until = waiting + ASK_TIMEOUT\<rparr>))"

text \<open>Which of the three it waited for came first, and what it makes of it. \<open>None\<close>: that
  one has not come.\<close>

datatype ask_end = Answered | TimedOut | Gone

definition ask_outcome :: "nat \<Rightarrow> ask_end \<Rightarrow> ask \<Rightarrow> 'c host \<Rightarrow> bool option" where
  "ask_outcome now how a h =
     (case how of
        Answered \<Rightarrow>
          (case ho_channels h ! ak_channel a of
             Open \<Rightarrow> None
           | Sent allow \<Rightarrow> Some allow
           | Closed \<Rightarrow> Some False)
      | TimedOut \<Rightarrow> if now < ak_until a then None else Some False
      | Gone \<Rightarrow> Some False)"

definition ask_cleared :: "ask \<Rightarrow> 'c host \<Rightarrow> 'c host" where
  "ask_cleared a h =
     (let h1 = (if (case ho_request h of None \<Rightarrow> False | Some r \<Rightarrow> hr_number r = ak_number a)
                then h\<lparr>ho_channels := drop_sender (ho_request h) (ho_channels h), ho_request := None\<rparr>
                else h) in
      changed h1)"

definition ask_finish :: "nat \<Rightarrow> ask_end \<Rightarrow> ask \<Rightarrow> 'c host \<Rightarrow> ('c host \<times> bool) option" where
  "ask_finish now how a h =
     (case ask_outcome now how a h of
        None \<Rightarrow> None
      | Some allowed \<Rightarrow> Some (ask_cleared a h, allowed))"

definition host_answer :: "bool \<Rightarrow> 'c host \<Rightarrow> 'c host" where
  "host_answer allow h =
     (case ho_request h of
        None \<Rightarrow> changed h
      | Some r \<Rightarrow>
          changed (h\<lparr>ho_request := None, ho_channels := (ho_channels h)[hr_answer r := Sent allow]\<rparr>))"

definition session_started :: "nat \<Rightarrow> str \<Rightarrow> 'c \<Rightarrow> 'c host \<Rightarrow> 'c host \<times> u64" where
  "session_started now viewer fin h =
     (let number = ho_next h + 1 in
      (changed (h\<lparr>ho_next := number,
                  ho_session := Some \<lparr>hs_number = number, hs_viewer = viewer, hs_since = now,
                                       hs_end = fin\<rparr>\<rparr>),
       number))"

text \<open>The guard of a session, dropped when the session is over.\<close>

definition session_dropped :: "u64 \<Rightarrow> 'c host \<Rightarrow> 'c host" where
  "session_dropped number h =
     (if (case ho_session h of None \<Rightarrow> False | Some s \<Rightarrow> hs_number s = number)
      then changed (h\<lparr>ho_session := None\<rparr>) else h)"

definition end_session :: "'c host \<Rightarrow> 'c option" where
  "end_session h = map_option hs_end (ho_session h)"

definition poke :: "'c host \<Rightarrow> 'c host" where
  "poke h = changed h"

subsection \<open>Interleavings\<close>

text \<open>What can happen to the host, with the time it happens: a session asks, an ask ends, a
  session starts or ends, the person answers, the registration moves.\<close>

datatype 'c host_event =
    Asks nat str
  | AskEnds ask_end ask
  | SessionStarts str 'c
  | SessionEnds u64
  | Answers bool
  | ServerIs server_state
  | Pokes

fun host_step :: "nat \<Rightarrow> 'c host_event \<Rightarrow> 'c host \<Rightarrow> 'c host option" where
  "host_step now (Asks waiting viewer) h = Some (fst (ask_start now waiting viewer h))"
| "host_step now (AskEnds how a) h = map_option fst (ask_finish now how a h)"
| "host_step now (SessionStarts viewer fin) h = Some (fst (session_started now viewer fin h))"
| "host_step now (SessionEnds number) h = Some (session_dropped number h)"
| "host_step now (Answers allow) h = Some (host_answer allow h)"
| "host_step now (ServerIs server) h = Some (set_server server h)"
| "host_step now Pokes h = Some (poke h)"

primrec host_run :: "(nat \<times> 'c host_event) list \<Rightarrow> 'c host \<Rightarrow> 'c host option" where
  "host_run [] h = Some h"
| "host_run (e # es) h =
     (case host_step (fst e) (snd e) h of None \<Rightarrow> None | Some h' \<Rightarrow> host_run es h')"

lemmas host_op_defs =
  ask_start_def ask_finish_def ask_cleared_def host_answer_def session_started_def
  session_dropped_def set_server_def poke_def changed_def drop_sender_def Let_def

lemma host_run_append:
  "host_run (xs @ ys) h = (case host_run xs h of None \<Rightarrow> None | Some h' \<Rightarrow> host_run ys h')"
  by (induction xs arbitrary: h) (auto split: option.split)

subsection \<open>Nobody is let in unasked\<close>

text \<open>The request points at a channel that exists and is open; channels are never reopened.\<close>

definition host_ok :: "'c host \<Rightarrow> bool" where
  "host_ok h \<longleftrightarrow>
     (case ho_request h of None \<Rightarrow> True
      | Some r \<Rightarrow> hr_answer r < length (ho_channels h) \<and> ho_channels h ! hr_answer r = Open)"

lemma host_ok_new [simp]: "host_ok (host_new i)"
  by (simp add: host_ok_def host_new_def)

lemma host_step_ok:
  assumes "host_step now e h = Some h'" and "host_ok h"
  shows "host_ok h'"
  using assms
  by (cases e) (auto simp: host_ok_def host_op_defs nth_append split: option.splits if_splits)

text \<open>A channel that holds \<open>True\<close> after a step held it before, or the step is the person's
  yes to the request of that channel.\<close>

lemma host_step_allows:
  assumes "host_step now e h = Some h'" and "host_ok h"
    and "c < length (ho_channels h')" and "ho_channels h' ! c = Sent True"
  shows "(c < length (ho_channels h) \<and> ho_channels h ! c = Sent True) \<or>
    (e = Answers True \<and> (\<exists>r. ho_request h = Some r \<and> hr_answer r = c))"
  using assms
  by (cases e)
    (auto simp: host_ok_def host_op_defs nth_append nth_list_update split: option.splits if_splits)

lemma host_run_ok: "host_run es h = Some h' \<Longrightarrow> host_ok h \<Longrightarrow> host_ok h'"
  by (induction es arbitrary: h) (auto split: option.splits dest: host_step_ok)

lemma allowed_was_answered:
  assumes "host_run es h = Some h'" and "host_ok h"
    and "c < length (ho_channels h')" and "ho_channels h' ! c = Sent True"
    and "\<not> (c < length (ho_channels h) \<and> ho_channels h ! c = Sent True)"
  shows "\<exists>pre now post h1 r. es = pre @ (now, Answers True) # post \<and>
    host_run pre h = Some h1 \<and> ho_request h1 = Some r \<and> hr_answer r = c"
  using assms
proof (induction es arbitrary: h)
  case Nil
  then show ?case by simp
next
  case (Cons e es)
  obtain h1 where h1: "host_step (fst e) (snd e) h = Some h1" and rest: "host_run es h1 = Some h'"
    using Cons.prems(1) by (auto split: option.splits)
  have ok: "host_ok h1" using host_step_ok [OF h1 Cons.prems(2)] .
  show ?case
  proof (cases "c < length (ho_channels h1) \<and> ho_channels h1 ! c = Sent True")
    case True
    then obtain r where "snd e = Answers True" "ho_request h = Some r" "hr_answer r = c"
      using host_step_allows [OF h1 Cons.prems(2)] Cons.prems(5) by blast
    then have "e # es = [] @ (fst e, Answers True) # es \<and> host_run [] h = Some h \<and>
        ho_request h = Some r \<and> hr_answer r = c" by (cases e) simp
    then show ?thesis by blast
  next
    case False
    from Cons.IH [OF rest ok Cons.prems(3,4) False]
    obtain pre now post h2 r where "es = pre @ (now, Answers True) # post"
      "host_run pre h1 = Some h2" "ho_request h2 = Some r" "hr_answer r = c" by blast
    then have "e # es = (e # pre) @ (now, Answers True) # post \<and> host_run (e # pre) h = Some h2 \<and>
        ho_request h2 = Some r \<and> hr_answer r = c" using h1 by simp
    then show ?thesis by blast
  qed
qed

subsection \<open>The window follows\<close>

text \<open>Whatever changes what there is to show has the window look again.\<close>

lemma changes_are_announced:
  assumes "host_step now e h = Some h'" and "ho_changes h' = ho_changes h"
  shows "ho_server h' = ho_server h \<and> ho_request h' = ho_request h \<and> ho_session h' = ho_session h"
  using assms by (cases e) (auto simp: host_op_defs split: option.splits if_splits)

subsection \<open>Whose request is answered\<close>

text \<open>An answer goes to whatever request is waiting when it comes, not to the one that was
  shown: when the viewer on show leaves and another asks before the person clicks, the click
  meant for the first lets the second in.\<close>

lemma answer_reaches_the_next_viewer:
  assumes "run = [(0, Asks 0 first), (1, AskEnds Gone \<lparr>ak_number = 1, ak_channel = 0, ak_until = ASK_TIMEOUT\<rparr>),
      (2, Asks 2 second), (3, Answers True)]"
    and "first \<noteq> second"
  shows "\<exists>shown h :: 'c host. host_run (take 1 run) (host_new True) = Some shown \<and>
    map_option fst (hv_request (host_view_at 0 shown)) = Some first \<and>
    host_run run (host_new True) = Some h \<and>
    ask_outcome 3 Answered \<lparr>ak_number = 2, ak_channel = 1, ak_until = 2 + ASK_TIMEOUT\<rparr> h = Some True"
  unfolding assms(1)
  by (simp add: host_op_defs host_new_def ask_outcome_def host_view_at_def)

end
