(* ===== verification/Handshake.thy ===== *)
theory Handshake
  imports Host Grants Proto Access_Exchange
begin

text \<open>
  How an agent lets a viewer in (\<open>crates/agent/src/session.rs\<close>: \<open>serve\<close> up to the
  monitor list, \<open>authenticate\<close>, \<open>required\<close>, \<open>prove\<close>, \<open>approve\<close>): the
  handshake as a machine that stops wherever the code waits for the viewer or for the
  person at the agent.

  A step is given what the code reads from outside (\<open>hs_env\<close>: clocks, displays, the
  connection's binding, a seed, which messages can still be sent) and the state the agent
  shares between sessions: the gate, the grants and the host. It gives back what was sent
  and how the connection was closed. A step is \<open>None\<close> where the machine does not wait for
  that event, and where the list of random values of a gate runs out.
\<close>

subsection \<open>The gate of an agent\<close>

text \<open>\<open>dyn Gate\<close>: the one-time password of the portable agent, or the access password of an
  installed one.\<close>

datatype any_gate = OneTimeGate password | AccessGate access_password

fun gate_secret :: "any_gate \<Rightarrow> secret" where
  "gate_secret (OneTimeGate p) = password_secret p"
| "gate_secret (AccessGate a) = access_secret a"

fun gate_material :: "nat \<Rightarrow> any_gate \<Rightarrow> str + bytes" where
  "gate_material now (OneTimeGate p) = password_material now p"
| "gate_material now (AccessGate a) = access_material now a"

fun gate_accepted :: "any_gate \<Rightarrow> any_gate" where
  "gate_accepted (OneTimeGate p) = OneTimeGate (password_accepted p)"
| "gate_accepted (AccessGate a) = AccessGate (access_accepted a)"

fun gate_rejected :: "nat \<Rightarrow> any_gate \<Rightarrow> (any_gate \<times> verdict) option" where
  "gate_rejected now (OneTimeGate p) = map_option (map_prod OneTimeGate (\<lambda>v. v)) (password_rejected now p)"
| "gate_rejected now (AccessGate a) = map_option (map_prod AccessGate (\<lambda>v. v)) (access_rejected now a)"

subsection \<open>State and environment\<close>

definition MAX_FPS :: u8 where "MAX_FPS = 120"

text \<open>The closure that ends a session is the number of its connection.\<close>

record shared =
  sh_gate :: "any_gate option"
  sh_grants :: "grants option"
  sh_host :: "nat host option"

datatype path = Local | Internet | Relayed

fun show_path :: "path \<Rightarrow> str" where
  "show_path Local = lit ''on the local network''"
| "show_path Internet = lit ''across the internet''"
| "show_path Relayed = lit ''through the server's relay''"

record hs_config =
  cf_password_with_grant :: bool
  cf_path :: path
  cf_ip :: str
  cf_conn :: nat

record hs_env =
  en_now :: nat
  en_unix :: u64
  en_binding :: "bytes option"
  en_seed :: "bytes option"
  en_displays :: "monitor list option"
  en_encoders :: "codec list"
  en_delivers :: "control \<Rightarrow> bool"

record admitted =
  ad_user :: "str option"
  ad_role :: role

text \<open>\<open>Over None\<close>: the session ended in an error without closing the connection with a
  reason. \<open>Panicked\<close> is the \<open>expect\<close> of the exchange's key derivation.\<close>

datatype phase =
    AwaitHello
  | AwaitAuth required
  | AwaitPassword admitted
  | AwaitProve agent_half admitted
  | AwaitPerson admitted ask
  | LetIn admitted "u64 option"
  | Over "(close_code \<times> str) option"
  | Panicked

record handshake =
  hk_phase :: phase
  hk_monitors :: "monitor list"
  hk_codecs :: "codec list"

definition handshake_new :: handshake where
  "handshake_new = \<lparr>hk_phase = AwaitHello, hk_monitors = [], hk_codecs = []\<rparr>"

datatype said = Message control | Finished | Failed

datatype hs_event = Received said | PersonEnds ask_end

datatype outgoing = Send control | CloseConn close_code str

type_synonym hs_result = "shared \<times> phase \<times> outgoing list"

subsection \<open>Sending and closing\<close>

definition close_with :: "close_code \<Rightarrow> str \<Rightarrow> shared \<Rightarrow> hs_result" where
  "close_with code reason sh = (sh, Over (Some (code, reason)), [CloseConn code reason])"

abbreviation refuse :: "str \<Rightarrow> shared \<Rightarrow> hs_result" where
  "refuse reason sh \<equiv> close_with AUTH_FAILED reason sh"

definition sending :: "hs_env \<Rightarrow> control \<Rightarrow> shared \<Rightarrow> (shared \<Rightarrow> hs_result) \<Rightarrow> hs_result" where
  "sending E m sh continue =
     (if en_delivers E m
      then (case continue sh of (sh', ph, outs) \<Rightarrow> (sh', ph, Send m # outs))
      else (sh, Over None, []))"

subsection \<open>The person at the machine\<close>

definition describe :: "hs_config \<Rightarrow> str" where
  "describe cfg =
     (case cf_path cfg of
        Relayed \<Rightarrow> lit ''a viewer, through the server's relay''
      | p \<Rightarrow> lit ''a viewer at '' @ cf_ip cfg @ lit '', '' @ show_path p)"

definition viewer_shown :: "hs_config \<Rightarrow> admitted \<Rightarrow> str" where
  "viewer_shown cfg adm =
     (case ad_user adm of
        Some user \<Rightarrow> user @ lit '' ('' @ role_as_str (ad_role adm) @ lit ''), '' @ describe cfg
      | None \<Rightarrow> describe cfg)"

text \<open>The monitor list is what tells the viewer it is in. A guard that shows the session is
  dropped when it cannot be sent.\<close>

definition let_in :: "hs_env \<Rightarrow> monitor list \<Rightarrow> admitted \<Rightarrow> u64 option \<Rightarrow> shared \<Rightarrow> hs_result" where
  "let_in E monitors adm guard sh =
     (if en_delivers E (MonitorList monitors)
      then (sh, LetIn adm guard, [Send (MonitorList monitors)])
      else (case guard of
              None \<Rightarrow> sh
            | Some number \<Rightarrow> sh\<lparr>sh_host := map_option (session_dropped number) (sh_host sh)\<rparr>,
            Over None, []))"

definition show_session :: "hs_config \<Rightarrow> hs_env \<Rightarrow> monitor list \<Rightarrow> admitted \<Rightarrow> nat host \<Rightarrow> shared \<Rightarrow> hs_result" where
  "show_session cfg E monitors adm host sh =
     (case session_started (en_now E) (viewer_shown cfg adm) (cf_conn cfg) host of
        (host', number) \<Rightarrow> let_in E monitors adm (Some number) (sh\<lparr>sh_host := Some host'\<rparr>))"

definition ask_person :: "hs_config \<Rightarrow> hs_env \<Rightarrow> monitor list \<Rightarrow> admitted \<Rightarrow> nat host \<Rightarrow> shared \<Rightarrow> hs_result" where
  "ask_person cfg E monitors adm host sh =
     (case ask_start (en_now E) (en_now E) (viewer_shown cfg adm) host of
        (host', None) \<Rightarrow> show_session cfg E monitors adm host' sh
      | (host', Some a) \<Rightarrow> (sh\<lparr>sh_host := Some host'\<rparr>, AwaitPerson adm a, []))"

definition approve :: "hs_config \<Rightarrow> hs_env \<Rightarrow> monitor list \<Rightarrow> admitted \<Rightarrow> shared \<Rightarrow> hs_result" where
  "approve cfg E monitors adm sh =
     (case sh_host sh of
        None \<Rightarrow> let_in E monitors adm None sh
      | Some host \<Rightarrow>
          if asks host then sending E AwaitingApproval sh (ask_person cfg E monitors adm host)
          else ask_person cfg E monitors adm host sh)"

definition person_ends ::
  "hs_config \<Rightarrow> hs_env \<Rightarrow> monitor list \<Rightarrow> admitted \<Rightarrow> ask \<Rightarrow> ask_end \<Rightarrow> shared \<Rightarrow> hs_result option" where
  "person_ends cfg E monitors adm a how sh =
     (case sh_host sh of
        None \<Rightarrow> None
      | Some host \<Rightarrow>
          (case ask_finish (en_now E) how a host of
             None \<Rightarrow> None
           | Some (host', allowed) \<Rightarrow>
               let sh1 = sh\<lparr>sh_host := Some host'\<rparr> in
               Some (if allowed then show_session cfg E monitors adm host' sh1
                     else close_with DECLINED (lit ''the person at the device declined'') sh1)))"

subsection \<open>The password\<close>

text \<open>What the agent asks of a viewer.\<close>

definition required_of :: "hs_config \<Rightarrow> shared \<Rightarrow> required" where
  "required_of cfg sh =
     (case sh_gate sh of
        None \<Rightarrow> required.Grant
      | Some lock \<Rightarrow>
          let secr = gate_secret lock in
          (case (sh_grants sh \<noteq> None, cf_password_with_grant cfg) of
             (True, True) \<Rightarrow> Both secr
           | (True, False) \<Rightarrow> Either secr
           | (False, _) \<Rightarrow> Password secr))"

text \<open>\<open>prove\<close>, up to the viewer's proof and from there.\<close>

definition prove_start ::
  "('prk, 'st) crypto \<Rightarrow> hs_env \<Rightarrow> bytes \<Rightarrow> admitted \<Rightarrow> shared \<Rightarrow> hs_result" where
  "prove_start C E started adm sh =
     (case sh_gate sh of
        None \<Rightarrow> refuse (lit ''this device has no access password; sign in to its server instead'') sh
      | Some lock \<Rightarrow>
          (case gate_material (en_now E) lock of
             Inl reason \<Rightarrow> refuse reason sh
           | Inr mat \<Rightarrow>
               (case en_binding E of
                  None \<Rightarrow> refuse (lit ''this connection cannot carry a password exchange'') sh
                | Some binding \<Rightarrow>
                    (case en_seed E of
                       None \<Rightarrow> refuse (lit ''this machine's random number generator failed'') sh
                     | Some seed \<Rightarrow>
                         (case agent_answer C mat binding seed started of
                            None \<Rightarrow> (sh, Panicked, [])
                          | Some (Inl _) \<Rightarrow>
                              refuse (lit ''that is not the start of a password exchange'') sh
                          | Some (Inr (half, answer)) \<Rightarrow>
                              sending E (AuthAnswer answer) sh (\<lambda>sh'. (sh', AwaitProve half adm, [])))))))"

definition prove_finish ::
  "hs_config \<Rightarrow> hs_env \<Rightarrow> monitor list \<Rightarrow> agent_half \<Rightarrow> admitted \<Rightarrow> bytes \<Rightarrow> shared \<Rightarrow> hs_result option" where
  "prove_finish cfg E monitors half adm proof sh =
     (case sh_gate sh of
        None \<Rightarrow> None
      | Some lock \<Rightarrow>
          (case agent_check half proof of
             Inr ours \<Rightarrow>
               Some (sending E (AuthProved ours) (sh\<lparr>sh_gate := Some (gate_accepted lock)\<rparr>)
                       (approve cfg E monitors adm))
           | Inl _ \<Rightarrow>
               (case gate_rejected (en_now E) lock of
                  None \<Rightarrow> None
                | Some (lock', Rejected reason) \<Rightarrow> Some (refuse reason (sh\<lparr>sh_gate := Some lock'\<rparr>))
                | Some (lock', Replaced _) \<Rightarrow>
                    Some (refuse (lit ''wrong password'') (sh\<lparr>sh_gate := Some lock'\<rparr>)))))"

subsection \<open>The steps\<close>

definition agent_caps :: "monitor list \<Rightarrow> codec list \<Rightarrow> caps" where
  "agent_caps monitors encoders =
     \<lparr>codecs = encoders,
      max_width = (case reduce max (map m_width monitors) of None \<Rightarrow> 0 | Some w \<Rightarrow> w),
      max_height = (case reduce max (map m_height monitors) of None \<Rightarrow> 0 | Some h \<Rightarrow> h),
      max_fps = MAX_FPS\<rparr>"

definition greet :: "hs_config \<Rightarrow> hs_env \<Rightarrow> monitor list \<Rightarrow> shared \<Rightarrow> hs_result" where
  "greet cfg E monitors sh =
     sending E (Hello PROTOCOL_VERSION (agent_caps monitors (en_encoders E))) sh (\<lambda>sh1.
       if sh_gate sh1 \<noteq> None \<or> sh_grants sh1 \<noteq> None then
         let req = required_of cfg sh1 in
         sending E (AuthRequired req) sh1 (\<lambda>sh2. (sh2, AwaitAuth req, []))
       else approve cfg E monitors \<lparr>ad_user = None, ad_role = Full\<rparr> sh1)"

definition present ::
  "'e grant_crypto \<Rightarrow> hs_config \<Rightarrow> hs_env \<Rightarrow> monitor list \<Rightarrow> required \<Rightarrow> signed_grant \<Rightarrow> shared \<Rightarrow> hs_result" where
  "present GC cfg E monitors req sg sh =
     (case sh_grants sh of
        None \<Rightarrow> refuse (lit ''this device takes a password, not a grant'') sh
      | Some gs \<Rightarrow>
          (case check_at GC sg (en_unix E) gs of
             (Inl reason, gs') \<Rightarrow> refuse reason (sh\<lparr>sh_grants := Some gs'\<rparr>)
           | (Inr g, gs') \<Rightarrow>
               let sh1 = sh\<lparr>sh_grants := Some gs'\<rparr>;
                   adm = \<lparr>ad_user = Some (g_user g), ad_role = g_role g\<rparr> in
               if password_after_grant req then (sh1, AwaitPassword adm, [])
               else approve cfg E monitors adm sh1))"

definition authenticate ::
  "('prk, 'st) crypto \<Rightarrow> 'e grant_crypto \<Rightarrow> hs_config \<Rightarrow> hs_env \<Rightarrow> monitor list \<Rightarrow> required \<Rightarrow>
     said \<Rightarrow> shared \<Rightarrow> hs_result" where
  "authenticate C GC cfg E monitors req said sh =
     (case said of
        Failed \<Rightarrow> (sh, Over None, [])
      | Message (Present sg) \<Rightarrow> present GC cfg E monitors req sg sh
      | Message (AuthStart started) \<Rightarrow>
          if \<not> password_is_enough req
          then refuse (lit ''this device needs a grant from its server as well as its password'') sh
          else prove_start C E started \<lparr>ad_user = None, ad_role = Full\<rparr> sh
      | _ \<Rightarrow> close_with PROTOCOL (lit ''expected AuthStart or Present'') sh)"

definition password_too ::
  "('prk, 'st) crypto \<Rightarrow> hs_env \<Rightarrow> admitted \<Rightarrow> said \<Rightarrow> shared \<Rightarrow> hs_result" where
  "password_too C E adm said sh =
     (case said of
        Failed \<Rightarrow> (sh, Over None, [])
      | Message (AuthStart started) \<Rightarrow> prove_start C E started adm sh
      | _ \<Rightarrow> refuse (lit ''this device needs its access password as well as a grant'') sh)"

definition take_proof ::
  "hs_config \<Rightarrow> hs_env \<Rightarrow> monitor list \<Rightarrow> agent_half \<Rightarrow> admitted \<Rightarrow> said \<Rightarrow> shared \<Rightarrow> hs_result option" where
  "take_proof cfg E monitors half adm said sh =
     (case said of
        Failed \<Rightarrow> Some (sh, Over None, [])
      | Message (AuthProve proof) \<Rightarrow> prove_finish cfg E monitors half adm proof sh
      | _ \<Rightarrow> Some (close_with PROTOCOL (lit ''expected AuthProve'') sh))"

definition hs_receive ::
  "('prk, 'st) crypto \<Rightarrow> 'e grant_crypto \<Rightarrow> hs_config \<Rightarrow> hs_env \<Rightarrow> monitor list \<Rightarrow>
     phase \<Rightarrow> said \<Rightarrow> shared \<Rightarrow> hs_result option" where
  "hs_receive C GC cfg E monitors ph said sh =
     (case ph of
        AwaitAuth req \<Rightarrow> Some (authenticate C GC cfg E monitors req said sh)
      | AwaitPassword adm \<Rightarrow> Some (password_too C E adm said sh)
      | AwaitProve half adm \<Rightarrow> take_proof cfg E monitors half adm said sh
      | _ \<Rightarrow> None)"

text \<open>The first message is read before the displays are listed.\<close>

definition hs_hello ::
  "hs_config \<Rightarrow> hs_env \<Rightarrow> said \<Rightarrow> shared \<Rightarrow> hs_result" where
  "hs_hello cfg E said sh =
     (case said of
        Failed \<Rightarrow> (sh, Over None, [])
      | Message (Hello version _) \<Rightarrow>
          if version = PROTOCOL_VERSION then
            (case en_displays E of
               None \<Rightarrow> (sh, Over None, [])
             | Some monitors \<Rightarrow> greet cfg E monitors sh)
          else close_with VERSION_MISMATCH
                 (lit ''agent speaks protocol '' @ show_nat (unat PROTOCOL_VERSION) @ lit '', viewer '' @
                  show_nat (unat version)) sh
      | _ \<Rightarrow> close_with PROTOCOL (lit ''expected Hello'') sh)"

definition hs_step ::
  "('prk, 'st) crypto \<Rightarrow> 'e grant_crypto \<Rightarrow> hs_config \<Rightarrow> hs_env \<Rightarrow> hs_event \<Rightarrow> shared \<times> handshake \<Rightarrow>
     ((shared \<times> handshake) \<times> outgoing list) option" where
  "hs_step C GC cfg E ev s =
     (case s of (sh, hk) \<Rightarrow>
      (case ev of
         Received said \<Rightarrow>
           if hk_phase hk = AwaitHello then
             let monitors = (case en_displays E of None \<Rightarrow> [] | Some ms \<Rightarrow> ms) in
             (case hs_hello cfg E said sh of
                (sh', ph, outs) \<Rightarrow>
                  Some ((sh', \<lparr>hk_phase = ph, hk_monitors = monitors, hk_codecs = en_encoders E\<rparr>), outs))
           else map_option (\<lambda>(sh', ph, outs). ((sh', hk\<lparr>hk_phase := ph\<rparr>), outs))
                  (hs_receive C GC cfg E (hk_monitors hk) (hk_phase hk) said sh)
       | PersonEnds how \<Rightarrow>
           (case hk_phase hk of
              AwaitPerson adm a \<Rightarrow>
                map_option (\<lambda>(sh', ph, outs). ((sh', hk\<lparr>hk_phase := ph\<rparr>), outs))
                  (person_ends cfg E (hk_monitors hk) adm a how sh)
            | _ \<Rightarrow> None)))"

end
