(* ===== verification/Handshake_Theorems.thy ===== *)
theory Handshake_Theorems
  imports Handshake
begin

text \<open>
  What the agent's handshake guarantees: whoever is let in has earned it, whatever happens
  in between and in whatever order the messages come; a viewer that is turned away is told
  why.
\<close>

subsection \<open>Traces\<close>

text \<open>What happens while one viewer is at the door: a step of its handshake, something that
  befalls the host (the person answers, other sessions ask), and gate and grants being
  changed by anyone else, in any way. A trace keeps every label with the shared state it
  happened in.\<close>

datatype hs_label =
    Here hs_env hs_event
  | There nat "nat host_event"
  | Elsewhere any_gate grants

inductive hs_trace ::
  "('prk, 'st) crypto \<Rightarrow> 'e grant_crypto \<Rightarrow> hs_config \<Rightarrow> shared \<Rightarrow> (hs_label \<times> shared) list \<Rightarrow>
     shared \<times> handshake \<Rightarrow> bool"
  for C GC cfg sh0 where
  begins: "hs_trace C GC cfg sh0 [] (sh0, handshake_new)"
| here: "hs_trace C GC cfg sh0 tr (sh, hk) \<Longrightarrow> hs_step C GC cfg E ev (sh, hk) = Some (s', outs) \<Longrightarrow>
    hs_trace C GC cfg sh0 (tr @ [(Here E ev, sh)]) s'"
| there: "hs_trace C GC cfg sh0 tr (sh, hk) \<Longrightarrow> sh_host sh = Some h \<Longrightarrow> host_step now e h = Some h' \<Longrightarrow>
    hs_trace C GC cfg sh0 (tr @ [(There now e, sh)]) (sh\<lparr>sh_host := Some h'\<rparr>, hk)"
| elsewhere: "hs_trace C GC cfg sh0 tr (sh, hk) \<Longrightarrow>
    hs_trace C GC cfg sh0 (tr @ [(Elsewhere g gs, sh)])
      (sh\<lparr>sh_gate := map_option (\<lambda>_. g) (sh_gate sh), sh_grants := map_option (\<lambda>_. gs) (sh_grants sh)\<rparr>, hk)"

subsection \<open>What earns a place\<close>

definition anonymous :: admitted where
  "anonymous = \<lparr>ad_user = None, ad_role = Full\<rparr>"

text \<open>A grant was presented that the agent's check took, and it names the user and the role.\<close>

definition grant_checked :: "'e grant_crypto \<Rightarrow> (hs_label \<times> shared) list \<Rightarrow> admitted \<Rightarrow> bool" where
  "grant_checked GC tr adm \<longleftrightarrow>
     (\<exists>E sg sh gs g gs'. (Here E (Received (Message (Present sg))), sh) \<in> set tr \<and>
        sh_grants sh = Some gs \<and> check_at GC sg (en_unix E) gs = (Inr g, gs') \<and>
        adm = \<lparr>ad_user = Some (g_user g), ad_role = g_role g\<rparr>)"

text \<open>An exchange was answered with the material of the gate, on this connection's binding.\<close>

definition answered :: "('prk, 'st) crypto \<Rightarrow> (hs_label \<times> shared) list \<Rightarrow> agent_half \<Rightarrow> bool" where
  "answered C tr half \<longleftrightarrow>
     (\<exists>E started sh g mat b seed ans. (Here E (Received (Message (AuthStart started))), sh) \<in> set tr \<and>
        sh_gate sh = Some g \<and> gate_material (en_now E) g = Inr mat \<and> en_binding E = Some b \<and>
        en_seed E = Some seed \<and> agent_answer C mat b seed started = Some (Inr (half, ans)))"

definition password_proved :: "('prk, 'st) crypto \<Rightarrow> (hs_label \<times> shared) list \<Rightarrow> bool" where
  "password_proved C tr \<longleftrightarrow>
     (\<exists>half E proof sh ours. answered C tr half \<and>
        (Here E (Received (Message (AuthProve proof))), sh) \<in> set tr \<and> agent_check half proof = Inr ours)"

text \<open>The person said yes to a request made since, which named this viewer.\<close>

definition person_allowed :: "shared \<Rightarrow> (hs_label \<times> shared) list \<Rightarrow> str \<Rightarrow> bool" where
  "person_allowed sh0 tr viewer \<longleftrightarrow>
     (\<exists>now sh h0 h r. (There now (Answers True), sh) \<in> set tr \<and> sh_host sh0 = Some h0 \<and>
        sh_host sh = Some h \<and> ho_request h = Some r \<and> hr_viewer r = viewer \<and>
        length (ho_channels h0) \<le> hr_answer r)"

definition wants_both :: "hs_config \<Rightarrow> shared \<Rightarrow> bool" where
  "wants_both cfg sh0 \<longleftrightarrow> sh_gate sh0 \<noteq> None \<and> sh_grants sh0 \<noteq> None \<and> cf_password_with_grant cfg"

definition may_enter ::
  "('prk, 'st) crypto \<Rightarrow> 'e grant_crypto \<Rightarrow> hs_config \<Rightarrow> shared \<Rightarrow> (hs_label \<times> shared) list \<Rightarrow> admitted \<Rightarrow> bool" where
  "may_enter C GC cfg sh0 tr adm \<longleftrightarrow>
     (sh_gate sh0 = None \<and> sh_grants sh0 = None \<and> adm = anonymous) \<or>
     (sh_grants sh0 \<noteq> None \<and> grant_checked GC tr adm \<and> (wants_both cfg sh0 \<longrightarrow> password_proved C tr)) \<or>
     (sh_gate sh0 \<noteq> None \<and> \<not> wants_both cfg sh0 \<and> password_proved C tr \<and> adm = anonymous)"

lemma grant_checked_append [intro]: "grant_checked GC tr adm \<Longrightarrow> grant_checked GC (tr @ l) adm"
  unfolding grant_checked_def by auto blast

lemma answered_append [intro]: "answered C tr half \<Longrightarrow> answered C (tr @ l) half"
  unfolding answered_def by auto blast

lemma password_proved_append [intro]: "password_proved C tr \<Longrightarrow> password_proved C (tr @ l)"
  unfolding password_proved_def using answered_append by fastforce

lemma person_allowed_append [intro]: "person_allowed sh0 tr v \<Longrightarrow> person_allowed sh0 (tr @ l) v"
  unfolding person_allowed_def by auto blast

lemma may_enter_append [intro]: "may_enter C GC cfg sh0 tr adm \<Longrightarrow> may_enter C GC cfg sh0 (tr @ l) adm"
  unfolding may_enter_def by blast

subsection \<open>The invariant\<close>

definition asks_rightly :: "hs_config \<Rightarrow> shared \<Rightarrow> required \<Rightarrow> bool" where
  "asks_rightly cfg sh0 req \<longleftrightarrow>
     (password_is_enough req \<longleftrightarrow> sh_gate sh0 \<noteq> None \<and> \<not> wants_both cfg sh0) \<and>
     (password_after_grant req \<longleftrightarrow> wants_both cfg sh0)"

definition waits_rightly ::
  "hs_config \<Rightarrow> shared \<Rightarrow> (hs_label \<times> shared) list \<Rightarrow> shared \<Rightarrow> admitted \<Rightarrow> ask \<Rightarrow> bool" where
  "waits_rightly cfg sh0 tr sh adm a \<longleftrightarrow>
     (case (sh_host sh0, sh_host sh) of
        (Some h0, Some h) \<Rightarrow>
          length (ho_channels h0) \<le> ak_channel a \<and> ak_channel a < length (ho_channels h) \<and>
          (\<forall>r. ho_request h = Some r \<and> hr_answer r = ak_channel a \<longrightarrow> hr_viewer r = viewer_shown cfg adm) \<and>
          (ho_channels h ! ak_channel a = Sent True \<longrightarrow> person_allowed sh0 tr (viewer_shown cfg adm))
      | _ \<Rightarrow> False)"

definition host_asks :: "shared \<Rightarrow> bool" where
  "host_asks sh \<longleftrightarrow> (case sh_host sh of None \<Rightarrow> False | Some h \<Rightarrow> asks h)"

definition phase_ok ::
  "('prk, 'st) crypto \<Rightarrow> 'e grant_crypto \<Rightarrow> hs_config \<Rightarrow> shared \<Rightarrow> (hs_label \<times> shared) list \<Rightarrow> shared \<Rightarrow>
     phase \<Rightarrow> bool" where
  "phase_ok C GC cfg sh0 tr sh ph \<longleftrightarrow>
     (case ph of
        AwaitAuth req \<Rightarrow> asks_rightly cfg sh0 req
      | AwaitPassword adm \<Rightarrow> wants_both cfg sh0 \<and> grant_checked GC tr adm
      | AwaitProve half adm \<Rightarrow>
          sh_gate sh0 \<noteq> None \<and> answered C tr half \<and>
          (if wants_both cfg sh0 then grant_checked GC tr adm else adm = anonymous)
      | AwaitPerson adm a \<Rightarrow> may_enter C GC cfg sh0 tr adm \<and> waits_rightly cfg sh0 tr sh adm a
      | LetIn adm guard \<Rightarrow>
          may_enter C GC cfg sh0 tr adm \<and>
          (host_asks sh0 \<longrightarrow> person_allowed sh0 tr (viewer_shown cfg adm))
      | _ \<Rightarrow> True)"

lemma phase_ok_simps [simp]:
  "phase_ok C GC cfg sh0 tr sh AwaitHello"
  "phase_ok C GC cfg sh0 tr sh (AwaitAuth req) \<longleftrightarrow> asks_rightly cfg sh0 req"
  "phase_ok C GC cfg sh0 tr sh (AwaitPassword adm) \<longleftrightarrow> wants_both cfg sh0 \<and> grant_checked GC tr adm"
  "phase_ok C GC cfg sh0 tr sh (AwaitProve half adm) \<longleftrightarrow>
     sh_gate sh0 \<noteq> None \<and> answered C tr half \<and>
     (if wants_both cfg sh0 then grant_checked GC tr adm else adm = anonymous)"
  "phase_ok C GC cfg sh0 tr sh (AwaitPerson adm a) \<longleftrightarrow>
     may_enter C GC cfg sh0 tr adm \<and> waits_rightly cfg sh0 tr sh adm a"
  "phase_ok C GC cfg sh0 tr sh (LetIn adm guard) \<longleftrightarrow>
     may_enter C GC cfg sh0 tr adm \<and> (host_asks sh0 \<longrightarrow> person_allowed sh0 tr (viewer_shown cfg adm))"
  "phase_ok C GC cfg sh0 tr sh (Over why)" "phase_ok C GC cfg sh0 tr sh Panicked"
  by (simp_all add: phase_ok_def)

text \<open>What never changes of the shared state, and what only grows.\<close>

definition shared_ok :: "shared \<Rightarrow> shared \<Rightarrow> bool" where
  "shared_ok sh0 sh \<longleftrightarrow>
     (sh_gate sh = None \<longleftrightarrow> sh_gate sh0 = None) \<and> (sh_grants sh = None \<longleftrightarrow> sh_grants sh0 = None) \<and>
     (case (sh_host sh0, sh_host sh) of
        (None, None) \<Rightarrow> True
      | (Some h0, Some h) \<Rightarrow>
          host_ok h \<and> ho_interactive h = ho_interactive h0 \<and> length (ho_channels h0) \<le> length (ho_channels h)
      | _ \<Rightarrow> False)"

lemma host_step_grows:
  assumes "host_step now e h = Some h'"
  shows "ho_interactive h' = ho_interactive h \<and> length (ho_channels h) \<le> length (ho_channels h')"
  using assms by (cases e) (auto simp: host_op_defs split: option.splits if_splits)

lemma host_step_request:
  assumes "host_step now e h = Some h'" and "ho_request h' = Some r"
  shows "ho_request h = Some r \<or> hr_answer r = length (ho_channels h)"
  using assms by (cases e) (auto simp: host_op_defs split: option.splits if_splits)

lemma shared_ok_host:
  assumes "shared_ok sh0 sh" and "sh_host sh = Some h" and "host_step now e h = Some h'"
  shows "shared_ok sh0 (sh\<lparr>sh_host := Some h'\<rparr>)"
  using assms host_step_grows [OF assms(3)] host_step_ok [OF assms(3)]
  by (auto simp: shared_ok_def split: option.splits)

lemma shared_ok_gate:
  "shared_ok sh0 sh \<Longrightarrow> sh_gate sh = Some g \<Longrightarrow> shared_ok sh0 (sh\<lparr>sh_gate := Some g'\<rparr>)"
  by (auto simp: shared_ok_def)

lemma shared_ok_grants:
  "shared_ok sh0 sh \<Longrightarrow> sh_grants sh = Some g \<Longrightarrow> shared_ok sh0 (sh\<lparr>sh_grants := Some g'\<rparr>)"
  by (auto simp: shared_ok_def)

subsection \<open>Every step keeps it\<close>

text \<open>What a step leaves behind.\<close>

definition result_ok ::
  "('prk, 'st) crypto \<Rightarrow> 'e grant_crypto \<Rightarrow> hs_config \<Rightarrow> shared \<Rightarrow> (hs_label \<times> shared) list \<Rightarrow> hs_result \<Rightarrow> bool" where
  "result_ok C GC cfg sh0 tr res \<longleftrightarrow>
     (case res of (sh, ph, outs) \<Rightarrow> shared_ok sh0 sh \<and> phase_ok C GC cfg sh0 tr sh ph)"

lemma result_ok_close [simp]:
  "result_ok C GC cfg sh0 tr (close_with code reason sh) \<longleftrightarrow> shared_ok sh0 sh"
  by (simp add: result_ok_def close_with_def)

lemma result_ok_over [simp]:
  "result_ok C GC cfg sh0 tr (sh, Over why, outs) \<longleftrightarrow> shared_ok sh0 sh"
  by (simp add: result_ok_def)

lemma result_ok_sending:
  assumes "shared_ok sh0 sh" and "result_ok C GC cfg sh0 tr (continue sh)"
  shows "result_ok C GC cfg sh0 tr (sending E m sh continue)"
  using assms by (auto simp: sending_def result_ok_def split: prod.splits)

lemma let_in_ok:
  assumes "shared_ok sh0 sh" and "may_enter C GC cfg sh0 tr adm"
    and "host_asks sh0 \<longrightarrow> person_allowed sh0 tr (viewer_shown cfg adm)"
  shows "result_ok C GC cfg sh0 tr (let_in E monitors adm guard sh)"
proof -
  have "shared_ok sh0 (sh\<lparr>sh_host := map_option (session_dropped n) (sh_host sh)\<rparr>)" for n
  proof (cases "sh_host sh")
    case None
    then show ?thesis using assms(1) by (simp add: shared_ok_def)
  next
    case (Some h)
    show ?thesis
      using shared_ok_host [OF assms(1) Some, of 0 "SessionEnds n" "session_dropped n h"] Some by simp
  qed
  then show ?thesis
    using assms by (auto simp: let_in_def result_ok_def split: option.splits)
qed

lemma show_session_ok:
  assumes "shared_ok sh0 (sh\<lparr>sh_host := Some h\<rparr>)" and "may_enter C GC cfg sh0 tr adm"
    and "host_asks sh0 \<longrightarrow> person_allowed sh0 tr (viewer_shown cfg adm)"
  shows "result_ok C GC cfg sh0 tr (show_session cfg E monitors adm h sh)"
proof -
  obtain h' n where st: "session_started (en_now E) (viewer_shown cfg adm) (cf_conn cfg) h = (h', n)" by force
  then have "shared_ok sh0 (sh\<lparr>sh_host := Some h'\<rparr>)"
    using shared_ok_host [OF assms(1), of h 0 "SessionStarts (viewer_shown cfg adm) (cf_conn cfg)" h']
      shared_ok_host [OF assms(1), of h "en_now E" "SessionStarts (viewer_shown cfg adm) (cf_conn cfg)" h']
    by simp
  then show ?thesis using let_in_ok [OF _ assms(2,3)] st by (simp add: show_session_def)
qed

lemma ask_person_ok:
  assumes "shared_ok sh0 sh" and "sh_host sh = Some h" and "may_enter C GC cfg sh0 tr adm"
  shows "result_ok C GC cfg sh0 tr (ask_person cfg E monitors adm h sh)"
proof (cases "ho_interactive h")
  case False
  then have "\<not> host_asks sh0"
    using assms(1,2) by (auto simp: shared_ok_def host_asks_def asks_def split: option.splits)
  moreover have "shared_ok sh0 (sh\<lparr>sh_host := Some h\<rparr>)" using assms(1,2) by (simp add: shared_ok_def)
  ultimately show ?thesis
    using False show_session_ok [OF _ assms(3)] by (simp add: ask_person_def ask_start_def)
next
  case True
  let ?v = "viewer_shown cfg adm"
  obtain h' a where st: "ask_start (en_now E) (en_now E) ?v h = (h', Some a)"
    using True by (auto simp: ask_start_def Let_def)
  have ok: "shared_ok sh0 (sh\<lparr>sh_host := Some h'\<rparr>)"
    using shared_ok_host [OF assms(1,2), of "en_now E" "Asks (en_now E) ?v" h'] st by simp
  have "ak_channel a = length (ho_channels h)" "length (ho_channels h') = Suc (length (ho_channels h))"
    "ho_channels h' ! ak_channel a = Open" "\<forall>r. ho_request h' = Some r \<longrightarrow> hr_viewer r = ?v"
    using st True by (auto simp: ask_start_def drop_sender_def changed_def Let_def nth_append split: option.splits)
  then have "waits_rightly cfg sh0 tr (sh\<lparr>sh_host := Some h'\<rparr>) adm a"
    using assms(1,2) by (auto simp: waits_rightly_def shared_ok_def split: option.splits)
  then show ?thesis using st ok assms(3) by (simp add: ask_person_def result_ok_def)
qed

lemma approve_ok:
  assumes "shared_ok sh0 sh" and "may_enter C GC cfg sh0 tr adm"
  shows "result_ok C GC cfg sh0 tr (approve cfg E monitors adm sh)"
proof (cases "sh_host sh")
  case None
  then have "\<not> host_asks sh0" using assms(1) by (auto simp: shared_ok_def host_asks_def split: option.splits)
  then show ?thesis using None let_in_ok [OF assms] by (simp add: approve_def)
next
  case (Some h)
  have "result_ok C GC cfg sh0 tr (ask_person cfg E monitors adm h sh)"
    by (rule ask_person_ok [OF assms(1) Some assms(2)])
  then show ?thesis
    using Some by (auto simp: approve_def intro: result_ok_sending [OF assms(1)])
qed

lemma person_ends_ok:
  assumes "shared_ok sh0 sh" and "may_enter C GC cfg sh0 tr adm" and "waits_rightly cfg sh0 tr sh adm a"
    and "person_ends cfg E monitors adm a how sh = Some res"
  shows "result_ok C GC cfg sh0 tr res"
proof -
  obtain h h' allowed where h: "sh_host sh = Some h" and fin: "ask_finish (en_now E) how a h = Some (h', allowed)"
    and res: "res = (if allowed then show_session cfg E monitors adm h' (sh\<lparr>sh_host := Some h'\<rparr>)
      else close_with DECLINED (lit ''the person at the device declined'') (sh\<lparr>sh_host := Some h'\<rparr>))"
    using assms(4) by (auto simp: person_ends_def Let_def split: option.splits)
  have ok: "shared_ok sh0 (sh\<lparr>sh_host := Some h'\<rparr>)"
    using shared_ok_host [OF assms(1) h, of "en_now E" "AskEnds how a" h'] fin by simp
  show ?thesis
  proof (cases allowed)
    case False
    then show ?thesis using res ok by simp
  next
    case True
    then have "ho_channels h ! ak_channel a = Sent True"
      using fin by (auto simp: ask_finish_def ask_outcome_def split: option.splits ask_end.splits oneshot.splits if_splits)
    then have "person_allowed sh0 tr (viewer_shown cfg adm)"
      using assms(3) h by (auto simp: waits_rightly_def split: option.splits)
    then show ?thesis using res True ok show_session_ok [OF _ assms(2)] by simp
  qed
qed

lemma required_of_right:
  assumes "shared_ok sh0 sh"
  shows "asks_rightly cfg sh0 (required_of cfg sh)"
  using assms
  by (auto simp: asks_rightly_def required_of_def wants_both_def shared_ok_def Let_def
      split: option.splits bool.splits)

lemma prove_start_ok:
  assumes "shared_ok sh0 sh" and "(Here E (Received (Message (AuthStart started))), sh) \<in> set tr"
    and "if wants_both cfg sh0 then grant_checked GC tr adm else adm = anonymous"
  shows "result_ok C GC cfg sh0 tr (prove_start C E started adm sh)"
proof -
  have "result_ok C GC cfg sh0 tr (sh, AwaitProve half adm, [])"
    if "sh_gate sh = Some g" "gate_material (en_now E) g = Inr mat" "en_binding E = Some b"
      "en_seed E = Some seed" "agent_answer C mat b seed started = Some (Inr (half, ans))" for g mat b seed half ans
  proof -
    have "answered C tr half" unfolding answered_def using assms(2) that by blast
    moreover have "sh_gate sh0 \<noteq> None" using assms(1) that(1) by (auto simp: shared_ok_def)
    ultimately show ?thesis using assms(1,3) by (simp add: result_ok_def)
  qed
  moreover have "result_ok C GC cfg sh0 tr (sh, Panicked, [])" using assms(1) by (simp add: result_ok_def)
  ultimately show ?thesis
    using assms(1)
    by (auto simp: prove_start_def intro!: result_ok_sending split: option.splits sum.splits prod.splits)
qed

lemma prove_finish_ok:
  assumes "shared_ok sh0 sh" and "phase_ok C GC cfg sh0 tr sh (AwaitProve half adm)"
    and "(Here E (Received (Message (AuthProve proof))), sh) \<in> set tr"
    and "prove_finish cfg E monitors half adm proof sh = Some res"
  shows "result_ok C GC cfg sh0 tr res"
proof -
  obtain g where g: "sh_gate sh = Some g"
    using assms(4) by (auto simp: prove_finish_def split: option.splits)
  have ok: "shared_ok sh0 (sh\<lparr>sh_gate := Some g'\<rparr>)" for g' using shared_ok_gate [OF assms(1) g] .
  show ?thesis
  proof (cases "agent_check half proof")
    case (Inl e)
    then show ?thesis
      using assms(4) g ok by (auto simp: prove_finish_def split: option.splits prod.splits verdict.splits)
  next
    case (Inr ours)
    have proved: "password_proved C tr" unfolding password_proved_def using assms(2,3) Inr by auto
    have grants: "sh_grants sh0 \<noteq> None" if "wants_both cfg sh0" using that by (simp add: wants_both_def)
    have "may_enter C GC cfg sh0 tr adm"
      using assms(2) proved grants by (cases "wants_both cfg sh0") (auto simp: may_enter_def)
    then show ?thesis
      using assms(4) g Inr approve_ok [OF ok]
      by (auto simp: prove_finish_def intro!: result_ok_sending [OF ok])
  qed
qed

lemma present_ok:
  assumes "shared_ok sh0 sh" and "asks_rightly cfg sh0 req"
    and here: "(Here E (Received (Message (Present sg))), sh) \<in> set tr"
  shows "result_ok C GC cfg sh0 tr (present GC cfg E monitors req sg sh)"
proof (cases "sh_grants sh")
  case None
  then show ?thesis using assms(1) by (simp add: present_def)
next
  case (Some gs)
  have ok: "shared_ok sh0 (sh\<lparr>sh_grants := Some gs'\<rparr>)" for gs' using shared_ok_grants [OF assms(1) Some] .
  obtain r gs' where check: "check_at GC sg (en_unix E) gs = (r, gs')" by force
  show ?thesis
  proof (cases r)
    case (Inl reason)
    then show ?thesis using Some check ok by (simp add: present_def)
  next
    case (Inr g)
    let ?adm = "\<lparr>ad_user = Some (g_user g), ad_role = g_role g\<rparr>"
    have c: "grant_checked GC tr ?adm" unfolding grant_checked_def using here Some check Inr by blast
    have "sh_grants sh0 \<noteq> None" using assms(1) Some by (auto simp: shared_ok_def)
    then have "may_enter C GC cfg sh0 tr ?adm" if "\<not> wants_both cfg sh0"
      using that c by (simp add: may_enter_def)
    then have "result_ok C GC cfg sh0 tr (approve cfg E monitors ?adm (sh\<lparr>sh_grants := Some gs'\<rparr>))"
      if "\<not> wants_both cfg sh0" using that approve_ok [OF ok] by blast
    then show ?thesis
      using Some check Inr ok c assms(2)
      by (cases "wants_both cfg sh0") (simp_all add: present_def Let_def asks_rightly_def result_ok_def)
  qed
qed

lemma hs_receive_ok:
  assumes "shared_ok sh0 sh" and "phase_ok C GC cfg sh0 tr sh ph"
    and here: "(Here E (Received said), sh) \<in> set tr"
    and res: "hs_receive C GC cfg E monitors ph said sh = Some res"
  shows "result_ok C GC cfg sh0 tr res"
proof (cases ph)
  case (AwaitAuth req)
  then have req: "asks_rightly cfg sh0 req" using assms(2) by simp
  have "result_ok C GC cfg sh0 tr (authenticate C GC cfg E monitors req said sh)"
  proof (cases "\<exists>started. said = Message (AuthStart started) \<and> password_is_enough req")
    case True
    then obtain started where said: "said = Message (AuthStart started)" "password_is_enough req" by blast
    have "result_ok C GC cfg sh0 tr (prove_start C E started anonymous sh)"
      by (rule prove_start_ok [OF assms(1)]) (use here said req in \<open>simp_all add: asks_rightly_def\<close>)
    then show ?thesis using said by (simp add: authenticate_def anonymous_def)
  next
    case False
    then show ?thesis
      using assms(1) present_ok [OF assms(1) req] here
      by (auto simp: authenticate_def split: said.splits control.splits)
  qed
  then show ?thesis using res AwaitAuth by (simp add: hs_receive_def)
next
  case (AwaitPassword adm)
  then have "result_ok C GC cfg sh0 tr (password_too C E adm said sh)"
    using assms(1,2) here
    by (auto simp: password_too_def intro!: prove_start_ok [OF assms(1)] split: said.splits control.splits)
  then show ?thesis using res AwaitPassword by (simp add: hs_receive_def)
next
  case (AwaitProve half adm)
  show ?thesis
  proof (cases "\<exists>proof. said = Message (AuthProve proof)")
    case True
    then obtain pf where said: "said = Message (AuthProve pf)" by blast
    show ?thesis
      by (rule prove_finish_ok [OF assms(1), of C GC cfg tr half adm E pf monitors])
        (use assms(2) here res AwaitProve said in \<open>simp_all add: hs_receive_def take_proof_def\<close>)
  next
    case False
    then show ?thesis
      using assms(1) res AwaitProve
      by (auto simp: hs_receive_def take_proof_def split: said.splits control.splits)
  qed
qed (use res in \<open>simp_all add: hs_receive_def\<close>)

lemma greet_ok:
  assumes "shared_ok sh0 sh"
  shows "result_ok C GC cfg sh0 tr (greet cfg E monitors sh)"
proof -
  have "result_ok C GC cfg sh0 tr (approve cfg E monitors \<lparr>ad_user = None, ad_role = Full\<rparr> sh)"
    if "\<not> (sh_gate sh \<noteq> None \<or> sh_grants sh \<noteq> None)"
    by (rule approve_ok [OF assms])
      (use that assms in \<open>auto simp: may_enter_def shared_ok_def anonymous_def\<close>)
  moreover have "result_ok C GC cfg sh0 tr (sh, AwaitAuth (required_of cfg sh), [])"
    using assms required_of_right [OF assms] by (simp add: result_ok_def)
  ultimately show ?thesis
    using assms by (auto simp: greet_def Let_def intro!: result_ok_sending)
qed

lemma hs_hello_ok:
  assumes "shared_ok sh0 sh"
  shows "result_ok C GC cfg sh0 tr (hs_hello cfg E said sh)"
  using assms greet_ok [OF assms] by (auto simp: hs_hello_def split: said.splits control.splits option.splits)

lemma phase_ok_append:
  assumes "phase_ok C GC cfg sh0 tr sh ph"
  shows "phase_ok C GC cfg sh0 (tr @ l) sh ph"
  using assms
  by (cases ph) (auto simp: waits_rightly_def split: option.splits if_splits)

lemma hs_step_ok:
  assumes "shared_ok sh0 sh" and "phase_ok C GC cfg sh0 tr sh (hk_phase hk)"
    and "hs_step C GC cfg E ev (sh, hk) = Some ((sh', hk'), outs)"
  shows "shared_ok sh0 sh' \<and> phase_ok C GC cfg sh0 (tr @ [(Here E ev, sh)]) sh' (hk_phase hk')"
proof -
  let ?tr = "tr @ [(Here E ev, sh)]"
  have ok: "phase_ok C GC cfg sh0 ?tr sh (hk_phase hk)" using phase_ok_append [OF assms(2)] .
  show ?thesis
  proof (cases ev)
    case (Received said)
    show ?thesis
    proof (cases "hk_phase hk = AwaitHello")
      case True
      then show ?thesis
        using assms(3) Received hs_hello_ok [OF assms(1), of C GC cfg ?tr E said]
        by (auto simp: hs_step_def Let_def result_ok_def split: prod.splits)
    next
      case False
      then obtain outs' where
        "hs_receive C GC cfg E (hk_monitors hk) (hk_phase hk) said sh = Some (sh', hk_phase hk', outs')"
        using assms(3) Received by (auto simp: hs_step_def split: prod.splits)
      from hs_receive_ok [OF assms(1) ok _ this] Received show ?thesis by (simp add: result_ok_def)
    qed
  next
    case (PersonEnds how)
    then obtain adm a outs' where ph: "hk_phase hk = AwaitPerson adm a"
      and fin: "person_ends cfg E (hk_monitors hk) adm a how sh = Some (sh', hk_phase hk', outs')"
      using assms(3) by (auto simp: hs_step_def split: phase.splits prod.splits)
    have "may_enter C GC cfg sh0 ?tr adm" "waits_rightly cfg sh0 ?tr sh adm a" using ok ph by simp_all
    from person_ends_ok [OF assms(1) this fin] show ?thesis by (simp add: result_ok_def)
  qed
qed

lemma waits_through_host_step:
  assumes "waits_rightly cfg sh0 tr sh adm a" and "shared_ok sh0 sh" and "sh_host sh = Some h"
    and "host_step now e h = Some h'"
  shows "waits_rightly cfg sh0 (tr @ [(There now e, sh)]) (sh\<lparr>sh_host := Some h'\<rparr>) adm a"
proof -
  obtain h0 where h0: "sh_host sh0 = Some h0" and low: "length (ho_channels h0) \<le> ak_channel a"
    and high: "ak_channel a < length (ho_channels h)"
    and names: "\<And>r. ho_request h = Some r \<Longrightarrow> hr_answer r = ak_channel a \<Longrightarrow> hr_viewer r = viewer_shown cfg adm"
    and yes: "ho_channels h ! ak_channel a = Sent True \<Longrightarrow> person_allowed sh0 tr (viewer_shown cfg adm)"
    using assms(1,3) by (auto simp: waits_rightly_def split: option.splits)
  have ok: "host_ok h" using assms(2,3) h0 by (simp add: shared_ok_def)
  have high': "ak_channel a < length (ho_channels h')" using high host_step_grows [OF assms(4)] by linarith
  have "hr_viewer r = viewer_shown cfg adm" if "ho_request h' = Some r" "hr_answer r = ak_channel a" for r
    using host_step_request [OF assms(4) that(1)] that(2) names high by auto
  moreover have "person_allowed sh0 (tr @ [(There now e, sh)]) (viewer_shown cfg adm)"
    if sent: "ho_channels h' ! ak_channel a = Sent True"
  proof (cases "ho_channels h ! ak_channel a = Sent True")
    case True
    then show ?thesis using yes by auto
  next
    case False
    then obtain r where "e = Answers True" "ho_request h = Some r" "hr_answer r = ak_channel a"
      using host_step_allows [OF assms(4) ok high' sent] by blast
    then show ?thesis unfolding person_allowed_def using h0 assms(3) low names by fastforce
  qed
  ultimately show ?thesis using h0 low high' by (simp add: waits_rightly_def)
qed

lemma hs_trace_ok:
  assumes "hs_trace C GC cfg sh0 tr s" and "\<forall>h. sh_host sh0 = Some h \<longrightarrow> host_ok h"
  shows "shared_ok sh0 (fst s) \<and> phase_ok C GC cfg sh0 tr (fst s) (hk_phase (snd s))"
  using assms(1)
proof induction
  case begins
  then show ?case using assms(2) by (auto simp: shared_ok_def handshake_new_def split: option.splits)
next
  case (here tr sh hk E ev s' outs)
  then show ?case using hs_step_ok [of sh0 sh C GC cfg tr hk E ev "fst s'" "snd s'" outs] by simp
next
  case (there tr sh hk h now e h')
  then have sh: "shared_ok sh0 sh" and ph: "phase_ok C GC cfg sh0 tr sh (hk_phase hk)" by simp_all
  have "phase_ok C GC cfg sh0 (tr @ [(There now e, sh)]) (sh\<lparr>sh_host := Some h'\<rparr>) (hk_phase hk)"
    using phase_ok_append [OF ph, of "[(There now e, sh)]"] waits_through_host_step [OF _ sh there(2,3)] ph
    by (cases "hk_phase hk") auto
  then show ?case using shared_ok_host [OF sh there(2,3)] by simp
next
  case (elsewhere tr sh hk g gs)
  then have sh: "shared_ok sh0 sh" and ph: "phase_ok C GC cfg sh0 tr sh (hk_phase hk)" by simp_all
  let ?sh = "sh\<lparr>sh_gate := map_option (\<lambda>_. g) (sh_gate sh), sh_grants := map_option (\<lambda>_. gs) (sh_grants sh)\<rparr>"
  have "phase_ok C GC cfg sh0 (tr @ [(Elsewhere g gs, sh)]) ?sh (hk_phase hk)"
    using phase_ok_append [OF ph, of "[(Elsewhere g gs, sh)]"]
    by (cases "hk_phase hk") (auto simp: waits_rightly_def)
  then show ?case using sh by (simp add: shared_ok_def)
qed

subsection \<open>Who is let in\<close>

text \<open>C1. Whoever is let in has earned it: with neither a gate nor grants anyone is, as
  anonymous with the full role; otherwise either a grant was presented that the agent's check
  took, and it names the user and the role, or the password was proved in an exchange the
  agent answered with the material of its gate; where the agent asks for both, both happened.
  Where there is a person to ask, they said yes to a request that named this viewer, made
  since. All of this whatever the viewer sends, and whatever other sessions and the person do
  in between.\<close>

theorem admission_is_earned:
  assumes "hs_trace C GC cfg sh0 tr (sh, hk)" and "\<forall>h. sh_host sh0 = Some h \<longrightarrow> host_ok h"
    and "hk_phase hk = LetIn adm guard"
  shows "may_enter C GC cfg sh0 tr adm \<and> (host_asks sh0 \<longrightarrow> person_allowed sh0 tr (viewer_shown cfg adm))"
  using hs_trace_ok [OF assms(1,2)] assms(3) by simp

subsection \<open>Who is turned away, and what they hear\<close>

definition expected_in :: "phase \<Rightarrow> said \<Rightarrow> bool" where
  "expected_in ph said \<longleftrightarrow>
     (case (ph, said) of
        (AwaitHello, Message (Hello _ _)) \<Rightarrow> True
      | (AwaitAuth _, Message (Present _)) \<Rightarrow> True
      | (AwaitAuth _, Message (AuthStart _)) \<Rightarrow> True
      | (AwaitPassword _, _) \<Rightarrow> True
      | (AwaitProve _ _, Message (AuthProve _)) \<Rightarrow> True
      | _ \<Rightarrow> False)"

text \<open>Why a password exchange is not begun: no password here, none may be tried now, no binding or
  no seed to be had, or no start of an exchange.\<close>

definition no_exchange :: "('prk, 'st) crypto \<Rightarrow> hs_env \<Rightarrow> bytes \<Rightarrow> shared \<Rightarrow> bool" where
  "no_exchange C E started sh \<longleftrightarrow>
     (case sh_gate sh of
        None \<Rightarrow> True
      | Some lock \<Rightarrow>
          (case (gate_material (en_now E) lock, en_binding E, en_seed E) of
             (Inr mat, Some binding, Some seed) \<Rightarrow> \<exists>e. agent_answer C mat binding seed started = Some (Inl e)
           | _ \<Rightarrow> True))"

text \<open>Why a viewer is turned away: its grant is not taken, a password is not enough, no exchange is
  begun, the password does not follow the grant, or the proof is wrong.\<close>

definition turned_away ::
  "('prk, 'st) crypto \<Rightarrow> 'e grant_crypto \<Rightarrow> hs_env \<Rightarrow> phase \<Rightarrow> control \<Rightarrow> shared \<Rightarrow> bool" where
  "turned_away C GC E ph m sh \<longleftrightarrow>
     (case (ph, m) of
        (AwaitAuth req, Present sg) \<Rightarrow>
          (case sh_grants sh of None \<Rightarrow> True | Some gs \<Rightarrow> \<exists>reason. fst (check_at GC sg (en_unix E) gs) = Inl reason)
      | (AwaitAuth req, AuthStart started) \<Rightarrow> \<not> password_is_enough req \<or> no_exchange C E started sh
      | (AwaitPassword adm, AuthStart started) \<Rightarrow> no_exchange C E started sh
      | (AwaitPassword adm, _) \<Rightarrow> True
      | (AwaitProve half adm, AuthProve proof) \<Rightarrow> \<exists>e. agent_check half proof = Inl e
      | _ \<Rightarrow> False)"

text \<open>The person at the device did not say yes: no, nothing in time, or nobody is left to answer.\<close>

definition not_allowed :: "phase \<Rightarrow> ask_end \<Rightarrow> shared \<Rightarrow> bool" where
  "not_allowed ph how sh \<longleftrightarrow>
     (\<exists>adm a h. ph = AwaitPerson adm a \<and> sh_host sh = Some h \<and>
        \<not> (how = Answered \<and> ho_channels h ! ak_channel a = Sent True))"

text \<open>When a step has to close the connection with a code.\<close>

definition code_due ::
  "('prk, 'st) crypto \<Rightarrow> 'e grant_crypto \<Rightarrow> hs_env \<Rightarrow> phase \<Rightarrow> hs_event \<Rightarrow> shared \<Rightarrow> close_code \<Rightarrow> bool" where
  "code_due C GC E ph ev sh code \<longleftrightarrow>
     (case code of
        PROTOCOL \<Rightarrow> \<exists>said. ev = Received said \<and> said \<noteq> Failed \<and> \<not> expected_in ph said
      | VERSION_MISMATCH \<Rightarrow>
          ph = AwaitHello \<and> (\<exists>v c. ev = Received (Message (Hello v c)) \<and> v \<noteq> PROTOCOL_VERSION)
      | AUTH_FAILED \<Rightarrow>
          (\<exists>m. ev = Received (Message m) \<and> turned_away C GC E ph m sh) \<or>
          (\<exists>adm. ev = Received Finished \<and> ph = AwaitPassword adm)
      | DECLINED \<Rightarrow> \<exists>how. ev = PersonEnds how \<and> not_allowed ph how sh
      | _ \<Rightarrow> False)"

definition is_close :: "outgoing \<Rightarrow> bool" where
  "is_close out \<longleftrightarrow> (case out of Send _ \<Rightarrow> False | CloseConn _ _ \<Rightarrow> True)"

text \<open>How a step may end: with the code that is due, and then nothing else is sent; over without a
  reason only if a message could not be read or sent or the displays not listed; or it goes on.\<close>

definition ends_well ::
  "('prk, 'st) crypto \<Rightarrow> 'e grant_crypto \<Rightarrow> hs_env \<Rightarrow> phase \<Rightarrow> hs_event \<Rightarrow> shared \<Rightarrow> hs_result \<Rightarrow> bool" where
  "ends_well C GC E ph ev sh res \<longleftrightarrow>
     (case res of (sh', ph', outs) \<Rightarrow>
        (\<forall>code. code_due C GC E ph ev sh code \<longleftrightarrow> (\<exists>reason. ph' = Over (Some (code, reason)))) \<and>
        (case ph' of
           Over (Some (code, reason)) \<Rightarrow> outs = [CloseConn code reason]
         | Over None \<Rightarrow>
             \<not> list_ex is_close outs \<and>
             (ev = Received Failed \<or> (\<exists>m. \<not> en_delivers E m) \<or>
              (ph = AwaitHello \<and> (\<exists>c. ev = Received (Message (Hello PROTOCOL_VERSION c))) \<and> en_displays E = None))
         | _ \<Rightarrow> \<not> list_ex is_close outs))"

text \<open>A result that closes, and one that does not.\<close>

definition closes :: "close_code \<Rightarrow> hs_result \<Rightarrow> bool" where
  "closes code res \<longleftrightarrow> (\<exists>reason sh. res = close_with code reason sh)"

definition goes_on :: "hs_env \<Rightarrow> hs_result \<Rightarrow> bool" where
  "goes_on E res \<longleftrightarrow>
     (case res of (sh, ph, outs) \<Rightarrow>
        \<not> list_ex is_close outs \<and> (\<forall>why. ph = Over why \<longrightarrow> why = None \<and> (\<exists>m. \<not> en_delivers E m)))"

lemma closes_refuse [simp]: "closes code (close_with code reason sh)"
  by (auto simp: closes_def)

lemma goes_on_sending: "goes_on E (continue sh) \<Longrightarrow> goes_on E (sending E m sh continue)"
  by (auto simp: goes_on_def sending_def is_close_def split: prod.splits)

lemma goes_on_let_in: "goes_on E (let_in E monitors adm guard sh)"
  by (auto simp: goes_on_def let_in_def is_close_def)

lemma goes_on_show: "goes_on E (show_session cfg E monitors adm h sh)"
  by (auto simp: show_session_def goes_on_let_in split: prod.splits)

lemma goes_on_ask: "goes_on E (ask_person cfg E monitors adm h sh)"
  by (auto simp: ask_person_def goes_on_show split: prod.splits option.splits) (simp add: goes_on_def)

lemma goes_on_approve: "goes_on E (approve cfg E monitors adm sh)"
  by (auto simp: approve_def goes_on_let_in goes_on_ask intro: goes_on_sending split: option.splits)

lemma prove_start_ends:
  "if no_exchange C E started sh then closes AUTH_FAILED (prove_start C E started adm sh)
   else goes_on E (prove_start C E started adm sh)"
proof -
  have "goes_on E (sh', AwaitProve half adm, [])" "goes_on E (sh', Panicked, [])" for sh' half
    by (simp_all add: goes_on_def)
  then show ?thesis
    by (auto simp: prove_start_def no_exchange_def intro: goes_on_sending split: option.splits sum.splits prod.splits)
qed

lemma prove_finish_ends:
  assumes "prove_finish cfg E monitors half adm proof sh = Some res"
  shows "if \<exists>e. agent_check half proof = Inl e then closes AUTH_FAILED res else goes_on E res"
  using assms
  by (auto simp: prove_finish_def goes_on_approve intro: goes_on_sending
      split: option.splits sum.splits prod.splits verdict.splits)

lemma present_ends:
  "if turned_away C GC E (AwaitAuth req) (Present sg) sh then closes AUTH_FAILED (present GC cfg E monitors req sg sh)
   else goes_on E (present GC cfg E monitors req sg sh)"
proof -
  have "goes_on E (sh', AwaitPassword adm, [])" for sh' adm by (simp add: goes_on_def)
  then show ?thesis
    by (auto simp: present_def turned_away_def Let_def goes_on_approve split: option.splits prod.splits sum.splits)
qed

lemma greet_goes_on: "goes_on E (greet cfg E monitors sh)"
proof -
  have "goes_on E (sh', AwaitAuth req, [])" for sh' req by (simp add: goes_on_def)
  then show ?thesis by (auto simp: greet_def Let_def goes_on_approve intro!: goes_on_sending)
qed

lemma person_ends_ends:
  assumes "person_ends cfg E monitors adm a how sh = Some res"
  shows "if not_allowed (AwaitPerson adm a) how sh then closes DECLINED res else goes_on E res"
  using assms
  by (auto simp: person_ends_def Let_def goes_on_show not_allowed_def ask_finish_def ask_outcome_def
      split: option.splits ask_end.splits oneshot.splits if_splits)

lemma ends_well_closes:
  assumes "closes code res" and "\<forall>c. code_due C GC E ph ev sh c \<longleftrightarrow> c = code"
  shows "ends_well C GC E ph ev sh res"
  using assms by (auto simp: closes_def ends_well_def close_with_def)

lemma ends_well_goes_on:
  assumes "goes_on E res" and "\<forall>c. \<not> code_due C GC E ph ev sh c"
  shows "ends_well C GC E ph ev sh res"
  using assms by (auto simp: goes_on_def ends_well_def split: phase.splits option.splits prod.splits)

text \<open>One code is due, or none.\<close>

lemma code_due_message:
  "ph \<noteq> AwaitHello \<Longrightarrow> code_due C GC E ph (Received (Message m)) sh c \<longleftrightarrow>
     (if expected_in ph (Message m) then c = AUTH_FAILED \<and> turned_away C GC E ph m sh else c = PROTOCOL)"
  by (cases c; cases ph; cases m) (auto simp: code_due_def expected_in_def turned_away_def)

lemma code_due_finished:
  "code_due C GC E ph (Received Finished) sh c \<longleftrightarrow>
     (case ph of AwaitPassword _ \<Rightarrow> c = AUTH_FAILED | _ \<Rightarrow> c = PROTOCOL)"
  by (cases c; cases ph) (auto simp: code_due_def expected_in_def)

lemma code_due_failed: "\<not> code_due C GC E ph (Received Failed) sh c"
  by (cases c) (auto simp: code_due_def)

lemma code_due_person:
  "code_due C GC E ph (PersonEnds how) sh c \<longleftrightarrow> c = DECLINED \<and> not_allowed ph how sh"
  by (cases c) (auto simp: code_due_def)

lemma hs_receive_ends_well:
  assumes "ph \<noteq> AwaitHello" and "hs_receive C GC cfg E monitors ph said sh = Some res"
  shows "ends_well C GC E ph (Received said) sh res"
proof (cases said)
  case (Message m)
  note due = code_due_message [OF assms(1), of C GC E m sh]
  have "if expected_in ph said then (if turned_away C GC E ph m sh then closes AUTH_FAILED res else goes_on E res)
    else closes PROTOCOL res"
  proof (cases ph)
    case (AwaitAuth req)
    then show ?thesis
      using assms(2) Message present_ends [of C GC E req _ sh cfg monitors] prove_start_ends [of C E _ sh]
      by (cases m) (auto simp: hs_receive_def authenticate_def expected_in_def turned_away_def split: if_splits)
  next
    case (AwaitPassword adm)
    then show ?thesis using assms(2) Message prove_start_ends [of C E _ sh adm]
      by (cases m) (auto simp: hs_receive_def password_too_def expected_in_def turned_away_def)
  next
    case (AwaitProve half adm)
    then show ?thesis using assms(2) Message prove_finish_ends [of cfg E monitors half adm _ sh res]
      by (cases m) (auto simp: hs_receive_def take_proof_def expected_in_def turned_away_def split: if_splits)
  qed (use assms in \<open>simp_all add: hs_receive_def\<close>)
  then show ?thesis
    using Message due by (auto intro: ends_well_closes ends_well_goes_on split: if_splits)
next
  case Finished
  have "closes (case ph of AwaitPassword _ \<Rightarrow> AUTH_FAILED | _ \<Rightarrow> PROTOCOL) res"
    using assms Finished
    by (cases ph) (auto simp: hs_receive_def authenticate_def password_too_def take_proof_def)
  then show ?thesis
    using Finished code_due_finished [of C GC E ph sh]
    by (auto intro: ends_well_closes split: phase.splits)
next
  case Failed
  then have "\<exists>sh'. res = (sh', Over None, [])"
    using assms by (cases ph) (auto simp: hs_receive_def authenticate_def password_too_def take_proof_def)
  then show ?thesis using Failed by (auto simp: ends_well_def code_due_failed)
qed

lemma hs_hello_ends_well: "ends_well C GC E AwaitHello (Received said) sh (hs_hello cfg E said sh)"
proof (cases "\<exists>caps. said = Message (Hello PROTOCOL_VERSION caps)")
  case True
  then have "\<forall>c. \<not> code_due C GC E AwaitHello (Received said) sh c"
    by (auto simp: code_due_def expected_in_def turned_away_def split: close_code.splits)
  then have none: "\<forall>c. \<not> code_due C GC E AwaitHello (Received said) sh c" using True by simp
  show ?thesis
  proof (cases "en_displays E")
    case None
    then show ?thesis using True none by (auto simp: hs_hello_def ends_well_def)
  next
    case (Some monitors)
    then have "hs_hello cfg E said sh = greet cfg E monitors sh" using True by (auto simp: hs_hello_def)
    then show ?thesis using ends_well_goes_on [OF greet_goes_on none] by simp
  qed
next
  case False
  have due: "code_due C GC E AwaitHello (Received said) sh c \<longleftrightarrow>
    (case said of Message (Hello v _) \<Rightarrow> c = VERSION_MISMATCH \<and> v \<noteq> PROTOCOL_VERSION | Failed \<Rightarrow> False | _ \<Rightarrow> c = PROTOCOL)" for c
    by (cases c) (auto simp: code_due_def expected_in_def turned_away_def split: said.splits control.splits)
  show ?thesis using False due
    by (auto simp: hs_hello_def intro: ends_well_closes [where code = PROTOCOL] ends_well_closes [where code = VERSION_MISMATCH]
        split: said.splits control.splits) (auto simp: ends_well_def)
qed

lemma hs_step_ends_well:
  assumes "hs_step C GC cfg E ev (sh, hk) = Some ((sh', hk'), outs)"
  shows "ends_well C GC E (hk_phase hk) ev sh (sh', hk_phase hk', outs)"
proof (cases ev)
  case (Received said)
  show ?thesis
  proof (cases "hk_phase hk = AwaitHello")
    case True
    then show ?thesis
      using assms Received hs_hello_ends_well [of C GC E said sh cfg]
      by (auto simp: hs_step_def Let_def split: prod.splits)
  next
    case False
    then have "hs_receive C GC cfg E (hk_monitors hk) (hk_phase hk) said sh = Some (sh', hk_phase hk', outs)"
      using assms Received by (auto simp: hs_step_def split: prod.splits)
    then show ?thesis using hs_receive_ends_well [OF False] Received by blast
  qed
next
  case (PersonEnds how)
  then obtain adm a where ph: "hk_phase hk = AwaitPerson adm a"
    and fin: "person_ends cfg E (hk_monitors hk) adm a how sh = Some (sh', hk_phase hk', outs)"
    using assms by (auto simp: hs_step_def split: phase.splits prod.splits)
  show ?thesis using person_ends_ends [OF fin] ph PersonEnds code_due_person [of C GC E "hk_phase hk" how sh]
    by (auto intro: ends_well_closes ends_well_goes_on split: if_splits)
qed

text \<open>What a handshake has sent so far, whatever others do to the shared state in between.\<close>

inductive hs_sent ::
  "('prk, 'st) crypto \<Rightarrow> 'e grant_crypto \<Rightarrow> hs_config \<Rightarrow> outgoing list \<Rightarrow> shared \<times> handshake \<Rightarrow> bool"
  for C GC cfg where
  sent_nothing: "hs_sent C GC cfg [] (sh, handshake_new)"
| sent_here: "hs_sent C GC cfg outs s \<Longrightarrow> hs_step C GC cfg E ev s = Some (s', outs') \<Longrightarrow>
    hs_sent C GC cfg (outs @ outs') s'"
| sent_there: "hs_sent C GC cfg outs (sh, hk) \<Longrightarrow> hs_sent C GC cfg outs (sh', hk)"

lemma hs_step_not_over: "hs_step C GC cfg E ev (sh, hk) = Some res \<Longrightarrow> hk_phase hk \<noteq> Over why"
  by (auto simp: hs_step_def hs_receive_def split: hs_event.splits)

lemma hs_sent_closes:
  "hs_sent C GC cfg outs s \<Longrightarrow>
   (\<forall>why. hk_phase (snd s) = Over (Some why) \<longrightarrow> (\<exists>pre. outs = pre @ [CloseConn (fst why) (snd why)] \<and> \<not> list_ex is_close pre)) \<and>
   ((\<forall>why. hk_phase (snd s) \<noteq> Over (Some why)) \<longrightarrow> \<not> list_ex is_close outs)"
proof (induction rule: hs_sent.induct)
  case (sent_here outs s E ev s' outs')
  have "hs_step C GC cfg E ev (fst s, snd s) = Some (s', outs')" using sent_here(2) by simp
  then have "\<forall>why. hk_phase (snd s) \<noteq> Over (Some why)" using hs_step_not_over by blast
  then have "\<not> list_ex is_close outs" using sent_here by blast
  moreover have "ends_well C GC E (hk_phase (snd s)) ev (fst s) (fst s', hk_phase (snd s'), outs')"
    using hs_step_ends_well [of C GC cfg E ev "fst s" "snd s" "fst s'" "snd s'" outs'] sent_here(2) by simp
  ultimately show ?case by (auto simp: ends_well_def split: phase.splits option.splits)
qed (simp_all add: handshake_new_def)

text \<open>C9. Every way a handshake can end, over all of it and whatever others do meanwhile: nothing
  is closed before its last step, which closes with a code exactly where that code is due, and then
  sends nothing else. PROTOCOL is due for a message, or the end of the stream, that has no place at
  that point; VERSION_MISMATCH for the greeting of another version; AUTH_FAILED for a grant the
  check does not take, a password where it is not enough, none where it has to follow, an exchange
  that cannot begin and a wrong proof; DECLINED where the person asked did not say yes. Without a
  code it ends only when a message could not be read or sent or the displays not listed.\<close>

theorem handshake_ends_well:
  assumes "hs_sent C GC cfg outs (sh, hk)"
    and "hs_step C GC cfg E ev (sh, hk) = Some ((sh', hk'), outs')"
  shows "\<not> list_ex is_close outs \<and> ends_well C GC E (hk_phase hk) ev sh (sh', hk_phase hk', outs')"
  using hs_step_ends_well [OF assms(2)] hs_sent_closes [OF assms(1)] hs_step_not_over [OF assms(2)] by simp

subsection \<open>A run for the witnesses\<close>

definition hs_demo_env :: hs_env where
  "hs_demo_env =
     \<lparr>en_now = 0, en_unix = 0, en_binding = Some [2], en_seed = Some [4],
      en_displays = Some [\<lparr>m_id = 0, m_width = 1920, m_height = 1080, m_x = 0, m_y = 0, m_primary = True\<rparr>],
      en_encoders = [H264], en_delivers = (\<lambda>_. True)\<rparr>"

definition hs_demo_config :: hs_config where
  "hs_demo_config =
     \<lparr>cf_password_with_grant = False, cf_path = Local, cf_ip = lit ''192.168.0.7'', cf_conn = 1\<rparr>"

definition hs_demo_shared :: shared where
  "hs_demo_shared =
     \<lparr>sh_gate = Some (OneTimeGate \<lparr>pw_current = [1], pw_failures = 0, pw_random = []\<rparr>), sh_grants = None,
      sh_host = Some (host_new True)\<rparr>"

abbreviation hs_demo_step where
  "hs_demo_step \<equiv> hs_step demo_crypto demo_grant_crypto hs_demo_config hs_demo_env"

abbreviation hs_demo_trace where
  "hs_demo_trace \<equiv> hs_trace demo_crypto demo_grant_crypto hs_demo_config hs_demo_shared"

definition hs_demo_hello :: hs_event where
  "hs_demo_hello = Received (Message (Hello PROTOCOL_VERSION \<lparr>codecs = [], max_width = 0, max_height = 0, max_fps = 60\<rparr>))"

lemmas hs_demo_defs = hs_demo_env_def hs_demo_config_def hs_demo_shared_def hs_demo_hello_def

lemma hs_demo_greeted:
  "hs_demo_step hs_demo_hello (hs_demo_shared, handshake_new) =
     Some ((hs_demo_shared, \<lparr>hk_phase = AwaitAuth (Password OneTime),
              hk_monitors = [\<lparr>m_id = 0, m_width = 1920, m_height = 1080, m_x = 0, m_y = 0, m_primary = True\<rparr>],
              hk_codecs = [H264]\<rparr>),
       [Send (Hello PROTOCOL_VERSION \<lparr>codecs = [H264], max_width = 1920, max_height = 1080, max_fps = 120\<rparr>),
        Send (AuthRequired (Password OneTime))])"
  by (simp add: hs_step_def hs_demo_defs handshake_new_def hs_hello_def greet_def sending_def required_of_def
      password_secret_def agent_caps_def MAX_FPS_def Let_def)

definition hs_demo_hk :: "phase \<Rightarrow> handshake" where
  "hs_demo_hk ph =
     \<lparr>hk_phase = ph,
      hk_monitors = [\<lparr>m_id = 0, m_width = 1920, m_height = 1080, m_x = 0, m_y = 0, m_primary = True\<rparr>],
      hk_codecs = [H264]\<rparr>"

definition hs_demo_half :: agent_half where
  "hs_demo_half = \<lparr>ah_theirs = transcript [1] [1] [2], ah_ours = transcript [1] [1] [2]\<rparr>"

lemma hs_demo_answered:
  "hs_demo_step (Received (Message (AuthStart [1]))) (hs_demo_shared, hs_demo_hk (AwaitAuth (Password OneTime))) =
     Some ((hs_demo_shared, hs_demo_hk (AwaitProve hs_demo_half anonymous)), [Send (AuthAnswer [1])])"
proof -
  have "utf8 [1] = [1]" by (simp add: utf8_def utf8_char_def)
  then show ?thesis
    by (simp add: hs_step_def hs_receive_def authenticate_def prove_start_def hs_demo_shared_def hs_demo_env_def
        hs_demo_hk_def password_material_def demo_agent_answer sending_def hs_demo_half_def anonymous_def)
qed

definition hs_demo_asked :: shared where
  "hs_demo_asked =
     hs_demo_shared\<lparr>sh_host := Some (fst (ask_start 0 0 (viewer_shown hs_demo_config anonymous) (host_new True)))\<rparr>"

definition hs_demo_ask :: ask where
  "hs_demo_ask = \<lparr>ak_number = 1, ak_channel = 0, ak_until = ASK_TIMEOUT\<rparr>"

lemma hs_demo_proved:
  "hs_demo_step (Received (Message (AuthProve (transcript [1] [1] [2]))))
       (hs_demo_shared, hs_demo_hk (AwaitProve hs_demo_half anonymous)) =
     Some ((hs_demo_asked, hs_demo_hk (AwaitPerson anonymous hs_demo_ask)),
       [Send (AuthProved (transcript [1] [1] [2])), Send AwaitingApproval])"
  by (simp add: hs_step_def hs_receive_def take_proof_def prove_finish_def hs_demo_shared_def hs_demo_hk_def
      hs_demo_half_def agent_check_def same_def password_accepted_def sending_def approve_def asks_def host_new_def
      ask_person_def ask_start_def hs_demo_ask_def hs_demo_asked_def hs_demo_env_def drop_sender_def changed_def Let_def)

definition hs_demo_allowed :: shared where
  "hs_demo_allowed = hs_demo_asked\<lparr>sh_host := map_option (host_answer True) (sh_host hs_demo_asked)\<rparr>"

lemma hs_demo_entered:
  "\<exists>sh outs. hs_demo_step (PersonEnds Answered) (hs_demo_allowed, hs_demo_hk (AwaitPerson anonymous hs_demo_ask)) =
     Some ((sh, hs_demo_hk (LetIn anonymous (Some 2))), outs)"
  by (simp add: hs_step_def person_ends_def hs_demo_hk_def hs_demo_allowed_def hs_demo_asked_def hs_demo_shared_def
      hs_demo_ask_def ask_finish_def ask_outcome_def ask_cleared_def host_answer_def ask_start_def host_new_def
      drop_sender_def changed_def show_session_def session_started_def let_in_def hs_demo_env_def Let_def)

lemma hs_demo_run: "\<exists>tr sh. hs_demo_trace tr (sh, hs_demo_hk (LetIn anonymous (Some 2)))"
proof -
  let ?p = "AuthProve (transcript [1] [1] [2])"
  have "hs_demo_trace ([] @ [(Here hs_demo_env hs_demo_hello, hs_demo_shared)])
      (hs_demo_shared, hs_demo_hk (AwaitAuth (Password OneTime)))"
    by (rule hs_trace.here [OF hs_trace.begins]) (use hs_demo_greeted in \<open>simp add: hs_demo_hk_def\<close>)
  from hs_trace.here [OF this hs_demo_answered] obtain tr where
    "hs_demo_trace tr (hs_demo_shared, hs_demo_hk (AwaitProve hs_demo_half anonymous))" by blast
  from hs_trace.here [OF this hs_demo_proved] obtain tr where
    asked: "hs_demo_trace tr (hs_demo_asked, hs_demo_hk (AwaitPerson anonymous hs_demo_ask))" by blast
  obtain h where h: "sh_host hs_demo_asked = Some h" by (simp add: hs_demo_asked_def)
  have "host_step 0 (Answers True) h = Some (host_answer True h)" by simp
  from hs_trace.there [OF asked h this] obtain tr where
    "hs_demo_trace tr (hs_demo_allowed, hs_demo_hk (AwaitPerson anonymous hs_demo_ask))"
    using h by (auto simp: hs_demo_allowed_def)
  then show ?thesis using hs_trace.here hs_demo_entered by blast
qed

theorem admission_is_earned_witness:
  "\<exists>tr sh. hs_demo_trace tr (sh, hs_demo_hk (LetIn anonymous (Some 2))) \<and>
     may_enter demo_crypto demo_grant_crypto hs_demo_config hs_demo_shared tr anonymous \<and>
     person_allowed hs_demo_shared tr (viewer_shown hs_demo_config anonymous)"
proof -
  obtain tr sh where run: "hs_demo_trace tr (sh, hs_demo_hk (LetIn anonymous (Some 2)))" using hs_demo_run by blast
  have "host_asks hs_demo_shared" by (simp add: host_asks_def hs_demo_shared_def asks_def host_new_def)
  then show ?thesis
    using run admission_is_earned [OF run, where adm = anonymous and guard = "Some 2"]
    by (auto simp: hs_demo_hk_def hs_demo_shared_def)
qed

theorem handshake_ends_well_witness:
  "\<exists>outs. hs_sent demo_crypto demo_grant_crypto hs_demo_config outs (hs_demo_shared, hs_demo_hk (AwaitProve hs_demo_half anonymous)) \<and>
     \<not> list_ex is_close outs \<and>
     ends_well demo_crypto demo_grant_crypto hs_demo_env (AwaitProve hs_demo_half anonymous)
       (Received (Message (AuthProve (transcript [1] [1] [2])))) hs_demo_shared
       (hs_demo_asked, AwaitPerson anonymous hs_demo_ask, [Send (AuthProved (transcript [1] [1] [2])), Send AwaitingApproval])"
proof -
  have "hs_sent demo_crypto demo_grant_crypto hs_demo_config [] (hs_demo_shared, handshake_new)"
    by (rule sent_nothing)
  from sent_here [OF this hs_demo_greeted [folded hs_demo_hk_def]] obtain outs where
    "hs_sent demo_crypto demo_grant_crypto hs_demo_config outs (hs_demo_shared, hs_demo_hk (AwaitAuth (Password OneTime)))"
    by blast
  from sent_here [OF this hs_demo_answered] obtain outs where
    run: "hs_sent demo_crypto demo_grant_crypto hs_demo_config outs (hs_demo_shared, hs_demo_hk (AwaitProve hs_demo_half anonymous))"
    by blast
  show ?thesis
    using run handshake_ends_well [OF run hs_demo_proved] by (auto simp: hs_demo_hk_def)
qed

end
