(* ===== verification/Viewer_Handshake.thy ===== *)
theory Viewer_Handshake
  imports Handshake_Theorems
begin

text \<open>
  The viewer's side of a connection's beginning (\<open>crates/viewer/src/direct.rs\<close>:
  \<open>talk\<close> up to the first \<open>StartVideo\<close>, \<open>prove\<close>, \<open>explain\<close>, \<open>ended\<close>), as a
  machine that stops wherever it waits for the agent, and the two sides run against each
  other.

  Errors are the text their alternate rendering gives. The Debug renderings and the texts of
  other libraries in it are arguments (\<open>ve_debug\<close>, \<open>ve_debug_codecs\<close>, \<open>ve_broken\<close> for
  a message that cannot be sent, \<open>ve_typed\<close> for the password that is read or the reason it
  is not).
\<close>

subsection \<open>Errors, and what a closed connection means\<close>

datatype viewer_error = Refusal str | Trouble str

text \<open>The reason of a close, as \<open>from_utf8_lossy\<close> reads it.\<close>

datatype close_reason = ApplicationClosed nat str | LocallyClosed | ConnectionLost str

fun error_text :: "viewer_error \<Rightarrow> str" where
  "error_text (Refusal t) = t"
| "error_text (Trouble t) = t"

definition explain :: "close_reason option \<Rightarrow> viewer_error \<Rightarrow> viewer_error" where
  "explain reason err =
     (case err of
        Refusal t \<Rightarrow> Refusal t
      | Trouble t \<Rightarrow>
          (case reason of
             Some (ApplicationClosed code why) \<Rightarrow>
               let said = lit ''agent closed the connection: '' @ why @ lit '' (code '' @ show_nat code @ lit '')'' in
               if code = unat (close_number GOING_AWAY) then Trouble said else Refusal said
           | Some LocallyClosed \<Rightarrow> Refusal t
           | Some (ConnectionLost other) \<Rightarrow> Trouble (lit ''connection lost: '' @ other)
           | None \<Rightarrow> Trouble t))"

definition ended :: "close_reason option \<Rightarrow> viewer_error \<Rightarrow> viewer_error + unit" where
  "ended reason err =
     (case err of
        Refusal t \<Rightarrow> Inl (Refusal t)
      | Trouble t \<Rightarrow>
          if (case reason of
                Some (ApplicationClosed code why) \<Rightarrow> code = unat (close_number NORMAL)
              | _ \<Rightarrow> False)
          then Inr () else Inl (explain reason err))"

text \<open>Why an exchange ended without a session.\<close>

fun refused_text :: "refused \<Rightarrow> str" where
  "refused_text refused.Malformed = lit ''the other side's message is not a SPAKE2 message''"
| "refused_text NoMatch = lit ''the password does not match, or something is in the middle''"
| "refused_text Unreasonable = lit ''the agent asks for a stretch no honest agent asks for''"

subsection \<open>State and environment\<close>

record viewer_env =
  ve_binding :: "bytes option"
  ve_seed :: "bytes option"
  ve_typed :: "str + str"
  ve_delivers :: "control \<Rightarrow> bool"
  ve_closed :: "close_reason option"
  ve_debug :: "said \<Rightarrow> str"
  ve_debug_codecs :: "codec list \<Rightarrow> str"
  ve_broken :: str

record viewer_options =
  vo_monitor :: u8
  vo_fps :: u8
  vo_decoders :: "codec list"
  vo_grant :: "signed_grant option"

datatype 'st viewer_phase =
    VHello
  | VFirst
  | VAnswer "'st viewer_half"
  | VProof proven
  | VNext
  | VLast
  | VIn
  | VOver viewer_error
  | VPanicked

record 'st viewer =
  vw_phase :: "'st viewer_phase"
  vw_password :: "str option"
  vw_codecs :: "codec list"
  vw_monitors :: "monitor list"
  vw_reached :: bool

type_synonym 'st viewer_result = "'st viewer \<times> control list"

definition v_over :: "viewer_error \<Rightarrow> 'st viewer \<Rightarrow> 'st viewer_result" where
  "v_over err v = (v\<lparr>vw_phase := VOver err\<rparr>, [])"

definition v_sending ::
  "viewer_env \<Rightarrow> control \<Rightarrow> 'st viewer \<Rightarrow> ('st viewer \<Rightarrow> 'st viewer_result) \<Rightarrow> 'st viewer_result" where
  "v_sending E m v continue =
     (if ve_delivers E m then (case continue v of (v', outs) \<Rightarrow> (v', m # outs))
      else v_over (Trouble (ve_broken E)) v)"

text \<open>A message that does not belong here, and a read that failed.\<close>

definition v_unexpected :: "viewer_env \<Rightarrow> string \<Rightarrow> said \<Rightarrow> 'st viewer \<Rightarrow> 'st viewer_result" where
  "v_unexpected E what said v =
     (case said of
        Failed \<Rightarrow> v_over (explain (ve_closed E) (Trouble (ve_debug E Failed))) v
      | _ \<Rightarrow> v_over (Trouble (lit what @ ve_debug E said)) v)"

subsection \<open>The password\<close>

text \<open>\<open>prove\<close>, in the three parts between which it waits for the agent.\<close>

definition v_prove ::
  "('prk, 'st) crypto \<Rightarrow> viewer_env \<Rightarrow> secret \<Rightarrow> str \<Rightarrow> 'st viewer \<Rightarrow> 'st viewer_result" where
  "v_prove C E secr typed v =
     (case ve_binding E of
        None \<Rightarrow> v_over (Trouble (lit ''this connection carries no password exchange: '' @
          lit ''QUIC configuration: this connection exports no keying material'')) v
      | Some binding \<Rightarrow>
          (case ve_seed E of
             None \<Rightarrow> v_over (Trouble (lit ''QUIC configuration: the system random number generator failed'')) v
           | Some seed \<Rightarrow>
               (case material C secr typed of
                  Inl e \<Rightarrow> v_over (Trouble (refused_text e)) v
                | Inr mat \<Rightarrow>
                    (case viewer_start C mat binding seed of
                       (half, start) \<Rightarrow>
                         v_sending E (AuthStart start) v (\<lambda>v'. (v'\<lparr>vw_phase := VAnswer half\<rparr>, []))))))"

definition v_answered ::
  "('prk, 'st) crypto \<Rightarrow> viewer_env \<Rightarrow> 'st viewer_half \<Rightarrow> said \<Rightarrow> 'st viewer \<Rightarrow> 'st viewer_result" where
  "v_answered C E half said v =
     (case said of
        Message (AuthAnswer answer) \<Rightarrow>
          (case viewer_prove C half answer of
             None \<Rightarrow> (v\<lparr>vw_phase := VPanicked\<rparr>, [])
           | Some (Inl e) \<Rightarrow> v_over (Trouble (refused_text e)) v
           | Some (Inr (proven, pf)) \<Rightarrow>
               v_sending E (AuthProve pf) v (\<lambda>v'. (v'\<lparr>vw_phase := VProof proven\<rparr>, [])))
      | _ \<Rightarrow> v_unexpected E ''expected the agent's half of the password exchange, got '' said v)"

definition v_proved ::
  "viewer_env \<Rightarrow> proven \<Rightarrow> said \<Rightarrow> 'st viewer \<Rightarrow> 'st viewer_result" where
  "v_proved E proven said v =
     (case said of
        Message (AuthProved pf) \<Rightarrow>
          (case proven_check proven pf of
             Inl e \<Rightarrow>
               v_over (Trouble (lit ''the agent cannot prove it knows the password:              '' @
                 lit ''something is standing between this viewer and the device: '' @ refused_text e)) v
           | Inr _ \<Rightarrow> (v\<lparr>vw_phase := VNext\<rparr>, []))
      | _ \<Rightarrow> v_unexpected E ''expected the agent's proof, got '' said v)"

text \<open>The password given, or typed now; kept for coming back.\<close>

definition v_with_password ::
  "('prk, 'st) crypto \<Rightarrow> viewer_env \<Rightarrow> secret \<Rightarrow> 'st viewer \<Rightarrow> 'st viewer_result" where
  "v_with_password C E secr v =
     (case (case vw_password v of Some p \<Rightarrow> Inr p | None \<Rightarrow> ve_typed E) of
        Inl why \<Rightarrow> v_over (Trouble why) v
      | Inr typed \<Rightarrow> v_prove C E secr typed (v\<lparr>vw_password := Some typed\<rparr>))"

subsection \<open>The steps\<close>

definition v_authenticate ::
  "('prk, 'st) crypto \<Rightarrow> viewer_options \<Rightarrow> viewer_env \<Rightarrow> required \<Rightarrow> 'st viewer \<Rightarrow> 'st viewer_result" where
  "v_authenticate C opts E req v =
     (case vo_grant opts of
        Some sg \<Rightarrow>
          if \<not> takes_grants req
          then v_over (Refusal (lit ''this device takes a password, not a grant from a server'')) v
          else v_sending E (Present sg) v (\<lambda>v1.
            case (if password_after_grant req then required_secret req else None) of
              Some secr \<Rightarrow> v_with_password C E secr v1
            | None \<Rightarrow> (v1\<lparr>vw_phase := VNext\<rparr>, []))
      | None \<Rightarrow>
          (case (if password_is_enough req then required_secret req else None) of
             None \<Rightarrow>
               v_over (Refusal (lit ''this device needs a grant from its server'' @
                 (if required_secret req \<noteq> None then lit '' as well as its password'' else []) @
                 lit ''; sign in to it first'')) v
           | Some secr \<Rightarrow> v_with_password C E secr v))"

definition v_conclude :: "viewer_options \<Rightarrow> viewer_env \<Rightarrow> said \<Rightarrow> 'st viewer \<Rightarrow> 'st viewer_result" where
  "v_conclude opts E said v =
     (case said of
        Message (MonitorList monitors) \<Rightarrow>
          if \<not> list_ex (\<lambda>m. m_id m = vo_monitor opts) monitors
          then v_over (Refusal (lit ''the agent has no monitor '' @ show_nat (unat (vo_monitor opts)) @
                 lit ''; it has '' @ show_nat (length monitors))) v
          else
            let v1 = v\<lparr>vw_reached := True, vw_monitors := monitors\<rparr> in
            if H264 \<notin> set (vw_codecs v1)
            then v_over (Refusal (lit ''the agent offers no H.264 encoder ('' @ ve_debug_codecs E (vw_codecs v1) @ lit '')'')) v1
            else v_sending E (StartVideo (vo_monitor opts) H264 (vo_fps opts)) v1
                   (\<lambda>v2. (v2\<lparr>vw_phase := VIn\<rparr>, []))
      | _ \<Rightarrow> v_unexpected E ''expected MonitorList, got '' said v)"

definition v_approval :: "viewer_options \<Rightarrow> viewer_env \<Rightarrow> said \<Rightarrow> 'st viewer \<Rightarrow> 'st viewer_result" where
  "v_approval opts E said v =
     (if said = Message AwaitingApproval then (v\<lparr>vw_phase := VLast\<rparr>, []) else v_conclude opts E said v)"

definition v_begin :: "viewer_options \<Rightarrow> viewer_env \<Rightarrow> str option \<Rightarrow> 'st viewer_result" where
  "v_begin opts E passw =
     v_sending E
       (Hello PROTOCOL_VERSION
          \<lparr>codecs = vo_decoders opts, max_width = - 1, max_height = - 1, max_fps = vo_fps opts\<rparr>)
       \<lparr>vw_phase = VHello, vw_password = passw, vw_codecs = [], vw_monitors = [], vw_reached = False\<rparr>
       (\<lambda>v. (v, []))"

definition v_hello :: "viewer_env \<Rightarrow> said \<Rightarrow> 'st viewer \<Rightarrow> 'st viewer_result" where
  "v_hello E said v =
     (case said of
        Message (Hello version caps) \<Rightarrow>
          if version = PROTOCOL_VERSION then (v\<lparr>vw_phase := VFirst, vw_codecs := codecs caps\<rparr>, [])
          else v_over (Refusal (lit ''the agent speaks protocol '' @ show_nat (unat version) @
                 lit '', this viewer '' @ show_nat (unat PROTOCOL_VERSION))) v
      | _ \<Rightarrow> v_unexpected E ''expected Hello, got '' said v)"

definition v_step ::
  "('prk, 'st) crypto \<Rightarrow> viewer_options \<Rightarrow> viewer_env \<Rightarrow> said \<Rightarrow> 'st viewer \<Rightarrow> 'st viewer_result option" where
  "v_step C opts E said v =
     (case vw_phase v of
        VHello \<Rightarrow> Some (v_hello E said v)
      | VFirst \<Rightarrow>
          Some (case said of
                  Message (AuthRequired req) \<Rightarrow> v_authenticate C opts E req v
                | _ \<Rightarrow> v_approval opts E said v)
      | VAnswer half \<Rightarrow> Some (v_answered C E half said v)
      | VProof proven \<Rightarrow> Some (v_proved E proven said v)
      | VNext \<Rightarrow> Some (v_approval opts E said v)
      | VLast \<Rightarrow> Some (v_conclude opts E said v)
      | _ \<Rightarrow> None)"

subsection \<open>Both sides\<close>

text \<open>The two control streams as queues. The viewer reads first where it can; the person at the
  agent, where they are asked, says yes once neither side has anything to read.\<close>

record 'st joint =
  jt_agent :: "shared \<times> handshake"
  jt_viewer :: "'st viewer"
  jt_to_agent :: "control list"
  jt_to_viewer :: "control list"

definition sent_by :: "outgoing list \<Rightarrow> control list" where
  "sent_by outs = concat (map (\<lambda>out. case out of Send m \<Rightarrow> [m] | CloseConn _ _ \<Rightarrow> []) outs)"

definition person_says_yes ::
  "('prk, 'st) crypto \<Rightarrow> 'e grant_crypto \<Rightarrow> hs_config \<Rightarrow> hs_env \<Rightarrow> shared \<times> handshake \<Rightarrow>
     ((shared \<times> handshake) \<times> outgoing list) option" where
  "person_says_yes C GC cfg E a =
     (case (hk_phase (snd a), sh_host (fst a)) of
        (AwaitPerson _ _, Some h) \<Rightarrow>
          hs_step C GC cfg E (PersonEnds Answered) ((fst a)\<lparr>sh_host := Some (host_answer True h)\<rparr>, snd a)
      | _ \<Rightarrow> None)"

definition joint_step ::
  "('prk, 'st) crypto \<Rightarrow> 'e grant_crypto \<Rightarrow> hs_config \<Rightarrow> hs_env \<Rightarrow> viewer_options \<Rightarrow> viewer_env \<Rightarrow>
     'st joint \<Rightarrow> 'st joint option" where
  "joint_step C GC cfg E opts VE j =
     (case jt_to_viewer j of
        m # rest \<Rightarrow>
          (case v_step C opts VE (Message m) (jt_viewer j) of
             None \<Rightarrow> None
           | Some (v', outs) \<Rightarrow>
               Some (j\<lparr>jt_viewer := v', jt_to_viewer := rest, jt_to_agent := jt_to_agent j @ outs\<rparr>))
      | [] \<Rightarrow>
          (case jt_to_agent j of
             [] \<Rightarrow>
               map_option (\<lambda>(a', outs). j\<lparr>jt_agent := a', jt_to_viewer := sent_by outs\<rparr>)
                 (person_says_yes C GC cfg E (jt_agent j))
           | m # rest \<Rightarrow>
               (case hs_step C GC cfg E (Received (Message m)) (jt_agent j) of
                  None \<Rightarrow> None
                | Some (a', outs) \<Rightarrow>
                    Some (j\<lparr>jt_agent := a', jt_to_agent := rest, jt_to_viewer := sent_by outs\<rparr>))))"

primrec joint_run ::
  "nat \<Rightarrow> ('prk, 'st) crypto \<Rightarrow> 'e grant_crypto \<Rightarrow> hs_config \<Rightarrow> hs_env \<Rightarrow> viewer_options \<Rightarrow> viewer_env \<Rightarrow>
     'st joint \<Rightarrow> 'st joint option" where
  "joint_run 0 C GC cfg E opts VE j = Some j"
| "joint_run (Suc n) C GC cfg E opts VE j =
     (case joint_step C GC cfg E opts VE j of
        None \<Rightarrow> None
      | Some j' \<Rightarrow> joint_run n C GC cfg E opts VE j')"

definition joint_begin ::
  "viewer_options \<Rightarrow> viewer_env \<Rightarrow> str option \<Rightarrow> shared \<Rightarrow> 'st joint" where
  "joint_begin opts VE passw sh =
     (case v_begin opts VE passw of
        (v, outs) \<Rightarrow>
          \<lparr>jt_agent = (sh, handshake_new), jt_viewer = v, jt_to_agent = outs, jt_to_viewer = []\<rparr>)"

end
