(* ===== verification/Viewer_Handshake_Theorems.thy ===== *)
theory Viewer_Handshake_Theorems
  imports Viewer_Handshake
begin

text \<open>
  The two sides of the handshake together: with the right password, or a grant the agent
  takes, or both where both are asked for, and the yes of the person where there is one to ask,
  they come to an end on which they agree.
\<close>

subsection \<open>Running the two sides\<close>


lemma joint_run_add:
  "joint_run n C GC cfg E opts VE j = Some j' \<Longrightarrow>
   joint_run (n + m) C GC cfg E opts VE j = joint_run m C GC cfg E opts VE j'"
  by (induction n arbitrary: j) (auto split: option.splits)






subsection \<open>What the two sides need\<close>





subsection \<open>The last leg\<close>





subsection \<open>The first leg\<close>










subsection \<open>Getting in\<close>






end
