(* ===== verification/Viewer_Run.thy ===== *)
theory Viewer_Run
  imports Viewer_Handshake_Theorems
begin

text \<open>
  Coming back to an agent (\<open>crates/viewer/src/direct.rs\<close>: \<open>run\<close>, \<open>session\<close>): the loop
  over connections, what is final and what is tried again, and for how long.

  An attempt is what one connection came to: whether it got as far as the picture, how it
  ended and when, and how the wait after it ended. Times are in nanoseconds.
\<close>

subsection \<open>The loop\<close>

definition RECONNECT_FOR :: nat where "RECONNECT_FOR = 120 * SECOND"
definition RECONNECT_FIRST :: nat where "RECONNECT_FIRST = 1 * SECOND"
definition RECONNECT_MAX :: nat where "RECONNECT_MAX = 10 * SECOND"

datatype link = Live | ComingBack str | OverFor str

datatype wait_end = Slept nat | StopAsked | CtrlC

record attempt =
  at_reached :: bool
  at_result :: "viewer_error + unit"
  at_ended :: nat
  at_judged :: nat
  at_wait :: wait_end

record comeback =
  cb_established :: bool
  cb_lost_at :: "nat option"
  cb_wait :: nat
  cb_link :: link

datatype run_result = GoesOn comeback | Finishes "viewer_error + unit"

definition comeback_new :: comeback where
  "comeback_new =
     \<lparr>cb_established = False, cb_lost_at = None, cb_wait = RECONNECT_FIRST, cb_link = Live\<rparr>"

text \<open>An attempt that reached the picture, noted.\<close>

definition note_reached :: "attempt \<Rightarrow> comeback \<Rightarrow> comeback" where
  "note_reached a c =
     (if at_reached a
      then c\<lparr>cb_established := True, cb_lost_at := None, cb_wait := RECONNECT_FIRST, cb_link := Live\<rparr>
      else c)"

definition is_refusal :: "viewer_error \<Rightarrow> bool" where
  "is_refusal err \<longleftrightarrow> (case err of Refusal _ \<Rightarrow> True | Trouble _ \<Rightarrow> False)"

definition run_step :: "str \<Rightarrow> nat option \<Rightarrow> attempt \<Rightarrow> comeback \<Rightarrow> run_result" where
  "run_step target deadline a c =
     (let c1 = note_reached a c in
      case at_result a of
        Inr u \<Rightarrow> Finishes (Inr u)
      | Inl err \<Rightarrow>
          if \<not> cb_established c1 then Finishes (Inl err)
          else if is_refusal err then Finishes (Inl err)
          else
            let since = (case cb_lost_at c1 of Some t \<Rightarrow> t | None \<Rightarrow> at_ended a) in
            if at_judged a - since \<ge> RECONNECT_FOR
            then Finishes (Inl (Trouble
                   (lit ''could not get back to '' @ target @ lit '' within 120s: '' @ error_text err)))
            else
              let c2 = c1\<lparr>cb_lost_at := Some since,
                          cb_link := ComingBack (lit ''lost the device ('' @ error_text err @ lit '') '' @
                            [8212] @ lit '' trying again'')\<rparr> in
              (case at_wait a of
                 StopAsked \<Rightarrow> Finishes (Inr ())
               | CtrlC \<Rightarrow> Finishes (Inr ())
               | Slept now \<Rightarrow>
                   if (case deadline of None \<Rightarrow> False | Some d \<Rightarrow> d \<le> now) then Finishes (Inr ())
                   else GoesOn (c2\<lparr>cb_wait := min (cb_wait c2 * 2) RECONNECT_MAX\<rparr>)))"

text \<open>What the window says when the loop is over.\<close>

definition link_over :: "viewer_error + unit \<Rightarrow> link" where
  "link_over outcome =
     OverFor (case outcome of Inr _ \<Rightarrow> lit ''the session ended'' | Inl e \<Rightarrow> error_text e)"

primrec run_loop :: "str \<Rightarrow> nat option \<Rightarrow> attempt list \<Rightarrow> comeback \<Rightarrow> run_result" where
  "run_loop target deadline [] c = GoesOn c"
| "run_loop target deadline (a # as) c =
     (case run_step target deadline a c of
        GoesOn c' \<Rightarrow> run_loop target deadline as c'
      | Finishes outcome \<Rightarrow> Finishes outcome)"

text \<open>One connection, after connecting: the end of \<open>talk\<close>, judged by why the connection is
  over where it left early.\<close>

definition session_end :: "close_reason option \<Rightarrow> viewer_error + (viewer_error + unit) \<Rightarrow> viewer_error + unit" where
  "session_end reason talked =
     (case talked of Inr outcome \<Rightarrow> outcome | Inl early \<Rightarrow> ended reason early)"

subsection \<open>What is final\<close>

lemma ended_cases:
  "ended reason (Refusal t) = Inl (Refusal t)"
  "ended (Some (ApplicationClosed code why)) (Trouble t) =
     (if code = unat (close_number NORMAL) then Inr ()
      else Inl (explain (Some (ApplicationClosed code why)) (Trouble t)))"
  by (simp_all add: ended_def)

text \<open>A close code of the agent, by what the viewer makes of it.\<close>

lemma ended_by_code:
  "ended (Some (ApplicationClosed (unat (close_number code)) why)) (Trouble t) =
     (if code = NORMAL then Inr ()
      else if code = GOING_AWAY then
        Inl (Trouble (lit ''agent closed the connection: '' @ why @ lit '' (code '' @ show_nat 8 @ lit '')''))
      else Inl (Refusal (lit ''agent closed the connection: '' @ why @ lit '' (code '' @
             show_nat (unat (close_number code)) @ lit '')'')))"
  by (cases code) (simp_all add: ended_def explain_def Let_def)

subsection \<open>How long it tries\<close>

text \<open>An attempt that is part of coming back: it did not reach the picture, it failed in a way
  that may pass, and the wait after it was sat out in full.\<close>

definition retried :: "nat \<Rightarrow> attempt \<Rightarrow> bool" where
  "retried wait a \<longleftrightarrow>
     \<not> at_reached a \<and> (\<exists>t. at_result a = Inl (Trouble t)) \<and> at_ended a \<le> at_judged a \<and>
     (\<exists>now. at_wait a = Slept now \<and> at_judged a + wait \<le> now)"

text \<open>Attempts one after the other, each starting, and so ending, after the wait before it.\<close>

fun in_turn :: "attempt list \<Rightarrow> bool" where
  "in_turn (a # b # as) \<longleftrightarrow>
     (\<forall>now. at_wait a = Slept now \<longrightarrow> now \<le> at_ended b) \<and> in_turn (b # as)"
| "in_turn _ \<longleftrightarrow> True"

text \<open>Attempts that never get as far as the picture.\<close>

definition fruitless :: "attempt list \<Rightarrow> bool" where
  "fruitless as \<longleftrightarrow> (\<forall>a \<in> set as. \<not> at_reached a \<and> at_ended a \<le> at_judged a)"

text \<open>Each wait that is slept through lasts at least as long as the loop asks for.\<close>

primrec sleeps_enough :: "str \<Rightarrow> nat option \<Rightarrow> attempt list \<Rightarrow> comeback \<Rightarrow> bool" where
  "sleeps_enough target deadline [] c = True"
| "sleeps_enough target deadline (a # as) c \<longleftrightarrow>
     (\<forall>now. at_wait a = Slept now \<longrightarrow> at_judged a + cb_wait (note_reached a c) \<le> now) \<and>
     (case run_step target deadline a c of
        GoesOn c' \<Rightarrow> sleeps_enough target deadline as c'
      | Finishes _ \<Rightarrow> True)"

text \<open>The waits: 1 s, doubled each time up to 10 s.\<close>

fun nth_wait :: "nat \<Rightarrow> nat" where
  "nth_wait 0 = RECONNECT_FIRST"
| "nth_wait (Suc n) = min (nth_wait n * 2) RECONNECT_MAX"

primrec total_wait :: "nat \<Rightarrow> nat" where
  "total_wait 0 = 0"
| "total_wait (Suc n) = total_wait n + nth_wait n"

lemma nth_wait_bounds: "RECONNECT_FIRST \<le> nth_wait n \<and> nth_wait n \<le> RECONNECT_MAX"
  by (induction n) (auto simp: RECONNECT_FIRST_def RECONNECT_MAX_def SECOND_def)

lemma nth_wait_start:
  "nth_wait 0 = 1 * SECOND" "nth_wait 1 = 2 * SECOND" "nth_wait 2 = 4 * SECOND" "nth_wait 3 = 8 * SECOND"
  by (simp_all add: numeral_2_eq_2 numeral_3_eq_3 RECONNECT_FIRST_def RECONNECT_MAX_def)

lemma nth_wait_settled: "nth_wait (n + 4) = 10 * SECOND"
proof (induction n)
  case 0
  have "nth_wait 4 = min (nth_wait 3 * 2) RECONNECT_MAX" using nth_wait.simps(2) [of 3] by simp
  then show ?case using nth_wait_start by (simp add: RECONNECT_MAX_def)
next
  case (Suc n)
  then show ?case unfolding add_Suc nth_wait.simps by (simp add: RECONNECT_MAX_def)
qed

lemma total_wait_settled: "total_wait (n + 4) = (15 + 10 * n) * SECOND"
proof (induction n)
  case 0
  have "total_wait 4 = nth_wait 0 + nth_wait 1 + nth_wait 2 + nth_wait 3"
    by (simp add: numeral_eq_Suc del: nth_wait.simps)
  then show ?case using nth_wait_start by simp
next
  case (Suc n)
  have "total_wait (Suc n + 4) = total_wait (n + 4) + nth_wait (n + 4)" by (simp only: add_Suc total_wait.simps)
  then show ?case using Suc nth_wait_settled [of n] by (simp add: algebra_simps)
qed

lemma total_wait_15: "total_wait 15 = 125 * SECOND"
  using total_wait_settled [of 11] by simp

lemma total_wait_14: "total_wait 14 = 115 * SECOND"
  using total_wait_settled [of 10] by simp

lemma total_wait_mono: "m \<le> n \<Longrightarrow> total_wait m \<le> total_wait n"
  by (induction n) (auto simp: le_Suc_eq)

subsection \<open>Giving up\<close>

text \<open>The state after \<open>n\<close> attempts that came to nothing: the loss is as old as the waits sat
  out since.\<close>

lemma run_step_retried:
  assumes "retried (cb_wait c) a" and "cb_established c"
    and "run_step target deadline a c = GoesOn c'"
  shows "cb_established c' \<and> cb_wait c' = min (cb_wait c * 2) RECONNECT_MAX \<and>
    cb_lost_at c' = Some (case cb_lost_at c of Some t \<Rightarrow> t | None \<Rightarrow> at_ended a)"
    and "at_judged a - (case cb_lost_at c of Some t \<Rightarrow> t | None \<Rightarrow> at_ended a) < RECONNECT_FOR"
  using assms
  by (auto simp: run_step_def retried_def note_reached_def Let_def is_refusal_def split: if_splits option.splits)

lemma retries_wait:
  assumes "run_loop target deadline as c = GoesOn c'" and "cb_established c" and "in_turn as"
    and "\<forall>i < length as. retried (nth_wait (k + i)) (as ! i)" and "cb_wait c = nth_wait k"
    and "cb_lost_at c = Some since" and "as \<noteq> [] \<Longrightarrow> since + total_wait k \<le> at_ended (hd as)"
    and "as \<noteq> []"
  shows "total_wait (k + length as - 1) < RECONNECT_FOR"
  using assms
proof (induction as arbitrary: c k)
  case Nil
  then show ?case by simp
next
  case (Cons a as)
  obtain c1 where step: "run_step target deadline a c = GoesOn c1" and rest: "run_loop target deadline as c1 = GoesOn c'"
    using Cons.prems(1) by (auto split: run_result.splits)
  have ret: "retried (cb_wait c) a" using Cons.prems(4,5) by force
  note facts = run_step_retried [OF ret Cons.prems(2) step]
  have late: "since + total_wait k \<le> at_judged a" using Cons.prems(7) ret by (auto simp: retried_def)
  show ?case
  proof (cases as)
    case Nil
    then show ?thesis using facts(2) Cons.prems(6) late by simp
  next
    case (Cons b bs)
    obtain now where now: "at_wait a = Slept now" "at_judged a + nth_wait k \<le> now"
      using ret Cons.prems(5) by (auto simp: retried_def)
    then have "now \<le> at_ended b" using Cons.prems(3) Cons by simp
    then have "since + total_wait (Suc k) \<le> at_ended (hd as)" using now late Cons by simp
    moreover have "in_turn as" using Cons.prems(3) Cons by simp
    moreover have "\<forall>i < length as. retried (nth_wait (Suc k + i)) (as ! i)"
      using Cons.prems(4) by (metis add_Suc_right add_Suc_shift length_Cons not_less_eq nth_Cons_Suc)
    moreover have "cb_wait c1 = nth_wait (Suc k)" "cb_established c1" "cb_lost_at c1 = Some since"
      using facts(1) Cons.prems(5,6) by auto
    ultimately have "total_wait (Suc k + length as - 1) < RECONNECT_FOR"
      using Cons.IH [OF rest, of "Suc k"] Cons by blast
    then show ?thesis by simp
  qed
qed

lemma run_step_lost:
  assumes "\<not> at_reached a"
  shows "run_step target deadline a (c\<lparr>cb_lost_at := None\<rparr>) =
    run_step target deadline a (c\<lparr>cb_lost_at := Some (at_ended a)\<rparr>)"
  using assms by (simp add: run_step_def note_reached_def Let_def split: sum.split)

lemma run_step_fruitless:
  assumes "\<not> at_reached a" and "cb_established c" and "run_step target deadline a c = GoesOn c'"
  shows "cb_established c' \<and> cb_wait c' = min (cb_wait c * 2) RECONNECT_MAX \<and>
    (\<exists>t. at_result a = Inl (Trouble t)) \<and> (\<exists>now. at_wait a = Slept now)"
  using assms
  by (auto simp: run_step_def note_reached_def Let_def is_refusal_def
      split: if_splits option.splits sum.splits viewer_error.splits wait_end.splits)

lemma going_on_retried:
  assumes "run_loop target deadline as c = GoesOn c'" and "cb_established c" and "fruitless as"
    and "sleeps_enough target deadline as c" and "cb_wait c = nth_wait k"
  shows "(\<forall>i < length as. retried (nth_wait (k + i)) (as ! i)) \<and> cb_wait c' = nth_wait (k + length as)"
  using assms
proof (induction as arbitrary: c k)
  case (Cons a as)
  obtain c1 where step: "run_step target deadline a c = GoesOn c1" and rest: "run_loop target deadline as c1 = GoesOn c'"
    using Cons.prems(1) by (auto split: run_result.splits)
  have a: "\<not> at_reached a" "at_ended a \<le> at_judged a" and as: "fruitless as"
    using Cons.prems(3) by (simp_all add: fruitless_def)
  note next_state = run_step_fruitless [OF a(1) Cons.prems(2) step]
  have here: "retried (nth_wait k) a"
    using next_state Cons.prems(4,5) a by (auto simp: retried_def note_reached_def)
  have later: "(\<forall>i < length as. retried (nth_wait (Suc k + i)) (as ! i)) \<and> cb_wait c' = nth_wait (Suc k + length as)"
    by (rule Cons.IH [OF rest _ as]) (use next_state Cons.prems(4,5) step in simp_all)
  have "retried (nth_wait (k + i)) ((a # as) ! i)" if "i < length (a # as)" for i
    using that here later by (cases i) auto
  then show ?case using later by auto
qed simp

lemma run_loop_error:
  assumes "run_loop target None as c = Finishes outcome" and "cb_established c"
    and "\<forall>a \<in> set as. (\<exists>t. at_result a = Inl (Trouble t)) \<and> (\<exists>now. at_wait a = Slept now)"
  shows "\<exists>t. outcome = Inl (Trouble t)"
  using assms
proof (induction as arbitrary: c)
  case Nil
  then show ?case by simp
next
  case (Cons a as)
  show ?case
  proof (cases "run_step target None a c")
    case (GoesOn c1)
    then have "cb_established c1"
      using Cons.prems(2,3)
      by (auto simp: run_step_def note_reached_def Let_def is_refusal_def split: if_splits option.splits)
    then show ?thesis using Cons GoesOn by auto
  next
    case (Finishes out)
    then show ?thesis
      using Cons.prems
      by (auto simp: run_step_def note_reached_def Let_def is_refusal_def split: if_splits option.splits)
  qed
qed

lemma fruitless_ends:
  assumes "cb_established c" and "cb_lost_at c = None" and "cb_wait c = RECONNECT_FIRST"
    and "in_turn as" and "fruitless as" and "sleeps_enough target deadline as c" and "15 < length as"
  shows "\<exists>outcome. run_loop target deadline as c = Finishes outcome"
proof (cases "run_loop target deadline as c")
  case (GoesOn c')
  have ret: "\<forall>i < length as. retried (nth_wait (0 + i)) (as ! i)"
    using going_on_retried [OF GoesOn assms(1,5,6), of 0] assms(3) by simp
  obtain a bs where as: "as = a # bs" using assms(7) by (cases as) auto
  let ?c = "c\<lparr>cb_lost_at := Some (at_ended a)\<rparr>"
  have a: "\<not> at_reached a" using assms(5) as by (simp add: fruitless_def)
  have "c = c\<lparr>cb_lost_at := None\<rparr>" using assms(2) by simp
  then have "run_step target deadline a c = run_step target deadline a ?c" using run_step_lost [OF a] by metis
  then have goes: "run_loop target deadline as ?c = GoesOn c'" using GoesOn as by simp
  have "total_wait (0 + length as - 1) < RECONNECT_FOR"
    by (rule retries_wait [OF goes _ assms(4) ret, of "at_ended a"]) (use assms as in simp_all)
  moreover have "total_wait 15 \<le> total_wait (0 + length as - 1)" using assms(7) by (intro total_wait_mono) simp
  ultimately have False by (simp add: total_wait_15 RECONNECT_FOR_def)
  then show ?thesis ..
qed simp

text \<open>The attempt that lost the picture, as the first of those that do not get it back.\<close>

lemma run_step_reached:
  assumes "at_reached a"
  shows "run_step target deadline a c = run_step target deadline (a\<lparr>at_reached := False\<rparr>) (note_reached a c)"
  using assms by (cases "at_result a") (simp_all add: run_step_def note_reached_def Let_def)

lemma run_loop_reached:
  "at_reached a \<Longrightarrow> run_loop target deadline (a # as) c =
     run_loop target deadline (a\<lparr>at_reached := False\<rparr> # as) (note_reached a c)"
  by (simp add: run_step_reached)

lemma sleeps_enough_reached:
  "at_reached a \<Longrightarrow> sleeps_enough target deadline (a # as) c \<Longrightarrow>
     sleeps_enough target deadline (a\<lparr>at_reached := False\<rparr> # as) (note_reached a c)"
  by (simp add: run_step_reached [symmetric]) (simp add: note_reached_def)

lemma sleeps_enough_take:
  "sleeps_enough target deadline as c \<Longrightarrow> sleeps_enough target deadline (take n as) c"
  by (induction as arbitrary: c n) (auto simp: take_Cons' split: run_result.splits)

text \<open>C11. Coming back ends: after an attempt that got as far as the picture and lost it, fifteen
  that do not get as far, however they end, end the loop at the latest, with an error where each of
  them failed in a way that may pass, each wait was slept through and no deadline was set. And while
  it goes on, the wait before the next attempt is 1 s after the loss, then 2, 4, 8 and from then on
  10 seconds.\<close>

theorem coming_back_ends:
  assumes "at_reached a" and "at_ended a \<le> at_judged a" and "in_turn (a # as)" and "fruitless as"
    and "sleeps_enough target deadline (a # as) c"
  shows "(15 \<le> length as \<longrightarrow>
      (\<exists>outcome. run_loop target deadline (a # as) c = Finishes outcome \<and>
        (deadline = None \<and> (\<forall>b \<in> set (a # as). (\<exists>t. at_result b = Inl (Trouble t)) \<and> (\<exists>now. at_wait b = Slept now)) \<longrightarrow>
           (\<exists>t. outcome = Inl (Trouble t))))) \<and>
    (\<forall>n c'. n \<le> length as \<and> run_loop target deadline (a # take n as) c = GoesOn c' \<longrightarrow>
       cb_wait (note_reached a c) = 1 * SECOND \<and>
       cb_wait c' = (if n = 0 then 2 else if n = 1 then 4 else if n = 2 then 8 else 10) * SECOND)"
proof (intro conjI allI impI)
  let ?a = "a\<lparr>at_reached := False\<rparr>" and ?c = "note_reached a c"
  have c: "cb_established ?c" "cb_lost_at ?c = None" "cb_wait ?c = RECONNECT_FIRST"
    using assms(1) by (simp_all add: note_reached_def)
  have turn: "in_turn (?a # as)" using assms(3) by (cases as) simp_all
  have none: "fruitless (?a # as)" using assms(2,4) by (simp add: fruitless_def)
  note slept = sleeps_enough_reached [OF assms(1,5)]
  show "\<exists>outcome. run_loop target deadline (a # as) c = Finishes outcome \<and>
      (deadline = None \<and> (\<forall>b \<in> set (a # as). (\<exists>t. at_result b = Inl (Trouble t)) \<and> (\<exists>now. at_wait b = Slept now)) \<longrightarrow>
         (\<exists>t. outcome = Inl (Trouble t)))" if "15 \<le> length as"
  proof -
    have "15 < length (?a # as)" using that by simp
    then obtain outcome where fin: "run_loop target deadline (?a # as) ?c = Finishes outcome"
      using fruitless_ends [OF c turn none slept] by blast
    then show ?thesis
      unfolding run_loop_reached [OF assms(1)] using run_loop_error [of target "?a # as" ?c outcome] c(1) by auto
  qed
  fix n c' assume "n \<le> length as \<and> run_loop target deadline (a # take n as) c = GoesOn c'"
  then have n: "n \<le> length as" and goes: "run_loop target deadline (?a # take n as) ?c = GoesOn c'"
    unfolding run_loop_reached [OF assms(1)] by simp_all
  have "fruitless (?a # take n as)" using none by (auto simp: fruitless_def dest: in_set_takeD)
  moreover have "sleeps_enough target deadline (?a # take n as) ?c"
    using sleeps_enough_take [OF slept, of "Suc n"] by simp
  ultimately have "cb_wait c' = nth_wait (Suc n)"
    using going_on_retried [OF goes c(1), of 0] c(3) n by simp
  moreover have "nth_wait (Suc n) = (if n = 0 then 2 else if n = 1 then 4 else if n = 2 then 8 else 10) * SECOND"
  proof -
    have "n = 0 \<or> n = 1 \<or> n = 2 \<or> (\<exists>m. Suc n = m + 4)" by presburger
    then consider "n = 0" | "n = 1" | "n = 2" | m where "Suc n = m + 4" by blast
    then show ?thesis
    proof cases
      case (4 m)
      then have "nth_wait (Suc n) = 10 * SECOND" using nth_wait_settled [of m] by metis
      moreover have "n \<noteq> 0" "n \<noteq> 1" "n \<noteq> 2" using 4 by simp_all
      ultimately show ?thesis by (simp del: nth_wait.simps)
    qed (use nth_wait_start in \<open>simp_all add: numeral_2_eq_2 numeral_3_eq_3 del: nth_wait.simps\<close>)
  qed
  ultimately show "cb_wait c' = (if n = 0 then 2 else if n = 1 then 4 else if n = 2 then 8 else 10) * SECOND" by simp
  show "cb_wait ?c = 1 * SECOND" using c(3) by (simp add: RECONNECT_FIRST_def)
qed

definition demo_attempt :: "nat \<Rightarrow> attempt" where
  "demo_attempt t =
     \<lparr>at_reached = False, at_result = Inl (Trouble []), at_ended = t, at_judged = t,
      at_wait = Slept (t + 10 * SECOND)\<rparr>"

definition demo_attempts :: "attempt list" where
  "demo_attempts = map (\<lambda>i. demo_attempt (i * (10 * SECOND))) [1..<1 + 15]"

lemma in_turn_map: "in_turn (map (\<lambda>i. demo_attempt (i * (10 * SECOND))) [n..<n + m])"
proof (induction m arbitrary: n)
  case 0
  then show ?case by simp
next
  case (Suc m)
  then show ?case using Suc.IH [of "Suc n"]
    by (cases m) (simp_all add: upt_conv_Cons demo_attempt_def del: upt_Suc)
qed

lemma run_step_wait:
  "cb_wait c \<le> RECONNECT_MAX \<Longrightarrow> run_step target deadline a c = GoesOn c' \<Longrightarrow> cb_wait c' \<le> RECONNECT_MAX"
  by (auto simp: run_step_def Let_def split: sum.splits if_splits wait_end.splits)

lemma long_sleeps:
  assumes "\<forall>a \<in> set as. \<forall>now. at_wait a = Slept now \<longrightarrow> at_judged a + RECONNECT_MAX \<le> now"
    and "cb_wait c \<le> RECONNECT_MAX"
  shows "sleeps_enough target deadline as c"
  using assms
proof (induction as arbitrary: c)
  case (Cons a as)
  have "cb_wait (note_reached a c) \<le> RECONNECT_MAX"
    using Cons.prems(2) by (simp add: note_reached_def RECONNECT_FIRST_def RECONNECT_MAX_def SECOND_def)
  moreover have "sleeps_enough target deadline as c'" if "run_step target deadline a c = GoesOn c'" for c'
    using Cons that run_step_wait by auto
  ultimately show ?case using Cons.prems(1) by (fastforce split: run_result.splits)
qed simp

theorem coming_back_ends_witness:
  "\<exists>t. run_loop [] None ((demo_attempt 0)\<lparr>at_reached := True\<rparr> # demo_attempts) comeback_new = Finishes (Inl (Trouble t))"
proof -
  let ?a = "(demo_attempt 0)\<lparr>at_reached := True\<rparr>"
  have turn: "in_turn (?a # demo_attempts)"
    using in_turn_map [of 0 16]
    by (simp add: upt_conv_Cons demo_attempts_def demo_attempt_def del: upt_Suc)
  have none: "fruitless demo_attempts" by (auto simp: fruitless_def demo_attempts_def demo_attempt_def)
  have all: "\<forall>b \<in> set (?a # demo_attempts). (\<exists>t. at_result b = Inl (Trouble t)) \<and> (\<exists>now. at_wait b = Slept now)"
    by (auto simp: demo_attempts_def demo_attempt_def)
  have slept: "sleeps_enough [] None (?a # demo_attempts) comeback_new"
    by (rule long_sleeps) (auto simp: demo_attempts_def demo_attempt_def comeback_new_def RECONNECT_FIRST_def RECONNECT_MAX_def SECOND_def)
  show ?thesis
    using coming_back_ends [OF _ _ turn none slept] all by (auto simp: demo_attempts_def demo_attempt_def)
qed

subsection \<open>What the agent decides\<close>

text \<open>Where a viewer notices that the connection is over: reading in the handshake, which explains
  the error at once; reading in the session's loop, whose end is judged there; and any other call,
  whose error leaves early.\<close>

datatype noticing = ReadingHandshake | ReadingSession | OtherCall

definition noticed :: "noticing \<Rightarrow> close_reason option \<Rightarrow> str \<Rightarrow> viewer_error + (viewer_error + unit)" where
  "noticed how reason t =
     (case how of
        ReadingHandshake \<Rightarrow> Inl (explain reason (Trouble t))
      | ReadingSession \<Rightarrow> Inr (ended reason (Trouble t))
      | OtherCall \<Rightarrow> Inl (Trouble t))"

text \<open>So does the handshake of the model.\<close>

lemma handshake_read_fails:
  assumes "v_step C opts VE Failed v = Some (v', outs)" and "vw_phase v' = VOver err"
  shows "Inl err = noticed ReadingHandshake (ve_closed VE) (ve_debug VE Failed)"
  using assms
  by (auto simp: v_step_def v_hello_def v_answered_def v_proved_def v_approval_def v_conclude_def v_unexpected_def
      v_over_def noticed_def split: viewer_phase.splits)

lemma session_end_noticed:
  "session_end (Some (ApplicationClosed n why)) (noticed how (Some (ApplicationClosed n why)) t) =
     (if n = unat (close_number NORMAL) \<and> how \<noteq> ReadingHandshake then Inr ()
      else if n = unat (close_number GOING_AWAY) then
        Inl (Trouble (lit ''agent closed the connection: '' @ why @ lit '' (code '' @ show_nat n @ lit '')''))
      else Inl (Refusal (lit ''agent closed the connection: '' @ why @ lit '' (code '' @ show_nat n @ lit '')'')))"
  by (cases how) (auto simp: session_end_def noticed_def ended_def explain_def Let_def)

text \<open>C12. What the agent decided is final: whatever call of the viewer noticed that the agent closed
  the connection, a code but GOING\_AWAY and NORMAL ends the loop with the agent's reason; NORMAL
  ends it without an error, but where it is read in the handshake, before the viewer is in, also
  with the agent's reason; after GOING\_AWAY the viewer tries again, if it was in, has not tried for
  two minutes and is not told to stop.\<close>

theorem agent_decides:
  assumes "at_result a = session_end (Some (ApplicationClosed n why)) (noticed how (Some (ApplicationClosed n why)) t)"
  shows "(n \<noteq> unat (close_number GOING_AWAY) \<longrightarrow>
      run_step target deadline a c = Finishes
        (if n = unat (close_number NORMAL) \<and> how \<noteq> ReadingHandshake then Inr ()
         else Inl (Refusal (lit ''agent closed the connection: '' @ why @ lit '' (code '' @ show_nat n @ lit '')'')))) \<and>
    (n = unat (close_number GOING_AWAY) \<and> cb_established (note_reached a c) \<and>
     at_judged a - (case cb_lost_at (note_reached a c) of Some lost \<Rightarrow> lost | None \<Rightarrow> at_ended a) < RECONNECT_FOR \<and>
     at_wait a = Slept now \<and> (\<forall>d. deadline = Some d \<longrightarrow> now < d) \<longrightarrow>
       (\<exists>c'. run_step target deadline a c = GoesOn c'))"
  using assms unfolding session_end_noticed
  by (auto simp: run_step_def is_refusal_def Let_def split: option.splits)

theorem agent_decides_witness:
  "run_step [] None ((demo_attempt 0)\<lparr>at_result := session_end (Some (ApplicationClosed 3 []))
      (noticed OtherCall (Some (ApplicationClosed 3 [])) [])\<rparr>) comeback_new =
    Finishes (Inl (Refusal (lit ''agent closed the connection: '' @ [] @ lit '' (code '' @ show_nat 3 @ lit '')'')))"
  using agent_decides [of "(demo_attempt 0)\<lparr>at_result := session_end (Some (ApplicationClosed 3 []))
      (noticed OtherCall (Some (ApplicationClosed 3 [])) [])\<rparr>" 3 "[]" OtherCall "[]" "[]" None comeback_new]
  by simp

text \<open>An agent that cannot prove the password is not final: after a session that got going, the
  viewer starts the exchange again with whoever answers.\<close>

lemma failed_proof_is_retried:
  assumes "proven_check p pf = Inl e" and "v_proved E p (Message (AuthProved pf)) v = (v', outs)"
    and "vw_phase v' = VOver err" and "at_result a = session_end None (Inl err)"
    and "cb_established c" and "cb_lost_at c = None" and "at_judged a = at_ended a" and "at_wait a = Slept now"
  shows "\<exists>c'. run_step target None a c = GoesOn c'"
  using assms
  by (auto simp: v_proved_def v_over_def session_end_def ended_def explain_def run_step_def note_reached_def
      is_refusal_def RECONNECT_FOR_def SECOND_def Let_def split: if_splits)

end
