(* ===== verification/Viewer_Session.thy ===== *)
theory Viewer_Session
  imports Video_Run Clock Viewer_Run
begin

text \<open>
  A viewer's session once it is in (\<open>crates/viewer/src/direct.rs\<close>: the loop of \<open>talk\<close>,
  \<open>repair_timing\<close>, \<open>ask_for_repairs\<close>, \<open>deliver\<close>, \<open>LossSimulator\<close>): datagrams into the
  reassembler, frames to the recording and the decoder, repairs and keyframes asked for, the
  clock probed, another monitor watched.

  The branches of the \<open>select!\<close> are the events; an environment gives what the code reads at
  each. Moments are nanoseconds, the capture clock counts microseconds. What the loop does is a
  list of effects. A step is \<open>None\<close> where a call on the reassembler never returns. When a frame
  was received, which only the overlay shows, is left out, as is what is only printed.
\<close>

subsection \<open>Constants and timings\<close>

definition MILLI :: nat where "MILLI = 1000000"
definition KEYFRAME_REQUEST_INTERVAL :: nat where "KEYFRAME_REQUEST_INTERVAL = 250 * MILLI"
definition PING_FAST :: nat where "PING_FAST = 100 * MILLI"
definition PING_FAST_FOR :: nat where "PING_FAST_FOR = 2 * SECOND"
definition PING_SLOW :: nat where "PING_SLOW = 1 * SECOND"

definition repair_timing :: "nat \<Rightarrow> timing" where
  "repair_timing rtt =
     (let rtt_us = (of_nat (rtt div 1000) :: u64) in
      \<lparr>quiet_us = rtt_us + 5000, retry_us = rtt_us * 3 div 2 + 10000, give_up_us = rtt_us * 3 + 60000\<rparr>)"

subsection \<open>Simulated loss\<close>

record loss_simulator =
  lo_percent :: u8
  lo_state :: u64

text \<open>\<open>seed\<close> is the time, if the clock is past its epoch.\<close>

definition loss_new :: "u8 \<Rightarrow> u64 \<Rightarrow> loss_simulator" where
  "loss_new percent seed = \<lparr>lo_percent = min percent 100, lo_state = or seed 1\<rparr>"

definition drop_this :: "loss_simulator \<Rightarrow> bool \<times> loss_simulator" where
  "drop_this l =
     (if lo_percent l = 0 then (False, l)
      else
        let s1 = xor (lo_state l) (push_bit 13 (lo_state l));
            s2 = xor s1 (drop_bit 7 s1);
            s3 = xor s2 (push_bit 17 s2) in
        (s3 mod 100 < ucast (lo_percent l), l\<lparr>lo_state := s3\<rparr>))"

subsection \<open>State, events and effects\<close>

record session_stats =
  st_datagrams :: u64
  st_bytes :: u64
  st_frames :: u64
  st_keyframes :: u64
  st_keyframe_requests :: u64
  st_undecodable :: u64
  st_simulated_drops :: u64

definition stats_new :: session_stats where
  "stats_new = \<lparr>st_datagrams = 0, st_bytes = 0, st_frames = 0, st_keyframes = 0, st_keyframe_requests = 0,
     st_undecodable = 0, st_simulated_drops = 0\<rparr>"

text \<open>How the loop is left: through \<open>break\<close>, or early by an error of a call in it.\<close>

datatype leaving = Leaves "viewer_error + unit" | LeavesEarly viewer_error

record viewing =
  wa_reassembler :: reassembler
  wa_loss :: loss_simulator
  wa_stats :: session_stats
  wa_keyframe_needed :: bool
  wa_last_request :: "nat option"
  wa_clock :: clock_sync
  wa_started :: nat
  wa_last_ping :: "nat option"
  wa_monitors :: "monitor list"
  wa_watching :: u8
  wa_left :: "leaving option"

definition viewing_new :: "u8 \<Rightarrow> u64 \<Rightarrow> nat \<Rightarrow> monitor list \<Rightarrow> u8 \<Rightarrow> viewing" where
  "viewing_new percent seed now monitors monitor =
     \<lparr>wa_reassembler = reassembler_new, wa_loss = loss_new percent seed, wa_stats = stats_new,
      wa_keyframe_needed = False, wa_last_request = None, wa_clock = clock_new, wa_started = now,
      wa_last_ping = None, wa_monitors = monitors, wa_watching = monitor, wa_left = None\<rparr>"

text \<open>\<open>we_now\<close>, \<open>we_checked\<close>, \<open>we_noted\<close>: when the branch runs, when the loop looks whether a
  keyframe may be asked for, and when it notes that a message was sent. \<open>we_rtt\<close> is the round
  trip as the branch reads it, \<open>we_rtt_later\<close> as it reads it again. \<open>we_writes\<close> and \<open>we_takes\<close>
  are how many more frames the recording and the decoder take before they fail.\<close>

record view_env =
  we_now :: nat
  we_checked :: nat
  we_noted :: nat
  we_us :: u64
  we_rtt :: nat
  we_rtt_later :: nat
  we_delivers :: "control \<Rightarrow> bool"
  we_recording :: bool
  we_writes :: "nat option"
  we_decoder :: bool
  we_takes :: "nat option"
  we_closed :: "close_reason option"
  we_broken :: str
  we_wanted :: bool
  we_time_up :: bool
  we_fps :: u8

datatype view_event =
    Arrives bytes
  | ReadFails
  | Hears said
  | RepairDue
  | Ticks
  | AskedToStop
  | Switches u8

datatype view_out =
    VTells control
  | Records bytes
  | Shows assembled_frame
  | VCloses close_code str

text \<open>How a branch ends: the rest of the iteration follows, or the next one, or none.\<close>

datatype branch_end = Falls | Continues | Breaks leaving

type_synonym branch = "viewing \<times> view_out list \<times> branch_end"

subsection \<open>The parts of an iteration\<close>

text \<open>\<open>send_message\<close> followed by \<open>?\<close>.\<close>

definition view_tell :: "view_env \<Rightarrow> control \<Rightarrow> viewing \<Rightarrow> (viewing \<Rightarrow> branch) \<Rightarrow> branch" where
  "view_tell E m s continue =
     (if we_delivers E m then (case continue s of (s', outs, e) \<Rightarrow> (s', VTells m # outs, e))
      else (s, [], Breaks (LeavesEarly (Trouble (we_broken E)))))"

datatype handed = HandedOn | DecoderGone | WriteFailed

function hand_on ::
  "bool \<Rightarrow> nat option \<Rightarrow> bool \<Rightarrow> nat option \<Rightarrow> reassembler \<Rightarrow> session_stats \<Rightarrow>
     reassembler \<times> session_stats \<times> view_out list \<times> handed" where
  "hand_on recording writes decoder takes r st =
     (case pop r of
        (None, r') \<Rightarrow> (r', st, [], HandedOn)
      | (Some f, r') \<Rightarrow>
          let st1 = st\<lparr>st_frames := st_frames st + 1,
                       st_keyframes := st_keyframes st + (if af_keyframe f then 1 else 0)\<rparr> in
          if recording \<and> writes = Some 0 then (r', st1, [], WriteFailed)
          else
            let records = (if recording then [Records (af_data f)] else []) in
            if decoder \<and> takes = Some 0 then (r', st1, records, DecoderGone)
            else
              (case hand_on recording (map_option (\<lambda>n. n - 1) writes) decoder (map_option (\<lambda>n. n - 1) takes) r' st1 of
                 (r'', st2, outs, h) \<Rightarrow>
                   (r'', st2, records @ (if decoder then [Shows f] else []) @ outs, h)))"
  by pat_completeness auto
termination
  by (relation "measure (\<lambda>(rec, w, d, t, r, st). length (ready r))") (auto simp: pop_def split: list.splits)

declare hand_on.simps [simp del]

definition view_deliver :: "view_env \<Rightarrow> viewing \<Rightarrow> (viewing \<Rightarrow> branch) \<Rightarrow> branch" where
  "view_deliver E s continue =
     (case hand_on (we_recording E) (we_writes E) (we_decoder E) (we_takes E) (wa_reassembler s) (wa_stats s) of
        (r, st, outs, h) \<Rightarrow>
          let s1 = s\<lparr>wa_reassembler := r, wa_stats := st\<rparr> in
          (case h of
             WriteFailed \<Rightarrow> (s1, outs, Breaks (LeavesEarly (Trouble (lit ''writing the recording''))))
           | DecoderGone \<Rightarrow> (s1, outs, Breaks (Leaves (Inr ())))
           | HandedOn \<Rightarrow> (case continue s1 of (s2, outs', e) \<Rightarrow> (s2, outs @ outs', e))))"

primrec view_tell_all :: "view_env \<Rightarrow> control list \<Rightarrow> viewing \<Rightarrow> (viewing \<Rightarrow> branch) \<Rightarrow> branch" where
  "view_tell_all E [] s continue = continue s"
| "view_tell_all E (m # ms) s continue = view_tell E m s (\<lambda>s'. view_tell_all E ms s' continue)"

text \<open>The reassembler notes what it asks for before the first request is sent.\<close>

definition ask_for_repairs :: "view_env \<Rightarrow> viewing \<Rightarrow> (viewing \<Rightarrow> branch) \<Rightarrow> branch" where
  "ask_for_repairs E s continue =
     (case nacks (we_us E) (repair_timing (we_rtt E)) (wa_reassembler s) of
        (r, missings) \<Rightarrow>
          view_tell_all E (map (\<lambda>m. Nack (ms_frame_id m) (ms_chunks m)) missings) (s\<lparr>wa_reassembler := r\<rparr>) continue)"

subsection \<open>The branches\<close>

definition on_datagram ::
  "(bytes \<Rightarrow> 'e + video_chunk) \<Rightarrow> view_env \<Rightarrow> bytes \<Rightarrow> viewing \<Rightarrow> branch option" where
  "on_datagram de E d s =
     (let st = wa_stats s;
          st1 = st\<lparr>st_datagrams := st_datagrams st + 1, st_bytes := st_bytes st + of_nat (length d)\<rparr> in
      case drop_this (wa_loss s) of
        (dropped, loss) \<Rightarrow>
          let s1 = s\<lparr>wa_loss := loss, wa_stats := st1\<rparr> in
          if dropped
          then Some (s1\<lparr>wa_stats := st1\<lparr>st_simulated_drops := st_simulated_drops st1 + 1\<rparr>\<rparr>, [], Continues)
          else
            (case (decode_chunk de d :: 'e error + video_chunk) of
               Inl _ \<Rightarrow> Some (s1\<lparr>wa_stats := st1\<lparr>st_undecodable := st_undecodable st1 + 1\<rparr>\<rparr>, [], Continues)
             | Inr chunk \<Rightarrow>
                 (case push chunk (we_us E) (wa_reassembler s1) of
                    None \<Rightarrow> None
                  | Some r \<Rightarrow>
                      Some (view_deliver E (s1\<lparr>wa_reassembler := r\<rparr>)
                              (\<lambda>s2. ask_for_repairs E s2 (\<lambda>s3. (s3, [], Falls)))))))"

definition on_control :: "view_env \<Rightarrow> said \<Rightarrow> viewing \<Rightarrow> branch" where
  "on_control E said s =
     (case said of
        Message (Pong viewer_us agent_us) \<Rightarrow>
          (s\<lparr>wa_clock := clock_add viewer_us agent_us (we_us E) (wa_clock s)\<rparr>, [], Falls)
      | Message (MonitorList monitors) \<Rightarrow> (s\<lparr>wa_monitors := monitors\<rparr>, [], Falls)
      | Message _ \<Rightarrow> (s, [], Falls)
      | Failed \<Rightarrow> (s, [], Breaks (Leaves (ended (we_closed E) (Trouble (we_broken E)))))
      | Finished \<Rightarrow> (s, [], Breaks (Leaves (Inr ()))))"

definition on_repair_due :: "view_env \<Rightarrow> viewing \<Rightarrow> branch option" where
  "on_repair_due E s =
     (case ask_for_repairs E s (\<lambda>s1. (s1, [], Falls)) of
        (s1, outs, Falls) \<Rightarrow>
          (case expire (we_us E) (repair_timing (we_rtt_later E)) (wa_reassembler s1) of
             None \<Rightarrow> None
           | Some r \<Rightarrow>
               Some (case view_deliver E (s1\<lparr>wa_reassembler := r\<rparr>) (\<lambda>s2. (s2, [], Falls)) of
                       (s2, outs', e) \<Rightarrow> (s2, outs @ outs', e)))
      | b \<Rightarrow> Some b)"

definition on_tick :: "view_env \<Rightarrow> viewing \<Rightarrow> branch" where
  "on_tick E s =
     (let s1 = (if we_wanted E then s\<lparr>wa_keyframe_needed := True\<rparr> else s);
          ping_every = (if we_now E - wa_started s1 < PING_FAST_FOR then PING_FAST else PING_SLOW);
          finish_tick = (\<lambda>s. (s, [], if we_time_up E then Breaks (Leaves (Inr ())) else Falls)) in
      if (case wa_last_ping s1 of None \<Rightarrow> True | Some t \<Rightarrow> we_now E - t \<ge> ping_every)
      then view_tell E (Ping (we_us E)) s1 (\<lambda>s2. finish_tick (s2\<lparr>wa_last_ping := Some (we_noted E)\<rparr>))
      else finish_tick s1)"

definition on_switch :: "view_env \<Rightarrow> u8 \<Rightarrow> viewing \<Rightarrow> branch" where
  "on_switch E monitor s =
     (if list_ex (\<lambda>m. m_id m = monitor) (wa_monitors s)
      then view_tell E (StartVideo monitor H264 (we_fps E)) s (\<lambda>s1. (s1\<lparr>wa_watching := monitor\<rparr>, [], Falls))
      else (s, [], Falls))"

definition view_branch ::
  "(bytes \<Rightarrow> 'e + video_chunk) \<Rightarrow> view_env \<Rightarrow> view_event \<Rightarrow> viewing \<Rightarrow> branch option" where
  "view_branch de E ev s =
     (case ev of
        Arrives d \<Rightarrow> on_datagram de E d s
      | ReadFails \<Rightarrow> Some (s, [], Breaks (Leaves (ended (we_closed E) (Trouble (we_broken E)))))
      | Hears said \<Rightarrow> Some (on_control E said s)
      | RepairDue \<Rightarrow> on_repair_due E s
      | Ticks \<Rightarrow> Some (on_tick E s)
      | AskedToStop \<Rightarrow> Some (s, [], Breaks (Leaves (Inr ())))
      | Switches monitor \<Rightarrow> Some (on_switch E monitor s))"

subsection \<open>The loop\<close>

text \<open>What follows a branch: a keyframe is asked for when one is needed and the last request is
  long enough ago.\<close>

definition ask_keyframe :: "view_env \<Rightarrow> viewing \<Rightarrow> branch" where
  "ask_keyframe E s =
     (case take_keyframe_request (wa_reassembler s) of
        (wanted, r) \<Rightarrow>
          let s1 = s\<lparr>wa_reassembler := r, wa_keyframe_needed := (wa_keyframe_needed s \<or> wanted)\<rparr>;
              may_ask = (case wa_last_request s1 of None \<Rightarrow> True
                         | Some t \<Rightarrow> we_checked E - t \<ge> KEYFRAME_REQUEST_INTERVAL) in
          if wa_keyframe_needed s1 \<and> may_ask
          then view_tell E RequestKeyframe s1
                 (\<lambda>s2. (s2\<lparr>wa_stats := (wa_stats s2)\<lparr>st_keyframe_requests := st_keyframe_requests (wa_stats s2) + 1\<rparr>,
                          wa_last_request := Some (we_noted E), wa_keyframe_needed := False\<rparr>, [], Falls))
          else (s1, [], Falls))"

text \<open>After the loop: goodbye, unless it was left early.\<close>

definition goodbye :: "view_env \<Rightarrow> leaving \<Rightarrow> view_out list" where
  "goodbye E left =
     (case left of
        LeavesEarly _ \<Rightarrow> []
      | Leaves _ \<Rightarrow> (if we_delivers E Bye then [VTells Bye] else []) @ [VCloses NORMAL (lit ''viewer leaving'')])"

definition view_ends :: "view_env \<Rightarrow> branch \<Rightarrow> viewing \<times> view_out list" where
  "view_ends E b =
     (case b of
        (s, outs, Breaks left) \<Rightarrow> (s\<lparr>wa_left := Some left\<rparr>, outs @ goodbye E left)
      | (s, outs, _) \<Rightarrow> (s, outs))"

definition view_step ::
  "(bytes \<Rightarrow> 'e + video_chunk) \<Rightarrow> view_env \<Rightarrow> view_event \<Rightarrow> viewing \<Rightarrow> (viewing \<times> view_out list) option" where
  "view_step de E ev s =
     (case view_branch de E ev s of
        None \<Rightarrow> None
      | Some (s1, outs, Falls) \<Rightarrow>
          Some (case view_ends E (ask_keyframe E s1) of (s2, outs') \<Rightarrow> (s2, outs @ outs'))
      | Some b \<Rightarrow> Some (view_ends E b))"

text \<open>The timer for repairs is set only when one will be due.\<close>

definition view_on :: "view_env \<Rightarrow> view_event \<Rightarrow> viewing \<Rightarrow> bool" where
  "view_on E ev s \<longleftrightarrow> wa_left s = None \<and>
     (ev = RepairDue \<longrightarrow> next_deadline (repair_timing (we_rtt E)) (wa_reassembler s) \<noteq> None)"

primrec view_run ::
  "(bytes \<Rightarrow> 'e + video_chunk) \<Rightarrow> (view_env \<times> view_event) list \<Rightarrow> viewing \<Rightarrow> (viewing \<times> view_out list) option" where
  "view_run de [] s = Some (s, [])"
| "view_run de (e # es) s =
     (if \<not> view_on (fst e) (snd e) s then None
      else
        case view_step de (fst e) (snd e) s of
          None \<Rightarrow> None
        | Some (s', outs) \<Rightarrow>
            (case view_run de es s' of
               None \<Rightarrow> None
             | Some (s'', outs') \<Rightarrow> Some (s'', outs @ outs')))"

text \<open>What the session came to, for the loop around it.\<close>

definition view_result :: "close_reason option \<Rightarrow> leaving \<Rightarrow> viewer_error + unit" where
  "view_result closed left =
     session_end closed (case left of Leaves outcome \<Rightarrow> Inr outcome | LeavesEarly err \<Rightarrow> Inl err)"

end
