(* ===== verification/Sending.thy ===== *)
theory Sending
  imports Rate Video_Packets
begin

text \<open>
  Sending video (\<open>crates/agent/src/session.rs\<close>: \<open>Sent\<close>, \<open>send_video\<close>): frames as
  they come from the encoder are split, encoded and sent as datagrams, kept for repairs, and
  steered by rate control.

  The sender is a machine whose events are the branches of its \<open>select!\<close>, each with what
  the code reads from the connection at that point. What it does is a list of effects.
\<close>

subsection \<open>Recently sent frames\<close>

definition SENT_FRAMES :: nat where "SENT_FRAMES = 64"
definition SENT_BYTES :: nat where "SENT_BYTES = 16 * 1024 * 1024"

record sent =
  sn_frames :: "(u32 \<times> bytes list) list"
  sn_bytes :: nat

definition sent_new :: sent where
  "sent_new = \<lparr>sn_frames = [], sn_bytes = 0\<rparr>"

definition size_of :: "bytes list \<Rightarrow> nat" where
  "size_of datagrams = sum_list (map length datagrams)"

text \<open>The \<open>while\<close> of \<open>insert\<close>: the oldest frames go until the rest fits.\<close>

fun sent_trim :: "(u32 \<times> bytes list) list \<Rightarrow> nat \<Rightarrow> sent" where
  "sent_trim [] amount = \<lparr>sn_frames = [], sn_bytes = amount\<rparr>"
| "sent_trim (old # frames) amount =
     (if length (old # frames) > SENT_FRAMES \<or> amount > SENT_BYTES
      then sent_trim frames (amount - size_of (snd old))
      else \<lparr>sn_frames = old # frames, sn_bytes = amount\<rparr>)"

definition sent_insert :: "u32 \<Rightarrow> bytes list \<Rightarrow> sent \<Rightarrow> sent" where
  "sent_insert frame_id datagrams s =
     sent_trim (sn_frames s @ [(frame_id, datagrams)]) (sn_bytes s + size_of datagrams)"

definition sent_chunks :: "u32 \<Rightarrow> u16 list \<Rightarrow> sent \<Rightarrow> bytes list" where
  "sent_chunks frame_id chunks s =
     (case find (\<lambda>(i, _). i = frame_id) (sn_frames s) of
        None \<Rightarrow> []
      | Some (_, datagrams) \<Rightarrow>
          if chunks = [] then datagrams
          else somes (map (\<lambda>i. if unat i < length datagrams then Some (datagrams ! unat i) else None) chunks))"

text \<open>The bytes counted are those held, and there is never more of either than allowed.\<close>

definition sent_ok :: "sent \<Rightarrow> bool" where
  "sent_ok s \<longleftrightarrow>
     sn_bytes s = sum_list (map (size_of \<circ> snd) (sn_frames s)) \<and>
     length (sn_frames s) \<le> SENT_FRAMES \<and> sn_bytes s \<le> SENT_BYTES"

lemma sent_trim_ok:
  "amount = sum_list (map (size_of \<circ> snd) frames) \<Longrightarrow> sent_ok (sent_trim frames amount)"
  by (induction frames amount rule: sent_trim.induct) (auto simp: sent_ok_def)

lemma sent_new_ok: "sent_ok sent_new"
  by (simp add: sent_ok_def sent_new_def)

lemma sent_insert_ok: "sent_ok s \<Longrightarrow> sent_ok (sent_insert frame_id datagrams s)"
  unfolding sent_insert_def by (rule sent_trim_ok) (simp add: sent_ok_def)

lemma sent_trim_members: "set (sn_frames (sent_trim frames amount)) \<subseteq> set frames"
  by (induction frames amount rule: sent_trim.induct) auto

lemma sent_insert_members:
  "set (sn_frames (sent_insert frame_id datagrams s)) \<subseteq> insert (frame_id, datagrams) (set (sn_frames s))"
  using sent_trim_members [of "sn_frames s @ [(frame_id, datagrams)]" "sn_bytes s + size_of datagrams"]
  by (simp add: sent_insert_def)

lemma picked_members:
  "set (somes (map (\<lambda>i. if unat i < length ds then Some (ds ! unat i) else None) chunks)) \<subseteq> set ds"
  by (induction chunks) auto

lemma found_frame:
  "find (\<lambda>(i, _). i = frame_id) frames = Some entry \<Longrightarrow> entry \<in> set frames \<and> fst entry = frame_id"
  by (induction frames) (auto split: if_splits prod.splits)

lemma sent_chunks_members:
  assumes "d \<in> set (sent_chunks frame_id chunks s)"
  shows "\<exists>datagrams. (frame_id, datagrams) \<in> set (sn_frames s) \<and> d \<in> set datagrams"
proof (cases "find (\<lambda>(i, _). i = frame_id) (sn_frames s)")
  case None
  then show ?thesis using assms by (simp add: sent_chunks_def)
next
  case (Some entry)
  have e: "entry \<in> set (sn_frames s)" "fst entry = frame_id" using found_frame [OF Some] by simp_all
  have "set (sent_chunks frame_id chunks s) \<subseteq> set (snd entry)"
    using Some picked_members [of "snd entry" chunks] by (simp add: sent_chunks_def split_def)
  then have "(frame_id, snd entry) \<in> set (sn_frames s) \<and> d \<in> set (snd entry)"
    using e assms by (cases entry) auto
  then show ?thesis by blast
qed

subsection \<open>The sender\<close>

record encoded_frame =
  ef_data :: bytes
  ef_keyframe :: bool
  ef_capture_ts_us :: u64

record video_stats =
  vs_next_frame_id :: u32
  vs_target_kbps :: u32
  vs_frames :: u64
  vs_keyframes :: u64
  vs_datagrams :: u64
  vs_bytes :: u64

record sender =
  sd_stats :: video_stats
  sd_controller :: controller

datatype sending = SendDatagram bytes | SetEncoder quality | CloseForDatagrams

definition sender_new :: "u32 \<Rightarrow> controller \<Rightarrow> sender" where
  "sender_new first_frame_id controller =
     \<lparr>sd_stats = \<lparr>vs_next_frame_id = first_frame_id, vs_target_kbps = ct_target controller, vs_frames = 0,
                   vs_keyframes = 0, vs_datagrams = 0, vs_bytes = 0\<rparr>,
      sd_controller = controller\<rparr>"

text \<open>What the code reads when a frame comes: the largest datagram the viewer takes, if it takes
  any, and how many more datagrams the connection accepts before it fails (\<open>None\<close>: it does
  not).\<close>

datatype sender_event =
    StopTold
  | ConnOver
  | FrameComes encoded_frame "nat option" "nat option"
  | FramesOver
  | Poll
  | SampleDue rate_sample nat
  | CeilingIs quality

primrec send_datagrams :: "nat option \<Rightarrow> bytes list \<Rightarrow> video_stats \<Rightarrow> video_stats \<times> bytes list \<times> bool" where
  "send_datagrams left [] st = (st, [], True)"
| "send_datagrams left (d # ds) st =
     (let st1 = st\<lparr>vs_bytes := vs_bytes st + of_nat (length d)\<rparr> in
      if left = Some 0 then (st1, [], False)
      else case send_datagrams (map_option (\<lambda>n. n - 1) left) ds (st1\<lparr>vs_datagrams := vs_datagrams st1 + 1\<rparr>) of
             (st', out, ok) \<Rightarrow> (st', d # out, ok))"

primrec encode_chunks :: "(video_chunk \<Rightarrow> 'e + bytes) \<Rightarrow> video_chunk list \<Rightarrow> 'e error + bytes list" where
  "encode_chunks ser [] = Inr []"
| "encode_chunks ser (c # cs) =
     (case encode_chunk ser c of
        Inl e \<Rightarrow> Inl e
      | Inr b \<Rightarrow> (case encode_chunks ser cs of Inl e \<Rightarrow> Inl e | Inr bs \<Rightarrow> Inr (b # bs)))"

text \<open>The second half of the loop: one frame. The flag says whether the loop goes on.\<close>

definition send_frame ::
  "(video_chunk \<Rightarrow> 'e + bytes) \<Rightarrow> encoded_frame \<Rightarrow> nat option \<Rightarrow> nat option \<Rightarrow> sent \<Rightarrow> sender \<Rightarrow>
     sent \<times> sender \<times> sending list \<times> bool" where
  "send_frame ser frame max_datagram left sent sd =
     (let frame_id = vs_next_frame_id (sd_stats sd);
          sd1 = sd\<lparr>sd_stats := (sd_stats sd)\<lparr>vs_next_frame_id := frame_id + 1\<rparr>\<rparr> in
      case max_datagram of
        None \<Rightarrow> (sent, sd1, [CloseForDatagrams], False)
      | Some most \<Rightarrow>
          (case (packetize frame_id (ef_keyframe frame) (ef_capture_ts_us frame) (ef_data frame) most
                   :: 'e error + video_chunk list) of
             Inl _ \<Rightarrow> (sent, sd1, [], True)
           | Inr chunks \<Rightarrow>
               (case encode_chunks ser chunks of
                  Inl _ \<Rightarrow> (sent, sd1, [], True)
                | Inr datagrams \<Rightarrow>
                    (case send_datagrams left datagrams (sd_stats sd1) of
                       (st, out, ok) \<Rightarrow>
                         if \<not> ok then (sent, sd1\<lparr>sd_stats := st\<rparr>, map SendDatagram out, False)
                         else
                           (sent_insert frame_id datagrams sent,
                            sd1\<lparr>sd_stats := st\<lparr>vs_frames := vs_frames st + 1,
                                                 vs_keyframes := vs_keyframes st + (if ef_keyframe frame then 1 else 0)\<rparr>\<rparr>,
                            map SendDatagram out, True)))))"

definition steer :: "quality option \<times> controller \<Rightarrow> sender \<Rightarrow> sender \<times> sending list" where
  "steer decided sd =
     (case decided of (q, c) \<Rightarrow>
        (sd\<lparr>sd_controller := c, sd_stats := (sd_stats sd)\<lparr>vs_target_kbps := ct_target c\<rparr>\<rparr>,
         case q of None \<Rightarrow> [] | Some quality \<Rightarrow> [SetEncoder quality]))"

text \<open>One turn of the loop, with the backlog read at its top. \<open>None\<close>: that branch is off.\<close>

definition sender_step ::
  "(video_chunk \<Rightarrow> 'e + bytes) \<Rightarrow> u64 \<Rightarrow> sender_event \<Rightarrow> sent \<Rightarrow> sender \<Rightarrow>
     (sent \<times> sender \<times> sending list \<times> bool) option" where
  "sender_step ser backlog ev sent sd =
     (let backlogged = (backlog > backlog_limit (ct_target (sd_controller sd))) in
      case ev of
        StopTold \<Rightarrow> Some (sent, sd, [], False)
      | ConnOver \<Rightarrow> Some (sent, sd, [], False)
      | FrameComes frame max_datagram left \<Rightarrow>
          if backlogged then None else Some (send_frame ser frame max_datagram left sent sd)
      | FramesOver \<Rightarrow> if backlogged then None else Some (sent, sd, [], False)
      | Poll \<Rightarrow> if backlogged then Some (sent, sd, [], True) else None
      | SampleDue sample elapsed \<Rightarrow>
          (case steer (rate_update (sample\<lparr>sm_sent_bytes := vs_bytes (sd_stats sd)\<rparr>) elapsed (sd_controller sd)) sd of
             (sd', out) \<Rightarrow> Some (sent, sd', out, True))
      | CeilingIs ceil \<Rightarrow>
          (case steer (set_ceiling ceil (sd_controller sd)) sd of
             (sd', out) \<Rightarrow> Some (sent, sd', out, True)))"

subsection \<open>What a step does to the ids and the buffer\<close>

lemma send_datagrams_id:
  "send_datagrams left ds st = (st', out, ok) \<Longrightarrow> vs_next_frame_id st' = vs_next_frame_id st"
  by (induction ds arbitrary: left st st' out ok) (auto simp: Let_def split: if_splits prod.splits)

lemma send_datagrams_prefix:
  "send_datagrams left ds st = (st', out, ok) \<Longrightarrow> set out \<subseteq> set ds"
proof (induction ds arbitrary: left st st' out ok)
  case (Cons d ds)
  show ?case
  proof (cases "left = Some 0")
    case True
    then show ?thesis using Cons.prems by (simp add: Let_def)
  next
    case False
    then obtain st1 out1 ok1 where rest: "send_datagrams (map_option (\<lambda>n. n - 1) left) ds
        (st\<lparr>vs_bytes := vs_bytes st + of_nat (length d), vs_datagrams := vs_datagrams st + 1\<rparr>) = (st1, out1, ok1)"
      by (cases "send_datagrams (map_option (\<lambda>n. n - 1) left) ds
        (st\<lparr>vs_bytes := vs_bytes st + of_nat (length d), vs_datagrams := vs_datagrams st + 1\<rparr>)")
    then have "out = d # out1" using Cons.prems False by (simp add: Let_def)
    then show ?thesis using Cons.IH [OF rest] by auto
  qed
qed simp

lemma send_frame_id:
  assumes "send_frame ser frame most left sent sd = (sent', sd', out, goes)"
  shows "vs_next_frame_id (sd_stats sd') = vs_next_frame_id (sd_stats sd) + 1"
  using assms
  by (auto simp: send_frame_def Let_def send_datagrams_id split: option.splits sum.splits prod.splits if_splits)

lemma sender_step_id:
  assumes "sender_step ser backlog ev sent sd = Some (sent', sd', out, goes)"
  shows "vs_next_frame_id (sd_stats sd') = vs_next_frame_id (sd_stats sd) +
    (case ev of FrameComes _ _ _ \<Rightarrow> 1 | _ \<Rightarrow> 0)"
  using assms
  by (auto simp: sender_step_def steer_def Let_def send_frame_id
      split: sender_event.splits if_splits prod.splits)

text \<open>A datagram that carries a chunk of a frame that was taken with this id.\<close>

definition carries :: "(video_chunk \<Rightarrow> 'e + bytes) \<Rightarrow> (u32 \<Rightarrow> sent_frame) \<Rightarrow> u32 \<Rightarrow> bytes \<Rightarrow> bool" where
  "carries ser src frame_id d \<longleftrightarrow>
     (\<exists>c. ser c = Inr d \<and> vc_frame_id c = frame_id \<and> sent_chunk src c)"

lemma encode_chunks_members:
  "encode_chunks ser cs = Inr ds \<Longrightarrow> d \<in> set ds \<Longrightarrow> \<exists>c \<in> set cs. ser c = Inr d"
  by (induction cs arbitrary: ds) (auto simp: encode_chunk_def split: sum.splits)

text \<open>The frame that was taken under an id, as the rest of the development names it.\<close>

definition taken_as :: "encoded_frame \<Rightarrow> nat \<Rightarrow> sent_frame" where
  "taken_as frame most =
     \<lparr>sf_keyframe = ef_keyframe frame, sf_capture_ts_us = ef_capture_ts_us frame, sf_data = ef_data frame,
      sf_datagram = most\<rparr>"

definition holds_sent :: "(video_chunk \<Rightarrow> 'e + bytes) \<Rightarrow> (u32 \<Rightarrow> sent_frame) \<Rightarrow> sent \<Rightarrow> bool" where
  "holds_sent ser src s \<longleftrightarrow> (\<forall>(i, ds) \<in> set (sn_frames s). \<forall>d \<in> set ds. carries ser src i d)"

lemma packetized_carries:
  assumes "packetize frame_id (ef_keyframe frame) (ef_capture_ts_us frame) (ef_data frame) most
      = (Inr chunks :: 'e error + video_chunk list)"
    and "encode_chunks ser chunks = Inr ds" and "src frame_id = taken_as frame most" and "d \<in> set ds"
  shows "carries ser src frame_id d"
proof -
  obtain c where c: "c \<in> set chunks" "ser c = Inr d" using encode_chunks_members [OF assms(2,4)] by blast
  have facts: "MIN_DATAGRAM \<le> most" "chunk_count (most - CHUNK_OVERHEAD) (length (ef_data frame)) < 65536"
    "chunks = map (chunk_of frame_id (ef_keyframe frame) (ef_capture_ts_us frame) (ef_data frame) (most - CHUNK_OVERHEAD))
       [0..<chunk_count (most - CHUNK_OVERHEAD) (length (ef_data frame))]"
    using assms(1) unfolding packetize_Inr_iff by simp_all
  have p: "packetize frame_id (ef_keyframe frame) (ef_capture_ts_us frame) (ef_data frame) most
      = (Inr chunks :: unit error + video_chunk list)" unfolding packetize_Inr_iff using facts by simp
  have "vc_frame_id c = frame_id" using c(1) facts(3) by (auto simp: chunk_of_def)
  then have "sent_chunk src c" using p c(1) assms(3) by (simp add: sent_chunk_def taken_as_def)
  then show ?thesis using c(2) \<open>vc_frame_id c = frame_id\<close> by (auto simp: carries_def)
qed

lemma holds_sent_insert:
  assumes "holds_sent ser src s" and "\<forall>d \<in> set ds. carries ser src i d"
  shows "holds_sent ser src (sent_insert i ds s)"
  using assms sent_insert_members [of i ds s] unfolding holds_sent_def by blast

lemma send_frame_carries:
  fixes ser :: "video_chunk \<Rightarrow> 'e + bytes"
  assumes "send_frame ser frame most left sent sd = (sent', sd', out, goes)"
    and "holds_sent ser src sent" and "sent_ok sent"
    and "\<And>m. most = Some m \<Longrightarrow> src (vs_next_frame_id (sd_stats sd)) = taken_as frame m"
  shows "holds_sent ser src sent' \<and> sent_ok sent' \<and>
    (\<forall>d. SendDatagram d \<in> set out \<longrightarrow> carries ser src (vs_next_frame_id (sd_stats sd)) d)"
proof (cases most)
  case None
  then show ?thesis using assms(1-3) by (auto simp: send_frame_def Let_def)
next
  case (Some m)
  let ?id = "vs_next_frame_id (sd_stats sd)"
  let ?p = "packetize ?id (ef_keyframe frame) (ef_capture_ts_us frame) (ef_data frame) m ::
    'e error + video_chunk list"
  have src: "src ?id = taken_as frame m" using assms(4) Some by simp
  show ?thesis
  proof (cases "\<exists>chunks ds. ?p = Inr chunks \<and> encode_chunks ser chunks = Inr ds")
    case False
    then show ?thesis using assms(1-3) Some by (auto simp: send_frame_def Let_def split: sum.splits)
  next
    case True
    then obtain chunks ds where p: "?p = Inr chunks" and e: "encode_chunks ser chunks = Inr ds" by blast
    have c: "\<forall>d \<in> set ds. carries ser src ?id d" using packetized_carries [OF p e, of src] src by blast
    obtain st out1 ok where go: "send_datagrams left ds
        ((sd_stats sd)\<lparr>vs_next_frame_id := ?id + 1\<rparr>) = (st, out1, ok)"
      by (cases "send_datagrams left ds ((sd_stats sd)\<lparr>vs_next_frame_id := ?id + 1\<rparr>)")
    have "sent' = (if ok then sent_insert ?id ds sent else sent)" "out = map SendDatagram out1"
      using assms(1) Some p e go by (auto simp: send_frame_def Let_def split: if_splits)
    then show ?thesis
      using c assms(2,3) send_datagrams_prefix [OF go] holds_sent_insert sent_insert_ok by auto
  qed
qed

lemma nack_carries:
  assumes "holds_sent ser src s" and "d \<in> set (sent_chunks frame_id chunks s)"
  shows "carries ser src frame_id d"
  using sent_chunks_members [OF assms(2)] assms(1) by (auto simp: holds_sent_def)

end
