(* ===== verification/Session.thy ===== *)
theory Session
  imports Sending Handshake
begin

text \<open>
  A session once the viewer is in (\<open>crates/agent/src/session.rs\<close>: the second half of
  \<open>serve\<close>, \<open>Video::stop\<close>, \<open>start_video\<close>): the viewer's messages, the video with its
  sender, and starting video again after it stopped by itself.

  The branches of the \<open>select!\<close> and the turns of the sender's task are the events; an
  environment gives what the code reads at each: the time, what starting a pipeline came to,
  whether the sender's task can be joined, how many datagrams the connection still takes.
  What a session does is a list of effects.
\<close>

subsection \<open>State\<close>

definition RESTART_FIRST :: nat where "RESTART_FIRST = 1 * SECOND"
definition RESTART_MAX :: nat where "RESTART_MAX = 30 * SECOND"
definition HEALTHY_RUN :: nat where "HEALTHY_RUN = 30 * SECOND"

record settings =
  pl_monitor :: u8
  pl_codec :: codec
  pl_max_fps :: u8
  pl_bitrate :: u32

record running =
  rn_settings :: settings
  rn_started :: nat
  rn_sender :: sender
  rn_done :: bool

datatype session_outcome = EndedWell | EndedBadly

record session =
  ss_monitors :: "monitor list"
  ss_codecs :: "codec list"
  ss_target :: "monitor option"
  ss_clipboard :: bool
  ss_ceiling :: quality
  ss_start_kbps :: u32
  ss_video :: "running option"
  ss_next_frame_id :: u32
  ss_restart :: "(nat \<times> settings) option"
  ss_restart_wait :: nat
  ss_sent :: sent
  ss_over :: "session_outcome option"

datatype session_out =
    Tells control
  | Sends bytes
  | Closes close_code str
  | Encodes quality
  | WantsKeyframe
  | StartsVideo settings
  | StopsVideo
  | Targets monitor

record session_env =
  xe_now :: nat
  xe_started :: "str + u16 \<times> u16"
  xe_joins :: bool
  xe_pong_sent :: bool
  xe_agent_us :: u64
  xe_accepts :: "nat option"
  xe_closed :: bool
  xe_closed_normally :: bool

text \<open>What the viewer's control stream brings, ending with its end or an error; or the task
  that reads it is gone.\<close>

datatype session_event =
    Told said
  | ReaderGone
  | SenderTurn u64 sender_event
  | VideoOver
  | RestartDue

subsection \<open>Beginning\<close>

text \<open>Where input lands until the viewer picks a monitor, if the role lets it control at all and
  the injector starts.\<close>

definition first_target :: "monitor list \<Rightarrow> role \<Rightarrow> bool \<Rightarrow> monitor option" where
  "first_target monitors role injector =
     (case (case find m_primary monitors of
              Some m \<Rightarrow> Some m
            | None \<Rightarrow> (case monitors of [] \<Rightarrow> None | m # _ \<Rightarrow> Some m)) of
        None \<Rightarrow> None
      | Some m \<Rightarrow> if controls role \<and> injector then Some m else None)"

definition session_new :: "u32 \<Rightarrow> admitted \<Rightarrow> monitor list \<Rightarrow> codec list \<Rightarrow> bool \<Rightarrow> bool \<Rightarrow> session" where
  "session_new config_kbps adm monitors encoders injector clipboard =
     \<lparr>ss_monitors = monitors, ss_codecs = encoders,
      ss_target = first_target monitors (ad_role adm) injector,
      ss_clipboard = (controls (ad_role adm) \<and> clipboard),
      ss_ceiling = \<lparr>bitrate_kbps = config_kbps, qu_fps = MAX_FPS\<rparr>,
      ss_start_kbps = config_kbps, ss_video = None, ss_next_frame_id = 0, ss_restart = None,
      ss_restart_wait = RESTART_FIRST, ss_sent = sent_new, ss_over = None\<rparr>"

type_synonym session_result = "session \<times> session_out list"

subsection \<open>Starting and stopping video\<close>

definition start_video ::
  "session_env \<Rightarrow> settings \<Rightarrow> session \<Rightarrow> str + (running \<times> session_out list)" where
  "start_video E settings s =
     (case xe_started E of
        Inl reason \<Rightarrow> Inl reason
      | Inr (width, height) \<Rightarrow>
          let rate = rate_new (ss_ceiling s) (pl_bitrate settings) width height;
              initial = ct_applied rate in
          Inr (\<lparr>rn_settings = settings, rn_started = xe_now E,
                rn_sender = sender_new (ss_next_frame_id s) rate, rn_done = False\<rparr>,
               StartsVideo settings #
               (if (bitrate_kbps initial, qu_fps initial) \<noteq> (pl_bitrate settings, pl_max_fps settings)
                then [Encodes initial] else [])))"

text \<open>What a stream that ended leaves for the next, if its task could be joined.\<close>

definition video_ended :: "session_env \<Rightarrow> running \<Rightarrow> session \<Rightarrow> session" where
  "video_ended E v s =
     (if xe_joins E
      then s\<lparr>ss_next_frame_id := vs_next_frame_id (sd_stats (rn_sender v)),
             ss_start_kbps := vs_target_kbps (sd_stats (rn_sender v))\<rparr>
      else s)"

definition stop_running :: "session_env \<Rightarrow> session \<Rightarrow> session_result" where
  "stop_running E s =
     (case ss_video s of
        None \<Rightarrow> (s, [])
      | Some v \<Rightarrow> (video_ended E v (s\<lparr>ss_video := None\<rparr>), [StopsVideo]))"

text \<open>The end of the loop: the video is stopped and the connection closed, which does nothing
  more where it is closed already.\<close>

definition finish :: "session_env \<Rightarrow> session_outcome \<Rightarrow> session \<Rightarrow> session_result" where
  "finish E outcome s =
     (case stop_running E s of
        (s', outs) \<Rightarrow> (s'\<lparr>ss_over := Some outcome\<rparr>, outs @ [Closes NORMAL (lit ''bye'')]))"

definition finish_closing :: "session_env \<Rightarrow> close_code \<Rightarrow> str \<Rightarrow> session \<Rightarrow> session_result" where
  "finish_closing E code reason s =
     (case finish E EndedBadly s of (s', outs) \<Rightarrow> (s', Closes code reason # outs))"

subsection \<open>The viewer's messages\<close>

definition on_start_video ::
  "session_env \<Rightarrow> u8 \<Rightarrow> codec \<Rightarrow> u8 \<Rightarrow> session \<Rightarrow> session_result" where
  "on_start_video E monitor codec most_fps s =
     (case stop_running E (s\<lparr>ss_restart := None, ss_restart_wait := RESTART_FIRST\<rparr>) of
        (s1, outs) \<Rightarrow>
          if \<not> list_ex (\<lambda>m. m_id m = monitor) (ss_monitors s1) then
            (case finish_closing E PROTOCOL (lit ''no such monitor'') s1 of (s2, outs') \<Rightarrow> (s2, outs @ outs'))
          else if codec \<notin> set (ss_codecs s1) then
            (case finish_closing E PROTOCOL (lit ''codec not offered'') s1 of (s2, outs') \<Rightarrow> (s2, outs @ outs'))
          else
            let s2 = s1\<lparr>ss_ceiling := (ss_ceiling s1)\<lparr>qu_fps := clamp most_fps 1 MAX_FPS\<rparr>\<rparr>;
                settings = \<lparr>pl_monitor = monitor, pl_codec = codec, pl_max_fps = qu_fps (ss_ceiling s2),
                            pl_bitrate = ss_start_kbps s2\<rparr> in
            (case start_video E settings s2 of
               Inl reason \<Rightarrow>
                 (case finish_closing E PIPELINE_FAILED reason s2 of (s3, outs') \<Rightarrow> (s3, outs @ outs'))
             | Inr (v, started) \<Rightarrow>
                 (case (ss_target s2, find (\<lambda>m. m_id m = monitor) (ss_monitors s2)) of
                    (Some _, Some m) \<Rightarrow>
                      (s2\<lparr>ss_video := Some v, ss_target := Some m\<rparr>, outs @ started @ [Targets m])
                  | _ \<Rightarrow> (s2\<lparr>ss_video := Some v\<rparr>, outs @ started))))"

definition on_set_quality :: "u32 \<Rightarrow> u8 \<Rightarrow> session \<Rightarrow> session" where
  "on_set_quality most_kbps fps s =
     (if most_kbps > 0 then s\<lparr>ss_ceiling := \<lparr>bitrate_kbps = most_kbps, qu_fps = clamp fps 1 MAX_FPS\<rparr>\<rparr> else s)"

text \<open>Resending stops at the first datagram the connection does not take.\<close>

definition on_nack :: "session_env \<Rightarrow> u32 \<Rightarrow> u16 list \<Rightarrow> session \<Rightarrow> session_out list" where
  "on_nack E frame_id chunks s =
     (let resend = sent_chunks frame_id chunks (ss_sent s) in
      map Sends (case xe_accepts E of None \<Rightarrow> resend | Some n \<Rightarrow> take n resend))"

definition on_message :: "session_env \<Rightarrow> said \<Rightarrow> session \<Rightarrow> session_result" where
  "on_message E said s =
     (case said of
        Failed \<Rightarrow> if xe_closed_normally E then finish E EndedWell s else finish E EndedBadly s
      | Finished \<Rightarrow> finish E EndedWell s
      | Message m \<Rightarrow>
          (case m of
             Bye \<Rightarrow> finish E EndedWell s
           | StartVideo monitor codec most_fps \<Rightarrow> on_start_video E monitor codec most_fps s
           | RequestKeyframe \<Rightarrow> (s, if ss_video s = None then [] else [WantsKeyframe])
           | SetQuality most_kbps fps \<Rightarrow> (on_set_quality most_kbps fps s, [])
           | Ping viewer_us \<Rightarrow>
               if xe_pong_sent E then (s, [Tells (Pong viewer_us (xe_agent_us E))])
               else finish E EndedBadly s
           | Nack frame_id chunks \<Rightarrow> (s, on_nack E frame_id chunks s)
           | _ \<Rightarrow> finish_closing E PROTOCOL (lit ''unexpected message'') s))"

subsection \<open>Video by itself\<close>

definition sending_out :: "sending \<Rightarrow> session_out" where
  "sending_out out =
     (case out of
        SendDatagram d \<Rightarrow> Sends d
      | SetEncoder quality \<Rightarrow> Encodes quality
      | CloseForDatagrams \<Rightarrow> Closes PROTOCOL (lit ''viewer does not accept datagrams''))"

text \<open>A turn of the sender's task. A change of the ceiling reads what it is now.\<close>

definition sender_turn ::
  "(video_chunk \<Rightarrow> 'e + bytes) \<Rightarrow> u64 \<Rightarrow> sender_event \<Rightarrow> session \<Rightarrow> session_result option" where
  "sender_turn ser backlog ev s =
     (case ss_video s of
        None \<Rightarrow> None
      | Some v \<Rightarrow>
          if rn_done v \<or> (case ev of CeilingIs q \<Rightarrow> q \<noteq> ss_ceiling s | _ \<Rightarrow> False) then None
          else
            (case sender_step ser backlog ev (ss_sent s) (rn_sender v) of
               None \<Rightarrow> None
             | Some (sent', sd', outs, goes) \<Rightarrow>
                 Some (s\<lparr>ss_sent := sent', ss_video := Some (v\<lparr>rn_sender := sd', rn_done := \<not> goes\<rparr>)\<rparr>,
                       map sending_out outs)))"

text \<open>The sender's task is over: it returned, or cannot be joined.\<close>

definition on_video_over :: "session_env \<Rightarrow> session \<Rightarrow> session_result option" where
  "on_video_over E s =
     (case ss_video s of
        None \<Rightarrow> None
      | Some v \<Rightarrow>
          if xe_joins E \<and> \<not> rn_done v then None
          else
            let s1 = video_ended E v (s\<lparr>ss_video := None\<rparr>) in
            if xe_closed E then Some (s1, [StopsVideo])
            else
              let s2 = (if HEALTHY_RUN \<le> xe_now E - rn_started v then s1\<lparr>ss_restart_wait := RESTART_FIRST\<rparr> else s1) in
              Some (s2\<lparr>ss_restart := Some (xe_now E + ss_restart_wait s2, rn_settings v),
                       ss_restart_wait := min (ss_restart_wait s2 * 2) RESTART_MAX\<rparr>,
                    [StopsVideo]))"

definition on_restart_due :: "session_env \<Rightarrow> session \<Rightarrow> session_result option" where
  "on_restart_due E s =
     (case ss_restart s of
        None \<Rightarrow> None
      | Some (moment, old) \<Rightarrow>
          if xe_now E < moment then None
          else
            let s1 = s\<lparr>ss_restart := None\<rparr>;
                settings = old\<lparr>pl_bitrate := ss_start_kbps s1\<rparr> in
            (case start_video E settings s1 of
               Inr (v, started) \<Rightarrow> Some (s1\<lparr>ss_video := Some v\<rparr>, started)
             | Inl _ \<Rightarrow>
                 Some (s1\<lparr>ss_restart := Some (xe_now E + ss_restart_wait s1, settings),
                          ss_restart_wait := min (ss_restart_wait s1 * 2) RESTART_MAX\<rparr>, [])))"

definition session_step ::
  "(video_chunk \<Rightarrow> 'e + bytes) \<Rightarrow> session_env \<Rightarrow> session_event \<Rightarrow> session \<Rightarrow> session_result option" where
  "session_step ser E ev s =
     (if ss_over s \<noteq> None then None
      else
        case ev of
          Told said \<Rightarrow> Some (on_message E said s)
        | ReaderGone \<Rightarrow> Some (finish E EndedWell s)
        | SenderTurn backlog sev \<Rightarrow> sender_turn ser backlog sev s
        | VideoOver \<Rightarrow> on_video_over E s
        | RestartDue \<Rightarrow> on_restart_due E s)"

primrec session_run ::
  "(video_chunk \<Rightarrow> 'e + bytes) \<Rightarrow> (session_env \<times> session_event) list \<Rightarrow> session \<Rightarrow> session_result option" where
  "session_run ser [] s = Some (s, [])"
| "session_run ser (e # es) s =
     (case session_step ser (fst e) (snd e) s of
        None \<Rightarrow> None
      | Some (s', outs) \<Rightarrow>
          (case session_run ser es s' of
             None \<Rightarrow> None
           | Some (s'', outs') \<Rightarrow> Some (s'', outs @ outs')))"

end
