(* ===== verification/Streams.thy ===== *)
theory Streams
  imports Wire Proto
begin

text \<open>
  Messages on QUIC streams (\<open>crates/transport/src/lib.rs\<close>: \<open>send_message\<close>,
  \<open>send_all\<close>, \<open>recv_message\<close>).

  A stream, seen from its reader, is the bytes that have yet to come and how it ends:
  finished by its writer, or lost. The serialiser is an argument, as in \<open>Wire\<close>.
\<close>

subsection \<open>Reading and writing\<close>

record recv_stream =
  rs_bytes :: bytes
  rs_finished :: bool

datatype read_error = FinishedEarly nat | ReadLost

datatype 'e stream_error = Read read_error | Protocol "'e error"

text \<open>\<open>read_exact\<close>: all of the bytes asked for, or how many there were.\<close>

definition read_exact :: "nat \<Rightarrow> recv_stream \<Rightarrow> (read_error + bytes) \<times> recv_stream" where
  "read_exact n s =
     (if n \<le> length (rs_bytes s)
      then (Inr (take n (rs_bytes s)), s\<lparr>rs_bytes := drop n (rs_bytes s)\<rparr>)
      else (Inl (if rs_finished s then FinishedEarly (length (rs_bytes s)) else ReadLost),
            s\<lparr>rs_bytes := []\<rparr>))"

text \<open>What a writer has put on its stream so far is a list of bytes; \<open>write_all\<close> adds to
  it. Writing fails only with the connection, where nothing that was written matters.\<close>

definition send_message :: "('a \<Rightarrow> 'e + bytes) \<Rightarrow> 'a \<Rightarrow> bytes \<Rightarrow> 'e error + bytes" where
  "send_message ser message sent =
     (case encode ser message of Inl e \<Rightarrow> Inl e | Inr bs \<Rightarrow> Inr (sent @ bs))"

primrec send_each :: "('a \<Rightarrow> 'e + bytes) \<Rightarrow> 'a list \<Rightarrow> bytes \<Rightarrow> 'e error + bytes" where
  "send_each ser [] sent = Inr sent"
| "send_each ser (m # ms) sent =
     (case send_message ser m sent of Inl e \<Rightarrow> Inl e | Inr sent' \<Rightarrow> send_each ser ms sent')"

text \<open>The stream is opened with the first message: \<open>None\<close> where there is none.\<close>

definition send_all ::
  "(stream_kind \<Rightarrow> 'e + bytes) \<Rightarrow> ('a \<Rightarrow> 'e + bytes) \<Rightarrow> stream_kind \<Rightarrow> 'a list \<Rightarrow> ('e error + bytes) option" where
  "send_all ser_kind ser kind messages =
     (case messages of
        [] \<Rightarrow> None
      | m # ms \<Rightarrow>
          Some (case send_message ser_kind kind [] of
                  Inl e \<Rightarrow> Inl e
                | Inr sent \<Rightarrow>
                    (case send_message ser m sent of
                       Inl e \<Rightarrow> Inl e
                     | Inr sent' \<Rightarrow> send_each ser ms sent')))"

definition recv_message ::
  "(bytes \<Rightarrow> 'e + 'a) \<Rightarrow> recv_stream \<Rightarrow> ('e stream_error + 'a option) \<times> recv_stream" where
  "recv_message de s =
     (case read_exact HEADER_LEN s of
        (Inl (FinishedEarly 0), s1) \<Rightarrow> (Inr None, s1)
      | (Inl e, s1) \<Rightarrow> (Inl (Read e), s1)
      | (Inr header, s1) \<Rightarrow>
          (case body_len header of
             Inl e \<Rightarrow> (Inl (Protocol e), s1)
           | Inr len \<Rightarrow>
               (case read_exact len s1 of
                  (Inl e, s2) \<Rightarrow> (Inl (Read e), s2)
                | (Inr body, s2) \<Rightarrow>
                    (case decode de body of
                       Inl e \<Rightarrow> (Inl (Protocol e), s2)
                     | Inr m \<Rightarrow> (Inr (Some m), s2)))))"

subsection \<open>A message that was sent is read\<close>

lemma read_exact_append:
  "length bs = n \<Longrightarrow>
   read_exact n \<lparr>rs_bytes = bs @ rest, rs_finished = fin\<rparr> = (Inr bs, \<lparr>rs_bytes = rest, rs_finished = fin\<rparr>)"
  by (simp add: read_exact_def)

lemma encode_Inr:
  assumes "encode ser m = Inr bs"
  obtains body where "ser m = Inr body" and "length body \<le> MAX_MESSAGE_LEN"
    and "bs = to_le_bytes HEADER_LEN (length body) @ body"
proof -
  obtain body where body: "ser m = Inr body" using assms by (auto simp: encode_def split: sum.splits)
  have len: "length body \<le> MAX_MESSAGE_LEN"
    and bs: "bs = to_le_bytes HEADER_LEN (length body mod 2 ^ 32) @ body"
    using assms body by (auto simp: encode_def Let_def split: if_splits)
  have "length body mod 2 ^ 32 = length body" using len by (simp add: MAX_MESSAGE_LEN_def)
  with that body len bs show thesis by simp
qed

lemma body_len_header:
  assumes "n \<le> MAX_MESSAGE_LEN"
  shows "body_len (to_le_bytes HEADER_LEN n) = Inr n"
proof -
  have "from_le_bytes (to_le_bytes HEADER_LEN n) = n mod 256 ^ HEADER_LEN" by (rule from_to_le_bytes)
  also have "\<dots> = n" using assms by (simp add: MAX_MESSAGE_LEN_def HEADER_LEN_def)
  finally show ?thesis using assms by (simp add: body_len_def Let_def)
qed

lemma recv_sent:
  assumes "encode ser m = Inr bs" and "reads_back ser de"
  shows "recv_message de \<lparr>rs_bytes = bs @ rest, rs_finished = fin\<rparr> =
    (Inr (Some m), \<lparr>rs_bytes = rest, rs_finished = fin\<rparr>)"
proof -
  obtain body where body: "ser m = Inr body" "length body \<le> MAX_MESSAGE_LEN"
    "bs = to_le_bytes HEADER_LEN (length body) @ body"
    using encode_Inr [OF assms(1)] by blast
  have "decode de body = Inr m" using assms(2) body(1) by (simp add: reads_back_def decode_def)
  then show ?thesis
    using body(1,3)
    by (simp add: recv_message_def read_exact_append length_to_le_bytes body_len_header [OF body(2)])
qed

lemma recv_end:
  "recv_message de \<lparr>rs_bytes = [], rs_finished = True\<rparr> = (Inr None, \<lparr>rs_bytes = [], rs_finished = True\<rparr>)"
  by (simp add: recv_message_def read_exact_def HEADER_LEN_def)

text \<open>A message takes bytes off the stream.\<close>

lemma recv_shrinks:
  assumes "recv_message de s = (Inr (Some m), s')"
  shows "length (rs_bytes s') < length (rs_bytes s)"
  using assms
  by (auto simp: recv_message_def read_exact_def HEADER_LEN_def
      split: sum.splits prod.splits if_splits read_error.splits nat.splits)

text \<open>Messages and their bytes on a stream.\<close>

primrec encode_each :: "('a \<Rightarrow> 'e + bytes) \<Rightarrow> 'a list \<Rightarrow> 'e error + bytes" where
  "encode_each ser [] = Inr []"
| "encode_each ser (m # ms) =
     (case encode ser m of
        Inl e \<Rightarrow> Inl e
      | Inr bs \<Rightarrow> (case encode_each ser ms of Inl e \<Rightarrow> Inl e | Inr rest \<Rightarrow> Inr (bs @ rest)))"

lemma send_each_eq:
  "send_each ser ms sent = (case encode_each ser ms of Inl e \<Rightarrow> Inl e | Inr bs \<Rightarrow> Inr (sent @ bs))"
  by (induction ms arbitrary: sent) (auto simp: send_message_def split: sum.split)

lemma encode_each_append:
  "encode_each ser (xs @ ys) =
     (case encode_each ser xs of
        Inl e \<Rightarrow> Inl e
      | Inr bs \<Rightarrow> (case encode_each ser ys of Inl e \<Rightarrow> Inl e | Inr bs' \<Rightarrow> Inr (bs @ bs')))"
  by (induction xs) (auto split: sum.split)

subsection \<open>What a reader allocates\<close>

text \<open>A reader never makes room for more than the longest message: a header that asks for more
  is refused before any of the body is read.\<close>

lemma body_len_bound: "body_len header = Inr n \<Longrightarrow> n \<le> MAX_MESSAGE_LEN"
  by (auto simp: body_len_def Let_def split: if_splits)

end
