(* ===== verification/Side_Streams.thy ===== *)
theory Side_Streams
  imports Streams Viewer_Run
begin

text \<open>
  The unidirectional streams beside the control stream: the viewer's input
  (\<open>crates/viewer/src/direct.rs\<close>: \<open>send_input\<close>; \<open>crates/agent/src/session.rs\<close>:
  \<open>read_input\<close>), clipboard text both ways and the host's pointer (\<open>read_clipboard\<close>,
  \<open>read_cursor\<close>), and what each side makes of a stream it is not meant to get
  (\<open>accept_streams\<close>).

  A reader is a function of all its stream will bring; what it does is a list, with the
  close it ends in, if any. \<open>closed\<close> tells whether the connection was closed already when
  a read fails.
\<close>

subsection \<open>Reading\<close>

type_synonym closing = "(close_code \<times> str) option"

definition malformed :: "bool \<Rightarrow> string \<Rightarrow> closing" where
  "malformed closed what = (if closed then None else Some (PROTOCOL, lit what))"

function read_input :: "(bytes \<Rightarrow> 'e + input) \<Rightarrow> bool \<Rightarrow> bool \<Rightarrow> recv_stream \<Rightarrow> input list \<times> closing" where
  "read_input de injector closed s =
     (case recv_message de s of
        (Inr (Some event), s') \<Rightarrow>
          (case read_input de injector closed s' of
             (events, c) \<Rightarrow> (if injector then event # events else events, c))
      | (Inr None, s') \<Rightarrow> ([], None)
      | (Inl e, s') \<Rightarrow> ([], malformed closed ''malformed input''))"
  by pat_completeness auto
termination
  by (relation "measure (\<lambda>(de, i, c, s). length (rs_bytes s))") (auto dest!: recv_shrinks [OF sym])

declare read_input.simps [simp del]

function read_clipboard :: "(bytes \<Rightarrow> 'e + clipboard) \<Rightarrow> bool \<Rightarrow> bool \<Rightarrow> recv_stream \<Rightarrow> str list \<times> closing" where
  "read_clipboard de sync closed s =
     (case recv_message de s of
        (Inr (Some (ClipboardText text)), s') \<Rightarrow>
          if length (utf8 text) > MAX_TEXT then ([], Some (PROTOCOL, lit ''clipboard text too large''))
          else (case read_clipboard de sync closed s' of
                  (texts, c) \<Rightarrow> (if sync then text # texts else texts, c))
      | (Inr None, s') \<Rightarrow> ([], None)
      | (Inl e, s') \<Rightarrow> ([], malformed closed ''malformed clipboard message''))"
  by pat_completeness auto
termination
  by (relation "measure (\<lambda>(de, i, c, s). length (rs_bytes s))") (auto dest!: recv_shrinks [OF sym])

declare read_clipboard.simps [simp del]

function read_cursor :: "(bytes \<Rightarrow> 'e + cursor) \<Rightarrow> bool \<Rightarrow> bool \<Rightarrow> recv_stream \<Rightarrow> cursor list \<times> closing" where
  "read_cursor de sink closed s =
     (case recv_message de s of
        (Inr (Some change), s') \<Rightarrow>
          if (case change of Shape shape \<Rightarrow> \<not> is_valid shape | Visible _ \<Rightarrow> False)
          then ([], Some (PROTOCOL, lit ''invalid cursor shape''))
          else (case read_cursor de sink closed s' of
                  (changes, c) \<Rightarrow> (if sink then change # changes else changes, c))
      | (Inr None, s') \<Rightarrow> ([], None)
      | (Inl e, s') \<Rightarrow> ([], malformed closed ''malformed cursor message''))"
  by pat_completeness auto
termination
  by (relation "measure (\<lambda>(de, i, c, s). length (rs_bytes s))") (auto dest!: recv_shrinks [OF sym])

declare read_cursor.simps [simp del]

text \<open>What a side does with a stream that was opened to it: hand it to the reader of its kind,
  nothing, or close the connection and take no more streams.\<close>

datatype accepted_stream = ReadInput recv_stream | ReadClipboard recv_stream | ReadCursor recv_stream
  | Nothing | CloseFor str

definition agent_accepts :: "(bytes \<Rightarrow> 'e + stream_kind) \<Rightarrow> recv_stream \<Rightarrow> accepted_stream" where
  "agent_accepts de s =
     (case recv_message de s of
        (Inr (Some InputStream), s') \<Rightarrow> ReadInput s'
      | (Inr (Some ClipboardStream), s') \<Rightarrow> ReadClipboard s'
      | (Inr (Some CursorStream), s') \<Rightarrow> CloseFor (lit ''unexpected stream'')
      | (Inr None, s') \<Rightarrow> Nothing
      | (Inl e, s') \<Rightarrow> CloseFor (lit ''unknown stream''))"

definition viewer_accepts :: "(bytes \<Rightarrow> 'e + stream_kind) \<Rightarrow> recv_stream \<Rightarrow> accepted_stream" where
  "viewer_accepts de s =
     (case recv_message de s of
        (Inr (Some CursorStream), s') \<Rightarrow> ReadCursor s'
      | (Inr (Some ClipboardStream), s') \<Rightarrow> ReadClipboard s'
      | (Inr None, s') \<Rightarrow> Nothing
      | (Inr (Some InputStream), s') \<Rightarrow> CloseFor (lit ''unexpected stream'')
      | (Inl e, s') \<Rightarrow> CloseFor (lit ''unexpected stream''))"

subsection \<open>Sending input\<close>

text \<open>A batch is what had queued up; a mouse move directly followed by another is dropped.\<close>

fun is_move :: "input \<Rightarrow> bool" where
  "is_move (MouseMove _ _) = True"
| "is_move _ = False"

definition superseded :: "input list \<Rightarrow> nat \<Rightarrow> bool" where
  "superseded batch i \<longleftrightarrow>
     is_move (batch ! i) \<and> (i + 1 < length batch \<and> is_move (batch ! (i + 1)))"

definition batch_events :: "input list \<Rightarrow> input list" where
  "batch_events batch = map (\<lambda>i. batch ! i) (filter (\<lambda>i. \<not> superseded batch i) [0..<length batch])"

text \<open>The stream's kind, then batch after batch, each written in one go.\<close>

primrec send_batches :: "(input \<Rightarrow> 'e + bytes) \<Rightarrow> input list list \<Rightarrow> bytes \<Rightarrow> 'e error + bytes" where
  "send_batches ser [] sent = Inr sent"
| "send_batches ser (batch # batches) sent =
     (case encode_each ser (batch_events batch) of
        Inl e \<Rightarrow> Inl e
      | Inr bs \<Rightarrow> send_batches ser batches (sent @ bs))"

definition send_input ::
  "(stream_kind \<Rightarrow> 'e + bytes) \<Rightarrow> (input \<Rightarrow> 'e + bytes) \<Rightarrow> input list list \<Rightarrow> 'e error + bytes" where
  "send_input ser_kind ser batches =
     (case send_message ser_kind InputStream [] of
        Inl e \<Rightarrow> Inl e
      | Inr sent \<Rightarrow> send_batches ser batches sent)"

subsection \<open>Dropping moves changes nothing\<close>

text \<open>What a machine sees of its input: every event that is no move, with where the pointer is
  when it comes, and where the pointer is in the end.\<close>

fun effects :: "(u16 \<times> u16) option \<Rightarrow> input list \<Rightarrow> ((u16 \<times> u16) option \<times> input) list \<times> (u16 \<times> u16) option" where
  "effects pos [] = ([], pos)"
| "effects pos (MouseMove x y # events) = effects (Some (x, y)) events"
| "effects pos (event # events) = (case effects pos events of (seen, fin) \<Rightarrow> ((pos, event) # seen, fin))"

fun thinned :: "input list \<Rightarrow> input list" where
  "thinned [] = []"
| "thinned [event] = [event]"
| "thinned (a # b # events) =
     (if is_move a \<and> is_move b then thinned (b # events) else a # thinned (b # events))"

lemma batch_events_Cons:
  "batch_events (a # batch) =
     (if is_move a \<and> batch \<noteq> [] \<and> is_move (hd batch) then [] else [a]) @ batch_events batch"
proof -
  have sup: "superseded (a # batch) (Suc i) = superseded batch i" for i by (simp add: superseded_def)
  have "[0..<length (a # batch)] = 0 # map Suc [0..<length batch]"
    by (metis length_Cons map_Suc_upt upt_conv_Cons zero_less_Suc)
  then have "batch_events (a # batch) = (if superseded (a # batch) 0 then [] else [a]) @
      map (\<lambda>i. (a # batch) ! i) (filter (\<lambda>i. \<not> superseded (a # batch) i) (map Suc [0..<length batch]))"
    by (simp add: batch_events_def del: upt_Suc)
  moreover have "superseded (a # batch) 0 \<longleftrightarrow> is_move a \<and> batch \<noteq> [] \<and> is_move (hd batch)"
    by (cases batch) (simp_all add: superseded_def)
  moreover have "map (\<lambda>i. (a # batch) ! i) (filter (\<lambda>i. \<not> superseded (a # batch) i) (map Suc [0..<length batch])) =
      batch_events batch"
    by (simp add: batch_events_def filter_map comp_def sup)
  ultimately show ?thesis by simp
qed

lemma batch_events_thinned: "batch_events batch = thinned batch"
proof (induction batch rule: thinned.induct)
  case 1
  then show ?case by (simp add: batch_events_def)
next
  case (2 event)
  then show ?case by (simp add: batch_events_def superseded_def)
next
  case (3 a b events)
  then show ?case by (simp add: batch_events_Cons [of a])
qed

lemma effects_other: "\<not> is_move e \<Longrightarrow>
    effects pos (e # events) = (case effects pos events of (seen, fin) \<Rightarrow> ((pos, e) # seen, fin))"
  by (cases e) simp_all

lemma effects_thinned: "effects pos (thinned batch) = effects pos batch"
proof (induction batch arbitrary: pos rule: thinned.induct)
  case (3 a b events)
  show ?case
  proof (cases "is_move a \<and> is_move b")
    case True
    then show ?thesis using 3(1) by (cases a; cases b) simp_all
  next
    case False
    then show ?thesis using 3(2) by (cases "is_move a") (cases a; simp add: effects_other)+
  qed
qed simp_all

lemma effects_append:
  "effects pos (xs @ ys) =
     (case effects pos xs of (seen, p) \<Rightarrow> (case effects p ys of (seen', p') \<Rightarrow> (seen @ seen', p')))"
proof (induction xs arbitrary: pos)
  case (Cons x xs)
  then show ?case by (cases x) (simp_all split: prod.splits)
qed simp

lemma effects_batches: "effects pos (concat (map batch_events batches)) = effects pos (concat batches)"
proof (induction batches arbitrary: pos)
  case (Cons batch batches)
  then show ?case by (simp add: effects_append batch_events_thinned effects_thinned split: prod.splits)
qed simp

lemma send_batches_eq:
  "send_batches ser batches sent =
     (case encode_each ser (concat (map batch_events batches)) of Inl e \<Rightarrow> Inl e | Inr bs \<Rightarrow> Inr (sent @ bs))"
  by (induction batches arbitrary: sent) (auto simp: encode_each_append split: sum.split)

subsection \<open>What arrives\<close>

lemma read_input_sent:
  assumes "encode_each ser events = Inr bs" and "reads_back ser de" and "fin \<or> closed"
  shows "read_input de True closed \<lparr>rs_bytes = bs, rs_finished = fin\<rparr> = (events, None)"
  using assms(1)
proof (induction events arbitrary: bs)
  case Nil
  then show ?case using assms(3)
    by (subst read_input.simps)
      (auto simp: recv_message_def read_exact_def HEADER_LEN_def malformed_def)
next
  case (Cons event events)
  then obtain b rest where enc: "encode ser event = Inr b" "encode_each ser events = Inr rest" "bs = b @ rest"
    by (auto split: sum.splits)
  show ?case
    by (subst read_input.simps) (simp add: enc(3) recv_sent [OF enc(1) assms(2)] Cons.IH [OF enc(2)])
qed

text \<open>C10. What is typed is what the machine gets: whatever batches the viewer's input was sent in,
  dropping mouse moves as it does, the agent reads its stream to the end without a complaint, and
  what it injects has the effects of all of the input: the same keys, buttons, wheel turns and
  texts, in the same order, each with the pointer where it was, and the pointer where it ended.\<close>

theorem input_arrives:
  assumes "send_input ser_kind ser batches = Inr bs" and "reads_back ser_kind de_kind" and "reads_back ser de"
    and "fin \<or> closed"
  shows "\<exists>s events. agent_accepts de_kind \<lparr>rs_bytes = bs, rs_finished = fin\<rparr> = ReadInput s \<and>
    read_input de True closed s = (events, None) \<and> effects pos events = effects pos (concat batches)"
proof -
  obtain k where k: "encode ser_kind InputStream = Inr k"
    using assms(1) by (auto simp: send_input_def send_message_def split: sum.splits)
  then obtain rest where rest: "encode_each ser (concat (map batch_events batches)) = Inr rest" "bs = k @ rest"
    using assms(1) by (auto simp: send_input_def send_message_def send_batches_eq split: sum.splits)
  have "agent_accepts de_kind \<lparr>rs_bytes = bs, rs_finished = fin\<rparr> =
      ReadInput \<lparr>rs_bytes = rest, rs_finished = fin\<rparr>"
    by (simp add: agent_accepts_def rest(2) recv_sent [OF k assms(2)])
  then show ?thesis using read_input_sent [OF rest(1) assms(3,4)] effects_batches by blast
qed

definition demo_ser_input :: "input \<Rightarrow> unit + bytes" where
  "demo_ser_input i =
     (if i = MouseMove 2 2 then Inr [2] else if i = Key 4 True then Inr [4] else Inl ())"

definition demo_de_input :: "bytes \<Rightarrow> unit + input" where
  "demo_de_input bs =
     (if bs = [2] then Inr (MouseMove 2 2) else if bs = [4] then Inr (Key 4 True) else Inl ())"

definition demo_ser_kind :: "stream_kind \<Rightarrow> unit + bytes" where
  "demo_ser_kind k = (case k of InputStream \<Rightarrow> Inr [0] | CursorStream \<Rightarrow> Inr [1] | ClipboardStream \<Rightarrow> Inr [2])"

definition demo_de_kind :: "bytes \<Rightarrow> unit + stream_kind" where
  "demo_de_kind bs =
     (if bs = [0] then Inr InputStream else if bs = [1] then Inr CursorStream
      else if bs = [2] then Inr ClipboardStream else Inl ())"

theorem input_arrives_witness:
  "\<exists>bs s events. send_input demo_ser_kind demo_ser_input [[MouseMove 1 1, MouseMove 2 2, Key 4 True]] = Inr bs \<and>
     agent_accepts demo_de_kind \<lparr>rs_bytes = bs, rs_finished = True\<rparr> = ReadInput s \<and>
     read_input demo_de_input True False s = (events, None) \<and>
     effects None events = ([(Some (2, 2), Key 4 True)], Some (2, 2))"
proof -
  have "\<exists>bs. send_input demo_ser_kind demo_ser_input [[MouseMove 1 1, MouseMove 2 2, Key 4 True]] = Inr bs"
    by (simp add: send_input_def send_message_def encode_def demo_ser_kind_def demo_ser_input_def Let_def
        MAX_MESSAGE_LEN_def HEADER_LEN_def batch_events_thinned)
  then obtain bs where bs: "send_input demo_ser_kind demo_ser_input [[MouseMove 1 1, MouseMove 2 2, Key 4 True]] = Inr bs"
    by blast
  have "\<exists>s events. agent_accepts demo_de_kind \<lparr>rs_bytes = bs, rs_finished = True\<rparr> = ReadInput s \<and>
      read_input demo_de_input True False s = (events, None) \<and>
      effects None events = effects None (concat [[MouseMove 1 1, MouseMove 2 2, Key 4 True]])"
    by (rule input_arrives [OF bs])
      (auto simp: reads_back_def demo_ser_kind_def demo_de_kind_def demo_ser_input_def demo_de_input_def
        split: stream_kind.splits if_splits)
  with bs show ?thesis by simp
qed

subsection \<open>What is refused\<close>

text \<open>What a reader hands on is good, whatever the stream holds: the images of the pointer agree
  with themselves, and no text is longer than a clipboard message may be.\<close>

lemma read_cursor_valid: "Shape shape \<in> set (fst (read_cursor de sink closed s)) \<Longrightarrow> is_valid shape"
proof (induction de sink closed s rule: read_cursor.induct)
  case (1 de sink closed s)
  show ?case
  proof (cases "\<exists>change s'. recv_message de s = (Inr (Some change), s') \<and>
      \<not> (case change of Shape shape \<Rightarrow> \<not> is_valid shape | Visible _ \<Rightarrow> False)")
    case True
    then obtain change s' where c: "recv_message de s = (Inr (Some change), s')"
      "\<not> (case change of Shape shape \<Rightarrow> \<not> is_valid shape | Visible _ \<Rightarrow> False)" by blast
    have "Shape shape = change \<or> Shape shape \<in> set (fst (read_cursor de sink closed s'))"
      using 1(2) c by (subst (asm) read_cursor.simps) (auto split: prod.splits if_splits)
    then show ?thesis using 1(1) c by (auto split: cursor.splits)
  next
    case False
    then have "fst (read_cursor de sink closed s) = []"
      by (subst read_cursor.simps) (auto split: prod.splits sum.splits option.splits)
    then show ?thesis using 1(2) by simp
  qed
qed

lemma read_clipboard_short: "text \<in> set (fst (read_clipboard de sync closed s)) \<Longrightarrow> length (utf8 text) \<le> MAX_TEXT"
proof (induction de sync closed s rule: read_clipboard.induct)
  case (1 de sync closed s)
  show ?case
  proof (cases "\<exists>text s'. recv_message de s = (Inr (Some (ClipboardText text)), s') \<and> \<not> MAX_TEXT < length (utf8 text)")
    case True
    then obtain text' s' where c: "recv_message de s = (Inr (Some (ClipboardText text')), s')"
      "\<not> MAX_TEXT < length (utf8 text')" by blast
    have "text = text' \<or> text \<in> set (fst (read_clipboard de sync closed s'))"
      using 1(2) c by (subst (asm) read_clipboard.simps) (auto split: prod.splits if_splits)
    then show ?thesis using 1(1) c by auto
  next
    case False
    then have "fst (read_clipboard de sync closed s) = []"
      by (subst read_clipboard.simps) (auto split: prod.splits sum.splits option.splits clipboard.splits)
    then show ?thesis using 1(2) by simp
  qed
qed

lemma read_input_refuses:
  "snd (read_input de injector closed s) \<in> {None, Some (PROTOCOL, lit ''malformed input'')}"
proof (induction de injector closed s rule: read_input.induct)
  case (1 de injector closed s)
  show ?case
    using 1 by (subst read_input.simps) (auto simp: malformed_def split: prod.splits sum.splits option.splits)
qed

text \<open>Without an injector nothing is injected: a session that may only watch.\<close>

lemma read_input_nothing: "fst (read_input de False closed s) = []"
proof (induction de "False" closed s rule: read_input.induct)
  case (1 de closed s)
  show ?case
    using 1 by (subst read_input.simps) (auto split: prod.splits sum.splits option.splits)
qed

lemma read_clipboard_nothing: "fst (read_clipboard de False closed s) = []"
proof (induction de "False" closed s rule: read_clipboard.induct)
  case (1 de closed s)
  show ?case
    using 1 by (subst read_clipboard.simps) (auto split: prod.splits sum.splits option.splits clipboard.splits)
qed

end
