(* ===== verification/Session_Theorems.thy ===== *)
theory Session_Theorems
  imports Session Side_Streams Video_Theorems
begin

text \<open>
  What holds through a whole session: its bookkeeping, one pipeline at a time, frame ids that
  run on, datagrams that carry nothing but frames that were taken, and so a viewer that shows
  nothing but those.
\<close>

subsection \<open>Bookkeeping\<close>

definition session_ok :: "session \<Rightarrow> bool" where
  "session_ok s \<longleftrightarrow>
     RESTART_FIRST \<le> ss_restart_wait s \<and> ss_restart_wait s \<le> RESTART_MAX \<and>
     1 \<le> qu_fps (ss_ceiling s) \<and> qu_fps (ss_ceiling s) \<le> MAX_FPS \<and>
     sent_ok (ss_sent s) \<and>
     (ss_video s \<noteq> None \<longrightarrow> ss_restart s = None) \<and>
     (ss_over s \<noteq> None \<longrightarrow> ss_video s = None)"

text \<open>A pipeline runs, or not, and each effect fits that.\<close>

primrec one_pipeline :: "bool \<Rightarrow> session_out list \<Rightarrow> bool \<Rightarrow> bool" where
  "one_pipeline runs [] after \<longleftrightarrow> runs = after"
| "one_pipeline runs (out # outs) after \<longleftrightarrow>
     (case out of
        StartsVideo _ \<Rightarrow> \<not> runs \<and> one_pipeline True outs after
      | StopsVideo \<Rightarrow> runs \<and> one_pipeline False outs after
      | _ \<Rightarrow> one_pipeline runs outs after)"

lemma one_pipeline_append:
  "one_pipeline a (xs @ ys) c \<longleftrightarrow> (\<exists>b. one_pipeline a xs b \<and> one_pipeline b ys c)"
  by (induction xs arbitrary: a) (auto split: session_out.splits)

lemma one_pipeline_quiet:
  "\<forall>out \<in> set outs. (\<forall>p. out \<noteq> StartsVideo p) \<and> out \<noteq> StopsVideo \<Longrightarrow> one_pipeline a outs b \<longleftrightarrow> a = b"
  by (induction outs) (auto split: session_out.splits)

abbreviation video_runs :: "session \<Rightarrow> bool" where
  "video_runs s \<equiv> ss_video s \<noteq> None"

text \<open>A result that keeps the bookkeeping and the pipelines in order.\<close>

definition orderly :: "session \<Rightarrow> session_result \<Rightarrow> bool" where
  "orderly s res \<longleftrightarrow> session_ok (fst res) \<and> one_pipeline (video_runs s) (snd res) (video_runs (fst res))"

lemma clamp_fps: "1 \<le> clamp fps 1 MAX_FPS \<and> clamp fps 1 MAX_FPS \<le> MAX_FPS"
  by (rule clamp_bounds) (simp add: MAX_FPS_def word_le_nat_alt)

lemma video_ended_facts [simp]:
  "ss_video (video_ended E v s) = ss_video s" "ss_restart (video_ended E v s) = ss_restart s"
  "ss_restart_wait (video_ended E v s) = ss_restart_wait s" "ss_ceiling (video_ended E v s) = ss_ceiling s"
  "ss_sent (video_ended E v s) = ss_sent s" "ss_over (video_ended E v s) = ss_over s"
  "ss_target (video_ended E v s) = ss_target s" "ss_monitors (video_ended E v s) = ss_monitors s"
  "ss_codecs (video_ended E v s) = ss_codecs s" "ss_clipboard (video_ended E v s) = ss_clipboard s"
  by (simp_all add: video_ended_def)

lemma stop_running_facts:
  assumes "stop_running E s = (s', outs)"
  shows "ss_video s' = None" "one_pipeline (video_runs s) outs False" "ss_restart s' = ss_restart s"
    "ss_restart_wait s' = ss_restart_wait s" "ss_ceiling s' = ss_ceiling s" "ss_sent s' = ss_sent s"
    "ss_over s' = ss_over s" "ss_target s' = ss_target s" "ss_monitors s' = ss_monitors s"
    "ss_codecs s' = ss_codecs s" "ss_clipboard s' = ss_clipboard s"
    "set outs \<subseteq> {StopsVideo}"
  using assms by (auto simp: stop_running_def split: option.splits)

lemma stop_running_orderly:
  assumes "session_ok s"
  shows "orderly s (stop_running E s)"
proof -
  obtain s' outs where stop: "stop_running E s = (s', outs)" by force
  show ?thesis
    using stop_running_facts [OF stop] assms unfolding stop orderly_def session_ok_def by simp
qed

lemma finish_orderly:
  assumes "session_ok s"
  shows "orderly s (finish E outcome s)"
proof -
  obtain s' outs where stop: "stop_running E s = (s', outs)" by force
  show ?thesis
    using stop_running_facts [OF stop] assms
    by (simp add: finish_def stop orderly_def session_ok_def one_pipeline_append) blast
qed

lemma finish_closing_orderly: "session_ok s \<Longrightarrow> orderly s (finish_closing E code reason s)"
  using finish_orderly [of s E EndedBadly]
  by (cases "finish E EndedBadly s") (simp add: orderly_def finish_closing_def)

lemma orderly_then:
  assumes "orderly s (s1, outs)" and "orderly s1 (s2, outs')"
  shows "orderly s (s2, outs @ outs')"
  using assms by (auto simp: orderly_def one_pipeline_append)

lemma start_video_quiet:
  assumes "start_video E settings s = Inr (v, outs)"
  shows "one_pipeline False outs True"
  using assms by (auto simp: start_video_def Let_def split: sum.splits prod.splits if_splits)

lemma on_start_video_orderly:
  assumes "session_ok s" and "ss_over s = None"
  shows "orderly s (on_start_video E monitor codec most_fps s)"
proof -
  let ?s0 = "s\<lparr>ss_restart := None, ss_restart_wait := RESTART_FIRST\<rparr>"
  have ok0: "session_ok ?s0" using assms(1) by (auto simp: session_ok_def RESTART_FIRST_def RESTART_MAX_def SECOND_def)
  obtain s1 outs where stop: "stop_running E ?s0 = (s1, outs)" by force
  have facts: "session_ok s1" "ss_video s1 = None" "ss_restart s1 = None" "ss_over s1 = None"
    and begins: "orderly s (s1, outs)"
    using stop_running_orderly [OF ok0, of E] stop_running_facts [OF stop] stop assms(2)
    by (simp_all add: orderly_def)
  let ?s2 = "s1\<lparr>ss_ceiling := (ss_ceiling s1)\<lparr>qu_fps := clamp most_fps 1 MAX_FPS\<rparr>\<rparr>"
  let ?p = "\<lparr>pl_monitor = monitor, pl_codec = codec, pl_max_fps = qu_fps (ss_ceiling ?s2), pl_bitrate = ss_start_kbps ?s2\<rparr>"
  have ok2: "session_ok ?s2" using facts clamp_fps by (auto simp: session_ok_def)
  have move: "orderly s (s1, outs) \<Longrightarrow> orderly s (?s2, outs)"
    using ok2 facts by (simp add: orderly_def)
  have refuse: "orderly s (case finish_closing E code reason s1 of (s2, outs') \<Rightarrow> (s2, outs @ outs'))" for code reason
    using orderly_then [OF begins] finish_closing_orderly [OF facts(1), of E code reason]
    by (auto split: prod.splits)
  have fail: "orderly s (case finish_closing E code reason ?s2 of (s3, outs') \<Rightarrow> (s3, outs @ outs'))" for code reason
    using orderly_then [OF move [OF begins]] finish_closing_orderly [OF ok2, of E code reason]
    by (auto split: prod.splits)
  have start: "orderly s (?s2\<lparr>ss_video := Some v\<rparr>, outs @ started)"
      "orderly s (?s2\<lparr>ss_video := Some v, ss_target := t\<rparr>, outs @ started @ [Targets m])"
    if st: "start_video E ?p ?s2 = Inr (v, started)" for v started t m
    using begins ok2 facts start_video_quiet [OF st]
    by (auto simp: orderly_def one_pipeline_append session_ok_def)
  show ?thesis
    using refuse fail start
    by (auto simp: on_start_video_def stop Let_def split: sum.splits option.splits)
qed

lemma on_message_orderly:
  assumes "session_ok s" and "ss_over s = None"
  shows "orderly s (on_message E said s)"
proof -
  have same: "orderly s (s, outs)" if "\<forall>out \<in> set outs. (\<forall>p. out \<noteq> StartsVideo p) \<and> out \<noteq> StopsVideo" for outs
    using assms that by (simp add: orderly_def one_pipeline_quiet)
  have quality: "orderly s (on_set_quality most fps s, [])" for most fps
    using assms clamp_fps by (auto simp: orderly_def on_set_quality_def session_ok_def)
  have nack: "orderly s (s, on_nack E i chunks s)" for i chunks
    by (rule same) (auto simp: on_nack_def Let_def split: option.splits)
  show ?thesis
    using finish_orderly [OF assms(1)] finish_closing_orderly [OF assms(1)] on_start_video_orderly [OF assms]
      same quality nack
    by (auto simp: on_message_def split: said.splits control.splits)
qed

lemma sender_step_sent_ok:
  assumes "sender_step ser queued ev sent sd = Some (sent', sd', outs, goes)" and "sent_ok sent"
  shows "sent_ok sent'"
  using assms
  by (auto simp: sender_step_def send_frame_def Let_def sent_insert_ok
      split: sender_event.splits if_splits prod.splits option.splits sum.splits)

lemma sender_turn_orderly:
  assumes "session_ok s" and "sender_turn ser queued ev s = Some res"
  shows "orderly s res"
proof -
  obtain v sent' sd' outs goes where v: "ss_video s = Some v"
    and step: "sender_step ser queued ev (ss_sent s) (rn_sender v) = Some (sent', sd', outs, goes)"
    and res: "res = (s\<lparr>ss_sent := sent', ss_video := Some (v\<lparr>rn_sender := sd', rn_done := \<not> goes\<rparr>)\<rparr>,
      map sending_out outs)"
    using assms(2) by (auto simp: sender_turn_def split: option.splits if_splits)
  have "one_pipeline True (map sending_out outs) True"
    by (simp add: one_pipeline_quiet sending_out_def split: sending.split)
  then show ?thesis
    using assms(1) v res sender_step_sent_ok [OF step] by (auto simp: orderly_def session_ok_def)
qed

lemma on_video_over_orderly:
  assumes "session_ok s" and "on_video_over E s = Some res"
  shows "orderly s res"
proof -
  obtain v where v: "ss_video s = Some v" using assms(2) by (auto simp: on_video_over_def split: option.splits)
  have wait: "RESTART_FIRST \<le> w \<Longrightarrow> RESTART_FIRST \<le> min (w * 2) RESTART_MAX \<and> min (w * 2) RESTART_MAX \<le> RESTART_MAX" for w
    by (auto simp: RESTART_FIRST_def RESTART_MAX_def SECOND_def)
  show ?thesis
    using assms v wait
    by (auto simp: on_video_over_def orderly_def session_ok_def Let_def split: if_splits)
qed

lemma on_restart_due_orderly:
  assumes "session_ok s" and "ss_over s = None" and "on_restart_due E s = Some res"
  shows "orderly s res"
proof -
  obtain moment old where r: "ss_restart s = Some (moment, old)" and due: "\<not> xe_now E < moment"
    using assms(3) by (auto simp: on_restart_due_def split: option.splits if_splits)
  have none: "ss_video s = None" using assms(1) r by (auto simp: session_ok_def)
  have wait: "RESTART_FIRST \<le> w \<Longrightarrow> RESTART_FIRST \<le> min (w * 2) RESTART_MAX \<and> min (w * 2) RESTART_MAX \<le> RESTART_MAX" for w
    by (auto simp: RESTART_FIRST_def RESTART_MAX_def SECOND_def)
  let ?s1 = "s\<lparr>ss_restart := None\<rparr>"
  let ?p = "old\<lparr>pl_bitrate := ss_start_kbps ?s1\<rparr>"
  show ?thesis
  proof (cases "start_video E ?p ?s1")
    case (Inl reason)
    then have "res = (?s1\<lparr>ss_restart := Some (xe_now E + ss_restart_wait ?s1, ?p),
        ss_restart_wait := min (ss_restart_wait ?s1 * 2) RESTART_MAX\<rparr>, [])"
      using assms(3) r due by (simp add: on_restart_due_def Let_def)
    then show ?thesis using assms(1) none wait by (simp add: orderly_def session_ok_def)
  next
    case (Inr started)
    obtain v outs where st: "start_video E ?p ?s1 = Inr (v, outs)" using Inr by (cases started) simp
    then have "res = (?s1\<lparr>ss_video := Some v\<rparr>, outs)"
      using assms(3) r due by (simp add: on_restart_due_def Let_def)
    then show ?thesis using assms(1,2) none start_video_quiet [OF st] by (simp add: orderly_def session_ok_def)
  qed
qed

lemma session_step_orderly:
  assumes "session_ok s" and "session_step ser E ev s = Some res"
  shows "orderly s res"
proof -
  have live: "ss_over s = None" using assms(2) by (auto simp: session_step_def split: if_splits)
  show ?thesis
  proof (cases ev)
    case (SenderTurn queued sev)
    then show ?thesis using assms live sender_turn_orderly [OF assms(1), of ser queued sev res]
      by (simp add: session_step_def)
  next
    case VideoOver
    then show ?thesis using assms live on_video_over_orderly [OF assms(1), of E res] by (simp add: session_step_def)
  next
    case RestartDue
    then show ?thesis using assms live on_restart_due_orderly [OF assms(1) live, of E res]
      by (simp add: session_step_def)
  qed (use assms live on_message_orderly finish_orderly in \<open>auto simp: session_step_def\<close>)
qed

lemma session_run_orderly:
  "session_run ser es s = Some (s', outs) \<Longrightarrow> session_ok s \<Longrightarrow> orderly s (s', outs)"
proof (induction es arbitrary: s outs)
  case Nil
  then show ?case by (simp add: orderly_def)
next
  case (Cons e es)
  obtain s1 outs1 outs2 where step: "session_step ser (fst e) (snd e) s = Some (s1, outs1)"
    and rest: "session_run ser es s1 = Some (s', outs2)" and outs: "outs = outs1 @ outs2"
    using Cons.prems(1) by (auto split: option.splits)
  have one: "orderly s (s1, outs1)" using session_step_orderly [OF Cons.prems(2) step] .
  then have "session_ok s1" by (simp add: orderly_def)
  from orderly_then [OF one Cons.IH [OF rest this]] show ?case unfolding outs .
qed

lemma session_new_ok: "session_ok (session_new most adm monitors encoders injector clipboard)"
  by (simp add: session_ok_def session_new_def sent_new_ok RESTART_FIRST_def RESTART_MAX_def SECOND_def MAX_FPS_def
      word_le_nat_alt)

text \<open>C7. One pipeline at a time: whatever the viewer asks for and however often video stops by
  itself and is started again, a pipeline is started only when none runs, and one that runs is
  stopped before the session is over. All along the wait before video is started again is between
  one and thirty seconds, the frame rate the viewer may ask for between 1 and 120, and no more than
  64 frames and 16 MiB of sent video are kept.\<close>

theorem session_stays_in_bounds:
  assumes "session_run ser es (session_new most adm monitors encoders injector clipboard) = Some (s, outs)"
  shows "session_ok s \<and> one_pipeline False outs (video_runs s) \<and> (ss_over s \<noteq> None \<longrightarrow> one_pipeline False outs False)"
proof -
  let ?s0 = "session_new most adm monitors encoders injector clipboard"
  have "orderly ?s0 (s, outs)" using session_run_orderly [OF assms session_new_ok] .
  moreover have "\<not> video_runs ?s0" by (simp add: session_new_def)
  ultimately show ?thesis by (auto simp: orderly_def session_ok_def)
qed

subsection \<open>Frame ids run on\<close>

text \<open>The frames taken in a run, each with the datagram size of the moment.\<close>

fun taken_by :: "session_event \<Rightarrow> (encoded_frame \<times> nat option) list" where
  "taken_by (SenderTurn _ (FrameComes frame most _)) = [(frame, most)]"
| "taken_by _ = []"

definition taken :: "(session_env \<times> session_event) list \<Rightarrow> (encoded_frame \<times> nat option) list" where
  "taken es = concat (map (taken_by \<circ> snd) es)"

lemma taken_simps [simp]: "taken [] = []" "taken (e # es) = taken_by (snd e) @ taken es"
  by (simp_all add: taken_def)

text \<open>The id the next frame gets, wherever it is kept.\<close>

definition next_id :: "session \<Rightarrow> u32" where
  "next_id s = (case ss_video s of None \<Rightarrow> ss_next_frame_id s | Some v \<Rightarrow> vs_next_frame_id (sd_stats (rn_sender v)))"

lemma next_id_stop:
  assumes "xe_joins E" and "stop_running E s = (s', outs)"
  shows "next_id s' = next_id s" and "ss_next_frame_id s' = next_id s"
  using assms by (auto simp: stop_running_def next_id_def video_ended_def split: option.splits)

lemma next_id_same: "ss_video s' = ss_video s \<Longrightarrow> ss_next_frame_id s' = ss_next_frame_id s \<Longrightarrow> next_id s' = next_id s"
  by (cases "ss_video s") (simp_all add: next_id_def)

lemma next_id_over [simp]: "next_id (s\<lparr>ss_over := over\<rparr>) = next_id s"
  by (rule next_id_same) simp_all

lemma next_id_finish: "xe_joins E \<Longrightarrow> next_id (fst (finish E outcome s)) = next_id s"
  using next_id_stop [of E s] by (cases "stop_running E s") (simp add: finish_def)

lemma next_id_closing: "xe_joins E \<Longrightarrow> next_id (fst (finish_closing E code reason s)) = next_id s"
  using next_id_finish [of E EndedBadly s] by (cases "finish E EndedBadly s") (simp add: finish_closing_def)

lemma next_id_started:
  assumes "start_video E settings s = Inr (v, outs)"
  shows "vs_next_frame_id (sd_stats (rn_sender v)) = ss_next_frame_id s"
  using assms by (auto simp: start_video_def sender_new_def Let_def split: sum.splits prod.splits)

lemma next_id_on_start_video:
  assumes "xe_joins E"
  shows "next_id (fst (on_start_video E monitor codec most_fps s)) = next_id s"
proof -
  let ?s0 = "s\<lparr>ss_restart := None, ss_restart_wait := RESTART_FIRST\<rparr>"
  obtain s1 outs where stop: "stop_running E ?s0 = (s1, outs)" by force
  have n0: "next_id ?s0 = next_id s" by (rule next_id_same) simp_all
  have n1: "next_id s1 = next_id s" "ss_next_frame_id s1 = next_id s"
    using next_id_stop [OF assms stop] n0 by simp_all
  let ?s2 = "s1\<lparr>ss_ceiling := (ss_ceiling s1)\<lparr>qu_fps := clamp most_fps 1 MAX_FPS\<rparr>\<rparr>"
  let ?p = "\<lparr>pl_monitor = monitor, pl_codec = codec, pl_max_fps = qu_fps (ss_ceiling ?s2), pl_bitrate = ss_start_kbps ?s2\<rparr>"
  have n2: "next_id ?s2 = next_id s" unfolding n1(1) [symmetric] by (rule next_id_same) simp_all
  have closing: "next_id (fst (case finish_closing E code reason x of (s2, outs') \<Rightarrow> (s2, outs @ outs'))) = next_id x"
    for code reason x
    using next_id_closing [OF assms, of code reason x] by (cases "finish_closing E code reason x") simp
  have started: "next_id (?s2\<lparr>ss_video := Some v\<rparr>) = next_id s"
      "next_id (?s2\<lparr>ss_video := Some v, ss_target := t\<rparr>) = next_id s"
    if "start_video E ?p ?s2 = Inr (v, started)" for v started t
    using next_id_started [OF that] n1 by (simp_all add: next_id_def)
  show ?thesis
    using closing started n1 n2
    by (auto simp: on_start_video_def stop Let_def split: sum.splits option.splits)
qed

lemma next_id_step:
  assumes "session_step ser E ev s = Some (s', outs)" and "xe_joins E" and "session_ok s"
  shows "next_id s' = next_id s + of_nat (length (taken_by ev))"
proof (cases ev)
  case (Told said)
  have "next_id (fst (on_message E said s)) = next_id s"
    using next_id_finish [OF assms(2)] next_id_closing [OF assms(2)] next_id_on_start_video [OF assms(2)]
    by (auto simp: on_message_def on_set_quality_def next_id_def split: said.splits control.splits)
  then show ?thesis using assms(1) Told by (auto simp: session_step_def split: if_splits)
next
  case ReaderGone
  then show ?thesis using assms(1) next_id_finish [OF assms(2), of EndedWell s]
    by (auto simp: session_step_def split: if_splits)
next
  case (SenderTurn queued sev)
  then obtain v sent' sd' souts goes where v: "ss_video s = Some v"
    and step: "sender_step ser queued sev (ss_sent s) (rn_sender v) = Some (sent', sd', souts, goes)"
    and s': "s' = s\<lparr>ss_sent := sent', ss_video := Some (v\<lparr>rn_sender := sd', rn_done := \<not> goes\<rparr>)\<rparr>"
    using assms(1) by (auto simp: session_step_def sender_turn_def split: option.splits if_splits)
  show ?thesis using sender_step_id [OF step] v s' SenderTurn by (cases sev) (simp_all add: next_id_def)
next
  case VideoOver
  then show ?thesis using assms(1,2)
    by (auto simp: session_step_def on_video_over_def next_id_def video_ended_def Let_def split: option.splits if_splits)
next
  case RestartDue
  then obtain moment old where r: "ss_restart s = Some (moment, old)" "ss_over s = None"
    using assms(1) by (auto simp: session_step_def on_restart_due_def split: option.splits if_splits)
  then have none: "ss_video s = None" using assms(3) by (auto simp: session_ok_def)
  show ?thesis
    using assms(1) r none RestartDue
    by (auto simp: session_step_def on_restart_due_def next_id_def Let_def dest: next_id_started
        split: if_splits sum.splits)
qed

lemma next_id_run:
  assumes "session_run ser es s = Some (s', outs)" and "\<forall>e \<in> set es. xe_joins (fst e)" and "session_ok s"
  shows "next_id s' = next_id s + of_nat (length (taken es))"
  using assms
proof (induction es arbitrary: s outs)
  case Nil
  then show ?case by simp
next
  case (Cons e es)
  obtain s1 outs1 outs2 where step: "session_step ser (fst e) (snd e) s = Some (s1, outs1)"
    and rest: "session_run ser es s1 = Some (s', outs2)"
    using Cons.prems(1) by (auto split: option.splits)
  have "session_ok s1" using session_step_orderly [OF Cons.prems(3) step] by (simp add: orderly_def)
  then show ?case using Cons.IH [OF rest] Cons.prems next_id_step [OF step] by simp
qed

subsection \<open>Nothing but frames that were taken\<close>

text \<open>An effect that is no datagram, and that gives no monitor to an injector that is not there;
  and a result that has only such effects and leaves buffer, injector and clipboard alone.\<close>

definition plain_out :: "session_out \<Rightarrow> bool" where
  "plain_out out \<longleftrightarrow> (case out of Sends _ \<Rightarrow> False | Targets _ \<Rightarrow> False | _ \<Rightarrow> True)"

definition plain :: "session \<Rightarrow> session_result \<Rightarrow> bool" where
  "plain s res \<longleftrightarrow>
     ss_sent (fst res) = ss_sent s \<and> ss_target (fst res) = ss_target s \<and> ss_clipboard (fst res) = ss_clipboard s \<and>
     list_all plain_out (snd res)"

lemma plain_stop: "plain s (stop_running E s)"
  by (auto simp: plain_def stop_running_def plain_out_def split: option.splits)

lemma plain_finish: "plain s (finish E outcome s)"
  using plain_stop [of s E] by (cases "stop_running E s") (simp add: plain_def finish_def plain_out_def)

lemma plain_closing: "plain s (finish_closing E code reason s)"
  using plain_finish [of s E EndedBadly]
  by (cases "finish E EndedBadly s") (simp add: plain_def finish_closing_def plain_out_def)

lemma plain_then:
  assumes "plain s (s1, outs)" and "plain s1 res"
  shows "plain s (case res of (s2, outs') \<Rightarrow> (s2, outs @ outs'))"
  using assms by (cases res) (simp add: plain_def)

lemma start_video_plain:
  assumes "start_video E settings s = Inr (v, outs)"
  shows "list_all plain_out outs"
  using assms by (auto simp: start_video_def plain_out_def Let_def split: sum.splits prod.splits if_splits)

text \<open>A viewer's choice of a monitor moves the injector there, if there is one.\<close>

definition nearly_plain :: "session \<Rightarrow> session_result \<Rightarrow> bool" where
  "nearly_plain s res \<longleftrightarrow>
     ss_sent (fst res) = ss_sent s \<and> ss_clipboard (fst res) = ss_clipboard s \<and>
     (ss_target s = None \<longrightarrow> ss_target (fst res) = None) \<and>
     list_all (\<lambda>out. plain_out out \<or> (ss_target s \<noteq> None \<and> (\<exists>m. out = Targets m))) (snd res)"

lemma plain_nearly: "plain s res \<Longrightarrow> nearly_plain s res"
  by (auto simp: plain_def nearly_plain_def list_all_iff)

lemma on_start_video_plain: "nearly_plain s (on_start_video E monitor codec most_fps s)"
proof -
  let ?s0 = "s\<lparr>ss_restart := None, ss_restart_wait := RESTART_FIRST\<rparr>"
  obtain s1 outs1 where stop: "stop_running E ?s0 = (s1, outs1)" by force
  have p1: "plain s (s1, outs1)" using plain_stop [of ?s0 E] by (simp add: stop plain_def)
  let ?s2 = "s1\<lparr>ss_ceiling := (ss_ceiling s1)\<lparr>qu_fps := clamp most_fps 1 MAX_FPS\<rparr>\<rparr>"
  let ?p = "\<lparr>pl_monitor = monitor, pl_codec = codec, pl_max_fps = qu_fps (ss_ceiling ?s2), pl_bitrate = ss_start_kbps ?s2\<rparr>"
  have p2: "plain s (?s2, outs1)" using p1 by (simp add: plain_def)
  show ?thesis
  proof (cases "list_ex (\<lambda>m. m_id m = monitor) (ss_monitors s1) \<and> codec \<in> set (ss_codecs s1)")
    case False
    then obtain reason where "on_start_video E monitor codec most_fps s =
        (case finish_closing E PROTOCOL reason s1 of (s2, outs') \<Rightarrow> (s2, outs1 @ outs'))"
      unfolding on_start_video_def stop prod.case by (metis (no_types, lifting))
    then show ?thesis using plain_nearly [OF plain_then [OF p1 plain_closing]] by metis
  next
    case True
    show ?thesis
    proof (cases "start_video E ?p ?s2")
      case (Inl reason)
      then have "on_start_video E monitor codec most_fps s =
          (case finish_closing E PIPELINE_FAILED reason ?s2 of (s2, outs') \<Rightarrow> (s2, outs1 @ outs'))"
        using True by (simp add: on_start_video_def stop Let_def)
      then show ?thesis using plain_nearly [OF plain_then [OF p2 plain_closing]] by metis
    next
      case (Inr started)
      obtain v souts where st: "start_video E ?p ?s2 = Inr (v, souts)" using Inr by (cases started) simp
      have "on_start_video E monitor codec most_fps s =
          (case (ss_target s1, find (\<lambda>m. m_id m = monitor) (ss_monitors s1)) of
             (Some _, Some m) \<Rightarrow> (?s2\<lparr>ss_video := Some v, ss_target := Some m\<rparr>, outs1 @ souts @ [Targets m])
           | _ \<Rightarrow> (?s2\<lparr>ss_video := Some v\<rparr>, outs1 @ souts))"
        using True st by (simp add: on_start_video_def stop Let_def)
      then show ?thesis
        using p1 start_video_plain [OF st]
        by (auto simp: nearly_plain_def plain_def list_all_iff split: option.splits)
    qed
  qed
qed

lemma on_message_plain:
  assumes "\<forall>i chunks. said \<noteq> Message (Nack i chunks)"
  shows "nearly_plain s (on_message E said s)"
proof -
  have quiet: "nearly_plain s (s, outs)" if "list_all plain_out outs" for outs
    using that by (auto simp: nearly_plain_def list_all_iff)
  have quality: "nearly_plain s (on_set_quality most fps s, [])" for most fps
    by (simp add: nearly_plain_def on_set_quality_def)
  have fin: "nearly_plain s (finish E outcome s)" "nearly_plain s (finish_closing E code reason s)"
    for outcome code reason by (rule plain_nearly [OF plain_finish], rule plain_nearly [OF plain_closing])
  show ?thesis
  proof (cases said)
    case (Message m)
    then show ?thesis
      using assms fin on_start_video_plain quality
      by (cases m) (auto simp: on_message_def plain_out_def intro!: quiet)
  qed (simp_all add: on_message_def fin)
qed

text \<open>The frame taken under an id, of all those taken in a run; any other id stands for a frame
  that was never split.\<close>

definition src_of :: "bytes \<Rightarrow> (encoded_frame \<times> nat option) list \<Rightarrow> u32 \<Rightarrow> sent_frame" where
  "src_of other frames i =
     (let none = \<lparr>sf_keyframe = False, sf_capture_ts_us = 0, sf_data = other, sf_datagram = 0\<rparr> in
      if unat i < length frames
      then (case frames ! unat i of (frame, Some most) \<Rightarrow> taken_as frame most | (_, None) \<Rightarrow> none)
      else none)"

definition all_carry :: "(video_chunk \<Rightarrow> 'e + bytes) \<Rightarrow> (u32 \<Rightarrow> sent_frame) \<Rightarrow> session_out list \<Rightarrow> bool" where
  "all_carry ser src outs \<longleftrightarrow> (\<forall>d. Sends d \<in> set outs \<longrightarrow> (\<exists>i. carries ser src i d))"

lemma plain_carry: "list_all plain_out outs \<Longrightarrow> all_carry ser src outs"
  by (auto simp: all_carry_def list_all_iff plain_out_def)

lemma nearly_plain_carry: "nearly_plain s (s', outs) \<Longrightarrow> all_carry ser src outs"
  by (force simp: all_carry_def nearly_plain_def list_all_iff plain_out_def)

lemma session_step_carries:
  assumes "session_step ser E ev s = Some (s', outs)" and "session_ok s" and "holds_sent ser src (ss_sent s)"
    and src: "\<And>frame most. taken_by ev = [(frame, Some most)] \<Longrightarrow> src (next_id s) = taken_as frame most"
  shows "holds_sent ser src (ss_sent s') \<and> all_carry ser src outs"
proof (cases ev)
  case (Told said)
  then have res: "on_message E said s = (s', outs)" using assms(1) by (simp add: session_step_def split: if_splits)
  show ?thesis
  proof (cases "\<exists>i chunks. said = Message (Nack i chunks)")
    case True
    then obtain i chunks where "said = Message (Nack i chunks)" by blast
    then have "s' = s" "\<forall>d. Sends d \<in> set outs \<longrightarrow> d \<in> set (sent_chunks i chunks (ss_sent s))"
      using res by (auto simp: on_message_def on_nack_def Let_def dest: in_set_takeD split: option.splits)
    then show ?thesis unfolding all_carry_def using nack_carries [OF assms(3)] assms(3) by blast
  next
    case False
    then have near: "nearly_plain s (s', outs)" using on_message_plain [of said s E] res by simp
    then have "ss_sent s' = ss_sent s" by (simp add: nearly_plain_def)
    then show ?thesis using nearly_plain_carry [OF near] assms(3) by simp
  qed
next
  case ReaderGone
  then have "finish E EndedWell s = (s', outs)" using assms(1) by (simp add: session_step_def split: if_splits)
  then have "plain s (s', outs)" using plain_finish [of s E EndedWell] by simp
  then show ?thesis using assms(3) by (simp add: plain_def plain_carry)
next
  case (SenderTurn queued sev)
  then obtain v sent' sd' souts goes where v: "ss_video s = Some v"
    and step: "sender_step ser queued sev (ss_sent s) (rn_sender v) = Some (sent', sd', souts, goes)"
    and s': "s' = s\<lparr>ss_sent := sent', ss_video := Some (v\<lparr>rn_sender := sd', rn_done := \<not> goes\<rparr>)\<rparr>"
    and outs: "outs = map sending_out souts"
    using assms(1) by (auto simp: session_step_def sender_turn_def split: option.splits if_splits)
  have sends: "Sends d \<in> set outs \<longleftrightarrow> SendDatagram d \<in> set souts" for d
    by (force simp: outs sending_out_def split: sending.splits)
  have n: "next_id s = vs_next_frame_id (sd_stats (rn_sender v))" using v by (simp add: next_id_def)
  show ?thesis
  proof (cases "\<exists>frame most left. sev = FrameComes frame most left")
    case True
    then obtain frame most left where sev: "sev = FrameComes frame most left" by blast
    have one: "send_frame ser frame most left (ss_sent s) (rn_sender v) = (sent', sd', souts, goes)"
      using step sev by (simp add: sender_step_def Let_def split: if_splits)
    have "sent_ok (ss_sent s)" using assms(2) by (simp add: session_ok_def)
    from send_frame_carries [OF one assms(3) this] src n SenderTurn sev
    show ?thesis by (auto simp: s' all_carry_def sends)
  next
    case False
    then have "sent' = ss_sent s" "\<forall>d. SendDatagram d \<notin> set souts"
      using step by (auto simp: sender_step_def steer_def Let_def split: sender_event.splits if_splits prod.splits option.splits)
    then show ?thesis using assms(3) by (simp add: s' all_carry_def sends)
  qed
next
  case VideoOver
  then have "on_video_over E s = Some (s', outs)" using assms(1) by (simp add: session_step_def split: if_splits)
  then have "ss_sent s' = ss_sent s" "outs = [StopsVideo]"
    by (auto simp: on_video_over_def Let_def split: option.splits if_splits)
  then show ?thesis using assms(3) by (simp add: all_carry_def)
next
  case RestartDue
  then have res: "on_restart_due E s = Some (s', outs)" using assms(1) by (simp add: session_step_def split: if_splits)
  then have "ss_sent s' = ss_sent s" "list_all plain_out outs"
    using start_video_plain by (auto simp: on_restart_due_def Let_def split: option.splits if_splits sum.splits)
  then show ?thesis using assms(3) by (simp add: plain_carry)
qed

lemma session_run_carries:
  assumes "session_run ser es s = Some (s', outs)" and "\<forall>e \<in> set es. xe_joins (fst e)" and "session_ok s"
    and "holds_sent ser src (ss_sent s)" and "next_id s = of_nat k" and "frames = past @ taken es"
    and "length past = k" and "length frames \<le> 2 ^ 32" and "src = src_of other frames"
  shows "all_carry ser src outs"
  using assms(1-7)
proof (induction es arbitrary: s outs k past)
  case Nil
  then show ?case by (simp add: all_carry_def)
next
  case (Cons e es)
  obtain s1 outs1 outs2 where step: "session_step ser (fst e) (snd e) s = Some (s1, outs1)"
    and rest: "session_run ser es s1 = Some (s', outs2)" and outs: "outs = outs1 @ outs2"
    using Cons.prems(1) by (auto split: option.splits)
  have ok1: "session_ok s1" using session_step_orderly [OF Cons.prems(3) step] by (simp add: orderly_def)
  have src: "src (next_id s) = taken_as frame most" if t: "taken_by (snd e) = [(frame, Some most)]" for frame most
  proof -
    have "k < length frames" "frames ! k = (frame, Some most)"
      using Cons.prems(6,7) t by (simp_all add: nth_append)
    moreover have "unat (next_id s) = k"
      using Cons.prems(5) assms(8) \<open>k < length frames\<close> by (simp add: unat_of_nat take_bit_eq_mod)
    ultimately show ?thesis by (simp add: assms(9) src_of_def)
  qed
  have one: "holds_sent ser src (ss_sent s1) \<and> all_carry ser src outs1"
    using session_step_carries [OF step Cons.prems(3,4)] src by blast
  have n1: "next_id s1 = of_nat (k + length (taken_by (snd e)))"
    using next_id_step [OF step] Cons.prems(2,3,5) by simp
  have "all_carry ser src outs2"
    by (rule Cons.IH [OF rest _ ok1 _ n1, of "past @ taken_by (snd e)"]) (use Cons.prems one in simp_all)
  then show ?case using one by (auto simp: outs all_carry_def)
qed


text \<open>A session where a viewer starts video and one frame is taken and sent, for the witnesses.\<close>

definition demo_env :: session_env where
  "demo_env = \<lparr>xe_now = 0, xe_started = Inr (640, 480), xe_joins = True, xe_pong_sent = True, xe_agent_us = 0,
     xe_accepts = None, xe_closed = False, xe_closed_normally = False\<rparr>"

definition demo_monitor :: monitor where
  "demo_monitor = \<lparr>m_id = 0, m_width = 640, m_height = 480, m_x = 0, m_y = 0, m_primary = True\<rparr>"

definition demo_frame :: encoded_frame where
  "demo_frame = \<lparr>ef_data = [1, 2, 3, 4, 5], ef_keyframe = True, ef_capture_ts_us = 7\<rparr>"

definition demo_events :: "(session_env \<times> session_event) list" where
  "demo_events =
     [(demo_env, Told (Message (StartVideo 0 H264 60))),
      (demo_env, SenderTurn 0 (FrameComes demo_frame (Some MIN_DATAGRAM) None))]"

abbreviation demo_session :: "role \<Rightarrow> session" where
  "demo_session role \<equiv>
     session_new 5000 \<lparr>ad_user = None, ad_role = role\<rparr> [demo_monitor] [H264] True True"

definition demo_ser :: "video_chunk \<Rightarrow> unit + bytes" where
  "demo_ser c = (if c = first_chunk demo_src 0 then Inr [9] else Inl ())"

definition demo_de :: "bytes \<Rightarrow> unit + video_chunk" where
  "demo_de bs = (if bs = [9] then Inr (first_chunk demo_src 0) else Inl ())"

lemma demo_reads_back: "reads_back demo_ser demo_de"
  by (simp add: reads_back_def demo_ser_def demo_de_def)

lemma demo_packetized:
  "packetize 0 True 7 [1, 2, 3, 4, 5] MIN_DATAGRAM = (Inr [first_chunk demo_src 0] :: unit error + video_chunk list)"
  by (simp add: packetize_Inr_iff first_chunk_def demo_src_def payload_of_def chunk_count_def div_ceil_def
      MIN_DATAGRAM_def CHUNK_OVERHEAD_def)

lemma demo_started:
  "\<exists>s outs. session_step demo_ser demo_env (Told (Message (StartVideo 0 H264 60))) (demo_session role) = Some (s, outs) \<and>
     video_runs s \<and> next_id s = 0 \<and> \<not> rn_done (the (ss_video s)) \<and> ss_over s = None"
  by (auto simp: session_step_def on_message_def on_start_video_def stop_running_def start_video_def session_new_def
      demo_env_def demo_monitor_def Let_def next_id_def sender_new_def split: option.splits)

lemma demo_runs_on:
  "\<exists>s outs. session_run demo_ser demo_events (demo_session role) = Some (s, outs) \<and> Sends [9] \<in> set outs \<and>
     ss_over s = None \<and> (\<exists>v. ss_video s = Some v \<and> \<not> rn_done v)"
proof -
  obtain s outs where start: "session_step demo_ser demo_env (Told (Message (StartVideo 0 H264 60))) (demo_session role) =
      Some (s, outs)" and runs: "video_runs s" "next_id s = 0" "\<not> rn_done (the (ss_video s))" "ss_over s = None"
    using demo_started by blast
  obtain v where v: "ss_video s = Some v" using runs(1) by blast
  have n: "vs_next_frame_id (sd_stats (rn_sender v)) = 0" and d: "\<not> rn_done v" using runs v by (simp_all add: next_id_def)
  obtain s' outs' where turn: "session_step demo_ser demo_env
      (SenderTurn 0 (FrameComes demo_frame (Some MIN_DATAGRAM) None)) s = Some (s', outs')" "Sends [9] \<in> set outs'"
      "ss_over s' = None \<and> (\<exists>v. ss_video s' = Some v \<and> \<not> rn_done v)"
    by (simp add: session_step_def runs sender_turn_def v d sender_step_def send_frame_def n demo_frame_def
        demo_packetized encode_chunk_def demo_ser_def Let_def sending_out_def)
  then show ?thesis by (simp add: demo_events_def start turn)
qed

lemma demo_runs:
  "\<exists>s outs. session_run demo_ser demo_events (demo_session role) = Some (s, outs) \<and> Sends [9] \<in> set outs"
  using demo_runs_on by blast

lemma demo_joins: "\<forall>e \<in> set demo_events. xe_joins (fst e)"
  by (simp add: demo_events_def demo_env_def)

lemma demo_taken: "taken demo_events = [(demo_frame, Some MIN_DATAGRAM)]"
  by (simp add: demo_events_def)


theorem session_stays_in_bounds_witness:
  "\<exists>s outs. session_run demo_ser demo_events (demo_session Control) = Some (s, outs) \<and> session_ok s"
  using demo_runs [of Control] session_stays_in_bounds [of demo_ser demo_events] by metis

text \<open>What is sent of a frame under an id: the datagrams of its chunks, each of which carries that
  id, in order, as far as the connection takes them; nothing where it cannot be split or a chunk
  not encoded.\<close>

definition sent_under ::
  "(video_chunk \<Rightarrow> 'e + bytes) \<Rightarrow> u32 \<Rightarrow> encoded_frame \<Rightarrow> nat \<Rightarrow> nat option \<Rightarrow> session_out list" where
  "sent_under ser i frame most left =
     (case (packetize i (ef_keyframe frame) (ef_capture_ts_us frame) (ef_data frame) most
              :: 'e error + video_chunk list) of
        Inl _ \<Rightarrow> []
      | Inr cs \<Rightarrow>
          (case encode_chunks ser cs of
             Inl _ \<Rightarrow> []
           | Inr ds \<Rightarrow> map Sends (case left of None \<Rightarrow> ds | Some n \<Rightarrow> take n ds)))"

lemma send_datagrams_out:
  "send_datagrams left ds st = (st', out, ok) \<Longrightarrow> out = (case left of None \<Rightarrow> ds | Some n \<Rightarrow> take n ds)"
proof (induction ds arbitrary: left st st' out ok)
  case (Cons d ds)
  show ?case
  proof (cases "left = Some 0")
    case False
    then obtain st1 out1 ok1 where rest: "send_datagrams (map_option (\<lambda>n. n - 1) left) ds
        (st\<lparr>vs_bytes := vs_bytes st + of_nat (length d), vs_datagrams := vs_datagrams st + 1\<rparr>) = (st1, out1, ok1)"
      by (metis prod_cases3)
    then have "out = d # out1" using Cons.prems False by (simp add: Let_def)
    then show ?thesis using Cons.IH [OF rest] False by (auto simp: take_Cons' split: option.splits)
  qed (use Cons.prems in \<open>simp add: Let_def\<close>)
qed (simp split: option.splits)

lemma frame_sent_under:
  assumes "session_step ser E (SenderTurn queued (FrameComes frame (Some most) left)) s = Some (s', outs)"
  shows "outs = sent_under ser (next_id s) frame most left"
proof -
  obtain v sent' sd' souts goes where v: "ss_video s = Some v"
    and step: "sender_step ser queued (FrameComes frame (Some most) left) (ss_sent s) (rn_sender v) = Some (sent', sd', souts, goes)"
    and outs: "outs = map sending_out souts"
    using assms by (auto simp: session_step_def sender_turn_def split: option.splits if_splits)
  have n: "next_id s = vs_next_frame_id (sd_stats (rn_sender v))" using v by (simp add: next_id_def)
  have one: "send_frame ser frame (Some most) left (ss_sent s) (rn_sender v) = (sent', sd', souts, goes)"
    using step by (simp add: sender_step_def Let_def split: if_splits)
  have sent: "sending_out \<circ> SendDatagram = Sends" by (simp add: fun_eq_iff sending_out_def)
  show ?thesis unfolding outs sent_under_def n
    using one
    by (auto simp: send_frame_def sent Let_def dest!: send_datagrams_out split: sum.splits prod.splits if_splits)
qed

text \<open>C8. Frame ids never repeat or skip in a session: across every stream in it, started by the
  viewer or started again by itself, what is sent of the n-th frame taken, from 0, are the chunks of
  this frame under the id n, up to the wrap at 32 bits, and the next frame gets the next id; whether
  or not frames before it could be split, encoded and sent, as long as no task of a sender
  panicked.\<close>

theorem frame_ids_run_on:
  assumes "session_run ser es (session_new most adm monitors encoders injector clipboard) = Some (s, outs)"
    and "\<forall>e \<in> set es. xe_joins (fst e)"
    and "session_step ser E (SenderTurn queued (FrameComes frame (Some m) left)) s = Some (s', outs')"
  shows "outs' = sent_under ser (of_nat (length (taken es))) frame m left \<and>
    next_id s' = of_nat (length (taken es)) + 1"
proof -
  have "next_id (session_new most adm monitors encoders injector clipboard) = 0"
    by (simp add: next_id_def session_new_def)
  then have n: "next_id s = of_nat (length (taken es))" using next_id_run [OF assms(1,2) session_new_ok] by simp
  have "next_id s' = next_id s + 1"
    using assms(3) by (auto simp: session_step_def sender_turn_def next_id_def dest!: sender_step_id split: option.splits if_splits)
  then show ?thesis using frame_sent_under [OF assms(3)] n by simp
qed

theorem frame_ids_run_on_witness:
  "\<exists>s outs s' outs'. session_run demo_ser demo_events (demo_session Control) = Some (s, outs) \<and>
     session_step demo_ser demo_env (SenderTurn 0 (FrameComes demo_frame (Some MIN_DATAGRAM) None)) s = Some (s', outs') \<and>
     outs' = sent_under demo_ser 1 demo_frame MIN_DATAGRAM None \<and> next_id s' = 2"
proof -
  obtain s outs where run: "session_run demo_ser demo_events (demo_session Control) = Some (s, outs)"
    and on: "ss_over s = None" "\<exists>v. ss_video s = Some v \<and> \<not> rn_done v"
    using demo_runs_on by blast
  obtain s' outs' where step: "session_step demo_ser demo_env
      (SenderTurn 0 (FrameComes demo_frame (Some MIN_DATAGRAM) None)) s = Some (s', outs')"
  proof -
    obtain v where v: "ss_video s = Some v" "\<not> rn_done v" using on(2) by blast
    obtain a b c d where "send_frame demo_ser demo_frame (Some MIN_DATAGRAM) None (ss_sent s) (rn_sender v) = (a, b, c, d)"
      by (metis prod_cases4)
    then show ?thesis using that on(1) v by (simp add: session_step_def sender_turn_def sender_step_def)
  qed
  show ?thesis using frame_ids_run_on [OF run demo_joins step] run step by (simp add: demo_taken)
qed

text \<open>Both sides of a frame that is sent and taken in: genuine, whatever stands for the ids no frame
  was taken under.\<close>

lemma src_of_genuine:
  assumes "\<And>other. genuine (src_of other frames) f"
  shows "\<exists>frame most. unat (af_frame_id f) < length frames \<and> frames ! unat (af_frame_id f) = (frame, Some most) \<and>
    af_data f = ef_data frame \<and> af_keyframe f = ef_keyframe frame \<and> af_capture_ts_us f = ef_capture_ts_us frame"
proof -
  let ?i = "af_frame_id f"
  have data: "af_data f = sf_data (src_of other frames ?i)" "af_keyframe f = sf_keyframe (src_of other frames ?i)"
    "af_capture_ts_us f = sf_capture_ts_us (src_of other frames ?i)" for other
    using assms [of other] by (simp_all add: genuine_def Let_def)
  have two: "sf_data (src_of [] frames ?i) = sf_data (src_of [0] frames ?i)" using data(1) by metis
  have known: "unat ?i < length frames"
    using two by (cases "unat ?i < length frames") (simp_all add: src_of_def)
  obtain frame most where at_i: "frames ! unat ?i = (frame, most)" by (cases "frames ! unat ?i")
  then obtain m where "most = Some m" using two known by (cases most) (simp_all add: src_of_def)
  then show ?thesis using at_i known data [of "[]"] by (simp add: src_of_def taken_as_def)
qed

text \<open>What a reassembler makes of the datagrams of a session, in any order, any of them more than
  once, at whatever times.\<close>

lemma reassembled_was_captured:
  assumes "session_run ser es (session_new most adm monitors encoders injector clipboard) = Some (s, outs)"
    and "\<forall>e \<in> set es. xe_joins (fst e)" and "length (taken es) \<le> 2 ^ 32" and "reads_back ser de"
    and reach: "video_reach (\<lambda>c. \<exists>d. Sends d \<in> set outs \<and> decode_chunk de d = (Inr c :: 'e error + video_chunk)) popped r"
  shows "decodable (popped @ ready r) \<and>
    (\<forall>f \<in> set (popped @ ready r). \<exists>frame m. unat (af_frame_id f) < length (taken es) \<and>
       taken es ! unat (af_frame_id f) = (frame, Some m) \<and> af_data f = ef_data frame \<and>
       af_keyframe f = ef_keyframe frame \<and> af_capture_ts_us f = ef_capture_ts_us frame)"
proof -
  let ?s0 = "session_new most adm monitors encoders injector clipboard"
  have sent: "all_carry ser (src_of other (taken es)) outs" for other
    by (rule session_run_carries [OF assms(1,2) session_new_ok, where k = 0 and past = "[]"])
      (use assms(3) in \<open>simp_all add: session_new_def sent_new_def holds_sent_def next_id_def\<close>)
  have "sent_chunk (src_of other (taken es)) c" if d: "Sends d \<in> set outs" "decode_chunk de d = (Inr c :: 'e error + video_chunk)"
    for other c d
  proof -
    obtain c' where "ser c' = Inr d" "sent_chunk (src_of other (taken es)) c'"
      using sent [of other] d(1) unfolding all_carry_def carries_def by blast
    moreover from this have "c' = c" using assms(4) d(2) by (auto simp: reads_back_def decode_chunk_def split: sum.splits)
    ultimately show ?thesis by simp
  qed
  then have "video_reach (sent_chunk (src_of other (taken es))) popped r" for other
    by (intro reach_weaken [OF reach]) blast
  then have "genuine (src_of other (taken es)) f" if "f \<in> set (popped @ ready r)" for f other
    using sent.reach_inv that by (fastforce simp: sent_inv_def)
  then have "\<forall>f \<in> set (popped @ ready r). \<exists>frame m. unat (af_frame_id f) < length (taken es) \<and>
       taken es ! unat (af_frame_id f) = (frame, Some m) \<and> af_data f = ef_data frame \<and>
       af_keyframe f = ef_keyframe frame \<and> af_capture_ts_us f = ef_capture_ts_us frame"
    using src_of_genuine by blast
  moreover have "decodable (popped @ ready r)"
    using chain.reach_inv [OF reach_weaken [OF reach, where ok' = "\<lambda>_. True"]] by (simp add: chain_inv_def)
  ultimately show ?thesis by blast
qed

subsection \<open>Watching\<close>

definition watching :: "session \<Rightarrow> bool" where
  "watching s \<longleftrightarrow> ss_target s = None \<and> \<not> ss_clipboard s"

lemma nearly_plain_watches:
  "nearly_plain s (s', outs) \<Longrightarrow> watching s \<Longrightarrow> watching s' \<and> (\<forall>m. Targets m \<notin> set outs)"
  by (auto simp: nearly_plain_def watching_def list_all_iff plain_out_def)

lemma session_step_watches:
  assumes "session_step ser E ev s = Some (s', outs)" and "watching s"
  shows "watching s' \<and> (\<forall>m. Targets m \<notin> set outs)"
proof (cases ev)
  case (Told said)
  then have res: "on_message E said s = (s', outs)" using assms(1) by (simp add: session_step_def split: if_splits)
  show ?thesis
  proof (cases "\<exists>i chunks. said = Message (Nack i chunks)")
    case True
    then show ?thesis using res assms(2) by (auto simp: on_message_def on_nack_def Let_def)
  next
    case False
    then show ?thesis using on_message_plain [of said s E] res nearly_plain_watches assms(2) by auto
  qed
next
  case ReaderGone
  then have "finish E EndedWell s = (s', outs)" using assms(1) by (simp add: session_step_def split: if_splits)
  then have "nearly_plain s (s', outs)" using plain_nearly [OF plain_finish [of s E EndedWell]] by simp
  then show ?thesis using nearly_plain_watches assms(2) by blast
next
  case (SenderTurn queued sev)
  then show ?thesis using assms
    by (auto simp: session_step_def sender_turn_def watching_def sending_out_def
        split: option.splits if_splits sending.splits)
next
  case VideoOver
  then show ?thesis using assms
    by (auto simp: session_step_def on_video_over_def watching_def Let_def split: option.splits if_splits)
next
  case RestartDue
  then show ?thesis using assms start_video_plain
    by (fastforce simp: session_step_def on_restart_due_def watching_def Let_def list_all_iff plain_out_def
        split: option.splits if_splits sum.splits)
qed

lemma session_run_watches:
  "session_run ser es s = Some (s', outs) \<Longrightarrow> watching s \<Longrightarrow> watching s' \<and> (\<forall>m. Targets m \<notin> set outs)"
proof (induction es arbitrary: s outs)
  case (Cons e es)
  obtain s1 outs1 outs2 where step: "session_step ser (fst e) (snd e) s = Some (s1, outs1)"
    and rest: "session_run ser es s1 = Some (s', outs2)" and outs: "outs = outs1 @ outs2"
    using Cons.prems(1) by (auto split: option.splits)
  show ?case using session_step_watches [OF step Cons.prems(2)] Cons.IH [OF rest] by (auto simp: outs)
qed simp

text \<open>C6. Whoever may only watch, only watches: in a session admitted with the role view, whatever
  the viewer sends and whatever monitor it picks, there is no injector to aim at any time, no
  clipboard, and nothing of its input or clipboard streams reaches the machine.\<close>

theorem watchers_only_watch:
  assumes "session_run ser es (session_new most adm monitors encoders injector clipboard) = Some (s, outs)"
    and "ad_role adm = View"
  shows "ss_target s = None \<and> \<not> ss_clipboard s \<and> (\<forall>m. Targets m \<notin> set outs) \<and>
    fst (read_input de (ss_target s \<noteq> None) over stream) = [] \<and>
    fst (read_clipboard dec (ss_clipboard s) over stream) = []"
proof -
  have "watching (session_new most adm monitors encoders injector clipboard)"
    using assms(2) by (auto simp: watching_def session_new_def first_target_def controls_def less_eq_role_def role_le_def
        split: option.splits)
  then show ?thesis
    using session_run_watches [OF assms(1)] by (simp add: watching_def read_input_nothing read_clipboard_nothing)
qed

theorem watchers_only_watch_witness:
  "\<exists>s outs. session_run demo_ser demo_events (demo_session View) = Some (s, outs) \<and> ss_target s = None"
proof -
  obtain s outs where run: "session_run demo_ser demo_events (demo_session View) = Some (s, outs)"
    using demo_runs by blast
  then show ?thesis using watchers_only_watch [OF run, of demo_de_input] by auto
qed

subsection \<open>The viewer's ceiling\<close>

text \<open>The bitrate an agent is configured to use at most only holds until the viewer names
  another: its ceiling takes the place of the agent's.\<close>

lemma viewer_lifts_the_ceiling:
  assumes "rate > 0"
  shows "\<exists>s. session_run ser [(E, Told (Message (SetQuality rate fps)))]
      (session_new configured adm monitors encoders injector clipboard) = Some (s, []) \<and>
    bitrate_kbps (ss_ceiling s) = rate"
  using assms by (simp add: session_step_def on_message_def on_set_quality_def session_new_def)

end
