(* ===== verification/Viewer_Session_Theorems.thy ===== *)
theory Viewer_Session_Theorems
  imports Viewer_Session Session_Theorems "HOL-Library.Sublist"
begin

text \<open>
  What a viewer shows and asks for: its frames are those the reassembler handed on, in that
  order; together with the agent's session, what is shown is what was captured; keyframes are
  asked for when needed, and no more often than they may be.
\<close>

subsection \<open>The loop drives the reassembler\<close>

definition shown :: "view_out list \<Rightarrow> assembled_frame list" where
  "shown outs = concat (map (\<lambda>out. case out of Shows f \<Rightarrow> [f] | _ \<Rightarrow> []) outs)"

lemma shown_simps [simp]:
  "shown [] = []" "shown (Shows f # outs) = f # shown outs" "shown (VTells m # outs) = shown outs"
  "shown (Records b # outs) = shown outs" "shown (VCloses c t # outs) = shown outs"
  "shown (xs @ ys) = shown xs @ shown ys"
  by (simp_all add: shown_def)

text \<open>The session goes on with what was handed on so far; and a branch that hands on more, and
  shows of it all, or the beginning where it breaks the loop.\<close>

definition live :: "(video_chunk \<Rightarrow> bool) \<Rightarrow> assembled_frame list \<Rightarrow> viewing \<Rightarrow> bool" where
  "live ok popped s \<longleftrightarrow> video_reach ok popped (wa_reassembler s) \<and> wa_left s = None"

definition fed :: "(video_chunk \<Rightarrow> bool) \<Rightarrow> assembled_frame list \<Rightarrow> branch \<Rightarrow> bool" where
  "fed ok popped b \<longleftrightarrow>
     (case b of (s, outs, e) \<Rightarrow>
        \<exists>extra. live ok (popped @ extra) s \<and> prefix (shown outs) extra \<and>
          ((\<forall>left. e \<noteq> Breaks left) \<longrightarrow> shown outs = extra))"

lemma fed_quiet: "live ok popped s \<Longrightarrow> shown outs = [] \<Longrightarrow> fed ok popped (s, outs, e)"
  unfolding fed_def prod.case by (rule exI [where x = "[]"]) simp

lemma fed_then:
  assumes "live ok (popped @ extra) s" and "shown outs = extra" and "fed ok (popped @ extra) b"
  shows "fed ok popped (case b of (s', outs', e) \<Rightarrow> (s', outs @ outs', e))"
proof -
  obtain s' outs' e where b: "b = (s', outs', e)" by (cases b)
  then obtain extra' where m: "live ok ((popped @ extra) @ extra') s'" "prefix (shown outs') extra'"
    "(\<forall>left. e \<noteq> Breaks left) \<longrightarrow> shown outs' = extra'" using assms(3) by (auto simp: fed_def)
  show ?thesis unfolding fed_def b prod.case
    by (rule exI [where x = "extra @ extra'"]) (use m assms(2) in simp)
qed

lemma fed_tell:
  assumes "live ok popped s" and "fed ok popped (continue s)"
  shows "fed ok popped (view_tell E m s continue)"
proof (cases "we_delivers E m")
  case True
  then show ?thesis using assms(2) by (auto simp: view_tell_def fed_def split: prod.splits)
next
  case False
  then show ?thesis by (simp add: view_tell_def fed_quiet [OF assms(1)])
qed

lemma fed_tell_all:
  assumes "live ok popped s" and "fed ok popped (continue s)"
  shows "fed ok popped (view_tell_all E ms s continue)"
  by (induction ms) (simp_all add: assms fed_tell)

lemma fed_repairs:
  assumes "live ok popped s" and "\<And>s'. live ok popped s' \<Longrightarrow> fed ok popped (continue s')"
  shows "fed ok popped (ask_for_repairs E s continue)"
proof -
  let ?n = "nacks (we_us E) (repair_timing (we_rtt E)) (wa_reassembler s)"
  have "live ok popped (s\<lparr>wa_reassembler := fst ?n\<rparr>)"
    using assms(1) by (simp add: live_def reach_nacks)
  then show ?thesis using assms(2) by (simp add: ask_for_repairs_def split_def fed_tell_all)
qed

lemma hand_on_reach:
  assumes "hand_on recording writes True takes r st = (r', st', outs, h)" and "video_reach ok popped r"
  shows "\<exists>extra. video_reach ok (popped @ extra) r' \<and> prefix (shown outs) extra \<and> (h = HandedOn \<longrightarrow> shown outs = extra)"
  using assms
proof (induction recording writes True takes r st arbitrary: r' st' outs h popped rule: hand_on.induct)
  case (1 recording writes takes r st)
  show ?case
  proof (cases "pop r")
    case (Pair f r1)
    show ?thesis
    proof (cases f)
      case None
      then have "r1 = r" using Pair by (auto simp: pop_def split: list.splits)
      then have "r' = r" "outs = []" using 1(2) Pair None by (subst (asm) hand_on.simps; simp)+
      then show ?thesis using 1(3) by (intro exI [where x = "[]"]) simp
    next
      case (Some x)
      have reach: "video_reach ok (popped @ [x]) r1" using reach_pop [OF 1(3)] Pair Some by simp
      let ?st = "st\<lparr>st_frames := st_frames st + 1, st_keyframes := st_keyframes st + (if af_keyframe x then 1 else 0)\<rparr>"
      consider (stop) "r' = r1" "shown outs = []" "h \<noteq> HandedOn"
        | (on) outs' where "\<not> (recording \<and> writes = Some 0)" "\<not> (True \<and> takes = Some 0)"
            "hand_on recording (map_option (\<lambda>n. n - 1) writes) True (map_option (\<lambda>n. n - 1) takes) r1 ?st = (r', st', outs', h)"
            "shown outs = x # shown outs'"
        using 1(2) Pair Some
        by (subst (asm) hand_on.simps) (auto simp: Let_def split: if_splits prod.splits)
      then show ?thesis
      proof cases
        case stop
        then show ?thesis using reach by (intro exI [where x = "[x]"]) simp
      next
        case on
        from 1(1) [OF Pair [symmetric] Some refl on(1) refl on(2) on(3) reach]
        obtain extra where "video_reach ok ((popped @ [x]) @ extra) r'" "prefix (shown outs') extra"
          "h = HandedOn \<longrightarrow> shown outs' = extra" by blast
        then show ?thesis using on(4) by (intro exI [where x = "x # extra"]) simp
      qed
    qed
  qed
qed

lemma fed_deliver:
  assumes "live ok popped s" and "we_decoder E"
    and "\<And>s' extra. live ok (popped @ extra) s' \<Longrightarrow> fed ok (popped @ extra) (continue s')"
  shows "fed ok popped (view_deliver E s continue)"
proof -
  obtain r st outs h where hand: "hand_on (we_recording E) (we_writes E) True (we_takes E) (wa_reassembler s) (wa_stats s) =
      (r, st, outs, h)"
    by (cases "hand_on (we_recording E) (we_writes E) True (we_takes E) (wa_reassembler s) (wa_stats s)")
  obtain extra where extra: "video_reach ok (popped @ extra) r" "prefix (shown outs) extra" "h = HandedOn \<longrightarrow> shown outs = extra"
    using hand_on_reach [OF hand] assms(1) by (auto simp: live_def)
  let ?s = "s\<lparr>wa_reassembler := r, wa_stats := st\<rparr>"
  have l: "live ok (popped @ extra) ?s" using extra(1) assms(1) by (simp add: live_def)
  have broken: "fed ok popped (?s, outs, Breaks left)" for left
    unfolding fed_def prod.case by (rule exI [where x = extra]) (use l extra in simp)
  show ?thesis
  proof (cases h)
    case HandedOn
    then have "view_deliver E s continue = (case continue ?s of (s', outs', e) \<Rightarrow> (s', outs @ outs', e))"
      using hand assms(2) by (simp add: view_deliver_def)
    then show ?thesis using fed_then [OF l _ assms(3) [OF l]] extra(3) HandedOn by simp
  qed (use hand assms(2) broken in \<open>simp_all add: view_deliver_def\<close>)
qed

lemma live_loss: "live ok popped s \<Longrightarrow> live ok popped (s\<lparr>wa_loss := l, wa_stats := st\<rparr>)"
  by (simp add: live_def)

lemma fed_datagram:
  fixes de :: "bytes \<Rightarrow> 'e + video_chunk"
  assumes "on_datagram de E d s = Some b" and "live ok popped s" and "we_decoder E"
    and "\<And>c. decode_chunk de d = (Inr c :: 'e error + video_chunk) \<Longrightarrow> ok c"
  shows "fed ok popped b"
proof -
  obtain dropped loss where drop: "drop_this (wa_loss s) = (dropped, loss)" by force
  have quiet: "fed ok popped (s\<lparr>wa_loss := loss, wa_stats := st\<rparr>, [], e)" for st e
    by (rule fed_quiet [OF live_loss [OF assms(2)]]) simp
  show ?thesis
  proof (cases "dropped \<or> (\<exists>x. decode_chunk de d = (Inl x :: 'e error + video_chunk))")
    case True
    then show ?thesis using assms(1) drop quiet by (auto simp: on_datagram_def Let_def split: if_splits)
  next
    case False
    then obtain c where c: "decode_chunk de d = (Inr c :: 'e error + video_chunk)"
      by (cases "decode_chunk de d :: 'e error + video_chunk") auto
    let ?s = "\<lambda>r st. s\<lparr>wa_loss := loss, wa_stats := st, wa_reassembler := r\<rparr>"
    obtain r st where r: "push c (we_us E) (wa_reassembler s) = Some r"
      and b: "b = view_deliver E (?s r st) (\<lambda>s2. ask_for_repairs E s2 (\<lambda>s3. (s3, [], Falls)))"
      using assms(1) drop False c by (auto simp: on_datagram_def Let_def split: option.splits)
    have "live ok popped (?s r st)"
      using assms(2) reach_push [of ok popped, OF _ assms(4) [OF c] r] by (simp add: live_def)
    then show ?thesis unfolding b
      by (rule fed_deliver [OF _ assms(3)]) (rule fed_repairs, assumption, simp add: fed_quiet)
  qed
qed

lemma fed_repair_due:
  assumes "on_repair_due E s = Some b" and "live ok popped s" and "we_decoder E"
  shows "fed ok popped b"
proof -
  obtain s1 outs e where ask: "ask_for_repairs E s (\<lambda>s1. (s1, [], Falls)) = (s1, outs, e)"
    by (cases "ask_for_repairs E s (\<lambda>s1. (s1, [], Falls))")
  have fed1: "fed ok popped (s1, outs, e)"
    unfolding ask [symmetric] by (rule fed_repairs [OF assms(2)]) (simp add: fed_quiet)
  show ?thesis
  proof (cases e)
    case Falls
    then obtain extra where extra: "live ok (popped @ extra) s1" "shown outs = extra" using fed1 by (auto simp: fed_def)
    obtain r where r: "expire (we_us E) (repair_timing (we_rtt_later E)) (wa_reassembler s1) = Some r"
      and b: "b = (case view_deliver E (s1\<lparr>wa_reassembler := r\<rparr>) (\<lambda>s2. (s2, [], Falls)) of
        (s2, outs', e) \<Rightarrow> (s2, outs @ outs', e))"
      using assms(1) ask Falls by (auto simp: on_repair_due_def split: option.splits)
    have "live ok (popped @ extra) (s1\<lparr>wa_reassembler := r\<rparr>)"
      using extra(1) reach_expire [OF _ r] by (simp add: live_def)
    then have "fed ok (popped @ extra) (view_deliver E (s1\<lparr>wa_reassembler := r\<rparr>) (\<lambda>s2. (s2, [], Falls)))"
      by (rule fed_deliver [OF _ assms(3)]) (simp add: fed_quiet)
    then show ?thesis unfolding b using fed_then [OF extra] by blast
  qed (use assms(1) ask fed1 in \<open>simp_all add: on_repair_due_def\<close>)
qed

lemma live_frame:
  "live ok popped s \<Longrightarrow> wa_reassembler s' = wa_reassembler s \<Longrightarrow> wa_left s' = wa_left s \<Longrightarrow> live ok popped s'"
  by (simp add: live_def)

lemma fed_branch:
  fixes de :: "bytes \<Rightarrow> 'e + video_chunk"
  assumes "view_branch de E ev s = Some b" and "live ok popped s" and "we_decoder E"
    and "\<And>d c. ev = Arrives d \<Longrightarrow> decode_chunk de d = (Inr c :: 'e error + video_chunk) \<Longrightarrow> ok c"
  shows "fed ok popped b"
proof (cases ev)
  case (Arrives d)
  then show ?thesis using assms(1) fed_datagram [OF _ assms(2,3) assms(4) [OF Arrives]] by (simp add: view_branch_def)
next
  case RepairDue
  then show ?thesis using assms(1) fed_repair_due [OF _ assms(2,3)] by (simp add: view_branch_def)
next
  case (Hears said)
  then have b: "b = on_control E said s" using assms(1) by (simp add: view_branch_def)
  show ?thesis unfolding b on_control_def
    by (cases said) (auto split: control.splits intro!: fed_quiet live_frame [OF assms(2)])
next
  case Ticks
  then have b: "b = on_tick E s" using assms(1) by (simp add: view_branch_def)
  show ?thesis unfolding b on_tick_def Let_def
    by (auto intro!: fed_quiet fed_tell live_frame [OF assms(2)])
next
  case (Switches monitor)
  then have b: "b = on_switch E monitor s" using assms(1) by (simp add: view_branch_def)
  show ?thesis unfolding b on_switch_def
    by (auto intro!: fed_quiet fed_tell live_frame [OF assms(2)])
qed (use assms(1,2) in \<open>auto simp: view_branch_def intro: fed_quiet\<close>)

lemma fed_keyframe:
  assumes "live ok popped s"
  shows "fed ok popped (ask_keyframe E s)"
proof -
  have "live ok popped (s\<lparr>wa_reassembler := snd (take_keyframe_request (wa_reassembler s)), wa_keyframe_needed := n\<rparr>)" for n
    using assms reach_take by (simp add: live_def)
  then show ?thesis
    by (auto simp: ask_keyframe_def Let_def split_def live_def intro!: fed_quiet fed_tell)
qed

text \<open>The same of a whole step, and of a run.\<close>

definition showing :: "(video_chunk \<Rightarrow> bool) \<Rightarrow> assembled_frame list \<Rightarrow> viewing \<times> view_out list \<Rightarrow> bool" where
  "showing ok popped res \<longleftrightarrow>
     (\<exists>extra. video_reach ok (popped @ extra) (wa_reassembler (fst res)) \<and> prefix (shown (snd res)) extra \<and>
        (wa_left (fst res) = None \<longrightarrow> shown (snd res) = extra))"

lemma shown_goodbye [simp]: "shown (goodbye E left) = []"
  by (auto simp: goodbye_def split: leaving.splits)

lemma showing_ends: "fed ok popped b \<Longrightarrow> showing ok popped (view_ends E b)"
  by (cases b) (auto simp: fed_def showing_def view_ends_def live_def split: branch_end.splits)

lemma showing_step:
  fixes de :: "bytes \<Rightarrow> 'e + video_chunk"
  assumes "view_step de E ev s = Some res" and "live ok popped s" and "we_decoder E"
    and "\<And>d c. ev = Arrives d \<Longrightarrow> decode_chunk de d = (Inr c :: 'e error + video_chunk) \<Longrightarrow> ok c"
  shows "showing ok popped res"
proof -
  obtain s1 outs e where b: "view_branch de E ev s = Some (s1, outs, e)"
    using assms(1) by (auto simp: view_step_def split: option.splits)
  have fed: "fed ok popped (s1, outs, e)" by (rule fed_branch [OF b assms(2,3,4)])
  show ?thesis
  proof (cases e)
    case Falls
    then obtain extra where extra: "live ok (popped @ extra) s1" "shown outs = extra" using fed by (auto simp: fed_def)
    have "showing ok (popped @ extra) (view_ends E (ask_keyframe E s1))"
      by (rule showing_ends [OF fed_keyframe [OF extra(1)]])
    then obtain extra' where "video_reach ok ((popped @ extra) @ extra') (wa_reassembler (fst (view_ends E (ask_keyframe E s1))))"
      "prefix (shown (snd (view_ends E (ask_keyframe E s1)))) extra'"
      "wa_left (fst (view_ends E (ask_keyframe E s1))) = None \<longrightarrow> shown (snd (view_ends E (ask_keyframe E s1))) = extra'"
      by (auto simp: showing_def)
    moreover have "res = (fst (view_ends E (ask_keyframe E s1)), outs @ snd (view_ends E (ask_keyframe E s1)))"
      using assms(1) b Falls by (simp add: view_step_def split_def)
    ultimately show ?thesis unfolding showing_def
      by (intro exI [where x = "extra @ extra'"]) (simp add: extra(2))
  qed (use assms(1) b showing_ends [OF fed, of E] in \<open>simp_all add: view_step_def\<close>)
qed

lemma showing_run:
  fixes de :: "bytes \<Rightarrow> 'e + video_chunk"
  assumes "view_run de es s = Some res" and "video_reach ok popped (wa_reassembler s)"
    and "\<forall>e \<in> set es. we_decoder (fst e)"
    and "\<And>E d c. (E, Arrives d) \<in> set es \<Longrightarrow> decode_chunk de d = (Inr c :: 'e error + video_chunk) \<Longrightarrow> ok c"
  shows "showing ok popped res"
  using assms
proof (induction es arbitrary: s res popped)
  case Nil
  then show ?case by (auto simp: showing_def intro: exI [where x = "[]"])
next
  case (Cons e es)
  obtain s1 outs1 s2 outs2 where on: "view_on (fst e) (snd e) s"
    and step: "view_step de (fst e) (snd e) s = Some (s1, outs1)"
    and rest: "view_run de es s1 = Some (s2, outs2)" and res: "res = (s2, outs1 @ outs2)"
    using Cons.prems(1) by (auto split: option.splits if_splits)
  have "live ok popped s" using Cons.prems(2) on by (simp add: live_def view_on_def)
  moreover have "we_decoder (fst e)" using Cons.prems(3) by simp
  moreover have "ok c" if "snd e = Arrives d" "decode_chunk de d = (Inr c :: 'e error + video_chunk)" for d c
    using Cons.prems(4) [of "fst e" d c] that by (cases e) auto
  ultimately have one: "showing ok popped (s1, outs1)" by (rule showing_step [OF step])
  show ?case
  proof (cases "wa_left s1 = None")
    case True
    then obtain extra where extra: "video_reach ok (popped @ extra) (wa_reassembler s1)" "shown outs1 = extra"
      using one by (auto simp: showing_def)
    have "showing ok (popped @ extra) (s2, outs2)"
      by (rule Cons.IH [OF rest extra(1)]) (use Cons.prems(3,4) in auto)
    then obtain extra' where "video_reach ok ((popped @ extra) @ extra') (wa_reassembler s2)" "prefix (shown outs2) extra'"
      "wa_left s2 = None \<longrightarrow> shown outs2 = extra'" by (auto simp: showing_def)
    then show ?thesis unfolding res showing_def by (intro exI [where x = "extra @ extra'"]) (simp add: extra(2))
  next
    case False
    then have "es = []" using rest by (cases es) (auto simp: view_on_def split: if_splits)
    then show ?thesis using one rest by (simp add: res)
  qed
qed

subsection \<open>Keyframes\<close>

text \<open>A reassembler loses the thread when it starts to wait for a keyframe or drops a frame because
  it does; then it wants a keyframe, until that is noted by \<open>take_keyframe_request\<close>.\<close>

definition loses_thread :: "reassembler \<Rightarrow> reassembler \<Rightarrow> bool" where
  "loses_thread r r' \<longleftrightarrow> (waiting_for_keyframe r' \<and> \<not> waiting_for_keyframe r) \<or>
     dropped_waiting_for_keyframe (stats r') \<noteq> dropped_waiting_for_keyframe (stats r)"

definition wants_on :: "reassembler \<Rightarrow> reassembler \<Rightarrow> bool" where
  "wants_on r r' \<longleftrightarrow> (keyframe_wanted r \<or> loses_thread r r' \<longrightarrow> keyframe_wanted r')"

lemma wants_on_refl [intro, simp]: "wants_on r r"
  by (simp add: wants_on_def loses_thread_def)

lemma wants_on_trans [trans]: "wants_on r r' \<Longrightarrow> wants_on r' r'' \<Longrightarrow> wants_on r r''"
  by (auto simp: wants_on_def loses_thread_def)

lemma wants_on_same:
  "waiting_for_keyframe r' = waiting_for_keyframe r \<Longrightarrow> keyframe_wanted r' = keyframe_wanted r \<Longrightarrow>
   dropped_waiting_for_keyframe (stats r') = dropped_waiting_for_keyframe (stats r) \<Longrightarrow> wants_on r r'"
  by (simp add: wants_on_def loses_thread_def)

lemma wants_on_lost [simp]: "wants_on r (lost r')"
  by (simp add: wants_on_def)

lemma wants_on_deliver: "wants_on r (deliver p r)"
  by (auto simp: wants_on_def loses_thread_def deliver_def Let_def)

lemma dropped_incomplete [simp]:
  "dropped_waiting_for_keyframe (stats (count_incomplete n r)) = dropped_waiting_for_keyframe (stats r)"
  by (simp add: count_incomplete_def)

lemma wants_on_drain_step: "drain_step r = Some r' \<Longrightarrow> wants_on r r'"
proof (erule drain_step_cases)
  fix i assume "r' = deliver (pendings r ! i) (r\<lparr>pendings := swap_remove i (pendings r)\<rparr>)"
  moreover have "wants_on r (r\<lparr>pendings := swap_remove i (pendings r)\<rparr>)" by (rule wants_on_same) simp_all
  ultimately show ?thesis using wants_on_deliver wants_on_trans by blast
qed (auto intro: wants_on_same)

lemma wants_on_drain: "drain r = Some r' \<Longrightarrow> wants_on r r'"
  using drain_rule [of r r' "wants_on r"] wants_on_drain_step wants_on_trans by blast

lemma wants_on_give_up: "give_up_expected r = Some r' \<Longrightarrow> wants_on r r'"
  unfolding give_up_expected_def using wants_on_drain wants_on_trans wants_on_lost by blast

lemma wants_on_expire: "expire now_us t r = Some r' \<Longrightarrow> wants_on r r'"
proof (erule expire_rule [where P = "wants_on r"])
  fix s s' g assume "wants_on r s" "give_up_gap g s = Some s'"
  then show "wants_on r s'"
    unfolding give_up_gap_def using wants_on_drain wants_on_trans wants_on_lost by blast
qed (use wants_on_give_up wants_on_trans in blast)+

lemma wants_on_push_at: "push_at c now_us i r = Some r' \<Longrightarrow> wants_on r r'"
proof -
  assume at: "push_at c now_us i r = Some r'"
  let ?r = "r\<lparr>pendings := (pendings r)[i := store_part c now_us (pendings r ! i)]\<rparr>"
  have "wants_on r ?r" by (rule wants_on_same) simp_all
  then show ?thesis using at wants_on_drain [of ?r r'] wants_on_trans
    by (auto simp: push_at_def Let_def count_invalid_def count_duplicate_def intro: wants_on_same split: if_splits)
qed

lemma loses_thread_wanted [simp]: "loses_thread r (r'\<lparr>keyframe_wanted := w\<rparr>) = loses_thread r r'"
  by (simp add: loses_thread_def)

lemma wants_on_push:
  assumes "push c now_us r = Some r'"
  shows "wants_on r r'"
proof (cases "position (\<lambda>p. p_frame_id p = vc_frame_id c) (pendings r)")
  case (Some i)
  then show ?thesis using assms wants_on_push_at [of c now_us i r r']
    by (auto simp: push_def count_invalid_def count_late_def intro: wants_on_same split: if_splits)
next
  case None
  let ?r1 = "r\<lparr>gap_nacks := filter (\<lambda>(id, _). id \<noteq> vc_frame_id c) (gap_nacks r)\<rparr>"
  have r1: "wants_on r ?r1" by (rule wants_on_same) simp_all
  have begun: "wants_on r r'" if "wants_on ?r1 r2"
    and fresh: "push_at c now_us n (r2\<lparr>pendings := ps\<rparr>) = Some r'" for r2 n ps
  proof -
    have "wants_on r2 (r2\<lparr>pendings := ps\<rparr>)" by (rule wants_on_same) simp_all
    then show ?thesis using r1 that wants_on_push_at [OF fresh] wants_on_trans by blast
  qed
  note now = begun [OF wants_on_refl] and after = begun [OF wants_on_give_up]
  show ?thesis using assms None
    by (auto simp: push_def Let_def bind_eq_Some_conv count_invalid_def count_late_def
        intro: wants_on_same now after split: if_splits)
qed

lemma wants_on_nacks: "wants_on r (fst (nacks now_us t r))"
  by (rule wants_on_same) (simp_all add: nacks_def Let_def split_def)

lemma wants_on_hand_on:
  "hand_on recording writes decoder takes r st = (r', st', outs, h) \<Longrightarrow> wants_on r r'"
proof (induction recording writes decoder takes r st arbitrary: r' st' outs h rule: hand_on.induct)
  case (1 recording writes decoder takes r st)
  obtain f r1 where p: "pop r = (f, r1)" by force
  have popped: "wants_on r r1" using p by (auto simp: pop_def intro: wants_on_same split: list.splits)
  show ?case
  proof (cases "f = None \<or> (recording \<and> writes = Some 0) \<or> (decoder \<and> takes = Some 0)")
    case True
    then show ?thesis using 1(2) p popped
      by (subst (asm) hand_on.simps) (auto simp: Let_def split: option.splits if_splits prod.splits)
  next
    case False
    then obtain x where x: "f = Some x" by auto
    let ?st = "st\<lparr>st_frames := st_frames st + 1, st_keyframes := st_keyframes st + (if af_keyframe x then 1 else 0)\<rparr>"
    obtain a b outs' c where rest: "hand_on recording (map_option (\<lambda>n. n - 1) writes) decoder
        (map_option (\<lambda>n. n - 1) takes) r1 ?st = (a, b, outs', c)" by (metis prod_cases4)
    have "wants_on r1 a"
      by (rule 1(1) [OF p [symmetric] x refl _ refl _ rest]) (use False in auto)
    moreover have "r' = a" using 1(2) p x False rest
      by (subst (asm) hand_on.simps) (auto simp: Let_def split: if_splits)
    ultimately show ?thesis using popped wants_on_trans by blast
  qed
qed

text \<open>What a branch leaves alone: nothing but the rest of the iteration asks for a keyframe, and
  a need for one stays.\<close>

definition calm :: "viewing \<Rightarrow> branch \<Rightarrow> bool" where
  "calm s b \<longleftrightarrow>
     (case b of (s', outs, e) \<Rightarrow>
        wa_last_request s' = wa_last_request s \<and> VTells RequestKeyframe \<notin> set outs \<and>
        (wa_keyframe_needed s \<longrightarrow> wa_keyframe_needed s') \<and> wa_left s' = wa_left s \<and>
        wants_on (wa_reassembler s) (wa_reassembler s'))"

lemma calm_tell: "m \<noteq> RequestKeyframe \<Longrightarrow> calm s (continue s) \<Longrightarrow> calm s (view_tell E m s continue)"
  by (auto simp: calm_def view_tell_def split: prod.splits)

lemma calm_tell_all:
  "RequestKeyframe \<notin> set ms \<Longrightarrow> calm s (continue s) \<Longrightarrow> calm s (view_tell_all E ms s continue)"
  by (induction ms) (auto intro: calm_tell)

definition alike :: "viewing \<Rightarrow> viewing \<Rightarrow> bool" where
  "alike s s' \<longleftrightarrow> wa_last_request s' = wa_last_request s \<and> wa_left s' = wa_left s \<and>
     (wa_keyframe_needed s \<longrightarrow> wa_keyframe_needed s') \<and> wants_on (wa_reassembler s) (wa_reassembler s')"

lemma calm_alike: "alike s s' \<Longrightarrow> calm s' b \<Longrightarrow> calm s b"
  unfolding calm_def alike_def by (auto intro: wants_on_trans)

lemma calm_quiet: "alike s s' \<Longrightarrow> VTells RequestKeyframe \<notin> set outs \<Longrightarrow> calm s (s', outs, e)"
  by (auto simp: calm_def alike_def)

lemma calm_repairs:
  assumes "\<And>s'. alike s s' \<Longrightarrow> calm s' (continue s')"
  shows "calm s (ask_for_repairs E s continue)"
proof -
  let ?n = "nacks (we_us E) (repair_timing (we_rtt E)) (wa_reassembler s)"
  have a: "alike s (s\<lparr>wa_reassembler := fst ?n\<rparr>)" by (simp add: alike_def wants_on_nacks)
  have "calm (s\<lparr>wa_reassembler := fst ?n\<rparr>) (ask_for_repairs E s continue)"
    unfolding ask_for_repairs_def split_def
    by (rule calm_tell_all) (auto intro: assms [OF a])
  then show ?thesis by (rule calm_alike [OF a])
qed

lemma hand_on_quiet:
  "hand_on recording writes decoder takes r st = (r', st', outs, h) \<Longrightarrow> VTells m \<notin> set outs"
proof (induction recording writes decoder takes r st arbitrary: r' st' outs h rule: hand_on.induct)
  case (1 recording writes decoder takes r st)
  show ?case
  proof (cases "pop r")
    case (Pair f r1)
    show ?thesis
    proof (cases f)
      case None
      then show ?thesis using 1(2) Pair by (subst (asm) hand_on.simps) auto
    next
      case (Some x)
      show ?thesis
      proof (cases "(recording \<and> writes = Some 0) \<or> (decoder \<and> takes = Some 0)")
        case True
        then show ?thesis using 1(2) Pair Some
          by (subst (asm) hand_on.simps) (auto simp: Let_def split: if_splits prod.splits)
      next
        case False
        let ?st = "st\<lparr>st_frames := st_frames st + 1, st_keyframes := st_keyframes st + (if af_keyframe x then 1 else 0)\<rparr>"
        obtain a b outs' c where rest: "hand_on recording (map_option (\<lambda>n. n - 1) writes) decoder
            (map_option (\<lambda>n. n - 1) takes) r1 ?st = (a, b, outs', c)"
          by (metis prod_cases4)
        have "VTells m \<notin> set outs'"
          by (rule 1(1) [OF Pair [symmetric] Some refl _ refl _ rest]) (use False in auto)
        then show ?thesis using 1(2) Pair Some False rest
          by (subst (asm) hand_on.simps) (auto simp: Let_def split: if_splits)
      qed
    qed
  qed
qed

lemma calm_deliver:
  assumes "\<And>s'. alike s s' \<Longrightarrow> calm s' (continue s')"
  shows "calm s (view_deliver E s continue)"
proof -
  obtain r st outs h where hand: "hand_on (we_recording E) (we_writes E) (we_decoder E) (we_takes E)
      (wa_reassembler s) (wa_stats s) = (r, st, outs, h)" by (metis prod_cases4)
  let ?s = "s\<lparr>wa_reassembler := r, wa_stats := st\<rparr>"
  have a: "alike s ?s" using wants_on_hand_on [OF hand] by (simp add: alike_def)
  have quiet: "VTells RequestKeyframe \<notin> set outs" using hand_on_quiet [OF hand] .
  have "calm s (continue ?s)" by (rule calm_alike [OF a assms [OF a]])
  then show ?thesis
    using hand quiet calm_quiet [OF a quiet]
    by (cases h) (auto simp: view_deliver_def Let_def calm_def split: prod.splits)
qed

lemma calm_branch:
  assumes "view_branch de E ev s = Some b"
  shows "calm s b"
proof -
  have end_ok: "calm s' (s', [], e)" for s' e by (simp add: calm_def)
  have ask: "calm s' (ask_for_repairs E s' (\<lambda>s3. (s3, [], Falls)))" for s' by (rule calm_repairs) (rule end_ok)
  have deliver: "calm s' (view_deliver E s' (\<lambda>s2. (s2, [], Falls)))" for s' by (rule calm_deliver) (rule end_ok)
  have both: "calm s' (view_deliver E s' (\<lambda>s2. ask_for_repairs E s2 (\<lambda>s3. (s3, [], Falls))))" for s'
    by (rule calm_deliver) (rule ask)
  show ?thesis
  proof (cases ev)
    case (Arrives d)
    obtain dropped loss where drop: "drop_this (wa_loss s) = (dropped, loss)" by force
    have quiet: "calm s (s\<lparr>wa_loss := loss, wa_stats := st\<rparr>, [], e)" for st e by (simp add: calm_def)
    have onward: "calm s (view_deliver E (s\<lparr>wa_loss := loss, wa_stats := st, wa_reassembler := r\<rparr>)
        (\<lambda>s2. ask_for_repairs E s2 (\<lambda>s3. (s3, [], Falls))))" if "push c now_us (wa_reassembler s) = Some r" for c now_us st r
      by (rule calm_alike [OF _ both]) (simp add: alike_def wants_on_push [OF that])
    show ?thesis using assms Arrives drop quiet onward
      by (auto simp: view_branch_def on_datagram_def Let_def split: if_splits sum.splits option.splits)
  next
    case RepairDue
    obtain s1 outs e where first: "ask_for_repairs E s (\<lambda>s1. (s1, [], Falls)) = (s1, outs, e)"
      by (metis prod_cases3)
    have c: "calm s (s1, outs, e)" using ask [of s] first by simp
    show ?thesis
    proof (cases e)
      case Falls
      then obtain r where r: "expire (we_us E) (repair_timing (we_rtt_later E)) (wa_reassembler s1) = Some r"
        and b: "b = (case view_deliver E (s1\<lparr>wa_reassembler := r\<rparr>) (\<lambda>s2. (s2, [], Falls)) of
          (s2, outs', e) \<Rightarrow> (s2, outs @ outs', e))"
        using assms first RepairDue by (auto simp: view_branch_def on_repair_due_def split: option.splits)
      have "calm s1 (view_deliver E (s1\<lparr>wa_reassembler := r\<rparr>) (\<lambda>s2. (s2, [], Falls)))"
        by (rule calm_alike [OF _ deliver]) (simp add: alike_def wants_on_expire [OF r])
      then show ?thesis using c unfolding b by (auto simp: calm_def intro: wants_on_trans split: prod.splits)
    qed (use assms first RepairDue c in \<open>auto simp: view_branch_def on_repair_due_def\<close>)
  next
    case (Hears said)
    then show ?thesis using assms
      by (auto simp: view_branch_def on_control_def calm_def split: said.splits control.splits)
  next
    case Ticks
    have "calm s (on_tick E s)"
      by (cases "we_wanted E") (auto simp: on_tick_def Let_def calm_def view_tell_def)
    then show ?thesis using assms Ticks by (simp add: view_branch_def)
  next
    case (Switches monitor)
    have "calm s (on_switch E monitor s)" by (simp add: on_switch_def calm_def view_tell_def)
    then show ?thesis using assms Switches by (simp add: view_branch_def)
  qed (use assms end_ok in \<open>auto simp: view_branch_def\<close>)
qed

text \<open>When keyframes were asked for in a run: when the loop looked whether it may, and when it
  noted that it had.\<close>

definition asks_keyframe :: "view_out list \<Rightarrow> bool" where
  "asks_keyframe outs \<longleftrightarrow> VTells RequestKeyframe \<in> set outs"

primrec requests ::
  "(bytes \<Rightarrow> 'e + video_chunk) \<Rightarrow> (view_env \<times> view_event) list \<Rightarrow> viewing \<Rightarrow> (nat \<times> nat) list" where
  "requests de [] s = []"
| "requests de (e # es) s =
     (case view_step de (fst e) (snd e) s of
        None \<Rightarrow> []
      | Some (s', outs) \<Rightarrow>
          (if asks_keyframe outs then [(we_checked (fst e), we_noted (fst e))] else []) @ requests de es s')"

definition may_ask :: "view_env \<Rightarrow> viewing \<Rightarrow> bool" where
  "may_ask E s \<longleftrightarrow> (\<forall>t. wa_last_request s = Some t \<longrightarrow> t + KEYFRAME_REQUEST_INTERVAL \<le> we_checked E)"

lemma interval_pos: "0 < KEYFRAME_REQUEST_INTERVAL"
  by (simp add: KEYFRAME_REQUEST_INTERVAL_def MILLI_def)

text \<open>One step: a request is due when it is sent, and noted; none is forgotten; and one that is
  needed and due is sent.\<close>

lemma ask_keyframe_facts:
  assumes "ask_keyframe E s = (s', outs, e)"
  shows "(asks_keyframe outs \<longrightarrow> may_ask E s \<and> wa_last_request s' = Some (we_noted E)) \<and>
    (\<not> asks_keyframe outs \<longrightarrow> wa_last_request s' = wa_last_request s) \<and>
    (wa_keyframe_needed s \<or> keyframe_wanted (wa_reassembler s) \<longrightarrow> (\<forall>left. e \<noteq> Breaks left) \<longrightarrow>
       (if may_ask E s then asks_keyframe outs else wa_keyframe_needed s')) \<and>
    (\<forall>r. loses_thread r (wa_reassembler s') \<longleftrightarrow> loses_thread r (wa_reassembler s))"
proof -
  have due: "may_ask E s \<longleftrightarrow> (case wa_last_request s of None \<Rightarrow> True
      | Some t \<Rightarrow> we_checked E - t \<ge> KEYFRAME_REQUEST_INTERVAL)"
    using interval_pos by (auto simp: may_ask_def split: option.splits)
  show ?thesis
    using assms unfolding due
    by (auto simp: ask_keyframe_def take_keyframe_request_def Let_def view_tell_def asks_keyframe_def
        split: if_splits)
qed

lemma goodbye_quiet: "VTells RequestKeyframe \<notin> set (goodbye E left)"
  by (auto simp: goodbye_def split: leaving.splits)

text \<open>A keyframe is needed as soon as the decoder wants one, or the reassembler lost the thread.\<close>

definition needed :: "viewing \<Rightarrow> bool" where
  "needed s \<longleftrightarrow> wa_keyframe_needed s \<or> keyframe_wanted (wa_reassembler s)"

definition needed_by :: "view_env \<times> view_event \<Rightarrow> viewing \<Rightarrow> viewing \<Rightarrow> bool" where
  "needed_by e s s' \<longleftrightarrow> needed s \<or> (snd e = Ticks \<and> we_wanted (fst e)) \<or>
     loses_thread (wa_reassembler s) (wa_reassembler s')"

lemma view_step_requests:
  assumes "view_step de E ev s = Some (s', outs)"
  shows "(asks_keyframe outs \<longrightarrow> may_ask E s \<and> wa_last_request s' = Some (we_noted E)) \<and>
    (\<not> asks_keyframe outs \<longrightarrow> wa_last_request s' = wa_last_request s) \<and>
    (needed_by (E, ev) s s' \<and> wa_left s' = None \<longrightarrow> asks_keyframe outs \<or> needed s')"
proof -
  obtain s1 outs1 e where b: "view_branch de E ev s = Some (s1, outs1, e)"
    using assms by (auto simp: view_step_def split: option.splits)
  have c: "wa_last_request s1 = wa_last_request s" "\<not> asks_keyframe outs1"
    "wa_keyframe_needed s \<longrightarrow> wa_keyframe_needed s1" "wants_on (wa_reassembler s) (wa_reassembler s1)"
    using calm_branch [OF b] by (auto simp: calm_def asks_keyframe_def)
  have m: "may_ask E s1 \<longleftrightarrow> may_ask E s" using c(1) by (simp add: may_ask_def)
  have tick: "wa_keyframe_needed s1 \<or> (\<exists>left. e = Breaks left)" if "ev = Ticks" "we_wanted E"
    using b that by (auto simp: view_branch_def on_tick_def view_tell_def Let_def split: if_splits)
  have need: "needed s1 \<or> (\<exists>left. e = Breaks left)" if "needed_by (E, ev) s s1"
    using that c tick by (auto simp: needed_by_def needed_def wants_on_def)
  show ?thesis
  proof (cases e)
    case Falls
    obtain s2 outs2 e2 where k: "ask_keyframe E s1 = (s2, outs2, e2)" by (metis prod_cases3)
    have s': "s' = (case e2 of Breaks left \<Rightarrow> s2\<lparr>wa_left := Some left\<rparr> | _ \<Rightarrow> s2)"
      "asks_keyframe outs \<longleftrightarrow> asks_keyframe outs2"
      using assms b Falls k c(2) goodbye_quiet [of E]
      by (auto simp: view_step_def view_ends_def asks_keyframe_def split: branch_end.splits)
    have "wa_reassembler s' = wa_reassembler s2" using s'(1) by (cases e2) simp_all
    then have "needed_by (E, ev) s s' \<longleftrightarrow> needed_by (E, ev) s s1"
      using ask_keyframe_facts [OF k] by (simp add: needed_by_def)
    then show ?thesis
      using ask_keyframe_facts [OF k] c m need s' Falls
      by (cases e2) (auto simp: needed_def split: if_splits)
  next
    case Continues
    then have "s' = s1" "outs = outs1" using assms b by (auto simp: view_step_def view_ends_def)
    then show ?thesis using c need Continues by auto
  qed (use assms b c goodbye_quiet [of E] in \<open>auto simp: view_step_def view_ends_def asks_keyframe_def\<close>)
qed

lemma tick_asks:
  assumes "view_step de E Ticks s = Some (s', outs)" and "wa_left s' = None" and "may_ask E s"
    and "needed s \<or> we_wanted E"
  shows "asks_keyframe outs"
proof -
  obtain s1 outs1 e where b: "on_tick E s = (s1, outs1, e)" by (metis prod_cases3)
  have c: "wa_last_request s1 = wa_last_request s" "wants_on (wa_reassembler s) (wa_reassembler s1)"
    using calm_branch [of de E Ticks s "(s1, outs1, e)"] b by (simp_all add: view_branch_def calm_def)
  have n: "needed s1"
    using b c(2) assms(4) by (cases "we_wanted E")
      (auto simp: on_tick_def Let_def view_tell_def needed_def wants_on_def split: if_splits)
  have e: "e = Falls"
    using assms(1,2) b by (cases e)
      (auto simp: view_step_def view_branch_def view_ends_def on_tick_def Let_def view_tell_def split: if_splits)
  obtain s2 outs2 e2 where k: "ask_keyframe E s1 = (s2, outs2, e2)" by (metis prod_cases3)
  have r: "s' = (case e2 of Breaks left \<Rightarrow> s2\<lparr>wa_left := Some left\<rparr> | _ \<Rightarrow> s2)"
      "set outs2 \<subseteq> set outs"
    using assms(1) b e k by (auto simp: view_step_def view_branch_def view_ends_def split: branch_end.splits)
  then have "\<forall>left. e2 \<noteq> Breaks left" using assms(2) by (cases e2) auto
  then show ?thesis
    using ask_keyframe_facts [OF k] n c r assms(3)
    by (cases e2) (auto simp: may_ask_def asks_keyframe_def needed_def split: if_splits)
qed

definition spaced :: "(nat \<times> nat) list \<Rightarrow> bool" where
  "spaced rs \<longleftrightarrow> successively (\<lambda>a b. snd a + KEYFRAME_REQUEST_INTERVAL \<le> fst b) rs"

lemma requests_spaced:
  assumes "view_run de es s = Some res"
  shows "spaced (requests de es s) \<and>
    (\<forall>t r. wa_last_request s = Some t \<and> requests de es s \<noteq> [] \<longrightarrow>
       t + KEYFRAME_REQUEST_INTERVAL \<le> fst (hd (requests de es s)))"
  using assms
proof (induction es arbitrary: s res)
  case Nil
  then show ?case by (simp add: spaced_def)
next
  case (Cons e es)
  obtain s1 outs1 res2 where step: "view_step de (fst e) (snd e) s = Some (s1, outs1)"
    and rest: "view_run de es s1 = Some res2"
    using Cons.prems by (auto split: option.splits if_splits)
  note one = view_step_requests [OF step]
  show ?case
  proof (cases "asks_keyframe outs1")
    case True
    then show ?thesis
      using one Cons.IH [OF rest] step
      by (cases "requests de es s1") (auto simp: spaced_def may_ask_def)
  next
    case False
    then show ?thesis using one Cons.IH [OF rest] step by simp
  qed
qed

lemma needed_run:
  assumes "view_run de (es @ [(E, Ticks)]) s = Some (s', outs)" and "wa_left s' = None"
    and "needed s" and "may_ask E s"
  shows "requests de (es @ [(E, Ticks)]) s \<noteq> []"
  using assms(1,3,4)
proof (induction es arbitrary: s outs)
  case Nil
  then obtain outs1 where "view_step de E Ticks s = Some (s', outs1)"
    by (auto split: option.splits if_splits)
  then show ?case using tick_asks [of de E s s' outs1] assms(2) Nil by auto
next
  case (Cons e es)
  obtain s1 outs1 outs2 where step: "view_step de (fst e) (snd e) s = Some (s1, outs1)"
    and rest: "view_run de (es @ [(E, Ticks)]) s1 = Some (s', outs2)"
    using Cons.prems(1) by (auto split: option.splits if_splits)
  note one = view_step_requests [OF step]
  show ?case
  proof (cases "asks_keyframe outs1")
    case True
    then show ?thesis using step by simp
  next
    case False
    have live: "wa_left s1 = None" using rest by (cases es) (auto simp: view_on_def split: if_splits)
    then have "needed s1" using one False Cons.prems(2) by (simp add: needed_by_def)
    moreover have "may_ask E s1" using one False Cons.prems(3) by (simp add: may_ask_def)
    ultimately show ?thesis using Cons.IH [OF rest] step by simp
  qed
qed

lemma needed_by_run:
  assumes run: "view_run de (e # es @ [(E, Ticks)]) s = Some (s', outs)" and "wa_left s' = None"
    and step: "view_step de (fst e) (snd e) s = Some (s1, outs1)" and "needed_by e s s1" and "may_ask E s"
  shows "requests de (e # es @ [(E, Ticks)]) s \<noteq> []"
proof (cases "asks_keyframe outs1")
  case True
  then show ?thesis using step by simp
next
  case False
  obtain outs2 where rest: "view_run de (es @ [(E, Ticks)]) s1 = Some (s', outs2)"
    using run step by (auto split: option.splits if_splits)
  have live: "wa_left s1 = None" using rest by (cases es) (auto simp: view_on_def split: if_splits)
  note one = view_step_requests [OF step]
  have "needed s1" using one False live assms(4) by simp
  moreover have "may_ask E s1" using one False assms(5) by (simp add: may_ask_def)
  ultimately show ?thesis using needed_run [OF rest assms(2)] step by simp
qed

subsection \<open>From the screen to the viewer's window\<close>

lemma decodable_prefix: "prefix xs ys \<Longrightarrow> decodable ys \<Longrightarrow> decodable xs"
  by (cases "xs = []") (auto simp: decodable_def successively_append_iff prefix_def)

text \<open>C2. What a viewer shows is what was captured: its session gets some of the datagrams of an
  agent's session, in any order, any of them more than once, at whatever times, the repairs it asks
  for included, and whatever else happens in either. Then every frame it shows is one the agent's
  encoder gave out, byte for byte, with its kind and its capture time, and the frames shown can be
  decoded one after the other. A session takes up to 2^32 frames before ids come again.\<close>

theorem viewer_shows_what_was_captured:
  fixes de :: "bytes \<Rightarrow> 'e + video_chunk"
  assumes "session_run ser es (session_new most adm monitors encoders injector clipboard) = Some (s, outs)"
    and "\<forall>e \<in> set es. xe_joins (fst e)" and "length (taken es) \<le> 2 ^ 32" and "reads_back ser de"
    and "view_run de ves (viewing_new percent seed now monitors' monitor) = Some (v, vouts)"
    and "\<forall>e \<in> set ves. we_decoder (fst e)"
    and "\<forall>E d. (E, Arrives d) \<in> set ves \<longrightarrow> Sends d \<in> set outs"
  shows "decodable (shown vouts) \<and>
    (\<forall>f \<in> set (shown vouts). \<exists>frame m. unat (af_frame_id f) < length (taken es) \<and>
       taken es ! unat (af_frame_id f) = (frame, Some m) \<and> af_data f = ef_data frame \<and>
       af_keyframe f = ef_keyframe frame \<and> af_capture_ts_us f = ef_capture_ts_us frame)"
proof -
  let ?ok = "\<lambda>c. \<exists>d. Sends d \<in> set outs \<and> decode_chunk de d = (Inr c :: 'e error + video_chunk)"
  have "showing ?ok [] (v, vouts)"
    by (rule showing_run [OF assms(5) _ assms(6)]) (use assms(7) in \<open>auto simp: viewing_new_def reach_new\<close>)
  then obtain extra where reach: "video_reach ?ok extra (wa_reassembler v)" and pre: "prefix (shown vouts) extra"
    by (auto simp: showing_def)
  note captured = reassembled_was_captured [OF assms(1-4) reach]
  have "prefix (shown vouts) (extra @ ready (wa_reassembler v))" using pre by (auto elim: prefixE)
  then show ?thesis using captured decodable_prefix set_mono_prefix [OF pre] by fastforce
qed

definition demo_view_env :: view_env where
  "demo_view_env = \<lparr>we_now = 0, we_checked = 0, we_noted = 0, we_us = 9, we_rtt = 0, we_rtt_later = 0,
     we_delivers = (\<lambda>_. True), we_recording = False, we_writes = None, we_decoder = True, we_takes = None,
     we_closed = None, we_broken = [], we_wanted = True, we_time_up = False, we_fps = 60\<rparr>"

lemma tell_all_delivered:
  "we_delivers E = (\<lambda>_. True) \<Longrightarrow> view_tell_all E ms s (\<lambda>s. (s, [], Falls)) = (s, map VTells ms, Falls)"
  by (induction ms) (simp_all add: view_tell_def)

lemma shown_tells [simp]: "shown (map (\<lambda>m. VTells (g m)) ms) = []"
  by (induction ms) simp_all

lemma hand_on_none: "ready r = [] \<Longrightarrow> hand_on recording writes decoder takes r st = (r, st, [], HandedOn)"
  by (subst hand_on.simps) (simp add: pop_def)

lemma hand_on_one:
  assumes "ready r = [f]"
  shows "hand_on False None True None r st =
    (r\<lparr>ready := []\<rparr>, st\<lparr>st_frames := st_frames st + 1, st_keyframes := st_keyframes st + (if af_keyframe f then 1 else 0)\<rparr>,
     [Shows f], HandedOn)"
  using assms by (subst hand_on.simps) (simp add: pop_def Let_def hand_on_none)

lemma demo_shows:
  "\<exists>v vouts. view_run demo_de [(demo_view_env, Arrives [9])] (viewing_new 0 0 0 [demo_monitor] 0) = Some (v, vouts) \<and>
     shown vouts = [sent_as demo_src 0]"
proof -
  obtain r where r: "push (first_chunk demo_src 0) 9 reassembler_new = Some r" "ready r = [sent_as demo_src 0]"
    using demo_pushed by blast
  have de: "decode_chunk demo_de [9] = (Inr (first_chunk demo_src 0) :: unit error + video_chunk)"
    by (simp add: decode_chunk_def demo_de_def)
  let ?s = "viewing_new 0 0 0 [demo_monitor] 0"
  obtain s1 outs1 where b: "on_datagram demo_de demo_view_env [9] ?s = Some (s1, outs1, Falls)"
    "shown outs1 = [sent_as demo_src 0]"
    by (simp add: on_datagram_def viewing_new_def loss_new_def drop_this_def de r(1) view_deliver_def
        hand_on_one [OF r(2)] ask_for_repairs_def split_def tell_all_delivered demo_view_env_def Let_def comp_def)
  have "\<exists>s2 outs2. view_ends demo_view_env (ask_keyframe demo_view_env s1) = (s2, outs2) \<and> shown outs2 = []"
    by (auto simp: ask_keyframe_def take_keyframe_request_def Let_def view_tell_def demo_view_env_def view_ends_def
        split: option.splits)
  then show ?thesis using b by (auto simp: view_step_def view_branch_def view_on_def viewing_new_def)
qed

theorem viewer_shows_what_was_captured_witness:
  "\<exists>s outs v vouts. session_run demo_ser demo_events (demo_session Control) = Some (s, outs) \<and>
     view_run demo_de [(demo_view_env, Arrives [9])] (viewing_new 0 0 0 [demo_monitor] 0) = Some (v, vouts) \<and>
     map af_data (shown vouts) = [[1, 2, 3, 4, 5]] \<and> decodable (shown vouts)"
proof -
  obtain s outs where run: "session_run demo_ser demo_events (demo_session Control) = Some (s, outs)"
    and sends: "Sends [9] \<in> set outs" using demo_runs by blast
  obtain v vouts where view: "view_run demo_de [(demo_view_env, Arrives [9])] (viewing_new 0 0 0 [demo_monitor] 0) = Some (v, vouts)"
    and seen: "shown vouts = [sent_as demo_src 0]" using demo_shows by blast
  have "decodable (shown vouts)"
    using viewer_shows_what_was_captured [OF run demo_joins _ demo_reads_back view] sends
    by (simp add: demo_taken demo_view_env_def)
  then show ?thesis using run view seen by (auto simp: sent_as_def demo_src_def)
qed

text \<open>C4. Keyframes are asked for when needed, and not too often: two requests are at least 250 ms
  apart, from the moment the first was noted to the check before the second; and when one is
  needed after an iteration of the loop \<open>e\<close>, because it was before, or the decoder wanted it, or
  the reassembler started to wait for a keyframe or dropped a frame because it does, then it has
  been asked for, in that iteration or later, once the loop ticks when the last request before
  \<open>e\<close>, if there was one, is 250 ms ago, if the session still goes on.\<close>

theorem keyframes_are_asked_for:
  assumes "view_run de (e # es @ [(E, Ticks)]) s = Some (s', outs)"
  shows "spaced (requests de (e # es @ [(E, Ticks)]) s) \<and>
    (\<forall>s1 outs1. view_step de (fst e) (snd e) s = Some (s1, outs1) \<and> needed_by e s s1 \<and>
       may_ask E s \<and> wa_left s' = None \<longrightarrow>
     requests de (e # es @ [(E, Ticks)]) s \<noteq> [])"
proof (intro conjI allI impI)
  show "spaced (requests de (e # es @ [(E, Ticks)]) s)" using requests_spaced [OF assms] by blast
next
  fix s1 outs1
  assume "view_step de (fst e) (snd e) s = Some (s1, outs1) \<and> needed_by e s s1 \<and> may_ask E s \<and> wa_left s' = None"
  then show "requests de (e # es @ [(E, Ticks)]) s \<noteq> []" using needed_by_run [OF assms] by blast
qed

definition demo_thread_lost :: viewing where
  "demo_thread_lost = (viewing_new 0 0 0 [demo_monitor] 0)\<lparr>wa_reassembler := lost reassembler_new\<rparr>"

theorem keyframes_are_asked_for_witness:
  "\<exists>s' outs. view_run demo_de [(demo_view_env, Hears (Message Bye)), (demo_view_env, Ticks)] demo_thread_lost = Some (s', outs) \<and>
     requests demo_de [(demo_view_env, Hears (Message Bye)), (demo_view_env, Ticks)] demo_thread_lost \<noteq> []"
proof -
  let ?e = "(demo_view_env, Hears (Message Bye))"
  obtain s1 outs1 where step: "view_step demo_de (fst ?e) (snd ?e) demo_thread_lost = Some (s1, outs1)"
    and on: "wa_left s1 = None" "wa_last_request s1 = Some 0"
    by (simp add: demo_thread_lost_def viewing_new_def view_step_def view_branch_def on_control_def view_tell_def
        ask_keyframe_def take_keyframe_request_def view_ends_def demo_view_env_def Let_def)
  have "\<exists>s' outs. view_step demo_de demo_view_env Ticks s1 = Some (s', outs) \<and> wa_left s' = None"
    using on by (simp add: view_step_def view_branch_def on_tick_def view_tell_def ask_keyframe_def
        take_keyframe_request_def view_ends_def demo_view_env_def Let_def split: option.splits)
  then obtain s' outs where run: "view_run demo_de (?e # [] @ [(demo_view_env, Ticks)]) demo_thread_lost = Some (s', outs)"
    and over: "wa_left s' = None"
    using step on by (auto simp: view_on_def demo_thread_lost_def viewing_new_def)
  have "may_ask demo_view_env demo_thread_lost" "needed_by ?e demo_thread_lost s1"
    by (simp_all add: may_ask_def demo_thread_lost_def viewing_new_def needed_by_def needed_def)
  then show ?thesis using keyframes_are_asked_for [OF run] run step over by auto
qed

end
