(* ===== verification/Picture.thy ===== *)
theory Picture
  imports Viewer_Session_Theorems
begin

text \<open>
  The picture arrives: over a link that loses and reorders nothing, but may repeat, what a
  viewer's session shows is every frame the agent's session took, in order, whatever else
  happens in the viewer's loop that does not end the session, and it does not get stuck.
\<close>

subsection \<open>The viewer, chunk by chunk\<close>

text \<open>A moment at which everything works: messages are sent, the decoder takes frames.\<close>

definition attentive :: "view_env \<Rightarrow> bool" where
  "attentive E \<longleftrightarrow> we_delivers E = (\<lambda>_. True) \<and> we_decoder E \<and> we_takes E = None \<and> we_writes E = None"

definition brings :: "(bytes \<Rightarrow> 'e + video_chunk) \<Rightarrow> view_env \<times> view_event \<Rightarrow> video_chunk \<Rightarrow> bool" where
  "brings de e c \<longleftrightarrow> attentive (fst e) \<and>
     (\<exists>d. snd e = Arrives d \<and> decode_chunk de d = (Inr c :: 'e error + video_chunk))"

text \<open>All of the frames before the \<open>k\<close>th are settled, and of it the chunks \<open>S\<close> are here.\<close>

definition at_frame :: "(u32 \<Rightarrow> sent_frame) \<Rightarrow> nat \<Rightarrow> nat set \<Rightarrow> reassembler \<Rightarrow> bool" where
  "at_frame src k S r \<longleftrightarrow>
     ready r = [] \<and> (0 < k \<longrightarrow> last_settled r = Some (of_nat (k - 1))) \<and>
     (\<exists>r0. awaits (of_nat k) (sf_keyframe (src (of_nat k))) r0 \<and> ready r0 = [] \<and>
        ((r = r0 \<and> S = {}) \<or> holding src (of_nat k) S r0 r))"

definition viewing_at :: "(u32 \<Rightarrow> sent_frame) \<Rightarrow> nat \<Rightarrow> nat set \<Rightarrow> viewing \<Rightarrow> bool" where
  "viewing_at src k S s \<longleftrightarrow>
     wa_left s = None \<and> lo_percent (wa_loss s) = 0 \<and> at_frame src k S (wa_reassembler s)"

lemma viewing_new_at: "sf_keyframe (src 0) \<Longrightarrow> viewing_at src 0 {} (viewing_new 0 seed now monitors monitor)"
  unfolding viewing_at_def at_frame_def
  by (intro conjI exI [where x = reassembler_new])
    (simp_all add: viewing_new_def loss_new_def awaits_def reassembler_new_def)

text \<open>A change that leaves all but times and counters alone.\<close>

definition unmoved :: "reassembler \<Rightarrow> reassembler \<Rightarrow> bool" where
  "unmoved r r' \<longleftrightarrow>
     ready r' = [] \<and> last_settled r' = last_settled r \<and> waiting_for_keyframe r' = waiting_for_keyframe r \<and>
     list_all2 (\<lambda>p p'. \<exists>u. p' = p\<lparr>p_nacked_us := u\<rparr>) (pendings r) (pendings r')"

lemma nacked_frame [simp]:
  "wf_pending (p\<lparr>p_nacked_us := u\<rparr>) = wf_pending p" "part_of src (p\<lparr>p_nacked_us := u\<rparr>) = part_of src p"
  by (simp_all add: wf_pending_def part_of_def)

lemma nack_pending_frame:
  "\<exists>u. fst (nack_pending now_us t newest waiting p) = p\<lparr>p_nacked_us := u\<rparr>"
  by (cases p) (auto simp: nack_pending_def Let_def)

lemma same_pendings:
  fixes ps :: "pending list"
  shows "list_all2 (\<lambda>p p'. \<exists>u. p' = p\<lparr>p_nacked_us := u\<rparr>) ps ps"
proof -
  have "\<exists>u. p = p\<lparr>p_nacked_us := u\<rparr>" for p :: pending by (rule exI [where x = "p_nacked_us p"]) simp
  then show ?thesis by (auto simp only: list_all2_same)
qed

lemma unmoved_same:
  "ready r' = [] \<Longrightarrow> last_settled r' = last_settled r \<Longrightarrow> waiting_for_keyframe r' = waiting_for_keyframe r \<Longrightarrow>
   pendings r' = pendings r \<Longrightarrow> unmoved r r'"
  by (simp add: unmoved_def same_pendings)

lemma unmoved_nacks: "ready r = [] \<Longrightarrow> unmoved r (fst (nacks now_us t r))"
  unfolding unmoved_def nacks_def Let_def split_def
  by (simp add: list_all2_map2 list_all2_same nack_pending_frame)

lemma unmoved_trans: "unmoved r r' \<Longrightarrow> unmoved r' r'' \<Longrightarrow> unmoved r r''"
proof -
  assume "unmoved r r'" "unmoved r' r''"
  moreover have "list_all2 (\<lambda>p p'. \<exists>u. p' = p\<lparr>p_nacked_us := u\<rparr>) (pendings r) (pendings r'')"
    by (rule list_all2_trans [OF _ calculation [unfolded unmoved_def, THEN conjunct2, THEN conjunct2, THEN conjunct2]])
      auto
  ultimately show ?thesis by (simp add: unmoved_def)
qed

lemma at_frame_unmoved:
  assumes "at_frame src k S r" and "unmoved r r'"
  shows "at_frame src k S r'"
proof -
  obtain r0 where r0: "awaits (of_nat k) (sf_keyframe (src (of_nat k))) r0" "ready r0 = []"
    and r: "(r = r0 \<and> S = {}) \<or> holding src (of_nat k) S r0 r" and settled: "0 < k \<longrightarrow> last_settled r = Some (of_nat (k - 1))"
    using assms(1) by (auto simp: at_frame_def)
  from r show ?thesis
  proof
    assume first: "r = r0 \<and> S = {}"
    then have "awaits (of_nat k) (sf_keyframe (src (of_nat k))) r'"
      using r0(1) assms(2) by (auto simp: awaits_def unmoved_def)
    then show ?thesis using first settled assms(2) by (auto simp: at_frame_def unmoved_def)
  next
    assume held: "holding src (of_nat k) S r0 r"
    then obtain p where p: "pendings r = [p]" "p_frame_id p = of_nat k" "wf_pending p" "part_of src p"
        "\<forall>i<length (p_parts p). p_parts p ! i = None \<longleftrightarrow> i \<notin> S"
      and same: "last_settled r = last_settled r0" "waiting_for_keyframe r = waiting_for_keyframe r0"
      by (auto simp: holding_def)
    then obtain u where "pendings r' = [p\<lparr>p_nacked_us := u\<rparr>]"
      using assms(2) by (auto simp: unmoved_def list_all2_Cons1)
    then have "holding src (of_nat k) S r0 r'" using p same assms(2) r0(2) by (auto simp: holding_def unmoved_def)
    then show ?thesis using r0 settled assms(2) by (auto simp: at_frame_def unmoved_def)
  qed
qed

lemma settled_at:
  "ready r = [] \<Longrightarrow> pendings r = [] \<Longrightarrow> last_settled r = Some (of_nat k) \<Longrightarrow> \<not> waiting_for_keyframe r \<Longrightarrow>
   at_frame src (Suc k) {} r"
  by (auto simp: at_frame_def awaits_def add.commute)

lemma hand_on_all:
  assumes "we_decoder E" and "we_takes E = None" and "we_writes E = None" and "ready r = [] \<or> ready r = [f]"
  shows "\<exists>st' outs. hand_on (we_recording E) (we_writes E) (we_decoder E) (we_takes E) r st =
    (r\<lparr>ready := []\<rparr>, st', outs, HandedOn) \<and> shown outs = ready r"
proof (cases "ready r = []")
  case True
  then have "r\<lparr>ready := []\<rparr> = r" by simp
  then show ?thesis using True hand_on_none by auto
next
  case False
  then have f: "ready r = [f]" using assms(4) by simp
  show ?thesis
    by (subst hand_on.simps) (auto simp: assms(1-3) f pop_def Let_def hand_on_none)
qed

text \<open>An iteration in which all works, after its branch: what is left may have asked for a keyframe.\<close>

lemma rest_of_step:
  assumes "we_delivers E = (\<lambda>_. True)" and "view_branch de E ev s = Some (s1, outs1, Falls)"
  shows "\<exists>s' outs. view_step de E ev s = Some (s', outs) \<and> shown outs = shown outs1 \<and> wa_left s' = wa_left s1 \<and>
    wa_loss s' = wa_loss s1 \<and> wa_reassembler s' = (wa_reassembler s1)\<lparr>keyframe_wanted := False\<rparr>"
  using assms by (simp add: view_step_def view_ends_def ask_keyframe_def take_keyframe_request_def view_tell_def Let_def)

lemma view_goes_on:
  assumes "viewing_at src k S s" and "shown outs = []" and "wa_left s' = None" and "wa_loss s' = wa_loss s"
    and "unmoved (wa_reassembler s) (wa_reassembler s')"
  shows "shown outs = [] \<and> viewing_at src k S s'"
  using assms at_frame_unmoved by (auto simp: viewing_at_def)

text \<open>The iteration of a datagram, when all works: what is ready is shown, and the rest stays.\<close>

lemma arrival:
  fixes de :: "bytes \<Rightarrow> 'e + video_chunk"
  assumes "brings de e c" and "wa_left s = None" and "lo_percent (wa_loss s) = 0"
    and push: "push c (we_us (fst e)) (wa_reassembler s) = Some r" and "ready r = [] \<or> ready r = [f]"
  shows "\<exists>s' outs. view_on (fst e) (snd e) s \<and> view_step de (fst e) (snd e) s = Some (s', outs) \<and>
    shown outs = ready r \<and> wa_left s' = None \<and> wa_loss s' = wa_loss s \<and> unmoved r (wa_reassembler s')"
proof -
  let ?E = "fst e"
  obtain d where E: "attentive ?E" and d: "snd e = Arrives d"
    and de: "decode_chunk de d = (Inr c :: 'e error + video_chunk)" using assms(1) by (auto simp: brings_def)
  have works: "we_delivers ?E = (\<lambda>_. True)" "we_decoder ?E" "we_takes ?E = None" "we_writes ?E = None"
    using E by (simp_all add: attentive_def)
  let ?st = "(wa_stats s)\<lparr>st_datagrams := st_datagrams (wa_stats s) + 1,
      st_bytes := st_bytes (wa_stats s) + of_nat (length d)\<rparr>"
  obtain st' outs1 where hand: "hand_on (we_recording ?E) (we_writes ?E) (we_decoder ?E) (we_takes ?E) r ?st =
      (r\<lparr>ready := []\<rparr>, st', outs1, HandedOn)" "shown outs1 = ready r"
    using hand_on_all [OF works(2-4) assms(5), of ?st] by blast
  let ?n = "nacks (we_us ?E) (repair_timing (we_rtt ?E)) (r\<lparr>ready := []\<rparr>)"
  let ?tells = "map (\<lambda>m. VTells (Nack (ms_frame_id m) (ms_chunks m))) (snd ?n)"
  have quiet: "drop_this (wa_loss s) = (False, wa_loss s)" using assms(3) by (simp add: drop_this_def)
  have b: "view_branch de ?E (snd e) s = Some (s\<lparr>wa_reassembler := fst ?n, wa_stats := st'\<rparr>, outs1 @ ?tells, Falls)"
    using d de quiet push hand(1) works(1)
    by (simp add: view_branch_def on_datagram_def view_deliver_def ask_for_repairs_def split_def
        tell_all_delivered Let_def comp_def)
  have "unmoved r (r\<lparr>ready := []\<rparr>)" by (rule unmoved_same) simp_all
  then have "unmoved r (fst ?n)" using unmoved_trans unmoved_nacks [of "r\<lparr>ready := []\<rparr>"] by simp
  then have "unmoved r ((fst ?n)\<lparr>keyframe_wanted := False\<rparr>)" by (simp add: unmoved_def)
  then show ?thesis
    using rest_of_step [OF works(1) b] hand(2) d assms(2) by (auto simp: view_on_def)
qed

lemma view_new:
  fixes de :: "bytes \<Rightarrow> 'e + video_chunk"
  assumes at: "viewing_at src k S s" and "brings de e c"
    and c: "sent_chunk src c" "vc_frame_id c = of_nat k" "unat (vc_chunk c) \<notin> S" and n: "n = unat (vc_chunks c)"
  shows "\<exists>s' outs. view_on (fst e) (snd e) s \<and> view_step de (fst e) (snd e) s = Some (s', outs) \<and>
    (if {..<n} \<subseteq> S \<union> {unat (vc_chunk c)}
     then shown outs = [sent_as src (of_nat k)] \<and> viewing_at src (Suc k) {} s'
     else shown outs = [] \<and> viewing_at src k (insert (unat (vc_chunk c)) S) s')"
proof -
  obtain r0 where r0: "awaits (of_nat k) (sf_keyframe (src (of_nat k))) r0" "ready r0 = []"
      "(wa_reassembler s = r0 \<and> S = {}) \<or> holding src (of_nat k) S r0 (wa_reassembler s)"
    and s: "wa_left s = None" "lo_percent (wa_loss s) = 0"
    and settled: "0 < k \<longrightarrow> last_settled (wa_reassembler s) = Some (of_nat (k - 1))"
    using at by (auto simp: viewing_at_def at_frame_def)
  obtain r where r: "push c (we_us (fst e)) (wa_reassembler s) = Some r"
    "if {..<n} \<subseteq> S \<union> {unat (vc_chunk c)}
     then ready r = ready r0 @ [sent_as src (of_nat k)] \<and> pendings r = [] \<and> last_settled r = Some (of_nat k) \<and>
       \<not> waiting_for_keyframe r
     else holding src (of_nat k) (insert (unat (vc_chunk c)) S) r0 r"
    using push_next [OF r0(1) c r0(3) n, of "we_us (fst e)"] by blast
  have "ready r = [] \<or> ready r = [sent_as src (of_nat k)]"
    using r(2) r0(2) by (auto simp: holding_def split: if_splits)
  from arrival [OF assms(2) s r(1) this] obtain s' outs where
    step: "view_on (fst e) (snd e) s" "view_step de (fst e) (snd e) s = Some (s', outs)" "shown outs = ready r"
      "wa_left s' = None" "wa_loss s' = wa_loss s" "unmoved r (wa_reassembler s')" by blast
  show ?thesis
  proof (cases "{..<n} \<subseteq> S \<union> {unat (vc_chunk c)}")
    case True
    then have "at_frame src (Suc k) {} (wa_reassembler s')"
      using step(6) r(2) by (intro settled_at) (auto simp: unmoved_def)
    then show ?thesis using step r(2) r0(2) s True by (simp add: viewing_at_def)
  next
    case False
    then have h: "holding src (of_nat k) (insert (unat (vc_chunk c)) S) r0 r" using r(2) by simp
    moreover have "last_settled r = last_settled (wa_reassembler s)"
      using h r0(3) by (auto simp: holding_def)
    ultimately have "at_frame src k (insert (unat (vc_chunk c)) S) r"
      using r0 settled by (auto simp: at_frame_def holding_def)
    then have "viewing_at src k (insert (unat (vc_chunk c)) S) s'"
      using at_frame_unmoved step(4-6) s by (auto simp: viewing_at_def)
    moreover have "ready r = []" using h r0(2) by (auto simp: holding_def)
    ultimately show ?thesis using step False by auto
  qed
qed

text \<open>A chunk that was here before changes nothing: it is late, or a duplicate.\<close>

lemma earlier_is_late:
  assumes "k' < k" and "k \<le> 2 ^ 31"
  shows "\<not> is_newer (of_nat k') (of_nat (k - 1) :: u32)"
proof (cases "k' = k - 1")
  case False
  let ?j = "k - 1 - k'"
  have j: "0 < ?j" "?j < 2 ^ 31" using assms False by simp_all
  have "k - 1 = k' + ?j" using assms(1) by simp
  then have "(of_nat (k - 1) :: u32) = of_nat k' + of_nat ?j" by (metis of_nat_add)
  then have diff: "(of_nat (k - 1) :: u32) - of_nat k' = of_nat ?j" by simp
  have "?j mod 4294967296 = ?j" using j(2) by simp
  then have u: "unat (of_nat ?j :: u32) = ?j" unfolding unat_of_nat by simp
  have "is_newer (of_nat (k - 1) :: u32) (of_nat k')" unfolding is_newer_iff diff u using j by simp
  then show ?thesis by (rule is_newer_asym)
qed simp

lemma view_repeat:
  fixes de :: "bytes \<Rightarrow> 'e + video_chunk"
  assumes at: "viewing_at src k S s" and "brings de e c" and c: "sent_chunk src c"
    and old: "(\<exists>k'<k. vc_frame_id c = of_nat k') \<or> (vc_frame_id c = of_nat k \<and> unat (vc_chunk c) \<in> S)"
    and "k \<le> 2 ^ 31"
  shows "\<exists>s' outs. view_on (fst e) (snd e) s \<and> view_step de (fst e) (snd e) s = Some (s', outs) \<and>
    shown outs = [] \<and> viewing_at src k S s'"
proof -
  let ?r = "wa_reassembler s"
  have s: "wa_left s = None" "lo_percent (wa_loss s) = 0" and r: "at_frame src k S ?r"
    using at by (simp_all add: viewing_at_def)
  note valid = sent_chunk_valid [OF c]
  have pushed: "push c (we_us (fst e)) ?r = Some (count_late ?r) \<or> push c (we_us (fst e)) ?r = Some (count_duplicate ?r)"
  proof (cases "\<exists>k'<k. vc_frame_id c = of_nat k'")
    case True
    then obtain k' where k': "k' < k" "vc_frame_id c = of_nat k'" by blast
    then have "last_settled ?r = Some (of_nat (k - 1))" using r by (simp add: at_frame_def)
    moreover have "\<not> is_newer (vc_frame_id c) (of_nat (k - 1))" using earlier_is_late [OF k'(1) assms(5)] k'(2) by simp
    ultimately show ?thesis using valid by (auto simp: push_def)
  next
    case False
    then have same: "vc_frame_id c = of_nat k" "unat (vc_chunk c) \<in> S" using old by auto
    then obtain r0 where r0: "awaits (of_nat k) (sf_keyframe (src (of_nat k))) r0" and h: "holding src (of_nat k) S r0 ?r"
      using r by (auto simp: at_frame_def)
    then obtain p where p: "pendings ?r = [p]" "p_frame_id p = of_nat k" "part_of src p"
      "\<forall>i<length (p_parts p). p_parts p ! i = None \<longleftrightarrow> i \<notin> S" by (auto simp: holding_def)
    have "\<not> (case last_settled ?r of None \<Rightarrow> False | Some s \<Rightarrow> \<not> is_newer (vc_frame_id c) s)"
      unfolding same(1) by (rule awaits_not_late [OF r0]) (use h in \<open>simp add: holding_def\<close>)
    then have "push c (we_us (fst e)) ?r = push_at c (we_us (fst e)) 0 ?r"
      using p(1,2) valid same(1) by (auto simp: push_def split: option.splits)
    moreover have "unat (vc_chunks c) = length (p_parts p)" "unat (vc_chunk c) < length (p_parts p)"
      "vc_keyframe c = p_keyframe p"
      using c p same(1) by (auto elim!: sent_chunkD simp: part_of_def Let_def)
    ultimately show ?thesis using p same(2) by (auto simp: push_at_def Let_def)
  qed
  have ready: "ready ?r = []" using r by (simp add: at_frame_def)
  then have "unmoved ?r (count_late ?r)" "unmoved ?r (count_duplicate ?r)"
    by (simp_all add: unmoved_same count_late_def count_duplicate_def)
  then obtain r1 where r1: "push c (we_us (fst e)) ?r = Some r1" "unmoved ?r r1"
    using pushed by blast
  then have "ready r1 = []" by (simp add: unmoved_def)
  from arrival [OF assms(2) s r1(1) disjI1, OF this] \<open>ready r1 = []\<close> obtain s' outs where
    step: "view_on (fst e) (snd e) s" "view_step de (fst e) (snd e) s = Some (s', outs)" "shown outs = []"
      "wa_left s' = None" "wa_loss s' = wa_loss s" "unmoved r1 (wa_reassembler s')" by auto
  then show ?thesis using view_goes_on [OF at step(3-5) unmoved_trans [OF r1(2) step(6)]] by blast
qed

text \<open>Everything else that keeps the session going: messages, ticks, another monitor, and the timer
  for repairs while no frame is overdue.\<close>

definition keeps_going :: "view_event \<Rightarrow> bool" where
  "keeps_going ev \<longleftrightarrow>
     (case ev of Arrives _ \<Rightarrow> True | Hears (Message _) \<Rightarrow> True | RepairDue \<Rightarrow> True | Ticks \<Rightarrow> True | Switches _ \<Rightarrow> True
      | _ \<Rightarrow> False)"

definition in_time :: "view_env \<Rightarrow> reassembler \<Rightarrow> bool" where
  "in_time E r \<longleftrightarrow>
     (\<forall>p \<in> set (pendings r). saturating_sub (we_us E) (p_last_chunk_us p) < give_up_us (repair_timing (we_rtt_later E)))"

lemma expire_in_time:
  assumes "at_frame src k S r"
    and "\<forall>p \<in> set (pendings r). saturating_sub now_us (p_last_chunk_us p) < give_up_us t"
  shows "expire now_us t r = Some r"
proof -
  have "expire_decide now_us t e r = None" if "expected r = Some e" for e
  proof (cases "pendings r")
    case Nil
    then show ?thesis by (simp add: expire_decide_def oldest_pending_def)
  next
    case (Cons p ps)
    then obtain r0 where "awaits (of_nat k) (sf_keyframe (src (of_nat k))) r0" "holding src (of_nat k) S r0 r"
      using assms(1) by (auto simp: at_frame_def awaits_def)
    then have "pendings r = [p]" "p_frame_id p = e"
      using Cons that by (auto simp: holding_def awaits_def expected_def split: option.splits)
    then show ?thesis using assms(2) by (simp add: expire_decide_def)
  qed
  then show ?thesis by (subst expire.simps) (simp split: option.splits)
qed

lemma nacked_member:
  assumes "list_all2 (\<lambda>p p'. \<exists>u. p' = p\<lparr>p_nacked_us := u\<rparr>) ps ps'" and "p' \<in> set ps'"
  shows "\<exists>p \<in> set ps. \<exists>u. p' = p\<lparr>p_nacked_us := u\<rparr>"
  using assms by (induction ps ps' rule: list_all2_induct) auto

lemma view_repair:
  assumes at: "viewing_at src k S s" and "attentive E" and late: "in_time E (wa_reassembler s)"
  shows "\<exists>s1 outs1. on_repair_due E s = Some (s1, outs1, Falls) \<and> shown outs1 = [] \<and> wa_left s1 = None \<and>
    wa_loss s1 = wa_loss s \<and> unmoved (wa_reassembler s) (wa_reassembler s1)"
proof -
  let ?n = "nacks (we_us E) (repair_timing (we_rtt E)) (wa_reassembler s)"
  have works: "we_delivers E = (\<lambda>_. True)" using assms(2) by (simp add: attentive_def)
  have s: "wa_left s = None" and r: "at_frame src k S (wa_reassembler s)" using at by (simp_all add: viewing_at_def)
  have moved: "unmoved (wa_reassembler s) (fst ?n)" using r by (intro unmoved_nacks) (simp add: at_frame_def)
  have same: "list_all2 (\<lambda>p p'. \<exists>u. p' = p\<lparr>p_nacked_us := u\<rparr>) (pendings (wa_reassembler s)) (pendings (fst ?n))"
    using moved by (simp add: unmoved_def)
  have "\<forall>p \<in> set (pendings (fst ?n)). saturating_sub (we_us E) (p_last_chunk_us p) < give_up_us (repair_timing (we_rtt_later E))"
  proof
    fix p' assume "p' \<in> set (pendings (fst ?n))"
    then obtain p u where "p \<in> set (pendings (wa_reassembler s))" "p' = p\<lparr>p_nacked_us := u\<rparr>"
      using nacked_member [OF same] by blast
    then show "saturating_sub (we_us E) (p_last_chunk_us p') < give_up_us (repair_timing (we_rtt_later E))"
      using late by (simp add: in_time_def)
  qed
  note ex = expire_in_time [OF at_frame_unmoved [OF r moved] this]
  have ready: "ready (fst ?n) = []" using moved by (simp add: unmoved_def)
  obtain r1 ms where n: "?n = (r1, ms)" by force
  let ?tells = "map (\<lambda>m. VTells (Nack (ms_frame_id m) (ms_chunks m))) ms"
  have "ask_for_repairs E s (\<lambda>s1. (s1, [], Falls)) = (s\<lparr>wa_reassembler := r1\<rparr>, ?tells, Falls)"
    using n works by (simp add: ask_for_repairs_def tell_all_delivered comp_def)
  moreover have "view_deliver E (s\<lparr>wa_reassembler := r1\<rparr>) (\<lambda>s2. (s2, [], Falls)) =
      (s\<lparr>wa_reassembler := r1\<rparr>, [], Falls)"
    using ready n by (simp add: view_deliver_def hand_on_none)
  ultimately have "on_repair_due E s = Some (s\<lparr>wa_reassembler := r1\<rparr>, ?tells, Falls)"
    using ex n by (simp add: on_repair_due_def)
  then show ?thesis using s moved n by simp
qed

lemma view_idle:
  fixes de :: "bytes \<Rightarrow> 'e + video_chunk"
  assumes at: "viewing_at src k S s" and "attentive E" and "\<not> we_time_up E" and "keeps_going ev" and "\<forall>d. ev \<noteq> Arrives d"
    and repair: "ev = RepairDue \<longrightarrow> view_on E RepairDue s \<and> in_time E (wa_reassembler s)"
  shows "\<exists>s' outs. view_on E ev s \<and> view_step de E ev s = Some (s', outs) \<and> shown outs = [] \<and> viewing_at src k S s'"
proof -
  have works: "we_delivers E = (\<lambda>_. True)" using assms(2) by (simp add: attentive_def)
  have s: "wa_left s = None" and r: "at_frame src k S (wa_reassembler s)" using at by (simp_all add: viewing_at_def)
  have on: "view_on E ev s" using repair s by (auto simp: view_on_def)
  have "\<exists>s1 outs1. view_branch de E ev s = Some (s1, outs1, Falls) \<and> shown outs1 = [] \<and> wa_left s1 = None \<and>
    wa_loss s1 = wa_loss s \<and> unmoved (wa_reassembler s) (wa_reassembler s1)"
  proof (cases ev)
    case (Hears said)
    moreover have "unmoved (wa_reassembler s) (wa_reassembler s)"
      using r by (intro unmoved_same) (simp_all add: at_frame_def)
    ultimately show ?thesis using assms(4) s
      by (auto simp: view_branch_def on_control_def keeps_going_def split: said.splits control.splits)
  next
    case RepairDue
    then show ?thesis using view_repair [OF at assms(2)] repair by (simp add: view_branch_def)
  next
    case Ticks
    have same: "unmoved (wa_reassembler s) (wa_reassembler s)"
      using r by (intro unmoved_same) (simp_all add: at_frame_def)
    show ?thesis using Ticks s works assms(3) same
      by (cases "we_wanted E") (simp_all add: view_branch_def on_tick_def view_tell_def Let_def)
  next
    case (Switches monitor)
    have same: "unmoved (wa_reassembler s) (wa_reassembler s)"
      using r by (intro unmoved_same) (simp_all add: at_frame_def)
    show ?thesis using Switches s works same by (simp add: view_branch_def on_switch_def view_tell_def)
  qed (use assms(4,5) in \<open>simp_all add: keeps_going_def\<close>)
  then obtain s1 outs1 where b: "view_branch de E ev s = Some (s1, outs1, Falls)" and
    s1: "shown outs1 = []" "wa_left s1 = None" "wa_loss s1 = wa_loss s" "unmoved (wa_reassembler s) (wa_reassembler s1)"
    by blast
  obtain s' outs where step: "view_step de E ev s = Some (s', outs)" "shown outs = []" "wa_left s' = None"
    "wa_loss s' = wa_loss s" "wa_reassembler s' = (wa_reassembler s1)\<lparr>keyframe_wanted := False\<rparr>"
    using rest_of_step [OF works b] s1 by auto
  have "unmoved (wa_reassembler s) (wa_reassembler s')" using s1(4) step(5) by (simp add: unmoved_def)
  then show ?thesis using on step view_goes_on [OF at step(2-4)] by blast
qed


text \<open>A stream of frames, each the chunks it was split into.\<close>

definition split_into :: "(u32 \<Rightarrow> sent_frame) \<Rightarrow> u32 \<Rightarrow> video_chunk list \<Rightarrow> bool" where
  "split_into src fid cs \<longleftrightarrow>
     packetize fid (sf_keyframe (src fid)) (sf_capture_ts_us (src fid)) (sf_data (src fid)) (sf_datagram (src fid))
       = (Inr cs :: unit error + video_chunk list)"

lemma split_facts:
  assumes "split_into src fid cs"
  shows "cs \<noteq> []" and "\<forall>j<length cs. sent_chunk src (cs ! j) \<and> vc_frame_id (cs ! j) = fid \<and>
      unat (vc_chunk (cs ! j)) = j \<and> unat (vc_chunks (cs ! j)) = length cs"
proof -
  let ?f = "src fid"
  let ?k = "chunk_count (payload_of ?f) (length (sf_data ?f))"
  let ?c = "chunk_of fid (sf_keyframe ?f) (sf_capture_ts_us ?f) (sf_data ?f) (payload_of ?f)"
  have k: "?k < 65536" and cs: "cs = map ?c [0..<?k]"
    using assms by (auto simp: split_into_def packetize_Inr_iff payload_of_def)
  show "cs \<noteq> []" using chunk_count_pos(1) [of "payload_of ?f" "length (sf_data ?f)"] by (simp add: cs)
  show "\<forall>j<length cs. sent_chunk src (cs ! j) \<and> vc_frame_id (cs ! j) = fid \<and>
      unat (vc_chunk (cs ! j)) = j \<and> unat (vc_chunks (cs ! j)) = length cs"
  proof (intro allI impI)
    fix j assume j: "j < length cs"
    then have "cs ! j = ?c j" using cs by simp
    moreover have "vc_frame_id (?c j) = fid" by (simp add: chunk_of_def)
    moreover have "sent_chunk src (cs ! j)"
      using assms j calculation unfolding sent_chunk_def split_into_def Let_def by (metis nth_mem)
    moreover have "unat (vc_chunk (?c j)) = j" using j k cs by (intro chunk_of_index) simp
    moreover have "unat (vc_chunks (?c j)) = length cs" using k cs by (simp add: chunk_of_def unat_chunk_count)
    ultimately show "sent_chunk src (cs ! j) \<and> vc_frame_id (cs ! j) = fid \<and>
      unat (vc_chunk (cs ! j)) = j \<and> unat (vc_chunks (cs ! j)) = length cs" by simp
  qed
qed

text \<open>The first copies of what comes, in order; \<open>fresh\<close> leaves out what was seen before.\<close>

primrec fresh :: "'a set \<Rightarrow> 'a list \<Rightarrow> 'a list" where
  "fresh seen [] = []"
| "fresh seen (x # xs) = (if x \<in> seen then fresh seen xs else x # fresh (insert x seen) xs)"

definition arrivals :: "(view_env \<times> view_event) list \<Rightarrow> bytes list" where
  "arrivals ves = concat (map (\<lambda>e. case snd e of Arrives d \<Rightarrow> [d] | _ \<Rightarrow> []) ves)"

lemma arrivals_simps [simp]:
  "arrivals [] = []"
  "arrivals (e # es) = (case snd e of Arrives d \<Rightarrow> [d] | _ \<Rightarrow> []) @ arrivals es"
  by (simp_all add: arrivals_def)

text \<open>What is left of a stream of frames from the \<open>i\<close>th chunk of the \<open>k\<close>th on, and what
  has gone before.\<close>

definition left_of :: "video_chunk list list \<Rightarrow> nat \<Rightarrow> nat \<Rightarrow> video_chunk list" where
  "left_of css k i = (if k < length css then drop i (css ! k) @ concat (drop (Suc k) css) else [])"

definition gone_of :: "video_chunk list list \<Rightarrow> nat \<Rightarrow> nat \<Rightarrow> video_chunk set" where
  "gone_of css k i =
     {c. \<exists>k' i'. k' < length css \<and> i' < length (css ! k') \<and> (k' < k \<or> (k' = k \<and> i' < i)) \<and> c = css ! k' ! i'}"

lemma left_of_Cons:
  assumes "k < length css" and "i < length (css ! k)"
  shows "left_of css k i = css ! k ! i #
    (if Suc i < length (css ! k) then left_of css k (Suc i) else left_of css (Suc k) 0)"
proof -
  have "drop i (css ! k) = css ! k ! i # drop (Suc i) (css ! k)" using assms(2) by (rule Cons_nth_drop_Suc [symmetric])
  moreover have "concat (drop (Suc k) css) = left_of css (Suc k) 0"
    by (cases "Suc k < length css") (simp_all add: left_of_def Cons_nth_drop_Suc [symmetric])
  ultimately show ?thesis using assms by (auto simp: left_of_def)
qed

lemma gone_of_next:
  assumes "k < length css" and "i < length (css ! k)"
  shows "insert (css ! k ! i) (gone_of css k i) \<subseteq>
    (if Suc i < length (css ! k) then gone_of css k (Suc i) else gone_of css (Suc k) 0)"
  using assms unfolding gone_of_def by (auto simp: less_Suc_eq)

text \<open>How far a stream of split frames has come: into the frame \<open>k\<close>, or to its end.\<close>

definition come_to :: "video_chunk list list \<Rightarrow> nat \<Rightarrow> nat \<Rightarrow> bool" where
  "come_to css k i \<longleftrightarrow> (if k < length css then i < length (css ! k) else k = length css \<and> i = 0)"

definition brings_chunk :: "(bytes \<Rightarrow> 'e + video_chunk) \<Rightarrow> bytes \<Rightarrow> video_chunk \<Rightarrow> bool" where
  "brings_chunk de d c \<longleftrightarrow> decode_chunk de d = (Inr c :: 'e error + video_chunk)"

text \<open>The events of a session that goes on over a link that works: each moment is attentive, and
  where the timer for repairs runs out it was set and no frame is overdue.\<close>

definition undisturbed_view ::
  "(bytes \<Rightarrow> 'e + video_chunk) \<Rightarrow> (view_env \<times> view_event) list \<Rightarrow> viewing \<Rightarrow> bool" where
  "undisturbed_view de ves v0 \<longleftrightarrow>
     (\<forall>(E, ev) \<in> set ves. attentive E \<and> \<not> we_time_up E \<and> keeps_going ev) \<and>
     (\<forall>xs E ys v outs. ves = xs @ (E, RepairDue) # ys \<and> view_run de xs v0 = Some (v, outs) \<longrightarrow>
        view_on E RepairDue v \<and> in_time E (wa_reassembler v))"

lemma undisturbed_view_Cons:
  assumes "undisturbed_view de (e # es) v0" and "view_on (fst e) (snd e) v0"
    and "view_step de (fst e) (snd e) v0 = Some (v1, outs)"
  shows "undisturbed_view de es v1"
  unfolding undisturbed_view_def
proof (intro conjI allI impI)
  show "\<forall>(E, ev) \<in> set es. attentive E \<and> \<not> we_time_up E \<and> keeps_going ev"
    using assms(1) by (simp add: undisturbed_view_def)
next
  fix xs E ys v outs'
  assume "es = xs @ (E, RepairDue) # ys \<and> view_run de xs v1 = Some (v, outs')"
  then have "e # es = (e # xs) @ (E, RepairDue) # ys" "view_run de (e # xs) v0 = Some (v, outs @ outs')"
    using assms(2,3) by simp_all
  then show "view_on E RepairDue v" "in_time E (wa_reassembler v)"
    using assms(1) unfolding undisturbed_view_def by blast+
qed

lemma view_run_Cons:
  "view_on (fst e) (snd e) s \<Longrightarrow> view_step de (fst e) (snd e) s = Some (s1, outs1) \<Longrightarrow>
   view_run de es s1 = Some (s2, outs2) \<Longrightarrow> view_run de (e # es) s = Some (s2, outs1 @ outs2)"
  by simp

text \<open>One event: the next chunk, one that was here before, or something else.\<close>

lemma view_one:
  fixes de :: "bytes \<Rightarrow> 'e + video_chunk"
  assumes at: "viewing_at src k {..<i} s" "come_to css k i" and und: "undisturbed_view de (e # es) s"
    and css: "\<forall>k<length css. split_into src (of_nat k) (css ! k)" "length css \<le> 2 ^ 31"
    and seen: "\<forall>d \<in> seen. \<exists>c \<in> gone_of css k i. brings_chunk de d c"
    and left: "list_all2 (brings_chunk de) (fresh seen (arrivals (e # es))) (left_of css k i)"
  shows "\<exists>s' outs k' i' seen'. view_on (fst e) (snd e) s \<and> view_step de (fst e) (snd e) s = Some (s', outs) \<and>
    viewing_at src k' {..<i'} s' \<and> come_to css k' i' \<and> k \<le> k' \<and>
    shown outs = map (\<lambda>j. sent_as src (of_nat j)) [k..<k'] \<and>
    (\<forall>d \<in> seen'. \<exists>c \<in> gone_of css k' i'. brings_chunk de d c) \<and>
    list_all2 (brings_chunk de) (fresh seen' (arrivals es)) (left_of css k' i')"
proof -
  obtain E ev where e: "e = (E, ev)" by force
  have calm: "attentive E" "\<not> we_time_up E" "keeps_going ev" using und e by (auto simp: undisturbed_view_def)
  have klen: "k \<le> 2 ^ 31" using at(2) css(2) by (auto simp: come_to_def split: if_splits)
  have brought: "brings de e c" if "ev = Arrives d" "brings_chunk de d c" for d c
    using that calm e by (auto simp: brings_def brings_chunk_def)
  have facts: "sent_chunk src c \<and> vc_frame_id c = of_nat k' \<and> unat (vc_chunk c) = i' \<and> unat (vc_chunks c) = length (css ! k')"
    if "k' < length css" "i' < length (css ! k')" "c = css ! k' ! i'" for c k' i'
    using split_facts(2) css(1) that by blast
  consider (again) d where "ev = Arrives d" "d \<in> seen" | (new) d where "ev = Arrives d" "d \<notin> seen"
    | (other) "\<forall>d. ev \<noteq> Arrives d" by blast
  then show ?thesis
  proof cases
    case again
    then obtain c where c: "c \<in> gone_of css k i" "brings_chunk de d c" using seen by blast
    then obtain k' i' where old: "k' < length css" "i' < length (css ! k')" "k' < k \<or> (k' = k \<and> i' < i)" "c = css ! k' ! i'"
      by (auto simp: gone_of_def)
    have "(\<exists>k'<k. vc_frame_id c = of_nat k') \<or> (vc_frame_id c = of_nat k \<and> unat (vc_chunk c) \<in> {..<i})"
      using facts [OF old(1,2,4)] old(3) by auto
    from view_repeat [OF at(1) brought [OF again(1) c(2)] _ this klen] obtain s' outs where
      "view_on (fst e) (snd e) s" "view_step de (fst e) (snd e) s = Some (s', outs)" "shown outs = []"
      "viewing_at src k {..<i} s'" using facts [OF old(1,2,4)] by blast
    moreover have "fresh seen (arrivals (e # es)) = fresh seen (arrivals es)" using again e by simp
    ultimately show ?thesis using seen left at(2)
      by (intro exI [where x = s'] exI [where x = outs] exI [where x = k] exI [where x = i] exI [where x = seen]) simp
  next
    case new
    then have f: "fresh seen (arrivals (e # es)) = d # fresh (insert d seen) (arrivals es)" using e by simp
    then have "left_of css k i \<noteq> []" using left by auto
    then have k: "k < length css" by (auto simp: left_of_def split: if_splits)
    then have i: "i < length (css ! k)" using at(2) by (simp add: come_to_def)
    let ?c = "css ! k ! i"
    have c: "brings_chunk de d ?c" and rest: "list_all2 (brings_chunk de) (fresh (insert d seen) (arrivals es))
        (if Suc i < length (css ! k) then left_of css k (Suc i) else left_of css (Suc k) 0)"
      using left f left_of_Cons [OF k i] by simp_all
    have fc: "sent_chunk src ?c" "vc_frame_id ?c = of_nat k" "unat (vc_chunk ?c) = i" "unat (vc_chunks ?c) = length (css ! k)"
      using facts [OF k i refl] by simp_all
    have full: "{..<length (css ! k)} \<subseteq> {..<i} \<union> {i} \<longleftrightarrow> \<not> Suc i < length (css ! k)"
    proof -
      have "{..<i} \<union> {i} = {..<Suc i}" by auto
      then show ?thesis using i by (simp only: lessThan_subset_iff) linarith
    qed
    have ins: "insert i {..<i} = {..<Suc i}" by auto
    obtain s' outs where step: "view_on (fst e) (snd e) s" "view_step de (fst e) (snd e) s = Some (s', outs)"
      and res: "if \<not> Suc i < length (css ! k) then shown outs = [sent_as src (of_nat k)] \<and> viewing_at src (Suc k) {} s'
       else shown outs = [] \<and> viewing_at src k {..<Suc i} s'"
      using view_new [OF at(1) brought [OF new(1) c] fc(1,2) _ fc(4) [symmetric]] unfolding fc(3) full ins by auto
    have gone: "\<forall>d' \<in> insert d seen. \<exists>c \<in> (if Suc i < length (css ! k) then gone_of css k (Suc i) else gone_of css (Suc k) 0).
        brings_chunk de d' c"
      using seen c gone_of_next [OF k i] by blast
    show ?thesis
    proof (cases "Suc i < length (css ! k)")
      case True
      then have "come_to css k (Suc i)" using k by (simp add: come_to_def)
      then show ?thesis using step res True gone rest
        by (intro exI [where x = s'] exI [where x = outs] exI [where x = k] exI [where x = "Suc i"] exI [where x = "insert d seen"]) simp
    next
      case False
      have "come_to css (Suc k) 0"
        using k css(1) split_facts(1) by (auto simp: come_to_def)
      then show ?thesis using step res False gone rest
        by (intro exI [where x = s'] exI [where x = outs] exI [where x = "Suc k"] exI [where x = 0] exI [where x = "insert d seen"]) simp
    qed
  next
    case other
    have "ev = RepairDue \<longrightarrow> view_on E RepairDue s \<and> in_time E (wa_reassembler s)"
    proof
      assume "ev = RepairDue"
      then have "e # es = [] @ (E, RepairDue) # es" "view_run de [] s = Some (s, [])" using e by simp_all
      then show "view_on E RepairDue s \<and> in_time E (wa_reassembler s)"
        using und unfolding undisturbed_view_def by blast
    qed
    from view_idle [OF at(1) calm other this] obtain s' outs where
      "view_on E ev s" "view_step de E ev s = Some (s', outs)" "shown outs = []" "viewing_at src k {..<i} s'" by blast
    moreover have "arrivals (e # es) = arrivals es" using other e by (cases ev) simp_all
    ultimately show ?thesis using seen left at(2) e
      by (intro exI [where x = s'] exI [where x = outs] exI [where x = k] exI [where x = i] exI [where x = seen]) simp
  qed
qed

lemma view_stream:
  fixes de :: "bytes \<Rightarrow> 'e + video_chunk"
  assumes "viewing_at src k {..<i} s" and "come_to css k i" and "undisturbed_view de es s"
    and css: "\<forall>k<length css. split_into src (of_nat k) (css ! k)" "length css \<le> 2 ^ 31"
    and "\<forall>d \<in> seen. \<exists>c \<in> gone_of css k i. brings_chunk de d c"
    and "list_all2 (brings_chunk de) (fresh seen (arrivals es)) (left_of css k i)"
  shows "\<exists>s' outs. view_run de es s = Some (s', outs) \<and> wa_left s' = None \<and>
    shown outs = map (\<lambda>j. sent_as src (of_nat j)) [k..<length css]"
  using assms(1-3,6,7)
proof (induction es arbitrary: k i s seen)
  case Nil
  then have "k = length css" by (auto simp: come_to_def left_of_def split: if_splits)
  then show ?case using Nil by (simp add: viewing_at_def)
next
  case (Cons e es)
  obtain s1 outs1 k1 i1 seen1 where step: "view_on (fst e) (snd e) s" "view_step de (fst e) (snd e) s = Some (s1, outs1)"
    and at: "viewing_at src k1 {..<i1} s1" "come_to css k1 i1" "k \<le> k1"
    and sh: "shown outs1 = map (\<lambda>j. sent_as src (of_nat j)) [k..<k1]"
    and seen: "\<forall>d \<in> seen1. \<exists>c \<in> gone_of css k1 i1. brings_chunk de d c"
    and left: "list_all2 (brings_chunk de) (fresh seen1 (arrivals es)) (left_of css k1 i1)"
    using view_one [OF Cons.prems(1,2,3) css Cons.prems(4,5)] by blast
  from Cons.IH [OF at(1,2) undisturbed_view_Cons [OF Cons.prems(3) step] seen left] obtain s2 outs2 where
    rest: "view_run de es s1 = Some (s2, outs2)" "wa_left s2 = None"
      "shown outs2 = map (\<lambda>j. sent_as src (of_nat j)) [k1..<length css]" by blast
  have "k1 \<le> length css" using at(2) by (auto simp: come_to_def split: if_splits)
  then have "[k..<length css] = [k..<k1] @ [k1..<length css]" using at(3) by (metis le_Suc_ex upt_add_eq_append)
  then show ?case using view_run_Cons [OF step rest(1)] rest(2,3) sh by simp
qed


subsection \<open>The agent, frame by frame\<close>

definition sends :: "session_out list \<Rightarrow> bytes list" where
  "sends outs = concat (map (\<lambda>out. case out of Sends d \<Rightarrow> [d] | _ \<Rightarrow> []) outs)"

lemma sends_simps [simp]:
  "sends [] = []" "sends (xs @ ys) = sends xs @ sends ys"
  "sends (out # outs) = (case out of Sends d \<Rightarrow> [d] | _ \<Rightarrow> []) @ sends outs"
  by (simp_all add: sends_def)

lemma sends_none: "\<forall>d. Sends d \<notin> set outs \<Longrightarrow> sends outs = []"
  by (induction outs) (auto split: session_out.splits)

lemma sends_sent: "sends (map sending_out (map SendDatagram ds)) = ds"
  by (induction ds) (simp_all add: sending_out_def)

text \<open>No datagram fails to be sent; and a frame that can be sent as it was taken.\<close>

definition undisturbed :: "session_env \<times> session_event \<Rightarrow> bool" where
  "undisturbed e \<longleftrightarrow> xe_joins (fst e) \<and> (\<forall>b frame most n. snd e \<noteq> SenderTurn b (FrameComes frame most (Some n)))"

definition sendable :: "(video_chunk \<Rightarrow> 'e + bytes) \<Rightarrow> u32 \<Rightarrow> encoded_frame \<times> nat option \<Rightarrow> bool" where
  "sendable ser i entry \<longleftrightarrow>
     (\<exists>frame most cs ds. entry = (frame, Some most) \<and>
        packetize i (ef_keyframe frame) (ef_capture_ts_us frame) (ef_data frame) most
          = (Inr cs :: 'e error + video_chunk list) \<and>
        encode_chunks ser cs = Inr ds)"

lemma encode_chunks_all: "encode_chunks ser cs = Inr ds \<Longrightarrow> list_all2 (\<lambda>d c. ser c = Inr d) ds cs"
  by (induction cs arbitrary: ds) (auto simp: encode_chunk_def split: sum.splits)

lemma packetize_any:
  "packetize i k t data most = (Inr cs :: 'e error + video_chunk list) \<longleftrightarrow>
   packetize i k t data most = (Inr cs :: unit error + video_chunk list)"
  unfolding packetize_Inr_iff ..

lemma send_datagrams_all: "\<exists>st'. send_datagrams None ds st = (st', ds, True)"
proof (induction ds arbitrary: st)
  case (Cons d ds)
  obtain st' where "send_datagrams None ds
      (st\<lparr>vs_bytes := vs_bytes st + of_nat (length d), vs_datagrams := vs_datagrams st + 1\<rparr>) = (st', ds, True)"
    using Cons by blast
  then show ?case by (simp add: Let_def)
qed simp

lemma send_frame_all:
  fixes ser :: "video_chunk \<Rightarrow> 'e + bytes"
  assumes "send_frame ser frame (Some most) None sent sd = (sent', sd', outs, goes)"
    and "packetize (vs_next_frame_id (sd_stats sd)) (ef_keyframe frame) (ef_capture_ts_us frame) (ef_data frame) most
      = (Inr cs :: 'e error + video_chunk list)"
    and "encode_chunks ser cs = Inr ds"
  shows "outs = map SendDatagram ds \<and> sent' = sent_insert (vs_next_frame_id (sd_stats sd)) ds sent"
proof -
  obtain st where "send_datagrams None ds ((sd_stats sd)\<lparr>vs_next_frame_id := vs_next_frame_id (sd_stats sd) + 1\<rparr>) = (st, ds, True)"
    using send_datagrams_all by blast
  then show ?thesis using assms by (simp add: send_frame_def Let_def)
qed

text \<open>What is sent is the next of the stream \<open>new\<close>, or was sent before.\<close>

fun plays :: "'a set \<Rightarrow> 'a list \<Rightarrow> 'a list \<Rightarrow> bool" where
  "plays past new [] \<longleftrightarrow> new = []"
| "plays past new (x # xs) \<longleftrightarrow>
     (x \<in> past \<and> plays past new xs) \<or> (\<exists>new'. new = x # new' \<and> plays (insert x past) new' xs)"

lemma plays_past: "set xs \<subseteq> past \<Longrightarrow> plays past [] xs"
  by (induction xs) simp_all

lemma plays_new: "plays past xs xs"
  by (induction xs arbitrary: past) simp_all

lemma plays_append:
  "plays past new xs \<Longrightarrow> plays (past \<union> set new) new' ys \<Longrightarrow> plays past (new @ new') (xs @ ys)"
proof (induction past new xs rule: plays.induct)
  case (2 past new x xs)
  then show ?case by (auto simp: insert_absorb Un_assoc)
qed simp

lemma plays_fresh:
  "plays past new xs \<Longrightarrow> distinct new \<Longrightarrow> past \<inter> set new = {} \<Longrightarrow> fresh past xs = new"
proof (induction xs arbitrary: past new)
  case (Cons x xs)
  show ?case
  proof (cases "x \<in> past")
    case True
    then have "plays past new xs" using Cons.prems by auto
    then show ?thesis using Cons.IH [of past new] Cons.prems(2,3) True by simp
  next
    case False
    then obtain new' where "new = x # new'" "plays (insert x past) new' xs" using Cons.prems(1) by auto
    then show ?thesis using Cons.IH [of "insert x past" new'] Cons.prems(2,3) False by auto
  qed
qed simp

text \<open>What is kept for repairs was sent before.\<close>

definition keeps_sent :: "bytes set \<Rightarrow> session \<Rightarrow> bool" where
  "keeps_sent past s \<longleftrightarrow> (\<forall>(i, ds) \<in> set (sn_frames (ss_sent s)). set ds \<subseteq> past)"

lemma keeps_sent_same: "ss_sent s' = ss_sent s \<Longrightarrow> keeps_sent past s \<Longrightarrow> keeps_sent past s'"
  by (simp add: keeps_sent_def)

lemma keeps_sent_insert:
  assumes "keeps_sent past s" and "ss_sent s' = sent_insert i ds (ss_sent s)"
  shows "keeps_sent (past \<union> set ds) s'"
  unfolding keeps_sent_def
proof (intro ballI, clarify)
  fix j es d assume "(j, es) \<in> set (sn_frames (ss_sent s'))" and d: "d \<in> set es" "d \<notin> set ds"
  then have "(j, es) = (i, ds) \<or> (j, es) \<in> set (sn_frames (ss_sent s))"
    using sent_insert_members [of i ds "ss_sent s"] assms(2) by auto
  then show "d \<in> past" using assms(1) d by (auto simp: keeps_sent_def)
qed

lemma nack_sends:
  assumes "on_message E (Message (Nack i chunks)) s = (s', outs)" and "keeps_sent past s"
  shows "s' = s \<and> set (sends outs) \<subseteq> past"
proof -
  let ?r = "sent_chunks i chunks (ss_sent s)"
  define ds where "ds = (case xe_accepts E of None \<Rightarrow> ?r | Some n \<Rightarrow> take n ?r)"
  have ds: "outs = map Sends ds" "s' = s"
    using assms(1) unfolding ds_def by (simp_all add: on_message_def on_nack_def Let_def)
  have sub: "set ds \<subseteq> set ?r" by (auto simp: ds_def dest: in_set_takeD split: option.splits)
  have "d \<in> past" if d: "d \<in> set ds" for d
  proof -
    obtain es where "(i, es) \<in> set (sn_frames (ss_sent s))" "d \<in> set es"
      using sent_chunks_members [of d i chunks "ss_sent s"] sub d by blast
    then show ?thesis using assms(2) by (auto simp: keeps_sent_def)
  qed
  moreover have "sends outs = ds" unfolding ds(1) by (induction ds) simp_all
  ultimately show ?thesis using ds(2) by blast
qed

lemma frame_sends:
  fixes ser :: "video_chunk \<Rightarrow> 'e + bytes"
  assumes "session_step ser E (SenderTurn queued (FrameComes frame most None)) s = Some (s', outs)"
    and "sendable ser (next_id s) (frame, most)"
  shows "\<exists>m cs ds. most = Some m \<and> packetize (next_id s) (ef_keyframe frame)
      (ef_capture_ts_us frame) (ef_data frame) m = (Inr cs :: unit error + video_chunk list) \<and>
    list_all2 (\<lambda>d c. ser c = Inr d) ds cs \<and> sends outs = ds \<and> ss_sent s' = sent_insert (next_id s) ds (ss_sent s)"
proof -
  obtain v sent' sd' souts goes where v: "ss_video s = Some v"
    and step: "sender_step ser queued (FrameComes frame most None) (ss_sent s) (rn_sender v) = Some (sent', sd', souts, goes)"
    and s': "ss_sent s' = sent'" and outs: "outs = map sending_out souts"
    using assms(1) by (auto simp: session_step_def sender_turn_def split: option.splits if_splits)
  have n: "next_id s = vs_next_frame_id (sd_stats (rn_sender v))" using v by (simp add: next_id_def)
  obtain m cs ds where m: "most = Some m" and p: "packetize (next_id s) (ef_keyframe frame)
      (ef_capture_ts_us frame) (ef_data frame) m = (Inr cs :: 'e error + video_chunk list)"
    and ds: "encode_chunks ser cs = Inr ds" using assms(2) by (auto simp: sendable_def)
  have one: "send_frame ser frame (Some m) None (ss_sent s) (rn_sender v) = (sent', sd', souts, goes)"
    using step m by (simp add: sender_step_def Let_def split: if_splits)
  have "souts = map SendDatagram ds" "sent' = sent_insert (next_id s) ds (ss_sent s)"
    using send_frame_all [OF one p [unfolded n] ds] n by simp_all
  then show ?thesis
    using m packetize_any [THEN iffD1, OF p] encode_chunks_all [OF ds] sends_sent outs s' by blast
qed

lemma session_step_sends:
  fixes ser :: "video_chunk \<Rightarrow> 'e + bytes"
  assumes "session_step ser E ev s = Some (s', outs)" and "undisturbed (E, ev)" and "src = src_of other frames"
    and keeps: "keeps_sent past s"
    and "\<forall>entry \<in> set (taken_by ev). sendable ser (next_id s) entry \<and> unat (next_id s) < length frames \<and>
      frames ! unat (next_id s) = entry"
  shows "\<exists>css new. length css = length (taken_by ev) \<and> (\<forall>cs \<in> set css. split_into src (next_id s) cs) \<and>
    list_all2 (\<lambda>d c. ser c = Inr d) new (concat css) \<and> plays past new (sends outs) \<and> keeps_sent (past \<union> set new) s'"
proof -
  have quiet: ?thesis if "\<forall>d. Sends d \<notin> set outs" "taken_by ev = []" "ss_sent s' = ss_sent s"
    using that keeps keeps_sent_same [of s' s past] by (simp add: sends_none)
  show ?thesis
  proof (cases ev)
    case (Told said)
    then have told: "on_message E said s = (s', outs)" using assms(1) by (simp add: session_step_def split: if_splits)
    show ?thesis
    proof (cases "\<exists>i chunks. said = Message (Nack i chunks)")
      case True
      then obtain i chunks where nack: "said = Message (Nack i chunks)" by blast
      then have "s' = s" "set (sends outs) \<subseteq> past" using nack_sends told keeps by blast+
      then show ?thesis using Told keeps plays_past by simp
    next
      case False
      then have near: "nearly_plain s (s', outs)" using on_message_plain [of said s E] told by simp
      then have "\<forall>d. Sends d \<notin> set outs" by (auto simp: nearly_plain_def list_all_iff plain_out_def)
      then show ?thesis using quiet Told near by (simp add: nearly_plain_def)
    qed
  next
    case ReaderGone
    then have "finish E EndedWell s = (s', outs)" using assms(1) by (simp add: session_step_def split: if_splits)
    then have p: "plain s (s', outs)" using plain_finish [of s E EndedWell] by simp
    then have "\<forall>d. Sends d \<notin> set outs" by (auto simp: plain_def list_all_iff plain_out_def)
    then show ?thesis using quiet ReaderGone p by (simp add: plain_def)
  next
    case VideoOver
    then have "outs = [StopsVideo]" "ss_sent s' = ss_sent s"
      using assms(1) by (auto simp: session_step_def on_video_over_def Let_def split: option.splits if_splits)
    then show ?thesis using quiet VideoOver by simp
  next
    case RestartDue
    then have "on_restart_due E s = Some (s', outs)" using assms(1) by (simp add: session_step_def split: if_splits)
    then have "list_all plain_out outs" "ss_sent s' = ss_sent s"
      using start_video_plain by (auto simp: on_restart_due_def Let_def split: option.splits if_splits sum.splits)
    then have "\<forall>d. Sends d \<notin> set outs" "ss_sent s' = ss_sent s" by (auto simp: list_all_iff plain_out_def)
    then show ?thesis using quiet RestartDue by simp
  next
    case (SenderTurn queued sev)
    show ?thesis
    proof (cases "\<exists>frame most left. sev = FrameComes frame most left")
      case True
      then obtain frame most where sev: "ev = SenderTurn queued (FrameComes frame most None)"
        using assms(2) SenderTurn by (auto simp: undisturbed_def)
      have entry: "sendable ser (next_id s) (frame, most)" "unat (next_id s) < length frames"
        "frames ! unat (next_id s) = (frame, most)"
        using assms(5) sev by simp_all
      obtain m cs ds where m: "most = Some m" and p: "packetize (next_id s) (ef_keyframe frame)
          (ef_capture_ts_us frame) (ef_data frame) m = (Inr cs :: unit error + video_chunk list)"
        and ds: "list_all2 (\<lambda>d c. ser c = Inr d) ds cs" "sends outs = ds"
        and kept: "ss_sent s' = sent_insert (next_id s) ds (ss_sent s)"
        using frame_sends [OF assms(1) [unfolded sev] entry(1)] by blast
      have "split_into src (next_id s) cs"
        using p entry m by (simp add: split_into_def assms(3) src_of_def taken_as_def)
      then show ?thesis
        using sev ds plays_new [of past ds] keeps_sent_insert [OF keeps kept]
        by (intro exI [where x = "[cs]"] exI [where x = ds]) simp
    next
      case False
      then have none: "taken_by ev = []" using SenderTurn by (cases sev) simp_all
      obtain v sent' sd' souts goes where v: "ss_video s = Some v"
        and step: "sender_step ser queued sev (ss_sent s) (rn_sender v) = Some (sent', sd', souts, goes)"
        and s': "ss_sent s' = sent'" and outs: "outs = map sending_out souts"
        using assms(1) SenderTurn by (auto simp: session_step_def sender_turn_def split: option.splits if_splits)
      have "\<forall>d. SendDatagram d \<notin> set souts" "sent' = ss_sent s"
        using step False by (auto simp: sender_step_def steer_def Let_def
            split: sender_event.splits if_splits prod.splits option.splits)
      then have "\<forall>d. Sends d \<notin> set outs" "ss_sent s' = ss_sent s"
        by (auto simp: outs s' sending_out_def split: sending.splits)
      then show ?thesis using quiet none by simp
    qed
  qed
qed

lemma taken_by_cases: "taken_by ev = [] \<or> (\<exists>entry. taken_by ev = [entry])"
  by (cases ev rule: taken_by.cases) simp_all

lemma session_run_sends:
  fixes ser :: "video_chunk \<Rightarrow> 'e + bytes"
  assumes "session_run ser es s = Some (s', outs)" and "\<forall>e \<in> set es. undisturbed e" and "session_ok s"
    and "next_id s = of_nat k" and "frames = past @ taken es" and "length past = k"
    and "\<forall>j<length (taken es). sendable ser (of_nat (k + j)) (taken es ! j)" and "keeps_sent seen s"
    and "length frames \<le> 2 ^ 32" and "src = src_of other frames"
  shows "\<exists>css new. length css = length (taken es) \<and> (\<forall>j<length css. split_into src (of_nat (k + j)) (css ! j)) \<and>
    list_all2 (\<lambda>d c. ser c = Inr d) new (concat css) \<and> plays seen new (sends outs)"
  using assms(1-8)
proof (induction es arbitrary: s outs k past seen)
  case Nil
  then show ?case by simp
next
  case (Cons e es)
  let ?t = "taken_by (snd e)"
  obtain s1 outs1 outs2 where step: "session_step ser (fst e) (snd e) s = Some (s1, outs1)"
    and rest: "session_run ser es s1 = Some (s', outs2)" and outs: "outs = outs1 @ outs2"
    using Cons.prems(1) by (auto split: option.splits)
  have calm: "undisturbed (fst e, snd e)" using Cons.prems(2) by simp
  have joins: "xe_joins (fst e)" using calm by (simp add: undisturbed_def)
  have ok1: "session_ok s1" using session_step_orderly [OF Cons.prems(3) step] by (simp add: orderly_def)
  have n1: "next_id s1 = of_nat (k + length ?t)" using next_id_step [OF step joins Cons.prems(3)] Cons.prems(4) by simp
  have "\<forall>entry \<in> set ?t. sendable ser (next_id s) entry \<and> unat (next_id s) < length frames \<and>
      frames ! unat (next_id s) = entry"
  proof
    fix entry assume "entry \<in> set ?t"
    then have t: "?t = [entry]" using taken_by_cases [of "snd e"] by auto
    then have frame: "k < length frames" "frames ! k = entry" using Cons.prems(5,6) by (simp_all add: nth_append)
    then have "unat (next_id s) = k" using Cons.prems(4) assms(9) by (simp add: unat_of_nat take_bit_eq_mod)
    then show "sendable ser (next_id s) entry \<and> unat (next_id s) < length frames \<and> frames ! unat (next_id s) = entry"
      using frame Cons.prems(4,7) t by force
  qed
  from session_step_sends [OF step calm assms(10) Cons.prems(8) this] obtain css1 new1 where
    css1: "length css1 = length ?t" "\<forall>cs \<in> set css1. split_into src (next_id s) cs"
      "list_all2 (\<lambda>d c. ser c = Inr d) new1 (concat css1)" "plays seen new1 (sends outs1)"
      "keeps_sent (seen \<union> set new1) s1" by blast
  have later: "\<forall>j<length (taken es). sendable ser (of_nat (k + length ?t + j)) (taken es ! j)"
  proof (intro allI impI)
    fix j assume "j < length (taken es)"
    then show "sendable ser (of_nat (k + length ?t + j)) (taken es ! j)"
      using Cons.prems(7) [rule_format, of "length ?t + j"] by (simp add: nth_append ac_simps)
  qed
  obtain css2 new2 where css2: "length css2 = length (taken es)"
      "\<forall>j<length css2. split_into src (of_nat (k + length ?t + j)) (css2 ! j)"
      "list_all2 (\<lambda>d c. ser c = Inr d) new2 (concat css2)" "plays (seen \<union> set new1) new2 (sends outs2)"
    using Cons.IH [OF rest _ ok1 n1 _ _ later css1(5), of "past @ ?t"] Cons.prems(2,5,6) by auto
  have "split_into src (of_nat (k + j)) ((css1 @ css2) ! j)" if j: "j < length (css1 @ css2)" for j
  proof (cases "j < length css1")
    case True
    then have "j = 0" using css1(1) taken_by_cases [of "snd e"] by auto
    then show ?thesis using True css1(2) Cons.prems(4) by (simp add: nth_append)
  next
    case False
    then obtain i where i: "j = length css1 + i" "i < length css2" using j by (metis length_append not_less le_Suc_ex nat_add_left_cancel_less)
    then show ?thesis using css2(2) css1(1) by (simp add: nth_append ac_simps)
  qed
  then show ?case using css1(1,3) css2(1,3) plays_append [OF css1(4) css2(4)] outs
    by (intro exI [where x = "css1 @ css2"] exI [where x = "new1 @ new2"]) (simp add: list_all2_appendI)
qed


subsection \<open>The picture arrives\<close>

lemma split_distinct:
  assumes "split_into src fid cs"
  shows "distinct cs"
proof -
  have "cs ! i \<noteq> cs ! j" if "i < length cs" "j < length cs" "i \<noteq> j" for i j
    using split_facts(2) [OF assms] that by metis
  then show ?thesis by (simp add: distinct_conv_nth)
qed

lemma stream_distinct:
  assumes "\<forall>j<length css. split_into src (of_nat (k + j)) (css ! j)" and "k + length css \<le> 2 ^ 32"
  shows "distinct (concat css) \<and> (\<forall>c \<in> set (concat css). \<exists>j<length css. vc_frame_id c = of_nat (k + j))"
  using assms
proof (induction css arbitrary: k)
  case (Cons cs css)
  have first: "split_into src (of_nat k) cs" using Cons.prems(1) by force
  have "\<forall>j<length css. split_into src (of_nat (Suc k + j)) (css ! j)"
  proof (intro allI impI)
    fix j assume "j < length css"
    then show "split_into src (of_nat (Suc k + j)) (css ! j)"
      using Cons.prems(1) [rule_format, of "Suc j"] by simp
  qed
  then have rest: "distinct (concat css)" "\<forall>c \<in> set (concat css). \<exists>j<length css. vc_frame_id c = of_nat (Suc k + j)"
    using Cons.IH [of "Suc k"] Cons.prems(2) by simp_all
  have here: "\<forall>c \<in> set cs. vc_frame_id c = of_nat k"
    using split_facts(2) [OF first] by (metis in_set_conv_nth)
  have "(of_nat (Suc k + j) :: u32) \<noteq> of_nat k" if "j < length css" for j
  proof
    assume "(of_nat (Suc k + j) :: u32) = of_nat k"
    then have "unat (of_nat (Suc k + j) :: u32) = unat (of_nat k :: u32)" by (rule arg_cong)
    moreover have small: "unat (of_nat x :: u32) = x" if "x < 2 ^ 32" for x
      using that by (simp add: unat_of_nat take_bit_eq_mod)
    have "unat (of_nat (Suc k + j) :: u32) = Suc k + j" "unat (of_nat k :: u32) = k"
      using that Cons.prems(2) by (intro small; simp)+
    ultimately show False by simp
  qed
  then have "set cs \<inter> set (concat css) = {}" using here rest(2) by fastforce
  moreover have "\<exists>j<length (cs # css). vc_frame_id c = of_nat (k + j)" if "c \<in> set (concat (cs # css))" for c
  proof (cases "c \<in> set cs")
    case True
    then show ?thesis using here by (intro exI [where x = 0]) simp
  next
    case False
    then have "c \<in> set (concat css)" using that by simp
    then obtain j where "j < length css" "vc_frame_id c = of_nat (Suc k + j)" using rest(2) by blast
    then show ?thesis by (intro exI [where x = "Suc j"]) simp
  qed
  ultimately show ?case using split_distinct [OF first] rest(1) by simp
qed simp

lemma brought_distinct:
  assumes "list_all2 (brings_chunk de) new cs" and "distinct cs"
  shows "distinct new"
proof -
  have "new ! i \<noteq> new ! j" if "i < length new" "j < length new" "i \<noteq> j" for i j
  proof
    assume same: "new ! i = new ! j"
    have "brings_chunk de (new ! i) (cs ! i)" "brings_chunk de (new ! j) (cs ! j)"
      using list_all2_nthD [OF assms(1)] that by simp_all
    then have "cs ! i = cs ! j" using same by (simp add: brings_chunk_def)
    then show False using assms that list_all2_lengthD [OF assms(1)] by (simp add: nth_eq_iff_index_eq)
  qed
  then show ?thesis by (simp add: distinct_conv_nth)
qed

text \<open>C3. The picture arrives: the frames an agent's session takes, each of them fit to be sent and
  the first of them a keyframe, no datagram being refused by the connection, over a link that
  loses and reorders nothing but may repeat, so that the first copies of the datagrams sent,
  repairs included, come in their order, are shown by the viewer's session, every one of them,
  whole, once, in order and under its number, across however many streams of video, up to 2^31
  frames; whatever messages come in between, however often the loop ticks, repairs are asked for
  and other monitors switched to, as long as messages can be sent, recording and decoder take
  frames, nothing ends the session and no frame is overdue when the timer for repairs runs out. Of
  the viewer's session this includes that it never gets stuck.\<close>

theorem picture_arrives:
  fixes de :: "bytes \<Rightarrow> 'e + video_chunk"
  assumes "session_run ser es (session_new most adm monitors encoders injector clipboard) = Some (s, outs)"
    and "\<forall>e \<in> set es. undisturbed e" and "length (taken es) \<le> 2 ^ 31"
    and "\<forall>j<length (taken es). sendable ser (of_nat j) (taken es ! j)"
    and "taken es \<noteq> [] \<longrightarrow> ef_keyframe (fst (hd (taken es)))" and "reads_back ser de"
    and "fresh {} (arrivals ves) = fresh {} (sends outs)"
    and "undisturbed_view de ves (viewing_new 0 seed now monitors' monitor)"
  shows "\<exists>v vouts. view_run de ves (viewing_new 0 seed now monitors' monitor) = Some (v, vouts) \<and> wa_left v = None \<and>
    shown vouts = map (\<lambda>j. \<lparr>af_frame_id = of_nat j, af_keyframe = ef_keyframe (fst (taken es ! j)),
      af_capture_ts_us = ef_capture_ts_us (fst (taken es ! j)), af_data = ef_data (fst (taken es ! j))\<rparr>)
      [0..<length (taken es)]"
proof -
  let ?s = "session_new most adm monitors encoders injector clipboard"
  let ?src = "src_of [] (taken es)"
  obtain css new where css: "length css = length (taken es)" "\<forall>j<length css. split_into ?src (of_nat j) (css ! j)"
      "list_all2 (\<lambda>d c. ser c = Inr d) new (concat css)" "plays {} new (sends outs)"
    using session_run_sends [OF assms(1,2) session_new_ok, where k = 0 and past = "[]" and frames = "taken es" and src = ?src
        and other = "[]" and seen = "{}"]
      assms(3,4) by (auto simp: next_id_def session_new_def keeps_sent_def sent_new_def)
  have as: "?src (of_nat j) = taken_as (fst (taken es ! j)) (the (snd (taken es ! j)))" if j: "j < length (taken es)" for j
  proof -
    have "unat (of_nat j :: u32) = j" using j assms(3) by (simp add: unat_of_nat take_bit_eq_mod)
    moreover obtain frame m where "taken es ! j = (frame, Some m)" using assms(4) j by (auto simp: sendable_def)
    ultimately show ?thesis using j by (simp add: src_of_def)
  qed
  have brought: "list_all2 (brings_chunk de) new (concat css)"
    by (rule list_all2_mono [OF css(3)]) (use assms(6) in \<open>simp add: brings_chunk_def reads_back_def decode_chunk_def\<close>)
  have "distinct (concat css)" using stream_distinct [of css ?src 0] css(1,2) assms(3) by simp
  then have "fresh {} (arrivals ves) = new"
    using plays_fresh [OF css(4) brought_distinct [OF brought]] assms(7) by simp
  then have left: "list_all2 (brings_chunk de) (fresh {} (arrivals ves)) (left_of css 0 0)"
    using brought by (cases css) (simp_all add: left_of_def)
  have begins: "come_to css 0 0" using css(2) split_facts(1) by (auto simp: come_to_def)
  have keyed: "sf_keyframe (?src 0)" if "taken es \<noteq> []"
    using as [of 0] that assms(5) by (simp add: taken_as_def hd_conv_nth)
  show ?thesis
  proof (cases "taken es = []")
    case True
    let ?any = "\<lambda>_. \<lparr>sf_keyframe = True, sf_capture_ts_us = 0, sf_data = [], sf_datagram = 0\<rparr>"
    have none: "css = []" using css(1) True by simp
    have "viewing_at ?any 0 {..<0} (viewing_new 0 seed now monitors' monitor)"
      using viewing_new_at [of ?any seed now monitors' monitor] by simp
    from view_stream [OF this begins assms(8) _ _ _ left] none True show ?thesis by simp
  next
    case False
    have at: "viewing_at ?src 0 {..<0} (viewing_new 0 seed now monitors' monitor)"
      using viewing_new_at [where src = ?src, OF keyed [OF False]] by simp
    have len: "length css \<le> 2 ^ 31" using css(1) assms(3) by simp
    from view_stream [OF at begins assms(8) css(2) len _ left] obtain v vouts where
      run: "view_run de ves (viewing_new 0 seed now monitors' monitor) = Some (v, vouts)" "wa_left v = None"
        "shown vouts = map (\<lambda>k. sent_as ?src (of_nat k)) [0..<length css]" by auto
    have "map (\<lambda>k. sent_as ?src (of_nat k)) [0..<length css] =
      map (\<lambda>j. \<lparr>af_frame_id = of_nat j, af_keyframe = ef_keyframe (fst (taken es ! j)),
        af_capture_ts_us = ef_capture_ts_us (fst (taken es ! j)), af_data = ef_data (fst (taken es ! j))\<rparr>) [0..<length (taken es)]"
      unfolding css(1) by (rule map_cong [OF refl]) (simp add: as sent_as_def taken_as_def)
    then show ?thesis using run by simp
  qed
qed

lemma arrivals_append [simp]: "arrivals (xs @ ys) = arrivals xs @ arrivals ys"
  by (simp add: arrivals_def)

lemma arrivals_all [simp]: "arrivals (map (\<lambda>d. (E, Arrives d)) ds) = ds"
  by (induction ds) simp_all

theorem picture_arrives_witness:
  "\<exists>s outs v vouts. session_run demo_ser demo_events (demo_session Control) = Some (s, outs) \<and>
     view_run demo_de ((demo_view_env, Ticks) # map (\<lambda>d. (demo_view_env, Arrives d)) (sends outs @ sends outs))
       (viewing_new 0 0 0 [demo_monitor] 0) = Some (v, vouts) \<and>
     map af_data (shown vouts) = [[1, 2, 3, 4, 5]]"
proof -
  obtain s outs where run: "session_run demo_ser demo_events (demo_session Control) = Some (s, outs)"
    using demo_runs by blast
  let ?ves = "(demo_view_env, Ticks) # map (\<lambda>d. (demo_view_env, Arrives d)) (sends outs @ sends outs)"
  have "sendable demo_ser 0 (demo_frame, Some MIN_DATAGRAM)"
    using demo_packetized by (simp add: sendable_def demo_frame_def encode_chunk_def demo_ser_def)
  then have fit: "\<forall>j<length (taken demo_events). sendable demo_ser (of_nat j) (taken demo_events ! j)"
    by (simp add: demo_taken)
  have seen: "fresh seen (xs @ ys) = fresh seen xs @ fresh (seen \<union> set xs) ys" for seen and xs ys :: "bytes list"
    by (induction xs arbitrary: seen) (simp_all add: insert_absorb)
  have none: "set ys \<subseteq> seen \<Longrightarrow> fresh seen ys = []" for seen and ys :: "bytes list"
    by (induction ys) simp_all
  have arrive: "fresh {} (arrivals ?ves) = fresh {} (sends outs)" by (simp add: seen none)
  have no_repair: "(E, RepairDue) \<notin> set ?ves" for E by auto
  have calm: "undisturbed_view demo_de ?ves (viewing_new 0 0 0 [demo_monitor] 0)"
    unfolding undisturbed_view_def
  proof (intro conjI allI impI)
    show "\<forall>(E, ev) \<in> set ?ves. attentive E \<and> \<not> we_time_up E \<and> keeps_going ev"
      by (auto simp: attentive_def demo_view_env_def keeps_going_def)
  qed (use no_repair in \<open>metis in_set_conv_decomp\<close>)+
  obtain v vouts where "view_run demo_de ?ves (viewing_new 0 0 0 [demo_monitor] 0) = Some (v, vouts)" and
    sh: "shown vouts = map (\<lambda>j. \<lparr>af_frame_id = of_nat j, af_keyframe = ef_keyframe (fst (taken demo_events ! j)),
      af_capture_ts_us = ef_capture_ts_us (fst (taken demo_events ! j)), af_data = ef_data (fst (taken demo_events ! j))\<rparr>)
      [0..<length (taken demo_events)]"
    using picture_arrives [OF run _ _ fit _ demo_reads_back arrive calm]
    by (auto simp: demo_taken demo_frame_def undisturbed_def demo_events_def demo_env_def simp del: view_run.simps)
  moreover have "map af_data (shown vouts) = [[1, 2, 3, 4, 5]]" unfolding sh by (simp add: demo_taken demo_frame_def)
  ultimately show ?thesis using run
    by (intro exI [where x = s] exI [where x = outs] exI [where x = v] exI [where x = vouts] conjI)
qed

end
