(* ===== verification/Audit_Log.thy ===== *)
theory Audit_Log
  imports Accounts
begin

text \<open>
  The audit log of a server (\<open>crates/server/src/audit.rs\<close>): rows that are only added, and read
  newest first, a page at a time. Writing a row may fail, which stops nothing else. Addresses
  are kept rather than their text, and the copy of each row in the service log is left out.
\<close>

subsection \<open>Data\<close>

definition MAX_PAGE :: u32 where "MAX_PAGE = 500"

record audit_event =
  ae_actor :: "str option"
  ae_address :: "ip option"
  ae_action :: str
  ae_target :: "str option"
  ae_detail :: "str option"

record audit_row =
  al_id :: int
  al_at :: int
  al_actor :: "str option"
  al_address :: "ip option"
  al_action :: str
  al_target :: "str option"
  al_detail :: "str option"

text \<open>\<open>IpAddr::to_canonical\<close>: an IPv4 address that was mapped into IPv6, as itself.\<close>

definition to_canonical :: "ip \<Rightarrow> ip" where
  "to_canonical a = (case a of V4 x \<Rightarrow> V4 x | V6 w \<Rightarrow> if drop_bit 32 w = 0xffff then V4 (ucast w) else V6 w)"

definition audit_row_of :: "int \<Rightarrow> int \<Rightarrow> audit_event \<Rightarrow> audit_row" where
  "audit_row_of i now e =
     \<lparr>al_id = i, al_at = now, al_actor = ae_actor e, al_address = map_option to_canonical (ae_address e),
      al_action = ae_action e, al_target = ae_target e, al_detail = ae_detail e\<rparr>"

subsection \<open>Writing and reading\<close>

definition audit_record :: "account_env \<Rightarrow> audit_event \<Rightarrow> audit_row list \<Rightarrow> audit_row list" where
  "audit_record E e rows =
     (if ev_fails E 0 then rows else rows @ [audit_row_of (next_id (map al_id rows)) (ev_clock E 0) e])"

definition page_size :: "u32 \<Rightarrow> nat" where
  "page_size limit = unat (clamp limit 1 MAX_PAGE)"

definition audit_entries :: "account_env \<Rightarrow> int option \<Rightarrow> u32 \<Rightarrow> audit_row list \<Rightarrow> denied + audit_row list" where
  "audit_entries E before limit rows =
     (let bound = (case before of None \<Rightarrow> 2 ^ 63 - 1 | Some b \<Rightarrow> b) in
      if ev_fails E 0 then Inl internal
      else Inr (take (page_size limit) (sort_key (\<lambda>r. - al_id r) (filter (\<lambda>r. al_id r < bound) rows))))"

subsection \<open>A log in order\<close>

text \<open>A new row gets an id above all there are, so ids grow from row to row, also once older rows
  were swept away.\<close>

definition log_ok :: "audit_row list \<Rightarrow> bool" where
  "log_ok rows \<longleftrightarrow> sorted_wrt (<) (map al_id rows)"

lemma log_ok_Nil [simp]: "log_ok []"
  by (simp add: log_ok_def)

lemma log_ok_append: "log_ok (xs @ ys) \<longleftrightarrow> log_ok xs \<and> log_ok ys \<and> (\<forall>x\<in>set xs. \<forall>y\<in>set ys. al_id x < al_id y)"
  by (auto simp: log_ok_def sorted_wrt_append)

lemma log_ok_filter: "log_ok rows \<Longrightarrow> log_ok (filter P rows)"
  unfolding log_ok_def sorted_wrt_map by (rule sorted_wrt_filter)

lemma log_ok_record: "log_ok rows \<Longrightarrow> log_ok (audit_record E e rows)"
proof -
  have "al_id x < next_id (map al_id rows)" if "x \<in> set rows" for x
    using that by (auto simp: next_id_def less_iff_succ_less_eq [symmetric] le_imp_less_Suc)
  then show "log_ok rows \<Longrightarrow> log_ok (audit_record E e rows)"
    by (simp add: audit_record_def log_ok_append) (simp add: log_ok_def audit_row_of_def)
qed

lemma record_grows: "\<exists>more. audit_record E e rows = rows @ more \<and> length more \<le> 1"
  by (simp add: audit_record_def)

subsection \<open>Pages\<close>

lemma newest_first:
  assumes "log_ok rows"
  shows "sort_key (\<lambda>r. - al_id r) rows = rev rows"
proof (rule sort_key_inj_key_eq)
  show "mset rows = mset (rev rows)" by simp
  show "inj_on (\<lambda>r. - al_id r) (set rows)"
    using assms strict_sorted_iff [of "map al_id rows"] by (auto simp: log_ok_def distinct_map inj_on_def)
  have "sorted_wrt (\<lambda>x y. al_id y < al_id x) (rev rows)"
    using assms by (simp add: log_ok_def sorted_wrt_rev sorted_wrt_map)
  then have "sorted_wrt (\<lambda>x y. - al_id x \<le> - al_id y) (rev rows)"
    by (rule sorted_wrt_mono_rel [rotated]) simp
  then show "sorted (map (\<lambda>r. - al_id r) (rev rows))" by (simp add: sorted_wrt_map)
qed

lemma older_rows:
  assumes "log_ok (older @ r # newer)"
  shows "filter (\<lambda>x. al_id x < al_id r) (older @ r # newer) = older"
proof -
  have "filter (\<lambda>x. al_id x < al_id r) older = older" "filter (\<lambda>x. al_id x < al_id r) newer = []"
    using assms log_ok_append [of "older @ [r]" newer]
    by (auto simp: log_ok_append filter_id_conv filter_empty_conv)
  then show ?thesis by simp
qed

lemma entries_before:
  assumes "log_ok (older @ r # newer)" and "\<not> ev_fails E 0"
  shows "audit_entries E (Some (al_id r)) limit (older @ r # newer) = Inr (take (page_size limit) (rev older))"
proof -
  have "log_ok older" using assms(1) by (simp add: log_ok_append)
  then show ?thesis using older_rows [OF assms(1)] newest_first assms(2) by (simp add: audit_entries_def)
qed

lemma entries_newest:
  assumes "log_ok rows" and "\<not> ev_fails E 0" and "\<And>r. r \<in> set rows \<Longrightarrow> al_id r < 2 ^ 63 - 1"
  shows "audit_entries E None limit rows = Inr (take (page_size limit) (rev rows))"
proof -
  have "filter (\<lambda>r. al_id r < 2 ^ 63 - 1) rows = rows" using assms(3) by (simp add: filter_id_conv)
  then show ?thesis using newest_first [OF assms(1)] assms(2) by (simp add: audit_entries_def)
qed

text \<open>A client that reads page after page, each from the last id of the one before. The log is
  given as it is at each of the readings.\<close>

fun read_pages :: "account_env \<Rightarrow> u32 \<Rightarrow> nat \<Rightarrow> int option \<Rightarrow> (nat \<Rightarrow> audit_row list) \<Rightarrow> audit_row list list" where
  "read_pages E limit 0 before logs = []"
| "read_pages E limit (Suc n) before logs =
     (case audit_entries E before limit (logs 0) of
        Inl _ \<Rightarrow> []
      | Inr [] \<Rightarrow> []
      | Inr page \<Rightarrow> page # read_pages E limit n (Some (al_id (last page))) (\<lambda>k. logs (Suc k)))"

lemma page_size_pos: "0 < page_size limit"
  by (auto simp: page_size_def clamp_def MAX_PAGE_def word_less_nat_alt unat_gt_0 not_less)

text \<open>What a page leaves of the log, and the entry it ends with.\<close>

lemma page_of_log:
  assumes "rows \<noteq> []" and "0 < p"
  obtains older r newer where "rows = older @ r # newer" "take p (rev rows) = rev (r # newer)"
    "last (take p (rev rows)) = r" "drop p (rev rows) = rev older"
proof -
  let ?page = "take p (rev rows)"
  have "?page \<noteq> []" using assms by simp
  then obtain newer r where page: "?page = newer @ [r]" by (meson rev_exhaust)
  have "rows = rev (drop p (rev rows)) @ rev ?page"
    using append_take_drop_id [of p "rev rows"] by (metis rev_append rev_rev_ident)
  then have "rows = rev (drop p (rev rows)) @ r # rev newer" by (simp add: page)
  then show ?thesis by (rule that) (simp_all add: page)
qed

lemma read_page:
  assumes "audit_entries E before limit (logs 0) = Inr page" and "page \<noteq> []"
  shows "read_pages E limit (Suc n) before logs = page # read_pages E limit n (Some (al_id (last page))) (\<lambda>k. logs (Suc k))"
  using assms by (cases page) simp_all

lemma read_older_pages:
  assumes "\<And>j. log_ok (logs j)" and "\<And>j. \<exists>newer. logs j = older @ r # newer" and "\<not> ev_fails E 0"
  shows "concat (read_pages E limit n (Some (al_id r)) logs) = take (n * page_size limit) (rev older)"
  using assms
proof (induction n arbitrary: older r logs)
  case 0
  then show ?case by simp
next
  case (Suc n)
  let ?p = "page_size limit"
  obtain newer where "logs 0 = older @ r # newer" using Suc.prems(2) by blast
  then have entries: "audit_entries E (Some (al_id r)) limit (logs 0) = Inr (take ?p (rev older))"
    using entries_before [of older r newer E limit] Suc.prems(1) [of 0] Suc.prems(3) by simp
  show ?case
  proof (cases "older = []")
    case True
    then show ?thesis using entries by simp
  next
    case False
    then obtain older' r' newer' where cut: "older = older' @ r' # newer'" "last (take ?p (rev older)) = r'"
      "drop ?p (rev older) = rev older'" by (rule page_of_log [OF _ page_size_pos [of limit]])
    have "take ?p (rev older) \<noteq> []" using False page_size_pos [of limit] by simp
    from read_page [where logs = logs, OF entries this] have "read_pages E limit (Suc n) (Some (al_id r)) logs =
      take ?p (rev older) # read_pages E limit n (Some (al_id r')) (\<lambda>j. logs (Suc j))"
      by (simp only: cut(2))
    moreover have "concat (read_pages E limit n (Some (al_id r')) (\<lambda>j. logs (Suc j))) = take (n * ?p) (rev older')"
    proof (rule Suc.IH)
      show "\<exists>newer. logs (Suc j) = older' @ r' # newer" for j using Suc.prems(2) [of "Suc j"] by (auto simp: cut(1))
    qed (use Suc.prems in simp_all)
    ultimately show ?thesis by (simp add: take_add add.commute cut(3) [symmetric])
  qed
qed

lemma read_all_pages:
  assumes "\<And>j. log_ok (logs j)" and "\<And>j. \<exists>more. logs (Suc j) = logs j @ more"
    and "\<not> ev_fails E 0" and "\<And>r. r \<in> set (logs 0) \<Longrightarrow> al_id r < 2 ^ 63 - 1"
  shows "concat (read_pages E limit n None logs) = take (n * page_size limit) (rev (logs 0))"
proof (cases n)
  case (Suc m)
  let ?p = "page_size limit"
  have grown: "\<exists>more. logs j = logs 0 @ more" for j
    using assms(2) by (induction j) (auto, metis append.assoc)
  have entries: "audit_entries E None limit (logs 0) = Inr (take ?p (rev (logs 0)))"
    using assms(1,3,4) by (rule entries_newest)
  show ?thesis
  proof (cases "logs 0 = []")
    case True
    then show ?thesis using entries Suc by simp
  next
    case False
    then obtain older r newer where cut: "logs 0 = older @ r # newer" "last (take ?p (rev (logs 0))) = r"
      "drop ?p (rev (logs 0)) = rev older" by (rule page_of_log [OF _ page_size_pos [of limit]])
    have "take ?p (rev (logs 0)) \<noteq> []" using False page_size_pos [of limit] by simp
    from read_page [where logs = logs, OF entries this] have "read_pages E limit n None logs =
      take ?p (rev (logs 0)) # read_pages E limit m (Some (al_id r)) (\<lambda>j. logs (Suc j))"
      by (simp only: cut(2) Suc)
    moreover have "concat (read_pages E limit m (Some (al_id r)) (\<lambda>j. logs (Suc j))) = take (m * ?p) (rev older)"
    proof (rule read_older_pages)
      show "\<exists>newer. logs (Suc j) = older @ r # newer" for j using grown [of "Suc j"] by (auto simp: cut(1))
    qed (use assms in simp_all)
    ultimately show ?thesis using Suc by (simp add: take_add add.commute cut(3) [symmetric])
  qed
qed simp

subsection \<open>Properties\<close>

text \<open>C20. Reading the audit log page after page gives every entry there was at the first page once,
  newest first, a page of the size asked for within its limits at a time: whatever was swept
  out of the log before, and even while entries are added, though not while it is swept.\<close>

theorem pages_give_every_entry_once:
  assumes "\<And>j. log_ok (logs j)" and "\<And>j. \<exists>more. logs (Suc j) = logs j @ more"
    and "\<not> ev_fails E 0" and "\<And>r. r \<in> set (logs 0) \<Longrightarrow> al_id r < 2 ^ 63 - 1"
  shows "concat (read_pages E limit n None logs) = take (n * page_size limit) (rev (logs 0)) \<and>
    page_size limit = min 500 (max 1 (unat limit))"
proof -
  have "page_size limit = min 500 (max 1 (unat limit))"
    by (auto simp: page_size_def clamp_def MAX_PAGE_def word_less_nat_alt not_less max_def min_def)
  then show ?thesis using read_all_pages [where logs = logs, OF assms] by simp
qed

definition demo_entry :: audit_event where
  "demo_entry = \<lparr>ae_actor = Some [65], ae_address = None, ae_action = [66], ae_target = None, ae_detail = None\<rparr>"

primrec demo_log :: "nat \<Rightarrow> audit_row list" where
  "demo_log 0 = audit_record \<lparr>ev_clock = (\<lambda>_. 5), ev_instant = (\<lambda>_. 0), ev_fails = (\<lambda>_. False), ev_random = (\<lambda>_. None)\<rparr> demo_entry []"
| "demo_log (Suc n) = audit_record \<lparr>ev_clock = (\<lambda>_. 5), ev_instant = (\<lambda>_. 0), ev_fails = (\<lambda>_. False), ev_random = (\<lambda>_. None)\<rparr> demo_entry (demo_log n)"

definition demo_calm :: account_env where
  "demo_calm = \<lparr>ev_clock = (\<lambda>_. 5), ev_instant = (\<lambda>_. 0), ev_fails = (\<lambda>_. False), ev_random = (\<lambda>_. None)\<rparr>"

theorem pages_give_every_entry_once_witness:
  "concat (read_pages demo_calm 1 2 None (\<lambda>j. drop 2 (demo_log (j + 3)))) = take (2 * page_size 1) (rev (drop 2 (demo_log 3))) \<and>
    page_size 1 = min 500 (max 1 (unat (1 :: u32)))"
proof -
  have ok: "log_ok (demo_log j)" for j by (induction j) (simp_all add: log_ok_record)
  have long: "2 \<le> length (demo_log (j + 2))" for j by (induction j) (simp_all add: audit_record_def numeral_2_eq_2)
  have "\<exists>more. drop 2 (demo_log (Suc j + 3)) = drop 2 (demo_log (j + 3)) @ more" for j
  proof -
    obtain more where "demo_log (Suc (j + 3)) = demo_log (j + 3) @ more" using record_grows by (metis demo_log.simps(2))
    moreover have "2 \<le> length (demo_log (j + 3))" using long [of "Suc j"] by (simp add: eval_nat_numeral)
    ultimately show ?thesis by simp
  qed
  moreover have "log_ok (drop 2 (demo_log (j + 3)))" for j
    using ok [of "j + 3"] log_ok_append [of "take 2 (demo_log (j + 3))" "drop 2 (demo_log (j + 3))"] by simp
  moreover have "al_id r < 2 ^ 63 - 1" if "r \<in> set (drop 2 (demo_log (0 + 3)))" for r
    using that by (auto simp: audit_record_def audit_row_of_def next_id_def numeral_3_eq_3 numeral_2_eq_2)
  ultimately show ?thesis
    using pages_give_every_entry_once [of "\<lambda>j. drop 2 (demo_log (j + 3))" demo_calm 1 2] by (simp add: demo_calm_def)
qed

end
