(* ===== verification/Release_Store.thy ===== *)
theory Release_Store
  imports Release Accounts Rendezvous "HOL-Library.Product_Lexorder"
begin

text \<open>
  The releases a server holds for its agents (\<open>crates/server/src/releases.rs\<close>): a table of
  them, a folder of package files named by their hash, and which release is on offer; and how
  the server answers an agent that asks for one (\<open>update\<close> in \<open>crates/server/src/rendezvous.rs\<close>),
  with the agent's side of that (\<open>crates/transport/src/rendezvous.rs\<close>). Statements and file
  operations may fail; what they did before is kept.
\<close>

subsection \<open>Data\<close>

record release_row =
  rw_id :: int
  rw_product :: str
  rw_platform :: str
  rw_version :: str
  rw_package :: str
  rw_sha256 :: bytes
  rw_size :: int
  rw_signature :: str
  rw_uploaded_at :: int
  rw_offered :: bool

record held_release =
  hr_id :: int
  hr_product :: str
  hr_platform :: str
  hr_version :: str
  hr_package :: str
  hr_sha256 :: str
  hr_size :: int
  hr_uploaded_at :: int
  hr_offered :: bool

record release_offer =
  ro_release :: release
  ro_signed :: signed_release
  ro_path :: str

text \<open>The table, and the files of the folder by name.\<close>

record release_store =
  rs_rows :: "release_row list"
  rs_files :: "str \<rightharpoonup> bytes"

text \<open>What the file system answers. A file that could not be written may be there in part.\<close>

record file_env =
  fe_folder :: bool
  fe_write :: "bytes option option"
  fe_rename :: bool
  fe_remove :: bool

definition held_of :: "release_row \<Rightarrow> held_release" where
  "held_of r =
     \<lparr>hr_id = rw_id r, hr_product = rw_product r, hr_platform = rw_platform r, hr_version = rw_version r,
      hr_package = rw_package r, hr_sha256 = to_hex (rw_sha256 r), hr_size = rw_size r,
      hr_uploaded_at = rw_uploaded_at r, hr_offered = rw_offered r\<rparr>"

fun package_name :: "package \<Rightarrow> str" where
  "package_name Msi = lit ''msi''"

definition package_path :: "bytes \<Rightarrow> str" where
  "package_path sha = to_hex sha @ lit ''.pkg''"

definition partial_path :: "bytes \<Rightarrow> str" where
  "partial_path sha = to_hex sha @ lit ''.partial''"

subsection \<open>Reading the table\<close>

definition get_release :: "nat \<Rightarrow> account_env \<Rightarrow> int \<Rightarrow> release_store \<Rightarrow> denied + held_release" where
  "get_release n E i s =
     (if ev_fails E n then Inl internal
      else case find (\<lambda>r. rw_id r = i) (rs_rows s) of None \<Rightarrow> Inl NotFound | Some r \<Rightarrow> Inr (held_of r))"

definition version_of :: "str \<Rightarrow> version option" where
  "version_of text = (case version_from_str text of Inl _ \<Rightarrow> None | Inr v \<Rightarrow> Some v)"

text \<open>\<open>Option<Version>\<close> is ordered with \<open>None\<close> first; the number stands for the place in that
  order, and the negative of it for the reverse order.\<close>

definition version_rank :: "version option \<Rightarrow> int" where
  "version_rank v =
     (case v of None \<Rightarrow> - 1
      | Some v \<Rightarrow> (int (unat (major v)) * 2 ^ 32 + int (unat (minor v))) * 2 ^ 32 + int (unat (patch v)))"

definition list_releases :: "account_env \<Rightarrow> release_store \<Rightarrow> denied + held_release list" where
  "list_releases E s =
     (if ev_fails E 0 then Inl internal
      else Inr (sort_key (\<lambda>r. (hr_product r, hr_platform r, - version_rank (version_of (hr_version r)), - hr_id r))
             (map held_of (rs_rows s))))"

subsection \<open>Taking a package\<close>

text \<open>Under a temporary name first.\<close>

definition store_package :: "file_env \<Rightarrow> bytes \<Rightarrow> bytes \<Rightarrow> (str \<rightharpoonup> bytes) \<Rightarrow> (denied + unit) \<times> (str \<rightharpoonup> bytes)" where
  "store_package F sha pkg files =
     (if \<not> fe_folder F then (Inl internal, files)
      else
        case fe_write F of
          Some left \<Rightarrow> (Inl internal, files(partial_path sha := left))
        | None \<Rightarrow>
            let written = files(partial_path sha \<mapsto> pkg) in
            if \<not> fe_rename F then (Inl internal, written)
            else (Inr (), written(partial_path sha := None, package_path sha \<mapsto> pkg)))"

text \<open>The checks of \<open>add\<close>, before anything is looked up. How \<open>{:?}\<close> writes a text depends on
  Unicode's tables and is a parameter, with the release key and its cryptography.\<close>

record 'e release_checks =
  ck_crypto :: "'e release_crypto"
  ck_key :: bytes
  ck_quoted :: "str \<Rightarrow> str"

fun text_error_text :: "(str \<Rightarrow> str) \<Rightarrow> text_error \<Rightarrow> str" where
  "text_error_text quoted (NotALine l) = lit ''not a signature file line: '' @ quoted l"
| "text_error_text quoted (UnknownField f) = lit ''unknown field '' @ quoted f @ lit '' in the signature file''"
| "text_error_text quoted OddHex = lit ''odd-length hex''"
| "text_error_text quoted (NotHexText t) = lit ''not hex: '' @ quoted t"
| "text_error_text quoted (Twice f) = f @ lit '' twice in the signature file''"
| "text_error_text quoted NeedsBoth = lit ''the signature file needs a release and a signature line''"

fun invalid_text :: "release_invalid \<Rightarrow> str" where
  "invalid_text BadSignature = lit ''the release is not signed by the release key''"
| "invalid_text BadEncoding = lit ''the release cannot be read''"
| "invalid_text BadPackage = lit ''the package is not the one the release describes''"

definition check_upload :: "'e release_checks \<Rightarrow> bytes \<Rightarrow> str \<Rightarrow> denied + signed_release \<times> release" where
  "check_upload K pkg signature =
     (case from_text signature of
        Inl e \<Rightarrow> Inl (Invalid (lit ''not a signature file: '' @ text_error_text (ck_quoted K) e))
      | Inr sr \<Rightarrow>
          (case release_verify (ck_crypto K) sr (ck_key K) of
             Inl e \<Rightarrow> Inl (Invalid (invalid_text e @ lit '': not a Nearhand release''))
           | Inr r \<Rightarrow>
               (case check_package (ck_crypto K) r pkg of
                  Inl _ \<Rightarrow> Inl (Invalid (lit ''the package is not the one that was signed''))
                | Inr _ \<Rightarrow> Inr (sr, r))))"

definition new_release_row :: "account_env \<Rightarrow> signed_release \<Rightarrow> release \<Rightarrow> release_row list \<Rightarrow> release_row" where
  "new_release_row E sr r rows =
     \<lparr>rw_id = next_id (map rw_id rows), rw_product = r_product r, rw_platform = r_platform r,
      rw_version = version_display (r_version r), rw_package = package_name (r_package r), rw_sha256 = r_sha256 r,
      rw_size = sint (r_size r), rw_signature = to_text sr, rw_uploaded_at = ev_clock E 0, rw_offered = False\<rparr>"

text \<open>A hash is in the table once.\<close>

definition sha_taken :: "bytes \<Rightarrow> release_row list \<Rightarrow> bool" where
  "sha_taken sha rows \<longleftrightarrow> list_ex (\<lambda>r. rw_sha256 r = sha) rows"

definition insert_release ::
  "account_env \<Rightarrow> signed_release \<Rightarrow> release \<Rightarrow> release_store \<Rightarrow> (denied + held_release) \<times> release_store" where
  "insert_release E sr r s =
     (if ev_fails E 1 \<or> sha_taken (r_sha256 r) (rs_rows s) then (Inl internal, s)
      else
        let row = new_release_row E sr r (rs_rows s); s1 = s\<lparr>rs_rows := rs_rows s @ [row]\<rparr> in
        (get_release 2 E (rw_id row) s1, s1))"

definition add_release ::
  "'e release_checks \<Rightarrow> account_env \<Rightarrow> file_env \<Rightarrow> bytes \<Rightarrow> str \<Rightarrow> release_store
     \<Rightarrow> (denied + held_release) \<times> release_store" where
  "add_release K E F pkg signature s =
     (case check_upload K pkg signature of
        Inl e \<Rightarrow> (Inl e, s)
      | Inr (sr, r) \<Rightarrow>
          if ev_fails E 0 then (Inl internal, s)
          else if sha_taken (r_sha256 r) (rs_rows s) then (Inl (Invalid (lit ''this package is here already'')), s)
          else
            (case store_package F (r_sha256 r) pkg (rs_files s) of
               (Inl e, files) \<Rightarrow> (Inl e, s\<lparr>rs_files := files\<rparr>)
             | (Inr _, files) \<Rightarrow> insert_release E sr r (s\<lparr>rs_files := files\<rparr>)))"

subsection \<open>Offering\<close>

definition same_target :: "str \<Rightarrow> str \<Rightarrow> release_row \<Rightarrow> bool" where
  "same_target product platform r \<longleftrightarrow> rw_product r = product \<and> rw_platform r = platform"

text \<open>A transaction, between two look-ups.\<close>

definition offer_release :: "account_env \<Rightarrow> int \<Rightarrow> release_store \<Rightarrow> (denied + held_release) \<times> release_store" where
  "offer_release E i s =
     (case get_release 0 E i s of
        Inl e \<Rightarrow> (Inl e, s)
      | Inr h \<Rightarrow>
          if ev_fails E 1 \<or> ev_fails E 2 \<or> ev_fails E 3 \<or> ev_fails E 4 then (Inl internal, s)
          else
            let none = map (\<lambda>r. if same_target (hr_product h) (hr_platform h) r then r\<lparr>rw_offered := False\<rparr> else r) (rs_rows s);
                s1 = s\<lparr>rs_rows := map (\<lambda>r. if rw_id r = i then r\<lparr>rw_offered := True\<rparr> else r) none\<rparr> in
            (get_release 5 E i s1, s1))"

definition withdraw_release :: "account_env \<Rightarrow> int \<Rightarrow> release_store \<Rightarrow> (denied + held_release) \<times> release_store" where
  "withdraw_release E i s =
     (if ev_fails E 0 then (Inl internal, s)
      else if find (\<lambda>r. rw_id r = i) (rs_rows s) = None then (Inl NotFound, s)
      else
        let s1 = s\<lparr>rs_rows := map (\<lambda>r. if rw_id r = i then r\<lparr>rw_offered := False\<rparr> else r) (rs_rows s)\<rparr> in
        (get_release 1 E i s1, s1))"

text \<open>\<open>delete\<close> in its three steps: what it checks, the row, the file.\<close>

definition delete_check :: "account_env \<Rightarrow> int \<Rightarrow> release_store \<Rightarrow> denied + held_release" where
  "delete_check E i s =
     (case get_release 0 E i s of
        Inl e \<Rightarrow> Inl e
      | Inr h \<Rightarrow> if hr_offered h then Inl (Invalid (lit ''withdraw the release before deleting it'')) else Inr h)"

definition delete_row :: "account_env \<Rightarrow> int \<Rightarrow> release_store \<Rightarrow> (denied + bytes) \<times> release_store" where
  "delete_row E i s =
     (if ev_fails E 1 then (Inl internal, s)
      else case find (\<lambda>r. rw_id r = i) (rs_rows s) of
        None \<Rightarrow> (Inl internal, s)
      | Some r \<Rightarrow> (Inr (rw_sha256 r), s\<lparr>rs_rows := filter (\<lambda>x. rw_id x \<noteq> i) (rs_rows s)\<rparr>))"

definition delete_file :: "file_env \<Rightarrow> bytes \<Rightarrow> release_store \<Rightarrow> release_store" where
  "delete_file F sha s =
     (if length sha = 32 \<and> fe_remove F then s\<lparr>rs_files := (rs_files s)(package_path sha := None)\<rparr> else s)"

definition delete_release :: "account_env \<Rightarrow> file_env \<Rightarrow> int \<Rightarrow> release_store \<Rightarrow> (denied + held_release) \<times> release_store" where
  "delete_release E F i s =
     (case delete_check E i s of
        Inl e \<Rightarrow> (Inl e, s)
      | Inr h \<Rightarrow>
          (case delete_row E i s of
             (Inl e, s1) \<Rightarrow> (Inl e, s1)
           | (Inr sha, s1) \<Rightarrow> (Inr h, delete_file F sha s1)))"

subsection \<open>What an agent is offered\<close>

definition offer_for ::
  "'e release_checks \<Rightarrow> account_env \<Rightarrow> str \<Rightarrow> str \<Rightarrow> version \<Rightarrow> release_store \<Rightarrow> denied + release_offer option" where
  "offer_for K E product platform version s =
     (if ev_fails E 0 then Inl internal
      else case find (\<lambda>r. same_target product platform r \<and> rw_offered r) (rs_rows s) of
        None \<Rightarrow> Inr None
      | Some row \<Rightarrow>
          (case from_text (rw_signature row) of
             Inl _ \<Rightarrow> Inl internal
           | Inr sr \<Rightarrow>
               (case release_verify (ck_crypto K) sr (ck_key K) of
                  Inl _ \<Rightarrow> Inl internal
                | Inr r \<Rightarrow>
                    if r_version r \<le> version then Inr None
                    else Inr (Some \<lparr>ro_release = r, ro_signed = sr, ro_path = package_path (r_sha256 r)\<rparr>))))"

text \<open>\<open>update\<close>: the messages to the agent and the bytes of the package that follow them, the file
  being what it is when it is opened. \<open>room\<close> is whether another download may start, \<open>wants\<close>
  whether the agent says \<open>Fetch\<close> in time.\<close>

definition serve_update ::
  "bool \<Rightarrow> (denied + release_offer option) option \<Rightarrow> bool \<Rightarrow> bool \<Rightarrow> (str \<rightharpoonup> bytes) \<Rightarrow> from_server list \<times> bytes option" where
  "serve_update has_key looked_up room wants files =
     (if \<not> has_key then ([Refused NoCertificate], None)
      else
        case (case looked_up of None \<Rightarrow> None | Some (Inl _) \<Rightarrow> None | Some (Inr found) \<Rightarrow> found) of
          None \<Rightarrow> ([Offered None], None)
        | Some found \<Rightarrow>
            if \<not> room then ([Refused Busy], None)
            else if \<not> wants then ([Offered (Some (ro_signed found))], None)
            else ([Offered (Some (ro_signed found))], files (ro_path found)))"

text \<open>The agent's side: what an answer says is on offer, and the package as it reads it, cut off
  beyond the size the release gives.\<close>

definition offer_answered :: "(str + from_server option) \<Rightarrow> offer" where
  "offer_answered answer =
     (case answer of
        Inl e \<Rightarrow> NoAnswer e
      | Inr (Some (Offered (Some sr))) \<Rightarrow> Offers sr
      | Inr (Some (Offered None)) \<Rightarrow> NoOffer
      | Inr (Some (Refused refusal)) \<Rightarrow> if refusal = Busy then BusyServer else NoAnswer (refusal_text refusal)
      | Inr _ \<Rightarrow> NoAnswer (lit ''unexpected''))"

definition fetch_package :: "bytes option \<Rightarrow> u64 \<Rightarrow> str + bytes" where
  "fetch_package sent limit =
     (case sent of
        None \<Rightarrow> Inl (lit ''fetching the package'')
      | Some pkg \<Rightarrow> if length pkg > unat limit then Inl (lit ''fetching the package'') else Inr pkg)"

end
