(* ===== verification/Api.thy ===== *)
theory Api
  imports Permissions Audit_Log Release_Store
begin

text \<open>
  The server's web interface (\<open>crates/server/src/api.rs\<close>): who is asking, and a definition for
  each handler, over the database of \<open>Devices\<close>, the audit log of \<open>Audit_Log\<close> and the releases of
  \<open>Release_Store\<close>.

  A request is what axum makes of it: the route with its path, query and body read, and the
  headers the handlers look at; what cannot be read never gets to a handler. Each call into the
  database has its own readings of the clock, failures and random bytes: \<open>ap_op 0\<close> for finding
  out who asks, then \<open>ap_op 1\<close> and on for the handler's calls in their order, and \<open>ap_audit\<close> for
  the audit log. An answer is what is sent as JSON, before it is written as text.
\<close>

subsection \<open>State\<close>

record server_state =
  sv_db :: database
  sv_log :: "audit_row list"
  sv_releases :: release_store

record ('e, 'f) server_config =
  sc_accounts :: account_crypto
  sc_grants :: "'e grant_crypto"
  sc_ser_grant :: "signed_grant \<Rightarrow> unit + bytes"
  sc_identity :: identity
  sc_checks :: "'f release_checks"
  sc_address :: str
  sc_fingerprint :: str
  sc_web_hash :: "bytes option"

record api_env =
  ap_from :: ip
  ap_op :: "nat \<Rightarrow> account_env"
  ap_audit :: account_env
  ap_files :: file_env
  ap_online :: "fingerprint \<Rightarrow> bool"

datatype http_method = MGet | MHead | MOptions | MPost | MPut | MPatch | MDelete | MOther

record request_head =
  rq_method :: http_method
  rq_authorization :: "bytes option"
  rq_cookies :: "bytes list"
  rq_origin :: "bytes option"
  rq_host :: "bytes option"

record caller =
  ca_user :: account
  ca_from :: "ip option"

datatype api_error = Denied denied | Unauthenticated | CrossSite

subsection \<open>Errors\<close>

fun denied_text :: "denied \<Rightarrow> str" where
  "denied_text WrongCredentials = lit ''wrong name or password''"
| "denied_text TotpNeeded = lit ''a code from the authenticator app is needed''"
| "denied_text WrongCode = lit ''wrong or already used code''"
| "denied_text TooManyTries = lit ''too many attempts; try again in a quarter of an hour''"
| "denied_text (Invalid why) = why"
| "denied_text Forbidden = lit ''not allowed''"
| "denied_text NotFound = lit ''not found''"

text \<open>The status, the message, and whether the answer also says that a code is needed.\<close>

fun error_response :: "api_error \<Rightarrow> nat \<times> str \<times> bool" where
  "error_response Unauthenticated = (401, lit ''sign in first'', False)"
| "error_response CrossSite = (403, lit ''request from another site refused'', False)"
| "error_response (Denied why) =
     (case why of
        WrongCredentials \<Rightarrow> 401 | TotpNeeded \<Rightarrow> 401 | WrongCode \<Rightarrow> 401
      | TooManyTries \<Rightarrow> 429
      | Invalid _ \<Rightarrow> 400
      | Forbidden \<Rightarrow> 403
      | NotFound \<Rightarrow> 404,
      denied_text why, why = TotpNeeded)"

subsection \<open>Headers\<close>

definition SESSION_COOKIE :: str where "SESSION_COOKIE = lit ''nearhand_session''"

text \<open>\<open>HeaderValue::to_str\<close>: visible ASCII only.\<close>

definition header_text :: "bytes \<Rightarrow> str option" where
  "header_text v = (if list_all (\<lambda>b. (32 \<le> b \<and> b < 127) \<or> b = 9) v then Some (map unat v) else None)"

definition bearer :: "request_head \<Rightarrow> str option" where
  "bearer h =
     (case rq_authorization h of
        None \<Rightarrow> None
      | Some v \<Rightarrow>
          (case header_text v of
             None \<Rightarrow> None
           | Some t \<Rightarrow> if starts_with (lit ''Bearer '') t then Some (trim (drop 7 t)) else None))"

definition cookie :: "request_head \<Rightarrow> str \<Rightarrow> str option" where
  "cookie h name =
     map_option snd (find (\<lambda>(key, _). key = name)
       (somes (map (\<lambda>pair. split_once 61 (trim pair)) (concat (map (split_on 59) (somes (map header_text (rq_cookies h))))))))"

definition is_safe :: "http_method \<Rightarrow> bool" where
  "is_safe m \<longleftrightarrow> m \<in> {MGet, MHead, MOptions}"

text \<open>\<open>split_once("://")\<close>, the second part.\<close>

fun after_scheme :: "str \<Rightarrow> str option" where
  "after_scheme [] = None"
| "after_scheme (c # s) = (if starts_with (lit ''://'') (c # s) then Some (drop 2 s) else after_scheme s)"

definition same_origin :: "request_head \<Rightarrow> bool" where
  "same_origin h =
     (case (case rq_origin h of None \<Rightarrow> None | Some v \<Rightarrow> header_text v) of
        None \<Rightarrow> True
      | Some origin \<Rightarrow>
          let host = (case rq_host h of None \<Rightarrow> None | Some v \<Rightarrow> header_text v);
              origin_host = map_option (\<lambda>rest. rev (dropWhile (\<lambda>c. c = 47) (rev rest))) (after_scheme origin) in
          case (origin_host, host) of
            (Some a, Some b) \<Rightarrow> same_name a b
          | _ \<Rightarrow> False)"

definition session_cookie :: "str \<Rightarrow> nat \<Rightarrow> str" where
  "session_cookie token max_age =
     (let text = SESSION_COOKIE @ [61] @ token @ lit ''; Path=/; HttpOnly; Secure; SameSite=Strict; Max-Age='' @ show_nat max_age in
      if list_all (\<lambda>b. (32 \<le> b \<and> b \<noteq> 127) \<or> b = 9) (utf8 text) then text else [])"

subsection \<open>Who is asking\<close>

definition address :: "api_env \<Rightarrow> ip option" where
  "address E = Some (to_canonical (ap_from E))"

definition with_accounts :: "accounts \<Rightarrow> server_state \<Rightarrow> server_state" where
  "with_accounts a s = s\<lparr>sv_db := (sv_db s)\<lparr>db_accounts := a\<rparr>\<rparr>"

text \<open>\<open>Caller\<close>: by API token if there is one, else by the cookie, which has to come from this
  server's own pages if the request may change anything.\<close>

definition identify ::
  "('e, 'f) server_config \<Rightarrow> api_env \<Rightarrow> request_head \<Rightarrow> server_state \<Rightarrow> (api_error + caller) \<times> server_state" where
  "identify cfg E h s =
     (let found = (\<lambda>u. case u of
                None \<Rightarrow> Inl Unauthenticated
              | Some u \<Rightarrow> Inr \<lparr>ca_user = u, ca_from = address E\<rparr>) in
      case bearer h of
        Some token \<Rightarrow>
          (case Accounts.api_user (sc_accounts cfg) (ap_op E 0) token (db_accounts (sv_db s)) of
             (Inl e, a) \<Rightarrow> (Inl (Denied e), with_accounts a s)
           | (Inr u, a) \<Rightarrow> (found u, with_accounts a s))
      | None \<Rightarrow>
          (case cookie h SESSION_COOKIE of
             None \<Rightarrow> (Inl Unauthenticated, s)
           | Some token \<Rightarrow>
               if \<not> is_safe (rq_method h) \<and> \<not> same_origin h then (Inl CrossSite, s)
               else
                 (case session_user (sc_accounts cfg) (ap_op E 0) token (db_accounts (sv_db s)) of
                    Inl e \<Rightarrow> (Inl (Denied e), s)
                  | Inr u \<Rightarrow> (found u, s))))"

definition identify_admin ::
  "('e, 'f) server_config \<Rightarrow> api_env \<Rightarrow> request_head \<Rightarrow> server_state \<Rightarrow> (api_error + caller) \<times> server_state" where
  "identify_admin cfg E h s =
     (case identify cfg E h s of
        (Inl e, s1) \<Rightarrow> (Inl e, s1)
      | (Inr c, s1) \<Rightarrow> if us_admin (ca_user c) then (Inr c, s1) else (Inl (Denied Forbidden), s1))"

text \<open>\<open>AppState::record\<close>.\<close>

definition log_change :: "api_env \<Rightarrow> caller \<Rightarrow> str \<Rightarrow> str \<Rightarrow> str option \<Rightarrow> server_state \<Rightarrow> server_state" where
  "log_change E c action target detail s =
     s\<lparr>sv_log := audit_record (ap_audit E)
         \<lparr>ae_actor = Some (us_name (ca_user c)), ae_address = ca_from c, ae_action = action,
          ae_target = Some target, ae_detail = detail\<rparr> (sv_log s)\<rparr>"

subsection \<open>Requests and answers\<close>

datatype form_field = PackageField bytes | SignatureField str | OtherField | Unreadable str

datatype (plugins only: code) api_request =
    RHealth | RMetrics | RSetup str str str | RLogin str str "str option" | RLogout
  | RMe | RPassword str str | RTotpBegin | RTotpConfirm str | RTotpDisable str
  | RTokens | RNewToken str "u32 option" | RDeleteToken int
  | RUsers | RCreateUser str str bool | RUpdateUser int "bool option" "bool option" | RDeleteUser int
  | RServer | RDevices | RDevice int | RUpdateDevice int "str option" "int option option" | RDeleteDevice int
  | RGroups | RCreateGroup str | RRenameGroup int str | RDeleteGroup int
  | REnrollTokens | RNewEnrollToken str "int option" "u32 option option" "u32 option" | RDeleteEnrollToken int
  | RUserGroups | RCreateUserGroup str | RRenameUserGroup int str | RDeleteUserGroup int
  | RAddMember int int | RRemoveMember int int
  | RGrants | RSetGrant int int str | RDeleteGrant int
  | RDeviceGrant int | RWebTransport | RRelay
  | RReleases | RUpload "form_field list" | ROfferRelease int | RWithdrawRelease int | RDeleteRelease int
  | RAudit "int option" "u32 option"

datatype (plugins only: code) answer =
    Healthy | Snapshot nat | NoContent | SignedOut str | UserIs account | SignedIn account str
  | TotpSecret str str | TokenList "api_token list" | TokenMade str api_token | UserList "account list"
  | ServerIs str str | DevicesSeen "device list" | DeviceSeen device | GroupList "device_group list"
  | GroupIs device_group | EnrollTokenList "enroll_token list" | EnrollTokenMade str enroll_token str str
  | UserGroupList "user_group list" | UserGroupIs user_group | RuleList "grant_rule list" | RuleIs grant_rule
  | GrantIs str str str str | WebTransportIs str "str list" | RelayOpened
  | ReleaseList "held_release list" | ReleaseIs held_release | AuditPage "audit_row list"

text \<open>The method of a request to a route; axum's \<open>get\<close> answers \<open>HEAD\<close> as well.\<close>

definition route_method :: "api_request \<Rightarrow> http_method" where
  "route_method r =
     (case r of
        RSetup _ _ _ \<Rightarrow> MPost | RLogin _ _ _ \<Rightarrow> MPost | RLogout \<Rightarrow> MPost | RPassword _ _ \<Rightarrow> MPost
      | RTotpBegin \<Rightarrow> MPost | RTotpConfirm _ \<Rightarrow> MPost | RTotpDisable _ \<Rightarrow> MPost | RNewToken _ _ \<Rightarrow> MPost
      | RDeleteToken _ \<Rightarrow> MDelete | RCreateUser _ _ _ \<Rightarrow> MPost | RUpdateUser _ _ _ \<Rightarrow> MPatch | RDeleteUser _ \<Rightarrow> MDelete
      | RUpdateDevice _ _ _ \<Rightarrow> MPatch | RDeleteDevice _ \<Rightarrow> MDelete | RCreateGroup _ \<Rightarrow> MPost | RRenameGroup _ _ \<Rightarrow> MPatch
      | RDeleteGroup _ \<Rightarrow> MDelete | RNewEnrollToken _ _ _ _ \<Rightarrow> MPost | RDeleteEnrollToken _ \<Rightarrow> MDelete | RCreateUserGroup _ \<Rightarrow> MPost
      | RRenameUserGroup _ _ \<Rightarrow> MPatch | RDeleteUserGroup _ \<Rightarrow> MDelete | RAddMember _ _ \<Rightarrow> MPut | RRemoveMember _ _ \<Rightarrow> MDelete
      | RSetGrant _ _ _ \<Rightarrow> MPost | RDeleteGrant _ \<Rightarrow> MDelete | RDeviceGrant _ \<Rightarrow> MPost | RUpload _ \<Rightarrow> MPost
      | ROfferRelease _ \<Rightarrow> MPost | RWithdrawRelease _ \<Rightarrow> MDelete | RDeleteRelease _ \<Rightarrow> MDelete | _ \<Rightarrow> MGet)"

definition reaches_route :: "request_head \<Rightarrow> api_request \<Rightarrow> bool" where
  "reaches_route h r \<longleftrightarrow> rq_method h = route_method r \<or> (route_method r = MGet \<and> rq_method h = MHead)"

subsection \<open>Text\<close>

definition show_int :: "int \<Rightarrow> str" where
  "show_int i = (if i < 0 then 45 # show_nat (nat (- i)) else show_nat (nat i))"

definition show_row :: "int \<Rightarrow> str" where
  "show_row i = 35 # show_int i"

definition show_bool :: "bool \<Rightarrow> str" where
  "show_bool b = (if b then lit ''true'' else lit ''false'')"

subsection \<open>Signing in and one's own account\<close>

type_synonym reply = "(api_error + answer) \<times> server_state"

definition api_setup :: "('e, 'f) server_config \<Rightarrow> api_env \<Rightarrow> str \<Rightarrow> str \<Rightarrow> str \<Rightarrow> server_state \<Rightarrow> reply" where
  "api_setup cfg E token name password s =
     (case setup_admin (sc_accounts cfg) (ap_op E 1) token name password (db_accounts (sv_db s)) of
        (Inl e, a) \<Rightarrow> (Inl (Denied e), with_accounts a s)
      | (Inr u, a) \<Rightarrow>
          (Inr (UserIs u),
           log_change E \<lparr>ca_user = u, ca_from = address E\<rparr> (lit ''setup'') (us_name u) (Some (lit ''first administrator''))
             (with_accounts a s)))"

definition api_login :: "('e, 'f) server_config \<Rightarrow> api_env \<Rightarrow> str \<Rightarrow> str \<Rightarrow> str option \<Rightarrow> server_state \<Rightarrow> reply" where
  "api_login cfg E name password totp s =
     (let from_ip = to_canonical (ap_from E) in
      case sign_in (sc_accounts cfg) (ap_op E 1) name password totp from_ip (db_accounts (sv_db s)) of
        (Inr (token, u), a) \<Rightarrow>
          (Inr (SignedIn u (session_cookie token (12 * 3600))),
           log_change E \<lparr>ca_user = u, ca_from = Some from_ip\<rparr> (lit ''login'') (us_name u) None (with_accounts a s))
      | (Inl TotpNeeded, a) \<Rightarrow> (Inl (Denied TotpNeeded), with_accounts a s)
      | (Inl refused, a) \<Rightarrow>
          (Inl (Denied refused),
           (with_accounts a s)\<lparr>sv_log := audit_record (ap_audit E)
              \<lparr>ae_actor = None, ae_address = Some from_ip, ae_action = lit ''login.fail'', ae_target = Some name,
               ae_detail = Some (denied_text refused)\<rparr> (sv_log s)\<rparr>))"

definition api_logout :: "('e, 'f) server_config \<Rightarrow> api_env \<Rightarrow> request_head \<Rightarrow> server_state \<Rightarrow> reply" where
  "api_logout cfg E h s =
     (case cookie h SESSION_COOKIE of
        None \<Rightarrow> (Inr (SignedOut (session_cookie [] 0)), s)
      | Some token \<Rightarrow>
          (case sign_out (sc_accounts cfg) (ap_op E 1) token (db_accounts (sv_db s)) of
             (Inl e, a) \<Rightarrow> (Inl (Denied e), with_accounts a s)
           | (Inr _, a) \<Rightarrow> (Inr (SignedOut (session_cookie [] 0)), with_accounts a s)))"

text \<open>The shape most handlers have: a call on the accounts, an entry in the log, the answer.\<close>

definition on_accounts ::
  "(denied + 'a) \<times> accounts \<Rightarrow> ('a \<Rightarrow> server_state \<Rightarrow> server_state) \<Rightarrow> ('a \<Rightarrow> answer) \<Rightarrow> server_state \<Rightarrow> reply" where
  "on_accounts result logged answered s =
     (case result of
        (Inl e, a) \<Rightarrow> (Inl (Denied e), with_accounts a s)
      | (Inr x, a) \<Rightarrow> (Inr (answered x), logged x (with_accounts a s)))"

definition api_password :: "('e, 'f) server_config \<Rightarrow> api_env \<Rightarrow> caller \<Rightarrow> str \<Rightarrow> str \<Rightarrow> server_state \<Rightarrow> reply" where
  "api_password cfg E c current new s =
     on_accounts (change_password (sc_accounts cfg) (ap_op E 1) (us_id (ca_user c)) current new (db_accounts (sv_db s)))
       (\<lambda>_. log_change E c (lit ''password.change'') (us_name (ca_user c)) None) (\<lambda>_. NoContent) s"

definition api_totp_begin :: "api_env \<Rightarrow> caller \<Rightarrow> server_state \<Rightarrow> reply" where
  "api_totp_begin E c s =
     on_accounts (totp_begin (ap_op E 1) (ca_user c) (db_accounts (sv_db s)))
       (\<lambda>_ s1. s1) (\<lambda>(secret, uri). TotpSecret secret uri) s"

definition api_totp_confirm :: "('e, 'f) server_config \<Rightarrow> api_env \<Rightarrow> caller \<Rightarrow> str \<Rightarrow> server_state \<Rightarrow> reply" where
  "api_totp_confirm cfg E c code s =
     on_accounts (totp_confirm (sc_accounts cfg) (ap_op E 1) (us_id (ca_user c)) code (db_accounts (sv_db s)))
       (\<lambda>_. log_change E c (lit ''totp.enable'') (us_name (ca_user c)) None) (\<lambda>_. NoContent) s"

definition api_totp_disable :: "('e, 'f) server_config \<Rightarrow> api_env \<Rightarrow> caller \<Rightarrow> str \<Rightarrow> server_state \<Rightarrow> reply" where
  "api_totp_disable cfg E c code s =
     on_accounts (totp_disable (sc_accounts cfg) (ap_op E 1) (us_id (ca_user c)) code (db_accounts (sv_db s)))
       (\<lambda>_. log_change E c (lit ''totp.disable'') (us_name (ca_user c)) None) (\<lambda>_. NoContent) s"

definition reading :: "denied + 'a \<Rightarrow> ('a \<Rightarrow> answer) \<Rightarrow> server_state \<Rightarrow> reply" where
  "reading result answered s = (case result of Inl e \<Rightarrow> (Inl (Denied e), s) | Inr x \<Rightarrow> (Inr (answered x), s))"

definition api_list_tokens :: "api_env \<Rightarrow> caller \<Rightarrow> server_state \<Rightarrow> reply" where
  "api_list_tokens E c s = reading (api_tokens 0 (ap_op E 1) (us_id (ca_user c)) (db_accounts (sv_db s))) TokenList s"

definition api_new_token :: "('e, 'f) server_config \<Rightarrow> api_env \<Rightarrow> caller \<Rightarrow> str \<Rightarrow> u32 option \<Rightarrow> server_state \<Rightarrow> reply" where
  "api_new_token cfg E c name expires_in_days s =
     on_accounts (new_api_token (sc_accounts cfg) (ap_op E 1) (us_id (ca_user c)) name expires_in_days (db_accounts (sv_db s)))
       (\<lambda>(listed, _). log_change E c (lit ''token.create'') (us_name (ca_user c)) (Some (at_name listed)))
       (\<lambda>(listed, token). TokenMade token listed) s"

definition api_delete_token :: "api_env \<Rightarrow> caller \<Rightarrow> int \<Rightarrow> server_state \<Rightarrow> reply" where
  "api_delete_token E c i s =
     on_accounts (delete_api_token (ap_op E 1) (us_id (ca_user c)) i (db_accounts (sv_db s)))
       (\<lambda>_. log_change E c (lit ''token.delete'') (us_name (ca_user c)) (Some (show_row i))) (\<lambda>_. NoContent) s"

subsection \<open>Users\<close>

definition api_list_users :: "api_env \<Rightarrow> server_state \<Rightarrow> reply" where
  "api_list_users E s = reading (list_users (ap_op E 1) (db_accounts (sv_db s))) UserList s"

definition api_create_user :: "('e, 'f) server_config \<Rightarrow> api_env \<Rightarrow> caller \<Rightarrow> str \<Rightarrow> str \<Rightarrow> bool \<Rightarrow> server_state \<Rightarrow> reply" where
  "api_create_user cfg E c name password admin s =
     on_accounts (create_user (sc_accounts cfg) (ap_op E 1) name password admin (db_accounts (sv_db s)))
       (\<lambda>u. log_change E c (lit ''user.create'') (us_name u) (if us_admin u then Some (lit ''administrator'') else None))
       UserIs s"

definition api_update_user :: "api_env \<Rightarrow> caller \<Rightarrow> int \<Rightarrow> bool option \<Rightarrow> bool option \<Rightarrow> server_state \<Rightarrow> reply" where
  "api_update_user E c uid admin disabled s =
     on_accounts (update_user (ap_op E 1) uid admin disabled (db_accounts (sv_db s)))
       (\<lambda>u. log_change E c (lit ''user.update'') (us_name u)
          (Some (lit ''admin: '' @ show_bool (us_admin u) @ lit '', disabled: '' @ show_bool (us_disabled u))))
       UserIs s"

text \<open>\<open>record\<close> and the answer after a call on the whole database.\<close>

definition on_db ::
  "(denied + 'a) \<times> database \<Rightarrow> ('a \<Rightarrow> server_state \<Rightarrow> server_state) \<Rightarrow> ('a \<Rightarrow> answer) \<Rightarrow> server_state \<Rightarrow> reply" where
  "on_db result logged answered s =
     (case result of
        (Inl e, d) \<Rightarrow> (Inl (Denied e), s\<lparr>sv_db := d\<rparr>)
      | (Inr x, d) \<Rightarrow> (Inr (answered x), logged x (s\<lparr>sv_db := d\<rparr>)))"

definition api_delete_user :: "api_env \<Rightarrow> caller \<Rightarrow> int \<Rightarrow> server_state \<Rightarrow> reply" where
  "api_delete_user E c uid s =
     (case get_user 0 (ap_op E 1) uid (db_accounts (sv_db s)) of
        Inl e \<Rightarrow> (Inl (Denied e), s)
      | Inr u \<Rightarrow>
          on_db (delete_account (ap_op E 2) uid (sv_db s))
            (\<lambda>_. log_change E c (lit ''user.delete'') (case u of None \<Rightarrow> show_row uid | Some u \<Rightarrow> us_name u) None)
            (\<lambda>_. NoContent) s)"

subsection \<open>Devices\<close>

definition with_presence :: "api_env \<Rightarrow> device \<Rightarrow> device" where
  "with_presence E d =
     d\<lparr>dv_online := (case fingerprint_from_str (dv_fingerprint d) of Ok fp \<Rightarrow> ap_online E fp | _ \<Rightarrow> False)\<rparr>"

text \<open>A user's role on each device they may reach, by row.\<close>

definition roles_of :: "account_env \<Rightarrow> account \<Rightarrow> database \<Rightarrow> denied + (int \<rightharpoonup> role)" where
  "roles_of E u d =
     (case reach E (us_id u) d of
        Inl e \<Rightarrow> Inl e
      | Inr rs \<Rightarrow> Inr (map_of (rev (map (\<lambda>r. (re_id r, re_role r)) rs))))"

definition as_seen_by :: "api_env \<Rightarrow> account \<Rightarrow> (int \<rightharpoonup> role) \<Rightarrow> device \<Rightarrow> device option" where
  "as_seen_by E u roles d =
     (let role = roles (dv_id d) in
      if role = None \<and> \<not> us_admin u then None
      else Some ((with_presence E d)\<lparr>dv_role := map_option role_as_str role\<rparr>))"

definition api_list_devices :: "api_env \<Rightarrow> caller \<Rightarrow> server_state \<Rightarrow> reply" where
  "api_list_devices E c s =
     (case roles_of (ap_op E 1) (ca_user c) (sv_db s) of
        Inl e \<Rightarrow> (Inl (Denied e), s)
      | Inr roles \<Rightarrow>
          reading (list_devices (ap_op E 2) (sv_db s))
            (\<lambda>ds. DevicesSeen (somes (map (as_seen_by E (ca_user c) roles) ds))) s)"

definition api_get_device :: "api_env \<Rightarrow> caller \<Rightarrow> int \<Rightarrow> server_state \<Rightarrow> reply" where
  "api_get_device E c i s =
     (case roles_of (ap_op E 1) (ca_user c) (sv_db s) of
        Inl e \<Rightarrow> (Inl (Denied e), s)
      | Inr roles \<Rightarrow>
          (case get_device 0 (ap_op E 2) i (sv_db s) of
             Inl e \<Rightarrow> (Inl (Denied e), s)
           | Inr d \<Rightarrow>
               (case as_seen_by E (ca_user c) roles d of
                  None \<Rightarrow> (Inl (Denied NotFound), s)
                | Some seen_as \<Rightarrow> (Inr (DeviceSeen seen_as), s))))"

definition api_update_device :: "api_env \<Rightarrow> caller \<Rightarrow> int \<Rightarrow> str option \<Rightarrow> int option option \<Rightarrow> server_state \<Rightarrow> reply" where
  "api_update_device E c i name group_id s =
     on_db (update_device (ap_op E 1) i name group_id (sv_db s))
       (\<lambda>d. log_change E c (lit ''device.update'') (dv_name d)
          (Some (lit ''group: '' @ (case dv_group d of None \<Rightarrow> lit ''none'' | Some g \<Rightarrow> g))))
       (\<lambda>d. DeviceSeen (with_presence E d)) s"

definition api_delete_device :: "api_env \<Rightarrow> caller \<Rightarrow> int \<Rightarrow> server_state \<Rightarrow> reply" where
  "api_delete_device E c i s =
     (case get_device 0 (ap_op E 1) i (sv_db s) of
        Inl e \<Rightarrow> (Inl (Denied e), s)
      | Inr d \<Rightarrow>
          on_db (delete_device (ap_op E 2) i (sv_db s))
            (\<lambda>_. log_change E c (lit ''device.delete'') (dv_name d) (Some (dv_device_id d))) (\<lambda>_. NoContent) s)"

definition api_metrics :: "api_env \<Rightarrow> server_state \<Rightarrow> reply" where
  "api_metrics E s = reading (list_devices (ap_op E 1) (sv_db s)) (\<lambda>ds. Snapshot (length ds)) s"

definition api_list_groups :: "api_env \<Rightarrow> server_state \<Rightarrow> reply" where
  "api_list_groups E s = reading (device_groups 0 (ap_op E 1) (sv_db s)) GroupList s"

definition api_create_group :: "api_env \<Rightarrow> caller \<Rightarrow> str \<Rightarrow> server_state \<Rightarrow> reply" where
  "api_create_group E c name s =
     on_db (create_device_group (ap_op E 1) name (sv_db s))
       (\<lambda>g. log_change E c (lit ''device_group.create'') (dg_name g) None) GroupIs s"

definition device_group_name :: "account_env \<Rightarrow> int \<Rightarrow> database \<Rightarrow> denied + str" where
  "device_group_name E gid d =
     (case device_groups 0 E d of
        Inl e \<Rightarrow> Inl e
      | Inr gs \<Rightarrow> (case find (\<lambda>g. dg_id g = gid) gs of None \<Rightarrow> Inl NotFound | Some g \<Rightarrow> Inr (dg_name g)))"

definition api_rename_group :: "api_env \<Rightarrow> caller \<Rightarrow> int \<Rightarrow> str \<Rightarrow> server_state \<Rightarrow> reply" where
  "api_rename_group E c gid name s =
     (case device_group_name (ap_op E 1) gid (sv_db s) of
        Inl e \<Rightarrow> (Inl (Denied e), s)
      | Inr before \<Rightarrow>
          on_db (rename_device_group (ap_op E 2) gid name (sv_db s))
            (\<lambda>g. log_change E c (lit ''device_group.rename'') before (Some (dg_name g))) GroupIs s)"

definition api_delete_group :: "api_env \<Rightarrow> caller \<Rightarrow> int \<Rightarrow> server_state \<Rightarrow> reply" where
  "api_delete_group E c gid s =
     (case device_group_name (ap_op E 1) gid (sv_db s) of
        Inl e \<Rightarrow> (Inl (Denied e), s)
      | Inr name \<Rightarrow>
          on_db (delete_device_group (ap_op E 2) gid (sv_db s))
            (\<lambda>_. log_change E c (lit ''device_group.delete'') name None) (\<lambda>_. NoContent) s)"

text \<open>Listing tokens first deletes those that are of no more use.\<close>

definition api_list_enroll_tokens :: "api_env \<Rightarrow> server_state \<Rightarrow> reply" where
  "api_list_enroll_tokens E s =
     on_db (enroll_tokens 0 (ev_clock (ap_op E 1) 0) (ap_op E 1) (sv_db s)) (\<lambda>_ s1. s1) EnrollTokenList s"

text \<open>What a field that is left out stands for.\<close>

definition default_uses :: "u32 option" where "default_uses = Some 1"
definition default_days :: u32 where "default_days = 1"

definition api_new_enroll_token ::
  "('e, 'f) server_config \<Rightarrow> api_env \<Rightarrow> caller \<Rightarrow> str \<Rightarrow> int option \<Rightarrow> u32 option option \<Rightarrow> u32 option \<Rightarrow> server_state \<Rightarrow> reply" where
  "api_new_enroll_token cfg E c name group_id uses expires_in_days s =
     (let use_count = (case uses of None \<Rightarrow> default_uses | Some n \<Rightarrow> n);
          lifetime = (case expires_in_days of None \<Rightarrow> default_days | Some n \<Rightarrow> n) in
      on_db (new_enroll_token (sc_accounts cfg) (ap_op E 1) (ca_user c) name group_id use_count lifetime (sv_db s))
        (\<lambda>(listed, _). log_change E c (lit ''enroll_token.create'') (et_name listed)
           (Some (lit ''uses: '' @ (case et_uses_left listed of None \<Rightarrow> lit ''any'' | Some n \<Rightarrow> show_int n) @
              lit '', days: '' @ show_nat (unat lifetime) @ lit '', group: '' @
              (case group_id of None \<Rightarrow> lit ''none'' | Some g \<Rightarrow> show_row g))))
        (\<lambda>(listed, token). EnrollTokenMade token listed
           (lit ''nearhand-agent install --server '' @ sc_address cfg @ lit '' --server-fingerprint '' @ sc_fingerprint cfg @
              lit '' --token '' @ token)
           (lit ''msiexec /i nearhand-agent.msi SERVER='' @ sc_address cfg @ lit '' SERVER_FINGERPRINT='' @ sc_fingerprint cfg @
              lit '' ENROLL_TOKEN='' @ token)) s)"

definition api_delete_enroll_token :: "api_env \<Rightarrow> caller \<Rightarrow> int \<Rightarrow> server_state \<Rightarrow> reply" where
  "api_delete_enroll_token E c i s =
     (case enroll_tokens 0 (ev_clock (ap_op E 1) 0) (ap_op E 1) (sv_db s) of
        (Inl e, d) \<Rightarrow> (Inl (Denied e), s\<lparr>sv_db := d\<rparr>)
      | (Inr ts, d) \<Rightarrow>
          let name = (case find (\<lambda>t. et_id t = i) ts of None \<Rightarrow> show_row i | Some t \<Rightarrow> et_name t) in
          on_db (delete_enroll_token (ap_op E 2) i d)
            (\<lambda>_. log_change E c (lit ''enroll_token.delete'') name None) (\<lambda>_. NoContent) (s\<lparr>sv_db := d\<rparr>))"

subsection \<open>User groups and grants\<close>

definition api_list_user_groups :: "api_env \<Rightarrow> server_state \<Rightarrow> reply" where
  "api_list_user_groups E s = reading (user_groups 0 (ap_op E 1) (sv_db s)) UserGroupList s"

definition api_create_user_group :: "api_env \<Rightarrow> caller \<Rightarrow> str \<Rightarrow> server_state \<Rightarrow> reply" where
  "api_create_user_group E c name s =
     on_db (create_user_group (ap_op E 1) name (sv_db s))
       (\<lambda>g. log_change E c (lit ''user_group.create'') (ug_name g) None) UserGroupIs s"

definition api_rename_user_group :: "api_env \<Rightarrow> caller \<Rightarrow> int \<Rightarrow> str \<Rightarrow> server_state \<Rightarrow> reply" where
  "api_rename_user_group E c gid name s =
     (case get_user_group 0 (ap_op E 1) gid (sv_db s) of
        Inl e \<Rightarrow> (Inl (Denied e), s)
      | Inr before \<Rightarrow>
          on_db (rename_user_group (ap_op E 2) gid name (sv_db s))
            (\<lambda>g. log_change E c (lit ''user_group.rename'') (ug_name before) (Some (ug_name g))) UserGroupIs s)"

definition api_delete_user_group :: "api_env \<Rightarrow> caller \<Rightarrow> int \<Rightarrow> server_state \<Rightarrow> reply" where
  "api_delete_user_group E c gid s =
     (case get_user_group 0 (ap_op E 1) gid (sv_db s) of
        Inl e \<Rightarrow> (Inl (Denied e), s)
      | Inr g \<Rightarrow>
          on_db (delete_user_group (ap_op E 2) gid (sv_db s))
            (\<lambda>_. log_change E c (lit ''user_group.delete'') (ug_name g) None) (\<lambda>_. NoContent) s)"

definition user_name :: "account_env \<Rightarrow> int \<Rightarrow> database \<Rightarrow> denied + str" where
  "user_name E uid d =
     (case get_user 0 E uid (db_accounts d) of
        Inl e \<Rightarrow> Inl e
      | Inr u \<Rightarrow> Inr (case u of None \<Rightarrow> show_row uid | Some u \<Rightarrow> us_name u))"

text \<open>Adding and removing a member: the change, then the look-up of the member's name, without
  which there is no entry in the log and the answer is an error.\<close>

definition member_changed ::
  "api_env \<Rightarrow> caller \<Rightarrow> str \<Rightarrow> int \<Rightarrow> (denied + user_group) \<times> database \<Rightarrow> server_state \<Rightarrow> reply" where
  "member_changed E c action uid result s =
     (case result of
        (Inl e, d) \<Rightarrow> (Inl (Denied e), s\<lparr>sv_db := d\<rparr>)
      | (Inr g, d) \<Rightarrow>
          (case user_name (ap_op E 2) uid d of
             Inl e \<Rightarrow> (Inl (Denied e), s\<lparr>sv_db := d\<rparr>)
           | Inr name \<Rightarrow> (Inr (UserGroupIs g), log_change E c action (ug_name g) (Some name) (s\<lparr>sv_db := d\<rparr>))))"

definition api_add_member :: "api_env \<Rightarrow> caller \<Rightarrow> int \<Rightarrow> int \<Rightarrow> server_state \<Rightarrow> reply" where
  "api_add_member E c gid uid s =
     member_changed E c (lit ''user_group.add'') uid (add_member (ap_op E 1) gid uid (sv_db s)) s"

definition api_remove_member :: "api_env \<Rightarrow> caller \<Rightarrow> int \<Rightarrow> int \<Rightarrow> server_state \<Rightarrow> reply" where
  "api_remove_member E c gid uid s =
     member_changed E c (lit ''user_group.remove'') uid (remove_member (ap_op E 1) gid uid (sv_db s)) s"

definition api_list_grants :: "api_env \<Rightarrow> server_state \<Rightarrow> reply" where
  "api_list_grants E s = reading (grant_rules 0 (ap_op E 1) (sv_db s)) RuleList s"

definition between_groups :: "grant_rule \<Rightarrow> str" where
  "between_groups g = gl_user_group g @ [32, 8594, 32] @ gl_device_group g"

definition api_set_grant :: "api_env \<Rightarrow> caller \<Rightarrow> int \<Rightarrow> int \<Rightarrow> str \<Rightarrow> server_state \<Rightarrow> reply" where
  "api_set_grant E c ug dg role s =
     (case role_from_str role of
        Inl e \<Rightarrow> (Inl (Denied (Invalid e)), s)
      | Inr r \<Rightarrow>
          on_db (set_grant (ap_op E 1) ug dg r (sv_db s))
            (\<lambda>g. log_change E c (lit ''grant.set'') (between_groups g) (Some (gl_role g))) RuleIs s)"

definition api_delete_grant :: "api_env \<Rightarrow> caller \<Rightarrow> int \<Rightarrow> server_state \<Rightarrow> reply" where
  "api_delete_grant E c i s =
     (case get_grant_rule 0 (ap_op E 1) i (sv_db s) of
        Inl e \<Rightarrow> (Inl (Denied e), s)
      | Inr g \<Rightarrow>
          on_db (delete_grant (ap_op E 2) i (sv_db s))
            (\<lambda>_. log_change E c (lit ''grant.delete'') (between_groups g) (Some (gl_role g))) (\<lambda>_. NoContent) s)"

subsection \<open>The web viewer\<close>

definition WEBTRANSPORT_PATH :: str where "WEBTRANSPORT_PATH = lit ''/nearhand''"

definition api_webtransport :: "('e, 'f) server_config \<Rightarrow> server_state \<Rightarrow> reply" where
  "api_webtransport cfg s =
     (Inr (WebTransportIs (lit ''https://'' @ sc_address cfg @ WEBTRANSPORT_PATH)
        (case sc_web_hash cfg of None \<Rightarrow> [] | Some hash \<Rightarrow> [to_hex hash])), s)"

text \<open>A grant for the caller on a device, and an entry either way.\<close>

definition api_device_grant :: "('e, 'f) server_config \<Rightarrow> api_env \<Rightarrow> caller \<Rightarrow> int \<Rightarrow> server_state \<Rightarrow> reply" where
  "api_device_grant cfg E c i s =
     (case reach (ap_op E 1) (us_id (ca_user c)) (sv_db s) of
        Inl e \<Rightarrow> (Inl (Denied e), s)
      | Inr rs \<Rightarrow>
          (case find (\<lambda>r. re_id r = i) rs of
             None \<Rightarrow> (Inl (Denied NotFound), log_change E c (lit ''session.refuse'') (show_row i) (Some (lit ''no grant'')) s)
           | Some device \<Rightarrow>
               (case issue_grant (sc_grants cfg) (ap_op E 2) (sc_identity cfg) device (us_name (ca_user c)) of
                  Inl _ \<Rightarrow> (Inl (Denied internal), s)
                | Inr sg \<Rightarrow>
                    (case sc_ser_grant cfg sg of
                       Inl _ \<Rightarrow> (Inl (Denied internal), s)
                     | Inr bs \<Rightarrow>
                         let device_id = device_id_display (from_fingerprint (re_fingerprint device)) in
                         (Inr (GrantIs device_id (fingerprint_display (re_fingerprint device)) (role_as_str (re_role device)) (to_hex bs)),
                          log_change E c (lit ''session.grant'') device_id (Some (role_as_str (re_role device) @ lit '', web'')) s)))))"

text \<open>A WebSocket: from this server's pages only, whatever the method.\<close>

definition api_relay :: "request_head \<Rightarrow> server_state \<Rightarrow> reply" where
  "api_relay h s = (if \<not> same_origin h then (Inl CrossSite, s) else (Inr RelayOpened, s))"

subsection \<open>Releases and the log\<close>

definition release_name :: "held_release \<Rightarrow> str" where
  "release_name r = hr_product r @ [32] @ hr_version r @ lit '' ('' @ hr_platform r @ lit '')''"

definition on_releases ::
  "(denied + held_release) \<times> release_store \<Rightarrow> (held_release \<Rightarrow> server_state \<Rightarrow> server_state) \<Rightarrow> (held_release \<Rightarrow> answer)
     \<Rightarrow> server_state \<Rightarrow> reply" where
  "on_releases result logged answered s =
     (case result of
        (Inl e, rs) \<Rightarrow> (Inl (Denied e), s\<lparr>sv_releases := rs\<rparr>)
      | (Inr x, rs) \<Rightarrow> (Inr (answered x), logged x (s\<lparr>sv_releases := rs\<rparr>)))"

definition api_list_releases :: "api_env \<Rightarrow> server_state \<Rightarrow> reply" where
  "api_list_releases E s = reading (list_releases (ap_op E 1) (sv_releases s)) ReleaseList s"

fun read_form :: "form_field list \<Rightarrow> bytes option \<Rightarrow> str option \<Rightarrow> denied + bytes option \<times> str option" where
  "read_form [] package signature = Inr (package, signature)"
| "read_form (PackageField b # fs) package signature = read_form fs (Some b) signature"
| "read_form (SignatureField t # fs) package signature = read_form fs package (Some t)"
| "read_form (OtherField # fs) package signature = read_form fs package signature"
| "read_form (Unreadable why # fs) package signature = Inl (Invalid (lit ''the upload could not be read: '' @ why))"

definition api_upload_release :: "('e, 'f) server_config \<Rightarrow> api_env \<Rightarrow> caller \<Rightarrow> form_field list \<Rightarrow> server_state \<Rightarrow> reply" where
  "api_upload_release cfg E c form s =
     (case read_form form None None of
        Inl e \<Rightarrow> (Inl (Denied e), s)
      | Inr (Some package, Some signature) \<Rightarrow>
          on_releases (add_release (sc_checks cfg) (ap_op E 1) (ap_files E) package signature (sv_releases s))
            (\<lambda>r. log_change E c (lit ''release.upload'') (release_name r) (Some (hr_sha256 r))) ReleaseIs s
      | Inr _ \<Rightarrow>
          (Inl (Denied (Invalid (lit ''send the package and its signature file, as the fields `package` and `signature`''))), s))"

definition api_offer_release :: "api_env \<Rightarrow> caller \<Rightarrow> int \<Rightarrow> server_state \<Rightarrow> reply" where
  "api_offer_release E c i s =
     on_releases (offer_release (ap_op E 1) i (sv_releases s))
       (\<lambda>r. log_change E c (lit ''release.offer'') (release_name r) None) ReleaseIs s"

definition api_withdraw_release :: "api_env \<Rightarrow> caller \<Rightarrow> int \<Rightarrow> server_state \<Rightarrow> reply" where
  "api_withdraw_release E c i s =
     on_releases (withdraw_release (ap_op E 1) i (sv_releases s))
       (\<lambda>r. log_change E c (lit ''release.withdraw'') (release_name r) None) ReleaseIs s"

definition api_delete_release :: "api_env \<Rightarrow> caller \<Rightarrow> int \<Rightarrow> server_state \<Rightarrow> reply" where
  "api_delete_release E c i s =
     on_releases (delete_release (ap_op E 1) (ap_files E) i (sv_releases s))
       (\<lambda>r. log_change E c (lit ''release.delete'') (release_name r) None) (\<lambda>_. NoContent) s"

definition default_page :: u32 where "default_page = 100"

definition api_audit_log :: "api_env \<Rightarrow> int option \<Rightarrow> u32 option \<Rightarrow> server_state \<Rightarrow> reply" where
  "api_audit_log E before limit s =
     reading (audit_entries (ap_op E 1) before (case limit of None \<Rightarrow> default_page | Some n \<Rightarrow> n) (sv_log s)) AuditPage s"

subsection \<open>The routes\<close>

definition as_caller ::
  "('e, 'f) server_config \<Rightarrow> api_env \<Rightarrow> request_head \<Rightarrow> server_state \<Rightarrow> (caller \<Rightarrow> server_state \<Rightarrow> reply) \<Rightarrow> reply" where
  "as_caller cfg E h s handler =
     (case identify cfg E h s of (Inl e, s1) \<Rightarrow> (Inl e, s1) | (Inr c, s1) \<Rightarrow> handler c s1)"

definition as_admin ::
  "('e, 'f) server_config \<Rightarrow> api_env \<Rightarrow> request_head \<Rightarrow> server_state \<Rightarrow> (caller \<Rightarrow> server_state \<Rightarrow> reply) \<Rightarrow> reply" where
  "as_admin cfg E h s handler =
     (case identify_admin cfg E h s of (Inl e, s1) \<Rightarrow> (Inl e, s1) | (Inr c, s1) \<Rightarrow> handler c s1)"

text \<open>What each route takes before its handler: nobody, a caller or an administrator.\<close>

definition handle_signed_in ::
  "('e, 'f) server_config \<Rightarrow> api_env \<Rightarrow> request_head \<Rightarrow> api_request \<Rightarrow> caller \<Rightarrow> server_state \<Rightarrow> reply" where
  "handle_signed_in cfg E h r c s =
     (case r of
        RMe \<Rightarrow> (Inr (UserIs (ca_user c)), s)
      | RPassword current new \<Rightarrow> api_password cfg E c current new s
      | RTotpBegin \<Rightarrow> api_totp_begin E c s
      | RTotpConfirm code \<Rightarrow> api_totp_confirm cfg E c code s
      | RTotpDisable code \<Rightarrow> api_totp_disable cfg E c code s
      | RTokens \<Rightarrow> api_list_tokens E c s
      | RNewToken name expires_in_days \<Rightarrow> api_new_token cfg E c name expires_in_days s
      | RDeleteToken i \<Rightarrow> api_delete_token E c i s
      | RServer \<Rightarrow> (Inr (ServerIs (sc_address cfg) (sc_fingerprint cfg)), s)
      | RDevices \<Rightarrow> api_list_devices E c s
      | RDevice i \<Rightarrow> api_get_device E c i s
      | RDeviceGrant i \<Rightarrow> api_device_grant cfg E c i s
      | RWebTransport \<Rightarrow> api_webtransport cfg s
      | _ \<Rightarrow> api_relay h s)"

definition handle_admin ::
  "('e, 'f) server_config \<Rightarrow> api_env \<Rightarrow> api_request \<Rightarrow> caller \<Rightarrow> server_state \<Rightarrow> reply" where
  "handle_admin cfg E r c s =
     (case r of
        RMetrics \<Rightarrow> api_metrics E s
      | RUsers \<Rightarrow> api_list_users E s
      | RCreateUser name password admin \<Rightarrow> api_create_user cfg E c name password admin s
      | RUpdateUser uid admin disabled \<Rightarrow> api_update_user E c uid admin disabled s
      | RDeleteUser uid \<Rightarrow> api_delete_user E c uid s
      | RUpdateDevice i name group_id \<Rightarrow> api_update_device E c i name group_id s
      | RDeleteDevice i \<Rightarrow> api_delete_device E c i s
      | RGroups \<Rightarrow> api_list_groups E s
      | RCreateGroup name \<Rightarrow> api_create_group E c name s
      | RRenameGroup gid name \<Rightarrow> api_rename_group E c gid name s
      | RDeleteGroup gid \<Rightarrow> api_delete_group E c gid s
      | REnrollTokens \<Rightarrow> api_list_enroll_tokens E s
      | RNewEnrollToken name group_id uses days \<Rightarrow> api_new_enroll_token cfg E c name group_id uses days s
      | RDeleteEnrollToken i \<Rightarrow> api_delete_enroll_token E c i s
      | RUserGroups \<Rightarrow> api_list_user_groups E s
      | RCreateUserGroup name \<Rightarrow> api_create_user_group E c name s
      | RRenameUserGroup gid name \<Rightarrow> api_rename_user_group E c gid name s
      | RDeleteUserGroup gid \<Rightarrow> api_delete_user_group E c gid s
      | RAddMember gid uid \<Rightarrow> api_add_member E c gid uid s
      | RRemoveMember gid uid \<Rightarrow> api_remove_member E c gid uid s
      | RGrants \<Rightarrow> api_list_grants E s
      | RSetGrant ug dg role \<Rightarrow> api_set_grant E c ug dg role s
      | RDeleteGrant i \<Rightarrow> api_delete_grant E c i s
      | RReleases \<Rightarrow> api_list_releases E s
      | RUpload form \<Rightarrow> api_upload_release cfg E c form s
      | ROfferRelease i \<Rightarrow> api_offer_release E c i s
      | RWithdrawRelease i \<Rightarrow> api_withdraw_release E c i s
      | RDeleteRelease i \<Rightarrow> api_delete_release E c i s
      | RAudit before limit \<Rightarrow> api_audit_log E before limit s
      | _ \<Rightarrow> (Inl (Denied NotFound), s))"

definition for_callers :: "api_request \<Rightarrow> bool" where
  "for_callers r \<longleftrightarrow>
     (case r of
        RMe \<Rightarrow> True | RPassword _ _ \<Rightarrow> True | RTotpBegin \<Rightarrow> True | RTotpConfirm _ \<Rightarrow> True | RTotpDisable _ \<Rightarrow> True
      | RTokens \<Rightarrow> True | RNewToken _ _ \<Rightarrow> True | RDeleteToken _ \<Rightarrow> True | RServer \<Rightarrow> True | RDevices \<Rightarrow> True
      | RDevice _ \<Rightarrow> True | RDeviceGrant _ \<Rightarrow> True | RWebTransport \<Rightarrow> True | RRelay \<Rightarrow> True
      | _ \<Rightarrow> False)"

definition api_call ::
  "('e, 'f) server_config \<Rightarrow> api_env \<Rightarrow> request_head \<Rightarrow> api_request \<Rightarrow> server_state \<Rightarrow> reply" where
  "api_call cfg E h r s =
     (case r of
        RHealth \<Rightarrow> (Inr Healthy, s)
      | RSetup token name password \<Rightarrow> api_setup cfg E token name password s
      | RLogin name password totp \<Rightarrow> api_login cfg E name password totp s
      | RLogout \<Rightarrow> api_logout cfg E h s
      | _ \<Rightarrow>
          if for_callers r then as_caller cfg E h s (handle_signed_in cfg E h r)
          else as_admin cfg E h s (handle_admin cfg E r))"

end
