(* ===== verification/Release_Store_Theorems.thy ===== *)
theory Release_Store_Theorems
  imports Release_Store Directory_Invariants
begin

text \<open>
  Properties of the releases a server holds: through any operations on them, completed or
  stopped half-way, each is signed by the release key and has its package, and at most one is
  on offer for a product and platform; and what is uploaded and offered is what older agents
  install. Last, what two operations at once can do.
\<close>

subsection \<open>Runs\<close>

datatype store_event =
    SAdd account_env file_env bytes str
  | SOffer account_env int
  | SWithdraw account_env int
  | SDelete account_env file_env int

fun store_step :: "'e release_checks \<Rightarrow> store_event \<Rightarrow> release_store \<Rightarrow> release_store" where
  "store_step K (SAdd E F pkg signature) s = snd (add_release K E F pkg signature s)"
| "store_step K (SOffer E i) s = snd (offer_release E i s)"
| "store_step K (SWithdraw E i) s = snd (withdraw_release E i s)"
| "store_step K (SDelete E F i) s = snd (delete_release E F i s)"

definition store_run :: "'e release_checks \<Rightarrow> store_event list \<Rightarrow> release_store \<Rightarrow> release_store" where
  "store_run K es s = fold (store_step K) es s"

subsection \<open>A store in order\<close>

text \<open>What a row promises of its release and its package.\<close>

definition row_stands_for :: "'e release_checks \<Rightarrow> release_row \<Rightarrow> signed_release \<Rightarrow> release \<Rightarrow> bool" where
  "row_stands_for K row sr r \<longleftrightarrow>
     from_text (rw_signature row) = Inr sr \<and> release_verify (ck_crypto K) sr (ck_key K) = Inr r \<and>
     same_target (r_product r) (r_platform r) row \<and> rw_version row = version_display (r_version r) \<and>
     rw_sha256 row = r_sha256 r"

definition genuine :: "'e release_checks \<Rightarrow> (str \<rightharpoonup> bytes) \<Rightarrow> release_row \<Rightarrow> bool" where
  "genuine K files row \<longleftrightarrow>
     (\<exists>sr r pkg. row_stands_for K row sr r \<and> files (package_path (rw_sha256 row)) = Some pkg \<and>
       check_package (ck_crypto K) r pkg = Inr ())"

definition one_offer :: "release_row list \<Rightarrow> bool" where
  "one_offer rows \<longleftrightarrow>
     (\<forall>a\<in>set rows. \<forall>b\<in>set rows. rw_offered a \<and> rw_offered b \<and> rw_product a = rw_product b \<and>
       rw_platform a = rw_platform b \<longrightarrow> a = b)"

definition store_ok :: "'e release_checks \<Rightarrow> release_store \<Rightarrow> bool" where
  "store_ok K s \<longleftrightarrow>
     distinct (map rw_id (rs_rows s)) \<and> distinct (map rw_sha256 (rs_rows s)) \<and> one_offer (rs_rows s) \<and>
     (\<forall>row\<in>set (rs_rows s). genuine K (rs_files s) row)"

text \<open>What the cryptography and the serialiser do with nothing: no signature is empty, and no
  release is read from no bytes.\<close>

definition refuses_empty :: "'e release_checks \<Rightarrow> bool" where
  "refuses_empty K \<longleftrightarrow>
     (\<forall>key m. \<not> rc_verify (ck_crypto K) key m []) \<and> (\<forall>r. rc_de (ck_crypto K) [] \<noteq> Inr r)"

subsection \<open>Names of files\<close>

lemma to_hex_inj: "to_hex a = to_hex b \<Longrightarrow> a = b"
  by (metis unhex_to_hex sum.inject(2))

lemma package_path_inj [simp]: "package_path a = package_path b \<longleftrightarrow> a = b"
  by (auto simp: package_path_def dest: to_hex_inj)

lemma partial_path_other [simp]: "partial_path a \<noteq> package_path b" "package_path b \<noteq> partial_path a"
proof -
  have "last (partial_path a) \<noteq> last (package_path b)" by (simp add: partial_path_def package_path_def lit_def)
  then show "partial_path a \<noteq> package_path b" "package_path b \<noteq> partial_path a" by metis+
qed

lemma store_package_files:
  assumes "store_package F sha pkg files = (res, files')"
  shows "x \<noteq> sha \<or> (\<exists>e. res = Inl e) \<Longrightarrow> files' (package_path x) = files (package_path x)"
    and "res = Inr () \<Longrightarrow> files' (package_path sha) = Some pkg"
  using assms by (auto simp: store_package_def Let_def split: if_splits option.splits)

subsection \<open>Operations keep it\<close>

lemma genuine_files: "genuine K files row \<Longrightarrow> files' (package_path (rw_sha256 row)) = files (package_path (rw_sha256 row)) \<Longrightarrow> genuine K files' row"
  by (auto simp: genuine_def)

lemma genuine_offered [simp]: "genuine K files (row\<lparr>rw_offered := b\<rparr>) = genuine K files row"
  by (simp add: genuine_def row_stands_for_def same_target_def)

lemma store_ok_files:
  assumes "store_ok K s" and "\<And>row. row \<in> set (rs_rows s) \<Longrightarrow> files (package_path (rw_sha256 row)) = rs_files s (package_path (rw_sha256 row))"
  shows "store_ok K (s\<lparr>rs_files := files\<rparr>)"
  using assms genuine_files [of K "rs_files s" _ files] by (auto simp: store_ok_def)

lemma checked_upload:
  assumes "check_upload K pkg signature = Inr (sr, r)" and "refuses_empty K"
  shows "from_text signature = Inr sr" and "release_verify (ck_crypto K) sr (ck_key K) = Inr r"
    and "check_package (ck_crypto K) r pkg = Inr ()" and "from_text (to_text sr) = Inr sr"
proof -
  show a: "from_text signature = Inr sr" "release_verify (ck_crypto K) sr (ck_key K) = Inr r"
    "check_package (ck_crypto K) r pkg = Inr ()"
    using assms(1) by (auto simp: check_upload_def split: sum.splits)
  have "sr_signature sr \<noteq> []" "sr_release sr \<noteq> []"
    using a(2) assms(2) by (auto simp: release_verify_def refuses_empty_def split: if_splits sum.splits)
  then show "from_text (to_text sr) = Inr sr" by (intro from_to_text)
qed

lemma new_row_stands:
  assumes "check_upload K pkg signature = Inr (sr, r)" and "refuses_empty K"
  shows "row_stands_for K (new_release_row E sr r rows) sr r"
  using checked_upload [OF assms] by (simp add: row_stands_for_def new_release_row_def same_target_def)

lemma sha_taken_iff: "sha_taken sha rows \<longleftrightarrow> sha \<in> rw_sha256 ` set rows"
  by (auto simp: sha_taken_def list_ex_iff)

lemma add_release_cases:
  assumes "add_release K E F pkg signature s = (res, s')"
  obtains "s' = s" "\<forall>h. res \<noteq> Inr h"
  | sr r e files where "check_upload K pkg signature = Inr (sr, r)" "r_sha256 r \<notin> rw_sha256 ` set (rs_rows s)"
      "store_package F (r_sha256 r) pkg (rs_files s) = (e, files)" "s' = s\<lparr>rs_files := files\<rparr>" "\<forall>h. res \<noteq> Inr h"
  | sr r files row where "check_upload K pkg signature = Inr (sr, r)" "r_sha256 r \<notin> rw_sha256 ` set (rs_rows s)"
      "store_package F (r_sha256 r) pkg (rs_files s) = (Inr (), files)" "row = new_release_row E sr r (rs_rows s)"
      "s' = s\<lparr>rs_files := files, rs_rows := rs_rows s @ [row]\<rparr>" "res = get_release 2 E (rw_id row) s'"
proof (cases "check_upload K pkg signature")
  case (Inl e)
  then show ?thesis using assms that(1) by (auto simp: add_release_def)
next
  case (Inr c)
  then obtain sr r where c: "check_upload K pkg signature = Inr (sr, r)" by (cases c) auto
  show ?thesis
  proof (cases "ev_fails E 0 \<or> r_sha256 r \<in> rw_sha256 ` set (rs_rows s)")
    case True
    then show ?thesis using assms that(1) c by (auto simp: add_release_def sha_taken_iff split: if_splits)
  next
    case free: False
    obtain e files where st: "store_package F (r_sha256 r) pkg (rs_files s) = (e, files)" by (rule prod.exhaust)
    show ?thesis
    proof (cases "(\<exists>x. e = Inl x) \<or> ev_fails E 1")
      case True
      then show ?thesis using assms that(2) [OF c _ st] c st free
        by (cases e) (auto simp: add_release_def insert_release_def sha_taken_iff)
    next
      case False
      then have e: "e = Inr ()" by (cases e) auto
      have "add_release K E F pkg signature s = insert_release E sr r (s\<lparr>rs_files := files\<rparr>)"
        using c st free e by (simp add: add_release_def sha_taken_iff)
      moreover have "insert_release E sr r (s\<lparr>rs_files := files\<rparr>) =
        (get_release 2 E (rw_id (new_release_row E sr r (rs_rows s)))
           (s\<lparr>rs_files := files, rs_rows := rs_rows s @ [new_release_row E sr r (rs_rows s)]\<rparr>),
         s\<lparr>rs_files := files, rs_rows := rs_rows s @ [new_release_row E sr r (rs_rows s)]\<rparr>)"
        using free False by (simp add: insert_release_def sha_taken_iff Let_def)
      ultimately show ?thesis using assms that(3) [OF c _ st [unfolded e] refl] free by simp
    qed
  qed
qed

lemma add_release_ok:
  assumes "store_ok K s" and "refuses_empty K"
  shows "store_ok K (snd (add_release K E F pkg signature s))"
proof -
  obtain res s' where add: "add_release K E F pkg signature s = (res, s')" by (rule prod.exhaust)
  then show ?thesis
  proof (cases rule: add_release_cases)
    case 1
    then show ?thesis using assms(1) add by simp
  next
    case (2 sr r e files)
    have "store_ok K (s\<lparr>rs_files := files\<rparr>)"
    proof (rule store_ok_files [OF assms(1)])
      fix y assume "y \<in> set (rs_rows s)"
      then have "rw_sha256 y \<noteq> r_sha256 r" using 2(2) by (metis imageI)
      then show "files (package_path (rw_sha256 y)) = rs_files s (package_path (rw_sha256 y))"
        using store_package_files(1) [OF 2(3)] by simp
    qed
    then show ?thesis using add 2(4) by simp
  next
    case (3 sr r files row)
    note kept = store_package_files [OF 3(3)]
    have sha: "rw_sha256 row = r_sha256 r" and i: "rw_id row = next_id (map rw_id (rs_rows s))" "\<not> rw_offered row"
      by (simp_all add: 3(4) new_release_row_def)
    have "store_ok K (s\<lparr>rs_files := files\<rparr>)"
    proof (rule store_ok_files [OF assms(1)])
      fix y assume "y \<in> set (rs_rows s)"
      then have "rw_sha256 y \<noteq> r_sha256 r" using 3(2) by (metis imageI)
      then show "files (package_path (rw_sha256 y)) = rs_files s (package_path (rw_sha256 y))"
        using kept(1) by simp
    qed
    moreover have "genuine K files row"
      unfolding genuine_def sha
      using new_row_stands [OF 3(1) assms(2)] kept(2) checked_upload(3) [OF 3(1) assms(2)] 3(4) by blast
    moreover have "one_offer (rs_rows s @ [row])" if "one_offer (rs_rows s)"
      using that i(2) by (auto simp: one_offer_def)
    moreover have "distinct (map rw_id (rs_rows s @ [row]))" if "distinct (map rw_id (rs_rows s))"
      using distinct_key_snoc [OF that i(1)] .
    moreover have "distinct (map rw_sha256 (rs_rows s @ [row]))" if "distinct (map rw_sha256 (rs_rows s))"
      using that 3(2) sha by simp
    ultimately have "store_ok K (s\<lparr>rs_files := files, rs_rows := rs_rows s @ [row]\<rparr>)"
      by (simp add: store_ok_def del: map_append)
    then show ?thesis using add 3(5) by simp
  qed
qed

lemma offering:
  assumes "offer_release E i s = (res, s')"
  obtains "s' = s" "\<forall>h. res \<noteq> Inr h"
  | x where "x \<in> set (rs_rows s)" "rw_id x = i" "find (\<lambda>r. rw_id r = i) (rs_rows s) = Some x"
      "s' = s\<lparr>rs_rows := map (\<lambda>r. r\<lparr>rw_offered := rw_id r = i \<or> (rw_offered r \<and> \<not> same_target (rw_product x) (rw_platform x) r)\<rparr>) (rs_rows s)\<rparr>"
      "res = get_release 5 E i s'"
proof (cases "get_release 0 E i s")
  case (Inl e)
  then have "res = Inl e" "s' = s" using assms by (simp_all add: offer_release_def)
  then show ?thesis using that(1) by simp
next
  case (Inr h)
  then obtain x where x: "find (\<lambda>r. rw_id r = i) (rs_rows s) = Some x" "h = held_of x"
    by (auto simp: get_release_def split: if_splits option.splits)
  then have mem: "x \<in> set (rs_rows s)" "rw_id x = i" by (auto dest: find_SomeD)
  show ?thesis
  proof (cases "ev_fails E 1 \<or> ev_fails E 2 \<or> ev_fails E 3 \<or> ev_fails E 4")
    case True
    then show ?thesis using assms that(1) Inr by (auto simp: offer_release_def)
  next
    case False
    have eq: "(if rw_id (if t then r\<lparr>rw_offered := False\<rparr> else r) = i
         then (if t then r\<lparr>rw_offered := False\<rparr> else r)\<lparr>rw_offered := True\<rparr> else (if t then r\<lparr>rw_offered := False\<rparr> else r)) =
       r\<lparr>rw_offered := rw_id r = i \<or> (rw_offered r \<and> \<not> t)\<rparr>" for t r
      by (cases r) simp
    have same: "map (\<lambda>r. if rw_id r = i then r\<lparr>rw_offered := True\<rparr> else r)
        (map (\<lambda>r. if same_target (hr_product h) (hr_platform h) r then r\<lparr>rw_offered := False\<rparr> else r) (rs_rows s)) =
      map (\<lambda>r. r\<lparr>rw_offered := rw_id r = i \<or> (rw_offered r \<and> \<not> same_target (rw_product x) (rw_platform x) r)\<rparr>) (rs_rows s)"
      unfolding map_map comp_def eq x(2) held_of_def by simp
    show ?thesis
    proof (rule that(2) [OF mem x(1)])
      show "s' = s\<lparr>rs_rows := map (\<lambda>r. r\<lparr>rw_offered := rw_id r = i \<or>
          (rw_offered r \<and> \<not> same_target (rw_product x) (rw_platform x) r)\<rparr>) (rs_rows s)\<rparr>" and "res = get_release 5 E i s'"
        using assms Inr False same [unfolded map_map] by (auto simp: offer_release_def Let_def)
    qed
  qed
qed

lemma offer_release_ok:
  assumes "store_ok K s"
  shows "store_ok K (snd (offer_release E i s))"
proof -
  obtain res s' where off: "offer_release E i s = (res, s')" by (rule prod.exhaust)
  then show ?thesis
  proof (cases rule: offering)
    case 1
    then show ?thesis using assms off by simp
  next
    case (2 x)
    have ids: "a = b" if "a \<in> set (rs_rows s)" "b \<in> set (rs_rows s)" "rw_id a = rw_id b" for a b
      using assms that by (auto simp: store_ok_def distinct_map dest: inj_onD)
    have "one_offer (rs_rows s')"
      using assms 2(1,2) ids by (auto simp: 2(4) store_ok_def one_offer_def same_target_def; metis)
    then show ?thesis using assms off by (auto simp: store_ok_def 2(4) comp_def)
  qed
qed

lemma withdraw_release_ok:
  assumes "store_ok K s"
  shows "store_ok K (snd (withdraw_release E i s))"
proof -
  let ?off = "\<lambda>r. if rw_id r = i then r\<lparr>rw_offered := False\<rparr> else r"
  have "one_offer (map ?off (rs_rows s))" if "one_offer (rs_rows s)"
    unfolding one_offer_def
  proof (intro ballI impI)
    fix a b assume ab: "a \<in> set (map ?off (rs_rows s))" "b \<in> set (map ?off (rs_rows s))"
      "rw_offered a \<and> rw_offered b \<and> rw_product a = rw_product b \<and> rw_platform a = rw_platform b"
    then have "a \<in> set (rs_rows s)" "b \<in> set (rs_rows s)" by (auto split: if_splits)
    then show "a = b" using that ab(3) by (auto simp: one_offer_def)
  qed
  moreover have "rw_id \<circ> ?off = rw_id" "rw_sha256 \<circ> ?off = rw_sha256" by auto
  moreover have "genuine K (rs_files s) (?off r)" if "genuine K (rs_files s) r" for r using that by simp
  ultimately have "store_ok K (s\<lparr>rs_rows := map ?off (rs_rows s)\<rparr>)"
    using assms by (auto simp: store_ok_def)
  then show ?thesis using assms by (simp add: withdraw_release_def Let_def)
qed

lemma delete_release_ok:
  assumes "store_ok K s"
  shows "store_ok K (snd (delete_release E F i s))"
proof -
  have gone: "store_ok K (delete_file F (rw_sha256 x) (s\<lparr>rs_rows := filter (\<lambda>y. rw_id y \<noteq> i) (rs_rows s)\<rparr>))"
    if x: "find (\<lambda>r. rw_id r = i) (rs_rows s) = Some x" for x
  proof -
    have mem: "x \<in> set (rs_rows s)" "rw_id x = i" using x by (auto dest: find_SomeD)
    have other: "rw_sha256 y \<noteq> rw_sha256 x" if "y \<in> set (rs_rows s)" "rw_id y \<noteq> i" for y
      using assms that mem by (auto simp: store_ok_def distinct_map dest: inj_onD)
    have "store_ok K (s\<lparr>rs_rows := filter (\<lambda>y. rw_id y \<noteq> i) (rs_rows s)\<rparr>)"
      using assms by (auto simp: store_ok_def one_offer_def distinct_map_filter)
    from store_ok_files [OF this, of "(rs_files s)(package_path (rw_sha256 x) := None)"] this other
    show ?thesis by (auto simp: delete_file_def)
  qed
  show ?thesis
  proof (cases "delete_check E i s")
    case (Inl e)
    then show ?thesis using assms by (simp add: delete_release_def)
  next
    case (Inr h)
    then show ?thesis using assms gone
      by (cases "find (\<lambda>r. rw_id r = i) (rs_rows s)") (simp_all add: delete_release_def delete_row_def)
  qed
qed

lemma store_step_ok: "store_ok K s \<Longrightarrow> refuses_empty K \<Longrightarrow> store_ok K (store_step K e s)"
  by (cases e) (simp_all add: add_release_ok offer_release_ok withdraw_release_ok delete_release_ok)

lemma store_run_ok: "store_ok K s \<Longrightarrow> refuses_empty K \<Longrightarrow> store_ok K (store_run K es s)"
  unfolding store_run_def by (induction es arbitrary: s) (simp_all add: store_step_ok)

subsection \<open>What is offered\<close>

lemma offered_row:
  assumes "offer_for K E product platform current s = Inr (Some found)"
  obtains row where "row \<in> set (rs_rows s)" "rw_offered row" "same_target product platform row"
    "from_text (rw_signature row) = Inr (ro_signed found)"
    "release_verify (ck_crypto K) (ro_signed found) (ck_key K) = Inr (ro_release found)"
    "current < r_version (ro_release found)" "ro_path found = package_path (r_sha256 (ro_release found))"
  using assms
  by (auto simp: offer_for_def not_le split: if_splits option.splits sum.splits dest!: find_SomeD)

lemma offered_genuine:
  assumes "store_ok K s" and "offer_for K E product platform current s = Inr (Some found)"
  shows "release_verify (ck_crypto K) (ro_signed found) (ck_key K) = Inr (ro_release found) \<and>
    r_product (ro_release found) = product \<and> r_platform (ro_release found) = platform \<and>
    current < r_version (ro_release found) \<and>
    (\<exists>pkg. rs_files s (ro_path found) = Some pkg \<and> check_package (ck_crypto K) (ro_release found) pkg = Inr ())"
proof -
  obtain row where row: "row \<in> set (rs_rows s)" "same_target product platform row"
    "from_text (rw_signature row) = Inr (ro_signed found)"
    "release_verify (ck_crypto K) (ro_signed found) (ck_key K) = Inr (ro_release found)"
    "current < r_version (ro_release found)" "ro_path found = package_path (r_sha256 (ro_release found))"
    by (rule offered_row [OF assms(2)])
  have "genuine K (rs_files s) row" using assms(1) row(1) by (simp add: store_ok_def)
  then show ?thesis using row(2-6)
    by (auto simp: genuine_def row_stands_for_def same_target_def)
qed

text \<open>One row that is on offer is found, and no other.\<close>

lemma offer_found:
  assumes "store_ok K s" and "row \<in> set (rs_rows s)" and "rw_offered row" and "row_stands_for K row sr r"
    and "\<not> ev_fails E 0" and "current < r_version r"
  shows "offer_for K E (r_product r) (r_platform r) current s =
    Inr (Some \<lparr>ro_release = r, ro_signed = sr, ro_path = package_path (r_sha256 r)\<rparr>)"
proof -
  have target: "same_target (r_product r) (r_platform r) row" using assms(4) by (simp add: row_stands_for_def)
  have "find (\<lambda>x. same_target (r_product r) (r_platform r) x \<and> rw_offered x) (rs_rows s) = Some row"
  proof -
    obtain y where y: "find (\<lambda>x. same_target (r_product r) (r_platform r) x \<and> rw_offered x) (rs_rows s) = Some y"
      using assms(2,3) target by (cases "find (\<lambda>x. same_target (r_product r) (r_platform r) x \<and> rw_offered x) (rs_rows s)")
        (auto simp: find_None_iff)
    then have "y \<in> set (rs_rows s)" "same_target (r_product r) (r_platform r) y" "rw_offered y" by (auto dest: find_SomeD)
    moreover have "one_offer (rs_rows s)" using assms(1) by (simp add: store_ok_def)
    ultimately have "y = row" using assms(2,3) target by (simp add: one_offer_def same_target_def)
    then show ?thesis using y by simp
  qed
  then show ?thesis using assms(4-6) by (simp add: offer_for_def row_stands_for_def)
qed

subsection \<open>From the upload to the agent\<close>

text \<open>The row of a release, on offer or not, stays through what does not delete it; and on offer
  through what neither withdraws it nor offers another of its kind.\<close>

definition listed_as :: "int \<Rightarrow> 'e release_checks \<Rightarrow> signed_release \<Rightarrow> release \<Rightarrow> bytes \<Rightarrow> bool \<Rightarrow> release_store \<Rightarrow> bool" where
  "listed_as i K sr r pkg on_offer s \<longleftrightarrow>
     (\<exists>row\<in>set (rs_rows s). rw_id row = i \<and> row_stands_for K row sr r \<and> (on_offer \<longrightarrow> rw_offered row)) \<and>
     rs_files s (package_path (r_sha256 r)) = Some pkg"

fun leaves_listed :: "int \<Rightarrow> store_event \<Rightarrow> bool" where
  "leaves_listed i (SDelete E F j) \<longleftrightarrow> j \<noteq> i"
| "leaves_listed i _ \<longleftrightarrow> True"

fun leaves_offered :: "int \<Rightarrow> store_event \<Rightarrow> bool" where
  "leaves_offered i (SOffer E j) \<longleftrightarrow> j = i"
| "leaves_offered i (SWithdraw E j) \<longleftrightarrow> j \<noteq> i"
| "leaves_offered i _ \<longleftrightarrow> True"

lemma stands_offered [simp]: "row_stands_for K (row\<lparr>rw_offered := b\<rparr>) sr r = row_stands_for K row sr r"
  by (simp add: row_stands_for_def same_target_def)

lemma listed_add:
  assumes "listed_as i K sr r pkg o' s"
  shows "listed_as i K sr r pkg o' (snd (add_release K E F p sig s))"
proof -
  obtain res s' where add: "add_release K E F p sig s = (res, s')" by (rule prod.exhaust)
  have taken: "r_sha256 r \<in> rw_sha256 ` set (rs_rows s)"
    using assms by (auto simp: listed_as_def row_stands_for_def intro: rev_image_eqI)
  have kept: "files (package_path (r_sha256 r)) = rs_files s (package_path (r_sha256 r))"
    if "store_package F (r_sha256 r') p (rs_files s) = (e, files)" "r_sha256 r' \<notin> rw_sha256 ` set (rs_rows s)" for r' e files
    using store_package_files(1) [OF that(1), of "r_sha256 r"] that(2) taken by metis
  from add show ?thesis
    by (cases rule: add_release_cases) (use assms add kept in \<open>auto simp: listed_as_def\<close>)
qed

lemma listed_offer:
  assumes "listed_as i K sr r pkg o' s" and "o' \<longrightarrow> j = i"
  shows "listed_as i K sr r pkg o' (snd (offer_release E j s))"
proof -
  obtain res s' where off: "offer_release E j s = (res, s')" by (rule prod.exhaust)
  then show ?thesis
  proof (cases rule: offering)
    case 1
    then show ?thesis using assms off by simp
  next
    case (2 x)
    then show ?thesis using assms off by (auto simp: listed_as_def)
  qed
qed

lemma listed_withdraw:
  assumes "listed_as i K sr r pkg o' s" and "o' \<longrightarrow> j \<noteq> i"
  shows "listed_as i K sr r pkg o' (snd (withdraw_release E j s))"
proof -
  let ?off = "\<lambda>x. if rw_id x = j then x\<lparr>rw_offered := False\<rparr> else x"
  obtain row where row: "row \<in> set (rs_rows s)" "rw_id row = i" "row_stands_for K row sr r" "o' \<longrightarrow> rw_offered row"
    using assms(1) by (auto simp: listed_as_def)
  then have "?off row \<in> set (map ?off (rs_rows s))" "rw_id (?off row) = i" "row_stands_for K (?off row) sr r"
    "o' \<longrightarrow> rw_offered (?off row)" using assms(2) by auto
  then have "listed_as i K sr r pkg o' (s\<lparr>rs_rows := map ?off (rs_rows s)\<rparr>)"
    using assms(1) unfolding listed_as_def by auto
  then show ?thesis using assms(1) by (simp add: withdraw_release_def Let_def)
qed

lemma listed_delete:
  assumes "listed_as i K sr r pkg o' s" and "store_ok K s" and "j \<noteq> i"
  shows "listed_as i K sr r pkg o' (snd (delete_release E F j s))"
proof -
  obtain row where row: "row \<in> set (rs_rows s)" "rw_id row = i" "row_stands_for K row sr r" "o' \<longrightarrow> rw_offered row"
    using assms(1) by (auto simp: listed_as_def)
  have "rw_sha256 x \<noteq> r_sha256 r" if "find (\<lambda>x. rw_id x = j) (rs_rows s) = Some x" for x
  proof -
    have "x \<in> set (rs_rows s)" "rw_id x = j" using that by (auto dest: find_SomeD)
    then have "rw_sha256 x \<noteq> rw_sha256 row"
      using assms(2,3) row(1,2) by (auto simp: store_ok_def distinct_map dest: inj_onD)
    then show ?thesis using row(3) by (simp add: row_stands_for_def)
  qed
  then show ?thesis using assms(1,3) row
    by (cases "delete_check E j s"; cases "find (\<lambda>x. rw_id x = j) (rs_rows s)")
      (auto simp: delete_release_def delete_row_def delete_file_def listed_as_def)
qed

lemma listed_step:
  assumes "listed_as i K sr r pkg o' s" and "store_ok K s" and "leaves_listed i e" and "o' \<longrightarrow> leaves_offered i e"
  shows "listed_as i K sr r pkg o' (store_step K e s)"
  using assms by (cases e) (simp_all add: listed_add listed_offer listed_withdraw listed_delete)

lemma listed_run:
  assumes "listed_as i K sr r pkg o' s" and "store_ok K s" and "refuses_empty K"
    and "list_all (leaves_listed i) es" and "o' \<longrightarrow> list_all (leaves_offered i) es"
  shows "listed_as i K sr r pkg o' (store_run K es s) \<and> store_ok K (store_run K es s)"
  using assms
proof (induction es arbitrary: s)
  case Nil
  then show ?case by (simp add: store_run_def)
next
  case (Cons e es)
  then have "listed_as i K sr r pkg o' (store_step K e s)" "store_ok K (store_step K e s)"
    using listed_step [of i K sr r pkg o' s e] store_step_ok by auto
  then show ?case using Cons by (simp add: store_run_def)
qed

lemma listed_after_add:
  assumes "add_release K E F pkg signature s = (Inr h, s')" and "refuses_empty K"
  shows "\<exists>sr r. from_text signature = Inr sr \<and> release_verify (ck_crypto K) sr (ck_key K) = Inr r \<and>
    check_package (ck_crypto K) r pkg = Inr () \<and> listed_as (hr_id h) K sr r pkg False s'"
  using assms(1)
proof (cases rule: add_release_cases)
  case (3 sr r files row)
  have "hr_id h = rw_id row" using 3(6)
    by (auto simp: get_release_def held_of_def split: if_splits option.splits dest: find_SomeD)
  moreover have "row_stands_for K row sr r" using new_row_stands [OF 3(1) assms(2)] 3(4) by simp
  moreover have "files (package_path (r_sha256 r)) = Some pkg" using store_package_files(2) [OF 3(3)] by simp
  ultimately have "listed_as (hr_id h) K sr r pkg False s'" by (simp add: listed_as_def 3(5))
  then show ?thesis using checked_upload [OF 3(1) assms(2)] by blast
qed simp_all

lemma offered_after_offer:
  assumes "offer_release E i s = (Inr h, s')" and "listed_as i K sr r pkg False s" and "store_ok K s"
  shows "listed_as i K sr r pkg True s'"
  using assms(1)
proof (cases rule: offering)
  case (2 x)
  then show ?thesis using assms(2) by (auto simp: listed_as_def)
qed simp

text \<open>A round of an agent that this server answers, and that asks for the package in time.\<close>

definition served_env ::
  "'e release_checks \<Rightarrow> account_env \<Rightarrow> str \<Rightarrow> version \<Rightarrow> bool \<Rightarrow> bool \<Rightarrow> bool \<Rightarrow> str + unit \<Rightarrow> str + unit \<Rightarrow> release_store \<Rightarrow> update_env" where
  "served_env K E platform current before room after written started s =
     (let (msgs, body) = serve_update True (Some (offer_for K E AGENT_PRODUCT platform current s)) room True (rs_files s) in
      \<lparr>ue_session_before = before, ue_offer = offer_answered (Inr (Some (hd msgs))), ue_fetch = fetch_package body,
       ue_session_after = after, ue_write = written, ue_install = started\<rparr>)"

text \<open>What becomes of a round in which the server has a package to give: put off where a session is
  on before or after the fetching or the server is busy, else installed, unless writing it or
  starting it fails.\<close>

definition round_ends ::
  "bool \<Rightarrow> bool \<Rightarrow> bool \<Rightarrow> str + unit \<Rightarrow> str + unit \<Rightarrow> bytes \<Rightarrow> (update_error + checked) \<times> bytes option" where
  "round_ends before room after written started pkg =
     (if before \<or> \<not> room \<or> after then (Inr NotNow, None)
      else case written of
        Inl e \<Rightarrow> (Inl (Unwritten e), None)
      | Inr _ \<Rightarrow> (case started of Inl e \<Rightarrow> (Inl (Uninstalled e), Some pkg) | Inr _ \<Rightarrow> (Inr Installing, Some pkg)))"

lemma served_update:
  assumes "listed_as i K sr r pkg True s" and "store_ok K s" and "\<not> ev_fails E 0"
    and "check_package (ck_crypto K) r pkg = Inr ()" and "suitable r platform current = Inr ()"
    and "length pkg < 2 ^ 64"
  shows "update_once (ck_crypto K) (ck_key K) platform current (served_env K E platform current before room after written started s) =
    round_ends before room after written started pkg"
proof -
  obtain row where row: "row \<in> set (rs_rows s)" "rw_offered row" "row_stands_for K row sr r"
    and there: "rs_files s (package_path (r_sha256 r)) = Some pkg"
    using assms(1) by (auto simp: listed_as_def)
  have r: "r_product r = AGENT_PRODUCT" "r_platform r = platform" "current < r_version r"
    using assms(5) by (simp_all add: suitable_Inr_iff)
  have "offer_for K E AGENT_PRODUCT platform current s =
    Inr (Some \<lparr>ro_release = r, ro_signed = sr, ro_path = package_path (r_sha256 r)\<rparr>)"
    using offer_found [OF assms(2) row assms(3) r(3)] r(1,2) by simp
  moreover have "unat (r_size r) = length pkg"
    using assms(4,6) by (auto simp: check_package_def unat_of_nat take_bit_eq_mod dest!: sym [of _ "r_size r"] split: if_splits)
  moreover have "release_verify (ck_crypto K) sr (ck_key K) = Inr r" using row(3) by (simp add: row_stands_for_def)
  ultimately show ?thesis
    using assms(4,5) there
    by (simp add: served_env_def serve_update_def offer_answered_def fetch_package_def update_once_def round_ends_def split: sum.split)
qed

subsection \<open>Two operations at once\<close>

text \<open>The three steps of a deletion with what another request does between them. Offered after
  the check, a release is deleted while it is on offer; and the same package, uploaded again
  between the row's going and the file's, is listed with no package.\<close>

lemma find_mapped: "find P (map f xs) = map_option f (find (\<lambda>x. P (f x)) xs)"
  by (induction xs) auto

lemma offered_release_deleted:
  assumes "delete_check E i s = Inr h" and "\<not> ev_fails E 1" and "\<And>n. \<not> ev_fails E' n"
  shows "\<exists>h' s1 sha. offer_release E' i s = (Inr h', s1) \<and> hr_offered h' \<and>
    fst (delete_row E i s1) = Inr sha \<and> i \<notin> rw_id ` set (rs_rows (snd (delete_row E i s1)))"
proof -
  obtain x where x: "find (\<lambda>r. rw_id r = i) (rs_rows s) = Some x"
    using assms(1) by (auto simp: delete_check_def get_release_def split: sum.splits if_splits option.splits)
  obtain res s1 where off: "offer_release E' i s = (res, s1)" by (rule prod.exhaust)
  let ?f = "\<lambda>r. r\<lparr>rw_offered := rw_id r = i \<or> (rw_offered r \<and> \<not> same_target (rw_product x) (rw_platform x) r)\<rparr>"
  have found: "find (\<lambda>r. rw_id r = i) (map ?f (rs_rows s)) = Some (?f x)"
    using x by (simp add: find_mapped)
  from off show ?thesis
  proof (cases rule: offering)
    case 1
    have "get_release 0 E' i s = Inr (held_of x)" using x assms(3) by (simp add: get_release_def)
    then have "res = get_release 5 E' i s" using off 1(1) assms(3) by (auto simp: offer_release_def Let_def)
    then show ?thesis using 1(2) x assms(3) by (simp add: get_release_def)
  next
    case (2 y)
    then have rows: "rs_rows s1 = map ?f (rs_rows s)" using x by simp
    have "rw_id x = i" using x by (auto dest: find_SomeD)
    then have "res = Inr (held_of (?f x))" "hr_offered (held_of (?f x))"
      using 2(5) found assms(3) rows by (simp_all add: get_release_def held_of_def)
    moreover have "fst (delete_row E i s1) = Inr (rw_sha256 (?f x))" "i \<notin> rw_id ` set (rs_rows (snd (delete_row E i s1)))"
      using found assms(2) rows by (auto simp: delete_row_def)
    ultimately show ?thesis using off by blast
  qed
qed

lemma package_lost_to_a_deletion:
  assumes "check_upload K pkg signature = Inr (sr, r)" and "delete_row E i s = (Inr (r_sha256 r), s1)"
    and "add_release K E' F pkg signature s1 = (Inr h, s2)" and "length (r_sha256 r) = 32" and "fe_remove F'"
  shows "rs_files (delete_file F' (r_sha256 r) s2) (package_path (r_sha256 r)) = None \<and>
    (\<exists>row\<in>set (rs_rows (delete_file F' (r_sha256 r) s2)). rw_sha256 row = r_sha256 r)"
  using assms(3)
proof (cases rule: add_release_cases)
  case (3 sr' r' files row)
  then have "row \<in> set (rs_rows s2)" "rw_sha256 row = r_sha256 r"
    using assms(1) by (simp_all add: new_release_row_def)
  then show ?thesis using assms(4,5) by (auto simp: delete_file_def)
qed simp_all

subsection \<open>An instance for the witnesses\<close>

definition demo_file :: signed_release where
  "demo_file = \<lparr>sr_release = [9], sr_signature = RELEASE_CONTEXT @ [9]\<rparr>"

definition demo_checks :: "unit release_checks" where
  "demo_checks = \<lparr>ck_crypto = demo_release_crypto\<lparr>rc_verify := (\<lambda>key m sig. sig = m \<and> sig \<noteq> []),
     rc_de := (\<lambda>b. if b = [] then Inl () else Inr demo_release)\<rparr>, ck_key = [], ck_quoted = (\<lambda>t. t)\<rparr>"

definition calm :: account_env where
  "calm = \<lparr>ev_clock = (\<lambda>_. 300), ev_instant = (\<lambda>_. 0), ev_fails = (\<lambda>_. False), ev_random = (\<lambda>_. Some [1])\<rparr>"

lemma calm_fails [simp]: "\<not> ev_fails calm n"
  by (simp add: calm_def)

definition calm_files :: file_env where
  "calm_files = \<lparr>fe_folder = True, fe_write = None, fe_rename = True, fe_remove = True\<rparr>"

definition no_releases :: release_store where
  "no_releases = \<lparr>rs_rows = [], rs_files = Map.empty\<rparr>"

lemma no_releases_ok: "store_ok K no_releases"
  by (simp add: store_ok_def no_releases_def one_offer_def)

lemma demo_checks_refuse: "refuses_empty demo_checks"
  by (simp add: refuses_empty_def demo_checks_def demo_release_crypto_def)

lemma demo_upload: "check_upload demo_checks [1, 2] (to_text demo_file) = Inr (demo_file, demo_release)"
proof -
  have "from_text (to_text demo_file) = Inr demo_file" by (rule from_to_text) (simp_all add: demo_file_def)
  then show ?thesis
    by (simp add: check_upload_def release_verify_def release_signed_bytes_def demo_checks_def demo_release_crypto_def
        demo_file_def check_package_def demo_release_def)
qed

definition demo_held :: release_row where
  "demo_held = new_release_row calm demo_file demo_release []"

lemma demo_added: "add_release demo_checks calm calm_files [1, 2] (to_text demo_file) no_releases =
  (Inr (held_of demo_held), \<lparr>rs_rows = [demo_held], rs_files = [package_path [1, 2] \<mapsto> [1, 2]]\<rparr>)"
proof -
  have "(Map.empty(partial_path [1, 2] \<mapsto> [1, 2::u8]))(partial_path [1, 2] := None) = Map.empty" by auto
  then show ?thesis
    by (simp add: add_release_def demo_upload insert_release_def sha_taken_def no_releases_def calm_def calm_files_def
        store_package_def demo_held_def get_release_def demo_release_def Let_def)
qed

lemma demo_offered: "offer_release calm 1 \<lparr>rs_rows = [demo_held], rs_files = files\<rparr> =
  (Inr (held_of (demo_held\<lparr>rw_offered := True\<rparr>)), \<lparr>rs_rows = [demo_held\<lparr>rw_offered := True\<rparr>], rs_files = files\<rparr>)"
  by (simp add: offer_release_def get_release_def calm_def demo_held_def new_release_row_def next_id_def held_of_def
      same_target_def)

subsection \<open>Properties\<close>

text \<open>C18. Whatever is uploaded, offered, withdrawn and deleted, completed or stopped half-way, what
  the server offers an agent is signed by the release key, for its product and platform, newer
  than what it runs, the only one on offer for them, and its package is there, with the size and
  hash that were signed.\<close>

theorem only_signed_releases_are_offered:
  assumes "store_ok K s" and "refuses_empty K"
    and "offer_for K E product platform current (store_run K es s) = Inr (Some found)"
  shows "rc_verify (ck_crypto K) (ck_key K) (RELEASE_CONTEXT @ sr_release (ro_signed found)) (sr_signature (ro_signed found)) \<and>
    rc_de (ck_crypto K) (sr_release (ro_signed found)) = Inr (ro_release found) \<and>
    r_product (ro_release found) = product \<and> r_platform (ro_release found) = platform \<and>
    current < r_version (ro_release found) \<and>
    (\<exists>pkg. rs_files (store_run K es s) (ro_path found) = Some pkg \<and>
      word_of_nat (length pkg) = r_size (ro_release found) \<and> rc_sha (ck_crypto K) pkg = r_sha256 (ro_release found)) \<and>
    (\<exists>!row. row \<in> set (rs_rows (store_run K es s)) \<and> rw_offered row \<and> rw_product row = product \<and> rw_platform row = platform)"
proof -
  note ok = store_run_ok [OF assms(1,2), of es]
  obtain row where row: "row \<in> set (rs_rows (store_run K es s))" "rw_offered row" "same_target product platform row"
    by (rule offered_row [OF assms(3)]) (rule that)
  have only: "y = row" if "y \<in> set (rs_rows (store_run K es s))" "rw_offered y" "rw_product y = product" "rw_platform y = platform" for y
  proof -
    have "one_offer (rs_rows (store_run K es s))" using ok by (simp only: store_ok_def)
    then have "rw_offered y \<and> rw_offered row \<and> rw_product y = rw_product row \<and> rw_platform y = rw_platform row \<longrightarrow> y = row"
      unfolding one_offer_def using that(1) row(1) by blast
    then show ?thesis using that row(2,3) by (simp add: same_target_def)
  qed
  have one: "\<exists>!row. row \<in> set (rs_rows (store_run K es s)) \<and> rw_offered row \<and> rw_product row = product \<and> rw_platform row = platform"
  proof (rule ex1I)
    show "row \<in> set (rs_rows (store_run K es s)) \<and> rw_offered row \<and> rw_product row = product \<and> rw_platform row = platform"
      using row by (simp add: same_target_def)
  qed (elim conjE, rule only)
  note genuine = offered_genuine [OF ok assms(3)]
  then have "release_verify (ck_crypto K) (ro_signed found) (ck_key K) = Inr (ro_release found)" by (rule conjunct1)
  then have verified: "rc_verify (ck_crypto K) (ck_key K) (RELEASE_CONTEXT @ sr_release (ro_signed found)) (sr_signature (ro_signed found))"
    "rc_de (ck_crypto K) (sr_release (ro_signed found)) = Inr (ro_release found)"
    by (simp_all add: release_verify_def release_signed_bytes_def split: if_splits sum.splits)
  obtain pkg where "rs_files (store_run K es s) (ro_path found) = Some pkg"
    "check_package (ck_crypto K) (ro_release found) pkg = Inr ()" using genuine by (elim conjE exE)
  then have there: "\<exists>pkg. rs_files (store_run K es s) (ro_path found) = Some pkg \<and>
      word_of_nat (length pkg) = r_size (ro_release found) \<and> rc_sha (ck_crypto K) pkg = r_sha256 (ro_release found)"
    by (simp add: check_package_def split: if_splits)
  show ?thesis by (intro conjI verified there one genuine [THEN conjunct2, THEN conjunct1]
        genuine [THEN conjunct2, THEN conjunct2, THEN conjunct1] genuine [THEN conjunct2, THEN conjunct2, THEN conjunct2, THEN conjunct1])
qed

theorem only_signed_releases_are_offered_witness:
  "\<exists>pkg. rs_files (store_run demo_checks [SAdd calm calm_files [1, 2] (to_text demo_file), SOffer calm 1] no_releases)
    (package_path [1, 2]) = Some pkg \<and> length pkg = 2"
proof -
  let ?es = "[SAdd calm calm_files [1, 2] (to_text demo_file), SOffer calm 1]"
  let ?s = "\<lparr>rs_rows = [demo_held\<lparr>rw_offered := True\<rparr>], rs_files = [package_path [1, 2] \<mapsto> [1, 2]]\<rparr>"
  have run: "store_run demo_checks ?es no_releases = ?s"
    by (simp add: store_run_def demo_added demo_offered)
  have stands: "row_stands_for demo_checks (demo_held\<lparr>rw_offered := True\<rparr>) demo_file demo_release"
    using new_row_stands [OF demo_upload demo_checks_refuse] by (simp add: demo_held_def)
  have "store_ok demo_checks (store_run demo_checks ?es no_releases)"
    by (rule store_run_ok [OF no_releases_ok demo_checks_refuse])
  then have "offer_for demo_checks calm (r_product demo_release) (r_platform demo_release) (Version 0 2 0)
      (store_run demo_checks ?es no_releases) =
    Inr (Some \<lparr>ro_release = demo_release, ro_signed = demo_file, ro_path = package_path (r_sha256 demo_release)\<rparr>)"
    by (rule offer_found [OF _ _ _ stands])
      (simp_all add: run calm_fails demo_release_def less_eq_version_def version_le_def less_le_not_le)
  from only_signed_releases_are_offered [OF no_releases_ok demo_checks_refuse this]
  have "\<exists>pkg. rs_files (store_run demo_checks ?es no_releases) (package_path (r_sha256 demo_release)) = Some pkg" by auto
  then show ?thesis by (simp add: run demo_release_def)
qed

text \<open>C19. A release reaches the agents: a package whose upload was taken and that was then
  offered, with no request since that deletes or withdraws it or offers another, requests one
  after another, is what an agent it suits is offered, fetches and finds to be the one signed.
  It installs it, unless a session is on before or after the fetching or the server is busy,
  which put it off, or writing or starting it fails. Given that the server can look releases up
  and the agent asks for the package in time.\<close>

theorem uploads_reach_agents:
  assumes "store_ok K s" and "refuses_empty K"
    and "add_release K E1 F pkg signature s = (Inr h, s1)"
    and "list_all (leaves_listed (hr_id h)) es1"
    and "offer_release E2 (hr_id h) (store_run K es1 s1) = (Inr h', s2)"
    and "list_all (leaves_listed (hr_id h)) es2" and "list_all (leaves_offered (hr_id h)) es2"
    and "\<And>sr r. from_text signature = Inr sr \<Longrightarrow> release_verify (ck_crypto K) sr (ck_key K) = Inr r \<Longrightarrow>
      suitable r platform current = Inr ()"
    and "length pkg < 2 ^ 64" and "\<not> ev_fails E 0"
  shows "update_once (ck_crypto K) (ck_key K) platform current
      (served_env K E platform current before room after written started (store_run K es2 s2)) =
    round_ends before room after written started pkg"
proof -
  obtain sr r where r: "from_text signature = Inr sr" "release_verify (ck_crypto K) sr (ck_key K) = Inr r"
    "check_package (ck_crypto K) r pkg = Inr ()" and "listed_as (hr_id h) K sr r pkg False s1"
    using listed_after_add [OF assms(3,2)] by blast
  moreover have "store_ok K s1" using add_release_ok [OF assms(1,2), of E1 F pkg signature] assms(3) by simp
  ultimately have "listed_as (hr_id h) K sr r pkg False (store_run K es1 s1)" "store_ok K (store_run K es1 s1)"
    using listed_run [OF _ _ assms(2,4), where sr = sr and r = r and pkg = pkg and o' = False and s = s1] by auto
  then have "listed_as (hr_id h) K sr r pkg True s2" "store_ok K s2"
    using offered_after_offer [OF assms(5)] offer_release_ok [of K "store_run K es1 s1" E2 "hr_id h"] assms(5) by auto
  then have "listed_as (hr_id h) K sr r pkg True (store_run K es2 s2)" "store_ok K (store_run K es2 s2)"
    using listed_run [OF _ _ assms(2,6), where sr = sr and r = r and pkg = pkg and o' = True and s = s2] assms(7) by auto
  then show ?thesis by (rule served_update [OF _ _ assms(10) r(3) assms(8) [OF r(1,2)] assms(9)])
qed

theorem uploads_reach_agents_witness:
  "update_once (ck_crypto demo_checks) [] WINDOWS_X86_64 (Version 0 2 0)
     (served_env demo_checks calm WINDOWS_X86_64 (Version 0 2 0) False True False (Inr ()) (Inr ())
       (store_run demo_checks [SWithdraw calm 7] \<lparr>rs_rows = [demo_held\<lparr>rw_offered := True\<rparr>], rs_files = [package_path [1, 2] \<mapsto> [1, 2]]\<rparr>)) =
   (Inr Installing, Some [1, 2])"
proof -
  have key: "ck_key demo_checks = []" by (simp add: demo_checks_def)
  have i: "hr_id (held_of demo_held) = 1" by (simp add: held_of_def demo_held_def new_release_row_def next_id_def)
  have "store_run demo_checks [] \<lparr>rs_rows = [demo_held], rs_files = [package_path [1, 2] \<mapsto> [1, 2]]\<rparr> =
    \<lparr>rs_rows = [demo_held], rs_files = [package_path [1, 2] \<mapsto> [1, 2]]\<rparr>" by (simp add: store_run_def)
  then have offered: "offer_release calm (hr_id (held_of demo_held)) (store_run demo_checks [] \<lparr>rs_rows = [demo_held], rs_files = [package_path [1, 2] \<mapsto> [1, 2]]\<rparr>) =
    (Inr (held_of (demo_held\<lparr>rw_offered := True\<rparr>)), \<lparr>rs_rows = [demo_held\<lparr>rw_offered := True\<rparr>], rs_files = [package_path [1, 2] \<mapsto> [1, 2]]\<rparr>)"
    unfolding i by (simp add: demo_offered)
  have suits: "suitable demo_release WINDOWS_X86_64 (Version 0 2 0) = Inr ()"
    by (simp add: suitable_Inr_iff demo_release_def MAX_PACKAGE_def less_eq_version_def version_le_def less_le_not_le)
  have "suitable r WINDOWS_X86_64 (Version 0 2 0) = Inr ()"
    if "from_text (to_text demo_file) = Inr sr" "release_verify (ck_crypto demo_checks) sr (ck_key demo_checks) = Inr r" for sr r
    using that checked_upload(2,4) [OF demo_upload demo_checks_refuse] suits by simp
  from uploads_reach_agents [OF no_releases_ok demo_checks_refuse demo_added _ offered _ _ this, where ?es2.0 = "[SWithdraw calm 7]" and E = calm
      and before = False and room = True and after = False and written = "Inr ()" and started = "Inr ()"]
  show ?thesis by (simp add: i key calm_def round_ends_def)
qed

end
