(* ===== verification/Api_Run.thy ===== *)
theory Api_Run
  imports Api Release_Store_Theorems Directory_Theorems
begin

text \<open>
  What any requests to the web interface do to the server: to the database what a run of
  \<open>Directory\<close> does, to the releases what a run of \<open>Release_Store_Theorems\<close> does, and to the log
  only additions. So the invariants of the parts are invariants of the server.
\<close>

subsection \<open>Runs of the parts\<close>

definition log_run :: "(account_env \<times> audit_event) list \<Rightarrow> audit_row list \<Rightarrow> audit_row list" where
  "log_run es rows = fold (\<lambda>(E, e). audit_record E e) es rows"

definition leads_to :: "('e, 'f) server_config \<Rightarrow> server_state \<Rightarrow> server_state \<Rightarrow> bool" where
  "leads_to cfg s s' \<longleftrightarrow>
     (\<exists>ds. list_all keyed ds \<and> sv_db s' = directory_run (sc_accounts cfg) ds (sv_db s)) \<and>
     (\<exists>rs. sv_releases s' = store_run (sc_checks cfg) rs (sv_releases s)) \<and>
     (\<exists>es. sv_log s' = log_run es (sv_log s))"

lemma leads_to_refl [simp]: "leads_to cfg s s"
proof -
  have "sv_db s = directory_run (sc_accounts cfg) [] (sv_db s)" "sv_releases s = store_run (sc_checks cfg) [] (sv_releases s)"
    "sv_log s = log_run [] (sv_log s)"
    "list_all keyed []" by (simp_all add: directory_run_def store_run_def log_run_def)
  then show ?thesis unfolding leads_to_def by blast
qed

lemma leads_to_trans [trans]:
  assumes "leads_to cfg s s'" and "leads_to cfg s' s''"
  shows "leads_to cfg s s''"
proof -
  from assms obtain d1 d2 r1 r2 e1 e2 where
    "list_all keyed d1" "sv_db s' = directory_run (sc_accounts cfg) d1 (sv_db s)"
    "list_all keyed d2" "sv_db s'' = directory_run (sc_accounts cfg) d2 (sv_db s')"
    "sv_releases s' = store_run (sc_checks cfg) r1 (sv_releases s)"
    "sv_releases s'' = store_run (sc_checks cfg) r2 (sv_releases s')"
    "sv_log s' = log_run e1 (sv_log s)" "sv_log s'' = log_run e2 (sv_log s')"
    unfolding leads_to_def by blast
  then have "list_all keyed (d1 @ d2)" "sv_db s'' = directory_run (sc_accounts cfg) (d1 @ d2) (sv_db s)"
    "sv_releases s'' = store_run (sc_checks cfg) (r1 @ r2) (sv_releases s)"
    "sv_log s'' = log_run (e1 @ e2) (sv_log s)"
    by (simp_all add: directory_run_def store_run_def log_run_def)
  then show ?thesis unfolding leads_to_def by blast
qed

lemma leads_to_db:
  assumes "keyed e"
  shows "leads_to cfg s (s\<lparr>sv_db := directory_step (sc_accounts cfg) e (sv_db s)\<rparr>)"
proof -
  have "directory_step (sc_accounts cfg) e (sv_db s) = directory_run (sc_accounts cfg) [e] (sv_db s)" "list_all keyed [e]"
    "sv_releases s = store_run (sc_checks cfg) [] (sv_releases s)" "sv_log s = log_run [] (sv_log s)"
    using assms by (simp_all add: directory_run_def store_run_def log_run_def)
  then show ?thesis unfolding leads_to_def by (metis (no_types, lifting) server_state.select_convs server_state.surjective server_state.update_convs(1))
qed

lemma leads_to_releases: "leads_to cfg s (s\<lparr>sv_releases := store_step (sc_checks cfg) e (sv_releases s)\<rparr>)"
proof -
  have "store_step (sc_checks cfg) e (sv_releases s) = store_run (sc_checks cfg) [e] (sv_releases s)"
    "sv_db s = directory_run (sc_accounts cfg) [] (sv_db s)" "list_all keyed []" "sv_log s = log_run [] (sv_log s)"
    by (simp_all add: directory_run_def store_run_def log_run_def)
  then show ?thesis unfolding leads_to_def by (metis (no_types, lifting) server_state.select_convs server_state.surjective server_state.update_convs(3))
qed

lemma leads_to_log: "leads_to cfg s (s\<lparr>sv_log := audit_record E e (sv_log s)\<rparr>)"
proof -
  have "audit_record E e (sv_log s) = log_run [(E, e)] (sv_log s)"
    "sv_db s = directory_run (sc_accounts cfg) [] (sv_db s)" "list_all keyed []"
    "sv_releases s = store_run (sc_checks cfg) [] (sv_releases s)"
    by (simp_all add: directory_run_def store_run_def log_run_def)
  then show ?thesis unfolding leads_to_def by (metis (no_types, lifting) server_state.select_convs server_state.surjective server_state.update_convs(2))
qed

lemma leads_to_change [simp]: "leads_to cfg s (log_change E c action target detail s)"
  unfolding log_change_def by (rule leads_to_log)

lemma with_accounts_eq: "with_accounts (account_step (sc_accounts cfg) e (db_accounts (sv_db s))) s =
  s\<lparr>sv_db := directory_step (sc_accounts cfg) (DAccounts e) (sv_db s)\<rparr>" if "\<And>E uid. e \<noteq> EDeleteUser E uid"
proof (cases e)
  case (EDeleteUser E uid)
  then show ?thesis using that by blast
qed (simp_all add: with_accounts_def accounts_step_def)

lemma leads_to_accounts: "(\<And>E uid. e \<noteq> EDeleteUser E uid) \<Longrightarrow> a = account_step (sc_accounts cfg) e (db_accounts (sv_db s)) \<Longrightarrow>
  leads_to cfg s (with_accounts a s)"
  using leads_to_db [of "DAccounts e" cfg s] with_accounts_eq [of e cfg s] by (simp add: keyed_def)

subsection \<open>What handlers share\<close>

lemma on_accounts_leads:
  assumes "\<And>E uid. e \<noteq> EDeleteUser E uid" and "snd result = account_step (sc_accounts cfg) e (db_accounts (sv_db s))"
    and "\<And>x s1. leads_to cfg s1 (logged x s1)"
  shows "leads_to cfg s (snd (on_accounts result logged answered s))"
proof -
  obtain res a where r: "result = (res, a)" by (rule prod.exhaust)
  then have "leads_to cfg s (with_accounts a s)" using assms(1,2) by (intro leads_to_accounts [of e]) simp_all
  then show ?thesis using leads_to_trans [OF _ assms(3)]
    by (cases res) (simp_all add: on_accounts_def r)
qed

lemma on_db_leads:
  assumes "keyed e" and "snd result = directory_step (sc_accounts cfg) e (sv_db s)" and "\<And>x s1. leads_to cfg s1 (logged x s1)"
  shows "leads_to cfg s (snd (on_db result logged answered s))"
proof -
  obtain res d where r: "result = (res, d)" by (rule prod.exhaust)
  then have "leads_to cfg s (s\<lparr>sv_db := d\<rparr>)" using leads_to_db [OF assms(1), of cfg s] assms(2) by simp
  then show ?thesis using leads_to_trans [OF _ assms(3)] by (cases res) (simp_all add: on_db_def r)
qed

lemma on_releases_leads:
  assumes "snd result = store_step (sc_checks cfg) e (sv_releases s)" and "\<And>x s1. leads_to cfg s1 (logged x s1)"
  shows "leads_to cfg s (snd (on_releases result logged answered s))"
proof -
  obtain res rs where r: "result = (res, rs)" by (rule prod.exhaust)
  then have "leads_to cfg s (s\<lparr>sv_releases := rs\<rparr>)" using leads_to_releases [of cfg s e] assms(1) by simp
  then show ?thesis using leads_to_trans [OF _ assms(2)] by (cases res) (simp_all add: on_releases_def r)
qed

lemma reading_state [simp]: "snd (reading result answered s) = s"
  by (cases result) (simp_all add: reading_def)

lemma leads_to_identify: "leads_to cfg s (snd (identify cfg E h s))"
proof (cases "bearer h")
  case None
  then show ?thesis by (auto simp: identify_def Let_def split: option.split sum.split)
next
  case (Some token)
  obtain res a where r: "Accounts.api_user (sc_accounts cfg) (ap_op E 0) token (db_accounts (sv_db s)) = (res, a)" by (rule prod.exhaust)
  then have "leads_to cfg s (with_accounts a s)"
    by (intro leads_to_accounts [of "EApiUser (ap_op E 0) token"]) simp_all
  then show ?thesis using Some r by (cases res) (simp_all add: identify_def Let_def)
qed

lemma leads_to_identify_admin: "leads_to cfg s (snd (identify_admin cfg E h s))"
  using leads_to_identify [of cfg s E h] by (auto simp: identify_admin_def split: prod.split sum.split)

subsection \<open>Every handler\<close>

lemma setup_leads: "leads_to cfg s (snd (api_setup cfg E token name password s))"
proof -
  obtain res a where r: "setup_admin (sc_accounts cfg) (ap_op E 1) token name password (db_accounts (sv_db s)) = (res, a)"
    by (rule prod.exhaust)
  then have "leads_to cfg s (with_accounts a s)"
    by (intro leads_to_accounts [of "ESetup (ap_op E 1) token name password"]) simp_all
  then show ?thesis using leads_to_trans [OF _ leads_to_change] r by (cases res) (simp_all add: api_setup_def)
qed

lemma login_leads: "leads_to cfg s (snd (api_login cfg E name password totp s))"
proof -
  obtain res a where r: "sign_in (sc_accounts cfg) (ap_op E 1) name password totp (to_canonical (ap_from E)) (db_accounts (sv_db s)) = (res, a)"
    by (rule prod.exhaust)
  then have a: "leads_to cfg s (with_accounts a s)"
    by (intro leads_to_accounts [of "ESignIn (ap_op E 1) name password totp (to_canonical (ap_from E))"]) simp_all
  have logged: "leads_to cfg s ((with_accounts a s)\<lparr>sv_log := audit_record (ap_audit E) e (sv_log s)\<rparr>)" for e
    using leads_to_trans [OF a leads_to_log, of "ap_audit E" e] by (simp add: with_accounts_def)
  show ?thesis
  proof (cases res)
    case (Inl e)
    then show ?thesis using r a logged by (cases e) (simp_all add: api_login_def Let_def)
  next
    case (Inr x)
    then show ?thesis using r leads_to_trans [OF a leads_to_change] by (cases x) (simp add: api_login_def Let_def)
  qed
qed

lemma logout_leads: "leads_to cfg s (snd (api_logout cfg E h s))"
proof (cases "cookie h SESSION_COOKIE")
  case None
  then show ?thesis by (simp add: api_logout_def)
next
  case (Some token)
  obtain res a where r: "sign_out (sc_accounts cfg) (ap_op E 1) token (db_accounts (sv_db s)) = (res, a)" by (rule prod.exhaust)
  then have "leads_to cfg s (with_accounts a s)"
    by (intro leads_to_accounts [of "ESignOut (ap_op E 1) token"]) simp_all
  then show ?thesis using Some r by (cases res) (simp_all add: api_logout_def)
qed

lemma signed_in_leads: "leads_to cfg s (snd (handle_signed_in cfg E h r c s))"
proof -
  have "leads_to cfg s (snd (api_password cfg E c current new s))" for current new
    unfolding api_password_def
    by (rule on_accounts_leads [of "EChangePassword (ap_op E 1) (us_id (ca_user c)) current new"]) simp_all
  moreover have "leads_to cfg s (snd (api_totp_begin E c s))"
    unfolding api_totp_begin_def by (rule on_accounts_leads [of "ETotpBegin (ap_op E 1) (ca_user c)"]) simp_all
  moreover have "leads_to cfg s (snd (api_totp_confirm cfg E c code s))" for code
    unfolding api_totp_confirm_def by (rule on_accounts_leads [of "ETotpConfirm (ap_op E 1) (us_id (ca_user c)) code"]) simp_all
  moreover have "leads_to cfg s (snd (api_totp_disable cfg E c code s))" for code
    unfolding api_totp_disable_def by (rule on_accounts_leads [of "ETotpDisable (ap_op E 1) (us_id (ca_user c)) code"]) simp_all
  moreover have "leads_to cfg s (snd (api_new_token cfg E c name days s))" for name days
    unfolding api_new_token_def
    by (rule on_accounts_leads [of "ENewToken (ap_op E 1) (us_id (ca_user c)) name days"]) (simp_all split: prod.split)
  moreover have "leads_to cfg s (snd (api_delete_token E c i s))" for i
    unfolding api_delete_token_def by (rule on_accounts_leads [of "EDeleteToken (ap_op E 1) (us_id (ca_user c)) i"]) simp_all
  moreover have "snd (api_list_devices E c s) = s"
    by (simp add: api_list_devices_def split: sum.split)
  moreover have "snd (api_get_device E c i s) = s" for i
    by (simp add: api_get_device_def split: sum.split option.split)
  moreover have "leads_to cfg s (snd (api_device_grant cfg E c i s))" for i
    by (simp add: api_device_grant_def Let_def split: sum.split option.split)
  ultimately show ?thesis
    by (cases r) (simp_all add: handle_signed_in_def api_list_tokens_def api_webtransport_def api_relay_def)
qed

lemma member_changed_leads:
  assumes "keyed e" and "snd result = directory_step (sc_accounts cfg) e (sv_db s)"
  shows "leads_to cfg s (snd (member_changed E c action uid result s))"
proof -
  obtain res d where r: "result = (res, d)" by (rule prod.exhaust)
  then have d: "leads_to cfg s (s\<lparr>sv_db := d\<rparr>)" using leads_to_db [OF assms(1), of cfg s] assms(2) by simp
  then show ?thesis using leads_to_trans [OF d leads_to_change]
    by (cases res) (simp_all add: member_changed_def r split: sum.split)
qed

lemma users_lead:
  "leads_to cfg s (snd (api_create_user cfg E c name password admin s))"
  "leads_to cfg s (snd (api_update_user E c uid a dis s))"
  "leads_to cfg s (snd (api_delete_user E c uid s))"
proof -
  show "leads_to cfg s (snd (api_create_user cfg E c name password admin s))"
    unfolding api_create_user_def by (rule on_accounts_leads [of "ECreate (ap_op E 1) name password admin"]) simp_all
  show "leads_to cfg s (snd (api_update_user E c uid a dis s))"
    unfolding api_update_user_def by (rule on_accounts_leads [of "EUpdateUser (ap_op E 1) uid a dis"]) simp_all
  have "leads_to cfg s (snd (on_db (delete_account (ap_op E 2) uid (sv_db s)) (\<lambda>_. log_change E c act tgt det) (\<lambda>_. NoContent) s))" for act tgt det
    by (rule on_db_leads [of "DAccounts (EDeleteUser (ap_op E 2) uid)"]) (simp_all add: keyed_def accounts_step_def)
  then show "leads_to cfg s (snd (api_delete_user E c uid s))"
    by (simp add: api_delete_user_def split: sum.split)
qed

lemma devices_lead:
  "leads_to cfg s (snd (api_update_device E c i nm grp s))"
  "leads_to cfg s (snd (api_delete_device E c i s))"
  "leads_to cfg s (snd (api_create_group E c name s))"
  "leads_to cfg s (snd (api_rename_group E c gid name s))"
  "leads_to cfg s (snd (api_delete_group E c gid s))"
proof -
  show "leads_to cfg s (snd (api_update_device E c i nm grp s))"
    unfolding api_update_device_def by (rule on_db_leads [of "DUpdateDevice (ap_op E 1) i nm grp"]) (simp_all add: keyed_def)
  have "leads_to cfg s (snd (on_db (delete_device (ap_op E 2) i (sv_db s)) (\<lambda>_. log_change E c act tgt det) (\<lambda>_. NoContent) s))" for act tgt det
    by (rule on_db_leads [of "DDeleteDevice (ap_op E 2) i"]) (simp_all add: keyed_def)
  then show "leads_to cfg s (snd (api_delete_device E c i s))" by (simp add: api_delete_device_def split: sum.split)
  show "leads_to cfg s (snd (api_create_group E c name s))"
    unfolding api_create_group_def by (rule on_db_leads [of "DCreateGroup (ap_op E 1) name"]) (simp_all add: keyed_def)
  have "leads_to cfg s (snd (on_db (rename_device_group (ap_op E 2) gid name (sv_db s)) (\<lambda>g. log_change E c act tgt (Some (dg_name g))) GroupIs s))" for act tgt
    by (rule on_db_leads [of "DRenameGroup (ap_op E 2) gid name"]) (simp_all add: keyed_def)
  then show "leads_to cfg s (snd (api_rename_group E c gid name s))" by (simp add: api_rename_group_def split: sum.split)
  have "leads_to cfg s (snd (on_db (delete_device_group (ap_op E 2) gid (sv_db s)) (\<lambda>_. log_change E c act tgt det) (\<lambda>_. NoContent) s))" for act tgt det
    by (rule on_db_leads [of "DDeleteGroup (ap_op E 2) gid"]) (simp_all add: keyed_def)
  then show "leads_to cfg s (snd (api_delete_group E c gid s))" by (simp add: api_delete_group_def split: sum.split)
qed

lemma enrolling_leads:
  "leads_to cfg s (snd (api_list_enroll_tokens E s))"
  "leads_to cfg s (snd (api_new_enroll_token cfg E c name grp uses days s))"
  "leads_to cfg s (snd (api_delete_enroll_token E c i s))"
proof -
  show "leads_to cfg s (snd (api_list_enroll_tokens E s))"
    unfolding api_list_enroll_tokens_def by (rule on_db_leads [of "DEnrollTokens (ap_op E 1)"]) (simp_all add: keyed_def)
  show "leads_to cfg s (snd (api_new_enroll_token cfg E c name grp uses days s))"
    unfolding api_new_enroll_token_def Let_def
    by (rule on_db_leads [of "DNewEnrollToken (ap_op E 1) (ca_user c) name grp
          (case uses of None \<Rightarrow> default_uses | Some n \<Rightarrow> n) (case days of None \<Rightarrow> default_days | Some n \<Rightarrow> n)"])
      (simp_all add: keyed_def split: prod.split)
  obtain res d where r: "enroll_tokens 0 (ev_clock (ap_op E 1) 0) (ap_op E 1) (sv_db s) = (res, d)" by (rule prod.exhaust)
  then have d: "leads_to cfg s (s\<lparr>sv_db := d\<rparr>)"
    using leads_to_db [of "DEnrollTokens (ap_op E 1)" cfg s] by (simp add: keyed_def)
  have "leads_to cfg (s\<lparr>sv_db := d\<rparr>) (snd (on_db (delete_enroll_token (ap_op E 2) i d) (\<lambda>_. log_change E c act tgt det) (\<lambda>_. NoContent) (s\<lparr>sv_db := d\<rparr>)))" for act tgt det
    by (rule on_db_leads [of "DDeleteEnrollToken (ap_op E 2) i"]) (simp_all add: keyed_def)
  then show "leads_to cfg s (snd (api_delete_enroll_token E c i s))"
    using leads_to_trans [OF d] d r by (cases res) (simp_all add: api_delete_enroll_token_def Let_def)
qed

lemma grants_lead:
  "leads_to cfg s (snd (api_create_user_group E c name s))"
  "leads_to cfg s (snd (api_rename_user_group E c gid name s))"
  "leads_to cfg s (snd (api_delete_user_group E c gid s))"
  "leads_to cfg s (snd (api_add_member E c gid uid s))"
  "leads_to cfg s (snd (api_remove_member E c gid uid s))"
  "leads_to cfg s (snd (api_set_grant E c ug dg role s))"
  "leads_to cfg s (snd (api_delete_grant E c i s))"
proof -
  show "leads_to cfg s (snd (api_create_user_group E c name s))"
    unfolding api_create_user_group_def by (rule on_db_leads [of "DCreateUserGroup (ap_op E 1) name"]) (simp_all add: keyed_def)
  have "leads_to cfg s (snd (on_db (rename_user_group (ap_op E 2) gid name (sv_db s)) (\<lambda>g. log_change E c act tgt (Some (ug_name g))) UserGroupIs s))" for act tgt
    by (rule on_db_leads [of "DRenameUserGroup (ap_op E 2) gid name"]) (simp_all add: keyed_def)
  then show "leads_to cfg s (snd (api_rename_user_group E c gid name s))" by (simp add: api_rename_user_group_def split: sum.split)
  have "leads_to cfg s (snd (on_db (delete_user_group (ap_op E 2) gid (sv_db s)) (\<lambda>_. log_change E c act tgt det) (\<lambda>_. NoContent) s))" for act tgt det
    by (rule on_db_leads [of "DDeleteUserGroup (ap_op E 2) gid"]) (simp_all add: keyed_def)
  then show "leads_to cfg s (snd (api_delete_user_group E c gid s))" by (simp add: api_delete_user_group_def split: sum.split)
  show "leads_to cfg s (snd (api_add_member E c gid uid s))"
    unfolding api_add_member_def by (rule member_changed_leads [of "DAddMember (ap_op E 1) gid uid"]) (simp_all add: keyed_def)
  show "leads_to cfg s (snd (api_remove_member E c gid uid s))"
    unfolding api_remove_member_def by (rule member_changed_leads [of "DRemoveMember (ap_op E 1) gid uid"]) (simp_all add: keyed_def)
  have "leads_to cfg s (snd (on_db (set_grant (ap_op E 1) ug dg x (sv_db s)) (\<lambda>g. log_change E c act (between_groups g) (Some (gl_role g))) RuleIs s))" for act x
    by (rule on_db_leads [of "DSetGrant (ap_op E 1) ug dg x"]) (simp_all add: keyed_def)
  then show "leads_to cfg s (snd (api_set_grant E c ug dg role s))" by (simp add: api_set_grant_def split: sum.split)
  have "leads_to cfg s (snd (on_db (delete_grant (ap_op E 2) i (sv_db s)) (\<lambda>_. log_change E c act tgt det) (\<lambda>_. NoContent) s))" for act tgt det
    by (rule on_db_leads [of "DDeleteGrant (ap_op E 2) i"]) (simp_all add: keyed_def)
  then show "leads_to cfg s (snd (api_delete_grant E c i s))" by (simp add: api_delete_grant_def split: sum.split)
qed

lemma releases_lead:
  "leads_to cfg s (snd (api_upload_release cfg E c form s))"
  "leads_to cfg s (snd (api_offer_release E c i s))"
  "leads_to cfg s (snd (api_withdraw_release E c i s))"
  "leads_to cfg s (snd (api_delete_release E c i s))"
proof -
  have "leads_to cfg s (snd (on_releases (add_release (sc_checks cfg) (ap_op E 1) (ap_files E) package signature (sv_releases s))
      (\<lambda>r. log_change E c act (release_name r) (Some (hr_sha256 r))) ReleaseIs s))" for package signature act
    by (rule on_releases_leads [of _ _ "SAdd (ap_op E 1) (ap_files E) package signature"]) simp_all
  then show "leads_to cfg s (snd (api_upload_release cfg E c form s))"
    by (simp add: api_upload_release_def split: sum.split prod.split option.split)
  show "leads_to cfg s (snd (api_offer_release E c i s))"
    unfolding api_offer_release_def by (rule on_releases_leads [of _ _ "SOffer (ap_op E 1) i"]) simp_all
  show "leads_to cfg s (snd (api_withdraw_release E c i s))"
    unfolding api_withdraw_release_def by (rule on_releases_leads [of _ _ "SWithdraw (ap_op E 1) i"]) simp_all
  show "leads_to cfg s (snd (api_delete_release E c i s))"
    unfolding api_delete_release_def by (rule on_releases_leads [of _ _ "SDelete (ap_op E 1) (ap_files E) i"]) simp_all
qed

lemma admin_leads: "leads_to cfg s (snd (handle_admin cfg E r c s))"
  by (cases r) (simp_all add: handle_admin_def users_lead devices_lead enrolling_leads grants_lead releases_lead
      api_metrics_def api_list_users_def api_list_groups_def api_list_user_groups_def api_list_grants_def
      api_list_releases_def api_audit_log_def)

lemma as_caller_leads:
  assumes "\<And>c s1. leads_to cfg s1 (snd (handler c s1))"
  shows "leads_to cfg s (snd (as_caller cfg E h s handler))"
  using leads_to_identify [of cfg s E h] leads_to_trans [OF leads_to_identify [of cfg s E h] assms]
  by (auto simp: as_caller_def split: prod.split sum.split)

lemma as_admin_leads:
  assumes "\<And>c s1. leads_to cfg s1 (snd (handler c s1))"
  shows "leads_to cfg s (snd (as_admin cfg E h s handler))"
  using leads_to_identify_admin [of cfg s E h] leads_to_trans [OF leads_to_identify_admin [of cfg s E h] assms]
  by (auto simp: as_admin_def split: prod.split sum.split)

lemma api_call_leads: "leads_to cfg s (snd (api_call cfg E h r s))"
proof -
  have "leads_to cfg s (snd (as_caller cfg E h s (handle_signed_in cfg E h r)))" "leads_to cfg s (snd (as_admin cfg E h s (handle_admin cfg E r)))"
    by (simp_all add: as_caller_leads as_admin_leads signed_in_leads admin_leads)
  then show ?thesis
    by (cases r) (simp_all add: api_call_def setup_leads login_leads logout_leads)
qed

subsection \<open>A server in order\<close>

definition server_ok :: "('e, 'f) server_config \<Rightarrow> server_state \<Rightarrow> bool" where
  "server_ok cfg s \<longleftrightarrow> tables_ok (sv_db s) \<and> store_ok (sc_checks cfg) (sv_releases s) \<and> log_ok (sv_log s)"

lemma log_run_ok: "log_ok rows \<Longrightarrow> log_ok (log_run es rows)"
  unfolding log_run_def by (induction es arbitrary: rows) (auto simp: log_ok_record)

lemma log_run_grows: "\<exists>more. log_run es rows = rows @ more"
proof (induction es arbitrary: rows)
  case Nil
  then show ?case by (simp add: log_run_def)
next
  case (Cons e es)
  obtain E x where e: "e = (E, x)" by (cases e)
  obtain a where "audit_record E x rows = rows @ a" using record_grows by blast
  moreover obtain b where "log_run es (rows @ a) = (rows @ a) @ b" using Cons by blast
  ultimately show ?case by (simp add: log_run_def e)
qed

lemma still_administered:
  assumes "administered (user_rows (db_accounts d))"
  shows "administered (user_rows (db_accounts (directory_run C ds d)))"
proof -
  obtain es where "db_accounts (directory_run C ds d) = account_run C es (db_accounts d)"
    using directory_run_accounts by blast
  then show ?thesis using admins.run_inv assms by (simp add: list_all_iff)
qed

lemma leads_to_ok:
  assumes "leads_to cfg s s'" and "server_ok cfg s" and "refuses_empty (sc_checks cfg)"
  shows "server_ok cfg s' \<and> (administered (user_rows (db_accounts (sv_db s))) \<longrightarrow> administered (user_rows (db_accounts (sv_db s')))) \<and>
    (\<exists>more. sv_log s' = sv_log s @ more)"
proof -
  from assms(1) obtain ds rs es where "list_all keyed ds" "sv_db s' = directory_run (sc_accounts cfg) ds (sv_db s)"
    "sv_releases s' = store_run (sc_checks cfg) rs (sv_releases s)" "sv_log s' = log_run es (sv_log s)"
    unfolding leads_to_def by blast
  then show ?thesis
    using assms(2,3) directory_run_tables [of "sv_db s" ds "sc_accounts cfg"] store_run_ok [of "sc_checks cfg" "sv_releases s" rs]
      log_run_ok [of "sv_log s" es] log_run_grows [of es "sv_log s"] still_administered [of "sv_db s" "sc_accounts cfg" ds]
    by (simp add: server_ok_def)
qed

end
