(* ===== verification/Api_Rights.thy ===== *)
theory Api_Rights
  imports Api_Run Introduction
begin

text \<open>
  What the requests of the web interface change, for whom, what they log and what they show:
  the lemmas behind the properties of \<open>Api_Theorems\<close>.
\<close>

subsection \<open>What is not a change\<close>

text \<open>When a token was last used and which sign-ins failed are kept in the tables as well, but are
  only remembered: the server without them.\<close>

definition settled_accounts :: "accounts \<Rightarrow> accounts" where
  "settled_accounts a = a\<lparr>tries := Map.empty, token_rows := map (\<lambda>t. t\<lparr>tr_last_used_at := None\<rparr>) (token_rows a)\<rparr>"

definition settled :: "server_state \<Rightarrow> database \<times> release_store" where
  "settled s = ((sv_db s)\<lparr>db_accounts := settled_accounts (db_accounts (sv_db s))\<rparr>, sv_releases s)"

lemma settled_with_accounts: "settled_accounts a = settled_accounts (db_accounts (sv_db s)) \<Longrightarrow> settled (with_accounts a s) = settled s"
  by (simp add: settled_def with_accounts_def)

lemma settled_log [simp]: "settled (s\<lparr>sv_log := l\<rparr>) = settled s"
  by (simp add: settled_def)

lemma settled_change [simp]: "settled (log_change E c action target detail s) = settled s"
  by (simp add: log_change_def)

lemma settled_accounts_same:
  assumes "user_rows a = user_rows b" and "login_rows a = login_rows b" and "setup_rows a = setup_rows b"
    and "map (\<lambda>t. t\<lparr>tr_last_used_at := None\<rparr>) (token_rows a) = map (\<lambda>t. t\<lparr>tr_last_used_at := None\<rparr>) (token_rows b)"
  shows "settled_accounts a = settled_accounts b"
  using assms by (cases a; cases b) (simp add: settled_accounts_def)

lemma settled_api_user: "settled_accounts (snd (Accounts.api_user C E token a)) = settled_accounts a"
proof (rule settled_accounts_same)
  let ?a = "snd (Accounts.api_user C E token a)"
  show "user_rows ?a = user_rows a" "login_rows ?a = login_rows a" "setup_rows ?a = setup_rows a"
    by (auto simp: Accounts.api_user_def Let_def split: option.split)
  have "(if b then t\<lparr>tr_last_used_at := x\<rparr> else t)\<lparr>tr_last_used_at := None\<rparr> = t\<lparr>tr_last_used_at := None\<rparr>" for b and t :: token_row and x
    by simp
  then show "map (\<lambda>t. t\<lparr>tr_last_used_at := None\<rparr>) (token_rows ?a) = map (\<lambda>t. t\<lparr>tr_last_used_at := None\<rparr>) (token_rows a)"
    by (auto simp: Accounts.api_user_def Let_def split: option.split)
qed

lemma identify_cases:
  obtains token where "bearer h = Some token"
    "snd (identify cfg E h s) = with_accounts (snd (Accounts.api_user (sc_accounts cfg) (ap_op E 0) token (db_accounts (sv_db s)))) s"
  | "snd (identify cfg E h s) = s"
proof (cases "bearer h")
  case None
  then have "snd (identify cfg E h s) = s" by (auto simp: identify_def Let_def split: option.split sum.split)
  then show ?thesis by (rule that(2))
next
  case (Some token)
  then have "snd (identify cfg E h s) = with_accounts (snd (Accounts.api_user (sc_accounts cfg) (ap_op E 0) token (db_accounts (sv_db s)))) s"
    by (auto simp: identify_def Let_def split: prod.split sum.split)
  with Some show ?thesis by (rule that(1))
qed

lemma settled_identify: "settled (snd (identify cfg E h s)) = settled s"
  by (cases rule: identify_cases [of h cfg E s]) (simp_all add: settled_with_accounts settled_api_user)

lemma identify_log [simp]: "sv_log (snd (identify cfg E h s)) = sv_log s"
  by (cases rule: identify_cases [of h cfg E s]) (simp_all add: with_accounts_def)

subsection \<open>Who was identified\<close>

text \<open>What a request has to bring to be a user's: an API token of theirs that has not expired, or,
  without any, the cookie of a session of theirs, from the server's own pages where the method
  may change something.\<close>

definition brings_key :: "('e, 'f) server_config \<Rightarrow> api_env \<Rightarrow> request_head \<Rightarrow> server_state \<Rightarrow> user_row \<Rightarrow> bool" where
  "brings_key cfg E h s u \<longleftrightarrow>
     (case bearer h of
        Some token \<Rightarrow>
          \<exists>t\<in>set (token_rows (db_accounts (sv_db s))). tr_user_id t = ur_id u \<and>
            tr_token_hash t = hash_token (sc_accounts cfg) token \<and>
            (case tr_expires_at t of None \<Rightarrow> True | Some e \<Rightarrow> ev_clock (ap_op E 0) 0 < e)
      | None \<Rightarrow>
          (case cookie h SESSION_COOKIE of
             None \<Rightarrow> False
           | Some token \<Rightarrow>
               (is_safe (rq_method h) \<or> same_origin h) \<and>
               (\<exists>l\<in>set (login_rows (db_accounts (sv_db s))). lr_user_id l = ur_id u \<and>
                  lr_token_hash l = hash_token (sc_accounts cfg) token \<and> ev_clock (ap_op E 0) 0 < lr_expires_at l)))"

lemma identified:
  assumes "fst (identify cfg E h s) = Inr c"
  obtains u where "u \<in> set (user_rows (db_accounts (sv_db s)))" "\<not> ur_disabled u" "ca_user c = user_of u"
    "ca_from c = address E" "brings_key cfg E h s u"
proof (cases "bearer h")
  case (Some token)
  have a: "fst (Accounts.api_user (sc_accounts cfg) (ap_op E 0) token (db_accounts (sv_db s))) = Inr (Some (ca_user c))"
    and c: "ca_from c = address E"
    using assms Some by (auto simp: identify_def Let_def split: prod.splits sum.splits option.splits)
  show ?thesis
  proof (rule api_user_Some [OF a])
    fix t r
    assume t: "t \<in> set (token_rows (db_accounts (sv_db s)))"
        "token_valid (hash_token (sc_accounts cfg) token) (ev_clock (ap_op E 0) 0) (db_accounts (sv_db s)) t"
      and r: "row_of (tr_user_id t) (db_accounts (sv_db s)) = Some r" "\<not> ur_disabled r" "ca_user c = user_of r"
    have "r \<in> set (user_rows (db_accounts (sv_db s)))" "ur_id r = tr_user_id t" using row_of_member [OF r(1)] by simp_all
    moreover have "brings_key cfg E h s r" using t calculation(2) Some by (auto simp: brings_key_def token_valid_def)
    ultimately show thesis using that r(2,3) c by blast
  qed
next
  case None
  then obtain token where token: "cookie h SESSION_COOKIE = Some token" "is_safe (rq_method h) \<or> same_origin h"
    "session_user (sc_accounts cfg) (ap_op E 0) token (db_accounts (sv_db s)) = Inr (Some (ca_user c))" "ca_from c = address E"
    using assms by (auto simp: identify_def Let_def split: option.splits if_splits sum.splits)
  show ?thesis
  proof (rule session_user_Some [OF token(3)])
    fix l r
    assume l: "l \<in> set (login_rows (db_accounts (sv_db s)))" "lr_token_hash l = hash_token (sc_accounts cfg) token"
        "ev_clock (ap_op E 0) 0 < lr_expires_at l"
      and r: "row_of (lr_user_id l) (db_accounts (sv_db s)) = Some r" "\<not> ur_disabled r" "ca_user c = user_of r"
    have "r \<in> set (user_rows (db_accounts (sv_db s)))" "ur_id r = lr_user_id l" using row_of_member [OF r(1)] by simp_all
    moreover have "brings_key cfg E h s r" using l calculation(2) None token(1,2) by (auto simp: brings_key_def)
    ultimately show thesis using that r(2,3) token(4) by blast
  qed
qed

lemma changed_as_caller:
  assumes "settled (snd (as_caller cfg E h s handler)) \<noteq> settled s"
  obtains c where "fst (identify cfg E h s) = Inr c"
  using assms settled_identify [of cfg E h s]
  by (auto simp: as_caller_def split: prod.splits sum.splits)

lemma changed_as_admin:
  assumes "settled (snd (as_admin cfg E h s handler)) \<noteq> settled s"
  obtains c where "fst (identify cfg E h s) = Inr c" "us_admin (ca_user c)"
  using assms settled_identify [of cfg E h s]
  by (auto simp: as_admin_def identify_admin_def split: prod.splits sum.splits if_splits)

subsection \<open>Signing in\<close>

lemma settled_failed [simp]: "settled_accounts (failed now keys a) = settled_accounts a"
  by (simp add: settled_accounts_def failed_def)

lemma settled_tries [simp]: "settled_accounts (a\<lparr>tries := ts\<rparr>) = settled_accounts a"
  by (simp add: settled_accounts_def)

text \<open>The code an authenticator shows now, of a later step than any used before.\<close>

definition code_good :: "account_crypto \<Rightarrow> account_env \<Rightarrow> str option \<Rightarrow> bytes \<Rightarrow> int option \<Rightarrow> bool" where
  "code_good C E code secret last_step \<longleftrightarrow>
     (\<exists>c step. code = Some c \<and> totp_verify (ac_mac C) secret c (word_of_int (ev_clock E 0)) = Some step \<and>
       (\<forall>used. last_step = Some used \<longrightarrow> used < step_number step))"

lemma sign_in_changes:
  assumes "settled_accounts (snd (sign_in C E name password code from_ip a)) \<noteq> settled_accounts a"
  obtains u where "u \<in> set (user_rows a)" "same_name (ur_name u) name" "\<not> ur_disabled u"
    "ac_matches C password (ur_password_hash u)"
    "\<And>secret. ur_totp_secret u = Some secret \<Longrightarrow> code_good C E code secret (ur_totp_last_step u)"
proof -
  obtain st a1 where start: "sign_in_start C E name from_ip a = (st, a1)" by (rule prod.exhaust)
  then have same: "settled_accounts a1 = settled_accounts a" "user_rows a1 = user_rows a"
    by (auto simp: sign_in_start_def Let_def split: prod.splits if_splits)
  obtain row where row: "st = Inr row"
    using assms start same by (cases st) (auto simp: sign_in_def)
  have found: "row = find (\<lambda>r. same_name (ur_name r) name) (user_rows a)"
    using start row same(2) by (auto simp: sign_in_start_def Let_def split: prod.splits if_splits)
  have changed: "settled_accounts (snd (sign_in_finish C E name password code from_ip row a1)) \<noteq> settled_accounts a1"
    using assms start row same by (simp add: sign_in_def)
  obtain u where u: "row = Some u" "ac_matches C password (ur_password_hash u)" "\<not> ur_disabled u"
    using changed by (cases row) (auto simp: sign_in_finish_def Let_def split: if_splits)
  have "u \<in> set (user_rows a)" "same_name (ur_name u) name" using found u(1) by (metis find_SomeD)+
  moreover have "code_good C E code secret (ur_totp_last_step u)" if "ur_totp_secret u = Some secret" for secret
    using changed u that
    by (cases code; cases "totp_verify (ac_mac C) secret (the code) (word_of_int (ev_clock E 0))")
      (auto simp: sign_in_finish_def code_good_def Let_def split: if_splits option.splits)
  ultimately show ?thesis using that u(2,3) by blast
qed

lemma setup_changes:
  assumes "snd (setup_admin C E token name password a) \<noteq> a"
  shows "user_rows a = [] \<and> (\<exists>(h, expires)\<in>set (setup_rows a). h = hash_token C token \<and> ev_clock E 0 < expires)"
  using assms by (auto simp: setup_admin_def list_ex_iff Let_def split: sum.splits if_splits)

lemma sign_out_changes:
  assumes "snd (sign_out C E token a) \<noteq> a"
  shows "\<exists>l\<in>set (login_rows a). lr_token_hash l = hash_token C token"
proof (rule ccontr)
  assume "\<not> ?thesis"
  then have "filter (\<lambda>l. lr_token_hash l \<noteq> hash_token C token) (login_rows a) = login_rows a"
    by (simp add: filter_id_conv)
  then show False using assms by (simp add: sign_out_def split: if_splits)
qed

lemma settled_on_accounts_differ: "settled (with_accounts a s) \<noteq> settled s \<Longrightarrow> settled_accounts a \<noteq> settled_accounts (db_accounts (sv_db s))"
  using settled_with_accounts by blast

lemma with_accounts_same [simp]: "with_accounts (db_accounts (sv_db s)) s = s"
  by (simp add: with_accounts_def)

lemma api_setup_changes:
  assumes "snd (api_setup cfg E token name password s) \<noteq> s"
  shows "user_rows (db_accounts (sv_db s)) = [] \<and>
    (\<exists>(h, expires)\<in>set (setup_rows (db_accounts (sv_db s))). h = hash_token (sc_accounts cfg) token \<and> ev_clock (ap_op E 1) 0 < expires)"
proof -
  let ?a = "db_accounts (sv_db s)"
  obtain res a where r: "setup_admin (sc_accounts cfg) (ap_op E 1) token name password ?a = (res, a)" by (rule prod.exhaust)
  have "a \<noteq> ?a"
  proof
    assume same: "a = ?a"
    then have "\<not> (\<exists>u. res = Inr u)"
      using r by (cases res) (auto simp: setup_admin_def Let_def split: sum.splits option.splits if_splits dest: arg_cong [of _ _ user_rows])
    then show False using assms r same by (cases res) (simp_all add: api_setup_def)
  qed
  then show ?thesis using setup_changes [of "sc_accounts cfg" "ap_op E 1" token name password ?a] r by simp
qed

lemma sign_in_adds_login:
  assumes "sign_in C E name password code from_ip a = (Inr x, a')"
  shows "settled_accounts a' \<noteq> settled_accounts a"
proof -
  have login: "length (login_rows b') = Suc (length (login_rows b))" if "new_login C E uid b = (Inr x, b')" for uid b b' x
    using that by (auto simp: new_login_def Let_def split: option.splits sum.splits if_splits)
  obtain row a1 where start: "sign_in_start C E name from_ip a = (Inr row, a1)"
    and fin: "sign_in_finish C E name password code from_ip row a1 = (Inr x, a')"
    using assms by (auto simp: sign_in_def split: prod.splits sum.splits)
  have "login_rows a1 = login_rows a" using start by (auto simp: sign_in_start_def Let_def split: prod.splits if_splits)
  moreover have "\<exists>uid b. new_login C E uid b = (Inr x, a') \<and> login_rows b = login_rows a1"
    using fin by (fastforce simp: sign_in_finish_def update_row_def Let_def split: option.splits if_splits)
  then have "length (login_rows a') = Suc (length (login_rows a1))" using login by fastforce
  ultimately have "length (login_rows (settled_accounts a')) \<noteq> length (login_rows (settled_accounts a))"
    by (simp add: settled_accounts_def)
  then show ?thesis by metis
qed

text \<open>What a sign-in that fails leaves: that it failed, and an entry that says so.\<close>

definition failure_noted :: "str \<Rightarrow> server_state \<Rightarrow> server_state \<Rightarrow> bool" where
  "failure_noted name s s' \<longleftrightarrow> settled s' = settled s \<and>
     (sv_log s' = sv_log s \<or>
      (\<exists>row. sv_log s' = sv_log s @ [row] \<and> al_actor row = None \<and> al_action row = lit ''login.fail'' \<and> al_target row = Some name))"

lemma login_changes:
  assumes "api_login cfg E name password totp s = (res, s')"
  obtains (failed) "failure_noted name s s'"
  | (user) u where "u \<in> set (user_rows (db_accounts (sv_db s)))" "same_name (ur_name u) name" "\<not> ur_disabled u"
    "ac_matches (sc_accounts cfg) password (ur_password_hash u)"
    "\<And>secret. ur_totp_secret u = Some secret \<Longrightarrow> code_good (sc_accounts cfg) (ap_op E 1) totp secret (ur_totp_last_step u)"
proof -
  let ?a = "db_accounts (sv_db s)"
  obtain r a where r: "sign_in (sc_accounts cfg) (ap_op E 1) name password totp (to_canonical (ap_from E)) ?a = (r, a)"
    by (rule prod.exhaust)
  show ?thesis
  proof (cases "settled_accounts a = settled_accounts ?a")
    case True
    then have same: "settled (with_accounts a s) = settled s" by (rule settled_with_accounts)
    obtain e where e: "r = Inl e" using sign_in_adds_login r True by (cases r) blast+
    have "sv_log (with_accounts a s) = sv_log s" by (simp add: with_accounts_def)
    then have "failure_noted name s s'"
      using assms r e same
      by (cases e) (auto simp: api_login_def failure_noted_def audit_record_def audit_row_of_def Let_def split: if_splits)
    then show ?thesis by (rule failed)
  next
    case False
    then show ?thesis using r user sign_in_changes [of "sc_accounts cfg" "ap_op E 1" name password totp "to_canonical (ap_from E)" ?a]
      by (metis snd_conv)
  qed
qed

lemma logout_changes:
  assumes "snd (api_logout cfg E h s) \<noteq> s"
  shows "\<exists>token. cookie h SESSION_COOKIE = Some token \<and>
    (\<exists>l\<in>set (login_rows (db_accounts (sv_db s))). lr_token_hash l = hash_token (sc_accounts cfg) token)"
proof (cases "cookie h SESSION_COOKIE")
  case None
  then show ?thesis using assms by (simp add: api_logout_def)
next
  case (Some token)
  have "snd (api_logout cfg E h s) = with_accounts (snd (sign_out (sc_accounts cfg) (ap_op E 1) token (db_accounts (sv_db s)))) s"
    using Some by (auto simp: api_logout_def split: prod.split sum.split)
  then show ?thesis using assms sign_out_changes Some with_accounts_same by metis
qed

text \<open>What a request with a key that only reads leaves: when the key was used; and looking at the
  tokens to enroll with removes those that are used up or expired.\<close>

definition use_noted :: "server_state \<Rightarrow> server_state \<Rightarrow> bool" where
  "use_noted s s' \<longleftrightarrow> settled s' = settled s \<and> sv_log s' = sv_log s"

definition dead_tokens_gone :: "api_env \<Rightarrow> server_state \<Rightarrow> server_state" where
  "dead_tokens_gone E s =
     s\<lparr>sv_db := (sv_db s)\<lparr>db_tokens := filter (\<lambda>t. \<not> (er_expires_at t \<le> ev_clock (ap_op E 1) 0 \<or> er_uses_left t = Some 0)) (db_tokens (sv_db s))\<rparr>\<rparr>"

lemma identify_changes:
  assumes "snd (identify cfg E h s) \<noteq> s"
  obtains c where "fst (identify cfg E h s) = Inr c"
proof -
  obtain token where token: "bearer h = Some token"
    using assms by (cases rule: identify_cases [of h cfg E s]) simp_all
  obtain res a where r: "Accounts.api_user (sc_accounts cfg) (ap_op E 0) token (db_accounts (sv_db s)) = (res, a)" by (rule prod.exhaust)
  have "a \<noteq> db_accounts (sv_db s)" using assms token r by (cases res) (auto simp: identify_def Let_def)
  then obtain u where "res = Inr (Some u)"
    using r by (auto simp: Accounts.api_user_def token_valid_def Let_def dest!: find_SomeD split: if_splits option.splits)
  then show ?thesis using that token r by (simp add: identify_def Let_def)
qed

lemma identify_notes: "use_noted s (snd (identify cfg E h s))"
  by (simp add: use_noted_def settled_identify)

lemma list_enroll_tokens_state:
  "snd (api_list_enroll_tokens E s) = s \<or> snd (api_list_enroll_tokens E s) = dead_tokens_gone E s"
  by (auto simp: api_list_enroll_tokens_def on_db_def enroll_tokens_def dead_tokens_gone_def Let_def split: prod.split sum.split)

lemma settled_dead_tokens:
  assumes "settled s1 = settled s"
  shows "settled (dead_tokens_gone E s1) = settled (dead_tokens_gone E s)"
  using assms by (cases "sv_db s1"; cases "sv_db s") (simp add: settled_def dead_tokens_gone_def)

lemma reading_admin:
  assumes "route_method r = MGet" and "r \<noteq> REnrollTokens"
  shows "snd (handle_admin cfg E r c s) = s"
  using assms by (cases r) (simp_all add: route_method_def handle_admin_def api_metrics_def api_list_users_def
      api_list_groups_def api_list_user_groups_def api_list_grants_def api_list_releases_def api_audit_log_def)

lemma reading_signed_in: "route_method r = MGet \<Longrightarrow> snd (handle_signed_in cfg E h r c s) = s"
  by (cases r) (auto simp: route_method_def handle_signed_in_def api_list_tokens_def api_webtransport_def api_relay_def
      api_list_devices_def api_get_device_def split: sum.split option.split)

lemma safe_route: "reaches_route h r \<Longrightarrow> is_safe (rq_method h) \<longleftrightarrow> route_method r = MGet"
  by (cases r) (auto simp: reaches_route_def route_method_def is_safe_def)

subsection \<open>What is logged\<close>

text \<open>What each request is called in the log; none for those that only read, and for two that
  change something.\<close>

definition action_of :: "api_request \<Rightarrow> str option" where
  "action_of r =
     (case r of
        RSetup _ _ _ \<Rightarrow> Some (lit ''setup'') | RLogin _ _ _ \<Rightarrow> Some (lit ''login'')
      | RPassword _ _ \<Rightarrow> Some (lit ''password.change'')
      | RTotpConfirm _ \<Rightarrow> Some (lit ''totp.enable'') | RTotpDisable _ \<Rightarrow> Some (lit ''totp.disable'')
      | RNewToken _ _ \<Rightarrow> Some (lit ''token.create'') | RDeleteToken _ \<Rightarrow> Some (lit ''token.delete'')
      | RCreateUser _ _ _ \<Rightarrow> Some (lit ''user.create'') | RUpdateUser _ _ _ \<Rightarrow> Some (lit ''user.update'')
      | RDeleteUser _ \<Rightarrow> Some (lit ''user.delete'')
      | RUpdateDevice _ _ _ \<Rightarrow> Some (lit ''device.update'') | RDeleteDevice _ \<Rightarrow> Some (lit ''device.delete'')
      | RCreateGroup _ \<Rightarrow> Some (lit ''device_group.create'') | RRenameGroup _ _ \<Rightarrow> Some (lit ''device_group.rename'')
      | RDeleteGroup _ \<Rightarrow> Some (lit ''device_group.delete'')
      | RNewEnrollToken _ _ _ _ \<Rightarrow> Some (lit ''enroll_token.create'') | RDeleteEnrollToken _ \<Rightarrow> Some (lit ''enroll_token.delete'')
      | RCreateUserGroup _ \<Rightarrow> Some (lit ''user_group.create'') | RRenameUserGroup _ _ \<Rightarrow> Some (lit ''user_group.rename'')
      | RDeleteUserGroup _ \<Rightarrow> Some (lit ''user_group.delete'')
      | RAddMember _ _ \<Rightarrow> Some (lit ''user_group.add'') | RRemoveMember _ _ \<Rightarrow> Some (lit ''user_group.remove'')
      | RSetGrant _ _ _ \<Rightarrow> Some (lit ''grant.set'') | RDeleteGrant _ \<Rightarrow> Some (lit ''grant.delete'')
      | RDeviceGrant _ \<Rightarrow> Some (lit ''session.grant'')
      | RUpload _ \<Rightarrow> Some (lit ''release.upload'') | ROfferRelease _ \<Rightarrow> Some (lit ''release.offer'')
      | RWithdrawRelease _ \<Rightarrow> Some (lit ''release.withdraw'') | RDeleteRelease _ \<Rightarrow> Some (lit ''release.delete'')
      | _ \<Rightarrow> None)"

definition logs :: "api_env \<Rightarrow> str \<Rightarrow> str \<Rightarrow> server_state \<Rightarrow> server_state \<Rightarrow> bool" where
  "logs E act who s s' \<longleftrightarrow>
     (\<exists>target detail. sv_log s' = audit_record (ap_audit E)
        \<lparr>ae_actor = Some who, ae_address = address E, ae_action = act, ae_target = Some target, ae_detail = detail\<rparr> (sv_log s))"

lemma logs_change: "ca_from c = address E \<Longrightarrow> sv_log s1 = sv_log s \<Longrightarrow>
  logs E act (us_name (ca_user c)) s (log_change E c act target detail s1)"
  by (auto simp: logs_def log_change_def)

lemma on_accounts_logs:
  assumes "on_accounts result logged answered s = (Inr a, s')"
    and "\<And>x. \<exists>t d. logged x = log_change E c act t d" and "ca_from c = address E"
  shows "logs E act (us_name (ca_user c)) s s'"
proof -
  obtain x acc where "s' = logged x (with_accounts acc s)"
    using assms(1) by (auto simp: on_accounts_def split: prod.splits sum.splits)
  moreover obtain t d where "logged x = log_change E c act t d" using assms(2) by blast
  ultimately show ?thesis using logs_change [OF assms(3)] by (simp add: with_accounts_def)
qed

lemma on_db_logs:
  assumes "on_db result logged answered s1 = (Inr a, s')" and "sv_log s1 = sv_log s"
    and "\<And>x. \<exists>t d. logged x = log_change E c act t d" and "ca_from c = address E"
  shows "logs E act (us_name (ca_user c)) s s'"
proof -
  obtain x db where "s' = logged x (s1\<lparr>sv_db := db\<rparr>)"
    using assms(1) by (auto simp: on_db_def split: prod.splits sum.splits)
  moreover obtain t d where "logged x = log_change E c act t d" using assms(3) by blast
  ultimately show ?thesis using logs_change [OF assms(4)] assms(2) by simp
qed

lemma on_releases_logs:
  assumes "on_releases result logged answered s = (Inr a, s')"
    and "\<And>x. \<exists>t d. logged x = log_change E c act t d" and "ca_from c = address E"
  shows "logs E act (us_name (ca_user c)) s s'"
proof -
  obtain x rs where "s' = logged x (s\<lparr>sv_releases := rs\<rparr>)"
    using assms(1) by (auto simp: on_releases_def split: prod.splits sum.splits)
  moreover obtain t d where "logged x = log_change E c act t d" using assms(2) by blast
  ultimately show ?thesis using logs_change [OF assms(3)] by simp
qed

lemma member_changed_logs:
  assumes "member_changed E c act uid result s = (Inr a, s')" and "ca_from c = address E"
  shows "logs E act (us_name (ca_user c)) s s'"
  using assms logs_change [OF assms(2)] by (auto simp: member_changed_def split: prod.splits sum.splits)

lemmas logging = on_accounts_logs on_releases_logs on_db_logs [OF _ refl]

lemma signed_in_logs:
  assumes "handle_signed_in cfg E h r c s = (Inr a, s')" and "action_of r = Some act" and "for_callers r" and "ca_from c = address E"
  shows "logs E act (us_name (ca_user c)) s s'"
proof (cases r)
  case (RDeviceGrant i)
  then show ?thesis using assms logs_change [OF assms(4) refl]
    by (auto simp: handle_signed_in_def action_of_def api_device_grant_def Let_def split: sum.splits option.splits)
qed (use assms in \<open>auto simp: handle_signed_in_def action_of_def for_callers_def api_password_def api_totp_confirm_def
      api_totp_disable_def api_new_token_def api_delete_token_def elim!: on_accounts_logs split: prod.split\<close>)

lemma users_logged:
  assumes "ca_from c = address E"
  shows "api_create_user cfg E c name password admin s = (Inr a, s') \<Longrightarrow> logs E (lit ''user.create'') (us_name (ca_user c)) s s'"
    and "api_update_user E c uid ad dis s = (Inr a, s') \<Longrightarrow> logs E (lit ''user.update'') (us_name (ca_user c)) s s'"
    and "api_delete_user E c uid s = (Inr a, s') \<Longrightarrow> logs E (lit ''user.delete'') (us_name (ca_user c)) s s'"
  using assms by (auto simp: api_create_user_def api_update_user_def api_delete_user_def elim!: logging split: sum.splits)

lemma devices_logged:
  assumes "ca_from c = address E"
  shows "api_update_device E c i nm grp s = (Inr a, s') \<Longrightarrow> logs E (lit ''device.update'') (us_name (ca_user c)) s s'"
    and "api_delete_device E c i s = (Inr a, s') \<Longrightarrow> logs E (lit ''device.delete'') (us_name (ca_user c)) s s'"
    and "api_create_group E c name s = (Inr a, s') \<Longrightarrow> logs E (lit ''device_group.create'') (us_name (ca_user c)) s s'"
    and "api_rename_group E c gid name s = (Inr a, s') \<Longrightarrow> logs E (lit ''device_group.rename'') (us_name (ca_user c)) s s'"
    and "api_delete_group E c gid s = (Inr a, s') \<Longrightarrow> logs E (lit ''device_group.delete'') (us_name (ca_user c)) s s'"
    and "api_new_enroll_token cfg E c name grp' uses days s = (Inr a, s') \<Longrightarrow> logs E (lit ''enroll_token.create'') (us_name (ca_user c)) s s'"
  using assms
  by (auto simp: api_update_device_def api_delete_device_def api_create_group_def api_rename_group_def api_delete_group_def
      api_new_enroll_token_def Let_def elim!: logging split: sum.splits prod.split)

lemma enroll_token_deleted_logged:
  assumes "ca_from c = address E" and "api_delete_enroll_token E c i s = (Inr a, s')"
  shows "logs E (lit ''enroll_token.delete'') (us_name (ca_user c)) s s'"
proof -
  obtain res d where r: "enroll_tokens 0 (ev_clock (ap_op E 1) 0) (ap_op E 1) (sv_db s) = (res, d)" by (rule prod.exhaust)
  show ?thesis
  proof (cases res)
    case (Inl e)
    then show ?thesis using assms(2) r by (simp add: api_delete_enroll_token_def)
  next
    case (Inr ts)
    then have "on_db (delete_enroll_token (ap_op E 2) i d)
       (\<lambda>_. log_change E c (lit ''enroll_token.delete'') (case find (\<lambda>t. et_id t = i) ts of None \<Rightarrow> show_row i | Some t \<Rightarrow> et_name t) None)
       (\<lambda>_. NoContent) (s\<lparr>sv_db := d\<rparr>) = (Inr a, s')"
      using assms(2) r by (simp add: api_delete_enroll_token_def Let_def)
    then show ?thesis by (rule on_db_logs [OF _ _ _ assms(1)]) auto
  qed
qed

lemma grants_logged:
  assumes "ca_from c = address E"
  shows "api_create_user_group E c name s = (Inr a, s') \<Longrightarrow> logs E (lit ''user_group.create'') (us_name (ca_user c)) s s'"
    and "api_rename_user_group E c gid name s = (Inr a, s') \<Longrightarrow> logs E (lit ''user_group.rename'') (us_name (ca_user c)) s s'"
    and "api_delete_user_group E c gid s = (Inr a, s') \<Longrightarrow> logs E (lit ''user_group.delete'') (us_name (ca_user c)) s s'"
    and "api_add_member E c gid uid s = (Inr a, s') \<Longrightarrow> logs E (lit ''user_group.add'') (us_name (ca_user c)) s s'"
    and "api_remove_member E c gid uid s = (Inr a, s') \<Longrightarrow> logs E (lit ''user_group.remove'') (us_name (ca_user c)) s s'"
    and "api_set_grant E c ug dg role s = (Inr a, s') \<Longrightarrow> logs E (lit ''grant.set'') (us_name (ca_user c)) s s'"
    and "api_delete_grant E c i s = (Inr a, s') \<Longrightarrow> logs E (lit ''grant.delete'') (us_name (ca_user c)) s s'"
  using assms
  by (auto simp: api_create_user_group_def api_rename_user_group_def api_delete_user_group_def api_add_member_def
      api_remove_member_def api_set_grant_def api_delete_grant_def elim!: logging member_changed_logs split: sum.splits)

lemma upload_logged:
  assumes "ca_from c = address E" and "api_upload_release cfg E c form s = (Inr a, s')"
  shows "logs E (lit ''release.upload'') (us_name (ca_user c)) s s'"
proof -
  obtain package signature where "on_releases (add_release (sc_checks cfg) (ap_op E 1) (ap_files E) package signature (sv_releases s))
      (\<lambda>r. log_change E c (lit ''release.upload'') (release_name r) (Some (hr_sha256 r))) ReleaseIs s = (Inr a, s')"
    using assms(2) unfolding api_upload_release_def by (auto split: sum.splits option.splits)
  then show ?thesis by (rule on_releases_logs [OF _ _ assms(1)]) blast
qed

lemma releases_logged:
  assumes "ca_from c = address E"
  shows "api_offer_release E c i s = (Inr a, s') \<Longrightarrow> logs E (lit ''release.offer'') (us_name (ca_user c)) s s'"
    and "api_withdraw_release E c i s = (Inr a, s') \<Longrightarrow> logs E (lit ''release.withdraw'') (us_name (ca_user c)) s s'"
    and "api_delete_release E c i s = (Inr a, s') \<Longrightarrow> logs E (lit ''release.delete'') (us_name (ca_user c)) s s'"
  using assms by (auto simp: api_offer_release_def api_withdraw_release_def api_delete_release_def elim!: logging)

lemma admin_logs:
  assumes "handle_admin cfg E r c s = (Inr a, s')" and "action_of r = Some act" and "\<not> for_callers r" and "ca_from c = address E"
    and "\<And>x y z. r \<noteq> RSetup x y z" and "\<And>x y z. r \<noteq> RLogin x y z"
  shows "logs E act (us_name (ca_user c)) s s'"
  using assms
  by (cases r) (auto simp: handle_admin_def action_of_def for_callers_def users_logged devices_logged enroll_token_deleted_logged
      grants_logged upload_logged releases_logged)

lemma as_caller_Inr:
  assumes "as_caller cfg E h s handler = (Inr a, s')"
  obtains c s1 where "fst (identify cfg E h s) = Inr c" "handler c s1 = (Inr a, s')" "sv_log s1 = sv_log s" "ca_from c = address E"
proof -
  obtain c s1 where i: "identify cfg E h s = (Inr c, s1)" "handler c s1 = (Inr a, s')"
    using assms by (auto simp: as_caller_def split: prod.splits sum.splits)
  moreover have "ca_from c = address E" by (rule identified [of cfg E h s c]) (simp_all add: i)
  moreover have "sv_log s1 = sv_log s" using identify_log [of cfg E h s] i by simp
  ultimately show ?thesis using that by simp
qed

lemma as_admin_Inr:
  assumes "as_admin cfg E h s handler = (Inr a, s')"
  obtains c s1 where "fst (identify cfg E h s) = Inr c" "handler c s1 = (Inr a, s')" "sv_log s1 = sv_log s" "ca_from c = address E"
    "us_admin (ca_user c)"
proof -
  obtain c s1 where i: "identify cfg E h s = (Inr c, s1)" "us_admin (ca_user c)" "handler c s1 = (Inr a, s')"
    using assms by (auto simp: as_admin_def identify_admin_def split: prod.splits sum.splits if_splits)
  moreover have "ca_from c = address E" by (rule identified [of cfg E h s c]) (simp_all add: i)
  moreover have "sv_log s1 = sv_log s" using identify_log [of cfg E h s] i by simp
  ultimately show ?thesis using that by simp
qed

definition public :: "api_request \<Rightarrow> bool" where
  "public r \<longleftrightarrow> (case r of RHealth \<Rightarrow> True | RSetup _ _ _ \<Rightarrow> True | RLogin _ _ _ \<Rightarrow> True | RLogout \<Rightarrow> True | _ \<Rightarrow> False)"

lemma api_call_other: "\<not> public r \<Longrightarrow> api_call cfg E h r s =
  (if for_callers r then as_caller cfg E h s (handle_signed_in cfg E h r) else as_admin cfg E h s (handle_admin cfg E r))"
  by (cases r) (simp_all add: api_call_def public_def)

text \<open>Whom a request that succeeded is put down to: the user the setup created, the one a sign-in
  is for, and of any other request who was found to make it.\<close>

definition done_by :: "('e, 'f) server_config \<Rightarrow> api_env \<Rightarrow> request_head \<Rightarrow> api_request \<Rightarrow> answer \<Rightarrow> server_state \<Rightarrow> account \<Rightarrow> bool" where
  "done_by cfg E h r a s u \<longleftrightarrow>
     (case r of
        RSetup _ _ _ \<Rightarrow> a = UserIs u
      | RLogin _ _ _ \<Rightarrow> (\<exists>ck. a = SignedIn u ck)
      | _ \<Rightarrow> (\<exists>c. fst (identify cfg E h s) = Inr c \<and> ca_user c = u))"

lemma setup_logs:
  assumes "api_setup cfg E token name password s = (Inr a, s')"
  shows "\<exists>u. a = UserIs u \<and> logs E (lit ''setup'') (us_name u) s s'"
  using assms logs_change [of "\<lparr>ca_user = u, ca_from = address E\<rparr>" E _ s for u]
  by (auto simp: api_setup_def with_accounts_def split: prod.splits sum.splits)

lemma login_logs:
  assumes "api_login cfg E name password totp s = (Inr a, s')"
  shows "\<exists>u ck. a = SignedIn u ck \<and> logs E (lit ''login'') (us_name u) s s'"
proof -
  obtain token u acc where "a = SignedIn u (session_cookie token (12 * 3600))"
    "s' = log_change E \<lparr>ca_user = u, ca_from = Some (to_canonical (ap_from E))\<rparr> (lit ''login'') (us_name u) None (with_accounts acc s)"
    using assms by (auto simp: api_login_def Let_def split: prod.splits sum.splits denied.splits)
  then show ?thesis using logs_change [of "\<lparr>ca_user = u, ca_from = address E\<rparr>" E "with_accounts acc s" s]
    by (auto simp: address_def with_accounts_def)
qed

lemma login_failed_log:
  assumes "api_login cfg E name password totp s = (Inl e, s')" and "e \<noteq> Denied TotpNeeded"
  shows "\<exists>why. e = Denied why \<and> sv_log s' = audit_record (ap_audit E)
    \<lparr>ae_actor = None, ae_address = address E, ae_action = lit ''login.fail'', ae_target = Some name,
     ae_detail = Some (denied_text why)\<rparr> (sv_log s)"
  using assms by (auto simp: api_login_def address_def Let_def split: prod.splits sum.splits denied.splits)

lemma canonical_twice [simp]: "to_canonical (to_canonical a) = to_canonical a"
  by (cases a) (auto simp: to_canonical_def)

subsection \<open>What keys change\<close>

lemma enroll_tokens_listed: "snd (handle_admin cfg E REnrollTokens c s) = snd (api_list_enroll_tokens E s)"
  by (simp add: handle_admin_def)

lemma use_noted_then:
  assumes "use_noted s s1" and "s' = s1 \<or> s' = dead_tokens_gone E s1"
  shows "use_noted s s' \<or> use_noted (dead_tokens_gone E s) s'"
  using assms settled_dead_tokens [of s1 s E] by (auto simp: use_noted_def) (simp_all add: dead_tokens_gone_def)

lemma changed_by_key:
  assumes "reaches_route h r" and "\<not> public r" and "api_call cfg E h r s = (res, s')" and "s' \<noteq> s"
  shows "\<exists>u\<in>set (user_rows (db_accounts (sv_db s))). \<not> ur_disabled u \<and> brings_key cfg E h s u \<and>
    (use_noted s s' \<or>
     (r = REnrollTokens \<and> ur_admin u \<and> use_noted (dead_tokens_gone E s) s') \<or>
     (route_method r \<noteq> MGet \<and> (for_callers r \<or> ur_admin u) \<and> (bearer h = None \<longrightarrow> same_origin h)))"
proof -
  obtain x s1 where i: "identify cfg E h s = (x, s1)" by (rule prod.exhaust)
  have noted: "use_noted s s1" using identify_notes [of s cfg E h] i by simp
  obtain c where c: "fst (identify cfg E h s) = Inr c"
  proof (cases x)
    case (Inl e)
    then have "snd (identify cfg E h s) \<noteq> s"
      using assms(2-4) i by (auto simp: api_call_other as_caller_def as_admin_def identify_admin_def split: if_splits)
    then show ?thesis by (rule identify_changes) (rule that)
  qed (use i that in simp)
  then obtain u where u: "u \<in> set (user_rows (db_accounts (sv_db s)))" "\<not> ur_disabled u" "ca_user c = user_of u"
    "brings_key cfg E h s u" by (rule identified)
  have admin: "us_admin (ca_user c) \<longleftrightarrow> ur_admin u" using u(3) by (simp add: user_of_def)
  have x: "x = Inr c" using c i by simp
  have origin: "bearer h = None \<and> route_method r \<noteq> MGet \<longrightarrow> same_origin h"
    using u(4) safe_route [OF assms(1)] by (auto simp: brings_key_def split: option.splits)
  have "use_noted s s' \<or> (r = REnrollTokens \<and> ur_admin u \<and> use_noted (dead_tokens_gone E s) s') \<or>
    (route_method r \<noteq> MGet \<and> (for_callers r \<or> ur_admin u))"
  proof (cases "for_callers r")
    case True
    then have "s' = snd (handle_signed_in cfg E h r c s1)" using assms(2,3) i x by (auto simp: api_call_other as_caller_def)
    then show ?thesis using reading_signed_in [of r cfg E h c s1] noted True by auto
  next
    case False
    then have s': "s' = (if ur_admin u then snd (handle_admin cfg E r c s1) else s1)"
      using assms(2,3) i x admin by (auto simp: api_call_other as_admin_def identify_admin_def split: if_splits)
    show ?thesis
    proof (cases "ur_admin u \<and> route_method r = MGet")
      case True
      then show ?thesis
        using s' reading_admin [of r cfg E c s1] noted list_enroll_tokens_state [of E s1] use_noted_then [OF noted, of s' E]
        by (cases "r = REnrollTokens") (auto simp: enroll_tokens_listed)
    next
      case other: False
      then show ?thesis using s' noted by auto
    qed
  qed
  then show ?thesis using u origin by blast
qed

subsection \<open>What users see\<close>

lemma identify_db:
  "\<exists>a. sv_db (snd (identify cfg E h s)) = (sv_db s)\<lparr>db_accounts := a\<rparr> \<and> user_rows a = user_rows (db_accounts (sv_db s))"
proof (cases rule: identify_cases [of h cfg E s])
  case (1 token)
  have "user_rows (snd (Accounts.api_user C F token a)) = user_rows a" for C F a
    by (auto simp: Accounts.api_user_def Let_def split: option.split)
  then show ?thesis unfolding 1(2)
    by (intro exI [of _ "snd (Accounts.api_user (sc_accounts cfg) (ap_op E 0) token (db_accounts (sv_db s)))"])
      (simp add: with_accounts_def)
next
  case 2
  then show ?thesis by (intro exI [of _ "db_accounts (sv_db s)"]) simp
qed

lemma roles_on_accounts: "user_rows a = user_rows (db_accounts d) \<Longrightarrow> roles_on uid i (d\<lparr>db_accounts := a\<rparr>) = roles_on uid i d"
  by (simp add: roles_on_def ways_def)

lemma identify_keeps:
  assumes "identify cfg E h s = (x, s1)"
  shows "database_ok (sv_db s) \<Longrightarrow> database_ok (sv_db s1)" and "roles_on uid i (sv_db s1) = roles_on uid i (sv_db s)"
    and "db_devices (sv_db s1) = db_devices (sv_db s)" and "sv_log s1 = sv_log s"
proof -
  obtain ds where "list_all keyed ds" "sv_db s1 = directory_run (sc_accounts cfg) ds (sv_db s)"
    using leads_to_identify [of cfg s E h] assms unfolding leads_to_def by auto
  then show "database_ok (sv_db s) \<Longrightarrow> database_ok (sv_db s1)" using directory_run_ok by simp
  obtain a where a: "sv_db s1 = (sv_db s)\<lparr>db_accounts := a\<rparr>" "user_rows a = user_rows (db_accounts (sv_db s))"
    using identify_db [of cfg E h s] assms by auto
  then show "roles_on uid i (sv_db s1) = roles_on uid i (sv_db s)" "db_devices (sv_db s1) = db_devices (sv_db s)"
    by (simp_all add: roles_on_accounts)
  show "sv_log s1 = sv_log s" using identify_log [of cfg E h s] assms by simp
qed

lemma reach_ok:
  assumes "database_ok d" and "reach E uid d = Inr rs"
  shows "distinct (map re_id rs)"
    and "x \<in> set rs \<longleftrightarrow> roles_on uid (re_id x) d \<noteq> {} \<and> re_fingerprint x = key_of d (re_id x) \<and> re_role x = Max (roles_on uid (re_id x) d)"
proof -
  have rs: "rs = sort_key re_id (best_roles (reach_rows uid d))" using assms(2) by (simp add: reach_def split: if_splits)
  show "distinct (map re_id rs)"
    using distinct_noted [of "parsed (reach_rows uid d)"] by (simp add: rs best_roles_parsed distinct_map)
  show "x \<in> set rs \<longleftrightarrow> roles_on uid (re_id x) d \<noteq> {} \<and> re_fingerprint x = key_of d (re_id x) \<and> re_role x = Max (roles_on uid (re_id x) d)"
    using best_roles_member [OF assms(1)] by (simp add: rs)
qed

lemma roles_of_ok:
  assumes "database_ok d" and "roles_of E u d = Inr roles"
  shows "roles i = (if roles_on (us_id u) i d = {} then None else Some (Max (roles_on (us_id u) i d)))"
proof -
  obtain rs where rs: "reach E (us_id u) d = Inr rs" and roles: "roles = map_of (rev (map (\<lambda>r. (re_id r, re_role r)) rs))"
    using assms(2) by (auto simp: roles_of_def split: sum.splits)
  note ok = reach_ok [OF assms(1) rs]
  have dist: "distinct (map fst (rev (map (\<lambda>r. (re_id r, re_role r)) rs)))"
    using ok(1) by (simp add: rev_map [symmetric] comp_def)
  show ?thesis
  proof (cases "roles_on (us_id u) i d = {}")
    case True
    then have "i \<notin> re_id ` set rs" using ok(2) by auto
    then have "roles i = None" unfolding roles by (auto simp: map_of_eq_None_iff)
    then show ?thesis using True by simp
  next
    case False
    let ?x = "\<lparr>re_id = i, re_fingerprint = key_of d i, re_role = Max (roles_on (us_id u) i d)\<rparr>"
    have "?x \<in> set rs" using ok(2) [of ?x] False by simp
    then have "(i, Max (roles_on (us_id u) i d)) \<in> set (rev (map (\<lambda>r. (re_id r, re_role r)) rs))" by force
    then show ?thesis using map_of_is_SomeI [OF dist] False by (simp add: roles)
  qed
qed

lemma reachable_device:
  assumes "roles_on uid i d \<noteq> {}"
  shows "\<exists>v\<in>set (db_devices d). dr_id v = i"
proof -
  obtain w where "w \<in> ways d" "w_device w = i" using assms by (auto simp: roles_on_def)
  then show ?thesis using way_device by metis
qed

lemma device_of_id [simp]: "dv_id (device_of d v) = dr_id v"
  by (simp add: device_of_def split_def)

lemma listed_devices:
  assumes "database_ok d" and "list_devices F d = Inr ds"
  shows "dv_id ` set ds = dr_id ` set (db_devices d)" and "distinct (map dv_id ds)"
proof -
  let ?rows = "sort_key (\<lambda>r. (map ascii_lower (dr_name r), dr_id r)) (db_devices d)"
  have ds: "ds = map (device_of d) ?rows" using assms(2) by (simp add: list_devices_def split: if_splits)
  have ids: "map dv_id ds = map dr_id ?rows" unfolding ds by simp
  show "dv_id ` set ds = dr_id ` set (db_devices d)" by (metis ids set_map set_sort)
  have "distinct (map dr_id (db_devices d))" using assms(1) by (simp add: database_ok_def keys_in_order_def)
  then have "distinct (map dr_id ?rows)" by (simp add: distinct_map)
  then show "distinct (map dv_id ds)" by (simp only: ids)
qed

text \<open>A user who is no administrator sees what they have a role on, with the role.\<close>

definition seen_with :: "api_env \<Rightarrow> int \<Rightarrow> database \<Rightarrow> device \<Rightarrow> device" where
  "seen_with E uid d v = (with_presence E v)\<lparr>dv_role := Some (role_as_str (Max (roles_on uid (dv_id v) d)))\<rparr>"

lemma seen_with_simps [simp]: "dv_id (seen_with E uid d v) = dv_id v"
  "dv_role (seen_with E uid d v) = Some (role_as_str (Max (roles_on uid (dv_id v) d)))"
  by (simp_all add: seen_with_def with_presence_def)

lemma as_seen_by_user:
  assumes "database_ok d" and "roles_of F u d = Inr roles" and "\<not> us_admin u"
  shows "as_seen_by E u roles v = (if roles_on (us_id u) (dv_id v) d = {} then None else Some (seen_with E (us_id u) d v))"
  using roles_of_ok [OF assms(1,2), of "dv_id v"] assms(3) by (simp add: as_seen_by_def seen_with_def Let_def)

lemma somes_if: "somes (map (\<lambda>v. if P v then None else Some (f v)) xs) = map f (filter (\<lambda>v. \<not> P v) xs)"
  by (induction xs) auto

lemma seen_devices:
  fixes E :: api_env
  assumes "database_ok d" and "roles_of F u d = Inr roles" and "list_devices F' d = Inr ds" and "\<not> us_admin u"
  defines "seen_ds \<equiv> somes (map (as_seen_by E u roles) ds)"
  shows "(\<lambda>v. (dv_id v, dv_role v)) ` set seen_ds =
      {(i, Some (role_as_str (Max (roles_on (us_id u) i d)))) |i. roles_on (us_id u) i d \<noteq> {}}"
    and "distinct (map dv_id seen_ds)"
proof -
  note listed = listed_devices [OF assms(1,3)]
  let ?mine = "filter (\<lambda>v. roles_on (us_id u) (dv_id v) d \<noteq> {}) ds"
  have eq: "seen_ds = map (seen_with E (us_id u) d) ?mine"
    unfolding seen_ds_def as_seen_by_user [OF assms(1,2,4)] somes_if by (rule refl)
  have "map dv_id seen_ds = map dv_id ?mine" by (simp add: eq)
  then show "distinct (map dv_id seen_ds)" using listed(2) by (simp add: distinct_map_filter)
  have "(\<lambda>v. (dv_id v, dv_role v)) ` set seen_ds =
    (\<lambda>i. (i, Some (role_as_str (Max (roles_on (us_id u) i d))))) ` {i \<in> dv_id ` set ds. roles_on (us_id u) i d \<noteq> {}}"
    unfolding eq set_map image_image seen_with_simps set_filter by blast
  also have "{i \<in> dv_id ` set ds. roles_on (us_id u) i d \<noteq> {}} = {i. roles_on (us_id u) i d \<noteq> {}}"
    unfolding listed(1) using reachable_device by blast
  finally show "(\<lambda>v. (dv_id v, dv_role v)) ` set seen_ds =
      {(i, Some (role_as_str (Max (roles_on (us_id u) i d)))) |i. roles_on (us_id u) i d \<noteq> {}}"
    by (simp add: setcompr_eq_image)
qed

lemma calls_identified:
  assumes "fst (identify cfg E h s) = Inr c" and "for_callers r" and "\<not> public r"
  shows "fst (api_call cfg E h r s) = fst (handle_signed_in cfg E h r c (snd (identify cfg E h s)))"
  using assms by (cases "identify cfg E h s") (simp add: api_call_other as_caller_def)

lemma found_device:
  assumes "\<not> ev_fails F n"
  shows "get_device n F i d = (case find_device_row i d of None \<Rightarrow> Inl NotFound | Some r \<Rightarrow> Inr (device_of d r))"
  using assms by (simp add: get_device_def)

lemma get_device_by_user:
  assumes "database_ok (sv_db s)" and "\<And>n k. \<not> ev_fails (ap_op E n) k" and "\<not> us_admin (ca_user c)"
  shows "fst (api_get_device E c i s) = Inl (Denied NotFound) \<longleftrightarrow> roles_on (us_id (ca_user c)) i (sv_db s) = {}"
proof -
  obtain roles where roles: "roles_of (ap_op E 1) (ca_user c) (sv_db s) = Inr roles"
    using assms(2) by (simp add: roles_of_def reach_def)
  note seen_by = as_seen_by_user [OF assms(1) roles assms(3)]
  show ?thesis
  proof (cases "find_device_row i (sv_db s)")
    case None
    then have "\<not> (\<exists>v\<in>set (db_devices (sv_db s)). dr_id v = i)" by (auto simp: find_device_row_def find_None_iff)
    then have "roles_on (us_id (ca_user c)) i (sv_db s) = {}" using reachable_device by blast
    then show ?thesis using None assms(2) roles by (simp add: api_get_device_def found_device)
  next
    case (Some v)
    then have "dr_id v = i" unfolding find_device_row_def by (auto dest: find_SomeD)
    then show ?thesis using Some assms(2) roles by (simp add: api_get_device_def found_device seen_by)
  qed
qed

lemma device_grant_by_user:
  assumes "database_ok (sv_db s)" and "\<And>n k. \<not> ev_fails (ap_op E n) k"
  shows "fst (api_device_grant cfg E c i s) = Inl (Denied NotFound) \<longleftrightarrow> roles_on (us_id (ca_user c)) i (sv_db s) = {}"
proof -
  obtain rs where rs: "reach (ap_op E 1) (us_id (ca_user c)) (sv_db s) = Inr rs" using assms(2) by (simp add: reach_def)
  note ok = reach_ok [OF assms(1) rs]
  have "find (\<lambda>r. re_id r = i) rs = None \<longleftrightarrow> roles_on (us_id (ca_user c)) i (sv_db s) = {}"
  proof
    assume none: "find (\<lambda>r. re_id r = i) rs = None"
    show "roles_on (us_id (ca_user c)) i (sv_db s) = {}"
    proof (rule ccontr)
      assume ne: "roles_on (us_id (ca_user c)) i (sv_db s) \<noteq> {}"
      let ?x = "\<lparr>re_id = i, re_fingerprint = key_of (sv_db s) i, re_role = Max (roles_on (us_id (ca_user c)) i (sv_db s))\<rparr>"
      have "?x \<in> set rs" using ok(2) [of ?x] ne by simp
      then show False using none by (auto simp: find_None_iff)
    qed
  next
    assume "roles_on (us_id (ca_user c)) i (sv_db s) = {}"
    then show "find (\<lambda>r. re_id r = i) rs = None" using ok(2) by (auto simp: find_None_iff)
  qed
  then show ?thesis using rs by (auto simp: api_device_grant_def internal_def Let_def split: option.split sum.split)
qed

lemma device_granted:
  assumes "database_ok (sv_db s)" and "fst (api_device_grant cfg E c i s) = Inr (GrantIs id_text fp_text role_text text)"
  obtains device v sg bs where "issue_grant (sc_grants cfg) (ap_op E 2) (sc_identity cfg) device (us_name (ca_user c)) = Inr sg"
    "sc_ser_grant cfg sg = Inr bs" "text = to_hex bs" "id_text = device_id_display (from_fingerprint (re_fingerprint device))"
    "role_text = role_as_str (re_role device)" "roles_on (us_id (ca_user c)) i (sv_db s) \<noteq> {}"
    "re_role device = Max (roles_on (us_id (ca_user c)) i (sv_db s))"
    "v \<in> set (db_devices (sv_db s))" "dr_id v = i" "dr_fingerprint v = re_fingerprint device"
proof -
  obtain rs device sg bs where rs: "reach (ap_op E 1) (us_id (ca_user c)) (sv_db s) = Inr rs" "find (\<lambda>r. re_id r = i) rs = Some device"
    and more: "issue_grant (sc_grants cfg) (ap_op E 2) (sc_identity cfg) device (us_name (ca_user c)) = Inr sg"
    "sc_ser_grant cfg sg = Inr bs" "text = to_hex bs" "id_text = device_id_display (from_fingerprint (re_fingerprint device))"
    "role_text = role_as_str (re_role device)"
    using assms(2) by (auto simp: api_device_grant_def Let_def split: sum.splits option.splits)
  have "device \<in> set rs" "re_id device = i" using rs(2) by (auto dest: find_SomeD)
  then have role: "roles_on (us_id (ca_user c)) i (sv_db s) \<noteq> {}" "re_fingerprint device = key_of (sv_db s) i"
    "re_role device = Max (roles_on (us_id (ca_user c)) i (sv_db s))"
    using reach_ok(2) [OF assms(1) rs(1), of device] by simp_all
  obtain v where v: "v \<in> set (db_devices (sv_db s))" "dr_id v = i" using reachable_device [OF role(1)] by blast
  then have "dr_fingerprint v = re_fingerprint device" using key_of_device [OF assms(1) v(1)] role(2) by simp
  then show ?thesis using that more role(1,3) v by blast
qed

end
