(* ===== verification/Housekeeping.thy ===== *)
theory Housekeeping
  imports Api_Run
begin

text \<open>
  The server's daily sweep (\<open>crates/server/src/housekeeping.rs\<close>): sessions and setup tokens past
  their time, and entries of the audit log older than they are kept. And the server's web
  interface over time: requests, one after another, with sweeps between them.
\<close>

subsection \<open>The sweep\<close>

record swept =
  sw_audit_entries :: nat
  sw_sessions :: nat
  sw_setup_tokens :: nat

definition swept_nothing :: "swept \<Rightarrow> bool" where
  "swept_nothing w \<longleftrightarrow> w = \<lparr>sw_audit_entries = 0, sw_sessions = 0, sw_setup_tokens = 0\<rparr>"

text \<open>Three statements, each of which the database may fail; those before it stay.\<close>

definition sweep :: "account_env \<Rightarrow> u32 \<Rightarrow> int \<Rightarrow> server_state \<Rightarrow> swept option \<times> server_state" where
  "sweep E keep_days now s =
     (if ev_fails E 0 then (None, s)
      else
        let a = db_accounts (sv_db s);
            (over, logins) = partition (\<lambda>l. lr_expires_at l < now) (login_rows a);
            a1 = a\<lparr>login_rows := logins\<rparr> in
        if ev_fails E 1 then (None, with_accounts a1 s)
        else
          let (stale, setups) = partition (\<lambda>(_, expires). expires < now) (setup_rows a1);
              s2 = with_accounts (a1\<lparr>setup_rows := setups\<rparr>) s in
          if keep_days = 0
          then (Some \<lparr>sw_audit_entries = 0, sw_sessions = length over, sw_setup_tokens = length stale\<rparr>, s2)
          else if ev_fails E 2 then (None, s2)
          else
            let before = now - int (unat keep_days) * 24 * 3600;
                (old, entries) = partition (\<lambda>r. al_at r < before) (sv_log s2) in
            (Some \<lparr>sw_audit_entries = length old, sw_sessions = length over, sw_setup_tokens = length stale\<rparr>,
             s2\<lparr>sv_log := entries\<rparr>))"

text \<open>One round of \<open>keep_tidy\<close>, which does one at the start and one a day; what the sweep counts
  goes to the service log only.\<close>

definition tidy_round :: "account_env \<Rightarrow> u32 \<Rightarrow> server_state \<Rightarrow> server_state" where
  "tidy_round E keep_days s = snd (sweep E keep_days (ev_clock E 0) s)"

text \<open>Whether an entry is past the time it is kept for.\<close>

definition past_keeping :: "u32 \<Rightarrow> int \<Rightarrow> audit_row \<Rightarrow> bool" where
  "past_keeping keep_days now r \<longleftrightarrow> keep_days \<noteq> 0 \<and> al_at r < now - int (unat keep_days) * 24 * 3600"

lemma sweep_state:
  "snd (sweep E keep_days now s) =
     (let a = db_accounts (sv_db s);
          a1 = a\<lparr>login_rows := filter (\<lambda>l. \<not> lr_expires_at l < now) (login_rows a)\<rparr>;
          a2 = a1\<lparr>setup_rows := filter (\<lambda>x. \<not> snd x < now) (setup_rows a)\<rparr> in
      if ev_fails E 0 then s
      else if ev_fails E 1 then with_accounts a1 s
      else if keep_days = 0 \<or> ev_fails E 2 then with_accounts a2 s
      else (with_accounts a2 s)\<lparr>sv_log := filter (\<lambda>r. \<not> past_keeping keep_days now r) (sv_log s)\<rparr>)"
  by (simp add: sweep_def past_keeping_def Let_def comp_def split_def with_accounts_def)

definition without :: "(login_row \<Rightarrow> bool) \<Rightarrow> (bytes \<times> int \<Rightarrow> bool) \<Rightarrow> (audit_row \<Rightarrow> bool) \<Rightarrow> server_state \<Rightarrow> server_state" where
  "without over stale old s =
     (with_accounts ((db_accounts (sv_db s))\<lparr>login_rows := filter (\<lambda>l. \<not> over l) (login_rows (db_accounts (sv_db s))),
        setup_rows := filter (\<lambda>x. \<not> stale x) (setup_rows (db_accounts (sv_db s)))\<rparr>) s)\<lparr>sv_log := filter (\<lambda>r. \<not> old r) (sv_log s)\<rparr>"

lemma tidy_round_without:
  obtains over stale old where "tidy_round E keep_days s = without over stale old s"
    "\<And>r. old r \<Longrightarrow> past_keeping keep_days (ev_clock E 0) r"
proof -
  let ?over = "\<lambda>l. \<not> ev_fails E 0 \<and> lr_expires_at l < ev_clock E 0"
  let ?stale = "\<lambda>x :: bytes \<times> int. \<not> ev_fails E 0 \<and> \<not> ev_fails E 1 \<and> snd x < ev_clock E 0"
  let ?old = "\<lambda>r. \<not> ev_fails E 0 \<and> \<not> ev_fails E 1 \<and> \<not> ev_fails E 2 \<and> past_keeping keep_days (ev_clock E 0) r"
  have "tidy_round E keep_days s = without ?over ?stale ?old s"
    unfolding tidy_round_def sweep_state Let_def without_def with_accounts_def
    by (cases "ev_fails E 0"; cases "ev_fails E 1"; cases "ev_fails E 2"; cases "keep_days = 0") (simp_all add: past_keeping_def)
  then show ?thesis by (rule that) blast
qed

subsection \<open>What it keeps\<close>

lemma tables_ok_accounts:
  assumes "tables_ok d" and "user_rows a = user_rows (db_accounts d)" and "accounts_ok a"
  shows "tables_ok (d\<lparr>db_accounts := a\<rparr>)"
proof -
  have d: "database_ok d" using assms(1) by (simp add: tables_ok_def)
  then have "distinct (map ur_id (user_rows a))" "set (user_ids d) \<subseteq> ur_id ` set (user_rows a)"
    using assms(2) by (simp_all add: database_ok_def keys_in_order_def user_ids_def)
  then have "database_ok (d\<lparr>db_accounts := a\<rparr>)"
    using d keys.accounts refs.accounts fits.accounts unfolding database_ok_def by blast
  then show ?thesis using assms(3) by (simp add: tables_ok_def)
qed

lemma accounts_ok_swept: "accounts_ok a \<Longrightarrow> accounts_ok (a\<lparr>login_rows := filter P (login_rows a), setup_rows := filter Q (setup_rows a)\<rparr>)"
  by (auto simp: accounts_ok_def distinct_map_filter)

lemma tidy_round_ok:
  assumes "server_ok cfg s"
  shows "server_ok cfg (tidy_round E keep_days s)"
    and "user_rows (db_accounts (sv_db (tidy_round E keep_days s))) = user_rows (db_accounts (sv_db s))"
    and "\<And>r. r \<in> set (sv_log s) \<Longrightarrow> \<not> past_keeping keep_days (ev_clock E 0) r \<Longrightarrow> r \<in> set (sv_log (tidy_round E keep_days s))"
proof -
  let ?a = "db_accounts (sv_db s)"
  obtain over stale old where tidied: "tidy_round E keep_days s = without over stale old s"
    "\<And>r. old r \<Longrightarrow> past_keeping keep_days (ev_clock E 0) r" by (rule tidy_round_without [of E keep_days s]) blast
  have "tables_ok ((sv_db s)\<lparr>db_accounts := ?a\<lparr>login_rows := filter (\<lambda>l. \<not> over l) (login_rows ?a),
      setup_rows := filter (\<lambda>x. \<not> stale x) (setup_rows ?a)\<rparr>\<rparr>)"
    using assms accounts_ok_swept [where a = ?a and P = "\<lambda>l. \<not> over l" and Q = "\<lambda>x. \<not> stale x"]
    by (intro tables_ok_accounts) (simp_all add: server_ok_def tables_ok_def)
  then show "server_ok cfg (tidy_round E keep_days s)" using assms
    by (simp add: tidied(1) without_def server_ok_def with_accounts_def log_ok_filter)
  show "user_rows (db_accounts (sv_db (tidy_round E keep_days s))) = user_rows ?a"
    by (simp add: tidied(1) without_def with_accounts_def)
  show "r \<in> set (sv_log (tidy_round E keep_days s))"
    if "r \<in> set (sv_log s)" "\<not> past_keeping keep_days (ev_clock E 0) r" for r
    using that tidied(2) by (auto simp: tidied(1) without_def)
qed

subsection \<open>The server over time\<close>

datatype (plugins only: code) server_event =
    Requested api_env request_head api_request
  | Tidied account_env u32

fun server_step :: "('e, 'f) server_config \<Rightarrow> server_event \<Rightarrow> server_state \<Rightarrow> server_state" where
  "server_step cfg (Requested E h r) s = snd (api_call cfg E h r s)"
| "server_step cfg (Tidied E keep_days) s = tidy_round E keep_days s"

definition server_run :: "('e, 'f) server_config \<Rightarrow> server_event list \<Rightarrow> server_state \<Rightarrow> server_state" where
  "server_run cfg es s = fold (server_step cfg) es s"

definition server_sound :: "('e, 'f) server_config \<Rightarrow> server_state \<Rightarrow> bool" where
  "server_sound cfg s \<longleftrightarrow> server_ok cfg s \<and> administered (user_rows (db_accounts (sv_db s)))"

text \<open>An entry leaves the log only in a sweep, past the time it is kept for.\<close>

definition swept_in :: "server_event list \<Rightarrow> audit_row \<Rightarrow> bool" where
  "swept_in es r \<longleftrightarrow> (\<exists>E keep_days. Tidied E keep_days \<in> set es \<and> past_keeping keep_days (ev_clock E 0) r)"

lemma server_step_sound:
  assumes "server_sound cfg s" and "refuses_empty (sc_checks cfg)"
  shows "server_sound cfg (server_step cfg e s) \<and> (\<forall>r\<in>set (sv_log s). r \<in> set (sv_log (server_step cfg e s)) \<or> swept_in [e] r)"
proof (cases e)
  case (Requested E h r)
  then show ?thesis using leads_to_ok [OF api_call_leads [of cfg s E h r] _ assms(2)] assms(1) by (auto simp: server_sound_def)
next
  case (Tidied E keep_days)
  then show ?thesis using tidy_round_ok [where s = s and E = E and keep_days = keep_days and cfg = cfg] assms(1) by (auto simp: server_sound_def swept_in_def)
qed

lemma server_run_sound:
  assumes "server_sound cfg s" and "refuses_empty (sc_checks cfg)"
  shows "server_sound cfg (server_run cfg es s) \<and> (\<forall>r\<in>set (sv_log s). r \<in> set (sv_log (server_run cfg es s)) \<or> swept_in es r)"
  using assms(1)
proof (induction es arbitrary: s)
  case (Cons e es)
  have "server_sound cfg (server_step cfg e s)" "\<forall>r\<in>set (sv_log s). r \<in> set (sv_log (server_step cfg e s)) \<or> swept_in [e] r"
    using server_step_sound [OF Cons.prems assms(2), of e] by simp_all
  moreover have "swept_in [e] r \<or> swept_in es r \<longleftrightarrow> swept_in (e # es) r" for r by (auto simp: swept_in_def)
  moreover note Cons.IH [of "server_step cfg e s"]
  ultimately show ?case unfolding server_run_def fold_simps(2) comp_apply by metis
qed (simp add: server_run_def)

end
