(* ===== verification/Api_Theorems.thy ===== *)
theory Api_Theorems
  imports Api_Rights Housekeeping
begin

text \<open>
  Properties of the web interface: it keeps the server in order, only who may changes anything,
  what is done is in the log, users see and reach what grants let them at, and a grant it hands
  out is one the device takes.
\<close>

subsection \<open>Properties\<close>

text \<open>C14. The server stays in order whatever requests are made of it, by whomever, one after
  another, completed or stopped half-way, with sweeps in between: the database, its keys, names
  and references, the releases with their signatures and packages, the log with its ids in
  order; an active administrator is left; and an entry leaves the log only in a sweep, once it
  is older than entries are kept.\<close>

theorem server_stays_ok:
  assumes "tables_ok (sv_db s)" and "store_ok (sc_checks cfg) (sv_releases s)" and "log_ok (sv_log s)"
    and "refuses_empty (sc_checks cfg)" and "1 \<le> active_admins (db_accounts (sv_db s))"
  shows "tables_ok (sv_db (server_run cfg es s)) \<and> store_ok (sc_checks cfg) (sv_releases (server_run cfg es s)) \<and>
    log_ok (sv_log (server_run cfg es s)) \<and> 1 \<le> active_admins (db_accounts (sv_db (server_run cfg es s))) \<and>
    (\<forall>row\<in>set (sv_log s). row \<in> set (sv_log (server_run cfg es s)) \<or> swept_in es row)"
proof -
  let ?s = "server_run cfg es s"
  have active: "filter active rows \<noteq> [] \<longleftrightarrow> list_ex active rows" for rows
    by (auto simp: list_ex_iff filter_empty_conv)
  have one: "1 \<le> active_admins a \<longleftrightarrow> list_ex active (user_rows a)" for a
    unfolding active [symmetric] active_admins_eq by (cases "filter active (user_rows a)") simp_all
  have "distinct (map ur_id (user_rows (db_accounts (sv_db s))))"
    using assms(1) by (simp add: tables_ok_def database_ok_def keys_in_order_def user_ids_def)
  then have "server_sound cfg s"
    using assms one by (simp add: server_sound_def server_ok_def administered_def)
  from server_run_sound [OF this assms(4), of es] show ?thesis
    unfolding one by (simp add: server_sound_def server_ok_def administered_def)
qed


text \<open>C16. What is done is in the log: a request that succeeds and is not one by GET, a logout or
  the first step of setting up codes adds one entry, with the name of the user who made it, of
  whom the setup created or of whom the sign-in is for, where they asked from, when, and what
  they did; a failed sign-in adds one with the name that was tried. Given that the log can be
  written.\<close>

theorem what_is_done_is_logged:
  assumes "api_call cfg E h r s = (res, s')" and "\<not> ev_fails (ap_audit E) 0"
  shows "(\<forall>a act. res = Inr a \<and> action_of r = Some act \<longrightarrow>
      (\<exists>u target detail. sv_log s' = sv_log s @
        [\<lparr>al_id = next_id (map al_id (sv_log s)), al_at = ev_clock (ap_audit E) 0, al_actor = Some (us_name u),
          al_address = Some (to_canonical (ap_from E)), al_action = act, al_target = Some target, al_detail = detail\<rparr>] \<and>
        done_by cfg E h r a s u)) \<and>
    (\<forall>name password totp e. r = RLogin name password totp \<and> res = Inl e \<and> e \<noteq> Denied TotpNeeded \<longrightarrow>
      (\<exists>why. sv_log s' = sv_log s @
        [\<lparr>al_id = next_id (map al_id (sv_log s)), al_at = ev_clock (ap_audit E) 0, al_actor = None,
          al_address = Some (to_canonical (ap_from E)), al_action = lit ''login.fail'', al_target = Some name, al_detail = Some why\<rparr>]))"
proof (rule conjI, safe)
  fix a act
  assume res: "res = Inr a" and act: "action_of r = Some act"
  have entry: "\<exists>u target detail. sv_log s' = sv_log s @
        [\<lparr>al_id = next_id (map al_id (sv_log s)), al_at = ev_clock (ap_audit E) 0, al_actor = Some (us_name u),
          al_address = Some (to_canonical (ap_from E)), al_action = act, al_target = Some target, al_detail = detail\<rparr>] \<and>
        done_by cfg E h r a s u"
    if "logs E act (us_name u) s s'" "done_by cfg E h r a s u" for u
    using that assms(2) by (auto simp: logs_def audit_record_def audit_row_of_def address_def)
  show "\<exists>u target detail. sv_log s' = sv_log s @
        [\<lparr>al_id = next_id (map al_id (sv_log s)), al_at = ev_clock (ap_audit E) 0, al_actor = Some (us_name u),
          al_address = Some (to_canonical (ap_from E)), al_action = act, al_target = Some target, al_detail = detail\<rparr>] \<and>
        done_by cfg E h r a s u"
  proof (cases "public r")
    case True
    then consider token name password where "r = RSetup token name password" | name password totp where "r = RLogin name password totp"
      using act by (cases r) (simp_all add: public_def action_of_def)
    then show ?thesis
    proof cases
      case (1 token name password)
      then obtain u where "a = UserIs u" "logs E (lit ''setup'') (us_name u) s s'"
        using setup_logs assms(1) res by (fastforce simp: api_call_def)
      then show ?thesis using entry act 1 by (simp add: action_of_def done_by_def)
    next
      case (2 name password totp)
      then obtain u ck where "a = SignedIn u ck" "logs E (lit ''login'') (us_name u) s s'"
        using login_logs assms(1) res by (fastforce simp: api_call_def)
      then show ?thesis using entry act 2 by (simp add: action_of_def done_by_def)
    qed
  next
    case False
    obtain c s1 where c: "fst (identify cfg E h s) = Inr c" "sv_log s1 = sv_log s" "logs E act (us_name (ca_user c)) s1 s'"
    proof (cases "for_callers r")
      case True
      then have "as_caller cfg E h s (handle_signed_in cfg E h r) = (Inr a, s')" using assms(1) res False by (simp add: api_call_other)
      then show ?thesis by (rule as_caller_Inr) (use signed_in_logs [OF _ act True] that in blast)
    next
      case admin: False
      then have "as_admin cfg E h s (handle_admin cfg E r) = (Inr a, s')" using assms(1) res False by (simp add: api_call_other)
      moreover have "r \<noteq> RSetup x y z" "r \<noteq> RLogin x y z'" for x y z z' using False by (auto simp: public_def)
      ultimately show ?thesis by (elim as_admin_Inr) (use admin_logs [OF _ act admin] that in blast)
    qed
    then have "logs E act (us_name (ca_user c)) s s'" by (simp add: logs_def)
    moreover have "done_by cfg E h r a s (ca_user c)" using c(1) False by (cases r) (simp_all add: done_by_def public_def)
    ultimately show ?thesis by (rule entry)
  qed
next
  fix name password totp e
  assume "r = RLogin name password totp" "res = Inl e" "e \<noteq> Denied TotpNeeded"
  then obtain why where "sv_log s' = audit_record (ap_audit E)
    \<lparr>ae_actor = None, ae_address = address E, ae_action = lit ''login.fail'', ae_target = Some name,
     ae_detail = Some (denied_text why)\<rparr> (sv_log s)"
    using login_failed_log assms(1) by (fastforce simp: api_call_def)
  then show "\<exists>why. sv_log s' = sv_log s @
        [\<lparr>al_id = next_id (map al_id (sv_log s)), al_at = ev_clock (ap_audit E) 0, al_actor = None,
          al_address = Some (to_canonical (ap_from E)), al_action = lit ''login.fail'', al_target = Some name, al_detail = Some why\<rparr>]"
    using assms(2) by (auto simp: audit_record_def audit_row_of_def address_def)
qed

text \<open>C15. A user who is no administrator sees exactly the devices grants let them at, once each and
  with the highest role any gives; of any other device they learn nothing: asked for it, or for
  a grant on it, the server answers as for one that is not there.\<close>

theorem users_see_what_they_may_reach:
  assumes "database_ok (sv_db s)" and "fst (identify cfg E h s) = Inr c" and "\<not> us_admin (ca_user c)"
  shows "(\<forall>ds. fst (api_call cfg E h RDevices s) = Inr (DevicesSeen ds) \<longrightarrow>
      distinct (map dv_id ds) \<and>
      (\<lambda>v. (dv_id v, dv_role v)) ` set ds =
        {(i, Some (role_as_str (Max (roles_on (us_id (ca_user c)) i (sv_db s))))) |i. roles_on (us_id (ca_user c)) i (sv_db s) \<noteq> {}}) \<and>
    ((\<forall>n k. \<not> ev_fails (ap_op E n) k) \<longrightarrow>
      (\<forall>i. (fst (api_call cfg E h (RDevice i) s) = Inl (Denied NotFound) \<longleftrightarrow> roles_on (us_id (ca_user c)) i (sv_db s) = {}) \<and>
           (fst (api_call cfg E h (RDeviceGrant i) s) = Inl (Denied NotFound) \<longleftrightarrow> roles_on (us_id (ca_user c)) i (sv_db s) = {})))"
proof -
  obtain s1 where i: "identify cfg E h s = (Inr c, s1)" using assms(2) by (cases "identify cfg E h s") auto
  note kept = identify_keeps [OF i]
  have ok: "database_ok (sv_db s1)" by (rule kept(1) [OF assms(1)])
  have call: "fst (api_call cfg E h r s) = fst (handle_signed_in cfg E h r c s1)" if "for_callers r" "\<not> public r" for r
    using calls_identified [OF assms(2) that] i by simp
  have list: "distinct (map dv_id ds) \<and> (\<lambda>v. (dv_id v, dv_role v)) ` set ds =
        {(i, Some (role_as_str (Max (roles_on (us_id (ca_user c)) i (sv_db s))))) |i. roles_on (us_id (ca_user c)) i (sv_db s) \<noteq> {}}"
    if "fst (api_call cfg E h RDevices s) = Inr (DevicesSeen ds)" for ds
  proof -
    have "fst (api_list_devices E c s1) = Inr (DevicesSeen ds)"
      using that call [of RDevices] by (simp add: for_callers_def public_def handle_signed_in_def)
    then obtain roles all where "roles_of (ap_op E 1) (ca_user c) (sv_db s1) = Inr roles" "list_devices (ap_op E 2) (sv_db s1) = Inr all"
      "ds = somes (map (as_seen_by E (ca_user c) roles) all)"
      by (auto simp: api_list_devices_def reading_def split: sum.splits)
    then show ?thesis using seen_devices [OF ok _ _ assms(3)] kept(2) by simp
  qed
  have device: "fst (api_call cfg E h (RDevice i) s) = fst (api_get_device E c i s1)"
    and grant: "fst (api_call cfg E h (RDeviceGrant i) s) = fst (api_device_grant cfg E c i s1)" for i
    by (simp_all add: call for_callers_def public_def handle_signed_in_def)
  have "fst (api_get_device E c i s1) = Inl (Denied NotFound) \<longleftrightarrow> roles_on (us_id (ca_user c)) i (sv_db s) = {}"
    "fst (api_device_grant cfg E c i s1) = Inl (Denied NotFound) \<longleftrightarrow> roles_on (us_id (ca_user c)) i (sv_db s) = {}"
    if "\<forall>n k. \<not> ev_fails (ap_op E n) k" for i
    unfolding kept(2) [symmetric]
    by (rule get_device_by_user [OF ok _ assms(3)], use that in blast) (rule device_grant_by_user [OF ok], use that in blast)
  then show ?thesis using list by (simp add: device grant)
qed

text \<open>C17. The grant the web interface hands out opens the device, and only as the grants have it: it
  was asked for with the key of an enabled user, is in their name and for the device asked for,
  with the highest role the database gives them on it, and the device's agent accepts it for its
  five minutes. Given that the server's signatures verify and the encoding reads back.\<close>

theorem web_grant_is_accepted:
  assumes "database_ok (sv_db s)" and "api_call cfg E h (RDeviceGrant i) s = (Inr (GrantIs id_text fp_text role_text text), s')"
    and "ev_random (ap_op E 2) 0 = Some nonce" and "ev_clock (ap_op E 2) 0 < 2 ^ 63"
    and "\<forall>g b. gc_ser (sc_grants cfg) g = Inr b \<longrightarrow> gc_de (sc_grants cfg) b = Inr g"
    and "gc_key_pair (sc_grants cfg) (id_key (sc_identity cfg)) = Inr sign" and "ed25519_key (id_cert (sc_identity cfg)) = Some key"
    and "\<forall>m. gc_verify (sc_grants cfg) key m (sign m)"
    and "gs_server gs = fingerprint_of (gc_sha (sc_grants cfg)) (id_cert (sc_identity cfg))"
    and "\<forall>v\<in>set (db_devices (sv_db s)). dr_id v = i \<longrightarrow> gs_device gs = dr_fingerprint v" and "gs_seen gs nonce = None"
    and "unat (issue_time (ev_clock (ap_op E 2) 0)) \<le> unat t" and "unat t \<le> unat (issue_time (ev_clock (ap_op E 2) 0)) + 300"
  shows "\<exists>u\<in>set (user_rows (db_accounts (sv_db s))). \<exists>v\<in>set (db_devices (sv_db s)). \<exists>sg g bs.
    \<not> ur_disabled u \<and> brings_key cfg E h s u \<and> dr_id v = i \<and> sc_ser_grant cfg sg = Inr bs \<and> text = to_hex bs \<and>
    fst (check_at (sc_grants cfg) sg t gs) = Inr g \<and> g_user g = ur_name u \<and> g_device g = dr_fingerprint v \<and>
    id_text = device_id_display (from_fingerprint (g_device g)) \<and> role_text = role_as_str (g_role g) \<and>
    roles_on (ur_id u) i (sv_db s) \<noteq> {} \<and> g_role g = Max (roles_on (ur_id u) i (sv_db s))"
proof -
  have "api_call cfg E h (RDeviceGrant i) s = as_caller cfg E h s (handle_signed_in cfg E h (RDeviceGrant i))"
    by (simp add: api_call_def for_callers_def)
  then have "as_caller cfg E h s (handle_signed_in cfg E h (RDeviceGrant i)) = (Inr (GrantIs id_text fp_text role_text text), s')"
    using assms(2) by simp
  then obtain c s1 where i: "identify cfg E h s = (Inr c, s1)"
    "fst (api_device_grant cfg E c i s1) = Inr (GrantIs id_text fp_text role_text text)"
    by (auto simp: as_caller_def handle_signed_in_def split: prod.splits sum.splits)
  note kept = identify_keeps [OF i(1)]
  have "fst (identify cfg E h s) = Inr c" by (simp add: i)
  then obtain u where u: "u \<in> set (user_rows (db_accounts (sv_db s)))" "\<not> ur_disabled u" "ca_user c = user_of u" "brings_key cfg E h s u"
    by (rule identified)
  have name: "us_name (ca_user c) = ur_name u" "us_id (ca_user c) = ur_id u" by (simp_all add: u(3) user_of_def)
  obtain device v sg bs where d: "issue_grant (sc_grants cfg) (ap_op E 2) (sc_identity cfg) device (ur_name u) = Inr sg"
    "sc_ser_grant cfg sg = Inr bs" "text = to_hex bs" "id_text = device_id_display (from_fingerprint (re_fingerprint device))"
    "role_text = role_as_str (re_role device)" "roles_on (ur_id u) i (sv_db s) \<noteq> {}"
    "re_role device = Max (roles_on (ur_id u) i (sv_db s))"
    "v \<in> set (db_devices (sv_db s))" "dr_id v = i" "dr_fingerprint v = re_fingerprint device"
    by (rule device_granted [OF kept(1) [OF assms(1)] i(2)]) (auto simp: name kept(2,3))
  let ?g = "\<lparr>g_device = re_fingerprint device, g_user = ur_name u, g_role = re_role device,
     g_issued_at = issue_time (ev_clock (ap_op E 2) 0), g_expires_at = issue_time (ev_clock (ap_op E 2) 0) + LIFETIME_SECS, g_nonce = nonce\<rparr>"
  have "verify (sc_grants cfg) sg (gs_server gs) = Inr ?g"
    using signed_grant_verifies [OF issue_grant_Inr [OF d(1) assms(3)] _ assms(6,7)] assms(5,8,9) by simp
  moreover have "g_device ?g = gs_device gs" using assms(10) d(8-10) by simp
  ultimately have "fst (check_at (sc_grants cfg) sg t gs) = Inr ?g"
    by (rule granted_is_accepted [OF _ _ _ _ _ assms(4,12,13)]) (simp_all add: assms(11))
  then show ?thesis
    by (intro bexI [OF _ u(1)] bexI [OF _ d(8)] exI [of _ sg] exI [of _ ?g] exI [of _ bs]) (simp add: u d)
qed

subsection \<open>Witnesses\<close>

text \<open>User 2, no administrator, has a token and may view device 1.\<close>

definition web_accounts :: accounts where
  "web_accounts = (db_accounts intro_directory)\<lparr>user_rows := [demo_row 1 [65], (demo_row 2 [66])\<lparr>ur_admin := False\<rparr>]\<rparr>"

definition web_state :: server_state where
  "web_state = \<lparr>sv_db = intro_directory\<lparr>db_accounts := web_accounts\<rparr>, sv_log = [], sv_releases = no_releases\<rparr>"

definition web_config :: "(unit, unit) server_config" where
  "web_config = \<lparr>sc_accounts = demo_accounts_crypto, sc_grants = intro_crypto, sc_ser_grant = (\<lambda>_. Inr [7]),
     sc_identity = intro_identity, sc_checks = demo_checks, sc_address = [], sc_fingerprint = [], sc_web_hash = None\<rparr>"

definition web_env :: api_env where
  "web_env = \<lparr>ap_from = V4 1, ap_op = (\<lambda>_. intro_env), ap_audit = intro_env, ap_files = calm_files, ap_online = (\<lambda>_. False)\<rparr>"

definition web_head :: "http_method \<Rightarrow> request_head" where
  "web_head m = \<lparr>rq_method = m, rq_authorization = Some (utf8 (lit ''Bearer '' @ intro_token)), rq_cookies = [], rq_origin = None,
     rq_host = None\<rparr>"

lemma web_bearer: "bearer (web_head m) = Some intro_token"
proof -
  have "header_text (utf8 (lit ''Bearer '' @ intro_token)) = Some (lit ''Bearer '' @ intro_token)"
    by (simp add: header_text_def intro_token_def API_PREFIX_def lit_def utf8_char_def)
  moreover have "trim intro_token = intro_token"
    by (rule trim_id) (simp_all add: intro_token_def API_PREFIX_def lit_def is_whitespace_def)
  ultimately show ?thesis
    by (simp add: bearer_def web_head_def starts_with_def) (simp add: lit_def)
qed

lemma web_directory_ok: "database_ok (sv_db web_state)"
proof -
  have "distinct (map ur_id (user_rows web_accounts))" "set (user_ids intro_directory) \<subseteq> ur_id ` set (user_rows web_accounts)"
    by (simp_all add: web_accounts_def intro_directory_def demo_accounts_def demo_row_def user_ids_def)
  then show ?thesis
    using intro_directory_ok keys.accounts refs.accounts fits.accounts unfolding database_ok_def web_state_def
    by (metis server_state.select_convs(1))
qed

definition web_user :: account where
  "web_user = \<lparr>us_id = 2, us_name = [66], us_admin = False, us_totp = True, us_disabled = False\<rparr>"

definition web_used :: accounts where
  "web_used = web_accounts\<lparr>token_rows := map (\<lambda>t. t\<lparr>tr_last_used_at := Some 300\<rparr>) (token_rows web_accounts)\<rparr>"

lemma web_identified: "identify web_config web_env (web_head m) web_state =
  (Inr \<lparr>ca_user = web_user, ca_from = Some (V4 1)\<rparr>, web_state\<lparr>sv_db := intro_directory\<lparr>db_accounts := web_used\<rparr>\<rparr>)"
proof -
  have "Accounts.api_user demo_accounts_crypto intro_env intro_token web_accounts = (Inr (Some web_user), web_used)"
    by (simp add: Accounts.api_user_def intro_token_def starts_with_def intro_env_def Let_def web_accounts_def web_used_def
        intro_directory_def token_valid_def web_user_def demo_simps)
  then show ?thesis
    by (simp add: identify_def web_bearer web_config_def web_env_def web_state_def address_def to_canonical_def with_accounts_def)
qed

lemma web_call: "for_callers r \<Longrightarrow> \<not> public r \<Longrightarrow> api_call web_config web_env (web_head m) r web_state =
  handle_signed_in web_config web_env (web_head m) r \<lparr>ca_user = web_user, ca_from = Some (V4 1)\<rparr>
    (web_state\<lparr>sv_db := intro_directory\<lparr>db_accounts := web_used\<rparr>\<rparr>)"
  by (simp add: api_call_other as_caller_def web_identified)

lemma web_tables_ok: "tables_ok (sv_db web_state)"
  using web_directory_ok
  by (simp add: tables_ok_def accounts_ok_def web_state_def web_accounts_def intro_directory_def demo_directory_def demo_accounts_def
      demo_row_def folded_user_def ascii_lower_def)

definition web_events :: "server_event list" where
  "web_events = [Requested web_env (web_head MPost) RTotpBegin, Tidied intro_env 365, Requested web_env (web_head MDelete) (RDeleteUser 1)]"

theorem server_stays_ok_witness:
  "tables_ok (sv_db (server_run web_config web_events web_state)) \<and> log_ok (sv_log (server_run web_config web_events web_state))"
proof -
  have "store_ok (sc_checks web_config) (sv_releases web_state)" "refuses_empty (sc_checks web_config)"
    using no_releases_ok demo_checks_refuse by (simp_all add: web_config_def web_state_def store_ok_def no_releases_def one_offer_def)
  moreover have "log_ok (sv_log web_state)" "1 \<le> active_admins (db_accounts (sv_db web_state))"
    by (simp_all add: web_state_def web_accounts_def active_admins_def demo_row_def)
  ultimately show ?thesis using server_stays_ok [OF web_tables_ok] by blast
qed


lemma web_reach: "reach intro_env 2 (intro_directory\<lparr>db_accounts := web_used\<rparr>) = Inr [\<lparr>re_id = 1, re_fingerprint = demo_fp, re_role = View\<rparr>]"
proof -
  have "reach_rows 2 (intro_directory\<lparr>db_accounts := web_used\<rparr>) = [(1, demo_fp, role_as_str View)]"
    by (simp add: reach_rows_def web_used_def web_accounts_def intro_directory_def demo_directory_def demo_accounts_def demo_row_def row_of_def)
  then show ?thesis
    by (simp add: reach_def best_roles_def intro_env_def demo_env_at_def demo_fp_def del: role_as_str.simps)
qed

lemma web_granted:
  "\<exists>id_text fp_text s'. api_call web_config web_env (web_head MPost) (RDeviceGrant 1) web_state =
     (Inr (GrantIs id_text fp_text (role_as_str View) (to_hex [7])), s')"
proof -
  have "issue_grant intro_crypto intro_env intro_identity \<lparr>re_id = 1, re_fingerprint = demo_fp, re_role = View\<rparr> [66] = Inr intro_signed"
    using intro_issue by (simp add: intro_access_def server_access_def)
  then show ?thesis
    unfolding web_call [of "RDeviceGrant 1", simplified for_callers_def public_def, simplified]
    by (simp add: handle_signed_in_def api_device_grant_def Let_def web_env_def web_user_def web_reach web_config_def del: role_as_str.simps)
qed

theorem what_is_done_is_logged_witness:
  "\<exists>(u :: account) (s' :: server_state) (row :: audit_row). sv_log s' = sv_log web_state @ [row] \<and> al_action row = lit ''session.grant'' \<and> al_actor row = Some (us_name u)"
proof -
  obtain a s' where granted: "api_call web_config web_env (web_head MPost) (RDeviceGrant 1) web_state = (Inr a, s')" using web_granted by blast
  have "\<not> ev_fails (ap_audit web_env) 0" by (simp add: web_env_def intro_env_def demo_env_at_def)
  note logged = what_is_done_is_logged [OF granted this, THEN conjunct1, rule_format, of a "lit ''session.grant''"]
  have act: "action_of (RDeviceGrant 1) = Some (lit ''session.grant'')" by (simp add: action_of_def)
  obtain u :: account and target detail where eq: "sv_log s' = sv_log web_state @
     [\<lparr>al_id = next_id (map al_id (sv_log web_state)), al_at = ev_clock (ap_audit web_env) 0, al_actor = Some (us_name u),
       al_address = Some (to_canonical (ap_from web_env)), al_action = lit ''session.grant'', al_target = Some target, al_detail = detail\<rparr>]"
    using logged [OF conjI [OF refl act]] by (elim exE conjE) (rule that)
  show ?thesis by (intro exI [of _ u] exI [of _ s'] exI, rule conjI, rule eq) simp
qed

theorem users_see_what_they_may_reach_witness:
  "roles_on 2 1 (sv_db web_state) \<noteq> {}"
proof -
  have c: "fst (identify web_config web_env (web_head MPost) web_state) = Inr \<lparr>ca_user = web_user, ca_from = Some (V4 1)\<rparr>"
    by (simp add: web_identified)
  have "\<forall>n k. \<not> ev_fails (ap_op web_env n) k" by (simp add: web_env_def intro_env_def demo_env_at_def)
  then have "fst (api_call web_config web_env (web_head MPost) (RDeviceGrant 1) web_state) = Inl (Denied NotFound) \<longleftrightarrow>
      roles_on 2 1 (sv_db web_state) = {}"
    using users_see_what_they_may_reach [OF web_directory_ok c] by (simp add: web_user_def)
  moreover have "fst (api_call web_config web_env (web_head MPost) (RDeviceGrant 1) web_state) \<noteq> Inl (Denied NotFound)"
    using web_granted by auto
  ultimately show ?thesis by simp
qed

theorem web_grant_is_accepted_witness:
  "\<exists>u\<in>set (user_rows (db_accounts (sv_db web_state))). \<exists>sg g. fst (check_at intro_crypto sg 400 (grants_new demo_cert demo_fp)) = Inr g \<and>
     g_user g = ur_name u \<and> g_role g = Max (roles_on (ur_id u) 1 (sv_db web_state))"
proof -
  obtain id_text fp_text s' where granted: "api_call web_config web_env (web_head MPost) (RDeviceGrant 1) web_state =
     (Inr (GrantIs id_text fp_text (role_as_str View) (to_hex [7])), s')" using web_granted by blast
  have env: "ev_random (ap_op web_env 2) 0 = Some [1]" "ev_clock (ap_op web_env 2) 0 < 2 ^ 63"
    "unat (issue_time (ev_clock (ap_op web_env 2) 0)) \<le> unat (400 :: u64)"
    "unat (400 :: u64) \<le> unat (issue_time (ev_clock (ap_op web_env 2) 0)) + 300"
    by (simp_all add: web_env_def intro_env_def demo_env_at_def issue_time_def)
  have crypto: "\<forall>g b. gc_ser (sc_grants web_config) g = Inr b \<longrightarrow> gc_de (sc_grants web_config) b = Inr g"
    "gc_key_pair (sc_grants web_config) (id_key (sc_identity web_config)) = Inr (\<lambda>m. m)"
    "ed25519_key (id_cert (sc_identity web_config)) = Some (replicate 32 1)"
    "\<forall>m. gc_verify (sc_grants web_config) (replicate 32 1) m m"
    "gs_server (grants_new demo_cert demo_fp) = fingerprint_of (gc_sha (sc_grants web_config)) (id_cert (sc_identity web_config))"
    by (simp_all add: web_config_def intro_crypto_def intro_identity_def demo_key grants_new_def fingerprint_of_def)
      (simp_all add: demo_grant_crypto_def)
  have gs: "\<forall>v\<in>set (db_devices (sv_db web_state)). dr_id v = 1 \<longrightarrow> gs_device (grants_new demo_cert demo_fp) = dr_fingerprint v"
    "gs_seen (grants_new demo_cert demo_fp) [1] = None"
    by (simp_all add: grants_new_def web_state_def intro_directory_def demo_directory_def)
  have "sc_grants web_config = intro_crypto" by (simp add: web_config_def)
  then show ?thesis
    using web_grant_is_accepted [OF web_directory_ok granted env(1,2) crypto gs env(3,4)] by metis
qed

end
