(* ===== verification/Spec2Isabelle.thy ===== *)
theory Spec2Isabelle
  imports Video_Theorems Access_Exchange Grants Release Held Clock Typing Rendezvous Registry Relay
    Totp Accounts_Theorems Introduction Rate Known Picture Viewer_Handshake_Theorems Api_Theorems
begin

text \<open>
  Nearhand, a remote desktop: an agent shows a machine's screen to a viewer and takes its input,
  over QUIC, end to end; a server introduces the two, relays for them when they cannot reach each
  other, and keeps accounts, grants and releases. This development models the parts of it whose
  correctness is more than calling a library, and proves what they promise.

  How the code is read. Machine integers are words of their width and wrap, as in the release
  profile, which checks no overflow; lengths and indices that come from vectors are naturals.
  Text is a list of scalar values, its bytes the UTF-8 of it. A fallible function returns a sum,
  the error to the left, or an option; where the code can panic, which ends the process, the
  result is an \<open>outcome\<close> or the branch is said. State is passed and returned; a mutex makes an
  operation one step. Loops that end are functions with a measure; the two loops of the video
  reassembler that may not are partial functions into \<open>option\<close>, \<open>None\<close> being the run that never
  returns, so that returning is proved. Cryptography, the serialiser, the operating system,
  clocks and random sources are arguments, with what is relied on as named hypotheses.

  The library.

  \<^item> \<open>Prelude\<close>: types, vectors (\<open>swap_remove\<close>, \<open>position\<close>), endian bytes, UTF-8. \<open>Hex\<close>: numbers and
    lines as text. \<open>Float64\<close>: rounding to 53 bits and the locale \<open>rounding\<close> of what is used of it.
  \<^item> \<open>Proto\<close>, \<open>Wire\<close> (\<open>core/src/proto.rs\<close>, \<open>wire.rs\<close>, \<open>lib.rs\<close>): messages, limits, framing.
  \<^item> \<open>Video\<close> (\<open>core/src/video.rs\<close>): packetizing and the reassembler, every operation. \<open>Video_Order\<close>:
    the order of frame ids across the wrap. \<open>Video_Run\<close>: reachable states, and the locale of
    invariants they keep. \<open>Video_Safety\<close>, \<open>Video_Delivery\<close>, \<open>Video_Packets\<close>: the bookkeeping, what is
    handed on, and that it is what was sent. \<open>Video_Liveness\<close>, \<open>Video_Hang\<close>: when the loops return,
    and how they do not. \<open>Video_Repair\<close>: what is asked for again, and deadlines.
    \<open>Video_Theorems\<close>: the properties.
  \<^item> \<open>Access\<close> (\<open>core/src/access.rs\<close>), \<open>Gate\<close> (\<open>agent/src/password.rs\<close>, \<open>access.rs\<close>, \<open>gate.rs\<close>): the
    password exchange and the passwords behind it; the locale \<open>gate\<close> is the trait, interpreted on
    both. \<open>Access_Exchange\<close>: the two ends together.
  \<^item> \<open>Grant\<close>, \<open>Grants\<close> (\<open>core/src/grant.rs\<close>, \<open>transport/src/grant.rs\<close>, \<open>agent/src/grants.rs\<close>): roles,
    signed grants, and the agent's check of them. \<open>Fingerprint\<close> (\<open>transport/src/lib.rs\<close>).
  \<^item> \<open>Release\<close> (\<open>core/src/release.rs\<close>, \<open>transport/src/release.rs\<close>, \<open>agent/src/update.rs\<close>): versions,
    signed releases, their files, and one round of an agent's update.
  \<^item> \<open>Held\<close>, \<open>Clock\<close>, \<open>Typing\<close> (\<open>core/src\<close>): held keys, clock offsets, typed text.
  \<^item> \<open>Rendezvous\<close> (\<open>core/src/rendezvous.rs\<close>), \<open>Registry\<close> (\<open>server/src/rendezvous.rs\<close>): device IDs,
    messages, and the server's registry: who holds an ID, attempts, introductions, ceilings.
    \<open>Relay\<close> (\<open>transport/src/relay.rs\<close> and the server's forwarding): the tunnel end to end.
  \<^item> \<open>Totp\<close>, \<open>Accounts\<close> (\<open>server/src/totp.rs\<close>, \<open>accounts.rs\<close>): codes; users, sessions and tokens over
    tables of rows. \<open>Accounts_Run\<close>: the locale of invariants of the table of users, with three
    interpretations, and that the other tables stay in order with it. \<open>Accounts_Theorems\<close>: the properties, and what overlapping requests do.
  \<^item> \<open>Devices\<close>, \<open>Permissions\<close> (\<open>server/src/devices.rs\<close>, \<open>grants.rs\<close>): the tables of devices, their
    groups and the tokens that enroll them; user groups, grants, and what a user may reach.
    \<open>Directory\<close>: the whole database under any requests, and the locale of its invariants, a law
    for each statement. \<open>Directory_Invariants\<close>: its interpretations: keys and names, references,
    values, and the uses a token has left. \<open>Directory_Theorems\<close>: the properties, with the ways from
    users to devices as the abstract view of the tables.
  \<^item> \<open>Audit_Log\<close> (\<open>server/src/audit.rs\<close>): the audit log and its pages. \<open>Housekeeping\<close>
    (\<open>server/src/housekeeping.rs\<close>): the daily sweep of old entries and expired sessions, and the
    server over time, requests and sweeps in turn. \<open>Release_Store\<close>
    (\<open>server/src/releases.rs\<close>): the releases a server holds, their files, and what it answers an
    agent that asks. \<open>Release_Store_Theorems\<close>: what is offered is signed and there, and what two
    requests that overlap do.
  \<^item> \<open>Api\<close> (\<open>server/src/api.rs\<close>): who is asking, a definition for each handler, and the routes, over
    the database, the log and the releases. \<open>Api_Run\<close>: what a request leads to is what the
    operations of \<open>Directory\<close>, \<open>Release_Store\<close> and \<open>Audit_Log\<close> do, so their invariants are the server's.
    \<open>Api_Rights\<close>: which request needs which key, and what it shows. \<open>Api_Theorems\<close>: the properties.
  \<^item> \<open>Introduction\<close>: the registry over that database and the server's key, to the agent's check.
  \<^item> \<open>Rate\<close> (\<open>agent/src/rate.rs\<close>): the adaptive bitrate. \<open>Known\<close> (\<open>viewer/src/known.rs\<close>): the keys a
    viewer has seen, and their file.

  \<^item> \<open>Host\<close> (\<open>agent/src/host.rs\<close>): the person at the machine, the request they are asked about and
    the session they are shown. \<open>Handshake\<close> (\<open>agent/src/session.rs\<close>, to the list of monitors): what
    an agent asks of a viewer before it is let in, as a machine whose events are the messages and
    what the person does; its gate is either password of \<open>Gate\<close>. \<open>Handshake_Theorems\<close>: traces of it
    among other sessions, that nobody gets in for less than what is asked, and how it ends.
  \<^item> \<open>Viewer_Handshake\<close> (\<open>viewer/src/direct.rs\<close>): the other end, and both ends joined over their
    streams. \<open>Viewer_Handshake_Theorems\<close>: who has what is asked for gets in. \<open>Viewer_Run\<close>: the loop
    around it that comes back after a loss, and what it does not come back from.
  \<^item> \<open>Streams\<close> (\<open>transport/src/lib.rs\<close>): messages on a stream. \<open>Side_Streams\<close>: input from the
    viewer's queue to the agent's injector, clipboard text and the pointer.
  \<^item> \<open>Sending\<close>, \<open>Session\<close> (\<open>agent/src/session.rs\<close>, after the handshake): frames split, sent, kept and
    sent again; the viewer's messages, video started, stopped and started again by itself.
    \<open>Session_Theorems\<close>: what holds all through a session, up to the chunks its datagrams carry.
  \<^item> \<open>Viewer_Session\<close> (\<open>viewer/src/direct.rs\<close>, the loop of \<open>talk\<close>): datagrams into the reassembler,
    frames to the decoder, what is asked for. \<open>Viewer_Session_Theorems\<close>: that it shows what was
    captured. \<open>Picture\<close>: and all of it, where nothing is lost or overtaken on the way.

  How the parts meet. A viewer asks \<open>Registry\<close> for a device by the ID that \<open>Rendezvous\<close> makes from
  its \<open>Fingerprint\<close>; what comes back names the key, and with a token a grant of \<open>Grants\<close>, which the
  agent checks itself: \<open>Introduction\<close> follows that from the token to the agent, and \<open>Api\<close>
  hands the same grant to a browser. The accounts, devices and grants behind it are changed through
  \<open>Api\<close>, and by an agent that enrolls; the log of \<open>Audit_Log\<close> says who did what. What \<open>Release_Store\<close>
  is given there is what \<open>Release\<close> of an agent fetches, checks and installs. Over the connection,
  whichever way \<open>Relay\<close> carried it, \<open>Viewer_Handshake\<close> and \<open>Handshake\<close> come to terms: the grant, the
  exchange of \<open>Access\<close>, or both, and the yes of \<open>Host\<close>. Then \<open>Session\<close> has \<open>Sending\<close> split the
  picture with \<open>Video\<close> at the rate \<open>Rate\<close> chooses, and the viewer's reassembler puts it together:
  the datagrams are the effects \<open>Sends\<close> of the one and the chunks the other takes in. \<open>Side_Streams\<close>
  carries what is done with the keyboard the other way; \<open>Typing\<close> and \<open>Held\<close> make it.

  Bounds. The properties of the video loops are for fewer than 64 frames in flight, each within
  half the range of ids of the last settled one, and theorems show what happens past that. The
  rate control is in range for ceilings below two terabits a second, where \<open>u32\<close> would wrap.
  The joint run of the two handshakes counts its steps, and the theorem says that some number is
  enough; no other fuel is used. A session's ids are followed for as many frames as it takes,
  modulo 2^32; that all of a picture arrives is shown for up to 2^31 frames, half the range,
  within which ids have an order. Requests to the server are followed one after another; where
  two that overlap do what one after another they would not, a lemma shows it.

  Not modelled: capture, encoding, decoding, rendering, clipboard and input injection, which
  call the operating system; time limits QUIC itself keeps; reading HTTP requests and writing
  JSON, which axum and serde do; command lines, services, configuration and logging. Log lines
  and counters that nothing reads back are left out of what is modelled.
\<close>

end
